(* ===== verification/Prelude.thy ===== *)
theory Prelude
  imports Main "HOL-Library.AList" "HOL-Library.List_Lexorder"
begin

text \<open>
  Shared vocabulary of the development: Python strings as lists of code points, the
  string methods the components call, the insertion-ordered dictionary
  (\<open>dict\<close> / \<open>collections.OrderedDict\<close>), and the interface locale \<open>recency_dict\<close> that
  every bounded, least-recently-used store of the program relies on.
\<close>

named_theorems py_str "string methods of the source language"
named_theorems ev "definitions unfolded to evaluate a model on a concrete input"
named_theorems od "laws of the insertion-ordered dictionary"

section \<open>Strings\<close>

text \<open>
  A Python string is a sequence of Unicode code points. ASCII literals are written
  \<open>u ''...''\<close>. Strings are compared lexicographically by code point, as Python does.
\<close>

type_synonym ustr = "nat list"

definition u :: "string \<Rightarrow> ustr" where
  "u s = map of_char s"

lemma u_eq_iff [simp]: "u s = u t \<longleftrightarrow> s = t"
  unfolding u_def by (rule inj_map_eq_map) (simp add: inj_def)

lemma u_Nil_iff [simp]: "u s = [] \<longleftrightarrow> s = []" "[] = u s \<longleftrightarrow> s = []"
  by (auto simp: u_def)

text \<open>\<open>str.isspace\<close> of one character; the regular expression class \<open>\s\<close> is the same set.\<close>

definition is_space :: "nat \<Rightarrow> bool" where
  "is_space c \<longleftrightarrow> 9 \<le> c \<and> c \<le> 13 \<or> 28 \<le> c \<and> c \<le> 32 \<or> c = 0x85 \<or> c = 0xA0 \<or> c = 0x1680
     \<or> 0x2000 \<le> c \<and> c \<le> 0x200A \<or> c = 0x2028 \<or> c = 0x2029 \<or> c = 0x202F \<or> c = 0x205F
     \<or> c = 0x3000"

definition lstrip :: "ustr \<Rightarrow> ustr" where
  "lstrip s = dropWhile is_space s"

definition rstrip :: "ustr \<Rightarrow> ustr" where
  "rstrip s = rev (dropWhile is_space (rev s))"

definition strip :: "ustr \<Rightarrow> ustr" where
  "strip s = rstrip (lstrip s)"

definition startswith :: "ustr \<Rightarrow> ustr \<Rightarrow> bool" where
  "startswith s p \<longleftrightarrow> take (length p) s = p"

definition endswith :: "ustr \<Rightarrow> ustr \<Rightarrow> bool" where
  "endswith s p \<longleftrightarrow> startswith (rev s) (rev p)"

fun contains :: "ustr \<Rightarrow> ustr \<Rightarrow> bool" where
  "contains [] p \<longleftrightarrow> p = []"
| "contains (c # s) p \<longleftrightarrow> startswith (c # s) p \<or> contains s p"

fun split_on :: "nat \<Rightarrow> ustr \<Rightarrow> ustr list" where
  "split_on d [] = [[]]"
| "split_on d (c # s) =
     (if c = d then [] # split_on d s
      else (case split_on d s of [] \<Rightarrow> [[c]] | w # ws \<Rightarrow> (c # w) # ws))"

fun join :: "ustr \<Rightarrow> ustr list \<Rightarrow> ustr" where
  "join sep [] = []"
| "join sep [w] = w"
| "join sep (w # ws) = w @ sep @ join sep ws"

lemma startswith_iff: "startswith s p \<longleftrightarrow> (\<exists>t. s = p @ t)"
  unfolding startswith_def by (metis append_eq_conv_conj append_take_drop_id)

lemma endswith_iff: "endswith s p \<longleftrightarrow> (\<exists>t. s = t @ p)"
proof -
  have "(\<exists>t. rev s = rev p @ t) \<longleftrightarrow> (\<exists>t. s = t @ p)"
    by (metis rev_append rev_rev_ident)
  then show ?thesis by (simp add: endswith_def startswith_iff)
qed

lemma contains_iff: "contains s p \<longleftrightarrow> (\<exists>a b. s = a @ p @ b)"
proof (induction s)
  case Nil
  then show ?case by auto
next
  case (Cons c s)
  have "(\<exists>a b. c # s = a @ p @ b) \<longleftrightarrow> (\<exists>b. c # s = p @ b) \<or> (\<exists>a b. s = a @ p @ b)"
    (is "?l \<longleftrightarrow> ?r")
  proof
    assume ?l
    then obtain a b where "c # s = a @ p @ b" by blast
    then show ?r by (cases a) auto
  next
    assume ?r
    then show ?l
    proof (elim disjE exE)
      fix b assume "c # s = p @ b"
      then have "c # s = [] @ p @ b" by (simp only: append_Nil)
      then show ?l by (intro exI)
    next
      fix a b assume "s = a @ p @ b"
      then have "c # s = (c # a) @ p @ b" by (simp only: append_Cons)
      then show ?l by (intro exI)
    qed
  qed
  then show ?case unfolding contains.simps startswith_iff Cons.IH by blast
qed

lemma set_lstrip: "set (lstrip s) \<subseteq> set s"
  by (auto simp: lstrip_def dest: set_dropWhileD)

lemma set_rstrip: "set (rstrip s) \<subseteq> set s"
  by (auto simp: rstrip_def dest: set_dropWhileD)

lemma set_strip: "set (strip s) \<subseteq> set s"
  unfolding strip_def using set_lstrip set_rstrip by blast

lemma strip_Nil [simp]: "strip [] = []"
  by (simp add: strip_def lstrip_def rstrip_def)

lemma strip_eq_Nil_iff: "strip s = [] \<longleftrightarrow> (\<forall>c \<in> set s. is_space c)"
proof -
  have "strip s = [] \<longleftrightarrow> (\<forall>c \<in> set (dropWhile is_space s). is_space c)"
    by (simp add: strip_def lstrip_def rstrip_def)
  also have "\<dots> \<longleftrightarrow> dropWhile is_space s = []"
  proof (cases "dropWhile is_space s")
    case (Cons c t)
    have "\<not> is_space (hd (dropWhile is_space s))"
      by (rule hd_dropWhile) (simp add: Cons del: dropWhile_eq_Nil_conv)
    with Cons show ?thesis by (simp del: dropWhile_eq_Nil_conv)
  qed (simp del: dropWhile_eq_Nil_conv)
  finally show ?thesis by simp
qed

text \<open>Removing from both ends the characters that satisfy a predicate.\<close>

definition strip_by :: "(nat \<Rightarrow> bool) \<Rightarrow> ustr \<Rightarrow> ustr" where
  "strip_by P s = rev (dropWhile P (rev (dropWhile P s)))"

lemma strip_eq_strip_by: "strip = strip_by is_space"
  by (simp add: fun_eq_iff strip_def lstrip_def rstrip_def strip_by_def)

lemma strip_by_ends:
  assumes "strip_by P s \<noteq> []"
  shows "\<not> P (hd (strip_by P s))" "\<not> P (last (strip_by P s))"
proof -
  define t where "t = dropWhile P s"
  have ne: "dropWhile P (rev t) \<noteq> []"
    using assms by (simp add: strip_by_def t_def)
  have "\<not> P (hd (dropWhile P (rev t)))"
    using ne by (rule hd_dropWhile)
  then show "\<not> P (last (strip_by P s))"
    using ne by (simp add: strip_by_def t_def last_rev)
  have t0: "t \<noteq> []" using ne by auto
  then have h: "\<not> P (hd t)"
    unfolding t_def by (rule hd_dropWhile)
  obtain ys where "rev t = ys @ dropWhile P (rev t)"
    by (metis takeWhile_dropWhile_id)
  then have "t = rev (dropWhile P (rev t)) @ rev ys"
    by (metis rev_append rev_rev_ident)
  then have "hd t = hd (rev (dropWhile P (rev t)))"
    using ne by (metis hd_append2 rev_is_Nil_conv)
  then show "\<not> P (hd (strip_by P s))"
    using h by (simp add: strip_by_def t_def)
qed

lemma strip_by_id:
  assumes "s \<noteq> [] \<Longrightarrow> \<not> P (hd s) \<and> \<not> P (last s)"
  shows "strip_by P s = s"
proof (cases s)
  case Nil
  then show ?thesis by (simp add: strip_by_def)
next
  case (Cons c t)
  then have "\<not> P (hd s)" "\<not> P (last s)" using assms by auto
  moreover from this have "dropWhile P s = s"
    using Cons by simp
  moreover have "hd (rev s) = last s" by (simp add: hd_rev)
  with \<open>\<not> P (last s)\<close> have "dropWhile P (rev s) = rev s"
    by (metis dropWhile.simps dropWhile_eq_self_iff)
  ultimately show ?thesis by (simp add: strip_by_def)
qed

lemma strip_by_strip_by [simp]: "strip_by P (strip_by P s) = strip_by P s"
  by (rule strip_by_id) (use strip_by_ends in blast)

lemmas strip_ends = strip_by_ends [where P = is_space, folded strip_eq_strip_by]
lemmas strip_id = strip_by_id [where P = is_space, folded strip_eq_strip_by]

lemma strip_strip [simp]: "strip (strip s) = strip s"
  by (simp add: strip_eq_strip_by)

lemma split_on_not_Nil [simp]: "split_on d s \<noteq> []"
  by (induction s) (auto split: list.splits)

lemma split_on_join [py_str]: "join [d] (split_on d s) = s"
proof (induction s)
  case (Cons c s)
  obtain w ws where e: "split_on d s = w # ws" by (cases "split_on d s") auto
  with Cons show ?case by (cases ws) auto
qed simp

lemma split_on_sep_free: "w \<in> set (split_on d s) \<Longrightarrow> d \<notin> set w"
  by (induction s arbitrary: w) (auto split: list.splits if_splits)

lemma join_split_on:
  assumes "ws \<noteq> []" "\<forall>w \<in> set ws. d \<notin> set w"
  shows "split_on d (join [d] ws) = ws"
  using assms
proof (induction ws)
  case (Cons w ws)
  have one: "split_on d w = [w]" if "d \<notin> set w" for w
    using that by (induction w) auto
  have app: "split_on d (w @ d # t) = w # split_on d t" if "d \<notin> set w" for w t
    using that by (induction w) auto
  show ?case
  proof (cases ws)
    case Nil
    with Cons.prems show ?thesis by (simp add: one)
  next
    case (Cons v vs)
    with Cons.prems Cons.IH show ?thesis by (simp add: app)
  qed
qed simp

declare u_def [ev] is_space_def [ev] lstrip_def [ev] rstrip_def [ev] strip_def [ev] startswith_def [ev]
  endswith_def [ev]

text \<open>\<open>str(n)\<close> of an integer.\<close>

fun decimal :: "nat \<Rightarrow> ustr" where
  "decimal n = (if n < 10 then [48 + n] else decimal (n div 10) @ [48 + n mod 10])"

definition show_int :: "int \<Rightarrow> ustr" where
  "show_int i = (if i < 0 then 45 # decimal (nat (- i)) else decimal (nat i))"

declare show_int_def [ev]

lemma decimal_digits: "c \<in> set (decimal n) \<Longrightarrow> 48 \<le> c \<and> c \<le> 57"
proof (induction n rule: decimal.induct)
  case (1 n)
  then show ?case
    by (cases "n < 10") (auto simp: decimal.simps [of n] simp del: decimal.simps)
qed

lemma decimal_not_Nil [simp]: "decimal n \<noteq> []"
  by (subst decimal.simps) (simp del: decimal.simps)

section \<open>Results that may be errors\<close>

text \<open>A loop over a list that stops at the first error.\<close>

fun filter_or_error :: "('a \<Rightarrow> 'e + bool) \<Rightarrow> 'a list \<Rightarrow> 'e + 'a list" where
  "filter_or_error f [] = Inr []"
| "filter_or_error f (x # xs) =
     (case f x of
        Inl e \<Rightarrow> Inl e
      | Inr b \<Rightarrow> map_sum id (\<lambda>ys. if b then x # ys else ys) (filter_or_error f xs))"

lemma filter_or_error_Inr:
  "filter_or_error f xs = Inr ys \<Longrightarrow> ys = filter (\<lambda>x. f x = Inr True) xs \<and> (\<forall>x \<in> set xs. \<not> isl (f x))"
  by (induction xs arbitrary: ys) (auto split: sum.splits if_splits simp: map_sum_def)

section \<open>The insertion-ordered dictionary\<close>

text \<open>
  A Python \<open>dict\<close> or \<open>OrderedDict\<close> is the list of its items in order, oldest first.
  Assigning to a present key keeps its position (\<open>AList.update\<close>), a new key goes to
  the end; \<open>del\<close> is \<open>AList.delete\<close>; \<open>move_to_end\<close> is \<open>od_touch\<close>; \<open>popitem(last=False)\<close>
  on a non-empty dictionary is \<open>od_pop\<close>.
\<close>

type_synonym ('k, 'v) odict = "('k \<times> 'v) list"

definition od_keys :: "('k, 'v) odict \<Rightarrow> 'k list" where
  "od_keys d = map fst d"

definition od_ok :: "('k, 'v) odict \<Rightarrow> bool" where
  "od_ok d \<longleftrightarrow> distinct (map fst d)"

definition od_touch :: "'k \<Rightarrow> ('k, 'v) odict \<Rightarrow> ('k, 'v) odict" where
  "od_touch k d = (case map_of d k of None \<Rightarrow> d | Some v \<Rightarrow> AList.delete k d @ [(k, v)])"

definition od_pop :: "('k, 'v) odict \<Rightarrow> ('k, 'v) odict" where
  "od_pop d = tl d"

declare od_keys_def [ev] od_touch_def [ev] od_pop_def [ev]

text \<open>How many keys are younger than \<open>k\<close>.\<close>

definition younger :: "'k list \<Rightarrow> 'k \<Rightarrow> nat" where
  "younger ks k = length (takeWhile (\<lambda>j. j \<noteq> k) (rev ks))"

lemma younger_snoc: "younger (ks @ [j]) k = (if j = k then 0 else Suc (younger ks k))"
  by (simp add: younger_def)

lemma younger_less: "k \<in> set ks \<Longrightarrow> younger ks k < length ks"
proof -
  have "k \<in> set xs \<Longrightarrow> length (takeWhile (\<lambda>j. j \<noteq> k) xs) < length xs" for xs
    by (induction xs) auto
  from this [of "rev ks"] show "k \<in> set ks \<Longrightarrow> younger ks k < length ks"
    by (simp add: younger_def)
qed

lemma younger_removeAll: "j \<noteq> k \<Longrightarrow> younger (removeAll j ks) k \<le> younger ks k"
proof -
  assume "j \<noteq> k"
  then have "length (takeWhile (\<lambda>i. i \<noteq> k) (removeAll j xs)) \<le> length (takeWhile (\<lambda>i. i \<noteq> k) xs)" for xs
    by (induction xs) auto
  then show ?thesis
    by (simp add: younger_def removeAll_filter_not_eq rev_filter)
qed

lemma takeWhile_take: "takeWhile P (take n xs) = take n (takeWhile P xs)"
  by (induction xs arbitrary: n) (auto simp: take_Cons split: nat.splits)

lemma younger_drop: "younger ks k < length ks - i \<Longrightarrow> younger (drop i ks) k = younger ks k"
  by (simp add: younger_def rev_drop takeWhile_take)

lemma mem_drop_younger:
  "k \<in> set ks \<Longrightarrow> younger ks k < length ks - i \<Longrightarrow> k \<in> set (drop i ks)"
proof (rule ccontr)
  assume k: "k \<in> set ks" "younger ks k < length ks - i" and "k \<notin> set (drop i ks)"
  then have "takeWhile (\<lambda>j. j \<noteq> k) (rev (drop i ks)) = rev (drop i ks)"
    unfolding takeWhile_eq_all_conv by auto
  then have "younger (drop i ks) k = length ks - i" by (simp only: younger_def length_rev length_drop)
  with k younger_drop [of ks k i] show False by simp
qed

text \<open>
  The interface the bounded stores use: lookup, assignment, deletion, marking as most
  recently used and dropping the oldest entry, with the order of the keys as the
  observable state. The laws are the documented behaviour of \<open>OrderedDict\<close>.
\<close>

locale recency_dict =
  fixes get :: "'d \<Rightarrow> 'k \<Rightarrow> 'v option"
    and put :: "'k \<Rightarrow> 'v \<Rightarrow> 'd \<Rightarrow> 'd"
    and del :: "'k \<Rightarrow> 'd \<Rightarrow> 'd"
    and touch :: "'k \<Rightarrow> 'd \<Rightarrow> 'd"
    and pop :: "'d \<Rightarrow> 'd"
    and keys :: "'d \<Rightarrow> 'k list"
    and ok :: "'d \<Rightarrow> bool"
  assumes get_None: "ok d \<Longrightarrow> get d k = None \<longleftrightarrow> k \<notin> set (keys d)"
    and ok_distinct: "ok d \<Longrightarrow> distinct (keys d)"
    and get_put: "ok d \<Longrightarrow> get (put k v d) = (get d)(k \<mapsto> v)"
    and keys_put: "ok d \<Longrightarrow> keys (put k v d) = (if k \<in> set (keys d) then keys d else keys d @ [k])"
    and ok_put: "ok d \<Longrightarrow> ok (put k v d)"
    and get_del: "ok d \<Longrightarrow> get (del k d) = (get d)(k := None)"
    and keys_del: "ok d \<Longrightarrow> keys (del k d) = removeAll k (keys d)"
    and ok_del: "ok d \<Longrightarrow> ok (del k d)"
    and get_touch: "ok d \<Longrightarrow> get (touch k d) = get d"
    and keys_touch: "ok d \<Longrightarrow>
      keys (touch k d) = (if k \<in> set (keys d) then removeAll k (keys d) @ [k] else keys d)"
    and ok_touch: "ok d \<Longrightarrow> ok (touch k d)"
    and keys_pop: "ok d \<Longrightarrow> keys (pop d) = tl (keys d)"
    and get_pop: "ok d \<Longrightarrow> get (pop d) = (if keys d = [] then get d else (get d)(hd (keys d) := None))"
    and ok_pop: "ok d \<Longrightarrow> ok (pop d)"
begin

lemma pops: "ok d \<Longrightarrow> ok ((pop ^^ i) d) \<and> keys ((pop ^^ i) d) = drop i (keys d)"
  by (induction i) (simp_all add: ok_pop keys_pop tl_drop drop_Suc)

lemma get_pops:
  assumes "ok d"
  shows "get ((pop ^^ i) d) k = (if k \<in> set (take i (keys d)) then None else get d k)"
proof (induction i)
  case (Suc i)
  have 1: "ok ((pop ^^ i) d)" and 2: "keys ((pop ^^ i) d) = drop i (keys d)"
    using pops [OF assms] by blast+
  show ?case
  proof (cases "i < length (keys d)")
    case True
    then have "hd (drop i (keys d)) = keys d ! i" "drop i (keys d) \<noteq> []"
      by (simp_all add: hd_drop_conv_nth)
    with Suc 1 2 True show ?thesis
      by (auto simp: get_pop take_Suc_conv_app_nth)
  next
    case False
    with Suc 1 2 show ?thesis by (simp add: get_pop)
  qed
qed simp

text \<open>The most recently used key survives every run of evictions that leaves an entry.\<close>

lemma touched_survives:
  assumes "ok d" "k \<in> set (keys d)" "i < length (keys d)"
  shows "get ((pop ^^ i) (touch k d)) k = get d k"
proof -
  let ?ks = "removeAll k (keys d)"
  have len: "length ?ks = length (keys d) - 1"
    using assms ok_distinct by (simp add: distinct_remove1_removeAll [symmetric] length_remove1)
  have "set (take i (?ks @ [k])) \<subseteq> set ?ks"
    using assms(3) len by (auto dest: in_set_takeD)
  then have "k \<notin> set (take i (?ks @ [k]))" by auto
  then show ?thesis
    using assms by (simp add: get_pops ok_touch keys_touch get_touch)
qed

text \<open>
  Storing under a new key in a store bounded by \<open>n\<close>: drop the oldest entries until there is
  room, then add. Fewer than \<open>n - 1\<close> younger keys mean the entry stays.
\<close>

lemma keys_room:
  assumes "ok d"
  shows "keys ((pop ^^ (Suc (length (keys d)) - n)) d) = drop (Suc (length (keys d)) - n) (keys d)"
  using pops [OF assms] by blast

lemma room_size:
  assumes "ok d" "0 < n" "length (keys d) \<le> n"
  shows "length (keys (put j v ((pop ^^ (Suc (length (keys d)) - n)) d))) \<le> n"
  using assms pops [of d "Suc (length (keys d)) - n"] by (auto simp: keys_put)

lemma room_survives:
  assumes "ok d" "k \<in> set (keys d)" "j \<noteq> k" "Suc (younger (keys d) k) < n"
  defines "d' \<equiv> (pop ^^ (Suc (length (keys d)) - n)) d"
  shows "get (put j v d') k = get d k \<and> k \<in> set (keys (put j v d'))
    \<and> younger (keys (put j v d')) k \<le> Suc (younger (keys d) k)"
proof -
  let ?i = "Suc (length (keys d)) - n"
  have d': "ok d'" "keys d' = drop ?i (keys d)"
    unfolding d'_def using pops [OF assms(1)] by blast+
  have yl: "younger (keys d) k < length (keys d)"
    using assms(2) by (rule younger_less)
  then have lt: "younger (keys d) k < length (keys d) - ?i" using assms(4) by linarith
  then have mem: "k \<in> set (keys d')" and y: "younger (keys d') k = younger (keys d) k"
    using assms(2) by (simp_all add: d' mem_drop_younger younger_drop)
  from mem d'(1) get_None have "get d' k \<noteq> None" by blast
  then have "get d' k = get d k"
    unfolding d'_def using get_pops [OF assms(1)] by (simp split: if_splits)
  with mem y d' \<open>j \<noteq> k\<close> show ?thesis
    by (simp add: get_put keys_put younger_snoc)
qed

lemma touch_survives:
  assumes "ok d" "k \<in> set (keys d)" "j \<noteq> k"
  shows "get (touch j d) k = get d k \<and> k \<in> set (keys (touch j d))
    \<and> younger (keys (touch j d)) k \<le> Suc (younger (keys d) k)"
  using assms by (simp add: get_touch keys_touch younger_snoc younger_removeAll)

lemma touch_youngest: "ok d \<Longrightarrow> k \<in> set (keys d) \<Longrightarrow> younger (keys (touch k d)) k = 0"
  by (simp add: keys_touch younger_snoc)

lemma keys_put_touch: "ok d \<Longrightarrow> j \<in> set (keys d) \<Longrightarrow> keys (put j v (touch j d)) = keys (touch j d)"
  by (simp add: keys_put ok_touch keys_touch)

end

lemma map_of_tl:
  "distinct (map fst d) \<Longrightarrow>
   map_of (tl d) = (if d = [] then map_of d else (map_of d)(fst (hd d) := None))"
  by (cases d) (auto simp: fun_eq_iff map_of_eq_None_iff)

interpretation odict: recency_dict map_of AList.update AList.delete od_touch od_pop od_keys od_ok
proof
  fix d :: "('k, 'v) odict" and k v
  assume ok: "od_ok d"
  show "(map_of d k = None) = (k \<notin> set (od_keys d))"
    by (simp add: od_keys_def map_of_eq_None_iff)
  show "distinct (od_keys d)" using ok by (simp add: od_keys_def od_ok_def)
  show "map_of (AList.update k v d) = (map_of d)(k \<mapsto> v)" by (rule update_conv')
  show "od_keys (AList.update k v d) = (if k \<in> set (od_keys d) then od_keys d else od_keys d @ [k])"
    by (simp add: od_keys_def update_keys)
  show "od_ok (AList.update k v d)" using ok by (simp add: od_ok_def distinct_update)
  show "map_of (AList.delete k d) = (map_of d)(k := None)" by (rule delete_conv')
  show "od_keys (AList.delete k d) = removeAll k (od_keys d)"
    by (simp add: od_keys_def delete_keys)
  show "od_ok (AList.delete k d)" using ok by (simp add: od_ok_def distinct_delete)
  show "map_of (od_touch k d) = map_of d"
    by (auto simp: od_touch_def delete_conv' fun_eq_iff map_add_def split: option.splits)
  show "od_keys (od_touch k d)
      = (if k \<in> set (od_keys d) then removeAll k (od_keys d) @ [k] else od_keys d)"
    by (auto simp: od_touch_def od_keys_def delete_keys map_of_eq_None_iff split: option.splits)
       (metis map_of_SomeD fst_conv image_eqI)
  show "od_ok (od_touch k d)"
    using ok by (auto simp: od_touch_def od_ok_def delete_keys distinct_removeAll split: option.splits)
  show "od_keys (od_pop d) = tl (od_keys d)" by (simp add: od_keys_def od_pop_def map_tl)
  show "map_of (od_pop d)
      = (if od_keys d = [] then map_of d else (map_of d)(hd (od_keys d) := None))"
    using ok unfolding od_ok_def od_pop_def od_keys_def by (simp add: map_of_tl hd_map)
  show "od_ok (od_pop d)" using ok by (cases d) (simp_all add: od_ok_def od_pop_def)
qed

declare odict.get_put [od] odict.get_del [od] odict.get_touch [od] odict.ok_put [od]
  odict.ok_del [od] odict.ok_touch [od] odict.ok_pop [od] odict.keys_put [od]
  odict.keys_del [od] odict.keys_touch [od] odict.keys_pop [od]

lemma length_od_keys [simp]: "length (od_keys d) = length d"
  by (simp add: od_keys_def)

lemma od_ok_Nil [simp]: "od_ok []"
  by (simp add: od_ok_def)

lemma length_od_touch [simp]: "od_ok d \<Longrightarrow> length (od_touch k d) = length d"
proof -
  assume ok: "od_ok d"
  have "0 < length (od_keys d)" if "k \<in> set (od_keys d)"
    using that by (rule length_pos_if_in_set)
  with ok have "length (od_keys (od_touch k d)) = length (od_keys d)"
    by (simp add: odict.keys_touch odict.ok_distinct distinct_remove1_removeAll [symmetric]
        length_remove1 del: length_od_keys)
  then show ?thesis by simp
qed

lemma map_le_removed: "f \<subseteq>\<^sub>m g \<Longrightarrow> f k = None \<Longrightarrow> f \<subseteq>\<^sub>m g(k := None)"
  by (auto simp: map_le_def dom_def)

lemma map_le_remove: "f \<subseteq>\<^sub>m g \<Longrightarrow> f(k := None) \<subseteq>\<^sub>m g(k := None)"
  by (auto simp: map_le_def dom_def)

lemma update_new: "map_of al k = None \<Longrightarrow> AList.update k v al = al @ [(k, v)]"
  by (induction al) (auto split: if_splits)

lemma map_of_Some_key: "map_of al k = Some v \<Longrightarrow> k \<in> fst ` set al"
  by (metis map_of_eq_None_iff option.distinct(1))

end
