(* ===== verification/Persian_Text.thy ===== *)
theory Persian_Text
  imports Prelude
begin

text \<open>
  \<open>core/persian.py\<close>: the one place that decides when two Persian texts are "the same".
  The Unicode tables behind \<open>unicodedata.normalize\<close>, \<open>str.lower\<close>, \<open>str.upper\<close>,
  \<open>str.casefold\<close>, \<open>str.isalpha\<close>, the category \<open>Cf\<close> and the class \<open>\w\<close> are a parameter (\<open>unicode_db\<close>); every step the
  module itself performs (digit and letter folding, joiner removal, whitespace
  collapsing, plural stripping) is written out.
\<close>

record unicode_db =
  nfkc :: "ustr \<Rightarrow> ustr"
  nfc :: "ustr \<Rightarrow> ustr"
  lower :: "ustr \<Rightarrow> ustr"
  upper :: "ustr \<Rightarrow> ustr"
  casefold :: "ustr \<Rightarrow> ustr"
  is_alpha :: "nat \<Rightarrow> bool"
  is_format :: "nat \<Rightarrow> bool"
  is_word :: "nat \<Rightarrow> bool"

text \<open>The tables restricted to ASCII, for evaluating definitions on concrete input.\<close>

definition ascii_lower :: "nat \<Rightarrow> nat" where
  "ascii_lower c = (if 65 \<le> c \<and> c \<le> 90 then c + 32 else c)"

definition ascii_upper :: "nat \<Rightarrow> nat" where
  "ascii_upper c = (if 97 \<le> c \<and> c \<le> 122 then c - 32 else c)"

definition ascii_db :: unicode_db where
  "ascii_db = \<lparr>nfkc = id, nfc = id, lower = map ascii_lower, upper = map ascii_upper,
     casefold = map ascii_lower,
     is_alpha = (\<lambda>c. 65 \<le> c \<and> c \<le> 90 \<or> 97 \<le> c \<and> c \<le> 122 \<or> 0x620 \<le> c \<and> c \<le> 0x64A
       \<or> c = 0x6A9 \<or> c = 0x6CC),
     is_format = (\<lambda>c. c = 0xAD \<or> 0x200B \<le> c \<and> c \<le> 0x200F \<or> 0x202A \<le> c \<and> c \<le> 0x202E
       \<or> 0x2060 \<le> c \<and> c \<le> 0x2064 \<or> 0x2066 \<le> c \<and> c \<le> 0x206F \<or> c = 0xFEFF),
     is_word = (\<lambda>c. 48 \<le> c \<and> c \<le> 57 \<or> 65 \<le> c \<and> c \<le> 90 \<or> c = 95 \<or> 97 \<le> c \<and> c \<le> 122
       \<or> 0x620 \<le> c \<and> c \<le> 0x64A \<or> c = 0x6A9 \<or> c = 0x6CC)\<rparr>"

section \<open>normalize_for_matching and normalize_compact\<close>

definition zwnj :: nat where "zwnj = 0x200C"

definition fold_digit :: "nat \<Rightarrow> nat" where
  "fold_digit c =
     (if 0x6F0 \<le> c \<and> c \<le> 0x6F9 then c - 0x6F0 + 48
      else if 0x660 \<le> c \<and> c \<le> 0x669 then c - 0x660 + 48
      else c)"

definition fold_letter :: "nat \<Rightarrow> nat" where
  "fold_letter c = (if c = 0x64A then 0x6CC else if c = 0x643 then 0x6A9 else c)"

text \<open>The combined translation table: the two maps share no key.\<close>

definition translate :: "ustr \<Rightarrow> ustr" where
  "translate s = map (\<lambda>c. fold_letter (fold_digit c)) s"

declare length_dropWhile_le [termination_simp] less_Suc_eq_le [termination_simp]

text \<open>\<open>_WHITESPACE_RE.sub(" ", text)\<close>: every run of whitespace becomes one space.\<close>

fun collapse_ws :: "ustr \<Rightarrow> ustr" where
  "collapse_ws [] = []"
| "collapse_ws (c # s) =
     (if is_space c then 32 # collapse_ws (dropWhile is_space s) else c # collapse_ws s)"

definition normalize_for_matching :: "unicode_db \<Rightarrow> ustr \<Rightarrow> ustr" where
  "normalize_for_matching U text =
     lower U (strip (collapse_ws (filter (\<lambda>c. c \<noteq> zwnj) (translate (nfkc U text)))))"

definition normalize_compact :: "unicode_db \<Rightarrow> ustr \<Rightarrow> ustr" where
  "normalize_compact U text = filter (\<lambda>c. \<not> is_space c) (normalize_for_matching U text)"

section \<open>letter_form_key\<close>

definition is_presentation_form :: "nat \<Rightarrow> bool" where
  "is_presentation_form c \<longleftrightarrow> 0xFB50 \<le> c \<and> c \<le> 0xFDFF \<or> 0xFE70 \<le> c \<and> c \<le> 0xFEFF"

definition fold_letter_form :: "nat \<Rightarrow> nat" where
  "fold_letter_form c =
     (if c = 0x64A \<or> c = 0x649 then 0x6CC else if c = 0x643 then 0x6A9 else c)"

definition letter_form_key :: "unicode_db \<Rightarrow> ustr \<Rightarrow> ustr" where
  "letter_form_key U text =
     (let t1 = concat (map (\<lambda>c. if is_presentation_form c then nfkc U [c] else [c]) text);
          t2 = nfc U t1
      in filter (\<lambda>c. c \<noteq> zwnj) (map fold_letter_form t2))"

section \<open>Attached plurals\<close>

definition plural_suffixes :: "ustr list" where
  "plural_suffixes =
     [[0x647, 0x627, 0x6CC, 0x634, 0x627, 0x646],
      [0x647, 0x627, 0x6CC, 0x645, 0x627, 0x646],
      [0x647, 0x627, 0x6CC, 0x62A, 0x627, 0x646],
      [0x647, 0x627, 0x6CC, 0x634],
      [0x647, 0x627, 0x6CC, 0x645],
      [0x647, 0x627, 0x6CC, 0x62A],
      [0x647, 0x627, 0x6CC, 0x6CC],
      [0x647, 0x627, 0x6CC],
      [0x647, 0x627]]"

definition min_stem :: nat where "min_stem = 3"

fun strip_first_suffix :: "unicode_db \<Rightarrow> ustr list \<Rightarrow> ustr \<Rightarrow> ustr" where
  "strip_first_suffix U [] token = token"
| "strip_first_suffix U (suffix # rest) token =
     (if endswith token suffix then
        (let stem = take (length token - length suffix) token
         in if min_stem \<le> length stem \<and> (\<forall>c \<in> set stem. is_alpha U c) then stem else token)
      else strip_first_suffix U rest token)"

definition strip_plural_suffix :: "unicode_db \<Rightarrow> ustr \<Rightarrow> ustr" where
  "strip_plural_suffix U token =
     (if \<forall>c \<in> set token. c < 128 then token else strip_first_suffix U plural_suffixes token)"

definition strip_plural_suffixes :: "unicode_db \<Rightarrow> ustr list \<Rightarrow> ustr list" where
  "strip_plural_suffixes U tokens = map (strip_plural_suffix U) tokens"

declare ascii_lower_def [ev] ascii_upper_def [ev] ascii_db_def [ev] zwnj_def [ev] fold_digit_def [ev]
  fold_letter_def [ev] translate_def [ev] normalize_for_matching_def [ev] normalize_compact_def [ev]
  is_presentation_form_def [ev] fold_letter_form_def [ev] letter_form_key_def [ev]
  plural_suffixes_def [ev] min_stem_def [ev] strip_plural_suffix_def [ev] strip_plural_suffixes_def [ev]

section \<open>Whitespace collapsing\<close>

text \<open>No space is followed by whitespace once the text is collapsed.\<close>

fun ws_collapsed :: "ustr \<Rightarrow> bool" where
  "ws_collapsed [] = True"
| "ws_collapsed [c] = (is_space c \<longrightarrow> c = 32)"
| "ws_collapsed (c # d # s) =
     ((is_space c \<longrightarrow> c = 32 \<and> \<not> is_space d) \<and> ws_collapsed (d # s))"

lemma is_space_32 [simp]: "is_space 32"
  by (simp add: is_space_def)

lemma collapse_ws_hd: "s \<noteq> [] \<Longrightarrow> is_space (hd (collapse_ws s)) = is_space (hd s) \<and> collapse_ws s \<noteq> []"
  by (cases s) auto

lemma ws_collapsed_Cons:
  "ws_collapsed (c # s) \<longleftrightarrow>
     (is_space c \<longrightarrow> c = 32 \<and> (s \<noteq> [] \<longrightarrow> \<not> is_space (hd s))) \<and> ws_collapsed s"
  by (cases s) auto

lemma collapse_ws_collapsed: "ws_collapsed (collapse_ws s)"
proof (induction s rule: collapse_ws.induct)
  case (2 c s)
  show ?case
  proof (cases "is_space c")
    case True
    let ?t = "dropWhile is_space s"
    have "\<not> is_space (hd (collapse_ws ?t))" if "collapse_ws ?t \<noteq> []"
    proof -
      have t: "?t \<noteq> []" using that by (metis collapse_ws.simps(1))
      then have "\<not> is_space (hd ?t)" by (rule hd_dropWhile)
      with t show ?thesis using collapse_ws_hd by blast
    qed
    with True 2 show ?thesis by (simp add: ws_collapsed_Cons)
  next
    case False
    with 2 show ?thesis by (simp add: ws_collapsed_Cons)
  qed
qed simp

lemma collapse_ws_id: "ws_collapsed s \<Longrightarrow> collapse_ws s = s"
proof (induction s rule: collapse_ws.induct)
  case (2 c s)
  then have "dropWhile is_space s = s" if "is_space c"
    using that by (cases s) (auto simp: ws_collapsed_Cons)
  with 2 show ?case by (auto simp: ws_collapsed_Cons)
qed simp

lemma ws_collapsed_append: "ws_collapsed (a @ b) \<Longrightarrow> ws_collapsed a \<and> ws_collapsed b"
  by (induction a) (auto simp: ws_collapsed_Cons hd_append split: if_splits)

lemma strip_infix: "\<exists>a b. s = a @ strip s @ b"
proof -
  have "s = takeWhile is_space s @ lstrip s"
    by (simp only: lstrip_def takeWhile_dropWhile_id)
  moreover have "rev (lstrip s) = takeWhile is_space (rev (lstrip s)) @ dropWhile is_space (rev (lstrip s))"
    by (simp only: takeWhile_dropWhile_id)
  then have "lstrip s = strip s @ rev (takeWhile is_space (rev (lstrip s)))"
    unfolding strip_def rstrip_def using rev_append rev_rev_ident by metis
  ultimately have "s = takeWhile is_space s @ strip s @ rev (takeWhile is_space (rev (lstrip s)))"
    by (rule back_subst [of "\<lambda>t. s = takeWhile is_space s @ t"])
  then show ?thesis by blast
qed

lemma ws_collapsed_strip:
  assumes "ws_collapsed s"
  shows "ws_collapsed (strip s)"
proof -
  obtain a b where "s = a @ strip s @ b" using strip_infix by blast
  with assms have "ws_collapsed (a @ strip s @ b)" by (rule subst [rotated])
  then show ?thesis by (blast dest: ws_collapsed_append)
qed

lemma set_collapse_ws: "set (collapse_ws s) \<subseteq> insert 32 (set s)"
  by (induction s rule: collapse_ws.induct) (auto dest: set_dropWhileD)

lemma fold_char_idem:
  "fold_letter (fold_digit (fold_letter (fold_digit c))) = fold_letter (fold_digit c)"
proof -
  have "fold_digit c < 58 \<and> 48 \<le> fold_digit c \<or> fold_digit c = c"
    by (simp add: fold_digit_def) arith
  then consider "fold_digit c < 58" "48 \<le> fold_digit c" | "fold_digit c = c" by blast
  then show ?thesis
  proof cases
    case 1
    then show ?thesis by (simp add: fold_letter_def fold_digit_def [of "fold_digit c"])
  next
    case 2
    then show ?thesis
      by (cases "c = 0x64A"; cases "c = 0x643") (simp_all add: fold_letter_def fold_digit_def)
  qed
qed

lemma fold_char_space: "fold_letter (fold_digit 32) = 32"
  by (simp add: fold_letter_def fold_digit_def)

lemma set_normalized_body:
  assumes "c \<in> set (strip (collapse_ws (filter (\<lambda>c. c \<noteq> zwnj) (translate s))))"
  shows "c \<noteq> zwnj \<and> fold_letter (fold_digit c) = c"
proof -
  have "c \<in> insert 32 (set (filter (\<lambda>c. c \<noteq> zwnj) (translate s)))"
    using assms set_strip set_collapse_ws by blast
  then consider "c = 32" | x where "c = fold_letter (fold_digit x)" "c \<noteq> zwnj"
    by (auto simp: translate_def)
  then show ?thesis
  proof cases
    case 1
    then show ?thesis by (simp add: fold_char_space zwnj_def)
  next
    case 2
    then show ?thesis by (simp add: fold_char_idem)
  qed
qed

text \<open>
  The body of the normalisation (everything between NFKC and lower-casing) has one
  canonical form: it holds no zero-width non-joiner, no digit or letter the table
  folds, no whitespace but single inner spaces.
\<close>

lemma normalized_body_fixed:
  fixes s :: ustr
  defines "b \<equiv> strip (collapse_ws (filter (\<lambda>c. c \<noteq> zwnj) (translate s)))"
  shows "strip (collapse_ws (filter (\<lambda>c. c \<noteq> zwnj) (translate b))) = b"
proof -
  have "translate b = b"
    unfolding translate_def using set_normalized_body [of _ s] by (intro map_idI) (unfold b_def, blast)
  moreover have "filter (\<lambda>c. c \<noteq> zwnj) b = b"
    using set_normalized_body [of _ s] by (intro filter_True ballI) (unfold b_def, blast)
  moreover have "ws_collapsed b"
    unfolding b_def by (intro ws_collapsed_strip collapse_ws_collapsed)
  ultimately show ?thesis
    by (simp only: collapse_ws_id) (simp only: b_def strip_strip)
qed

section \<open>Spelling variants\<close>

text \<open>
  Two spellings of one text, after NFKC: the least equivalence that identifies the digit
  scripts, the Arabic and Persian forms of a letter, a word with and without the half-space,
  any run of whitespace, and whitespace at the ends.
\<close>

inductive same_spelling :: "ustr \<Rightarrow> ustr \<Rightarrow> bool" where
  same_refl: "same_spelling s s"
| same_sym: "same_spelling s t \<Longrightarrow> same_spelling t s"
| same_trans: "same_spelling s t \<Longrightarrow> same_spelling t r \<Longrightarrow> same_spelling s r"
| same_digit: "same_spelling (a @ [c] @ b) (a @ [fold_digit c] @ b)"
| same_letter: "same_spelling (a @ [c] @ b) (a @ [fold_letter c] @ b)"
| same_half_space: "same_spelling (a @ [zwnj] @ b) (a @ b)"
| same_space: "is_space c \<Longrightarrow> same_spelling (a @ [c] @ b) (a @ [32] @ b)"
| same_run: "is_space c \<Longrightarrow> is_space d \<Longrightarrow> same_spelling (a @ [c, d] @ b) (a @ [c] @ b)"
| same_front: "is_space c \<Longrightarrow> same_spelling (c # s) s"
| same_behind: "is_space c \<Longrightarrow> same_spelling (s @ [c]) s"

text \<open>The collapsing with the state of the scan made explicit: was the last character a space?\<close>

fun collapse_from :: "bool \<Rightarrow> ustr \<Rightarrow> ustr" where
  "collapse_from p [] = []"
| "collapse_from p (c # s) =
     (if is_space c then (if p then collapse_from True s else 32 # collapse_from True s)
      else c # collapse_from False s)"

definition last_space :: "bool \<Rightarrow> ustr \<Rightarrow> bool" where
  "last_space p s = (if s = [] then p else is_space (last s))"

lemma collapse_from_True: "collapse_from True s = collapse_from False (dropWhile is_space s)"
  by (induction s) simp_all

lemma collapse_ws_from: "collapse_ws s = collapse_from False s"
  by (induction s rule: collapse_ws.induct) (simp_all add: collapse_from_True)

lemma collapse_from_append:
  "collapse_from p (a @ b) = collapse_from p a @ collapse_from (last_space p a) b"
  by (induction a arbitrary: p) (simp_all add: last_space_def)

lemma strip_Cons_space: "is_space c \<Longrightarrow> strip (c # s) = strip s"
  by (simp add: strip_def lstrip_def)

lemma strip_snoc_space: "is_space c \<Longrightarrow> strip (s @ [c]) = strip s"
proof (cases "\<forall>d \<in> set s. is_space d")
  case True
  moreover assume "is_space c"
  ultimately have "strip (s @ [c]) = []" "strip s = []" by (auto simp: strip_eq_Nil_iff)
  then show ?thesis by simp
next
  case False
  then obtain d where "d \<in> set s" "\<not> is_space d" by blast
  then have "dropWhile is_space (s @ [c]) = dropWhile is_space s @ [c]"
    by (rule dropWhile_append1)
  moreover assume "is_space c"
  ultimately show ?thesis by (simp add: strip_def lstrip_def rstrip_def)
qed

lemma strip_collapse_front: "is_space c \<Longrightarrow> strip (collapse_ws (c # s)) = strip (collapse_ws s)"
proof -
  assume "is_space c"
  then have "strip (collapse_ws (c # s)) = strip (collapse_from True s)"
    by (simp add: collapse_ws_from strip_Cons_space)
  also have "\<dots> = strip (collapse_from False s)"
    by (cases s) (simp_all add: strip_Cons_space)
  finally show ?thesis by (simp add: collapse_ws_from)
qed

lemma strip_collapse_back: "is_space c \<Longrightarrow> strip (collapse_ws (s @ [c])) = strip (collapse_ws s)"
  by (simp add: collapse_ws_from collapse_from_append strip_snoc_space)

lemma fold_space: "is_space c \<Longrightarrow> fold_letter (fold_digit c) = c \<and> c \<noteq> zwnj"
proof -
  assume c: "is_space c"
  then have "\<not> (0x6F0 \<le> c \<and> c \<le> 0x6F9)" "\<not> (0x660 \<le> c \<and> c \<le> 0x669)" "c \<noteq> 0x64A" "c \<noteq> 0x643"
      "c \<noteq> 0x200C"
    unfolding is_space_def by linarith+
  then show ?thesis
    unfolding fold_letter_def fold_digit_def zwnj_def by (simp only: if_False simp_thms)
qed

lemma fold_letter_digit: "fold_letter (fold_digit (fold_letter c)) = fold_letter (fold_digit c)"
  by (cases "c = 0x64A"; cases "c = 0x643") (simp_all add: fold_letter_def fold_digit_def)

lemma fold_digit_digit: "fold_digit (fold_digit c) = fold_digit c"
proof (cases "fold_digit c = c")
  case False
  then have "fold_digit c \<le> 57" by (simp add: fold_digit_def split: if_splits)
  then show ?thesis unfolding fold_digit_def [of "fold_digit c"] by simp
qed simp

lemma fold_zwnj: "fold_letter (fold_digit zwnj) = zwnj"
  by (simp add: fold_letter_def fold_digit_def zwnj_def)

definition matching_body :: "ustr \<Rightarrow> ustr" where
  "matching_body s = strip (collapse_ws (filter (\<lambda>c. c \<noteq> zwnj) (translate s)))"

lemma translate_append [simp]: "translate (a @ b) = translate a @ translate b"
  by (simp add: translate_def)

lemma translate_Cons_space: "is_space c \<Longrightarrow> translate (c # s) = c # translate s"
  by (simp add: translate_def fold_space)

lemma matching_body_same: "same_spelling s t \<Longrightarrow> matching_body s = matching_body t"
proof (induction rule: same_spelling.induct)
  case (same_digit a c b)
  show ?case by (simp add: matching_body_def translate_def fold_digit_digit)
next
  case (same_letter a c b)
  show ?case by (simp add: matching_body_def translate_def fold_letter_digit)
next
  case (same_half_space a b)
  show ?case by (simp add: matching_body_def translate_def fold_zwnj)
next
  case (same_space c a b)
  then show ?case
    by (simp add: matching_body_def translate_Cons_space fold_space fold_space [of 32]
        collapse_ws_from collapse_from_append)
next
  case (same_run c d a b)
  then show ?case
    by (simp add: matching_body_def translate_Cons_space fold_space collapse_ws_from collapse_from_append)
next
  case (same_front c s)
  then show ?case
    using fold_space [of c]
    by (simp add: matching_body_def translate_Cons_space strip_collapse_front del: collapse_ws.simps)
next
  case (same_behind c s)
  then show ?case
    using fold_space [of c] by (simp add: matching_body_def translate_def strip_collapse_back)
qed simp_all

lemma same_translate: "same_spelling (a @ s) (a @ translate s)"
proof (induction s arbitrary: a)
  case Nil
  show ?case by (simp add: translate_def same_refl)
next
  case (Cons c s)
  have "same_spelling (a @ [c] @ s) (a @ [fold_letter (fold_digit c)] @ s)"
    using same_digit same_letter same_trans by blast
  moreover have "same_spelling ((a @ [fold_letter (fold_digit c)]) @ s)
      ((a @ [fold_letter (fold_digit c)]) @ translate s)" by (rule Cons)
  ultimately show ?case by (auto simp: translate_def intro: same_trans)
qed

lemma same_filter: "same_spelling (a @ s) (a @ filter (\<lambda>c. c \<noteq> zwnj) s)"
proof (induction s arbitrary: a)
  case Nil
  show ?case by (simp add: same_refl)
next
  case (Cons c s)
  show ?case
  proof (cases "c = zwnj")
    case True
    with same_trans [OF same_half_space Cons] show ?thesis by simp
  next
    case False
    with Cons [of "a @ [c]"] show ?thesis by simp
  qed
qed

lemma same_collapse:
  "(p \<Longrightarrow> a \<noteq> [] \<and> is_space (last a)) \<Longrightarrow> same_spelling (a @ s) (a @ collapse_from p s)"
proof (induction s arbitrary: a p)
  case Nil
  show ?case by (simp add: same_refl)
next
  case (Cons c s)
  show ?case
  proof (cases "is_space c")
    case False
    with Cons.IH [of False "a @ [c]"] show ?thesis by simp
  next
    case c: True
    show ?thesis
    proof (cases p)
      case True
      with Cons.prems obtain a' x where a: "a = a' @ [x]" "is_space x"
        by (metis append_butlast_last_id)
      have "same_spelling (a @ c # s) (a @ s)"
        using same_run [OF a(2) c, of a' s] a(1) by simp
      moreover have "same_spelling (a @ s) (a @ collapse_from True s)"
        by (rule Cons.IH) (simp add: a)
      ultimately have "same_spelling (a @ c # s) (a @ collapse_from True s)" by (rule same_trans)
      then show ?thesis using True c by simp
    next
      case False
      have "same_spelling (a @ c # s) (a @ 32 # s)"
        using same_space [OF c, of a s] by simp
      moreover have "same_spelling ((a @ [32]) @ s) ((a @ [32]) @ collapse_from True s)"
        by (rule Cons.IH) simp
      ultimately have "same_spelling (a @ c # s) (a @ 32 # collapse_from True s)"
        using same_trans [of "a @ c # s" "a @ 32 # s"] by simp
      then show ?thesis using False c by simp
    qed
  qed
qed

lemma same_strip: "same_spelling s (strip s)"
proof -
  have l: "same_spelling s (lstrip s)" for s
  proof (induction s)
    case (Cons c s)
    then show ?case
      using same_trans [OF same_front Cons] by (simp add: lstrip_def same_refl)
  qed (simp add: lstrip_def same_refl)
  have r: "same_spelling s (rstrip s)" for s
  proof (induction s rule: rev_induct)
    case (snoc c s)
    then show ?case
      using same_trans [OF same_behind snoc] by (simp add: rstrip_def same_refl)
  qed (simp add: rstrip_def same_refl)
  show ?thesis unfolding strip_def by (rule same_trans [OF l r])
qed

lemma same_matching_body: "same_spelling s (matching_body s)"
proof -
  let ?f = "\<lambda>s. filter (\<lambda>c. c \<noteq> zwnj) s"
  have "same_spelling s (translate s)" using same_translate [of "[]" s] by simp
  moreover have "same_spelling (translate s) (?f (translate s))"
    using same_filter [of "[]"] by simp
  moreover have "same_spelling (?f (translate s)) (collapse_ws (?f (translate s)))"
    using same_collapse [of False "[]"] by (simp add: collapse_ws_from)
  ultimately show ?thesis
    unfolding matching_body_def using same_strip same_trans by blast
qed

lemma same_spelling_iff: "same_spelling s t \<longleftrightarrow> matching_body s = matching_body t"
  using matching_body_same same_matching_body same_sym same_trans by metis


text \<open>
  Stripping an attached plural returns either the word itself or a stem of at least three
  letters that the word continues by one of the listed endings; the ending is the longest one
  the word has.
\<close>

theorem strip_plural_suffix_cases:
  "strip_plural_suffix U token = token
   \<or> (\<exists>suffix rest. filter (endswith token) plural_suffixes = suffix # rest
        \<and> token = strip_plural_suffix U token @ suffix
        \<and> 3 \<le> length (strip_plural_suffix U token)
        \<and> list_all (is_alpha U) (strip_plural_suffix U token)
        \<and> list_all (\<lambda>x. length x \<le> length suffix) rest)"
proof -
  have "strip_first_suffix U sufs token = token
    \<or> (\<exists>suffix rest. filter (endswith token) sufs = suffix # rest
        \<and> token = strip_first_suffix U sufs token @ suffix
        \<and> 3 \<le> length (strip_first_suffix U sufs token)
        \<and> list_all (is_alpha U) (strip_first_suffix U sufs token)
        \<and> list_all (\<lambda>x. length x \<le> length suffix) rest)"
    if "sorted_wrt (\<lambda>x y. length y \<le> length x) sufs" for sufs
    using that
  proof (induction sufs)
    case (Cons x sufs)
    show ?case
    proof (cases "endswith token x")
      case True
      then obtain t where "token = t @ x" by (auto simp: endswith_iff)
      with True Cons.prems show ?thesis
        by (auto simp: Let_def min_stem_def list_all_iff)
    next
      case False
      with Cons show ?thesis by simp
    qed
  qed simp
  moreover have "sorted_wrt (\<lambda>x y. length y \<le> length x) plural_suffixes"
    by (simp add: plural_suffixes_def)
  ultimately show ?thesis by (simp add: strip_plural_suffix_def)
qed

text \<open>
  \<open>letter_form_key\<close> is not narrower than \<open>normalize_for_matching\<close>: it identifies the alef
  maksura with the Persian yeh, which the matching form keeps apart.
\<close>

theorem letter_form_key_not_narrower:
  "letter_form_key ascii_db [0x649] = letter_form_key ascii_db [0x6CC]
   \<and> normalize_for_matching ascii_db [0x649] \<noteq> normalize_for_matching ascii_db [0x6CC]"
  by (simp add: ev)

end
