(* ===== verification/Query_Cache.thy ===== *)
theory Query_Cache
  imports Persian_Text Complex_Main
begin

text \<open>
  \<open>api/query_cache.py\<close>: the TTL and least-recently-used cache of query responses, with its
  question-keyed store and its SQL-keyed store. Time is an argument (the value of
  \<open>time.monotonic()\<close>, a rational number); responses are an arbitrary type, and since values are
  immutable here the \<open>model_copy()\<close> calls of the source are the identity. The operations
  return the new cache and, for \<open>set\<close>, the exception that ends it, if any.
\<close>

type_synonym qkey = "ustr \<times> ustr \<times> ustr \<times> ustr"

record 'r cache_entry =
  ce_response :: 'r
  ce_expires_at :: rat

record 'r query_cache =
  qc_ttl :: int
  qc_max_size :: int
  qc_store :: "(qkey, 'r cache_entry) odict"
  qc_sql_store :: "(qkey, 'r cache_entry) odict"
  qc_hits :: nat
  qc_misses :: nat
  qc_evictions :: nat

datatype py_error = KeyError

section \<open>Keys\<close>

definition question_key_namespace :: ustr where
  "question_key_namespace = u ''persian-norm-v2''"

definition normalize_question :: "bool \<Rightarrow> unicode_db \<Rightarrow> ustr \<Rightarrow> ustr" where
  "normalize_question fq U question =
     (if \<not> fq then strip question else normalize_for_matching U question)"

definition question_key :: "bool \<Rightarrow> unicode_db \<Rightarrow> ustr \<Rightarrow> ustr \<Rightarrow> ustr \<Rightarrow> ustr \<Rightarrow> qkey" where
  "question_key fq U question mode prefix_version scope_key =
     (prefix_version @ u ''|'' @ question_key_namespace,
      normalize_question fq U question, mode, scope_key)"

definition sql_key :: "ustr \<Rightarrow> ustr \<Rightarrow> ustr \<Rightarrow> ustr \<Rightarrow> qkey" where
  "sql_key sql mode prefix_version scope_key =
     (prefix_version, strip (collapse_ws sql), mode, scope_key)"

section \<open>Operations\<close>

definition new_cache :: "int \<Rightarrow> int \<Rightarrow> 'r query_cache" where
  "new_cache ttl max_size =
     \<lparr>qc_ttl = ttl, qc_max_size = max_size, qc_store = [], qc_sql_store = [],
      qc_hits = 0, qc_misses = 0, qc_evictions = 0\<rparr>"

definition enabled :: "'r query_cache \<Rightarrow> bool" where
  "enabled c \<longleftrightarrow> 0 < qc_ttl c"

text \<open>
  \<open>_get_from\<close>: the store after the lookup, the response, and what to add to the hit, miss and
  eviction counters.
\<close>

definition get_from ::
    "rat \<Rightarrow> qkey \<Rightarrow> (qkey, 'r cache_entry) odict
     \<Rightarrow> (qkey, 'r cache_entry) odict \<times> 'r option \<times> nat \<times> nat \<times> nat" where
  "get_from now k store =
     (case map_of store k of
        None \<Rightarrow> (store, None, 0, 1, 0)
      | Some entry \<Rightarrow>
          if ce_expires_at entry < now then (AList.delete k store, None, 0, 1, 1)
          else (od_touch k store, Some (ce_response entry), 1, 0, 0))"

definition count_lookup :: "nat \<times> nat \<times> nat \<Rightarrow> 'r query_cache \<Rightarrow> 'r query_cache" where
  "count_lookup n c =
     (case n of (h, m, e) \<Rightarrow>
        c\<lparr>qc_hits := qc_hits c + h, qc_misses := qc_misses c + m, qc_evictions := qc_evictions c + e\<rparr>)"

definition cache_get ::
    "bool \<Rightarrow> unicode_db \<Rightarrow> rat \<Rightarrow> ustr \<Rightarrow> ustr \<Rightarrow> ustr \<Rightarrow> ustr \<Rightarrow> 'r query_cache
     \<Rightarrow> 'r query_cache \<times> 'r option" where
  "cache_get fq U now question mode prefix_version scope_key c =
     (if \<not> enabled c then (c, None)
      else case get_from now (question_key fq U question mode prefix_version scope_key) (qc_store c)
           of (store, r, n) \<Rightarrow> (count_lookup n (c\<lparr>qc_store := store\<rparr>), r))"

definition cache_get_by_sql ::
    "rat \<Rightarrow> ustr \<Rightarrow> ustr \<Rightarrow> ustr \<Rightarrow> ustr \<Rightarrow> 'r query_cache \<Rightarrow> 'r query_cache \<times> 'r option" where
  "cache_get_by_sql now sql mode prefix_version scope_key c =
     (if \<not> enabled c then (c, None)
      else case get_from now (sql_key sql mode prefix_version scope_key) (qc_sql_store c)
           of (store, r, n) \<Rightarrow> (count_lookup n (c\<lparr>qc_sql_store := store\<rparr>), r))"

text \<open>
  The eviction loop of \<open>_set_in\<close>: drop the oldest entry and count it while the store is full;
  \<open>popitem\<close> raises \<open>KeyError\<close> on an empty store. The result is the store, the number of
  entries dropped, and the exception.
\<close>

fun evict_room ::
    "int \<Rightarrow> (qkey, 'r cache_entry) odict \<Rightarrow> (qkey, 'r cache_entry) odict \<times> nat \<times> py_error option" where
  "evict_room max_size [] = (if max_size \<le> 0 then ([], 0, Some KeyError) else ([], 0, None))"
| "evict_room max_size (e # store) =
     (if max_size \<le> int (length (e # store)) then
        (case evict_room max_size store of (s, n, err) \<Rightarrow> (s, Suc n, err))
      else (e # store, 0, None))"

definition set_in ::
    "int \<Rightarrow> qkey \<Rightarrow> 'r cache_entry \<Rightarrow> (qkey, 'r cache_entry) odict
     \<Rightarrow> (qkey, 'r cache_entry) odict \<times> nat \<times> py_error option" where
  "set_in max_size k entry store =
     (if k \<in> set (od_keys store) then (AList.update k entry (od_touch k store), 0, None)
      else case evict_room max_size store of
             (s, n, Some err) \<Rightarrow> (s, n, Some err)
           | (s, n, None) \<Rightarrow> (AList.update k entry s, n, None))"

definition cache_set ::
    "bool \<Rightarrow> unicode_db \<Rightarrow> rat \<Rightarrow> ustr \<Rightarrow> ustr \<Rightarrow> 'r \<Rightarrow> ustr \<Rightarrow> ustr option \<Rightarrow> ustr
     \<Rightarrow> 'r query_cache \<Rightarrow> 'r query_cache \<times> py_error option" where
  "cache_set fq U now question mode response prefix_version sql scope_key c =
     (if \<not> enabled c then (c, None)
      else
        (let stored = \<lparr>ce_response = response, ce_expires_at = now + of_int (qc_ttl c)\<rparr>;
             (s, n, err) = set_in (qc_max_size c)
               (question_key fq U question mode prefix_version scope_key) stored (qc_store c);
             c1 = c\<lparr>qc_store := s, qc_evictions := qc_evictions c + n\<rparr>
         in case err of
              Some e \<Rightarrow> (c1, Some e)
            | None \<Rightarrow>
                (case sql of
                   Some (ch # q) \<Rightarrow>
                     (let (s2, n2, err2) = set_in (qc_max_size c1)
                        (sql_key (ch # q) mode prefix_version scope_key) stored (qc_sql_store c1)
                      in (c1\<lparr>qc_sql_store := s2, qc_evictions := qc_evictions c1 + n2\<rparr>, err2))
                 | _ \<Rightarrow> (c1, None))))"

definition cache_invalidate ::
    "bool \<Rightarrow> unicode_db \<Rightarrow> ustr \<Rightarrow> ustr \<Rightarrow> ustr \<Rightarrow> ustr \<Rightarrow> 'r query_cache
     \<Rightarrow> 'r query_cache \<times> bool" where
  "cache_invalidate fq U question mode prefix_version scope_key c =
     (let k = question_key fq U question mode prefix_version scope_key
      in if k \<in> set (od_keys (qc_store c))
         then (c\<lparr>qc_store := AList.delete k (qc_store c)\<rparr>, True)
         else (c, False))"

definition cache_clear :: "'r query_cache \<Rightarrow> 'r query_cache" where
  "cache_clear c = c\<lparr>qc_store := [], qc_sql_store := []\<rparr>"

record cache_stats =
  cs_hits :: nat
  cs_misses :: nat
  cs_evictions :: nat
  cs_size :: nat
  cs_sql_index_size :: nat
  cs_max_size :: int
  cs_ttl_seconds :: int
  cs_enabled :: bool

definition stats :: "'r query_cache \<Rightarrow> cache_stats" where
  "stats c =
     \<lparr>cs_hits = qc_hits c, cs_misses = qc_misses c, cs_evictions = qc_evictions c,
      cs_size = length (qc_store c), cs_sql_index_size = length (qc_sql_store c),
      cs_max_size = qc_max_size c, cs_ttl_seconds = qc_ttl c, cs_enabled = enabled c\<rparr>"

definition reconfigure :: "int \<Rightarrow> int \<Rightarrow> 'r query_cache \<Rightarrow> 'r query_cache" where
  "reconfigure ttl max_size c =
     c\<lparr>qc_ttl := ttl, qc_max_size := max_size, qc_store := [], qc_sql_store := []\<rparr>"

section \<open>Runs of the cache\<close>

text \<open>
  A call with the time it is made at. The calls are serialised by the cache's lock, so a run
  of the program is a sequence of them.
\<close>

datatype 'r cache_op =
    OpGet ustr ustr ustr ustr
  | OpGetBySql ustr ustr ustr ustr
  | OpSet ustr ustr 'r ustr "ustr option" ustr
  | OpInvalidate ustr ustr ustr ustr
  | OpClear
  | OpReconfigure int int

fun cache_step ::
    "bool \<Rightarrow> unicode_db \<Rightarrow> rat \<times> 'r cache_op \<Rightarrow> 'r query_cache \<Rightarrow> 'r query_cache" where
  "cache_step fq U (now, OpGet q m p s) c = fst (cache_get fq U now q m p s c)"
| "cache_step fq U (now, OpGetBySql q m p s) c = fst (cache_get_by_sql now q m p s c)"
| "cache_step fq U (now, OpSet q m r p sql s) c = fst (cache_set fq U now q m r p sql s c)"
| "cache_step fq U (now, OpInvalidate q m p s) c = fst (cache_invalidate fq U q m p s c)"
| "cache_step fq U (now, OpClear) c = cache_clear c"
| "cache_step fq U (now, OpReconfigure ttl n) c = reconfigure ttl n c"

definition cache_run ::
    "bool \<Rightarrow> unicode_db \<Rightarrow> (rat \<times> 'r cache_op) list \<Rightarrow> 'r query_cache \<Rightarrow> 'r query_cache" where
  "cache_run fq U ops c = List.fold (cache_step fq U) ops c"

declare question_key_namespace_def [ev] normalize_question_def [ev] question_key_def [ev] sql_key_def [ev]
  new_cache_def [ev] enabled_def [ev] get_from_def [ev] count_lookup_def [ev] cache_get_def [ev]
  cache_get_by_sql_def [ev] set_in_def [ev] cache_set_def [ev] cache_invalidate_def [ev]
  cache_clear_def [ev] stats_def [ev] reconfigure_def [ev] cache_run_def [ev]

section \<open>The contract: a cache without a capacity\<close>

text \<open>
  What the cache promises, with the capacity left out: the last response set for a key, until
  it is invalidated or the cache is cleared or reconfigured.
\<close>

record 'r spec_cache =
  sp_ttl :: int
  sp_store :: "qkey \<rightharpoonup> 'r cache_entry"
  sp_sql :: "qkey \<rightharpoonup> 'r cache_entry"

definition new_spec :: "int \<Rightarrow> 'r spec_cache" where
  "new_spec ttl = \<lparr>sp_ttl = ttl, sp_store = Map.empty, sp_sql = Map.empty\<rparr>"

fun spec_step :: "bool \<Rightarrow> unicode_db \<Rightarrow> rat \<times> 'r cache_op \<Rightarrow> 'r spec_cache \<Rightarrow> 'r spec_cache" where
  "spec_step fq U (now, OpGet q m p s) sp = sp"
| "spec_step fq U (now, OpGetBySql q m p s) sp = sp"
| "spec_step fq U (now, OpSet q m r p sql s) sp =
     (if sp_ttl sp \<le> 0 then sp
      else
        (let e = \<lparr>ce_response = r, ce_expires_at = now + of_int (sp_ttl sp)\<rparr>
         in sp\<lparr>sp_store := (sp_store sp)(question_key fq U q m p s \<mapsto> e),
               sp_sql := (case sql of
                   Some (ch # t) \<Rightarrow> (sp_sql sp)(sql_key (ch # t) m p s \<mapsto> e)
                 | _ \<Rightarrow> sp_sql sp)\<rparr>))"
| "spec_step fq U (now, OpInvalidate q m p s) sp =
     sp\<lparr>sp_store := (sp_store sp)(question_key fq U q m p s := None)\<rparr>"
| "spec_step fq U (now, OpClear) sp = sp\<lparr>sp_store := Map.empty, sp_sql := Map.empty\<rparr>"
| "spec_step fq U (now, OpReconfigure ttl n) sp = new_spec ttl"

definition spec_run ::
    "bool \<Rightarrow> unicode_db \<Rightarrow> (rat \<times> 'r cache_op) list \<Rightarrow> 'r spec_cache \<Rightarrow> 'r spec_cache" where
  "spec_run fq U ops sp = List.fold (spec_step fq U) ops sp"

definition store_ok :: "int \<Rightarrow> (qkey, 'r cache_entry) odict \<Rightarrow> bool" where
  "store_ok max_size d \<longleftrightarrow> od_ok d \<and> int (length d) \<le> max 0 max_size"

definition refines :: "'r query_cache \<Rightarrow> 'r spec_cache \<Rightarrow> bool" where
  "refines c sp \<longleftrightarrow>
     qc_ttl c = sp_ttl sp \<and> store_ok (qc_max_size c) (qc_store c)
     \<and> store_ok (qc_max_size c) (qc_sql_store c)
     \<and> map_of (qc_store c) \<subseteq>\<^sub>m sp_store sp \<and> map_of (qc_sql_store c) \<subseteq>\<^sub>m sp_sql sp"

section \<open>The two store primitives\<close>

lemma evict_room_pops:
  "evict_room m d =
     ((od_pop ^^ min (length d) (Suc (length d) - nat m)) d,
      min (length d) (Suc (length d) - nat m),
      if m \<le> 0 then Some KeyError else None)"
proof (induction d)
  case (Cons e d)
  have step: "(od_pop ^^ Suc i) (e # d) = (od_pop ^^ i) d" for i
    by (simp add: funpow_swap1 od_pop_def)
  show ?case
  proof (cases "m \<le> int (length (e # d))")
    case True
    then have "min (length (e # d)) (Suc (length (e # d)) - nat m)
        = Suc (min (length d) (Suc (length d) - nat m))"
      by simp
    with Cons True show ?thesis by (simp only: step evict_room.simps prod.case if_True)
  qed auto
qed simp

lemma evict_room_pos:
  "0 < m \<Longrightarrow> evict_room m d = ((od_pop ^^ (Suc (length d) - nat m)) d, Suc (length d) - nat m, None)"
proof -
  assume "0 < m"
  then have "min (length d) (Suc (length d) - nat m) = Suc (length d) - nat m"
    by (simp add: min_absorb2)
  with \<open>0 < m\<close> show ?thesis by (simp add: evict_room_pops)
qed

lemma evict_room_full: "m \<le> 0 \<Longrightarrow> evict_room m d = ([], length d, Some KeyError)"
proof -
  assume "m \<le> 0"
  moreover have "(od_pop ^^ length d) d = []"
    by (induction d) (simp_all add: funpow_swap1 od_pop_def)
  ultimately show ?thesis by (simp add: evict_room_pops min_def)
qed

lemma set_in_present:
  "k \<in> set (od_keys d) \<Longrightarrow> set_in m k e d = (AList.update k e (od_touch k d), 0, None)"
  by (simp add: set_in_def)

lemma set_in_new:
  "k \<notin> set (od_keys d) \<Longrightarrow> 0 < m \<Longrightarrow> set_in m k e d =
     (AList.update k e ((od_pop ^^ (Suc (length d) - nat m)) d), Suc (length d) - nat m, None)"
  by (simp add: set_in_def evict_room_pos)

lemma set_in_no_room:
  "k \<notin> set (od_keys d) \<Longrightarrow> m \<le> 0 \<Longrightarrow> set_in m k e d = ([], length d, Some KeyError)"
  by (simp add: set_in_def evict_room_full)

lemma store_ok_nonpos: "m \<le> 0 \<Longrightarrow> store_ok m d \<longleftrightarrow> d = []"
  by (cases d) (simp_all add: store_ok_def)

lemma map_of_le_pops: "od_ok d \<Longrightarrow> map_of ((od_pop ^^ i) d) \<subseteq>\<^sub>m map_of d"
  by (auto simp: map_le_def odict.get_pops split: if_splits)

lemma set_in_ok:
  assumes "store_ok m d" "set_in m k e d = (d', n, err)"
  shows "store_ok m d'" "map_of d' \<subseteq>\<^sub>m (map_of d)(k \<mapsto> e)"
    "err = None \<longleftrightarrow> 0 < m" "err = None \<Longrightarrow> map_of d' k = Some e"
proof -
  have ok: "od_ok d" using assms(1) by (simp add: store_ok_def)
  consider (present) "k \<in> set (od_keys d)" "0 < m" | (new) "k \<notin> set (od_keys d)" "0 < m"
    | (none) "m \<le> 0" "d = []"
    using store_ok_nonpos [of m d] assms(1) by fastforce
  then have "store_ok m d' \<and> map_of d' \<subseteq>\<^sub>m (map_of d)(k \<mapsto> e) \<and> (err = None \<longleftrightarrow> 0 < m)
      \<and> (err = None \<longrightarrow> map_of d' k = Some e)"
  proof cases
    case present
    have d': "d' = AList.update k e (od_touch k d)" and err: "err = None"
      using assms(2) present by (simp_all add: set_in_present)
    have "od_keys d' = od_keys (od_touch k d)"
      unfolding d' using ok present by (simp add: odict.keys_put_touch)
    then have "length d' = length d"
      using ok by (metis length_od_keys length_od_touch)
    moreover have "map_of d' = (map_of d)(k \<mapsto> e)" "od_ok d'"
      unfolding d' using ok by (simp_all add: od)
    ultimately show ?thesis using assms(1) err present by (simp add: store_ok_def)
  next
    case new
    let ?p = "(od_pop ^^ (Suc (length d) - nat m)) d"
    have d': "d' = AList.update k e ?p" and err: "err = None"
      using assms(2) new by (auto simp: set_in_new)
    have p: "od_ok ?p" using ok odict.pops by blast
    have "length (od_keys d') \<le> nat m"
      unfolding d' using odict.room_size [of d "nat m"] ok new assms(1)
      by (simp add: store_ok_def)
    moreover have "od_ok d'" "map_of d' = (map_of ?p)(k \<mapsto> e)"
      unfolding d' using p by (simp_all add: od)
    moreover have "(map_of ?p)(k \<mapsto> e) \<subseteq>\<^sub>m (map_of d)(k \<mapsto> e)"
      using map_of_le_pops [OF ok] by (intro map_le_upd)
    ultimately show ?thesis using err new by (simp add: store_ok_def)
  next
    case none
    then have "d' = []" "err = Some KeyError"
      using assms(2) set_in_no_room [of k d m e] by (simp_all add: od_keys_def)
    with none show ?thesis by (simp add: store_ok_def)
  qed
  then show "store_ok m d'" "map_of d' \<subseteq>\<^sub>m (map_of d)(k \<mapsto> e)"
    "err = None \<longleftrightarrow> 0 < m" "err = None \<Longrightarrow> map_of d' k = Some e" by blast+
qed

lemma get_from_ok:
  assumes "store_ok m d" "get_from now k d = (d', r, n)"
  shows "store_ok m d'" "map_of d' \<subseteq>\<^sub>m map_of d"
    "r = Some x \<longleftrightarrow> (\<exists>e. map_of d k = Some e \<and> ce_response e = x \<and> now \<le> ce_expires_at e)"
proof -
  have ok: "od_ok d" using assms(1) by (simp add: store_ok_def)
  have "length (AList.delete k d) \<le> length d" by (rule length_delete_le)
  then show "store_ok m d'" "map_of d' \<subseteq>\<^sub>m map_of d"
    using assms ok
    by (auto simp: get_from_def store_ok_def od map_le_def split: option.splits if_splits)
  show "r = Some x \<longleftrightarrow> (\<exists>e. map_of d k = Some e \<and> ce_response e = x \<and> now \<le> ce_expires_at e)"
    using assms(2) by (auto simp: get_from_def split: option.splits if_splits)
qed

section \<open>Every run of the cache refines the contract\<close>

lemma question_key_eq_iff:
  "question_key fq U q m p s = question_key fq U q' m' p' s' \<longleftrightarrow>
     normalize_question fq U q = normalize_question fq U q' \<and> m = m' \<and> p = p' \<and> s = s'"
  by (auto simp: question_key_def)

lemma refines_new: "refines (new_cache ttl n) (new_spec ttl)"
  by (simp add: refines_def new_cache_def new_spec_def store_ok_def)

lemma refines_cache_set:
  assumes "refines c sp"
  shows "refines (fst (cache_set fq U now q m r p sql s c)) (spec_step fq U (now, OpSet q m r p sql s) sp)"
proof (cases "enabled c")
  case False
  with assms show ?thesis by (simp add: cache_set_def enabled_def refines_def)
next
  case True
  let ?k = "question_key fq U q m p s"
  let ?e = "\<lparr>ce_response = r, ce_expires_at = now + of_int (qc_ttl c)\<rparr>"
  from assms have r: "qc_ttl c = sp_ttl sp" "store_ok (qc_max_size c) (qc_store c)"
    "store_ok (qc_max_size c) (qc_sql_store c)" "map_of (qc_store c) \<subseteq>\<^sub>m sp_store sp"
    "map_of (qc_sql_store c) \<subseteq>\<^sub>m sp_sql sp"
    by (simp_all add: refines_def)
  have on: "\<not> sp_ttl sp \<le> 0" using True r(1) by (simp add: enabled_def)
  obtain d n err where d: "set_in (qc_max_size c) ?k ?e (qc_store c) = (d, n, err)"
    by (cases "set_in (qc_max_size c) ?k ?e (qc_store c)")
  note okd = set_in_ok [OF r(2) d]
  have md: "map_of d \<subseteq>\<^sub>m (sp_store sp)(?k \<mapsto> ?e)"
    by (rule map_le_trans [OF okd(2) map_le_upd [OF r(4)]])
  show ?thesis
  proof (cases err)
    case (Some x)
    with okd(3) have "qc_max_size c \<le> 0" by simp
    with r(3) have "qc_sql_store c = []" by (simp add: store_ok_nonpos)
    have "fst (cache_set fq U now q m r p sql s c) = c\<lparr>qc_store := d, qc_evictions := qc_evictions c + n\<rparr>"
      using True d Some by (simp add: cache_set_def)
    moreover have "sp_sql sp' = sp_sql sp' \<and> Map.empty \<subseteq>\<^sub>m sp_sql sp'" for sp' :: "'r spec_cache"
      by simp
    ultimately show ?thesis
      using r(1,3) okd(1) md on \<open>qc_sql_store c = []\<close> by (simp add: refines_def Let_def)
  next
    case None
    show ?thesis
    proof (cases "\<exists>ch t. sql = Some (ch # t)")
      case False
      then have none: "sql = None \<or> sql = Some []"
        by (metis neq_Nil_conv option.exhaust)
      then have "fst (cache_set fq U now q m r p sql s c) = c\<lparr>qc_store := d, qc_evictions := qc_evictions c + n\<rparr>"
        using \<open>enabled c\<close> d None none by (elim disjE) (simp_all add: cache_set_def)
      moreover have "spec_step fq U (now, OpSet q m r p sql s) sp = sp\<lparr>sp_store := (sp_store sp)(?k \<mapsto> ?e)\<rparr>"
        using none on r(1) by (elim disjE) (simp_all add: Let_def)
      ultimately show ?thesis
        using r(1,3,5) okd(1) md by (simp add: refines_def)
    next
      case True
      then obtain ch t where sql: "sql = Some (ch # t)" by blast
      obtain d2 n2 err2
        where d2: "set_in (qc_max_size c) (sql_key (ch # t) m p s) ?e (qc_sql_store c) = (d2, n2, err2)"
        by (cases "set_in (qc_max_size c) (sql_key (ch # t) m p s) ?e (qc_sql_store c)")
      note okd2 = set_in_ok [OF r(3) d2]
      have "map_of d2 \<subseteq>\<^sub>m (sp_sql sp)(sql_key (ch # t) m p s \<mapsto> ?e)"
        by (rule map_le_trans [OF okd2(2) map_le_upd [OF r(5)]])
      moreover have "fst (cache_set fq U now q m r p sql s c)
          = c\<lparr>qc_store := d, qc_evictions := qc_evictions c + n + n2, qc_sql_store := d2\<rparr>"
        using \<open>enabled c\<close> d d2 None sql by (simp add: cache_set_def)
      ultimately show ?thesis
        using r(1) okd(1) okd2(1) md on sql by (simp add: refines_def Let_def)
    qed
  qed
qed

lemma refines_cache_get:
  assumes "refines c sp"
  shows "refines (fst (cache_get fq U now q m p s c)) sp"
    "refines (fst (cache_get_by_sql now q m p s c)) sp"
proof -
  have r: "store_ok (qc_max_size c) (qc_store c)" "store_ok (qc_max_size c) (qc_sql_store c)"
    using assms by (simp_all add: refines_def)
  obtain d x n where d: "get_from now (question_key fq U q m p s) (qc_store c) = (d, x, n)"
    by (cases "get_from now (question_key fq U q m p s) (qc_store c)")
  obtain d' x' n' where d': "get_from now (sql_key q m p s) (qc_sql_store c) = (d', x', n')"
    by (cases "get_from now (sql_key q m p s) (qc_sql_store c)")
  show "refines (fst (cache_get fq U now q m p s c)) sp"
    using assms d get_from_ok(1) [OF r(1) d] map_le_trans [OF get_from_ok(2) [OF r(1) d]]
    by (cases n) (simp add: cache_get_def refines_def count_lookup_def)
  show "refines (fst (cache_get_by_sql now q m p s c)) sp"
    using assms d' get_from_ok(1) [OF r(2) d'] map_le_trans [OF get_from_ok(2) [OF r(2) d']]
    by (cases n') (simp add: cache_get_by_sql_def refines_def count_lookup_def)
qed

lemma refines_invalidate:
  assumes "refines c sp"
  shows "refines (fst (cache_invalidate fq U q m p s c)) (spec_step fq U (now, OpInvalidate q m p s) sp)"
proof -
  let ?k = "question_key fq U q m p s"
  have ok: "od_ok (qc_store c)" using assms by (simp add: refines_def store_ok_def)
  have sub: "map_of (qc_store c) \<subseteq>\<^sub>m sp_store sp" using assms by (simp add: refines_def)
  show ?thesis
  proof (cases "?k \<in> set (od_keys (qc_store c))")
    case True
    have "(map_of (qc_store c))(?k := None) \<subseteq>\<^sub>m (sp_store sp)(?k := None)"
      using sub by (rule map_le_remove)
    then have "map_of (AList.delete ?k (qc_store c)) \<subseteq>\<^sub>m (sp_store sp)(?k := None)"
      by (simp only: delete_conv')
    moreover have "store_ok (qc_max_size c) (AList.delete ?k (qc_store c))"
      using assms ok odict.ok_del [OF ok, of ?k] length_delete_le [of ?k "qc_store c"]
      by (simp add: refines_def store_ok_def)
    moreover have "fst (cache_invalidate fq U q m p s c) = c\<lparr>qc_store := AList.delete ?k (qc_store c)\<rparr>"
      using True by (simp add: cache_invalidate_def Let_def)
    ultimately show ?thesis
      using assms by (simp add: refines_def)
  next
    case False
    then have "map_of (qc_store c) ?k = None" using odict.get_None [OF ok, of ?k] by blast
    with sub have "map_of (qc_store c) \<subseteq>\<^sub>m (sp_store sp)(?k := None)"
      by (rule map_le_removed)
    moreover have "cache_invalidate fq U q m p s c = (c, False)"
      using False by (simp add: cache_invalidate_def Let_def)
    ultimately show ?thesis using assms by (simp add: refines_def)
  qed
qed

lemma refines_step: "refines c sp \<Longrightarrow> refines (cache_step fq U op c) (spec_step fq U op sp)"
proof (induction fq U op c rule: cache_step.induct)
  case (5 fq U now c)
  then show ?case by (simp add: refines_def cache_clear_def store_ok_def)
next
  case (6 fq U now ttl n c)
  show ?case by (simp add: refines_def reconfigure_def new_spec_def store_ok_def)
qed (simp_all only: cache_step.simps spec_step.simps(1,2) refines_cache_set refines_cache_get refines_invalidate)

lemma refines_run:
  "refines (cache_run fq U ops (new_cache ttl n)) (spec_run fq U ops (new_spec ttl))"
  unfolding cache_run_def spec_run_def
  by (induction ops rule: rev_induct) (simp_all add: refines_new refines_step)

text \<open>
  C10. Whatever sequence of calls is made, the cache agrees with a cache of unlimited capacity:
  every entry it holds is the last one set for its key and not since invalidated, cleared or
  reconfigured away (capacity and expiry only ever forget), its keys are distinct, and neither
  store exceeds the configured maximum size.
\<close>

theorem cache_refines_unbounded:
  "refines (cache_run fq U ops (new_cache ttl n)) (spec_run fq U ops (new_spec ttl))"
  by (rule refines_run)

section \<open>What a hit may return\<close>

text \<open>The calls after which the entry of a question key is no longer the one it was.\<close>

fun displaces :: "bool \<Rightarrow> unicode_db \<Rightarrow> qkey \<Rightarrow> 'r cache_op \<Rightarrow> bool" where
  "displaces fq U k (OpSet q m r p sql s) \<longleftrightarrow> question_key fq U q m p s = k"
| "displaces fq U k (OpInvalidate q m p s) \<longleftrightarrow> question_key fq U q m p s = k"
| "displaces fq U k OpClear \<longleftrightarrow> True"
| "displaces fq U k (OpReconfigure ttl n) \<longleftrightarrow> True"
| "displaces fq U k op \<longleftrightarrow> False"

lemma cache_get_Some_iff:
  assumes "refines c sp"
  shows "snd (cache_get fq U now q m p s c) = Some r \<longleftrightarrow>
    enabled c \<and> (\<exists>e. map_of (qc_store c) (question_key fq U q m p s) = Some e
      \<and> ce_response e = r \<and> now \<le> ce_expires_at e)"
proof -
  have ok: "store_ok (qc_max_size c) (qc_store c)" using assms by (simp add: refines_def)
  obtain d x n where d: "get_from now (question_key fq U q m p s) (qc_store c) = (d, x, n)"
    by (cases "get_from now (question_key fq U q m p s) (qc_store c)")
  show ?thesis
    using d get_from_ok(3) [OF ok d, of r] by (simp add: cache_get_def)
qed

lemma spec_store_step:
  assumes "sp_store (spec_step fq U (t, op) sp) k = Some e"
  shows "(\<exists>q m p sql s. op = OpSet q m (ce_response e) p sql s \<and> question_key fq U q m p s = k
       \<and> ce_expires_at e = t + of_int (sp_ttl sp))
     \<or> sp_store sp k = Some e \<and> (displaces fq U k op \<longrightarrow> sp_ttl sp \<le> 0)"
    and "sp_ttl (spec_step fq U (t, op) sp) = sp_ttl sp"
proof -
  have "((\<exists>q m p sql s. op = OpSet q m (ce_response e) p sql s \<and> question_key fq U q m p s = k
       \<and> ce_expires_at e = t + of_int (sp_ttl sp))
     \<or> sp_store sp k = Some e \<and> (displaces fq U k op \<longrightarrow> sp_ttl sp \<le> 0))
     \<and> sp_ttl (spec_step fq U (t, op) sp) = sp_ttl sp"
  proof (cases op)
    case (OpSet q m r p sql s)
    with assms show ?thesis
      by (cases "sp_ttl sp \<le> 0"; cases "question_key fq U q m p s = k") (auto simp: Let_def)
  next
    case (OpInvalidate q m p s)
    with assms show ?thesis
      by (cases "question_key fq U q m p s = k") simp_all
  qed (use assms in \<open>simp_all add: new_spec_def\<close>)
  then show "(\<exists>q m p sql s. op = OpSet q m (ce_response e) p sql s \<and> question_key fq U q m p s = k
       \<and> ce_expires_at e = t + of_int (sp_ttl sp))
     \<or> sp_store sp k = Some e \<and> (displaces fq U k op \<longrightarrow> sp_ttl sp \<le> 0)"
    and "sp_ttl (spec_step fq U (t, op) sp) = sp_ttl sp" by (rule conjunct1, rule conjunct2)
qed

lemma spec_run_snoc:
  "spec_run fq U (ops @ [op]) sp = spec_step fq U op (spec_run fq U ops sp)"
  by (simp add: spec_run_def)

lemma spec_off: "sp_ttl (spec_run fq U ops (new_spec ttl)) \<le> 0 \<Longrightarrow>
    sp_store (spec_run fq U ops (new_spec ttl)) = Map.empty"
proof (induction ops rule: rev_induct)
  case (snoc x xs)
  obtain t op where "x = (t, op)" by (cases x)
  with snoc show ?case
    by (cases op) (simp_all add: spec_run_snoc new_spec_def Let_def split: if_splits)
qed (simp add: spec_run_def new_spec_def)

lemma spec_store_origin:
  assumes "sp_store (spec_run fq U ops (new_spec ttl)) (question_key fq U q m p s) = Some e"
  shows "\<exists>before t q' sql after. ops = before @ (t, OpSet q' m (ce_response e) p sql s) # after
    \<and> normalize_question fq U q' = normalize_question fq U q
    \<and> ce_expires_at e = t + of_int (sp_ttl (spec_run fq U ops (new_spec ttl)))
    \<and> (\<forall>(t', op) \<in> set after. \<not> displaces fq U (question_key fq U q m p s) op)"
  using assms
proof (induction ops rule: rev_induct)
  case Nil
  then show ?case by (simp add: spec_run_def new_spec_def)
next
  case (snoc top ops)
  obtain t op where top: "top = (t, op)" by (cases top)
  let ?k = "question_key fq U q m p s"
  let ?sp = "spec_run fq U ops (new_spec ttl)"
  note step = spec_store_step [OF snoc.prems [unfolded spec_run_snoc top]]
  show ?case
    using step(1)
  proof (elim disjE exE conjE)
    fix q' m' p' sql s'
    assume "op = OpSet q' m' (ce_response e) p' sql s'" "question_key fq U q' m' p' s' = ?k"
      "ce_expires_at e = t + of_int (sp_ttl ?sp)"
    then have "ops @ [top] = ops @ (t, OpSet q' m (ce_response e) p sql s) # []"
        "normalize_question fq U q' = normalize_question fq U q"
        "ce_expires_at e = t + of_int (sp_ttl (spec_run fq U (ops @ [top]) (new_spec ttl)))"
      using step(2) by (simp_all add: question_key_eq_iff top spec_run_snoc)
    then show ?thesis by (intro exI conjI) (assumption, assumption, assumption, simp)
  next
    assume old: "sp_store ?sp ?k = Some e" "displaces fq U ?k op \<longrightarrow> sp_ttl ?sp \<le> 0"
    then have nd: "\<not> displaces fq U ?k op" using spec_off [of fq U ops ttl] by auto
    from snoc.IH [OF old(1)] obtain before t' q' sql after
      where "ops = before @ (t', OpSet q' m (ce_response e) p sql s) # after"
        "normalize_question fq U q' = normalize_question fq U q"
        "ce_expires_at e = t' + of_int (sp_ttl ?sp)"
        "\<forall>(t', op) \<in> set after. \<not> displaces fq U ?k op"
      by blast
    moreover from calculation(1)
    have "ops @ [top] = before @ (t', OpSet q' m (ce_response e) p sql s) # (after @ [top])" by simp
    moreover have "sp_ttl (spec_run fq U (ops @ [top]) (new_spec ttl)) = sp_ttl ?sp"
      using step(2) by (simp only: top spec_run_snoc)
    moreover have "\<forall>(t', op) \<in> set (after @ [top]). \<not> displaces fq U ?k op"
      using calculation(4) nd by (simp add: top)
    ultimately show ?thesis by metis
  qed
qed

text \<open>
  C9. A hit is never stale and never someone else's: the response returned for a question was
  set earlier under the same mode, the same prefix version and the same scope key, for a
  question with the same normal form; it is the last one set under that key, nothing since has
  invalidated, cleared or reconfigured it away; and at most the time to live has passed.
\<close>

theorem cache_hit_sound:
  assumes "snd (cache_get fq U now q m p s (cache_run fq U ops (new_cache ttl n))) = Some r"
  shows "\<exists>before t q' sql after. ops = before @ (t, OpSet q' m r p sql s) # after
    \<and> normalize_question fq U q' = normalize_question fq U q
    \<and> now \<le> t + of_int (qc_ttl (cache_run fq U ops (new_cache ttl n)))
    \<and> (\<forall>(t', op) \<in> set after. \<not> displaces fq U (question_key fq U q m p s) op)"
proof -
  let ?c = "cache_run fq U ops (new_cache ttl n)"
  let ?sp = "spec_run fq U ops (new_spec ttl)"
  have ref: "refines ?c ?sp" by (rule refines_run)
  obtain e where e: "map_of (qc_store ?c) (question_key fq U q m p s) = Some e"
    "ce_response e = r" "now \<le> ce_expires_at e"
    using assms cache_get_Some_iff [OF ref] by blast
  moreover have "map_of (qc_store ?c) \<subseteq>\<^sub>m sp_store ?sp" "qc_ttl ?c = sp_ttl ?sp"
    using ref by (simp_all add: refines_def)
  ultimately have "sp_store ?sp (question_key fq U q m p s) = Some e"
    by (metis domI map_le_def)
  from spec_store_origin [OF this] obtain before t q' sql after
    where "ops = before @ (t, OpSet q' m r p sql s) # after"
      "normalize_question fq U q' = normalize_question fq U q"
      "ce_expires_at e = t + of_int (qc_ttl ?c)"
      "\<forall>(t', op) \<in> set after. \<not> displaces fq U (question_key fq U q m p s) op"
    unfolding e(2) \<open>qc_ttl ?c = sp_ttl ?sp\<close> by blast
  with e(3) show ?thesis
    by (intro exI conjI) (assumption, assumption, simp, assumption)
qed

theorem cache_hit_sound_witness:
  defines "ops \<equiv> [(0, OpSet (u ''Total  sales'') (u ''full'') (7::int) (u ''v1'') None (u ''alice''))]"
  shows "\<exists>before t q' sql after. ops = before @ (t, OpSet q' (u ''full'') 7 (u ''v1'') sql (u ''alice'')) # after
    \<and> normalize_question True ascii_db q' = normalize_question True ascii_db (u '' total sales'')
    \<and> 300 \<le> t + of_int (qc_ttl (cache_run True ascii_db ops (new_cache 300 2)))
    \<and> (\<forall>(t', op) \<in> set after.
         \<not> displaces True ascii_db (question_key True ascii_db (u '' total sales'') (u ''full'') (u ''v1'') (u ''alice'')) op)"
  unfolding ops_def
  by (rule cache_hit_sound) (simp add: ev Let_def)

text \<open>
  Storing a response fails in exactly one situation: an enabled cache whose configured
  maximum size is zero or negative evicts everything it holds and then raises
  \<open>KeyError\<close> out of the empty store. With a positive maximum size the call never fails.
\<close>

theorem cache_set_error_iff:
  "snd (cache_set fq U now q m r p sql s (cache_run fq U ops (new_cache ttl n))) =
     (let c = cache_run fq U ops (new_cache ttl n)
      in if 0 < qc_ttl c \<and> qc_max_size c \<le> 0 then Some KeyError else None)"
proof -
  let ?c = "cache_run fq U ops (new_cache ttl n)"
  have st: "store_ok (qc_max_size ?c) (qc_store ?c)" "store_ok (qc_max_size ?c) (qc_sql_store ?c)"
    using refines_run [of fq U ops ttl n] by (simp_all add: refines_def)
  have full: "snd (snd (set_in (qc_max_size ?c) k e d)) = (if qc_max_size ?c \<le> 0 then Some KeyError else None)"
    if "store_ok (qc_max_size ?c) d" for k e and d :: "(qkey, 'a cache_entry) odict"
  proof (cases "qc_max_size ?c \<le> 0")
    case True
    with that have "d = []" by (simp add: store_ok_nonpos)
    with True show ?thesis by (simp add: set_in_no_room od_keys_def)
  next
    case False
    obtain d' i err where "set_in (qc_max_size ?c) k e d = (d', i, err)"
      by (cases "set_in (qc_max_size ?c) k e d")
    with False set_in_ok(3) [OF that this] show ?thesis by simp
  qed
  let ?e = "\<lparr>ce_response = r, ce_expires_at = now + of_int (qc_ttl ?c)\<rparr>"
  obtain d1 n1 e1 where 1: "set_in (qc_max_size ?c) (question_key fq U q m p s) ?e (qc_store ?c) = (d1, n1, e1)"
    by (cases "set_in (qc_max_size ?c) (question_key fq U q m p s) ?e (qc_store ?c)")
  have e1: "e1 = (if qc_max_size ?c \<le> 0 then Some KeyError else None)"
    using full [OF st(1), of "question_key fq U q m p s" ?e] by (simp add: 1)
  show ?thesis
  proof (cases sql)
    case None
    then show ?thesis using e1 by (simp add: cache_set_def enabled_def Let_def 1)
  next
    case (Some w)
    show ?thesis
    proof (cases w)
      case Nil
      with Some e1 show ?thesis by (simp add: cache_set_def enabled_def Let_def 1)
    next
      case (Cons ch t)
      obtain d2 n2 e2 where 2: "set_in (qc_max_size ?c) (sql_key (ch # t) m p s) ?e (qc_sql_store ?c) = (d2, n2, e2)"
        by (cases "set_in (qc_max_size ?c) (sql_key (ch # t) m p s) ?e (qc_sql_store ?c)")
      have "e2 = (if qc_max_size ?c \<le> 0 then Some KeyError else None)"
        using full [OF st(2), of "sql_key (ch # t) m p s" ?e] by (simp add: 2)
      with Some Cons e1 show ?thesis by (simp add: cache_set_def enabled_def Let_def 1 2)
    qed
  qed
qed

section \<open>Least recently used\<close>

text \<open>A call that leaves the entry \<open>e\<close> of the key \<open>k\<close> alone, up to the order of the entries.\<close>

fun bystander :: "bool \<Rightarrow> unicode_db \<Rightarrow> qkey \<Rightarrow> 'r cache_entry \<Rightarrow> rat \<times> 'r cache_op \<Rightarrow> bool" where
  "bystander fq U k e (t, OpGet q m p s) \<longleftrightarrow>
     (question_key fq U q m p s = k \<longrightarrow> t \<le> ce_expires_at e)"
| "bystander fq U k e (t, op) \<longleftrightarrow> \<not> displaces fq U k op"

definition kept :: "qkey \<Rightarrow> 'r cache_entry \<Rightarrow> nat \<Rightarrow> (qkey, 'r cache_entry) odict \<Rightarrow> bool" where
  "kept k e i d \<longleftrightarrow> map_of d k = Some e \<and> k \<in> set (od_keys d) \<and> younger (od_keys d) k \<le> i"

lemma kept_Suc: "kept k e i d \<Longrightarrow> kept k e (Suc i) d"
  by (simp add: kept_def)

lemma kept_get_from:
  assumes "store_ok m d" "kept k e i d" "j = k \<Longrightarrow> t \<le> ce_expires_at e"
  shows "kept k e (Suc i) (fst (get_from t j d))"
proof -
  have ok: "od_ok d" using assms(1) by (simp add: store_ok_def)
  have k: "map_of d k = Some e" "k \<in> set (od_keys d)" "younger (od_keys d) k \<le> i"
    using assms(2) by (simp_all add: kept_def)
  show ?thesis
  proof (cases "j = k")
    case True
    then have "fst (get_from t j d) = od_touch k d"
      using k(1) assms(3) by (simp add: get_from_def)
    then show ?thesis
      using odict.touch_youngest [OF ok k(2)] k ok by (simp add: kept_def od)
  next
    case False
    have t: "kept k e (Suc i) (od_touch j d)"
      using odict.touch_survives [OF ok k(2) False] k by (simp add: kept_def)
    have "kept k e (Suc i) (AList.delete j d)"
      using younger_removeAll [OF False, of "od_keys d"] k False ok by (simp add: kept_def od)
    with t kept_Suc [OF assms(2)] show ?thesis
      by (simp add: get_from_def split: option.split)
  qed
qed

lemma kept_set_in:
  assumes "store_ok m d" "kept k e i d" "j \<noteq> k" "Suc i < nat m"
  shows "kept k e (Suc i) (fst (set_in m j x d))"
proof -
  have ok: "od_ok d" using assms(1) by (simp add: store_ok_def)
  have k: "map_of d k = Some e" "k \<in> set (od_keys d)" "younger (od_keys d) k \<le> i"
    using assms(2) by (simp_all add: kept_def)
  show ?thesis
  proof (cases "j \<in> set (od_keys d)")
    case True
    show ?thesis
      using odict.touch_survives [OF ok k(2) assms(3)] k assms(3) ok True
      by (simp add: set_in_present kept_def odict.keys_put_touch [OF ok True] update_conv' od)
  next
    case False
    have lt: "Suc (younger (od_keys d) k) < nat m" using k(3) assms(4) by simp
    have "fst (set_in m j x d) = AList.update j x ((od_pop ^^ (Suc (length d) - nat m)) d)"
      using False assms(4) by (simp add: set_in_new)
    then show ?thesis
      using odict.room_survives [OF ok k(2) assms(3) lt, of x] k by (simp add: kept_def)
  qed
qed

lemma cache_get_projections:
  "qc_store (fst (cache_get fq U t q m p s c)) =
     (if enabled c then fst (get_from t (question_key fq U q m p s) (qc_store c)) else qc_store c)"
  "qc_max_size (fst (cache_get fq U t q m p s c)) = qc_max_size c"
  "qc_ttl (fst (cache_get fq U t q m p s c)) = qc_ttl c"
  by (cases "get_from t (question_key fq U q m p s) (qc_store c)",
      simp add: cache_get_def count_lookup_def split_beta)+

lemma cache_set_projections:
  "qc_store (fst (cache_set fq U t q m r p sql s c)) =
     (if enabled c
      then fst (set_in (qc_max_size c) (question_key fq U q m p s)
        \<lparr>ce_response = r, ce_expires_at = t + of_int (qc_ttl c)\<rparr> (qc_store c))
      else qc_store c)"
  "qc_max_size (fst (cache_set fq U t q m r p sql s c)) = qc_max_size c"
  "qc_ttl (fst (cache_set fq U t q m r p sql s c)) = qc_ttl c"
  by (cases "set_in (qc_max_size c) (question_key fq U q m p s)
        \<lparr>ce_response = r, ce_expires_at = t + of_int (qc_ttl c)\<rparr> (qc_store c)",
      simp add: cache_set_def Let_def split_beta split: option.split list.split)+

lemma kept_step:
  assumes "refines c sp" "kept k e i (qc_store c)" "bystander fq U k e (t, op)"
    "Suc i < nat (qc_max_size c)"
  shows "kept k e (Suc i) (qc_store (cache_step fq U (t, op) c))
    \<and> qc_max_size (cache_step fq U (t, op) c) = qc_max_size c
    \<and> qc_ttl (cache_step fq U (t, op) c) = qc_ttl c"
proof -
  have st: "store_ok (qc_max_size c) (qc_store c)" using assms(1) by (simp add: refines_def)
  show ?thesis
  proof (cases op)
    case (OpGet q m p s)
    then show ?thesis
      using kept_get_from [OF st assms(2), of "question_key fq U q m p s" t] assms(3) kept_Suc [OF assms(2)]
      by (simp add: cache_get_projections)
  next
    case (OpGetBySql q m p s)
    then show ?thesis
      using kept_Suc [OF assms(2)] by (simp add: cache_get_by_sql_def count_lookup_def split: prod.split)
  next
    case (OpSet q m r p sql s)
    have "question_key fq U q m p s \<noteq> k" using OpSet assms(3) by simp
    from kept_set_in [OF st assms(2) this assms(4)] show ?thesis
      using OpSet kept_Suc [OF assms(2)] by (simp add: cache_set_projections)
  next
    case (OpInvalidate q m p s)
    have ne: "question_key fq U q m p s \<noteq> k" using OpInvalidate assms(3) by simp
    have ok: "od_ok (qc_store c)" using st by (simp add: store_ok_def)
    have "kept k e (Suc i) (AList.delete (question_key fq U q m p s) (qc_store c))"
      using younger_removeAll [OF ne, of "od_keys (qc_store c)"] assms(2) ne
      by (simp add: kept_def odict.keys_del [OF ok] delete_conv')
    then show ?thesis
      using OpInvalidate kept_Suc [OF assms(2)] by (simp add: cache_invalidate_def Let_def)
  qed (use assms(3) in simp_all)
qed

lemma kept_run:
  assumes "refines c sp" "kept k e i (qc_store c)" "\<forall>op \<in> set ops. bystander fq U k e op"
    "i + length ops < nat (qc_max_size c)"
  shows "map_of (qc_store (cache_run fq U ops c)) k = Some e \<and> qc_ttl (cache_run fq U ops c) = qc_ttl c
    \<and> (\<exists>sp'. refines (cache_run fq U ops c) sp')"
  using assms
proof (induction ops arbitrary: c sp i)
  case Nil
  then show ?case by (auto simp: cache_run_def kept_def)
next
  case (Cons top ops)
  obtain t op where top: "top = (t, op)" by (cases top)
  have s: "kept k e (Suc i) (qc_store (cache_step fq U top c))"
    "qc_max_size (cache_step fq U top c) = qc_max_size c" "qc_ttl (cache_step fq U top c) = qc_ttl c"
    using kept_step [OF Cons.prems(1,2), of fq U t op] Cons.prems(3,4) by (simp_all add: top)
  have run: "cache_run fq U (top # ops) c = cache_run fq U ops (cache_step fq U top c)"
    by (simp add: cache_run_def)
  show ?case
    unfolding run s(3) [symmetric]
    by (rule Cons.IH [OF refines_step [OF Cons.prems(1), of fq U top] s(1)])
      (use Cons.prems(3,4) s(2) in simp_all)
qed

lemma cache_set_youngest:
  assumes "refines c sp" "enabled c" "0 < qc_max_size c"
  shows "kept (question_key fq U q m p s) \<lparr>ce_response = r, ce_expires_at = t + of_int (qc_ttl c)\<rparr> 0
      (qc_store (fst (cache_set fq U t q m r p sql s c)))"
proof -
  let ?k = "question_key fq U q m p s" and ?d = "qc_store c"
  let ?e = "\<lparr>ce_response = r, ce_expires_at = t + of_int (qc_ttl c)\<rparr>"
  have ok: "od_ok ?d" using assms(1) by (simp add: refines_def store_ok_def)
  have "kept ?k ?e 0 (fst (set_in (qc_max_size c) ?k ?e ?d))"
  proof (cases "?k \<in> set (od_keys ?d)")
    case True
    then show ?thesis
      using odict.touch_youngest [OF ok True] odict.keys_touch [OF ok]
      by (simp add: set_in_present kept_def odict.keys_put_touch [OF ok True] update_conv')
  next
    case False
    let ?p = "(od_pop ^^ (Suc (length ?d) - nat (qc_max_size c))) ?d"
    have "od_ok ?p" "od_keys ?p = drop (Suc (length ?d) - nat (qc_max_size c)) (od_keys ?d)"
      using odict.pops [OF ok] by blast+
    moreover from this(2) False have "?k \<notin> set (od_keys ?p)" by (auto dest: in_set_dropD)
    ultimately show ?thesis
      using False assms(3) by (simp add: set_in_new kept_def od younger_snoc update_conv')
  qed
  then show "kept ?k ?e 0 (qc_store (fst (cache_set fq U t q m r p sql s c)))"
    using assms(2) by (simp add: cache_set_projections)
qed

text \<open>
  A response that was just set is still served, under any spelling of its question with the
  same normal form, after fewer calls than the cache has room for, as long as none of them
  replaces, invalidates or clears it, and its time to live has not passed.
\<close>

theorem cache_recent_entry_served:
  assumes "enabled c" "c = cache_run fq U before (new_cache ttl n)"
    and "\<forall>op \<in> set after. bystander fq U (question_key fq U q m p s)
           \<lparr>ce_response = r, ce_expires_at = t + of_int (qc_ttl c)\<rparr> op"
    and "int (length after) < qc_max_size c"
    and "normalize_question fq U q' = normalize_question fq U q" "t' \<le> t + of_int (qc_ttl c)"
  shows "snd (cache_get fq U t' q' m p s
           (cache_run fq U after (fst (cache_set fq U t q m r p sql s c)))) = Some r"
proof -
  let ?c1 = "fst (cache_set fq U t q m r p sql s c)"
  let ?k = "question_key fq U q m p s"
  let ?e = "\<lparr>ce_response = r, ce_expires_at = t + of_int (qc_ttl c)\<rparr>"
  have ref: "refines c (spec_run fq U before (new_spec ttl))"
    unfolding assms(2) by (rule refines_run)
  have pos: "0 < qc_max_size c" using assms(4) by linarith
  note y = cache_set_youngest [OF ref assms(1) pos, where fq = fq and U = U and q = q and m = m
      and p = p and s = s and r = r and t = t and sql = sql]
  have "map_of (qc_store (cache_run fq U after ?c1)) ?k = Some ?e
      \<and> qc_ttl (cache_run fq U after ?c1) = qc_ttl ?c1 \<and> (\<exists>sp'. refines (cache_run fq U after ?c1) sp')"
    using assms(4)
    by (intro kept_run [OF refines_cache_set [OF ref] y assms(3)]) (simp add: cache_set_projections)
  moreover have "question_key fq U q' m p s = ?k"
    using assms(5) by (simp add: question_key_eq_iff)
  ultimately show ?thesis
    using cache_get_Some_iff [of "cache_run fq U after ?c1" _ fq U t' q' m p s r] assms(1,6)
    by (auto simp: enabled_def cache_set_projections)
qed

theorem cache_recent_entry_served_witness:
  "snd (cache_get True ascii_db 5 (u ''Sales'') (u ''full'') (u ''v'') (u ''s'')
     (cache_run True ascii_db [(4, OpSet (u ''other'') (u ''full'') 8 (u ''v'') None (u ''s''))]
       (fst (cache_set True ascii_db 0 (u ''sales '') (u ''full'') (7::int) (u ''v'') None (u ''s'')
         (cache_run True ascii_db [] (new_cache 300 2)))))) = Some 7"
  by (rule cache_recent_entry_served [OF _ refl]) (simp_all add: ev)

end
