(* ===== verification/Datasource_Routing.thy ===== *)
theory Datasource_Routing
  imports Prelude
begin

text \<open>
  Which data source a statement runs on: the configured sources and their order
  (\<open>database/datasources.py\<close>), the sources of each table of \<open>schema.yaml\<close> with the rules
  that validate the file (\<open>schema_data/registry.py\<close>), and the choice of a source for the
  tables a statement reads (\<open>database/routing.py\<close>). The T-SQL identifier parser of sqlglot is
  the parameter \<open>to_table\<close>: the dotted parts of a key, or \<open>None\<close> when it does not parse; the
  tables a statement touches, which sqlglot extracts, are the parameter of \<open>resolve_datasource\<close>.
\<close>

section \<open>Configured sources\<close>

record datasources_config =
  dc_default :: "ustr option"
  dc_names :: "ustr list"

text \<open>
  The part of the deployment routing reads: \<open>datasources.yaml\<close> (\<open>None\<close> when there is no such
  file) and the \<open>datasource:\<close> value of each table of \<open>schema.yaml\<close>, normalised to a list.
\<close>

record deployment =
  dp_config :: "datasources_config option"
  dp_table_sources :: "(ustr, ustr list) odict"

definition default_datasource :: ustr where
  "default_datasource = u ''default''"

datatype config_error =
    Bad_source_name ustr
  | Default_required
  | Default_not_listed ustr
  | No_sources

text \<open>
  \<open>_NAME_RE\<close>: a letter, then letters, digits, underscores or dashes, 64 at most; \<open>$\<close> also
  matches before one final newline.
\<close>

definition is_letter :: "nat \<Rightarrow> bool" where
  "is_letter c \<longleftrightarrow> 65 \<le> c \<and> c \<le> 90 \<or> 97 \<le> c \<and> c \<le> 122"

definition is_digit :: "nat \<Rightarrow> bool" where
  "is_digit c \<longleftrightarrow> 48 \<le> c \<and> c \<le> 57"

definition valid_source_name :: "ustr \<Rightarrow> bool" where
  "valid_source_name name =
     (let s = (if name \<noteq> [] \<and> last name = 10 then butlast name else name)
      in case s of
           [] \<Rightarrow> False
         | c # t \<Rightarrow> is_letter c \<and> length t \<le> 63
             \<and> list_all (\<lambda>d. is_letter d \<or> is_digit d \<or> d = 95 \<or> d = 45) t)"

definition names_and_default_are_consistent :: "datasources_config \<Rightarrow> config_error option" where
  "names_and_default_are_consistent cfg =
     (if dc_names cfg = [] then Some No_sources
      else case find (\<lambda>n. \<not> valid_source_name n) (dc_names cfg) of
        Some n \<Rightarrow> Some (Bad_source_name n)
      | None \<Rightarrow>
          (case dc_default cfg of
             None \<Rightarrow> if 1 < length (dc_names cfg) then Some Default_required else None
           | Some d \<Rightarrow> if d \<notin> set (dc_names cfg) then Some (Default_not_listed d) else None))"

definition default_name :: "datasources_config \<Rightarrow> ustr" where
  "default_name cfg =
     (case dc_default cfg of
        None \<Rightarrow> hd (dc_names cfg)
      | Some d \<Rightarrow> if d = [] then hd (dc_names cfg) else d)"

definition default_datasource_name :: "deployment \<Rightarrow> ustr" where
  "default_datasource_name D =
     (case dp_config D of None \<Rightarrow> default_datasource | Some cfg \<Rightarrow> default_name cfg)"

definition datasource_names :: "deployment \<Rightarrow> ustr list" where
  "datasource_names D =
     (case dp_config D of
        None \<Rightarrow> [default_datasource]
      | Some cfg \<Rightarrow> default_name cfg # filter (\<lambda>n. n \<noteq> default_name cfg) (dc_names cfg))"

text \<open>\<open>dict.fromkeys\<close> keeps the first occurrence of each name.\<close>

fun dedup :: "'a list \<Rightarrow> 'a list" where
  "dedup [] = []"
| "dedup (x # xs) = x # filter (\<lambda>y. y \<noteq> x) (dedup xs)"

text \<open>The rank of a name among the configured ones; one past the end when it is not there.\<close>

fun rank :: "'a list \<Rightarrow> 'a \<Rightarrow> nat" where
  "rank [] x = 0"
| "rank (y # ys) x = (if x = y then 0 else Suc (rank ys x))"

definition in_config_order :: "deployment \<Rightarrow> ustr list \<Rightarrow> ustr list" where
  "in_config_order D names = sort_key (rank (datasource_names D)) (dedup names)"

datatype routing_error =
    No_candidate
  | Cross_datasource "(ustr, ustr list) odict"

definition pick_datasource :: "deployment \<Rightarrow> ustr list \<Rightarrow> routing_error + ustr" where
  "pick_datasource D candidates =
     (case in_config_order D candidates of [] \<Rightarrow> Inl No_candidate | s # _ \<Rightarrow> Inr s)"

section \<open>The sources of the tables\<close>

definition table_datasource_sets :: "deployment \<Rightarrow> (ustr, ustr list) odict" where
  "table_datasource_sets D =
     map (\<lambda>(t, ss). (t, in_config_order D (if ss = [] then [default_datasource_name D] else ss)))
       (dp_table_sources D)"

definition table_datasources :: "deployment \<Rightarrow> (ustr \<times> (routing_error + ustr)) list" where
  "table_datasources D = map (\<lambda>(t, ss). (t, pick_datasource D ss)) (table_datasource_sets D)"

text \<open>A value of \<open>check_table_datasources\<close>' mapping: a single name or a sequence of names.\<close>

datatype source_value = One_source ustr | Many_sources "ustr list"

definition bad_assignments :: "deployment \<Rightarrow> ustr \<times> source_value \<Rightarrow> ustr list" where
  "bad_assignments D a =
     (case a of (t, v) \<Rightarrow>
       (let ss = (case v of One_source s \<Rightarrow> [s] | Many_sources ss \<Rightarrow> ss)
        in map (\<lambda>s. t @ u '' -> '' @ s)
             (filter (\<lambda>s. (if s = [] then default_datasource_name D else s) \<notin> set (datasource_names D))
               (if ss = [] then [default_datasource_name D] else ss))))"

text \<open>The offending assignments, sorted: the source raises \<open>ValueError\<close> when there is any.\<close>

definition check_table_datasources :: "deployment \<Rightarrow> (ustr, source_value) odict option \<Rightarrow> ustr list" where
  "check_table_datasources D assignments =
     sort (concat (map (bad_assignments D)
       (case assignments of
          None \<Rightarrow> map (\<lambda>(t, ss). (t, Many_sources ss)) (table_datasource_sets D)
        | Some as \<Rightarrow> as)))"

datatype lookup_error = Unknown_source ustr | Missing_table ustr

fun select_tables ::
    "(ustr, ustr list) odict \<Rightarrow> ustr \<Rightarrow> ustr list \<Rightarrow> lookup_error + ustr list" where
  "select_tables sets s [] = Inr []"
| "select_tables sets s (t # ts) =
     (case map_of sets t of
        None \<Rightarrow> Inl (Missing_table t)
      | Some ss \<Rightarrow> map_sum id (\<lambda>r. if s \<in> set ss then t # r else r) (select_tables sets s ts))"

definition table_sources_if_several :: "deployment \<Rightarrow> (ustr, ustr list) odict" where
  "table_sources_if_several D =
     (if length (datasource_names D) < 2 then [] else table_datasource_sets D)"

definition tables_for_source ::
    "deployment \<Rightarrow> ustr list \<Rightarrow> ustr option \<Rightarrow> lookup_error + ustr list" where
  "tables_for_source D table_columns source =
     (case source of
        None \<Rightarrow> Inr table_columns
      | Some s \<Rightarrow>
          if table_sources_if_several D = [] then Inr table_columns
          else if s \<notin> set (datasource_names D) then Inl (Unknown_source s)
          else select_tables (table_sources_if_several D) s table_columns)"

section \<open>The source of a statement\<close>

text \<open>The sources of a table; a table \<open>schema.yaml\<close> does not list is in the default source.\<close>

definition sources_of_table :: "deployment \<Rightarrow> ustr \<Rightarrow> ustr list" where
  "sources_of_table D t =
     (case map_of (table_datasource_sets D) t of
        None \<Rightarrow> [default_datasource_name D] | Some ss \<Rightarrow> ss)"

definition add_to_group :: "ustr \<Rightarrow> ustr \<Rightarrow> (ustr, ustr list) odict \<Rightarrow> (ustr, ustr list) odict" where
  "add_to_group t s groups =
     (case map_of groups s of
        None \<Rightarrow> AList.update s [t] groups
      | Some ts \<Rightarrow> AList.update s (List.insert t ts) groups)"

definition group_tables_by_datasource :: "deployment \<Rightarrow> ustr list \<Rightarrow> (ustr, ustr list) odict" where
  "group_tables_by_datasource D tables =
     map (\<lambda>(s, ts). (s, sort ts))
       (fold (\<lambda>t. fold (add_to_group t) (sources_of_table D t)) tables [])"

definition choose_datasource :: "deployment \<Rightarrow> ustr list \<Rightarrow> routing_error + ustr option" where
  "choose_datasource D tables =
     (let names = dedup tables
      in if names = [] then Inr None
         else (let groups = group_tables_by_datasource D names;
                   candidates = map fst (filter (\<lambda>(s, ms). length ms = length names) groups)
               in if candidates = [] then Inl (Cross_datasource groups)
                  else map_sum id Some (pick_datasource D candidates)))"

definition resolve_datasource :: "deployment \<Rightarrow> ustr list \<Rightarrow> routing_error + ustr" where
  "resolve_datasource D tables =
     map_sum id (\<lambda>c. case c of None \<Rightarrow> default_datasource_name D
        | Some s \<Rightarrow> if s = [] then default_datasource_name D else s) (choose_datasource D tables)"

text \<open>
  \<open>sql\<close> with its touched tables, or \<open>None\<close> where extracting them raised: the audit trail's
  source never raises.
\<close>

definition target_datasource_or_none :: "deployment \<Rightarrow> (ustr \<times> ustr list option) option \<Rightarrow> ustr option" where
  "target_datasource_or_none D stmt =
     (case stmt of
        None \<Rightarrow> None
      | Some (sql, tables) \<Rightarrow>
          if sql = [] then None
          else (case tables of
                  None \<Rightarrow> None
                | Some ts \<Rightarrow> (case resolve_datasource D ts of Inl _ \<Rightarrow> None | Inr s \<Rightarrow> Some s)))"

section \<open>The choice is right\<close>

declare default_datasource_def [ev] default_name_def [ev] default_datasource_name_def [ev]
  datasource_names_def [ev] in_config_order_def [ev] pick_datasource_def [ev]
  table_datasource_sets_def [ev] bad_assignments_def [ev] check_table_datasources_def [ev]
  sources_of_table_def [ev] add_to_group_def [ev] group_tables_by_datasource_def [ev]
  choose_datasource_def [ev] resolve_datasource_def [ev] insort_insert_key_def [ev]

lemma set_dedup [simp]: "set (dedup xs) = set xs"
  by (induction xs) auto

lemma distinct_dedup [simp]: "distinct (dedup xs)"
  by (induction xs) auto

lemma dedup_Nil_iff [simp]: "dedup xs = [] \<longleftrightarrow> xs = []"
  by (cases xs) simp_all

lemma rank_inj: "x \<in> set ys \<Longrightarrow> rank ys x = rank ys y \<Longrightarrow> x = y"
  by (induction ys) (auto split: if_splits)

lemma set_in_config_order [simp]: "set (in_config_order D ns) = set ns"
  by (simp add: in_config_order_def)

definition common_source :: "deployment \<Rightarrow> ustr list \<Rightarrow> ustr \<Rightarrow> bool" where
  "common_source D tables s \<longleftrightarrow> list_all (\<lambda>t. s \<in> set (sources_of_table D t)) tables"

lemma common_source_iff: "common_source D ts s \<longleftrightarrow> (\<forall>t \<in> set ts. s \<in> set (sources_of_table D t))"
  by (simp add: common_source_def list_all_iff)

text \<open>The groups hold exactly the tables \<open>P s\<close> for each source \<open>s\<close>.\<close>

definition groups_ok :: "(ustr \<Rightarrow> ustr set) \<Rightarrow> (ustr, ustr list) odict \<Rightarrow> bool" where
  "groups_ok P G \<longleftrightarrow> od_ok G \<and>
     (\<forall>s. case map_of G s of None \<Rightarrow> P s = {} | Some ms \<Rightarrow> distinct ms \<and> set ms = P s)"

lemma groups_ok_add:
  assumes "groups_ok P G"
  shows "groups_ok (P(s := insert t (P s))) (add_to_group t s G)"
proof -
  have ok: "od_ok G" using assms by (simp add: groups_ok_def)
  have m: "map_of (add_to_group t s G)
      = (map_of G)(s \<mapsto> (case map_of G s of None \<Rightarrow> [t] | Some ms \<Rightarrow> List.insert t ms))"
    by (simp add: add_to_group_def update_conv' split: option.split)
  have "od_ok (add_to_group t s G)"
    using ok by (simp add: add_to_group_def odict.ok_put [OF ok] split: option.split)
  moreover have "case map_of (add_to_group t s G) s' of
        None \<Rightarrow> (P(s := insert t (P s))) s' = {}
      | Some ms \<Rightarrow> distinct ms \<and> set ms = (P(s := insert t (P s))) s'" for s'
  proof -
    have "case map_of G s' of None \<Rightarrow> P s' = {} | Some ms \<Rightarrow> distinct ms \<and> set ms = P s'"
      using assms by (simp add: groups_ok_def)
    then show ?thesis
      unfolding m by (cases "s' = s"; cases "map_of G s"; cases "map_of G s'") simp_all
  qed
  ultimately show ?thesis unfolding groups_ok_def by blast
qed

lemma groups_ok_table:
  "groups_ok P G \<Longrightarrow>
     groups_ok (\<lambda>s. if s \<in> set ss then insert t (P s) else P s) (fold (add_to_group t) ss G)"
proof (induction ss arbitrary: P G)
  case (Cons s ss)
  have "(\<lambda>s'. if s' \<in> set ss then insert t ((P(s := insert t (P s))) s') else (P(s := insert t (P s))) s')
      = (\<lambda>s'. if s' \<in> set (s # ss) then insert t (P s') else P s')"
    by (rule ext) simp
  with Cons.IH [OF groups_ok_add [OF Cons.prems, of s t]] show ?case by simp
qed simp

lemma groups_ok_all:
  "groups_ok (\<lambda>s. {t \<in> set ts. s \<in> set (sources_of_table D t)})
     (fold (\<lambda>t. fold (add_to_group t) (sources_of_table D t)) ts [])"
proof (induction ts rule: rev_induct)
  case Nil
  show ?case by (simp add: groups_ok_def)
next
  case (snoc x xs)
  have "(\<lambda>s. if s \<in> set (sources_of_table D x)
         then insert x {t \<in> set xs. s \<in> set (sources_of_table D t)}
         else {t \<in> set xs. s \<in> set (sources_of_table D t)})
      = (\<lambda>s. {t \<in> set (xs @ [x]). s \<in> set (sources_of_table D t)})"
    by (rule ext) auto
  with groups_ok_table [OF snoc, of "sources_of_table D x" x] show ?case by simp
qed

lemma group_tables_members:
  "map_of (group_tables_by_datasource D ts) s = Some ms \<Longrightarrow>
     distinct ms \<and> set ms = {t \<in> set ts. s \<in> set (sources_of_table D t)}"
  "s \<notin> fst ` set (group_tables_by_datasource D ts) \<Longrightarrow> t \<in> set ts \<Longrightarrow> s \<notin> set (sources_of_table D t)"
  "od_ok (group_tables_by_datasource D ts)"
proof -
  let ?G = "fold (\<lambda>t. fold (add_to_group t) (sources_of_table D t)) ts []"
  have m: "map_of (group_tables_by_datasource D ts) s = map_option sort (map_of ?G s)" for s
    unfolding group_tables_by_datasource_def by (simp only: map_of_map o_apply)
  have ok: "groups_ok (\<lambda>s. {t \<in> set ts. s \<in> set (sources_of_table D t)}) ?G"
    by (rule groups_ok_all)
  then have *: "case map_of ?G s of None \<Rightarrow> {t \<in> set ts. s \<in> set (sources_of_table D t)} = {}
      | Some ms \<Rightarrow> distinct ms \<and> set ms = {t \<in> set ts. s \<in> set (sources_of_table D t)}" for s
    unfolding groups_ok_def by blast
  show "map_of (group_tables_by_datasource D ts) s = Some ms \<Longrightarrow>
     distinct ms \<and> set ms = {t \<in> set ts. s \<in> set (sources_of_table D t)}"
  proof -
    assume "map_of (group_tables_by_datasource D ts) s = Some ms"
    then obtain ms' where "map_of ?G s = Some ms'" "ms = sort ms'" unfolding m by blast
    with * [of s] show ?thesis by simp
  qed
  show "s \<notin> fst ` set (group_tables_by_datasource D ts) \<Longrightarrow> t \<in> set ts \<Longrightarrow> s \<notin> set (sources_of_table D t)"
  proof -
    assume "s \<notin> fst ` set (group_tables_by_datasource D ts)" "t \<in> set ts"
    then have "map_of ?G s = None"
      using m [of s] by (simp add: map_of_eq_None_iff [symmetric])
    with * [of s] \<open>t \<in> set ts\<close> show ?thesis by auto
  qed
  show "od_ok (group_tables_by_datasource D ts)"
    using ok by (simp add: groups_ok_def od_ok_def group_tables_by_datasource_def case_prod_unfold comp_def)
qed

lemma candidates_common:
  assumes "distinct names" "names \<noteq> []"
  shows "set (map fst (filter (\<lambda>(s, ms). length ms = length names) (group_tables_by_datasource D names)))
    = {s. common_source D names s}"
proof -
  let ?G = "group_tables_by_datasource D names"
  have full: "length ms = length names \<longleftrightarrow> common_source D names s" if "map_of ?G s = Some ms" for s ms
  proof -
    have ms: "distinct ms" "set ms = {t \<in> set names. s \<in> set (sources_of_table D t)}"
      using group_tables_members(1) [OF that] by simp_all
    have "length ms = length names \<longleftrightarrow> card (set ms) = card (set names)"
      using ms(1) assms(1) by (simp add: distinct_card)
    also have "\<dots> \<longleftrightarrow> set ms = set names"
      using ms(2) by (metis (no_types, lifting) List.finite_set card_subset_eq mem_Collect_eq subsetI)
    also have "\<dots> \<longleftrightarrow> common_source D names s"
      unfolding ms(2) common_source_iff by auto
    finally show ?thesis .
  qed
  have "s \<in> fst ` set ?G" if "common_source D names s" for s
  proof (rule ccontr)
    assume "s \<notin> fst ` set ?G"
    moreover have "hd names \<in> set names" using assms(2) by simp
    ultimately have "s \<notin> set (sources_of_table D (hd names))" by (rule group_tables_members(2))
    with that \<open>hd names \<in> set names\<close> show False by (auto simp: common_source_iff)
  qed
  moreover have mem: "(s, ms) \<in> set ?G \<longleftrightarrow> map_of ?G s = Some ms" for s ms
    using group_tables_members(3) [of D names] by (simp add: od_ok_def)
  ultimately show ?thesis
  proof (intro set_eqI iffI)
    fix s assume "s \<in> set (map fst (filter (\<lambda>(s, ms). length ms = length names) ?G))"
    then obtain ms where "(s, ms) \<in> set ?G" "length ms = length names" by auto
    then show "s \<in> {s. common_source D names s}" using full by (simp add: mem)
  next
    fix s assume s: "s \<in> {s. common_source D names s}"
    assume all: "\<And>s. common_source D names s \<Longrightarrow> s \<in> fst ` set ?G"
    from s have "common_source D names s" by simp
    from all [OF this] obtain ms where ms: "(s, ms) \<in> set ?G" by auto
    then have "length ms = length names" using s full by (simp add: mem)
    with ms have "(s, ms) \<in> set (filter (\<lambda>(s, ms). length ms = length names) ?G)" by simp
    then have "fst (s, ms) \<in> fst ` set (filter (\<lambda>(s, ms). length ms = length names) ?G)"
      by (rule imageI)
    then show "s \<in> set (map fst (filter (\<lambda>(s, ms). length ms = length names) ?G))"
      by (simp only: set_map fst_conv)
  qed
qed

lemma common_source_dedup [simp]: "common_source D (dedup ts) s \<longleftrightarrow> common_source D ts s"
  by (simp add: common_source_iff)

lemma pick_datasource_cases:
  "candidates \<noteq> [] \<Longrightarrow> \<exists>d. pick_datasource D candidates = Inr d \<and> d \<in> set candidates
     \<and> (\<forall>c \<in> set candidates. rank (datasource_names D) d \<le> rank (datasource_names D) c)"
proof -
  assume ne: "candidates \<noteq> []"
  then obtain d ds where d: "in_config_order D candidates = d # ds"
    by (metis list.exhaust set_empty set_in_config_order)
  have "sorted (map (rank (datasource_names D)) (in_config_order D candidates))"
    by (simp add: in_config_order_def)
  then have "\<forall>c \<in> set (d # ds). rank (datasource_names D) d \<le> rank (datasource_names D) c"
    by (simp add: d)
  moreover have "set (d # ds) = set candidates" by (metis d set_in_config_order)
  ultimately show ?thesis by (auto simp: pick_datasource_def d)
qed

lemma choose_datasource_cases:
  "(tables = [] \<and> choose_datasource D tables = Inr None)
   \<or> (tables \<noteq> [] \<and> (\<nexists>s. common_source D tables s)
       \<and> choose_datasource D tables
          = Inl (Cross_datasource (group_tables_by_datasource D (dedup tables))))
   \<or> (\<exists>d. tables \<noteq> [] \<and> choose_datasource D tables = Inr (Some d) \<and> common_source D tables d
       \<and> (\<forall>s. common_source D tables s \<longrightarrow> rank (datasource_names D) d \<le> rank (datasource_names D) s))"
proof (cases "tables = []")
  case True
  then show ?thesis by (simp add: choose_datasource_def)
next
  case False
  let ?cs = "map fst (filter (\<lambda>(s, ms). length ms = length (dedup tables))
      (group_tables_by_datasource D (dedup tables)))"
  have cs: "set ?cs = {s. common_source D tables s}"
    using candidates_common [of "dedup tables" D] False by simp
  show ?thesis
  proof (cases "?cs = []")
    case True
    then have "\<nexists>s. common_source D tables s" using cs by (metis empty_Collect_eq set_empty)
    then show ?thesis using False True by (simp add: choose_datasource_def Let_def)
  next
    case ne: False
    obtain d where d: "pick_datasource D ?cs = Inr d" "d \<in> set ?cs"
      "\<forall>c \<in> set ?cs. rank (datasource_names D) d \<le> rank (datasource_names D) c"
      using pick_datasource_cases [OF ne, of D] by blast
    have "choose_datasource D tables = Inr (Some d)"
      using False ne d(1) by (simp add: choose_datasource_def Let_def)
    moreover have "common_source D tables d" using d(2) unfolding cs by simp
    moreover have "\<forall>s. common_source D tables s \<longrightarrow> rank (datasource_names D) d \<le> rank (datasource_names D) s"
      using d(3) unfolding cs by simp
    ultimately show ?thesis using False by blast
  qed
qed

text \<open>
  The source chosen for a statement has every table the statement reads, and of all such
  sources it is the first in configuration order (the default source first). A statement is
  refused exactly when no source has all its tables, and no source is chosen exactly when it
  reads no table.
\<close>

theorem choose_datasource_spec:
  "case choose_datasource D tables of
     Inr None \<Rightarrow> tables = []
   | Inr (Some d) \<Rightarrow> tables \<noteq> [] \<and> common_source D tables d
       \<and> {s. common_source D tables s}
           \<subseteq> {s. rank (datasource_names D) d \<le> rank (datasource_names D) s}
   | Inl e \<Rightarrow> tables \<noteq> [] \<and> {s. common_source D tables s} = {}
       \<and> e = Cross_datasource (group_tables_by_datasource D (dedup tables))"
proof -
  consider "tables = []" "choose_datasource D tables = Inr None"
    | "tables \<noteq> []" "\<nexists>s. common_source D tables s"
      "choose_datasource D tables = Inl (Cross_datasource (group_tables_by_datasource D (dedup tables)))"
    | d where "tables \<noteq> []" "choose_datasource D tables = Inr (Some d)" "common_source D tables d"
      "\<forall>s. common_source D tables s \<longrightarrow> rank (datasource_names D) d \<le> rank (datasource_names D) s"
    using choose_datasource_cases [of tables D] by blast
  then show ?thesis by cases auto
qed

lemma sort_Nil_iff: "sort xs = [] \<longleftrightarrow> xs = []"
  by (metis length_0_conv length_sort)

lemma checked_sources:
  assumes "check_table_datasources D None = []"
  shows "set (sources_of_table D t) \<subseteq> insert [] (set (datasource_names D))"
proof (cases "map_of (table_datasource_sets D) t")
  case None
  then show ?thesis
    by (simp add: sources_of_table_def datasource_names_def default_datasource_name_def split: option.splits)
next
  case (Some ss)
  then have m: "(t, Many_sources ss) \<in> set (map (\<lambda>(t, ss). (t, Many_sources ss)) (table_datasource_sets D))"
    by (auto dest: map_of_SomeD)
  have "concat (map (bad_assignments D) (map (\<lambda>(t, ss). (t, Many_sources ss)) (table_datasource_sets D))) = []"
    using assms unfolding check_table_datasources_def option.case sort_Nil_iff .
  with m have "bad_assignments D (t, Many_sources ss) = []" by fastforce
  then have "\<forall>s \<in> set (if ss = [] then [default_datasource_name D] else ss).
      (if s = [] then default_datasource_name D else s) \<in> set (datasource_names D)"
    by (simp add: bad_assignments_def filter_empty_conv)
  then have "set ss \<subseteq> insert [] (set (datasource_names D))"
    by (cases "ss = []") (auto split: if_splits)
  with Some show ?thesis by (simp add: sources_of_table_def)
qed

lemma common_source_checked:
  "check_table_datasources D None = [] \<Longrightarrow> tables \<noteq> [] \<Longrightarrow> common_source D tables s \<Longrightarrow>
     s \<in> insert [] (set (datasource_names D))"
  using checked_sources [of D "hd tables"] by (auto simp: common_source_iff)

text \<open>
  Once the start-up check of the table assignments has passed, the choice does not depend
  on the order or repetition of the tables: two statements that read the same set of tables
  are routed to the same source.
\<close>

theorem choose_datasource_set_determined:
  assumes "check_table_datasources D None = []" "set ts = set us"
    and "choose_datasource D ts = Inr (Some d)"
  shows "choose_datasource D us = Inr (Some d)"
proof -
  have same: "common_source D ts s \<longleftrightarrow> common_source D us s" for s
    using assms(2) by (simp add: common_source_iff)
  have d: "ts \<noteq> []" "common_source D ts d"
    "\<forall>s. common_source D ts s \<longrightarrow> rank (datasource_names D) d \<le> rank (datasource_names D) s"
    using choose_datasource_cases [of ts D] assms(3) by auto
  moreover have us: "us \<noteq> []" using d(1) assms(2) by auto
  ultimately obtain e where e: "choose_datasource D us = Inr (Some e)" "common_source D us e"
    "\<forall>s. common_source D us s \<longrightarrow> rank (datasource_names D) e \<le> rank (datasource_names D) s"
    using choose_datasource_cases [of us D] same by blast
  have r: "rank (datasource_names D) d = rank (datasource_names D) e"
    using d(2,3) e(2,3) same le_antisym by blast
  have "d \<in> insert [] (set (datasource_names D))" "e \<in> insert [] (set (datasource_names D))"
    using common_source_checked [OF assms(1)] d(1,2) us e(2) by blast+
  then have "d = e" using r rank_inj [of d _ e] rank_inj [of e _ d] by fastforce
  with e(1) show ?thesis by simp
qed

definition example_deployment :: deployment where
  "example_deployment =
     \<lparr>dp_config = Some \<lparr>dc_default = Some (u ''A''), dc_names = [u ''B'', u ''A'']\<rparr>,
      dp_table_sources = [(u ''Order'', [u ''B'']), (u ''Customer'', [u ''B'', u ''A'']), (u ''Date'', [])]\<rparr>"

theorem choose_datasource_set_determined_witness:
  "choose_datasource example_deployment [u ''Customer'', u ''Order'', u ''Customer''] = Inr (Some (u ''B''))"
  by (rule choose_datasource_set_determined [of _ "[u ''Order'', u ''Customer'']"])
    (simp_all add: ev example_deployment_def Let_def insert_commute)

text \<open>
  Once the start-up check has passed, a statement that is not refused always runs on a
  configured source, whatever tables it reads (listed in the schema or not).
\<close>

theorem resolve_datasource_configured:
  assumes "check_table_datasources D None = []" "resolve_datasource D tables = Inr s"
  shows "s \<in> set (datasource_names D)"
proof -
  have def: "default_datasource_name D \<in> set (datasource_names D)"
    by (simp add: datasource_names_def default_datasource_name_def split: option.split)
  show ?thesis
    using choose_datasource_cases [of tables D]
  proof (elim disjE conjE exE)
    fix d assume d: "tables \<noteq> []" "choose_datasource D tables = Inr (Some d)" "common_source D tables d"
    have "d \<in> insert [] (set (datasource_names D))"
      using common_source_checked [OF assms(1) d(1,3)] .
    with def d(2) assms(2) show ?thesis by (auto simp: resolve_datasource_def split: if_splits)
  qed (use assms(2) def in \<open>simp_all add: resolve_datasource_def\<close>)
qed

theorem resolve_datasource_configured_witness:
  "u ''A'' \<in> set (datasource_names example_deployment)"
  by (rule resolve_datasource_configured [of _ "[u ''Date'', u ''Unlisted'']"])
    (simp_all add: ev example_deployment_def Let_def)

text \<open>
  The name rule of \<open>datasources.yaml\<close> lets one trailing newline through: \<open>$\<close> matches before it.
\<close>

lemma source_name_trailing_newline: "valid_source_name (u ''sales'' @ [10])"
  by (simp add: valid_source_name_def u_def is_letter_def)

end
