(* ===== verification/Schema_Config.thy ===== *)
theory Schema_Config
  imports Datasource_Routing Persian_Text
begin

text \<open>
  \<open>schema_data/registry.py\<close>: table keys and their qualifiers, the rules a \<open>schema.yaml\<close> must
  pass, and the maps the rest of the program reads from it. Two things the source takes from
  elsewhere are parameters: \<open>to_table\<close>, the parts sqlglot reads from a T-SQL identifier (\<open>None\<close>
  when it does not parse), and the Unicode tables \<open>U\<close> behind \<open>str.lower\<close>.
\<close>

section \<open>Table keys\<close>

datatype key_error = Not_an_identifier ustr | No_name ustr | Too_many_qualifiers ustr

type_synonym identifier_parser = "ustr \<Rightarrow> ustr list option"

text \<open>A \<open>TableRef\<close> is its list of parts: the qualifier, then the bare name.\<close>

definition split_table_key :: "identifier_parser \<Rightarrow> ustr \<Rightarrow> key_error + ustr list" where
  "split_table_key to_table key =
     (case to_table key of
        None \<Rightarrow> Inl (Not_an_identifier key)
      | Some parts \<Rightarrow>
          if parts = [] then Inl (No_name key)
          else if 4 < length parts then Inl (Too_many_qualifiers key)
          else Inr parts)"

definition ref_name :: "ustr list \<Rightarrow> ustr" where
  "ref_name parts = last parts"

definition ref_qualifier :: "ustr list \<Rightarrow> ustr list" where
  "ref_qualifier parts = butlast parts"

definition bare_table_name :: "identifier_parser \<Rightarrow> ustr \<Rightarrow> key_error + ustr" where
  "bare_table_name to_table key = map_sum id ref_name (split_table_key to_table key)"

text \<open>\<open>_PLAIN_IDENT\<close>; \<open>$\<close> also matches before one final newline.\<close>

definition plain_ident :: "ustr \<Rightarrow> bool" where
  "plain_ident part =
     (let s = (if part \<noteq> [] \<and> last part = 10 then butlast part else part)
      in case s of [] \<Rightarrow> False
         | c # t \<Rightarrow> (is_letter c \<or> c = 95) \<and> list_all (\<lambda>d. is_letter d \<or> is_digit d \<or> d = 95) t)"

definition ident :: "ustr \<Rightarrow> ustr" where
  "ident part =
     (if plain_ident part then part
      else [91] @ concat (map (\<lambda>c. if c = 93 then [93, 93] else [c]) part) @ [93])"

definition table_key_for :: "identifier_parser \<Rightarrow> ustr \<Rightarrow> ustr \<Rightarrow> bool \<Rightarrow> ustr option" where
  "table_key_for to_table schema name qualified =
     (let key = (if qualified \<and> schema \<noteq> [] then ident schema @ [46] @ ident name else ident name)
      in case split_table_key to_table key of
           Inl _ \<Rightarrow> None
         | Inr parts \<Rightarrow> if ref_name parts = name then Some key else None)"

definition schemas_of_name :: "unicode_db \<Rightarrow> (ustr option \<times> ustr) list \<Rightarrow> ustr \<Rightarrow> ustr set" where
  "schemas_of_name U tables name =
     (\<lambda>(s, n). lower U (case s of None \<Rightarrow> [] | Some x \<Rightarrow> x)) ` {t \<in> set tables. lower U (snd t) = name}"

definition shared_table_names :: "unicode_db \<Rightarrow> (ustr option \<times> ustr) list \<Rightarrow> ustr set" where
  "shared_table_names U tables =
     {n \<in> (\<lambda>t. lower U (snd t)) ` set tables. 1 < card (schemas_of_name U tables n)}"

definition effective_qualifier :: "identifier_parser \<Rightarrow> ustr \<Rightarrow> ustr \<Rightarrow> key_error + ustr list" where
  "effective_qualifier to_table key db_schema =
     map_sum id (\<lambda>parts.
         if ref_qualifier parts \<noteq> [] then ref_qualifier parts
         else if db_schema \<noteq> [] then split_on 46 db_schema else [])
       (split_table_key to_table key)"

section \<open>The datasource value of a table\<close>

datatype yaml_item = Y_text ustr | Y_other_item

datatype yaml_value = Y_null | Y_str ustr | Y_list "yaml_item list" | Y_other

datatype datasource_error = Empty_list | Blank_entry | Repeated ustr | Wrong_type

fun item_text :: "yaml_item \<Rightarrow> ustr" where
  "item_text (Y_text s) = s"
| "item_text Y_other_item = []"

definition normalise_datasource_names :: "yaml_value \<Rightarrow> datasource_error + ustr list" where
  "normalise_datasource_names v =
     (case v of
        Y_null \<Rightarrow> Inr []
      | Y_str s \<Rightarrow> Inr (if s = [] then [] else [s])
      | Y_list items \<Rightarrow>
          if items = [] then Inl Empty_list
          else if list_ex (\<lambda>i. strip (item_text i) = []) items then Inl Blank_entry
          else (case find (\<lambda>i. 1 < count_list items i) items of
                  Some i \<Rightarrow> Inl (Repeated (item_text i))
                | None \<Rightarrow> Inr (map item_text items))
      | Y_other \<Rightarrow> Inl Wrong_type)"

section \<open>Validation of schema.yaml\<close>

text \<open>A \<open>columns\<close> key may be absent (\<open>None\<close>): the table is described but not queryable.\<close>

record table_def =
  td_description :: ustr
  td_columns :: "(ustr, ustr) odict option"
  td_column_types :: "(ustr, ustr) odict"
  td_column_units :: "(ustr, ustr) odict"
  td_db_schema :: ustr
  td_datasource :: "ustr list"
  td_resolvable :: "ustr list"
  td_prefetchable :: "ustr list"

record relationship_def =
  rd_from :: ustr
  rd_to :: ustr
  rd_join_sql :: ustr

record schema_config =
  sch_tables :: "(ustr, table_def) odict"
  sch_relationships :: "relationship_def list"

datatype unit_value = Unit_text ustr | Unit_other

definition column_unit_words :: "ustr set" where
  "column_unit_words = {u ''rial'', u ''none''}"

text \<open>\<open>_units_are_known_words\<close>: the first bad unit is an error; otherwise lower-case words.\<close>

fun units_are_known_words ::
    "unicode_db \<Rightarrow> (ustr, unit_value) odict \<Rightarrow> ustr + (ustr, ustr) odict" where
  "units_are_known_words U [] = Inr []"
| "units_are_known_words U ((c, v) # cs) =
     (case v of
        Unit_other \<Rightarrow> Inl c
      | Unit_text w \<Rightarrow>
          if lower U (strip w) \<in> column_unit_words
          then map_sum id (Cons (c, lower U (strip w))) (units_are_known_words U cs)
          else Inl c)"

datatype schema_error =
    Unknown_types ustr "ustr list"
  | Unknown_units ustr "ustr list"
  | Bad_db_schema ustr
  | Unknown_flagged ustr "ustr list"
  | No_qualifier ustr
  | Bad_key key_error
  | Qualifier_mismatch ustr
  | Same_table ustr ustr

definition column_names :: "table_def \<Rightarrow> ustr list" where
  "column_names t = (case td_columns t of None \<Rightarrow> [] | Some cs \<Rightarrow> map fst cs)"

definition missing :: "ustr list \<Rightarrow> ustr list \<Rightarrow> ustr list" where
  "missing names known = sort (remdups (filter (\<lambda>n. n \<notin> set known) names))"

definition table_columns_error :: "identifier_parser \<Rightarrow> ustr \<times> table_def \<Rightarrow> schema_error option" where
  "table_columns_error to_table nt =
     (case nt of (name, t) \<Rightarrow>
       (let known = column_names t;
            types = missing (map fst (td_column_types t)) known;
            units = missing (map fst (td_column_units t)) known;
            parts = split_on 46 (td_db_schema t);
            flagged = td_resolvable t @ td_prefetchable t;
            unknown = missing flagged known
        in if types \<noteq> [] then Some (Unknown_types name types)
           else if units \<noteq> [] then Some (Unknown_units name units)
           else if td_db_schema t \<noteq> [] \<and> (list_ex (\<lambda>p. strip p = []) parts \<or> 3 < length parts)
           then Some (Bad_db_schema name)
           else if flagged = [] then None
           else if unknown \<noteq> [] then Some (Unknown_flagged name unknown)
           else (case effective_qualifier to_table name (td_db_schema t) of
                   Inl e \<Rightarrow> Some (Bad_key e)
                 | Inr q \<Rightarrow> if q = [] then Some (No_qualifier name) else None)))"

fun first_error :: "('a \<Rightarrow> 'e option) \<Rightarrow> 'a list \<Rightarrow> 'e option" where
  "first_error f [] = None"
| "first_error f (x # xs) = (case f x of Some e \<Rightarrow> Some e | None \<Rightarrow> first_error f xs)"

text \<open>The identity of a table: its lower-cased effective qualifier and bare name.\<close>

definition dedup_key ::
    "identifier_parser \<Rightarrow> unicode_db \<Rightarrow> ustr \<Rightarrow> table_def \<Rightarrow> key_error + ustr list \<times> ustr" where
  "dedup_key to_table U name t =
     (case split_table_key to_table name of
        Inl e \<Rightarrow> Inl e
      | Inr parts \<Rightarrow>
          map_sum id (\<lambda>q. (map (lower U) q, lower U (ref_name parts)))
            (effective_qualifier to_table name (td_db_schema t)))"

fun table_keys_error ::
    "identifier_parser \<Rightarrow> unicode_db \<Rightarrow> (ustr list \<times> ustr, ustr) odict
     \<Rightarrow> (ustr, table_def) odict \<Rightarrow> schema_error option" where
  "table_keys_error to_table U seen [] = None"
| "table_keys_error to_table U seen ((name, t) # ts) =
     (case split_table_key to_table name of
        Inl e \<Rightarrow> Some (Bad_key e)
      | Inr parts \<Rightarrow>
          if ref_qualifier parts \<noteq> [] \<and> td_db_schema t \<noteq> []
             \<and> map (lower U) (ref_qualifier parts) \<noteq> map (lower U) (split_on 46 (td_db_schema t))
          then Some (Qualifier_mismatch name)
          else (case dedup_key to_table U name t of
                  Inl e \<Rightarrow> Some (Bad_key e)
                | Inr k \<Rightarrow>
                    (case map_of seen k of
                       Some other \<Rightarrow> Some (Same_table name other)
                     | None \<Rightarrow> table_keys_error to_table U (AList.update k name seen) ts)))"

definition validate_schema :: "identifier_parser \<Rightarrow> unicode_db \<Rightarrow> schema_config \<Rightarrow> schema_error option" where
  "validate_schema to_table U cfg =
     (case first_error (table_columns_error to_table) (sch_tables cfg) of
        Some e \<Rightarrow> Some e
      | None \<Rightarrow> table_keys_error to_table U [] (sch_tables cfg))"

section \<open>What the registry derives\<close>

definition unit_declarations :: "unicode_db \<Rightarrow> schema_config \<Rightarrow> (ustr \<times> ustr) list" where
  "unit_declarations U cfg =
     concat (map (\<lambda>(name, t). map (\<lambda>(c, w). (lower U c, w)) (td_column_units t)) (sch_tables cfg))"

text \<open>The loop of \<open>_merged_column_units\<close>: the first unit of each name, and the names in conflict.\<close>

fun merge_units ::
    "(ustr, ustr) odict \<Rightarrow> ustr set \<Rightarrow> (ustr \<times> ustr) list \<Rightarrow> (ustr, ustr) odict \<times> ustr set" where
  "merge_units seen conflicting [] = (seen, conflicting)"
| "merge_units seen conflicting ((k, w) # ds) =
     (case map_of seen k of
        None \<Rightarrow> merge_units (AList.update k w seen) conflicting ds
      | Some w' \<Rightarrow> merge_units seen (if w' \<noteq> w then insert k conflicting else conflicting) ds)"

definition merged_column_units :: "unicode_db \<Rightarrow> schema_config \<Rightarrow> (ustr, ustr) odict" where
  "merged_column_units U cfg =
     (case merge_units [] {} (unit_declarations U cfg) of
        (seen, conflicting) \<Rightarrow> filter (\<lambda>(k, w). k \<notin> conflicting) seen)"

record schema_cache =
  sc_descriptions :: "(ustr, ustr) odict"
  sc_columns :: "(ustr, (ustr, ustr) odict) odict"
  sc_units :: "(ustr, ustr) odict"
  sc_relationships :: "(ustr, ustr) odict"
  sc_qualifiers :: "(ustr, ustr) odict"
  sc_datasources :: "(ustr, ustr list) odict"
  sc_resolvable :: "(ustr, ustr list) odict"
  sc_prefetchable :: "(ustr, ustr list) odict"

text \<open>
  \<open>_cache_entries\<close>. The qualifiers are computed for a validated file, whose keys all parse; a
  key that does not is left out.
\<close>

definition cache_entries :: "identifier_parser \<Rightarrow> unicode_db \<Rightarrow> schema_config \<Rightarrow> schema_cache" where
  "cache_entries to_table U cfg =
     (let ts = sch_tables cfg
      in \<lparr>sc_descriptions = map (\<lambda>(n, t). (n, td_description t)) ts,
          sc_columns = concat (map (\<lambda>(n, t). case td_columns t of
              None \<Rightarrow> [] | Some cs \<Rightarrow> if cs = [] then [] else [(n, cs)]) ts),
          sc_units = merged_column_units U cfg,
          sc_relationships = fold (\<lambda>r. AList.update (rd_from r @ u '' -> '' @ rd_to r) (rd_join_sql r))
              (sch_relationships cfg) [],
          sc_qualifiers = concat (map (\<lambda>(n, t). case effective_qualifier to_table n (td_db_schema t) of
              Inl _ \<Rightarrow> [] | Inr q \<Rightarrow> if q = [] then [] else [(n, join [46] q)]) ts),
          sc_datasources = map (\<lambda>(n, t). (n, td_datasource t)) ts,
          sc_resolvable = concat (map (\<lambda>(n, t). if td_resolvable t = [] then [] else [(n, td_resolvable t)]) ts),
          sc_prefetchable = concat (map (\<lambda>(n, t). if td_prefetchable t = [] then [] else [(n, td_prefetchable t)]) ts)\<rparr>)"

datatype violation =
    Empty_allowlist
  | No_columns ustr
  | Blank_column ustr
  | Undescribed "ustr list"
  | Unknown_left_table ustr ustr

definition left_table :: "ustr \<Rightarrow> ustr" where
  "left_table key =
     (case find (\<lambda>i. startswith (drop i key) (u '' -> '')) [0..<length key] of
        None \<Rightarrow> key | Some i \<Rightarrow> take i key)"

definition check_allowlist_structural_invariants ::
    "(ustr, (ustr, ustr) odict) odict \<Rightarrow> (ustr, ustr) odict \<Rightarrow> (ustr, ustr) odict \<Rightarrow> violation list" where
  "check_allowlist_structural_invariants columns descriptions relationships =
     (if columns = [] then [Empty_allowlist] else [])
     @ concat (map (\<lambda>(t, cs).
          if cs = [] then [No_columns t]
          else if list_ex (\<lambda>c. strip (fst c) = []) cs then [Blank_column t] else []) columns)
     @ (let undescribed = missing (map fst columns) (map fst descriptions)
        in if undescribed \<noteq> [] then [Undescribed undescribed] else [])
     @ concat (map (\<lambda>(k, j).
          if left_table k \<notin> set (map fst descriptions) then [Unknown_left_table k (left_table k)] else [])
        relationships)"

section \<open>What validation guarantees\<close>

declare split_table_key_def [ev] ref_name_def [ev] ref_qualifier_def [ev] bare_table_name_def [ev]
  effective_qualifier_def [ev] column_names_def [ev] missing_def [ev] table_columns_error_def [ev]
  dedup_key_def [ev] validate_schema_def [ev] unit_declarations_def [ev] merged_column_units_def [ev]
  cache_entries_def [ev] column_unit_words_def [ev]

lemma first_error_None: "first_error f xs = None \<longleftrightarrow> (\<forall>x \<in> set xs. f x = None)"
  by (induction xs) (auto split: option.splits)

lemma table_keys_ok:
  "table_keys_error P U seen ts = None \<Longrightarrow>
     (\<forall>(n, t) \<in> set ts. \<exists>k. dedup_key P U n t = Inr k \<and> map_of seen k = None)
     \<and> distinct (map (\<lambda>(n, t). dedup_key P U n t) ts)"
proof (induction ts arbitrary: seen)
  case (Cons nt ts)
  obtain n t where nt: "nt = (n, t)" by (cases nt)
  from Cons.prems obtain k where k: "dedup_key P U n t = Inr k" "map_of seen k = None"
      "table_keys_error P U (AList.update k n seen) ts = None"
    by (auto simp: nt split: sum.splits if_splits option.splits)
  from Cons.IH [OF k(3)] have
    "\<forall>(n', t') \<in> set ts. \<exists>k'. dedup_key P U n' t' = Inr k' \<and> map_of seen k' = None \<and> k' \<noteq> k"
    "distinct (map (\<lambda>(n, t). dedup_key P U n t) ts)"
    by (auto simp: update_conv' split: if_splits)
  then show ?case using k(1,2) by (fastforce simp: nt)
qed simp

lemma missing_Nil_iff: "missing names known = [] \<longleftrightarrow> set names \<subseteq> set known"
  by (auto simp: missing_def sort_Nil_iff filter_empty_conv)

lemma table_columns_ok:
  assumes "table_columns_error P (n, t) = None"
  shows "set (map fst (td_column_types t)) \<subseteq> set (column_names t)"
    "set (map fst (td_column_units t)) \<subseteq> set (column_names t)"
    "set (td_resolvable t @ td_prefetchable t) \<subseteq> set (column_names t)"
    "td_resolvable t @ td_prefetchable t \<noteq> [] \<Longrightarrow>
       \<exists>q. effective_qualifier P n (td_db_schema t) = Inr q \<and> q \<noteq> []"
proof -
  let ?known = "column_names t"
  note def = table_columns_error_def prod.case Let_def
  have 1: "missing (map fst (td_column_types t)) ?known = []"
    by (rule ccontr) (use assms in \<open>simp add: def\<close>)
  have 2: "missing (map fst (td_column_units t)) ?known = []"
    by (rule ccontr) (use assms 1 in \<open>simp add: def\<close>)
  note rest = assms [unfolded def 1 2, simplified]
  have 3: "missing (td_resolvable t @ td_prefetchable t) ?known = []"
  proof (cases "td_resolvable t @ td_prefetchable t = []")
    case True
    then show ?thesis by (simp add: missing_Nil_iff)
  next
    case False
    then show ?thesis by (intro ccontr [of "_ = _"]) (use rest in \<open>simp split: if_splits\<close>)
  qed
  show "set (map fst (td_column_types t)) \<subseteq> set (column_names t)"
    "set (map fst (td_column_units t)) \<subseteq> set (column_names t)"
    "set (td_resolvable t @ td_prefetchable t) \<subseteq> set (column_names t)"
    using 1 2 3 by (simp_all only: missing_Nil_iff)
  assume "td_resolvable t @ td_prefetchable t \<noteq> []"
  then show "\<exists>q. effective_qualifier P n (td_db_schema t) = Inr q \<and> q \<noteq> []"
    using rest 3 by (cases "effective_qualifier P n (td_db_schema t)") (simp_all split: if_splits)
qed

text \<open>
  In a \<open>schema.yaml\<close> that passes validation no two table keys name the same table: the
  identity (lower-cased qualifier and bare name) of every key is defined and they are all
  different; and every column a table types, gives a unit or flags is one of its declared
  columns.
\<close>

theorem validated_schema_consistent:
  assumes "validate_schema P U cfg = None"
  shows "distinct (map (\<lambda>(n, t). dedup_key P U n t) (sch_tables cfg))
    \<and> list_all (\<lambda>(n, t). \<not> isl (dedup_key P U n t)
        \<and> set (map fst (td_column_types t) @ map fst (td_column_units t)
            @ td_resolvable t @ td_prefetchable t) \<subseteq> set (column_names t)) (sch_tables cfg)"
proof -
  have cols: "\<forall>nt \<in> set (sch_tables cfg). table_columns_error P nt = None"
    and keys: "table_keys_error P U [] (sch_tables cfg) = None"
    using assms by (auto simp: validate_schema_def first_error_None split: option.splits)
  note k = table_keys_ok [OF keys]
  have "\<not> isl (dedup_key P U n t) \<and> set (map fst (td_column_types t) @ map fst (td_column_units t)
      @ td_resolvable t @ td_prefetchable t) \<subseteq> set (column_names t)"
    if nt: "(n, t) \<in> set (sch_tables cfg)" for n t
  proof -
    have "\<exists>x. dedup_key P U n t = Inr x" using k nt by blast
    moreover have "table_columns_error P (n, t) = None" using cols nt by blast
    from table_columns_ok(1-3) [OF this] have
      "set (map fst (td_column_types t) @ map fst (td_column_units t)
        @ td_resolvable t @ td_prefetchable t) \<subseteq> set (column_names t)" by simp
    ultimately show ?thesis by auto
  qed
  then show ?thesis
    using conjunct2 [OF k] unfolding list_all_iff by blast
qed

definition example_schema :: schema_config where
  "example_schema =
     \<lparr>sch_tables =
        [(u ''sales.T'', \<lparr>td_description = [], td_columns = Some [(u ''A'', []), (u ''B'', [])],
            td_column_types = [(u ''A'', u ''int'')], td_column_units = [(u ''B'', u ''rial'')],
            td_db_schema = [], td_datasource = [], td_resolvable = [u ''A''], td_prefetchable = []\<rparr>),
         (u ''T'', \<lparr>td_description = [], td_columns = Some [(u ''B'', [])],
            td_column_types = [], td_column_units = [(u ''B'', u ''none'')],
            td_db_schema = [], td_datasource = [], td_resolvable = [], td_prefetchable = []\<rparr>)],
      sch_relationships = []\<rparr>"

definition dotted :: identifier_parser where
  "dotted key = Some (split_on 46 key)"

lemma example_schema_valid: "validate_schema dotted ascii_db example_schema = None"
  by (simp add: ev example_schema_def dotted_def Let_def)

theorem validated_schema_consistent_witness:
  "distinct (map (\<lambda>(n, t). dedup_key dotted ascii_db n t) (sch_tables example_schema))
    \<and> list_all (\<lambda>(n, t). \<not> isl (dedup_key dotted ascii_db n t)
        \<and> set (map fst (td_column_types t) @ map fst (td_column_units t)
            @ td_resolvable t @ td_prefetchable t) \<subseteq> set (column_names t)) (sch_tables example_schema)"
  by (rule validated_schema_consistent) (rule example_schema_valid)

text \<open>
  A table whose values may be looked up or prefetched always has a schema qualifier in the
  registry, so the lookups can address it as \<open>[schema].[table]\<close>.
\<close>

theorem flagged_table_has_qualifier:
  assumes "validate_schema P U cfg = None"
    and "n \<in> fst ` set (sc_resolvable (cache_entries P U cfg))
        \<union> fst ` set (sc_prefetchable (cache_entries P U cfg))"
  shows "n \<in> fst ` set (sc_qualifiers (cache_entries P U cfg))"
proof -
  have cols: "\<forall>nt \<in> set (sch_tables cfg). table_columns_error P nt = None"
    using assms(1) by (auto simp: validate_schema_def first_error_None split: option.splits)
  from assms(2) obtain t where t: "(n, t) \<in> set (sch_tables cfg)" "td_resolvable t @ td_prefetchable t \<noteq> []"
    by (auto simp: cache_entries_def Let_def split: if_splits)
  with cols have "table_columns_error P (n, t) = None" by blast
  from table_columns_ok(4) [OF this t(2)]
  obtain q where "effective_qualifier P n (td_db_schema t) = Inr q" "q \<noteq> []" by blast
  then have "(n, join [46] q) \<in> set (case (n, t) of (n, t) \<Rightarrow>
      case effective_qualifier P n (td_db_schema t) of
        Inl _ \<Rightarrow> [] | Inr q \<Rightarrow> if q = [] then [] else [(n, join [46] q)])"
    by simp
  with t(1) have "(n, join [46] q) \<in> set (sc_qualifiers (cache_entries P U cfg))"
    unfolding cache_entries_def Let_def schema_cache.simps set_concat set_map by blast
  then show ?thesis by (metis fst_conv imageI)
qed

theorem flagged_table_has_qualifier_witness:
  "u ''sales.T'' \<in> fst ` set (sc_qualifiers (cache_entries dotted ascii_db example_schema))"
  by (rule flagged_table_has_qualifier, rule example_schema_valid)
    (simp add: cache_entries_def example_schema_def Let_def)

lemma merge_units_spec:
  "merge_units seen C ds = (seen', C') \<Longrightarrow>
     map_of seen' k = (case map_of seen k of Some w \<Rightarrow> Some w | None \<Rightarrow> map_of ds k)
     \<and> (k \<in> C' \<longleftrightarrow> k \<in> C \<or> (\<exists>w w'. map_of seen' k = Some w \<and> (k, w') \<in> set ds \<and> w' \<noteq> w))"
proof (induction seen C ds arbitrary: seen' C' rule: merge_units.induct)
  case (2 seen C j v ds)
  show ?case
  proof (cases "map_of seen j")
    case None
    then have m: "merge_units (AList.update j v seen) C ds = (seen', C')" using 2(3) by simp
    from 2(1) [OF None m] None show ?thesis
      by (cases "j = k"; cases "map_of seen k") (auto simp: update_conv')
  next
    case (Some v')
    then have m: "merge_units seen (if v' \<noteq> v then insert j C else C) ds = (seen', C')" using 2(3) by simp
    from 2(2) [OF Some m] Some show ?thesis
      by (cases "j = k"; cases "v' = v"; cases "map_of seen k") auto
  qed
qed (simp split: option.split)

lemma singleton_image_iff:
  "(k, v) \<in> D \<Longrightarrow> {x. (k, x) \<in> D} = {w} \<longleftrightarrow> v = w \<and> \<not> (\<exists>w'. (k, w') \<in> D \<and> w' \<noteq> v)"
  unfolding set_eq_iff mem_Collect_eq singleton_iff by metis

lemma map_of_filter_keys:
  "map_of (filter (\<lambda>(k, w). k \<notin> C) xs) k = (if k \<in> C then None else map_of xs k)"
  by (induction xs) auto

text \<open>
  The unit known for a column name is the one every table that declares a unit for that
  name (ignoring case) agrees on; a name declared with different units has none.
\<close>

theorem merged_column_units_agreed:
  "map_of (merged_column_units U cfg) k = Some w
     \<longleftrightarrow> {v. (k, v) \<in> set (unit_declarations U cfg)} = {w}"
proof -
  obtain seen C where m: "merge_units [] {} (unit_declarations U cfg) = (seen, C)"
    by (cases "merge_units [] {} (unit_declarations U cfg)")
  have s: "map_of seen k = map_of (unit_declarations U cfg) k"
    "k \<in> C \<longleftrightarrow> (\<exists>w w'. map_of seen k = Some w \<and> (k, w') \<in> set (unit_declarations U cfg) \<and> w' \<noteq> w)"
    using merge_units_spec [OF m, of k] by simp_all
  have d: "map_of (unit_declarations U cfg) k = None \<longleftrightarrow> {v. (k, v) \<in> set (unit_declarations U cfg)} = {}"
    by (force simp: map_of_eq_None_iff)
  show ?thesis
  proof (cases "map_of (unit_declarations U cfg) k")
    case None
    with d s show ?thesis by (simp add: merged_column_units_def m map_of_filter_keys)
  next
    case (Some v)
    then have "(k, v) \<in> set (unit_declarations U cfg)" by (rule map_of_SomeD)
    have "map_of (merged_column_units U cfg) k = (if k \<in> C then None else Some v)"
      using Some s(1) by (simp add: merged_column_units_def m map_of_filter_keys)
    moreover have "k \<in> C \<longleftrightarrow> (\<exists>w'. (k, w') \<in> set (unit_declarations U cfg) \<and> w' \<noteq> v)"
      using s Some by simp
    moreover have "{x. (k, x) \<in> set (unit_declarations U cfg)} = {w} \<longleftrightarrow>
        v = w \<and> \<not> (\<exists>w'. (k, w') \<in> set (unit_declarations U cfg) \<and> w' \<noteq> v)"
      by (rule singleton_image_iff) fact
    ultimately show ?thesis by simp
  qed
qed

end
