(* ===== verification/Column_Policy.thy ===== *)
theory Column_Policy
  imports Schema_Config
begin

text \<open>
  \<open>security/column_policy.py\<close>: the column restrictions of a key. A plain entry denies a column
  everywhere; an entry with a dot or a colon makes a column join-only on a table, a source or
  both. The theory models the cleaning of entries, the parser, the resolution of the scoped
  entries against the schema and the data sources, and the advice functions. The deployment
  supplies the data sources, \<open>P\<close> is the identifier parser of \<open>Schema_Config\<close>.
\<close>

section \<open>Normalising entries\<close>

definition is_edge_noise :: "unicode_db \<Rightarrow> nat \<Rightarrow> bool" where
  "is_edge_noise U c \<longleftrightarrow> is_space c \<or> is_format U c"

definition normalize_denied_entry :: "unicode_db \<Rightarrow> ustr \<Rightarrow> ustr" where
  "normalize_denied_entry U entry = strip_by (is_edge_noise U) entry"

definition without_format_characters :: "unicode_db \<Rightarrow> ustr \<Rightarrow> ustr" where
  "without_format_characters U text = filter (\<lambda>c. \<not> is_format U c) text"

text \<open>An item of a \<open>denied_columns\<close> value: a string, or something that is not one.\<close>

datatype py_item = Item_str ustr | Item_other

record normalized_entries =
  ne_entries :: "py_item list"
  ne_changed :: "(ustr \<times> ustr) list"
  ne_empty :: "ustr list"

fun normalize_denied_entries :: "unicode_db \<Rightarrow> py_item list \<Rightarrow> normalized_entries" where
  "normalize_denied_entries U [] = \<lparr>ne_entries = [], ne_changed = [], ne_empty = []\<rparr>"
| "normalize_denied_entries U (item # items) =
     (let r = normalize_denied_entries U items
      in case item of
           Item_other \<Rightarrow> r\<lparr>ne_entries := Item_other # ne_entries r\<rparr>
         | Item_str entry \<Rightarrow>
             (let clean = normalize_denied_entry U entry
              in if clean = []
                 then r\<lparr>ne_entries := Item_str entry # ne_entries r,
                        ne_empty := (if entry \<noteq> [] then entry # ne_empty r else ne_empty r)\<rparr>
                 else r\<lparr>ne_entries := Item_str clean # ne_entries r,
                        ne_changed := (if clean \<noteq> entry then (entry, clean) # ne_changed r
                                       else ne_changed r)\<rparr>))"

section \<open>Parsing\<close>

record scoped_column =
  sco_datasource :: "ustr option"
  sco_table :: "ustr option"
  sco_column :: ustr
  sco_entry :: ustr

definition render :: "ustr option \<Rightarrow> ustr option \<Rightarrow> ustr \<Rightarrow> ustr" where
  "render datasource table column =
     (case datasource of None \<Rightarrow> [] | Some d \<Rightarrow> d @ [58])
     @ (case table of None \<Rightarrow> column | Some t \<Rightarrow> t @ [46] @ column)"

definition scoped :: "ustr option \<Rightarrow> ustr option \<Rightarrow> ustr \<Rightarrow> ustr \<Rightarrow> scoped_column" where
  "scoped datasource table column entry =
     \<lparr>sco_datasource = datasource, sco_table = table, sco_column = column,
      sco_entry = (if entry = [] then render datasource table column else entry)\<rparr>"

type_synonym scoped_id = "ustr \<times> ustr \<times> ustr"

definition scoped_key :: "unicode_db \<Rightarrow> scoped_column \<Rightarrow> scoped_id" where
  "scoped_key U s =
     (casefold U (case sco_datasource s of None \<Rightarrow> [] | Some d \<Rightarrow> d),
      casefold U (case sco_table s of None \<Rightarrow> [] | Some t \<Rightarrow> t),
      casefold U (sco_column s))"

definition scoped_display :: "scoped_column \<Rightarrow> ustr" where
  "scoped_display s =
     (case sco_table s of
        None \<Rightarrow> sco_column s @ u '' (on every table)''
      | Some t \<Rightarrow> t @ [46] @ sco_column s)"

record column_policy =
  cp_denied :: "ustr set"
  cp_join_only :: "scoped_column list"

definition empty_policy :: column_policy where
  "empty_policy = \<lparr>cp_denied = {}, cp_join_only = []\<rparr>"

datatype entry_reason =
    Too_many_colons
  | Empty_datasource
  | Empty_part
  | Too_many_parts
  | Source_not_configured
  | Ambiguous_table "ustr list"
  | Several_schemas "ustr list"
  | Unknown_table
  | Unknown_column
  | Not_in_source
  | No_table_has_column

datatype policy_error =
    Single_string
  | Not_a_string
  | Entry_error ustr entry_reason
  | Table_key_error key_error
  | Assertion_error

definition is_plain :: "ustr \<Rightarrow> bool" where
  "is_plain entry \<longleftrightarrow> 58 \<notin> set entry \<and> 46 \<notin> set entry"

definition parse_scoped :: "ustr \<Rightarrow> policy_error + scoped_column" where
  "parse_scoped entry =
     (let pieces = split_on 58 entry;
          datasource = (if 1 < length pieces then Some (strip (hd pieces)) else None);
          rest = (if 1 < length pieces then pieces ! 1 else entry);
          parts = map strip (split_on 46 rest)
      in if 2 < length pieces then Inl (Entry_error entry Too_many_colons)
         else if datasource = Some [] then Inl (Entry_error entry Empty_datasource)
         else if [] \<in> set parts then Inl (Entry_error entry Empty_part)
         else if length parts = 1 then Inr (scoped datasource None (hd parts) entry)
         else if 5 < length parts then Inl (Entry_error entry Too_many_parts)
         else Inr (scoped datasource (Some (join [46] (butlast parts))) (last parts) entry))"

text \<open>The value given as \<open>denied_columns\<close>.\<close>

datatype denied_arg = No_entries | One_string ustr | Entries "py_item list"

definition denied_names :: "unicode_db \<Rightarrow> ustr \<Rightarrow> ustr set" where
  "denied_names U raw =
     (let cleaned = normalize_denied_entry U raw;
          entry = (if cleaned = [] then raw else cleaned);
          plain = (if cleaned = [] then [] else without_format_characters U entry)
      in insert (upper U entry) (if plain \<noteq> [] \<and> plain \<noteq> entry then {upper U plain} else {}))"

definition read_entry :: "unicode_db \<Rightarrow> ustr \<Rightarrow> ustr" where
  "read_entry U raw =
     (if normalize_denied_entry U raw = [] then raw else normalize_denied_entry U raw)"

fun parse_entries ::
    "unicode_db \<Rightarrow> py_item list \<Rightarrow> ustr set \<Rightarrow> (scoped_id, scoped_column) odict
     \<Rightarrow> policy_error + ustr set \<times> (scoped_id, scoped_column) odict" where
  "parse_entries U [] denied joins = Inr (denied, joins)"
| "parse_entries U (Item_other # items) denied joins = Inl Not_a_string"
| "parse_entries U (Item_str raw # items) denied joins =
     (let entry = read_entry U raw
      in if is_plain entry then parse_entries U items (denied \<union> denied_names U raw) joins
         else (case parse_scoped entry of
                 Inl e \<Rightarrow> Inl e
               | Inr col \<Rightarrow>
                   parse_entries U items denied
                     (case map_of joins (scoped_key U col) of
                        None \<Rightarrow> AList.update (scoped_key U col) col joins
                      | Some _ \<Rightarrow> joins)))"

definition parse_syntax :: "unicode_db \<Rightarrow> denied_arg \<Rightarrow> policy_error + column_policy" where
  "parse_syntax U arg =
     (case arg of
        No_entries \<Rightarrow> Inr empty_policy
      | One_string _ \<Rightarrow> Inl Single_string
      | Entries items \<Rightarrow>
          map_sum id (\<lambda>(denied, joins). \<lparr>cp_denied = denied, cp_join_only = map snd joins\<rparr>)
            (parse_entries U items {} []))"

section \<open>Checking entries against the schema and the data sources\<close>

record schema_view =
  sv_columns :: "(ustr, ustr set) odict"
  sv_qualifiers :: "(ustr, ustr) odict"

definition load_schema_view :: "unicode_db \<Rightarrow> schema_cache \<Rightarrow> schema_view" where
  "load_schema_view U c =
     \<lparr>sv_columns = map (\<lambda>(k, cs). (k, set (map (\<lambda>(n, d). lower U n) cs))) (sc_columns c),
      sv_qualifiers = sc_qualifiers c\<rparr>"

definition norm_name :: "unicode_db \<Rightarrow> ustr \<Rightarrow> ustr" where
  "norm_name U text =
     join [46] (map (\<lambda>p. casefold U (strip_by (\<lambda>c. c = 91 \<or> c = 93) (strip p))) (split_on 46 text))"

definition qualifier_of :: "schema_view \<Rightarrow> ustr \<Rightarrow> ustr" where
  "qualifier_of view key = (case map_of (sv_qualifiers view) key of None \<Rightarrow> [] | Some q \<Rightarrow> q)"

definition names_key ::
    "identifier_parser \<Rightarrow> unicode_db \<Rightarrow> schema_view \<Rightarrow> ustr \<Rightarrow> ustr \<Rightarrow> key_error + bool" where
  "names_key P U view wanted key =
     (let q = qualifier_of view key
      in if q = [] then Inr (wanted = norm_name U key)
         else map_sum id (\<lambda>b. wanted = norm_name U key \<or> wanted = norm_name U (q @ [46] @ b))
                (bare_table_name P key))"

datatype match_error = Several "ustr list" | Same_bare_name "ustr list" | Bad_schema_key key_error

definition match_table ::
    "identifier_parser \<Rightarrow> unicode_db \<Rightarrow> schema_view \<Rightarrow> ustr \<Rightarrow> match_error + ustr option" where
  "match_table P U view text =
     (let wanted = norm_name U text; keys = map fst (sv_columns view)
      in case filter_or_error (names_key P U view wanted) keys of
           Inl e \<Rightarrow> Inl (Bad_schema_key e)
         | Inr [k] \<Rightarrow> Inr (Some k)
         | Inr (k # k' # ks) \<Rightarrow> Inl (Several (sort (k # k' # ks)))
         | Inr [] \<Rightarrow>
             if 46 \<in> set wanted then Inr None
             else (case filter_or_error
                      (\<lambda>k. map_sum id (\<lambda>b. casefold U b = wanted) (bare_table_name P k)) keys of
                     Inl e \<Rightarrow> Inl (Bad_schema_key e)
                   | Inr [] \<Rightarrow> Inr None
                   | Inr [k] \<Rightarrow> Inr (Some k)
                   | Inr (k # k' # ks) \<Rightarrow> Inl (Same_bare_name (sort (k # k' # ks)))))"

definition sources_of :: "deployment \<Rightarrow> ustr \<Rightarrow> ustr list" where
  "sources_of D table_key = map fst (group_tables_by_datasource D [table_key])"

definition configured_source :: "deployment \<Rightarrow> unicode_db \<Rightarrow> ustr \<Rightarrow> ustr option" where
  "configured_source D U name = find (\<lambda>c. casefold U c = casefold U name) (datasource_names D)"

definition lift_match :: "ustr \<Rightarrow> match_error \<Rightarrow> policy_error" where
  "lift_match entry e =
     (case e of
        Several ks \<Rightarrow> Entry_error entry (Ambiguous_table ks)
      | Same_bare_name ks \<Rightarrow> Entry_error entry (Several_schemas ks)
      | Bad_schema_key k \<Rightarrow> Table_key_error k)"

definition columns_of :: "schema_view \<Rightarrow> ustr \<Rightarrow> ustr set" where
  "columns_of view key = (case map_of (sv_columns view) key of None \<Rightarrow> {} | Some cs \<Rightarrow> cs)"

definition resolve_in_source ::
    "identifier_parser \<Rightarrow> deployment \<Rightarrow> unicode_db \<Rightarrow> schema_view \<Rightarrow> scoped_column \<Rightarrow> ustr option
     \<Rightarrow> policy_error + ustr option \<times> ustr list" where
  "resolve_in_source P D U view sc source =
     (let column = casefold U (sco_column sc)
      in case sco_table sc of
           Some table \<Rightarrow>
             (case match_table P U view table of
                Inl e \<Rightarrow> Inl (lift_match (sco_entry sc) e)
              | Inr None \<Rightarrow> Inl (Entry_error (sco_entry sc) Unknown_table)
              | Inr (Some key) \<Rightarrow>
                  if column \<notin> columns_of view key then Inl (Entry_error (sco_entry sc) Unknown_column)
                  else if (case source of None \<Rightarrow> False | Some s \<Rightarrow> s \<notin> set (sources_of D key))
                  then Inl (Entry_error (sco_entry sc) Not_in_source)
                  else Inr (source, [key]))
         | None \<Rightarrow>
             (case source of
                None \<Rightarrow> Inl Assertion_error
              | Some s \<Rightarrow>
                  (let tables = map fst (filter (\<lambda>(key, cols). column \<in> cols \<and> s \<in> set (sources_of D key))
                         (sv_columns view))
                   in if tables = [] then Inl (Entry_error (sco_entry sc) No_table_has_column)
                      else Inr (source, tables))))"

definition resolve_entry ::
    "identifier_parser \<Rightarrow> deployment \<Rightarrow> unicode_db \<Rightarrow> schema_view \<Rightarrow> scoped_column
     \<Rightarrow> policy_error + ustr option \<times> ustr list" where
  "resolve_entry P D U view sc =
     (case sco_datasource sc of
        None \<Rightarrow> resolve_in_source P D U view sc None
      | Some d \<Rightarrow>
          (case configured_source D U d of
             None \<Rightarrow> Inl (Entry_error (sco_entry sc) Source_not_configured)
           | Some s \<Rightarrow> resolve_in_source P D U view sc (Some s)))"

definition validate_column_policy ::
    "identifier_parser \<Rightarrow> deployment \<Rightarrow> unicode_db \<Rightarrow> schema_view \<Rightarrow> column_policy \<Rightarrow> policy_error option" where
  "validate_column_policy P D U view policy =
     first_error (\<lambda>sc. case resolve_entry P D U view sc of Inl e \<Rightarrow> Some e | Inr _ \<Rightarrow> None)
       (cp_join_only policy)"

text \<open>
  \<open>parse_column_policy\<close>. \<open>view\<close> is \<open>None\<close> when the schema cannot be loaded: the existence check is
  then left to the first use of the policy.
\<close>

definition parse_column_policy ::
    "identifier_parser \<Rightarrow> deployment \<Rightarrow> unicode_db \<Rightarrow> bool \<Rightarrow> schema_view option \<Rightarrow> denied_arg
     \<Rightarrow> policy_error + column_policy" where
  "parse_column_policy P D U validate view arg =
     (case parse_syntax U arg of
        Inl e \<Rightarrow> Inl e
      | Inr policy \<Rightarrow>
          if \<not> validate \<or> cp_join_only policy = [] then Inr policy
          else (case view of
                  None \<Rightarrow> Inr policy
                | Some v \<Rightarrow>
                    (case validate_column_policy P D U v policy of
                       Some e \<Rightarrow> Inl e | None \<Rightarrow> Inr policy)))"

text \<open>
  \<open>cached_column_policy\<close> parses the entries as a \<open>frozenset\<close>; \<open>enum\<close> is the order in which the
  set is enumerated.
\<close>

definition cached_column_policy ::
    "(py_item set \<Rightarrow> py_item list) \<Rightarrow> unicode_db \<Rightarrow> denied_arg \<Rightarrow> policy_error + column_policy" where
  "cached_column_policy enum U arg =
     (case arg of
        No_entries \<Rightarrow> Inr empty_policy
      | One_string s \<Rightarrow> if s = [] then Inr empty_policy else Inl Single_string
      | Entries items \<Rightarrow>
          if items = [] then Inr empty_policy else parse_syntax U (Entries (enum (set items))))"

section \<open>The restrictions in force for one query\<close>

record join_only_restrictions =
  jo_by_table :: "(ustr, (ustr, ustr) odict) odict"
  jo_names :: "ustr set"

definition restrict_column ::
    "ustr \<Rightarrow> ustr \<Rightarrow> ustr \<Rightarrow> (ustr, (ustr, ustr) odict) odict \<Rightarrow> (ustr, (ustr, ustr) odict) odict" where
  "restrict_column column entry table by_table =
     (let cols = (case map_of by_table table of None \<Rightarrow> [] | Some cs \<Rightarrow> cs)
      in AList.update table
           (case map_of cols column of None \<Rightarrow> AList.update column entry cols | Some _ \<Rightarrow> cols) by_table)"

definition inactive :: "unicode_db \<Rightarrow> ustr option \<Rightarrow> ustr option \<Rightarrow> bool" where
  "inactive U source entry_source =
     (case (source, entry_source) of
        (Some s, Some e) \<Rightarrow> casefold U e \<noteq> casefold U s
      | _ \<Rightarrow> False)"

fun resolve_all ::
    "identifier_parser \<Rightarrow> deployment \<Rightarrow> unicode_db \<Rightarrow> schema_view \<Rightarrow> ustr option \<Rightarrow> scoped_column list
     \<Rightarrow> (ustr, (ustr, ustr) odict) odict \<Rightarrow> policy_error + (ustr, (ustr, ustr) odict) odict" where
  "resolve_all P D U view source [] by_table = Inr by_table"
| "resolve_all P D U view source (sc # scs) by_table =
     (case resolve_entry P D U view sc of
        Inl e \<Rightarrow> Inl e
      | Inr (entry_source, tables) \<Rightarrow>
          if inactive U source entry_source then resolve_all P D U view source scs by_table
          else resolve_all P D U view source scs
                 (fold (restrict_column (casefold U (sco_column sc)) (sco_entry sc)) tables by_table))"

definition resolve_join_only ::
    "identifier_parser \<Rightarrow> deployment \<Rightarrow> unicode_db \<Rightarrow> column_policy \<Rightarrow> schema_view \<Rightarrow> ustr option
     \<Rightarrow> policy_error + join_only_restrictions" where
  "resolve_join_only P D U policy view source =
     map_sum id (\<lambda>bt. \<lparr>jo_by_table = bt, jo_names = \<Union>(set (map (\<lambda>(t, cols). set (map fst cols)) bt))\<rparr>)
       (resolve_all P D U view source (cp_join_only policy) [])"

definition jo_entry :: "unicode_db \<Rightarrow> join_only_restrictions \<Rightarrow> ustr \<Rightarrow> ustr \<Rightarrow> ustr option" where
  "jo_entry U r table column =
     (case map_of (jo_by_table r) table of None \<Rightarrow> None | Some cols \<Rightarrow> map_of cols (casefold U column))"

definition hidden_value_columns ::
    "identifier_parser \<Rightarrow> deployment \<Rightarrow> unicode_db \<Rightarrow> schema_view \<Rightarrow> column_policy
     \<Rightarrow> policy_error + (ustr \<times> ustr) set" where
  "hidden_value_columns P D U view policy =
     (if cp_join_only policy = [] then Inr {}
      else map_sum id (\<lambda>r. set (concat (map (\<lambda>(t, cols). map (\<lambda>(c, e). (t, c)) cols) (jo_by_table r))))
             (resolve_join_only P D U policy view None))"

section \<open>Advice\<close>

definition schema_column_names :: "schema_view option \<Rightarrow> ustr set option" where
  "schema_column_names view =
     (case view of
        None \<Rightarrow> None
      | Some v \<Rightarrow> (let names = \<Union>(set (map snd (sv_columns v))) in if names = {} then None else Some names))"

definition unmatched_bare_entries :: "unicode_db \<Rightarrow> py_item list \<Rightarrow> ustr set \<Rightarrow> ustr list" where
  "unmatched_bare_entries U entries schema_names =
     (let known = casefold U ` schema_names
      in dedup (concat (map (\<lambda>i. case i of
             Item_other \<Rightarrow> []
           | Item_str e \<Rightarrow>
               if is_plain e \<and> casefold U e \<notin> known
                  \<and> casefold U (without_format_characters U e) \<notin> known then [e] else [])
           (ne_entries (normalize_denied_entries U entries)))))"

definition identifier_suffixes :: "ustr list" where
  "identifier_suffixes = [u ''number'', u ''code'', u ''num'', u ''id'', u ''no'']"

definition look_alike_min_length :: nat where "look_alike_min_length = 5"

definition look_alike_entry_limit :: nat where "look_alike_entry_limit = 300"

definition look_alike_forms :: "unicode_db \<Rightarrow> ustr \<Rightarrow> ustr list" where
  "look_alike_forms U entry =
     (let lowered = casefold U entry;
          forms = (case find (\<lambda>x. endswith lowered x \<and> 3 \<le> length lowered - length x) identifier_suffixes of
              None \<Rightarrow> [lowered]
            | Some x \<Rightarrow> lowered # map (\<lambda>other. take (length lowered - length x) lowered @ other)
                 identifier_suffixes)
      in sort (remdups (filter (\<lambda>f. look_alike_min_length \<le> length f) forms)))"

definition plain_entries :: "unicode_db \<Rightarrow> py_item list \<Rightarrow> ustr list" where
  "plain_entries U entries =
     concat (map (\<lambda>i. case i of Item_str e \<Rightarrow> if e \<noteq> [] \<and> is_plain e then [e] else [] | Item_other \<Rightarrow> [])
       (ne_entries (normalize_denied_entries U entries)))"

definition look_alike_candidates :: "unicode_db \<Rightarrow> ustr list \<Rightarrow> ustr list \<Rightarrow> (ustr, ustr) odict" where
  "look_alike_candidates U plain schema_names =
     (let denied = casefold U ` set plain \<union> (\<lambda>e. casefold U (without_format_characters U e)) ` set plain
      in fold (\<lambda>n c. if casefold U n \<in> denied \<or> map_of c (casefold U n) \<noteq> None then c
                    else AList.update (casefold U n) n c) schema_names [])"

definition look_alike_columns :: "unicode_db \<Rightarrow> py_item list \<Rightarrow> ustr list \<Rightarrow> (ustr \<times> ustr list) list" where
  "look_alike_columns U entries schema_names =
     (let plain = plain_entries U entries;
          candidates = look_alike_candidates U plain schema_names
      in concat (map (\<lambda>e.
           (let forms = look_alike_forms U (without_format_characters U e);
                names = sort (map snd (filter (\<lambda>(l, n). list_ex (contains l) forms) candidates))
            in if names = [] then [] else [(e, names)]))
           (dedup (take look_alike_entry_limit plain))))"

definition join_only_prompt_line ::
    "(py_item set \<Rightarrow> py_item list) \<Rightarrow> deployment \<Rightarrow> unicode_db \<Rightarrow> denied_arg \<Rightarrow> ustr option
     \<Rightarrow> policy_error + ustr list" where
  "join_only_prompt_line enum D U entries source =
     map_sum id (\<lambda>policy.
         (let s = (case source of None \<Rightarrow> default_datasource_name D | Some s \<Rightarrow> s)
          in map scoped_display (filter (\<lambda>sc. case sco_datasource sc of
               None \<Rightarrow> True | Some d \<Rightarrow> casefold U d = casefold U s) (cp_join_only policy))))
       (cached_column_policy enum U entries)"

section \<open>Cleaning is idempotent\<close>

declare strip_by_def [ev] is_edge_noise_def [ev] normalize_denied_entry_def [ev]
  without_format_characters_def [ev] render_def [ev] scoped_def [ev] scoped_key_def [ev]
  is_plain_def [ev] parse_scoped_def [ev] denied_names_def [ev] read_entry_def [ev]
  parse_syntax_def [ev] norm_name_def [ev] qualifier_of_def [ev] names_key_def [ev]
  match_table_def [ev] sources_of_def [ev] configured_source_def [ev] columns_of_def [ev]
  resolve_in_source_def [ev] resolve_entry_def [ev] restrict_column_def [ev] inactive_def [ev]
  resolve_join_only_def [ev] jo_entry_def [ev] empty_policy_def [ev] cached_column_policy_def [ev]

lemma normalize_denied_entry_idem [simp]:
  "normalize_denied_entry U (normalize_denied_entry U e) = normalize_denied_entry U e"
  by (simp add: normalize_denied_entry_def)

text \<open>
  Cleaning the entries of a key is idempotent: cleaning the cleaned entries changes nothing
  and reports no change, whatever runs of whitespace and invisible characters were at the ends.
\<close>

theorem normalize_denied_entries_idem:
  "ne_entries (normalize_denied_entries U (ne_entries (normalize_denied_entries U items)))
     = ne_entries (normalize_denied_entries U items)
   \<and> ne_changed (normalize_denied_entries U (ne_entries (normalize_denied_entries U items))) = []"
proof (induction U items rule: normalize_denied_entries.induct)
  case (2 U item items)
  then show ?case by (cases item) (simp_all add: Let_def)
qed simp

section \<open>What the parser reads does not depend on the order of the entries\<close>

definition denies :: "unicode_db \<Rightarrow> py_item set \<Rightarrow> ustr set" where
  "denies U S = \<Union> {denied_names U raw | raw. Item_str raw \<in> S \<and> is_plain (read_entry U raw)}"

definition joins :: "unicode_db \<Rightarrow> py_item set \<Rightarrow> scoped_id set" where
  "joins U S = {scoped_key U c | raw c. Item_str raw \<in> S \<and> \<not> is_plain (read_entry U raw)
     \<and> parse_scoped (read_entry U raw) = Inr c}"

definition good_item :: "unicode_db \<Rightarrow> py_item \<Rightarrow> bool" where
  "good_item U i = (case i of
     Item_other \<Rightarrow> False
   | Item_str raw \<Rightarrow> is_plain (read_entry U raw) \<or> \<not> isl (parse_scoped (read_entry U raw)))"

lemma denies_simps [simp]:
  "denies U {} = {}"
  "denies U (insert (Item_str raw) S) =
     (if is_plain (read_entry U raw) then denied_names U raw else {}) \<union> denies U S"
  unfolding denies_def by auto

lemma joins_simps [simp]:
  "joins U {} = {}"
  "joins U (insert (Item_str raw) S) =
     (case parse_scoped (read_entry U raw) of
        Inr c \<Rightarrow> (if is_plain (read_entry U raw) then {} else {scoped_key U c}) | Inl _ \<Rightarrow> {}) \<union> joins U S"
  unfolding joins_def by (auto split: sum.split)

lemma parse_entries_spec:
  "(\<forall>(k, c) \<in> set J. k = scoped_key U c) \<Longrightarrow>
   (case parse_entries U items D J of
      Inl _ \<Rightarrow> \<not> list_all (good_item U) items
    | Inr (D', J') \<Rightarrow> list_all (good_item U) items \<and> D' = D \<union> denies U (set items)
        \<and> fst ` set J' = fst ` set J \<union> joins U (set items)
        \<and> (\<forall>(k, c) \<in> set J'. k = scoped_key U c))"
proof (induction U items D J rule: parse_entries.induct)
  case (3 U raw items D J)
  show ?case
  proof (cases "is_plain (read_entry U raw)")
    case True
    with 3(1) [OF refl True 3(3)] show ?thesis
      by (auto simp: good_item_def Let_def split: sum.splits)
  next
    case np: False
    show ?thesis
    proof (cases "parse_scoped (read_entry U raw)")
      case (Inl e)
      with np show ?thesis by (simp add: good_item_def Let_def)
    next
      case (Inr c)
      let ?k = "scoped_key U c"
      let ?J = "case map_of J ?k of None \<Rightarrow> AList.update ?k c J | Some _ \<Rightarrow> J"
      have inv: "\<forall>(k, c) \<in> set ?J. k = scoped_key U c"
        using 3(3) by (cases "map_of J ?k") (auto simp: update_new)
      have keys: "fst ` set ?J = insert ?k (fst ` set J)"
      proof (cases "map_of J ?k")
        case (Some x)
        then have "?k \<in> fst ` set J" by (rule map_of_Some_key)
        with Some show ?thesis by (simp add: insert_absorb)
      qed (simp add: dom_update)
      from 3(2) [OF refl np Inr inv] keys np Inr show ?thesis
        by (auto simp: good_item_def Let_def split: sum.splits)
    qed
  qed
qed (auto simp: good_item_def)

lemma image_key_fun: "\<forall>(k, c) \<in> S. k = f c \<Longrightarrow> f ` snd ` S = fst ` S"
  unfolding image_image by (rule image_cong) (simp_all add: case_prod_beta)

lemma parse_syntax_entries:
  "case parse_syntax U (Entries items) of
     Inl _ \<Rightarrow> \<not> list_all (good_item U) items
   | Inr p \<Rightarrow> list_all (good_item U) items \<and> cp_denied p = denies U (set items)
       \<and> scoped_key U ` set (cp_join_only p) = joins U (set items)"
proof -
  have *: "case parse_entries U items {} [] of
      Inl _ \<Rightarrow> \<not> list_all (good_item U) items
    | Inr (D', J') \<Rightarrow> list_all (good_item U) items \<and> D' = denies U (set items)
        \<and> fst ` set J' = joins U (set items) \<and> (\<forall>(k, c) \<in> set J'. k = scoped_key U c)"
    using parse_entries_spec [where J = "[]" and U = U and items = items and D = "{}"]
    by (cases "parse_entries U items {} []") simp_all
  show ?thesis
  proof (cases "parse_entries U items {} []")
    case (Inl e)
    with * show ?thesis by (simp add: parse_syntax_def)
  next
    case (Inr DJ)
    obtain D J where DJ: "DJ = (D, J)" by (cases DJ)
    have "scoped_key U ` snd ` set J = fst ` set J"
      by (rule image_key_fun) (use * in \<open>simp add: Inr DJ\<close>)
    with * show ?thesis by (simp add: parse_syntax_def Inr DJ)
  qed
qed

text \<open>
  The names a key's plain entries deny are exactly the upper-cased cleaned entries, together
  with the same names without inner format characters; the parser drops and invents none.
\<close>

theorem parsed_policy_denies:
  assumes "parse_column_policy P D U validate view (Entries items) = Inr policy"
  shows "cp_denied policy = denies U (set items)
    \<and> scoped_key U ` set (cp_join_only policy) = joins U (set items)"
proof -
  have "parse_syntax U (Entries items) = Inr policy"
    using assms by (auto simp: parse_column_policy_def split: sum.splits if_splits option.splits)
  then show ?thesis using parse_syntax_entries [of U items] by simp
qed

theorem parsed_policy_denies_witness:
  "cp_denied \<lparr>cp_denied = {u ''NAME''}, cp_join_only = []\<rparr> = denies ascii_db {Item_str (u '' Name'')}
    \<and> scoped_key ascii_db ` set (cp_join_only \<lparr>cp_denied = {u ''NAME''}, cp_join_only = []\<rparr>)
        = joins ascii_db {Item_str (u '' Name'')}"
  using parsed_policy_denies [of dotted example_deployment ascii_db False None "[Item_str (u '' Name'')]"
      "\<lparr>cp_denied = {u ''NAME''}, cp_join_only = []\<rparr>"]
  by (simp add: parse_column_policy_def ev Let_def)

text \<open>
  The memoised policy does not depend on the order in which the set of entries is
  enumerated: parsing succeeds under both orders or under neither, and the denied names and the
  join-only restrictions (up to case) are the same.
\<close>

theorem cached_policy_order_independent:
  assumes "set (enum (set items)) = set items" "set (enum' (set items)) = set items"
    and "cached_column_policy enum U (Entries items) = Inr p"
  shows "\<exists>q. cached_column_policy enum' U (Entries items) = Inr q \<and> cp_denied q = cp_denied p
    \<and> scoped_key U ` set (cp_join_only q) = scoped_key U ` set (cp_join_only p)"
proof (cases "items = []")
  case True
  with assms(3) show ?thesis by (simp add: cached_column_policy_def)
next
  case False
  let ?a = "enum (set items)" and ?b = "enum' (set items)"
  have p: "parse_syntax U (Entries ?a) = Inr p"
    using assms(3) False by (simp add: cached_column_policy_def)
  have good: "list_all (good_item U) ?b \<longleftrightarrow> list_all (good_item U) ?a"
    by (simp add: list_all_iff assms(1,2))
  show ?thesis
  proof (cases "parse_syntax U (Entries ?b)")
    case (Inl e)
    with parse_syntax_entries [of U ?a] parse_syntax_entries [of U ?b] p good show ?thesis by simp
  next
    case (Inr q)
    with parse_syntax_entries [of U ?a] parse_syntax_entries [of U ?b] p False show ?thesis
      by (simp add: assms(1,2) cached_column_policy_def)
  qed
qed

theorem cached_policy_order_independent_witness:
  "\<exists>q. cached_column_policy (\<lambda>S. [Item_str (u ''s.T.C''), Item_str (u ''Name'')]) ascii_db
        (Entries [Item_str (u ''Name''), Item_str (u ''s.T.C'')]) = Inr q
    \<and> cp_denied q = {u ''NAME''}
    \<and> scoped_key ascii_db ` set (cp_join_only q) = {([], u ''s.t'', u ''c'')}"
proof -
  let ?p = "\<lparr>cp_denied = {u ''NAME''}, cp_join_only = [scoped None (Some (u ''s.T'')) (u ''C'') (u ''s.T.C'')]\<rparr>"
  have "cached_column_policy (\<lambda>S. [Item_str (u ''Name''), Item_str (u ''s.T.C'')]) ascii_db
        (Entries [Item_str (u ''Name''), Item_str (u ''s.T.C'')]) = Inr ?p"
    by (simp add: ev Let_def)
  from cached_policy_order_independent [OF _ _ this,
      of "\<lambda>S. [Item_str (u ''s.T.C''), Item_str (u ''Name'')]"]
  show ?thesis by (auto simp: ev)
qed

section \<open>What is restricted\<close>

definition restricts :: "(ustr, (ustr, ustr) odict) odict \<Rightarrow> ustr \<Rightarrow> ustr \<Rightarrow> bool" where
  "restricts bt t c \<longleftrightarrow> (\<exists>cols. map_of bt t = Some cols \<and> map_of cols c \<noteq> None)"

lemma restricts_restrict_column:
  "restricts (restrict_column c e t bt) t' c' \<longleftrightarrow> restricts bt t' c' \<or> t' = t \<and> c' = c"
proof (cases "t' = t")
  case True
  then show ?thesis
    by (cases "map_of bt t"; cases "c' = c")
      (auto simp: restricts_def restrict_column_def Let_def update_conv' split: option.splits)
next
  case False
  then show ?thesis by (simp add: restricts_def restrict_column_def Let_def update_conv')
qed

lemma restricts_fold:
  "restricts (fold (restrict_column c e) ts bt) t' c' \<longleftrightarrow> restricts bt t' c' \<or> t' \<in> set ts \<and> c' = c"
  by (induction ts arbitrary: bt) (auto simp: restricts_restrict_column)

text \<open>The tables an entry restricts while a query runs on \<open>source\<close>.\<close>

definition entry_restricts ::
    "identifier_parser \<Rightarrow> deployment \<Rightarrow> unicode_db \<Rightarrow> schema_view \<Rightarrow> ustr option \<Rightarrow> scoped_column
     \<Rightarrow> ustr \<Rightarrow> ustr \<Rightarrow> bool" where
  "entry_restricts P D U view source sc t c \<longleftrightarrow>
     (case resolve_entry P D U view sc of
        Inl _ \<Rightarrow> False
      | Inr (src, ts) \<Rightarrow> \<not> inactive U source src \<and> t \<in> set ts \<and> c = casefold U (sco_column sc))"

lemma resolve_all_spec:
  "case resolve_all P D U view source scs bt of
     Inl _ \<Rightarrow> \<not> list_all (\<lambda>sc. \<not> isl (resolve_entry P D U view sc)) scs
   | Inr bt' \<Rightarrow> list_all (\<lambda>sc. \<not> isl (resolve_entry P D U view sc)) scs
       \<and> (\<forall>t c. restricts bt' t c
             \<longleftrightarrow> restricts bt t c \<or> list_ex (\<lambda>sc. entry_restricts P D U view source sc t c) scs)"
proof (induction P D U view source scs bt rule: resolve_all.induct)
  case (2 P D U view source sc scs bt)
  show ?case
  proof (cases "resolve_entry P D U view sc")
    case (Inl e)
    then show ?thesis by simp
  next
    case (Inr r)
    obtain src ts where r: "r = (src, ts)" by (cases r)
    note re = Inr [unfolded r]
    show ?thesis
    proof (cases "inactive U source src")
      case True
      have "\<not> entry_restricts P D U view source sc t c" for t c
        by (simp add: entry_restricts_def re True)
      with 2(1) [OF re refl True] show ?thesis
        by (cases "resolve_all P D U view source scs bt") (simp_all add: re True)
    next
      case False
      have e: "entry_restricts P D U view source sc t c \<longleftrightarrow> t \<in> set ts \<and> c = casefold U (sco_column sc)" for t c
        by (simp add: entry_restricts_def re False)
      from 2(2) [OF re refl False] show ?thesis
        by (cases "resolve_all P D U view source scs
              (fold (restrict_column (casefold U (sco_column sc)) (sco_entry sc)) ts bt)")
          (auto simp: re False e restricts_fold)
    qed
  qed
qed simp

lemma jo_entry_restricts:
  "jo_entry U r t c \<noteq> None \<longleftrightarrow> restricts (jo_by_table r) t (casefold U c)"
  by (simp add: jo_entry_def restricts_def split: option.split)

lemma resolve_join_only_Inr:
  assumes "resolve_join_only P D U policy view source = Inr r"
  shows "list_all (\<lambda>sc. \<not> isl (resolve_entry P D U view sc)) (cp_join_only policy)"
    "restricts (jo_by_table r) t c \<longleftrightarrow>
       list_ex (\<lambda>sc. entry_restricts P D U view source sc t c) (cp_join_only policy)"
proof -
  obtain bt where bt: "resolve_all P D U view source (cp_join_only policy) [] = Inr bt" "jo_by_table r = bt"
    using assms unfolding resolve_join_only_def
    by (cases "resolve_all P D U view source (cp_join_only policy) []") auto
  have "\<not> restricts [] t c" by (simp add: restricts_def)
  then show "list_all (\<lambda>sc. \<not> isl (resolve_entry P D U view sc)) (cp_join_only policy)"
    "restricts (jo_by_table r) t c \<longleftrightarrow>
       list_ex (\<lambda>sc. entry_restricts P D U view source sc t c) (cp_join_only policy)"
    using resolve_all_spec [where P = P and D = D and U = U and view = view and source = source
        and scs = "cp_join_only policy" and bt = "[]"] by (simp_all add: bt)
qed

definition example_view :: schema_view where
  "example_view = \<lparr>sv_columns = [(u ''Order'', {u ''id'', u ''price''})], sv_qualifiers = []\<rparr>"

definition example_policy :: column_policy where
  "example_policy =
     \<lparr>cp_denied = {}, cp_join_only = [scoped (Some (u ''b'')) (Some (u ''order'')) (u ''ID'') (u ''b:order.ID'')]\<rparr>"

definition example_restrictions :: join_only_restrictions where
  "example_restrictions =
     \<lparr>jo_by_table = [(u ''Order'', [(u ''id'', u ''b:order.ID'')])], jo_names = {u ''id''}\<rparr>"

lemma example_resolves:
  "resolve_join_only dotted example_deployment ascii_db example_policy example_view (Some (u ''B''))
     = Inr example_restrictions"
  by (simp add: ev example_view_def example_policy_def example_restrictions_def dotted_def
      example_deployment_def Let_def)

text \<open>
  A column is join-only on a table exactly when one of the key's scoped entries resolves to
  that table, names that column (ignoring case), and is active on the executing source. No
  entry is lost when two entries meet on one table, and nothing else is restricted.
\<close>

theorem resolve_join_only_exact:
  assumes "resolve_join_only P D U policy view source = Inr r"
  shows "jo_entry U r t c \<noteq> None \<longleftrightarrow>
    list_ex (\<lambda>sc. entry_restricts P D U view source sc t (casefold U c)) (cp_join_only policy)"
  unfolding jo_entry_restricts by (rule resolve_join_only_Inr(2) [OF assms])

theorem resolve_join_only_exact_witness:
  "jo_entry ascii_db example_restrictions (u ''Order'') (u ''Id'') \<noteq> None \<longleftrightarrow>
    list_ex (\<lambda>sc. entry_restricts dotted example_deployment ascii_db example_view (Some (u ''B'')) sc
        (u ''Order'') (casefold ascii_db (u ''Id''))) (cp_join_only example_policy)"
  by (rule resolve_join_only_exact) (rule example_resolves)

text \<open>
  Resolving without knowing the executing source is the safe side: it succeeds whenever
  resolving for some source does, and every column restricted on that source is restricted.
\<close>

theorem resolve_without_source_is_wider:
  assumes "resolve_join_only P D U policy view (Some s) = Inr r"
  shows "\<exists>r'. resolve_join_only P D U policy view None = Inr r'
    \<and> {(t, c). jo_entry U r t c \<noteq> None} \<subseteq> {(t, c). jo_entry U r' t c \<noteq> None}"
proof -
  have all: "list_all (\<lambda>sc. \<not> isl (resolve_entry P D U view sc)) (cp_join_only policy)"
    by (rule resolve_join_only_Inr(1) [OF assms])
  obtain r' where r': "resolve_join_only P D U policy view None = Inr r'"
    using resolve_all_spec [where P = P and D = D and U = U and view = view and source = None
        and scs = "cp_join_only policy" and bt = "[]"] all
    by (cases "resolve_all P D U view None (cp_join_only policy) []") (simp_all add: resolve_join_only_def)
  have "entry_restricts P D U view None sc t c" if "entry_restricts P D U view (Some s) sc t c" for sc t c
    using that by (auto simp: entry_restricts_def inactive_def split: sum.splits)
  then have "{(t, c). jo_entry U r t c \<noteq> None} \<subseteq> {(t, c). jo_entry U r' t c \<noteq> None}"
    unfolding jo_entry_restricts resolve_join_only_Inr(2) [OF assms] resolve_join_only_Inr(2) [OF r']
    by (auto simp: list_ex_iff)
  with r' show ?thesis by blast
qed

theorem resolve_without_source_is_wider_witness:
  "\<exists>r'. resolve_join_only dotted example_deployment ascii_db example_policy example_view None = Inr r'
    \<and> {(t, c). jo_entry ascii_db example_restrictions t c \<noteq> None}
        \<subseteq> {(t, c). jo_entry ascii_db r' t c \<noteq> None}"
  by (rule resolve_without_source_is_wider) (rule example_resolves)

end
