(* ===== verification/Auth.thy ===== *)
theory Auth
  imports Complex_Main Column_Policy "HOL-Library.Product_Lexorder" "HOL-Library.Multiset"
begin

text \<open>
  \<open>security/auth.py\<close>: principals, the parsing of the API-key configuration, the resolution of
  an \<open>Authorization\<close> header, and the key under which a principal's cached answers are shared.
  Parameters: \<open>sha256\<close> (the hex digest of a text), \<open>loads\<close> (the tree \<open>json.loads\<close> reads,
  repeated keys included, or \<open>None\<close> when the text is not JSON). Warnings that are only logged
  are not modelled.
\<close>

section \<open>Principals\<close>

record principal =
  pr_id :: ustr
  pr_name :: ustr
  pr_denied :: "ustr list"
  pr_capabilities :: "ustr set"

definition admin_capability :: ustr where "admin_capability = u ''admin''"
definition operations_capability :: ustr where "operations_capability = u ''operations''"
definition security_capability :: ustr where "security_capability = u ''security''"

fun text_of_item :: "py_item \<Rightarrow> ustr" where
  "text_of_item (Item_str s) = s"
| "text_of_item Item_other = []"

text \<open>\<open>read_denied_columns\<close>: the cleaned entries of a key.\<close>

definition clean_entries :: "unicode_db \<Rightarrow> ustr list \<Rightarrow> ustr list" where
  "clean_entries U entries = map text_of_item (ne_entries (normalize_denied_entries U (map Item_str entries)))"

text \<open>\<open>Principal\<close> with its \<open>__post_init__\<close>: the entries are cleaned on construction.\<close>

definition make_principal :: "unicode_db \<Rightarrow> ustr \<Rightarrow> ustr \<Rightarrow> ustr list \<Rightarrow> ustr set \<Rightarrow> principal" where
  "make_principal U i name denied caps =
     \<lparr>pr_id = i, pr_name = name, pr_denied = clean_entries U denied, pr_capabilities = caps\<rparr>"

definition is_admin :: "principal \<Rightarrow> bool" where
  "is_admin p \<longleftrightarrow> admin_capability \<in> pr_capabilities p"

definition is_operations :: "principal \<Rightarrow> bool" where
  "is_operations p \<longleftrightarrow> operations_capability \<in> pr_capabilities p"

definition is_security :: "principal \<Rightarrow> bool" where
  "is_security p \<longleftrightarrow> security_capability \<in> pr_capabilities p"

definition anonymous :: "unicode_db \<Rightarrow> principal" where
  "anonymous U = make_principal U (u ''anonymous'') (u ''anonymous'') [] {}"

definition principal_policy ::
    "(py_item set \<Rightarrow> py_item list) \<Rightarrow> unicode_db \<Rightarrow> principal \<Rightarrow> policy_error + column_policy" where
  "principal_policy enum U p = cached_column_policy enum U (Entries (map Item_str (pr_denied p)))"

text \<open>One warning per key and process: the pairs already warned about.\<close>

definition should_warn_missing_denied_columns ::
    "ustr \<Rightarrow> ustr \<Rightarrow> (ustr \<times> ustr) set \<Rightarrow> (ustr \<times> ustr) set \<times> bool" where
  "should_warn_missing_denied_columns i h warned =
     (if (i, h) \<in> warned then (warned, False) else (insert (i, h) warned, True))"

section \<open>The key configuration\<close>

datatype json =
    J_null
  | J_bool bool
  | J_num rat
  | J_str ustr
  | J_list "json list"
  | J_obj "(ustr \<times> json) list"

text \<open>
  \<open>_reject_duplicate_keys\<close> is called for every object of the text, innermost first: the first
  repeated field name found.
\<close>

fun repeated :: "ustr list \<Rightarrow> (ustr \<times> json) list \<Rightarrow> ustr option" where
  "repeated seen [] = None"
| "repeated seen ((k, v) # ps) = (if k \<in> set seen then Some k else repeated (k # seen) ps)"

fun duplicate_key :: "json \<Rightarrow> ustr option"
  and duplicate_in_list :: "json list \<Rightarrow> ustr option"
  and duplicate_in_pairs :: "(ustr \<times> json) list \<Rightarrow> ustr option" where
  "duplicate_key (J_list js) = duplicate_in_list js"
| "duplicate_key (J_obj ps) =
     (case duplicate_in_pairs ps of Some k \<Rightarrow> Some k | None \<Rightarrow> repeated [] ps)"
| "duplicate_key _ = None"
| "duplicate_in_list [] = None"
| "duplicate_in_list (j # js) =
     (case duplicate_key j of Some k \<Rightarrow> Some k | None \<Rightarrow> duplicate_in_list js)"
| "duplicate_in_pairs [] = None"
| "duplicate_in_pairs ((k, j) # ps) =
     (case duplicate_key j of Some k' \<Rightarrow> Some k' | None \<Rightarrow> duplicate_in_pairs ps)"

datatype key_config_error =
    Not_json
  | Repeated_field ustr
  | Not_an_array
  | Not_an_object nat
  | Missing_field nat ustr
  | Bad_id nat
  | Bad_name nat
  | Bad_hash nat
  | Bad_denied nat
  | Bad_policy nat policy_error
  | Bad_flag nat ustr
  | Duplicate_id nat ustr
  | Duplicate_hash nat ustr
  | Both_sources
  | Unreadable_file

definition is_hex_digest :: "ustr \<Rightarrow> bool" where
  "is_hex_digest h \<longleftrightarrow> length h = 64 \<and> list_all (\<lambda>c. 48 \<le> c \<and> c \<le> 57 \<or> 97 \<le> c \<and> c \<le> 102) h"

fun denied_of_json :: "json option \<Rightarrow> ustr list option" where
  "denied_of_json None = Some []"
| "denied_of_json (Some J_null) = Some []"
| "denied_of_json (Some (J_list js)) =
     (if list_all (\<lambda>j. case j of J_str s \<Rightarrow> True | _ \<Rightarrow> False) js
      then Some (map (\<lambda>j. case j of J_str s \<Rightarrow> s | _ \<Rightarrow> []) js) else None)"
| "denied_of_json (Some _) = None"

text \<open>A capability flag: absent or null is false, a boolean is itself, anything else an error.\<close>

fun flag_of_json :: "json option \<Rightarrow> bool option" where
  "flag_of_json None = Some False"
| "flag_of_json (Some J_null) = Some False"
| "flag_of_json (Some (J_bool b)) = Some b"
| "flag_of_json (Some _) = None"

definition capabilities_of :: "bool \<Rightarrow> bool \<Rightarrow> bool \<Rightarrow> ustr set" where
  "capabilities_of admin operations security =
     (if admin then {admin_capability} else {})
     \<union> (if operations then {operations_capability} else {})
     \<union> (if security then {security_capability} else {})"

fun text_field :: "(ustr \<times> json) list \<Rightarrow> ustr \<Rightarrow> ustr option" where
  "text_field fs k = (case map_of fs k of Some (J_str s) \<Rightarrow> if s = [] then None else Some s | _ \<Rightarrow> None)"

record auth_env =
  ae_parser :: identifier_parser
  ae_deployment :: deployment
  ae_unicode :: unicode_db
  ae_view :: "schema_view option"

text \<open>One entry of the array: its digest and its principal, or why the configuration is refused.\<close>

definition parse_key_entry ::
    "auth_env \<Rightarrow> nat \<Rightarrow> json \<Rightarrow> key_config_error + ustr \<times> principal" where
  "parse_key_entry E i j =
     (case j of
        J_obj fs \<Rightarrow>
          (case find (\<lambda>k. k \<notin> set (map fst fs)) [u ''id'', u ''name'', u ''key_sha256''] of
             Some k \<Rightarrow> Inl (Missing_field i k)
           | None \<Rightarrow>
          (case text_field fs (u ''id'') of None \<Rightarrow> Inl (Bad_id i) | Some pid \<Rightarrow>
          (case text_field fs (u ''name'') of None \<Rightarrow> Inl (Bad_name i) | Some name \<Rightarrow>
          (case text_field fs (u ''key_sha256'') of None \<Rightarrow> Inl (Bad_hash i) | Some h \<Rightarrow>
            (let digest = lower (ae_unicode E) (strip h)
             in if \<not> is_hex_digest digest then Inl (Bad_hash i)
                else
          (case denied_of_json (map_of fs (u ''denied_columns'')) of None \<Rightarrow> Inl (Bad_denied i) | Some raw \<Rightarrow>
            (let denied = clean_entries (ae_unicode E) raw
             in case (if raw = [] then None
                      else (case parse_column_policy (ae_parser E) (ae_deployment E) (ae_unicode E) True
                              (ae_view E) (Entries (map Item_str denied)) of
                              Inl e \<Rightarrow> Some e | Inr _ \<Rightarrow> None)) of
                  Some e \<Rightarrow> Inl (Bad_policy i e)
                | None \<Rightarrow>
          (case flag_of_json (map_of fs (u ''admin'')) of None \<Rightarrow> Inl (Bad_flag i (u ''admin'')) | Some a \<Rightarrow>
          (case flag_of_json (map_of fs (u ''operations'')) of None \<Rightarrow> Inl (Bad_flag i (u ''operations'')) | Some ops \<Rightarrow>
          (case flag_of_json (map_of fs (u ''security'')) of None \<Rightarrow> Inl (Bad_flag i (u ''security'')) | Some sec \<Rightarrow>
             Inr (digest, make_principal (ae_unicode E) pid name denied (capabilities_of a ops sec)))))))))))) 
      | _ \<Rightarrow> Inl (Not_an_object i))"

fun parse_key_entries ::
    "auth_env \<Rightarrow> nat \<Rightarrow> ustr list \<Rightarrow> (ustr, principal) odict \<Rightarrow> json list
     \<Rightarrow> key_config_error + (ustr, principal) odict" where
  "parse_key_entries E i seen_ids keys [] = Inr keys"
| "parse_key_entries E i seen_ids keys (j # js) =
     (case parse_key_entry E i j of
        Inl e \<Rightarrow> Inl e
      | Inr (h, p) \<Rightarrow>
          if pr_id p \<in> set seen_ids then Inl (Duplicate_id i (pr_id p))
          else if h \<in> set (od_keys keys) then Inl (Duplicate_hash i h)
          else parse_key_entries E (Suc i) (pr_id p # seen_ids) (AList.update h p keys) js)"

definition parse_api_keys ::
    "auth_env \<Rightarrow> (ustr \<Rightarrow> json option) \<Rightarrow> ustr \<Rightarrow> key_config_error + (ustr, principal) odict" where
  "parse_api_keys E loads raw =
     (if strip raw = [] then Inr []
      else (case loads raw of
              None \<Rightarrow> Inl Not_json
            | Some j \<Rightarrow>
                (case duplicate_key j of
                   Some k \<Rightarrow> Inl (Repeated_field k)
                 | None \<Rightarrow>
                     (case j of J_list js \<Rightarrow> parse_key_entries E 0 [] [] js | _ \<Rightarrow> Inl Not_an_array))))"

text \<open>
  \<open>load_api_keys\<close>: the settings name the inline text and the file; \<open>read_file\<close> is the text of
  the file (\<open>None\<close> when it cannot be read).
\<close>

definition load_api_keys ::
    "auth_env \<Rightarrow> (ustr \<Rightarrow> json option) \<Rightarrow> (ustr \<Rightarrow> ustr option) \<Rightarrow> ustr \<Rightarrow> ustr
     \<Rightarrow> key_config_error + (ustr, principal) odict" where
  "load_api_keys E loads read_file api_keys_json api_keys_file =
     (if strip api_keys_file = [] then parse_api_keys E loads api_keys_json
      else if strip api_keys_json \<noteq> [] then Inl Both_sources
      else (case read_file (strip api_keys_file) of
              None \<Rightarrow> Inl Unreadable_file
            | Some text \<Rightarrow> parse_api_keys E loads text))"

section \<open>Resolving a header\<close>

definition bearer_prefix :: ustr where "bearer_prefix = u ''Bearer ''"

text \<open>The loop walks every entry; the last one whose hash matches wins.\<close>

fun match_hash :: "ustr \<Rightarrow> (ustr, principal) odict \<Rightarrow> principal option \<Rightarrow> principal option" where
  "match_hash h [] m = m"
| "match_hash h ((known, p) # ks) m = match_hash h ks (if h = known then Some p else m)"

definition resolve_principal ::
    "(ustr \<Rightarrow> ustr) \<Rightarrow> ustr option \<Rightarrow> (ustr, principal) odict \<Rightarrow> principal option" where
  "resolve_principal sha256 header keys =
     (case header of
        None \<Rightarrow> None
      | Some h \<Rightarrow>
          if h = [] \<or> \<not> startswith h bearer_prefix then None
          else (let token = strip (drop (length bearer_prefix) h)
                in if token = [] then None else match_hash (sha256 token) keys None))"

section \<open>The cache partition\<close>

definition hex_digit :: "nat \<Rightarrow> nat" where
  "hex_digit n = (if n < 10 then 48 + n else 87 + n)"

definition hex4 :: "nat \<Rightarrow> ustr" where
  "hex4 n = [hex_digit (n div 4096), hex_digit (n div 256 mod 16), hex_digit (n div 16 mod 16), hex_digit (n mod 16)]"

definition u_escape :: "nat \<Rightarrow> ustr" where
  "u_escape n = [92, 117] @ hex4 n"

text \<open>\<open>json.dumps\<close> of one character, with the default \<open>ensure_ascii\<close>.\<close>

definition json_char :: "nat \<Rightarrow> ustr" where
  "json_char c =
     (if c = 34 then [92, 34] else if c = 92 then [92, 92]
      else if c = 10 then [92, 110] else if c = 13 then [92, 114] else if c = 9 then [92, 116]
      else if c = 12 then [92, 102] else if c = 8 then [92, 98]
      else if 32 \<le> c \<and> c \<le> 126 then [c]
      else if c < 0x10000 then u_escape c
      else u_escape (0xD800 + (c - 0x10000) div 1024) @ u_escape (0xDC00 + (c - 0x10000) mod 1024))"

definition json_string :: "ustr \<Rightarrow> ustr" where
  "json_string s = [34] @ concat (map json_char s) @ [34]"

definition json_array :: "ustr list \<Rightarrow> ustr" where
  "json_array ss = [91] @ join [44] (map json_string ss) @ [93]"

definition memory_text :: "(ustr, ustr) odict \<Rightarrow> ustr" where
  "memory_text m = join [124] (map (\<lambda>(k, v). k @ [61] @ v) (sort m))"

text \<open>The text whose digest is the scope key.\<close>

definition scope_text :: "principal \<Rightarrow> (ustr, ustr) odict option \<Rightarrow> ustr" where
  "scope_text p memory_used =
     (let joined = (if pr_denied p \<noteq> [] then json_array (sort (pr_denied p)) else u ''all'')
      in case memory_used of
           None \<Rightarrow> joined
         | Some m \<Rightarrow> if m = [] then joined else joined @ u ''#mem:'' @ memory_text m)"

definition scope_key :: "(ustr \<Rightarrow> ustr) \<Rightarrow> principal \<Rightarrow> (ustr, ustr) odict option \<Rightarrow> ustr" where
  "scope_key sha256 p memory_used = take 16 (sha256 (scope_text p memory_used))"

section \<open>The header decides the principal\<close>

declare admin_capability_def [ev] operations_capability_def [ev] security_capability_def [ev]
  clean_entries_def [ev] make_principal_def [ev] is_hex_digest_def [ev] capabilities_of_def [ev]
  parse_key_entry_def [ev] parse_api_keys_def [ev] load_api_keys_def [ev] bearer_prefix_def [ev]
  resolve_principal_def [ev] hex_digit_def [ev] hex4_def [ev] u_escape_def [ev] json_char_def [ev]
  json_string_def [ev] json_array_def [ev] memory_text_def [ev] scope_text_def [ev]

lemma match_hash_map_of:
  "od_ok keys \<Longrightarrow> match_hash h keys m = (case map_of keys h of Some p \<Rightarrow> Some p | None \<Rightarrow> m)"
proof (induction keys arbitrary: m)
  case (Cons kp keys)
  obtain k p where kp: "kp = (k, p)" by (cases kp)
  from Cons.prems have "od_ok keys" "k \<notin> fst ` set keys" by (simp_all add: od_ok_def kp)
  with Cons.IH show ?case
    by (auto simp: kp map_of_eq_None_iff [symmetric] split: option.splits)
qed simp

text \<open>
  C11. A request is authenticated as a principal exactly when its header is \<open>Bearer \<close> followed by
  a non-blank token whose digest is the key of that principal. No prefix of a key, no other
  scheme and no other entry of the table authenticates anyone.
\<close>

theorem resolve_principal_exact:
  assumes "od_ok keys"
  shows "resolve_principal sha256 header keys = Some p \<longleftrightarrow>
    (\<exists>t. header = Some (bearer_prefix @ t) \<and> strip t \<noteq> [] \<and> map_of keys (sha256 (strip t)) = Some p)"
proof (cases header)
  case None
  then show ?thesis by (simp add: resolve_principal_def)
next
  case (Some h)
  show ?thesis
  proof (cases "startswith h bearer_prefix")
    case True
    then obtain t where t: "h = bearer_prefix @ t" by (auto simp: startswith_iff)
    have ne: "bearer_prefix \<noteq> []" by (simp add: bearer_prefix_def)
    have "resolve_principal sha256 (Some h) keys =
        (if strip t = [] then None else match_hash (sha256 (strip t)) keys None)"
      using True ne by (simp add: resolve_principal_def t Let_def)
    with match_hash_map_of [OF assms] Some t show ?thesis
      by (auto split: option.splits)
  next
    case False
    then show ?thesis using Some by (auto simp: resolve_principal_def startswith_iff)
  qed
qed

theorem resolve_principal_exact_witness:
  "resolve_principal id (Some (u ''Bearer  abc '')) [(u ''xyz'', anonymous ascii_db), (u ''abc'', anonymous ascii_db)]
     = Some (anonymous ascii_db) \<longleftrightarrow>
   (\<exists>t. Some (u ''Bearer  abc '') = Some (bearer_prefix @ t) \<and> strip t \<noteq> []
     \<and> map_of [(u ''xyz'', anonymous ascii_db), (u ''abc'', anonymous ascii_db)] (id (strip t))
         = Some (anonymous ascii_db))"
  by (rule resolve_principal_exact) (simp add: od_ok_def)

section \<open>What an accepted key configuration guarantees\<close>

lemma ne_entries_map_text:
  "map Item_str (map text_of_item (ne_entries (normalize_denied_entries U (map Item_str es))))
     = ne_entries (normalize_denied_entries U (map Item_str es))"
  by (induction es) (simp_all add: Let_def)

lemma normalize_twice:
  "ne_entries (normalize_denied_entries U (ne_entries (normalize_denied_entries U items)))
     = ne_entries (normalize_denied_entries U items)"
proof (induction U items rule: normalize_denied_entries.induct)
  case (2 U item items)
  then show ?case by (cases item) (simp_all add: Let_def)
qed simp

lemma clean_entries_idem: "clean_entries U (clean_entries U es) = clean_entries U es"
  unfolding clean_entries_def ne_entries_map_text normalize_twice ..

text \<open>The facts about one accepted entry.\<close>

definition entry_of :: "unicode_db \<Rightarrow> json \<Rightarrow> ustr \<Rightarrow> principal \<Rightarrow> bool" where
  "entry_of U j h p \<longleftrightarrow> is_hex_digest h \<and> clean_entries U (pr_denied p) = pr_denied p
     \<and> (\<exists>fs. j = J_obj fs \<and> map_of fs (u ''id'') = Some (J_str (pr_id p))
          \<and> (\<forall>c \<in> pr_capabilities p. map_of fs c = Some (J_bool True)))"

lemma flag_True: "flag_of_json v = Some True \<longleftrightarrow> v = Some (J_bool True)"
  by (cases v rule: flag_of_json.cases) simp_all

lemma text_field_Some: "text_field fs k = Some s \<Longrightarrow> map_of fs k = Some (J_str s)"
  by (auto split: option.splits json.splits if_splits)

lemma parse_key_entry_ok:
  assumes "parse_key_entry E i j = Inr (h, p)"
  shows "entry_of (ae_unicode E) j h p"
proof -
  obtain fs where j: "j = J_obj fs"
    using assms by (cases j) (simp_all add: parse_key_entry_def)
  obtain pid name hs raw a ops sec where f:
    "text_field fs (u ''id'') = Some pid" "is_hex_digest h"
    "flag_of_json (map_of fs (u ''admin'')) = Some a"
    "flag_of_json (map_of fs (u ''operations'')) = Some ops"
    "flag_of_json (map_of fs (u ''security'')) = Some sec"
    "p = make_principal (ae_unicode E) pid name (clean_entries (ae_unicode E) raw) (capabilities_of a ops sec)"
    using assms unfolding j
    by (auto simp: parse_key_entry_def Let_def simp del: text_field.simps split: option.splits if_splits)
  have "map_of fs c = Some (J_bool True)" if "c \<in> pr_capabilities p" for c
    using that f(3-6) flag_True
    by (auto simp: make_principal_def capabilities_of_def admin_capability_def
        operations_capability_def security_capability_def split: if_splits)
  then show ?thesis
    using f(2,6) text_field_Some [OF f(1)]
    by (auto simp: entry_of_def j make_principal_def clean_entries_idem)
qed

lemma parse_key_entries_ok:
  assumes "parse_key_entries E i seen keys js = Inr keys'"
    and "od_ok keys" "distinct (map (\<lambda>e. pr_id (snd e)) keys)" "set (map (\<lambda>e. pr_id (snd e)) keys) \<subseteq> set seen"
    and "\<forall>(h, p) \<in> set keys. \<exists>j \<in> S. entry_of (ae_unicode E) j h p"
  shows "od_ok keys' \<and> distinct (map (\<lambda>e. pr_id (snd e)) keys')
    \<and> (\<forall>(h, p) \<in> set keys'. \<exists>j \<in> S \<union> set js. entry_of (ae_unicode E) j h p)"
  using assms
proof (induction E i seen keys js arbitrary: S rule: parse_key_entries.induct)
  case (2 E i seen keys j js)
  obtain h p where hp: "parse_key_entry E i j = Inr (h, p)"
    using 2(2) by (auto split: sum.splits)
  have new: "pr_id p \<notin> set seen" "h \<notin> set (od_keys keys)"
    "parse_key_entries E (Suc i) (pr_id p # seen) (AList.update h p keys) js = Inr keys'"
    using 2(2) hp by (auto split: if_splits)
  have m: "map_of keys h = None" using new(2) by (simp add: od_keys_def map_of_eq_None_iff)
  have u: "AList.update h p keys = keys @ [(h, p)]" by (rule update_new [OF m])
  have "\<forall>(h, p) \<in> set (keys @ [(h, p)]). \<exists>j' \<in> insert j S. entry_of (ae_unicode E) j' h p"
    using 2(6) parse_key_entry_ok [OF hp] by auto
  moreover have "od_ok (keys @ [(h, p)])"
    using 2(3) new(2) by (simp add: od_ok_def od_keys_def)
  moreover have "distinct (map (\<lambda>e. pr_id (snd e)) (keys @ [(h, p)]))"
    using 2(4,5) new(1) by auto
  moreover have "set (map (\<lambda>e. pr_id (snd e)) (keys @ [(h, p)])) \<subseteq> set (pr_id p # seen)"
    using 2(5) by auto
  ultimately have "od_ok keys' \<and> distinct (map (\<lambda>e. pr_id (snd e)) keys')
    \<and> (\<forall>(h, p) \<in> set keys'. \<exists>j' \<in> insert j S \<union> set js. entry_of (ae_unicode E) j' h p)"
    using 2(1) [OF hp refl new(1,2) new(3), unfolded u] by blast
  then show ?case by auto
qed auto

lemma parse_api_keys_entries:
  assumes "parse_api_keys E loads raw = Inr keys"
  shows "od_ok keys \<and> distinct (map (\<lambda>e. pr_id (snd e)) keys)
    \<and> (\<forall>(h, p) \<in> set keys. \<exists>js. loads raw = Some (J_list js) \<and> duplicate_key (J_list js) = None
          \<and> (\<exists>j \<in> set js. entry_of (ae_unicode E) j h p))"
proof (cases "strip raw = []")
  case True
  with assms show ?thesis by (simp add: parse_api_keys_def)
next
  case False
  with assms obtain js where js: "loads raw = Some (J_list js)" "duplicate_key (J_list js) = None"
    "parse_key_entries E 0 [] [] js = Inr keys"
    by (auto simp: parse_api_keys_def simp del: duplicate_key.simps split: option.splits json.splits)
  from parse_key_entries_ok [OF js(3), of "{}"] js(1,2) show ?thesis by simp
qed

text \<open>
  An accepted key configuration is unambiguous: its digests are well formed and distinct,
  the principal ids are distinct, and every principal holds its column restrictions cleaned, so
  that cleaning them again changes nothing.
\<close>

theorem accepted_keys_unambiguous:
  assumes "parse_api_keys E loads raw = Inr keys"
  shows "distinct (map fst keys) \<and> distinct (map (\<lambda>e. pr_id (snd e)) keys)
    \<and> list_all (\<lambda>(h, p). is_hex_digest h \<and> clean_entries (ae_unicode E) (pr_denied p) = pr_denied p) keys"
  using parse_api_keys_entries [OF assms]
  by (fastforce simp: od_ok_def list_all_iff entry_of_def)

text \<open>
  No capability without a literal \<open>true\<close>: a principal of an accepted configuration holds a
  capability only when its own entry of the JSON array has that field with the JSON value
  \<open>true\<close>. A missing field, a string such as ''false'' or a repeated field never grants one.
\<close>

theorem capability_needs_true_flag:
  assumes "parse_api_keys E loads raw = Inr keys" "(h, p) \<in> set keys" "c \<in> pr_capabilities p"
  shows "\<exists>js fs. loads raw = Some (J_list js) \<and> J_obj fs \<in> set js \<and> duplicate_key (J_list js) = None
    \<and> map_of fs (u ''id'') = Some (J_str (pr_id p)) \<and> map_of fs c = Some (J_bool True)"
proof -
  obtain js j where "loads raw = Some (J_list js)" "duplicate_key (J_list js) = None" "j \<in> set js"
    "entry_of (ae_unicode E) j h p"
    using parse_api_keys_entries [OF assms(1)] assms(2) by blast
  with assms(3) show ?thesis by (auto simp: entry_of_def)
qed

definition example_env :: auth_env where
  "example_env = \<lparr>ae_parser = dotted, ae_deployment = example_deployment, ae_unicode = ascii_db, ae_view = None\<rparr>"

definition example_json :: json where
  "example_json = J_list [J_obj
     [(u ''id'', J_str (u ''alice'')), (u ''name'', J_str (u ''Alice'')),
      (u ''key_sha256'', J_str (replicate 64 65)), (u ''denied_columns'', J_list [J_str (u '' Phone'')]),
      (u ''admin'', J_bool True)]]"

definition example_principal :: principal where
  "example_principal = \<lparr>pr_id = u ''alice'', pr_name = u ''Alice'', pr_denied = [u ''Phone''],
     pr_capabilities = {u ''admin''}\<rparr>"

lemma strip_replicate: "\<not> is_space c \<Longrightarrow> strip (replicate n c) = replicate n c"
  by (rule strip_id) simp

lemma example_digest: "lower ascii_db (strip (replicate 64 65)) = replicate 64 97" "is_hex_digest (replicate 64 97)"
  by (simp_all add: strip_replicate is_space_def ascii_db_def ascii_lower_def is_hex_digest_def list_all_iff)

lemma example_entry:
  "parse_key_entry example_env 0 (hd (case example_json of J_list js \<Rightarrow> js))
     = Inr (replicate 64 97, example_principal)"
  by (simp add: parse_key_entry_def example_env_def example_json_def example_digest Let_def)
    (simp add: ev parse_column_policy_def example_principal_def Let_def)

lemma example_keys:
  "parse_api_keys example_env (\<lambda>s. Some example_json) (u ''x'') = Inr [(replicate 64 97, example_principal)]"
proof -
  have "strip (u ''x'') \<noteq> []" by (simp add: ev)
  then show ?thesis
    using example_entry
    by (simp add: parse_api_keys_def example_json_def od_keys_def)
qed

theorem accepted_keys_unambiguous_witness:
  "distinct (map fst [(replicate 64 (97::nat), example_principal)])
    \<and> distinct (map (\<lambda>e. pr_id (snd e)) [(replicate 64 (97::nat), example_principal)])
    \<and> list_all (\<lambda>(h, p). is_hex_digest h \<and> clean_entries (ae_unicode example_env) (pr_denied p) = pr_denied p)
        [(replicate 64 97, example_principal)]"
  by (rule accepted_keys_unambiguous) (rule example_keys)

theorem capability_needs_true_flag_witness:
  "\<exists>js fs. Some example_json = Some (J_list js) \<and> J_obj fs \<in> set js \<and> duplicate_key (J_list js) = None
    \<and> map_of fs (u ''id'') = Some (J_str (pr_id example_principal))
    \<and> map_of fs (u ''admin'') = Some (J_bool True)"
  by (rule capability_needs_true_flag [OF example_keys]) (simp_all add: example_principal_def)

section \<open>The encoding of the scope key\<close>

lemma hex_digit_inj: "n < 16 \<Longrightarrow> m < 16 \<Longrightarrow> hex_digit n = hex_digit m \<Longrightarrow> n = m"
  by (auto simp: hex_digit_def split: if_splits)

lemma hex4_value:
  "(n::nat) = 4096 * (n div 4096) + 256 * (n div 256 mod 16) + 16 * (n div 16 mod 16) + n mod 16"
proof -
  have "n div 4096 = n div 256 div 16" "n div 256 = n div 16 div 16"
    by (simp_all add: div_mult2_eq [symmetric])
  then show ?thesis
    using mult_div_mod_eq [of 16 n] mult_div_mod_eq [of 16 "n div 16"] mult_div_mod_eq [of 16 "n div 256"]
    by linarith
qed

lemma hex4_inj:
  assumes "n < 0x10000" "m < 0x10000" "hex4 n = hex4 m"
  shows "n = m"
proof -
  have "n div 4096 < 16" "m div 4096 < 16"
    using assms by (simp_all add: less_mult_imp_div_less)
  then have "n div 4096 = m div 4096" "n div 256 mod 16 = m div 256 mod 16"
    "n div 16 mod 16 = m div 16 mod 16" "n mod 16 = m mod 16"
    using assms(3) by (simp_all add: hex4_def) (auto intro: hex_digit_inj)
  then show ?thesis using hex4_value [of n] hex4_value [of m] by simp
qed

text \<open>A text that \<open>str.encode\<close> accepts: code points without surrogates.\<close>

definition valid_char :: "nat \<Rightarrow> bool" where
  "valid_char c \<longleftrightarrow> c < 0xD800 \<or> 0xE000 \<le> c \<and> c < 0x110000"

definition valid_text :: "ustr \<Rightarrow> bool" where
  "valid_text s \<longleftrightarrow> list_all valid_char s"

definition short_escape :: "nat \<Rightarrow> nat option" where
  "short_escape c =
     (if c = 34 then Some 34 else if c = 92 then Some 92 else if c = 10 then Some 110
      else if c = 13 then Some 114 else if c = 9 then Some 116 else if c = 12 then Some 102
      else if c = 8 then Some 98 else None)"

lemma json_char_cases:
  assumes "valid_char c"
  obtains (short) e where "short_escape c = Some e" "json_char c = [92, e]" "e \<noteq> 117"
  | (plain) "json_char c = [c]" "c \<noteq> 34" "c \<noteq> 92"
  | (unit) "json_char c = [92, 117] @ hex4 c" "c < 0x10000" "c < 0xD800 \<or> 0xE000 \<le> c"
  | (pair) hi lo where "json_char c = ([92, 117] @ hex4 hi) @ [92, 117] @ hex4 lo"
      "hi = 0xD800 + (c - 0x10000) div 1024" "lo = 0xDC00 + (c - 0x10000) mod 1024"
      "0x10000 \<le> c" "hi < 0xDC00" "lo < 0xE000"
proof (cases "short_escape c")
  case (Some e)
  then have "json_char c = [92, e]" "e \<noteq> 117"
    by (auto simp: short_escape_def json_char_def split: if_splits)
  with Some short show ?thesis by blast
next
  case None
  then have n: "c \<notin> {34, 92, 10, 13, 9, 12, 8}"
    by (auto simp: short_escape_def split: if_splits)
  show ?thesis
  proof (cases "32 \<le> c \<and> c \<le> 126")
    case True
    with n plain show ?thesis by (simp add: json_char_def)
  next
    case np: False
    show ?thesis
    proof (cases "c < 0x10000")
      case True
      have "json_char c = [92, 117] @ hex4 c"
        using n np True by (simp add: json_char_def u_escape_def)
      moreover have "c < 0xD800 \<or> 0xE000 \<le> c" using assms by (auto simp: valid_char_def)
      ultimately show ?thesis using unit True by blast
    next
      case False
      then have c: "0x10000 \<le> c" "c < 0x110000" using assms by (auto simp: valid_char_def)
      have "(c - 0x10000) div 1024 < 1024"
        using c by (simp add: less_mult_imp_div_less)
      then have "0xD800 + (c - 0x10000) div 1024 < 0xDC00" by simp
      moreover have "0xDC00 + (c - 0x10000) mod 1024 < 0xE000" by simp
      moreover have "json_char c = ([92, 117] @ hex4 (0xD800 + (c - 0x10000) div 1024))
          @ [92, 117] @ hex4 (0xDC00 + (c - 0x10000) mod 1024)"
        using n np False by (simp add: json_char_def u_escape_def)
      ultimately show ?thesis using pair c(1) by blast
    qed
  qed
qed

lemma length_hex4: "length (hex4 n) = 4"
  by (simp add: hex4_def)

lemma short_escape_inj: "short_escape c = Some e \<Longrightarrow> short_escape c' = Some e \<Longrightarrow> c = c'"
  by (auto simp: short_escape_def split: if_splits)

lemma hex4_append_inj:
  assumes "[92, 117] @ hex4 n @ x = [92, 117] @ hex4 m @ y" "n < 0x10000" "m < 0x10000"
  shows "n = m \<and> x = y"
  using assms length_hex4 [of n] length_hex4 [of m] hex4_inj [of n m] by simp

lemma json_char_prefix_free:
  assumes "valid_char c" "valid_char c'" "json_char c @ x = json_char c' @ y"
  shows "c = c' \<and> x = y"
  using assms(1)
proof (cases c rule: json_char_cases)
  case (short e)
  from assms(2) show ?thesis
    by (cases c' rule: json_char_cases) (use assms(3) short short_escape_inj in auto)
next
  case plain
  from assms(2) show ?thesis
    by (cases c' rule: json_char_cases) (use assms(3) plain in auto)
next
  case unit
  from assms(2) show ?thesis
  proof (cases c' rule: json_char_cases)
    case unit': unit
    show ?thesis
      using hex4_append_inj [of c x c' y] assms(3) unit unit' by simp
  next
    case (pair hi lo)
    then have "c = hi"
      using hex4_append_inj [of c x hi "([92, 117] @ hex4 lo) @ y"] assms(3) unit by simp
    with unit pair show ?thesis by simp
  qed (use assms(3) unit in auto)
next
  case (pair hi lo)
  from assms(2) show ?thesis
  proof (cases c' rule: json_char_cases)
    case unit
    then have "hi = c'"
      using hex4_append_inj [of hi "([92, 117] @ hex4 lo) @ x" c' y] assms(3) pair by simp
    with unit pair show ?thesis by simp
  next
    case (pair hi' lo')
    have 1: "hi = hi' \<and> [92, 117] @ hex4 lo @ x = [92, 117] @ hex4 lo' @ y"
      using hex4_append_inj [of hi "[92, 117] @ hex4 lo @ x" hi' "[92, 117] @ hex4 lo' @ y"]
        assms(3) \<open>json_char c = _\<close> \<open>hi < 0xDC00\<close> pair by simp
    then have 2: "lo = lo' \<and> x = y"
      using hex4_append_inj [of lo x lo' y] \<open>lo < 0xE000\<close> pair by simp
    have "(c - 0x10000) div 1024 = (c' - 0x10000) div 1024"
      "(c - 0x10000) mod 1024 = (c' - 0x10000) mod 1024"
      using 1 2 pair \<open>hi = _\<close> \<open>lo = _\<close> by simp_all
    then have "c - 0x10000 = c' - 0x10000" by (metis mult_div_mod_eq)
    with 2 pair \<open>0x10000 \<le> c\<close> show ?thesis by simp
  qed (use assms(3) pair in auto)
qed

lemma json_body_inj:
  "valid_text s \<Longrightarrow> valid_text t \<Longrightarrow>
   concat (map json_char s) @ 34 # x = concat (map json_char t) @ 34 # y \<Longrightarrow> s = t \<and> x = y"
proof (induction s arbitrary: t)
  case Nil
  show ?case
  proof (cases t)
    case (Cons c t')
    with Nil have "valid_char c" by (simp add: valid_text_def)
    then show ?thesis by (cases c rule: json_char_cases) (use Nil(3) Cons in auto)
  qed (use Nil(3) in simp)
next
  case (Cons c s)
  have c: "valid_char c" using Cons.prems(1) by (simp add: valid_text_def)
  show ?case
  proof (cases t)
    case Nil
    with c show ?thesis by (cases c rule: json_char_cases) (use Cons.prems(3) in auto)
  next
    case (Cons c' t')
    have "c = c' \<and> concat (map json_char s) @ 34 # x = concat (map json_char t') @ 34 # y"
      using Cons Cons.prems by (intro json_char_prefix_free [OF c]) (simp_all add: valid_text_def)
    with Cons.IH [of t'] Cons Cons.prems(1,2) show ?thesis by (simp add: valid_text_def)
  qed
qed

lemma json_string_inj:
  "valid_text s \<Longrightarrow> valid_text t \<Longrightarrow> json_string s @ x = json_string t @ y \<Longrightarrow> s = t \<and> x = y"
  using json_body_inj [of s t x y] by (simp add: json_string_def)

lemma json_join_inj:
  "list_all valid_text ss \<Longrightarrow> list_all valid_text ts \<Longrightarrow> ss \<noteq> [] \<Longrightarrow> ts \<noteq> [] \<Longrightarrow>
   join [44] (map json_string ss) @ [93] = join [44] (map json_string ts) @ [93] \<Longrightarrow> ss = ts"
proof (induction ss arbitrary: ts)
  case (Cons s ss)
  obtain t ts' where ts: "ts = t # ts'" using Cons.prems(4) by (cases ts) auto
  have join: "join [44] (w # ws) @ [93] = w @ (if ws = [] then [93] else 44 # join [44] ws @ [93])" for w ws
    by (cases ws) simp_all
  have "s = t \<and> (if ss = [] then [93] else 44 # join [44] (map json_string ss) @ [93])
      = (if ts' = [] then [93] else 44 # join [44] (map json_string ts') @ [93])"
    using Cons.prems by (intro json_string_inj) (simp_all add: ts join)
  with Cons.IH [of ts'] Cons.prems(1,2) show ?case
    by (auto simp: ts split: if_splits)
qed simp

lemma sort_eq_iff_mset: "sort xs = sort ys \<longleftrightarrow> mset xs = mset ys"
  by (metis mset_sort properties_for_sort sorted_sort)

lemma scope_text_eq_iff:
  assumes "list_all valid_text (pr_denied p)" "list_all valid_text (pr_denied q)"
  shows "scope_text p None = scope_text q None \<longleftrightarrow> mset (pr_denied p) = mset (pr_denied q)"
proof (cases "pr_denied p = [] \<or> pr_denied q = []")
  case True
  have "json_array ss \<noteq> u ''all''" "u ''all'' \<noteq> json_array ss" for ss
    by (simp_all add: json_array_def u_def)
  with True show ?thesis by (auto simp: scope_text_def Let_def)
next
  case False
  have v: "list_all valid_text (sort ss) \<longleftrightarrow> list_all valid_text ss" for ss
    by (simp add: list_all_iff)
  have "json_array (sort (pr_denied p)) = json_array (sort (pr_denied q))
      \<longleftrightarrow> sort (pr_denied p) = sort (pr_denied q)"
    using json_join_inj [of "sort (pr_denied p)" "sort (pr_denied q)"] False assms
    by (auto simp: json_array_def v sort_Nil_iff)
  with False show ?thesis by (simp add: scope_text_def Let_def sort_eq_iff_mset)
qed



text \<open>
  The memory part of the scope key is not injective: two different sets of remembered values
  (one of them holding a vertical bar, which is allowed) give the same cache partition.
\<close>

theorem scope_memory_collision:
  "scope_text (anonymous ascii_db) (Some [(u ''a'', u ''1|b=2'')])
     = scope_text (anonymous ascii_db) (Some [(u ''a'', u ''1''), (u ''b'', u ''2'')])"
  by (simp add: ev anonymous_def)

end
