(* ===== verification/Source_Selection.thy ===== *)
theory Source_Selection
  imports Complex_Main Persian_Text Datasource_Routing "HOL-Library.Product_Lexorder"
begin

text \<open>
  The source a question is about, chosen before the prompt is built
  (\<open>retrieval/source_selector.py\<close>): keyword hits, the previous turn's source, the evidence of
  the retrieved tables, the default, in this order. The class \<open>\w\<close> and the case tables are
  those of \<open>unicode_db\<close>. The scores are the values of the source's floating-point numbers; the
  rounding of one operation is the parameter \<open>rnd\<close>.
\<close>

section \<open>Selections\<close>

datatype selection_reason = Keyword | Session | Retrieval | Default

record source_selection =
  sel_chosen :: ustr
  sel_reason :: selection_reason
  sel_candidates :: "ustr list"

definition selection_after :: "source_selection \<Rightarrow> ustr \<Rightarrow> ustr option" where
  "selection_after sel source =
     (case tl (dropWhile (\<lambda>s. s \<noteq> source) (sel_candidates sel)) of [] \<Rightarrow> None | s # _ \<Rightarrow> Some s)"

record selection_audit =
  au_chosen :: ustr
  au_reason :: selection_reason
  au_candidates :: "ustr list"
  au_fallback_from :: "ustr option"

definition audit_selection ::
    "source_selection \<Rightarrow> ustr option \<Rightarrow> ustr option \<Rightarrow> selection_audit" where
  "audit_selection sel chosen fallback_from =
     \<lparr>au_chosen = (case chosen of None \<Rightarrow> sel_chosen sel | Some c \<Rightarrow> c), au_reason = sel_reason sel,
      au_candidates = sel_candidates sel, au_fallback_from = fallback_from\<rparr>"

section \<open>Keywords\<close>

text \<open>
  \<open>pattern.search\<close> of \<open>(?<!\w)phrase(?!\w)\<close>: \<open>prev\<close> says whether the character before the text is
  a word character.
\<close>

fun phrase_found :: "(nat \<Rightarrow> bool) \<Rightarrow> bool \<Rightarrow> ustr \<Rightarrow> ustr \<Rightarrow> bool" where
  "phrase_found W prev [] p \<longleftrightarrow> \<not> prev \<and> p = []"
| "phrase_found W prev (c # s) p \<longleftrightarrow>
     \<not> prev \<and> startswith (c # s) p
       \<and> (case drop (length p) (c # s) of [] \<Rightarrow> True | d # _ \<Rightarrow> \<not> W d)
     \<or> phrase_found W (W c) s p"

text \<open>\<open>_WORD_RE.sub\<close>: every run of word characters is replaced.\<close>

fun sub_words :: "(nat \<Rightarrow> bool) \<Rightarrow> (ustr \<Rightarrow> ustr) \<Rightarrow> ustr \<Rightarrow> ustr" where
  "sub_words W f [] = []"
| "sub_words W f (c # s) =
     (if W c then f (c # takeWhile W s) @ sub_words W f (dropWhile W s) else c # sub_words W f s)"

definition phrase_hits :: "unicode_db \<Rightarrow> ustr list \<Rightarrow> ustr \<Rightarrow> bool" where
  "phrase_hits U texts phrase =
     (let folded = normalize_for_matching U phrase
      in folded \<noteq> [] \<and> list_ex (\<lambda>t. phrase_found (is_word U) False t folded) texts)"

definition question_texts :: "unicode_db \<Rightarrow> ustr \<Rightarrow> ustr list" where
  "question_texts U question =
     (let text = normalize_for_matching U question;
          stemmed = sub_words (is_word U) (strip_plural_suffix U) text
      in if stemmed = text then [text] else [text, stemmed])"

definition keyword_hits :: "unicode_db \<Rightarrow> ustr \<Rightarrow> (ustr, ustr list) odict \<Rightarrow> (ustr, nat) odict" where
  "keyword_hits U question keywords =
     map (\<lambda>(s, phrases). (s, length (filter (phrase_hits U (question_texts U question)) phrases)))
       keywords"

section \<open>Retrieval evidence\<close>

record evidence =
  ev_selected_tables :: "ustr list"
  ev_resolved_values :: "ustr list"

text \<open>\<open>rpartition(''.'')\<close>: the part before the last dot, empty when there is none.\<close>

definition before_last_dot :: "ustr \<Rightarrow> ustr" where
  "before_last_dot s = join [46] (butlast (split_on 46 s))"

definition table_of :: "ustr \<Rightarrow> (ustr, ustr list) odict \<Rightarrow> ustr option" where
  "table_of identifier known =
     (if identifier \<in> set (od_keys known) then Some identifier
      else if before_last_dot identifier \<in> set (od_keys known) then Some (before_last_dot identifier)
      else None)"

type_synonym rounding = "rat \<Rightarrow> rat"

definition add_point :: "rounding \<Rightarrow> nat \<Rightarrow> ustr \<Rightarrow> (ustr, rat) odict \<Rightarrow> (ustr, rat) odict" where
  "add_point rnd n owner scores =
     (case map_of scores owner of
        None \<Rightarrow> scores
      | Some x \<Rightarrow> AList.update owner (rnd (x + rnd (1 / of_nat n))) scores)"

definition credit ::
    "rounding \<Rightarrow> (ustr, ustr list) odict \<Rightarrow> ustr option \<Rightarrow> (ustr, rat) odict \<Rightarrow> (ustr, rat) odict" where
  "credit rnd table_sets table scores =
     (case Option.bind table (map_of table_sets) of
        None \<Rightarrow> scores
      | Some ss \<Rightarrow>
          fold (add_point rnd (length ss)) (filter (\<lambda>s. s \<in> set (od_keys scores)) ss) scores)"

definition retrieval_scores ::
    "rounding \<Rightarrow> evidence \<Rightarrow> (ustr, ustr list) odict \<Rightarrow> ustr list \<Rightarrow> (ustr, rat) odict" where
  "retrieval_scores rnd context table_sets sources =
     fold (credit rnd table_sets)
       (map (\<lambda>t. if t \<in> set (od_keys table_sets) then Some t else None) (ev_selected_tables context)
        @ map (\<lambda>i. table_of i table_sets) (ev_resolved_values context))
       (map (\<lambda>s. (s, 0)) (dedup sources))"

section \<open>The choice\<close>

definition value_at :: "(ustr, 'a::zero) odict \<Rightarrow> ustr \<Rightarrow> 'a" where
  "value_at m s = (case map_of m s of None \<Rightarrow> 0 | Some x \<Rightarrow> x)"

text \<open>The index of a source, the last one of a repeated name.\<close>

definition order_of :: "ustr list \<Rightarrow> ustr \<Rightarrow> nat" where
  "order_of sources s =
     (case map_of (rev (zip sources [0..<length sources])) s of None \<Rightarrow> 0 | Some i \<Rightarrow> i)"

definition ranked ::
    "ustr list \<Rightarrow> (ustr, nat) odict \<Rightarrow> (ustr, rat) odict \<Rightarrow> ustr list \<Rightarrow> ustr list" where
  "ranked sources hits scores pool =
     sort_key (\<lambda>s. (- int (value_at hits s), - value_at scores s, order_of sources s)) pool"

definition finish ::
    "ustr list \<Rightarrow> (ustr, nat) odict \<Rightarrow> (ustr, rat) odict \<Rightarrow> ustr \<Rightarrow> selection_reason \<Rightarrow> source_selection" where
  "finish sources hits scores chosen reason =
     \<lparr>sel_chosen = chosen, sel_reason = reason,
      sel_candidates = chosen # filter (\<lambda>s. s \<noteq> chosen) (ranked sources hits scores sources)\<rparr>"

definition leaders :: "('a \<Rightarrow> 'b::linorder) \<Rightarrow> 'a list \<Rightarrow> 'a list" where
  "leaders f xs = filter (\<lambda>x. f x = Max (f ` set xs)) xs"

definition select_source ::
    "unicode_db \<Rightarrow> rounding \<Rightarrow> ustr \<Rightarrow> evidence \<Rightarrow> ustr list \<Rightarrow> (ustr, ustr list) odict
     \<Rightarrow> (ustr, ustr list) odict \<Rightarrow> ustr option \<Rightarrow> source_selection option" where
  "select_source U rnd question context sources keywords table_sets previous_source =
     (if sources = [] then None
      else
        let previous = (case previous_source of
              None \<Rightarrow> None | Some p \<Rightarrow> if p \<in> set sources then Some p else None);
            hits = keyword_hits U question
              (map (\<lambda>s. (s, case map_of keywords s of None \<Rightarrow> [] | Some ps \<Rightarrow> ps)) (dedup sources));
            scores = retrieval_scores rnd context table_sets sources;
            best_hits = Max (set (map snd hits));
            pool = (if 0 < best_hits then filter (\<lambda>s. value_at hits s = best_hits) sources
                    else sources)
        in if 0 < best_hits \<and> length pool = 1 then Some (finish sources hits scores (hd pool) Keyword)
           else (case (case previous of None \<Rightarrow> None | Some p \<Rightarrow> if p \<in> set pool then Some p else None) of
             Some p \<Rightarrow> Some (finish sources hits scores p Session)
           | None \<Rightarrow>
               let ls = leaders (value_at scores) pool
               in if 0 < Max (value_at scores ` set pool) \<and> length ls = 1
                  then Some (finish sources hits scores (hd ls) Retrieval)
                  else Some (finish sources hits scores (hd ls) Default)))"

text \<open>\<open>select_source_for_question\<close>: no selection with fewer than two configured sources.\<close>

definition select_source_for_question ::
    "unicode_db \<Rightarrow> rounding \<Rightarrow> deployment \<Rightarrow> (ustr, ustr list) odict \<Rightarrow> ustr \<Rightarrow> evidence \<Rightarrow> ustr option
     \<Rightarrow> source_selection option" where
  "select_source_for_question U rnd D keywords question context previous_source =
     (if length (datasource_names D) < 2 then None
      else select_source U rnd question context (datasource_names D) keywords
             (table_datasource_sets D) previous_source)"

section \<open>Why a source was chosen\<close>

declare selection_after_def [ev] audit_selection_def [ev] phrase_hits_def [ev] question_texts_def [ev]
  keyword_hits_def [ev] before_last_dot_def [ev] table_of_def [ev] add_point_def [ev] credit_def [ev]
  retrieval_scores_def [ev] value_at_def [ev] order_of_def [ev] ranked_def [ev] finish_def [ev]
  leaders_def [ev] select_source_def [ev] select_source_for_question_def [ev]

text \<open>How many keywords of a source the question contains.\<close>

definition source_hits :: "unicode_db \<Rightarrow> ustr \<Rightarrow> (ustr, ustr list) odict \<Rightarrow> ustr \<Rightarrow> nat" where
  "source_hits U question keywords s =
     length (filter (phrase_hits U (question_texts U question))
       (case map_of keywords s of None \<Rightarrow> [] | Some ps \<Rightarrow> ps))"

definition source_score ::
    "rounding \<Rightarrow> evidence \<Rightarrow> (ustr, ustr list) odict \<Rightarrow> ustr list \<Rightarrow> ustr \<Rightarrow> rat" where
  "source_score rnd context table_sets sources s =
     value_at (retrieval_scores rnd context table_sets sources) s"

lemma map_of_map_self: "map_of (map (\<lambda>s. (s, f s)) xs) s = (if s \<in> set xs then Some (f s) else None)"
  by (induction xs) auto

lemma keyword_hits_value:
  "s \<in> set sources \<Longrightarrow>
   value_at (keyword_hits U q (map (\<lambda>s. (s, case map_of keywords s of None \<Rightarrow> [] | Some ps \<Rightarrow> ps))
     (dedup sources))) s = source_hits U q keywords s"
  by (simp add: keyword_hits_def value_at_def source_hits_def comp_def map_of_map_self)

lemma keyword_hits_values:
  "set (map snd (keyword_hits U q (map (\<lambda>s. (s, case map_of keywords s of None \<Rightarrow> [] | Some ps \<Rightarrow> ps))
     (dedup sources)))) = source_hits U q keywords ` set sources"
  by (auto simp: keyword_hits_def source_hits_def)

lemma leaders_iff:
  "x \<in> set (leaders f xs) \<longleftrightarrow> x \<in> set xs \<and> (\<forall>y \<in> set xs. f y \<le> f x)"
proof
  assume "x \<in> set (leaders f xs)"
  then show "x \<in> set xs \<and> (\<forall>y \<in> set xs. f y \<le> f x)" by (auto simp: leaders_def)
next
  assume a: "x \<in> set xs \<and> (\<forall>y \<in> set xs. f y \<le> f x)"
  then have "Max (f ` set xs) = f x" by (intro Max_eqI) auto
  with a show "x \<in> set (leaders f xs)" by (simp add: leaders_def)
qed

lemma leaders_not_Nil: "xs \<noteq> [] \<Longrightarrow> leaders f xs \<noteq> []"
proof -
  assume "xs \<noteq> []"
  then have "Max (f ` set xs) \<in> f ` set xs" by (intro Max_in) auto
  then obtain x where "x \<in> set xs" "Max (f ` set xs) = f x" by auto
  then have "x \<in> set (leaders f xs)" by (auto simp: leaders_def)
  then show ?thesis by auto
qed

text \<open>The first element that satisfies a predicate comes before the others.\<close>

lemma hd_filter_first:
  "filter P xs \<noteq> [] \<Longrightarrow> y \<in> set xs \<Longrightarrow> P y \<Longrightarrow> rank xs (hd (filter P xs)) \<le> rank xs y"
  by (induction xs) auto

lemma filter_single: "filter P xs = [x] \<Longrightarrow> y \<in> set xs \<Longrightarrow> P y \<Longrightarrow> y = x"
proof -
  assume "filter P xs = [x]" "y \<in> set xs" "P y"
  from \<open>y \<in> set xs\<close> \<open>P y\<close> have "y \<in> set (filter P xs)" by simp
  then have "y \<in> set [x]" unfolding \<open>filter P xs = [x]\<close> .
  then show ?thesis by simp
qed

definition chosen_for_reason ::
    "(ustr \<Rightarrow> nat) \<Rightarrow> (ustr \<Rightarrow> rat) \<Rightarrow> ustr list \<Rightarrow> ustr option \<Rightarrow> ustr \<Rightarrow> selection_reason \<Rightarrow> bool" where
  "chosen_for_reason h r sources previous c reason =
     (c \<in> set sources \<and> list_all (\<lambda>s. h s \<le> h c) sources \<and>
      (case reason of
         Keyword \<Rightarrow> 0 < h c \<and> list_all (\<lambda>s. s = c \<or> h s < h c) sources
       | Session \<Rightarrow> previous = Some c
       | Retrieval \<Rightarrow> 0 < r c \<and> list_all (\<lambda>s. s = c \<or> h s < h c \<or> r s < r c) sources
       | Default \<Rightarrow> list_all (\<lambda>s. h s < h c \<or> r s < r c \<or> r s = r c \<and> rank sources c \<le> rank sources s) sources))"

text \<open>The choice over an abstract score and hit count.\<close>

definition choice ::
    "(ustr \<Rightarrow> nat) \<Rightarrow> (ustr \<Rightarrow> rat) \<Rightarrow> ustr list \<Rightarrow> ustr option \<Rightarrow> ustr \<times> selection_reason" where
  "choice h r sources previous =
     (let pool = (if 0 < Max (h ` set sources) then leaders h sources else sources)
      in if 0 < Max (h ` set sources) \<and> length pool = 1 then (hd pool, Keyword)
         else (case (case previous of None \<Rightarrow> None | Some p \<Rightarrow> if p \<in> set pool then Some p else None) of
             Some p \<Rightarrow> (p, Session)
           | None \<Rightarrow>
               if 0 < Max (r ` set pool) \<and> length (leaders r pool) = 1 then (hd (leaders r pool), Retrieval)
               else (hd (leaders r pool), Default)))"

lemma pool_eq_leaders:
  fixes h :: "ustr \<Rightarrow> nat"
  assumes "sources \<noteq> []"
  shows "(if 0 < Max (h ` set sources) then leaders h sources else sources) = leaders h sources"
proof (cases "0 < Max (h ` set sources)")
  case False
  then have "h s = 0" if "s \<in> set sources" for s
    using Max_ge [of "h ` set sources" "h s"] that by auto
  then show ?thesis using False by (auto simp: leaders_def filter_id_conv)
qed simp

lemma rank_filter_le:
  "x \<in> set (filter P xs) \<Longrightarrow> y \<in> set (filter P xs) \<Longrightarrow>
     rank (filter P xs) x \<le> rank (filter P xs) y \<Longrightarrow> rank xs x \<le> rank xs y"
  by (induction xs) (auto split: if_splits)

lemma choice_for_reason:
  assumes "sources \<noteq> []"
  shows "chosen_for_reason h r sources previous (fst (choice h r sources previous)) (snd (choice h r sources previous))"
proof -
  define pool where "pool = leaders h sources"
  have ne1: "pool \<noteq> []" unfolding pool_def by (rule leaders_not_Nil) (rule assms)
  then have ne: "pool \<noteq> []" "leaders r pool \<noteq> []" by (simp_all add: leaders_not_Nil)
  have inpool: "x \<in> set pool \<Longrightarrow> x \<in> set sources \<and> list_all (\<lambda>s. h s \<le> h x) sources" for x
    by (simp add: pool_def leaders_iff list_all_iff)
  have out: "y \<in> set pool \<or> h y < h x" if "x \<in> set pool" "y \<in> set sources" for x y
    using that by (force simp: pool_def leaders_iff not_less [symmetric])
  have hl: "hd (leaders r pool) \<in> set pool" "\<forall>y \<in> set pool. r y \<le> r (hd (leaders r pool))"
    using hd_in_set [OF ne(2)] by (simp_all add: leaders_iff)
  have *: "choice h r sources previous =
      (if 0 < Max (h ` set sources) \<and> length pool = 1 then (hd pool, Keyword)
       else (case (case previous of None \<Rightarrow> None | Some p \<Rightarrow> if p \<in> set pool then Some p else None) of
             Some p \<Rightarrow> (p, Session)
           | None \<Rightarrow>
               if 0 < Max (r ` set pool) \<and> length (leaders r pool) = 1 then (hd (leaders r pool), Retrieval)
               else (hd (leaders r pool), Default)))"
    unfolding choice_def pool_eq_leaders [OF assms] pool_def by (simp only: Let_def)
  consider (kw) "0 < Max (h ` set sources)" "length pool = 1" "choice h r sources previous = (hd pool, Keyword)"
    | (sess) p where "previous = Some p" "p \<in> set pool" "choice h r sources previous = (p, Session)"
    | (retr) "0 < Max (r ` set pool)" "length (leaders r pool) = 1"
        "choice h r sources previous = (hd (leaders r pool), Retrieval)"
    | (dflt) "choice h r sources previous = (hd (leaders r pool), Default)"
  proof (cases "0 < Max (h ` set sources) \<and> length pool = 1")
    case True
    with * show thesis by (intro kw) simp_all
  next
    case nk: False
    show thesis
    proof (cases "\<exists>p. previous = Some p \<and> p \<in> set pool")
      case True
      with nk * show thesis by (auto intro: sess)
    next
      case False
      then have e: "(case previous of None \<Rightarrow> None | Some p \<Rightarrow> if p \<in> set pool then Some p else None) = None"
        by (cases previous) auto
      show thesis
      proof (cases "0 < Max (r ` set pool) \<and> length (leaders r pool) = 1")
        case True
        with nk * e show thesis by (intro retr) simp_all
      next
        case False
        with nk * e show thesis by (intro dflt) simp
      qed
    qed
  qed
  then show ?thesis
  proof cases
    case kw
    then obtain x where x: "pool = [x]" by (cases pool) auto
    have "Max (h ` set sources) = h x"
      using inpool [of x] assms by (intro Max_eqI) (auto simp: x list_all_iff)
    with kw inpool [of x] out [of x] show ?thesis
      by (auto simp: chosen_for_reason_def x list_all_iff)
  next
    case sess
    then show ?thesis using inpool by (auto simp: chosen_for_reason_def list_all_iff)
  next
    case retr
    then obtain x where x: "leaders r pool = [x]" by (cases "leaders r pool") auto
    then have xp: "x \<in> set pool" "\<forall>y \<in> set pool. r y \<le> r x" using hl by simp_all
    have "Max (r ` set pool) = r x"
      using xp by (intro Max_eqI) auto
    moreover have "y = x \<or> r y < r x" if "y \<in> set pool" for y
      using filter_single [OF x [unfolded leaders_def] that] xp that calculation by force
    ultimately show ?thesis
      using retr inpool [OF xp(1)] out [OF xp(1)] by (force simp: chosen_for_reason_def x list_all_iff)
  next
    case dflt
    have "rank sources (hd (leaders r pool)) \<le> rank sources y"
      if "y \<in> set pool" "r y = r (hd (leaders r pool))" for y
    proof -
      have "y \<in> set (leaders r pool)" using hl that by (simp add: leaders_iff)
      then have "rank pool (hd (leaders r pool)) \<le> rank pool y"
        using hd_filter_first [of _ pool y] ne(2) by (auto simp: leaders_def)
      then show ?thesis
        using rank_filter_le [of "hd (leaders r pool)" _ sources y] hl(1) that(1)
        unfolding pool_def leaders_def by blast
    qed
    with dflt inpool [OF hl(1)] out [OF hl(1)] hl(2) show ?thesis
      by (force simp: chosen_for_reason_def list_all_iff)
  qed
qed


lemma select_source_choice:
  assumes "sources \<noteq> []"
  shows "select_source U rnd q ctx sources kws sets prev =
    Some (case choice (source_hits U q kws) (source_score rnd ctx sets sources) sources prev of
      (c, reason) \<Rightarrow> finish sources
        (keyword_hits U q (map (\<lambda>s. (s, case map_of kws s of None \<Rightarrow> [] | Some ps \<Rightarrow> ps)) (dedup sources)))
        (retrieval_scores rnd ctx sets sources) c reason)"
proof -
  define hits where "hits = keyword_hits U q
    (map (\<lambda>s. (s, case map_of kws s of None \<Rightarrow> [] | Some ps \<Rightarrow> ps)) (dedup sources))"
  define h where "h = source_hits U q kws"
  define r where "r = source_score rnd ctx sets sources"
  define scores where "scores = retrieval_scores rnd ctx sets sources"
  have H: "value_at hits s = h s" if "s \<in> set sources" for s
    unfolding hits_def h_def by (rule keyword_hits_value) (rule that)
  have M: "set (map snd hits) = h ` set sources"
    unfolding hits_def h_def by (rule keyword_hits_values)
  have R: "value_at scores = r"
    by (rule ext) (simp add: scores_def r_def source_score_def)
  have P: "filter (\<lambda>s. value_at hits s = Max (h ` set sources)) sources = leaders h sources"
    unfolding leaders_def by (rule filter_cong [OF refl]) (simp add: H)
  define prev' where "prev' = (case prev of None \<Rightarrow> None | Some p \<Rightarrow> if p \<in> set sources then Some p else None)"
  define pool where "pool = (if 0 < Max (h ` set sources) then leaders h sources else sources)"
  have sub: "set pool \<subseteq> set sources" by (auto simp: pool_def leaders_def)
  have pv: "(case prev' of None \<Rightarrow> None | Some p \<Rightarrow> if p \<in> set pool then Some p else None)
      = (case prev of None \<Rightarrow> None | Some p \<Rightarrow> if p \<in> set pool then Some p else None)"
    using sub by (auto simp: prev'_def split: option.split)
  have "select_source U rnd q ctx sources kws sets prev =
      (if 0 < Max (h ` set sources) \<and> length pool = 1 then Some (finish sources hits scores (hd pool) Keyword)
       else (case (case prev' of None \<Rightarrow> None | Some p \<Rightarrow> if p \<in> set pool then Some p else None) of
             Some p \<Rightarrow> Some (finish sources hits scores p Session)
           | None \<Rightarrow>
               if 0 < Max (r ` set pool) \<and> length (leaders r pool) = 1
               then Some (finish sources hits scores (hd (leaders r pool)) Retrieval)
               else Some (finish sources hits scores (hd (leaders r pool)) Default)))"
    unfolding select_source_def Let_def hits_def [symmetric] scores_def [symmetric] M R P
      pool_def [symmetric] prev'_def [symmetric] using assms by simp
  also have "\<dots> = Some (case choice h r sources prev of (c, reason) \<Rightarrow> finish sources hits scores c reason)"
    unfolding pv choice_def Let_def pool_def [symmetric] by (auto split: option.split)
  finally show ?thesis unfolding hits_def h_def r_def scores_def .
qed

text \<open>
  The source a question is routed to is a configured one with the most keyword hits, and the
  reason recorded for it is true: \<open>Keyword\<close> means strictly more hits than every other source,
  \<open>Session\<close> that it is the previous turn's source, \<open>Retrieval\<close> that its retrieval score is positive
  and strictly above that of every other source with as many hits, \<open>Default\<close> that it is the first
  in configuration order of those nothing tells apart. The candidates to fall back to are all
  configured sources, each once, the chosen one first.
\<close>

theorem select_source_decides:
  assumes "select_source U rnd q ctx sources kws sets prev = Some sel"
  shows "chosen_for_reason (source_hits U q kws) (source_score rnd ctx sets sources) sources prev
      (sel_chosen sel) (sel_reason sel)
    \<and> hd (sel_candidates sel) = sel_chosen sel \<and> set (sel_candidates sel) = set sources
    \<and> (distinct sources \<longrightarrow> distinct (sel_candidates sel))"
proof -
  have ne: "sources \<noteq> []" using assms by (auto simp: select_source_def)
  obtain c reason where c: "choice (source_hits U q kws) (source_score rnd ctx sets sources) sources prev = (c, reason)"
    by fastforce
  from choice_for_reason [OF ne, of "source_hits U q kws" "source_score rnd ctx sets sources" prev]
  have good: "chosen_for_reason (source_hits U q kws) (source_score rnd ctx sets sources) sources prev c reason"
    by (simp add: c)
  then have "c \<in> set sources" by (simp add: chosen_for_reason_def)
  moreover obtain hits scores where "sel = finish sources hits scores c reason"
    using assms unfolding select_source_choice [OF ne] c by auto
  ultimately show ?thesis using good by (auto simp: finish_def ranked_def)
qed

theorem select_source_decides_witness:
  "chosen_for_reason (source_hits ascii_db (u ''stock level'') [(u ''b'', [u ''stock''])])
     (source_score id \<lparr>ev_selected_tables = [], ev_resolved_values = []\<rparr> [] [u ''a'', u ''b'']) [u ''a'', u ''b''] None
     (u ''b'') Keyword
   \<and> hd [u ''b'', u ''a''] = u ''b'' \<and> set [u ''b'', u ''a''] = set [u ''a'', u ''b'']
   \<and> distinct [u ''b'', u ''a'']"
proof -
  have "question_texts ascii_db (u ''stock level'') = [u ''stock level'']"
    and "phrase_hits ascii_db [u ''stock level''] (u ''stock'')"
    by (simp_all add: ev Let_def)
  then have 1: "keyword_hits ascii_db (u ''stock level'') [(u ''a'', []), (u ''b'', [u ''stock''])]
      = [(u ''a'', 0), (u ''b'', 1)]"
    by (simp add: keyword_hits_def)
  have 2: "retrieval_scores id \<lparr>ev_selected_tables = [], ev_resolved_values = []\<rparr> [] [u ''a'', u ''b'']
      = [(u ''a'', 0), (u ''b'', 0)]"
    by (simp add: ev)
  have 3: "ranked [u ''a'', u ''b''] [(u ''a'', 0), (u ''b'', Suc 0)] [(u ''a'', 0), (u ''b'', 0)] [u ''a'', u ''b'']
      = [u ''b'', u ''a'']"
    by (simp add: ranked_def value_at_def order_of_def)
  have "select_source ascii_db id (u ''stock level'') \<lparr>ev_selected_tables = [], ev_resolved_values = []\<rparr>
      [u ''a'', u ''b''] [(u ''b'', [u ''stock''])] [] None
    = Some \<lparr>sel_chosen = u ''b'', sel_reason = Keyword, sel_candidates = [u ''b'', u ''a'']\<rparr>"
    by (simp add: select_source_def Let_def 1 2 3 finish_def value_at_def)
  from select_source_decides [OF this] show ?thesis by simp
qed

end
