(* ===== verification/Llm_Endpoints.thy ===== *)
theory Llm_Endpoints
  imports Auth
begin

text \<open>
  The language-model endpoints of a deployment: \<open>llm/trust.py\<close>, \<open>llm/endpoints.py\<close> and the
  record of recently used prompt prefixes of \<open>llm/prefix_activity.py\<close>. Parameters: \<open>loads\<close> (the
  tree \<open>json.loads\<close> reads), \<open>url_host\<close> (\<open>urlparse(url).hostname\<close>, \<open>None\<close> where it raises) and
  \<open>ip_flags\<close> (\<open>ipaddress.ip_address\<close>: whether the address is loopback, whether it is private, or
  \<open>None\<close> for a text that is no address).
\<close>

section \<open>Trust by address\<close>

record address_rules =
  url_host :: "ustr \<Rightarrow> ustr option"
  ip_flags :: "ustr \<Rightarrow> (bool \<times> bool) option"

definition default_trust_for_url :: "address_rules \<Rightarrow> ustr \<Rightarrow> bool" where
  "default_trust_for_url A base_url =
     (case url_host A base_url of
        None \<Rightarrow> False
      | Some host \<Rightarrow>
          if host = [] then False
          else if host = u ''localhost'' \<or> endswith host (u ''.local'') then True
          else (case ip_flags A host of None \<Rightarrow> False | Some (loopback, private) \<Rightarrow> loopback \<or> private))"

section \<open>Endpoints and routes\<close>

text \<open>\<open>bool(value)\<close> of a JSON value, and the value as a dictionary key (\<open>True\<close> equals 1).\<close>

fun truthy :: "json \<Rightarrow> bool" where
  "truthy J_null = False"
| "truthy (J_bool b) = b"
| "truthy (J_num x) = (x \<noteq> 0)"
| "truthy (J_str s) = (s \<noteq> [])"
| "truthy (J_list js) = (js \<noteq> [])"
| "truthy (J_obj fs) = (fs \<noteq> [])"

fun dict_key :: "json \<Rightarrow> json option" where
  "dict_key (J_bool b) = Some (J_num (if b then 1 else 0))"
| "dict_key (J_list js) = None"
| "dict_key (J_obj fs) = None"
| "dict_key j = Some j"

record endpoint_config =
  ec_name :: json
  ec_base_url :: json
  ec_model :: json
  ec_api_key :: json
  ec_trusted :: json

record llm_settings =
  ls_base_url :: ustr
  ls_model :: ustr
  ls_api_key :: ustr
  ls_trusted :: "bool option"
  ls_endpoints_json :: ustr
  ls_routes_json :: ustr
  ls_provider :: ustr
  ls_allow_remote :: bool
  ls_task_budget :: "rat option"

datatype endpoint_error =
    Endpoints_not_json
  | Endpoints_not_a_list
  | Endpoint_missing_key json
  | Unhashable_name json
  | Routes_not_json
  | Routes_not_an_object
  | Routes_not_iterable ustr
  | Unknown_endpoint ustr json
  | Base_url_not_text json
  | Unsupported_provider ustr

definition default_endpoint_name :: ustr where "default_endpoint_name = u ''default''"

definition task_names :: "ustr list" where
  "task_names = [u ''sql_generation'', u ''interpretation'', u ''assumption_extraction'']"

definition default_endpoint :: "llm_settings \<Rightarrow> endpoint_config" where
  "default_endpoint S =
     \<lparr>ec_name = J_str default_endpoint_name, ec_base_url = J_str (ls_base_url S),
      ec_model = J_str (ls_model S), ec_api_key = J_str (ls_api_key S),
      ec_trusted = (case ls_trusted S of None \<Rightarrow> J_null | Some b \<Rightarrow> J_bool b)\<rparr>"

text \<open>A field of a JSON object: of a repeated field the last value counts.\<close>

definition field :: "(ustr \<times> json) list \<Rightarrow> string \<Rightarrow> json option" where
  "field fs k = map_of (rev fs) (u k)"

definition read_endpoint :: "json \<Rightarrow> endpoint_error + json \<times> endpoint_config" where
  "read_endpoint item =
     (case item of
        J_obj fs \<Rightarrow>
          (case (field fs ''name'', field fs ''base_url'', field fs ''model'') of
             (Some name, Some base_url, Some model) \<Rightarrow>
               (case dict_key name of
                  None \<Rightarrow> Inl (Unhashable_name name)
                | Some key \<Rightarrow> Inr (key,
                    \<lparr>ec_name = name, ec_base_url = base_url, ec_model = model,
                     ec_api_key = (case field fs ''api_key'' of None \<Rightarrow> J_str [] | Some v \<Rightarrow> v),
                     ec_trusted = (case field fs ''trusted'' of None \<Rightarrow> J_null | Some v \<Rightarrow> v)\<rparr>))
           | _ \<Rightarrow> Inl (Endpoint_missing_key item))
      | _ \<Rightarrow> Inl (Endpoint_missing_key item))"

fun read_endpoints ::
    "json list \<Rightarrow> (json, endpoint_config) odict \<Rightarrow> endpoint_error + (json, endpoint_config) odict" where
  "read_endpoints [] endpoints = Inr endpoints"
| "read_endpoints (item # items) endpoints =
     (case read_endpoint item of
        Inl e \<Rightarrow> Inl e
      | Inr (key, ec) \<Rightarrow> read_endpoints items (AList.update key ec endpoints))"

definition load_endpoints ::
    "(ustr \<Rightarrow> json option) \<Rightarrow> llm_settings \<Rightarrow> endpoint_error + (json, endpoint_config) odict" where
  "load_endpoints loads S =
     (let endpoints = [(J_str default_endpoint_name, default_endpoint S)];
          raw = strip (ls_endpoints_json S)
      in if raw = [] then Inr endpoints
         else (case loads raw of
                 None \<Rightarrow> Inl Endpoints_not_json
               | Some (J_list items) \<Rightarrow> read_endpoints items endpoints
               | Some _ \<Rightarrow> Inl Endpoints_not_a_list))"

text \<open>\<open>list(names)\<close>: the elements of a list, the characters of a text, the keys of an object.\<close>

fun iterate :: "json \<Rightarrow> json list option" where
  "iterate (J_list js) = Some js"
| "iterate (J_str s) = Some (map (\<lambda>c. J_str [c]) s)"
| "iterate (J_obj fs) = Some (map J_str (dedup (map fst fs)))"
| "iterate _ = None"

fun read_routes ::
    "(ustr \<times> json) list \<Rightarrow> (ustr, json list) odict \<Rightarrow> endpoint_error + (ustr, json list) odict" where
  "read_routes [] routes = Inr routes"
| "read_routes ((task, names) # fs) routes =
     (case iterate names of
        None \<Rightarrow> Inl (Routes_not_iterable task)
      | Some ns \<Rightarrow> read_routes fs (AList.update task ns routes))"

definition load_routes ::
    "(ustr \<Rightarrow> json option) \<Rightarrow> llm_settings \<Rightarrow> endpoint_error + (ustr, json list) odict" where
  "load_routes loads S =
     (let routes = map (\<lambda>t. (t, [J_str default_endpoint_name])) task_names;
          raw = strip (ls_routes_json S)
      in if raw = [] then Inr routes
         else (case loads raw of
                 None \<Rightarrow> Inl Routes_not_json
               | Some (J_obj fs) \<Rightarrow> read_routes (filter (\<lambda>(k, v). map_of (rev fs) k = Some v) fs) routes
               | Some _ \<Rightarrow> Inl Routes_not_an_object))"

section \<open>Recently used prefixes\<close>

text \<open>The key of a prefix is its length and its hash; the times are those of one monotonic clock.\<close>

record prefix_activity =
  pa_max_entries :: nat
  pa_last :: "(int \<times> int, rat) odict"

definition prefix_key :: "(ustr \<Rightarrow> int) \<Rightarrow> ustr \<Rightarrow> int \<times> int" where
  "prefix_key hash prefix = (int (length prefix), hash prefix)"

definition note_use :: "(ustr \<Rightarrow> int) \<Rightarrow> rat \<Rightarrow> ustr \<Rightarrow> prefix_activity \<Rightarrow> prefix_activity" where
  "note_use hash now prefix act =
     (if prefix = [] then act
      else (let last = od_touch (prefix_key hash prefix) (AList.update (prefix_key hash prefix) now (pa_last act));
                surplus = length last - pa_max_entries act
            in act\<lparr>pa_last := (od_pop ^^ surplus) last\<rparr>))"

definition seconds_since_use :: "(ustr \<Rightarrow> int) \<Rightarrow> rat \<Rightarrow> ustr \<Rightarrow> prefix_activity \<Rightarrow> rat option" where
  "seconds_since_use hash now prefix act =
     (if prefix = [] then None
      else map_option (\<lambda>last. max (now - last) 0) (map_of (pa_last act) (prefix_key hash prefix)))"

end
