(* ===== verification/Llm_Router.thy ===== *)
theory Llm_Router
  imports Llm_Endpoints
begin

text \<open>
  \<open>llm/router.py\<close>: prompt segments, the governance gate for untrusted backends and the fallback
  chain. A backend is what its transport does: a request and the state of the outside world
  (\<open>'w\<close>) give a reply or an exception, the seconds the call took, and the next world. The state
  of the router is the world, the calls sent so far (a ghost trace), the remote uses written to
  the audit trail and the record of recently used prefixes.
\<close>

section \<open>Prompts\<close>

record prompt_segments =
  static_prefix :: ustr
  session_context :: ustr
  question :: ustr

definition flatten :: "prompt_segments \<Rightarrow> ustr" where
  "flatten segs =
     join [10, 10] (filter (\<lambda>p. p \<noteq> []) [static_prefix segs, session_context segs, question segs])"

section \<open>Exceptions\<close>

text \<open>
  The exceptions the program distinguishes; \<open>Policy_rejection\<close> and \<open>Correctable_rejection\<close> are
  subclasses of \<open>ValueError\<close>, \<open>Remote_not_allowed\<close>, \<open>Chain_exhausted\<close> and \<open>No_backend\<close> are
  \<open>RuntimeError\<close>s. \<open>Chain_exhausted\<close> carries its cause.
\<close>

datatype py_error =
    Value_error ustr
  | Policy_rejection ustr
  | Correctable_rejection ustr
  | Runtime_error ustr
  | Remote_not_allowed ustr ustr
  | Chain_exhausted ustr "py_error option"
  | No_backend ustr
  | Latency_exceeded ustr
  | Other_error ustr

fun is_value_error :: "py_error \<Rightarrow> bool" where
  "is_value_error (Value_error m) = True"
| "is_value_error (Policy_rejection m) = True"
| "is_value_error (Correctable_rejection m) = True"
| "is_value_error _ = False"

fun is_runtime_error :: "py_error \<Rightarrow> bool" where
  "is_runtime_error (Runtime_error m) = True"
| "is_runtime_error (Remote_not_allowed t b) = True"
| "is_runtime_error (Chain_exhausted t e) = True"
| "is_runtime_error (No_backend t) = True"
| "is_runtime_error _ = False"

definition out_of_scope_sentinel :: ustr where "out_of_scope_sentinel = u ''OUT_OF_SCOPE''"

fun is_out_of_scope :: "py_error \<Rightarrow> bool" where
  "is_out_of_scope (Value_error m) = (m = out_of_scope_sentinel)"
| "is_out_of_scope (Policy_rejection m) = (m = out_of_scope_sentinel)"
| "is_out_of_scope (Correctable_rejection m) = (m = out_of_scope_sentinel)"
| "is_out_of_scope _ = False"

text \<open>\<open>exc.__cause__ or exc\<close>.\<close>

fun unwrap :: "py_error \<Rightarrow> py_error" where
  "unwrap (Chain_exhausted t (Some e)) = e"
| "unwrap e = e"

section \<open>Backends and the state of the router\<close>

datatype llm_request =
    Ask_segments prompt_segments
  | Ask_text ustr
  | Ask_structured prompt_segments json

record llm_reply =
  lr_text :: "ustr option"
  lr_structured :: "json option"
  lr_meta :: "(ustr, json) odict"

record 'w backend =
  be_name :: ustr
  be_endpoint :: json
  be_trusted :: json
  be_call :: "llm_request \<Rightarrow> 'w \<Rightarrow> (py_error + llm_reply) \<times> rat \<times> 'w"
  be_warm :: "(ustr \<Rightarrow> rat option \<Rightarrow> 'w \<Rightarrow> (py_error + (ustr, json) odict) \<times> 'w) option"

record 'w llm_env =
  le_allow_remote :: bool
  le_hash :: "ustr \<Rightarrow> int"
  le_clock :: "'w \<Rightarrow> rat"

record 'w router =
  ro_chains :: "(ustr, 'w backend list) odict"
  ro_default_chain :: "'w backend list"
  ro_budgets :: "(ustr, rat) odict"

record 'w llm_state =
  world :: 'w
  sent :: "(ustr \<times> llm_request) list"
  audited :: "(ustr \<times> ustr \<times> nat) list"
  activity :: prefix_activity

definition is_trusted_backend :: "'w backend \<Rightarrow> bool" where
  "is_trusted_backend b = truthy (be_trusted b)"

definition chain_for :: "'w router \<Rightarrow> ustr \<Rightarrow> py_error + 'w backend list" where
  "chain_for R task =
     (let chain = (case map_of (ro_chains R) task of
                     None \<Rightarrow> ro_default_chain R
                   | Some c \<Rightarrow> if c = [] then ro_default_chain R else c)
      in if chain = [] then Inl (No_backend task) else Inr chain)"

text \<open>
  The audit record of a remote use holds the task, the backend and the length of the prompt; a
  failure to write it is ignored by the source.
\<close>

definition governance_check ::
    "'w llm_env \<Rightarrow> 'w backend \<Rightarrow> ustr \<Rightarrow> prompt_segments \<Rightarrow> 'w llm_state \<Rightarrow> py_error + 'w llm_state" where
  "governance_check E b task segs s =
     (if is_trusted_backend b then Inr s
      else if \<not> le_allow_remote E then Inl (Remote_not_allowed task (be_name b))
      else Inr (s\<lparr>audited := audited s @ [(task, be_name b, length (flatten segs))]\<rparr>))"

definition note_prefix_use :: "'w llm_env \<Rightarrow> nat \<Rightarrow> prompt_segments \<Rightarrow> 'w llm_state \<Rightarrow> 'w llm_state" where
  "note_prefix_use E index segs s =
     (if index = 0 \<and> static_prefix segs \<noteq> []
      then s\<lparr>activity := note_use (le_hash E) (le_clock E (world s)) (static_prefix segs) (activity s)\<rparr>
      else s)"

definition send :: "'w backend \<Rightarrow> llm_request \<Rightarrow> 'w llm_state \<Rightarrow> (py_error + llm_reply) \<times> rat \<times> 'w llm_state" where
  "send b req s =
     (case be_call b req (world s) of
        (r, elapsed, w) \<Rightarrow> (r, elapsed, s\<lparr>world := w, sent := sent s @ [(be_name b, req)]\<rparr>))"

section \<open>The fallback chain\<close>

record 'w served =
  sv_reply :: llm_reply
  sv_backend :: "'w backend"
  sv_fallback :: bool

fun try_chain ::
    "'w llm_env \<Rightarrow> rat option \<Rightarrow> ustr \<Rightarrow> prompt_segments \<Rightarrow> llm_request \<Rightarrow> nat \<Rightarrow> py_error option
     \<Rightarrow> 'w backend list \<Rightarrow> 'w llm_state \<Rightarrow> (py_error + 'w served) \<times> 'w llm_state" where
  "try_chain E budget task segs req index last_exc [] s = (Inl (Chain_exhausted task last_exc), s)"
| "try_chain E budget task segs req index last_exc (b # bs) s =
     (case governance_check E b task segs s of
        Inl e \<Rightarrow> (Inl e, s)
      | Inr s1 \<Rightarrow>
          (case send b req s1 of
             (Inl e, elapsed, s2) \<Rightarrow>
               if is_out_of_scope e then (Inl e, note_prefix_use E index segs s2)
               else try_chain E budget task segs req (Suc index) (Some e) bs s2
           | (Inr reply, elapsed, s2) \<Rightarrow>
               if (case budget of None \<Rightarrow> False | Some limit \<Rightarrow> limit < elapsed)
               then try_chain E budget task segs req (Suc index) (Some (Latency_exceeded (be_name b))) bs s2
               else (Inr \<lparr>sv_reply = reply, sv_backend = b, sv_fallback = 0 < index\<rparr>,
                     note_prefix_use E index segs s2)))"

definition call_chain ::
    "'w llm_env \<Rightarrow> 'w router \<Rightarrow> ustr \<Rightarrow> prompt_segments \<Rightarrow> llm_request \<Rightarrow> 'w llm_state
     \<Rightarrow> (py_error + 'w served) \<times> 'w llm_state" where
  "call_chain E R task segs req s =
     (case chain_for R task of
        Inl e \<Rightarrow> (Inl e, s)
      | Inr chain \<Rightarrow> try_chain E (map_of (ro_budgets R) task) task segs req 0 None chain s)"

record route_result =
  rr_text :: "ustr option"
  rr_structured :: "json option"
  rr_meta :: "(ustr, json) odict"
  rr_provider :: ustr
  rr_fallback_used :: bool

definition finalize_meta :: "(ustr, json) odict \<Rightarrow> 'w backend \<Rightarrow> bool \<Rightarrow> (ustr, json) odict" where
  "finalize_meta meta b fallback_used =
     AList.update (u ''trusted'') (be_trusted b)
       (AList.update (u ''endpoint'') (be_endpoint b)
         (AList.update (u ''fallback_used'') (J_bool fallback_used)
           (AList.update (u ''provider'') (J_str (be_name b)) meta)))"

definition generate_for_task ::
    "'w llm_env \<Rightarrow> 'w router \<Rightarrow> ustr \<Rightarrow> prompt_segments \<Rightarrow> 'w llm_state
     \<Rightarrow> (py_error + route_result) \<times> 'w llm_state" where
  "generate_for_task E R task segs s =
     (case call_chain E R task segs (Ask_segments segs) s of
        (Inl e, s') \<Rightarrow> (Inl e, s')
      | (Inr v, s') \<Rightarrow> (Inr \<lparr>rr_text = lr_text (sv_reply v), rr_structured = None,
            rr_meta = finalize_meta (lr_meta (sv_reply v)) (sv_backend v) (sv_fallback v),
            rr_provider = be_name (sv_backend v), rr_fallback_used = sv_fallback v\<rparr>, s'))"

definition generate_text_for_task ::
    "'w llm_env \<Rightarrow> 'w router \<Rightarrow> ustr \<Rightarrow> ustr \<Rightarrow> 'w llm_state \<Rightarrow> (py_error + route_result) \<times> 'w llm_state" where
  "generate_text_for_task E R task prompt s =
     (case call_chain E R task \<lparr>static_prefix = [], session_context = [], question = prompt\<rparr> (Ask_text prompt) s of
        (Inl e, s') \<Rightarrow> (Inl e, s')
      | (Inr v, s') \<Rightarrow> (Inr \<lparr>rr_text = lr_text (sv_reply v), rr_structured = None,
            rr_meta = finalize_meta [] (sv_backend v) (sv_fallback v),
            rr_provider = be_name (sv_backend v), rr_fallback_used = sv_fallback v\<rparr>, s'))"

definition generate_structured_for_task ::
    "'w llm_env \<Rightarrow> 'w router \<Rightarrow> ustr \<Rightarrow> prompt_segments \<Rightarrow> json \<Rightarrow> 'w llm_state
     \<Rightarrow> (py_error + route_result) \<times> 'w llm_state" where
  "generate_structured_for_task E R task segs schema s =
     (case call_chain E R task segs (Ask_structured segs schema) s of
        (Inl e, s') \<Rightarrow> (Inl e, s')
      | (Inr v, s') \<Rightarrow> (Inr \<lparr>rr_text = None, rr_structured = lr_structured (sv_reply v),
            rr_meta = finalize_meta (lr_meta (sv_reply v)) (sv_backend v) (sv_fallback v),
            rr_provider = be_name (sv_backend v), rr_fallback_used = sv_fallback v\<rparr>, s'))"

text \<open>A backend without a prefix cache raises \<open>NotImplementedError\<close>.\<close>

definition warm_prefix ::
    "'w llm_env \<Rightarrow> 'w router \<Rightarrow> ustr \<Rightarrow> prompt_segments \<Rightarrow> rat option \<Rightarrow> 'w llm_state
     \<Rightarrow> (py_error + (ustr, json) odict) \<times> 'w llm_state" where
  "warm_prefix E R task segs timeout s =
     (case chain_for R task of
        Inl e \<Rightarrow> (Inl e, s)
      | Inr chain \<Rightarrow>
          (case governance_check E (hd chain) task segs s of
             Inl e \<Rightarrow> (Inl e, s)
           | Inr s1 \<Rightarrow>
               (case be_warm (hd chain) of
                  None \<Rightarrow> (Inl (Other_error (u ''NotImplementedError'')), s1)
                | Some warm \<Rightarrow>
                    (case warm (flatten segs) timeout (world s1) of
                       (r, w) \<Rightarrow>
                         (map_sum id (AList.update (u ''provider'') (J_str (be_name (hd chain)))) r,
                          s1\<lparr>world := w, sent := sent s1 @ [(be_name (hd chain), Ask_text (flatten segs))]\<rparr>)))))"

section \<open>The router of a deployment\<close>

text \<open>
  The transport behind an endpoint is a parameter; its trust is the endpoint's own value, and the
  address decides only when that is missing. \<open>rstrip(''/'')\<close> needs a text.
\<close>

definition rstrip_slash :: "ustr \<Rightarrow> ustr" where
  "rstrip_slash s = rev (dropWhile (\<lambda>c. c = 47) (rev s))"

definition model_name :: "(json \<Rightarrow> ustr) \<Rightarrow> endpoint_config \<Rightarrow> ustr" where
  "model_name show_json ec = u ''openai:'' @ show_json (ec_model ec)"

definition build_backend ::
    "address_rules \<Rightarrow> (json \<Rightarrow> ustr)
     \<Rightarrow> (endpoint_config \<Rightarrow> llm_request \<Rightarrow> 'w \<Rightarrow> (py_error + llm_reply) \<times> rat \<times> 'w)
     \<Rightarrow> (endpoint_config \<Rightarrow> (ustr \<Rightarrow> rat option \<Rightarrow> 'w \<Rightarrow> (py_error + (ustr, json) odict) \<times> 'w) option)
     \<Rightarrow> endpoint_config \<Rightarrow> endpoint_error + 'w backend" where
  "build_backend A show_json transport warm ec =
     (case ec_base_url ec of
        J_str base \<Rightarrow>
          Inr \<lparr>be_name = model_name show_json ec, be_endpoint = J_str (rstrip_slash base),
               be_trusted = (if ec_trusted ec \<noteq> J_null then ec_trusted ec
                             else J_bool (default_trust_for_url A (rstrip_slash base))),
               be_call = transport ec, be_warm = warm ec\<rparr>
      | j \<Rightarrow> Inl (Base_url_not_text j))"

fun build_chain ::
    "(endpoint_config \<Rightarrow> endpoint_error + 'w backend) \<Rightarrow> (json, endpoint_config) odict \<Rightarrow> ustr \<Rightarrow> json list
     \<Rightarrow> endpoint_error + 'w backend list" where
  "build_chain build endpoints task [] = Inr []"
| "build_chain build endpoints task (name # names) =
     (case dict_key name of
        None \<Rightarrow> Inl (Unhashable_name name)
      | Some key \<Rightarrow>
          (case map_of endpoints key of
             None \<Rightarrow> Inl (Unknown_endpoint task name)
           | Some ec \<Rightarrow>
               (case build ec of
                  Inl e \<Rightarrow> Inl e
                | Inr b \<Rightarrow> map_sum id (\<lambda>bs. b # bs) (build_chain build endpoints task names))))"

fun build_chains ::
    "(endpoint_config \<Rightarrow> endpoint_error + 'w backend) \<Rightarrow> (json, endpoint_config) odict
     \<Rightarrow> (ustr, json list) odict \<Rightarrow> ustr list \<Rightarrow> endpoint_error + (ustr, 'w backend list) odict" where
  "build_chains build endpoints routes [] = Inr []"
| "build_chains build endpoints routes (task # tasks) =
     (case build_chain build endpoints task
             (case map_of routes task of None \<Rightarrow> [J_str default_endpoint_name] | Some ns \<Rightarrow> ns) of
        Inl e \<Rightarrow> Inl e
      | Inr chain \<Rightarrow> map_sum id (\<lambda>m. (task, chain) # m) (build_chains build endpoints routes tasks))"

definition from_settings ::
    "unicode_db \<Rightarrow> (ustr \<Rightarrow> json option) \<Rightarrow> (endpoint_config \<Rightarrow> endpoint_error + 'w backend) \<Rightarrow> 'w backend
     \<Rightarrow> llm_settings \<Rightarrow> endpoint_error + 'w router" where
  "from_settings U loads build mock S =
     (let provider = lower U (strip (ls_provider S));
          budgets = (case ls_task_budget S of None \<Rightarrow> [] | Some b \<Rightarrow> map (\<lambda>t. (t, b)) task_names)
      in if provider = u ''mock''
         then Inr \<lparr>ro_chains = [], ro_default_chain = [mock], ro_budgets = budgets\<rparr>
         else if provider \<noteq> u ''openai'' then Inl (Unsupported_provider (ls_provider S))
         else (case load_endpoints loads S of
                 Inl e \<Rightarrow> Inl e
               | Inr endpoints \<Rightarrow>
                   (case load_routes loads S of
                      Inl e \<Rightarrow> Inl e
                    | Inr routes \<Rightarrow>
                        map_sum id (\<lambda>chains. \<lparr>ro_chains = chains, ro_default_chain = [], ro_budgets = budgets\<rparr>)
                          (build_chains build endpoints routes task_names))))"

section \<open>What the chain does\<close>

declare flatten_def [ev] is_trusted_backend_def [ev] chain_for_def [ev] governance_check_def [ev]
  note_prefix_use_def [ev] send_def [ev] call_chain_def [ev] generate_for_task_def [ev]
  finalize_meta_def [ev] out_of_scope_sentinel_def [ev] note_use_def [ev] prefix_key_def [ev]

lemma note_prefix_use_simps [simp]:
  "sent (note_prefix_use E i segs s) = sent s" "audited (note_prefix_use E i segs s) = audited s"
  "world (note_prefix_use E i segs s) = world s"
  by (simp_all add: note_prefix_use_def)

lemma send_simps:
  "send b req s = (r, t, s') \<Longrightarrow> sent s' = sent s @ [(be_name b, req)] \<and> audited s' = audited s"
  by (auto simp: send_def split: prod.splits)

lemma governance_check_InlD:
  "governance_check E b task segs s = Inl e \<Longrightarrow>
     e = Remote_not_allowed task (be_name b) \<and> \<not> is_trusted_backend b \<and> \<not> le_allow_remote E"
  by (auto simp: governance_check_def split: if_splits)

lemma governance_check_InrD:
  "governance_check E b task segs s = Inr s' \<Longrightarrow>
     (is_trusted_backend b \<or> le_allow_remote E) \<and> sent s' = sent s
     \<and> audited s' = audited s
        @ (if is_trusted_backend b then [] else [(task, be_name b, length (flatten segs))])"
  by (auto simp: governance_check_def split: if_splits)

text \<open>The backends called are \<open>pre\<close>, the ones not reached are \<open>post\<close>.\<close>

definition chain_outcome ::
    "'w llm_env \<Rightarrow> ustr \<Rightarrow> 'w backend list \<Rightarrow> 'w backend list \<Rightarrow> py_error + 'w served \<Rightarrow> bool" where
  "chain_outcome E task pre post r =
     (case r of
        Inr v \<Rightarrow> pre \<noteq> [] \<and> sv_backend v = last pre
      | Inl e \<Rightarrow>
          is_out_of_scope e \<and> pre \<noteq> []
          \<or> post = [] \<and> (\<exists>cause. e = Chain_exhausted task cause)
          \<or> post \<noteq> [] \<and> e = Remote_not_allowed task (be_name (hd post))
              \<and> \<not> is_trusted_backend (hd post) \<and> \<not> le_allow_remote E)"

lemma chain_outcome_Cons: "chain_outcome E task pre post r \<Longrightarrow> chain_outcome E task (b # pre) post r"
  by (auto simp: chain_outcome_def split: sum.splits)

definition call_trace ::
    "'w llm_env \<Rightarrow> ustr \<Rightarrow> prompt_segments \<Rightarrow> llm_request \<Rightarrow> 'w backend list \<Rightarrow> 'w llm_state \<Rightarrow> 'w llm_state \<Rightarrow> bool" where
  "call_trace E task segs req pre s s' \<longleftrightarrow>
     sent s' = sent s @ map (\<lambda>b. (be_name b, req)) pre
     \<and> list_all (\<lambda>b. is_trusted_backend b \<or> le_allow_remote E) pre
     \<and> audited s' = audited s
         @ map (\<lambda>b. (task, be_name b, length (flatten segs))) (filter (\<lambda>b. \<not> is_trusted_backend b) pre)"

lemma call_trace_Nil: "call_trace E task segs req [] s s"
  by (simp add: call_trace_def)

lemma call_trace_Cons:
  assumes "governance_check E b task segs s = Inr s1" "send b req s1 = (r, t, s2)"
    and "call_trace E task segs req pre s2 s'"
  shows "call_trace E task segs req (b # pre) s s'"
  using governance_check_InrD [OF assms(1)] send_simps [OF assms(2)] assms(3)
  by (simp add: call_trace_def)

lemma call_trace_note: "call_trace E task segs req pre s (note_prefix_use E i segs' s') = call_trace E task segs req pre s s'"
  by (simp add: call_trace_def)

lemma try_chain_trace:
  "try_chain E budget task segs req i last_exc chain s = (r, s') \<Longrightarrow>
     \<exists>pre post. chain = pre @ post \<and> call_trace E task segs req pre s s' \<and> chain_outcome E task pre post r
       \<and> (\<forall>v. r = Inr v \<longrightarrow> sv_fallback v = (0 < i \<or> 1 < length pre))"
proof (induction E budget task segs req i last_exc chain s rule: try_chain.induct)
  case (1 E budget task segs req i last_exc s)
  then have "r = Inl (Chain_exhausted task last_exc)" "s' = s" by simp_all
  then have "[] = [] @ [] \<and> call_trace E task segs req [] s s' \<and> chain_outcome E task [] [] r
      \<and> (\<forall>v. r = Inr v \<longrightarrow> sv_fallback v = (0 < i \<or> 1 < length ([] :: 'a backend list)))"
    by (simp add: call_trace_Nil chain_outcome_def)
  then show ?case by (intro exI)
next
  case (2 E budget task segs req i last_exc b bs s)
  show ?case
  proof (cases "governance_check E b task segs s")
    case (Inl e)
    then have "r = Inl e" "s' = s" using "2.prems" by simp_all
    with governance_check_InlD [OF Inl]
    have "b # bs = [] @ (b # bs) \<and> call_trace E task segs req [] s s' \<and> chain_outcome E task [] (b # bs) r
        \<and> (\<forall>v. r = Inr v \<longrightarrow> sv_fallback v = (0 < i \<or> 1 < length ([] :: 'a backend list)))"
      by (simp add: call_trace_Nil chain_outcome_def)
    then show ?thesis by (intro exI)
  next
    case (Inr s1)
    obtain r1 t s2 where snd: "send b req s1 = (r1, t, s2)" by (cases "send b req s1")
    have one: ?thesis if "call_trace E task segs req [] s2 s'" "chain_outcome E task [b] bs r"
      "\<forall>v. r = Inr v \<longrightarrow> sv_fallback v = (0 < i)"
    proof -
      have "b # bs = [b] @ bs \<and> call_trace E task segs req [b] s s' \<and> chain_outcome E task [b] bs r
          \<and> (\<forall>v. r = Inr v \<longrightarrow> sv_fallback v = (0 < i \<or> 1 < length [b]))"
        using that call_trace_Cons [OF Inr snd] by simp
      then show ?thesis by (intro exI)
    qed
    have more: ?thesis if "\<exists>pre post. bs = pre @ post \<and> call_trace E task segs req pre s2 s'
        \<and> chain_outcome E task pre post r \<and> (\<forall>v. r = Inr v \<longrightarrow> sv_fallback v = (0 < Suc i \<or> 1 < length pre))"
    proof -
      from that obtain pre post where p: "bs = pre @ post" "call_trace E task segs req pre s2 s'"
        "chain_outcome E task pre post r" "\<forall>v. r = Inr v \<longrightarrow> sv_fallback v"
        by auto
      have "pre \<noteq> []" if "r = Inr v" for v using p(3) that by (auto simp: chain_outcome_def)
      with p have "b # bs = (b # pre) @ post \<and> call_trace E task segs req (b # pre) s s'
          \<and> chain_outcome E task (b # pre) post r
          \<and> (\<forall>v. r = Inr v \<longrightarrow> sv_fallback v = (0 < i \<or> 1 < length (b # pre)))"
        using call_trace_Cons [OF Inr snd] chain_outcome_Cons by fastforce
      then show ?thesis by (intro exI)
    qed
    show ?thesis
    proof (cases r1)
      case (Inl e)
      show ?thesis
      proof (cases "is_out_of_scope e")
        case True
        then have "r = Inl e" "s' = note_prefix_use E i segs s2"
          using "2.prems" Inr Inl snd by simp_all
        with True show ?thesis
          by (intro one) (simp_all add: call_trace_note call_trace_Nil chain_outcome_def)
      next
        case False
        with "2.prems" Inr Inl snd
        have "try_chain E budget task segs req (Suc i) (Some e) bs s2 = (r, s')" by simp
        with "2.IH"(1) [OF Inr snd [symmetric] Inl refl False] show ?thesis by (intro more) blast
      qed
    next
      case reply: (Inr reply)
      show ?thesis
      proof (cases "case budget of None \<Rightarrow> False | Some limit \<Rightarrow> limit < t")
        case True
        with "2.prems" Inr reply snd
        have "try_chain E budget task segs req (Suc i) (Some (Latency_exceeded (be_name b))) bs s2 = (r, s')"
          by simp
        with "2.IH"(2) [OF Inr snd [symmetric] reply refl True] show ?thesis by (intro more) blast
      next
        case False
        with "2.prems" Inr reply snd
        have "r = Inr \<lparr>sv_reply = reply, sv_backend = b, sv_fallback = 0 < i\<rparr>"
          "s' = note_prefix_use E i segs s2" by simp_all
        then show ?thesis
          by (intro one) (simp_all add: call_trace_note call_trace_Nil chain_outcome_def)
      qed
    qed
  qed
qed


lemma generate_for_task_chain:
  assumes "generate_for_task E R task segs s = (r, s')"
  obtains (none) e where "chain_for R task = Inl e" "r = Inl e" "s' = s"
  | (chain) chain r' where "chain_for R task = Inr chain"
      "try_chain E (map_of (ro_budgets R) task) task segs (Ask_segments segs) 0 None chain s = (r', s')"
      "r = map_sum id (\<lambda>v. \<lparr>rr_text = lr_text (sv_reply v), rr_structured = None,
            rr_meta = finalize_meta (lr_meta (sv_reply v)) (sv_backend v) (sv_fallback v),
            rr_provider = be_name (sv_backend v), rr_fallback_used = sv_fallback v\<rparr>) r'"
proof (cases "chain_for R task")
  case (Inl e)
  with assms show ?thesis by (intro none) (auto simp: generate_for_task_def call_chain_def)
next
  case (Inr ch)
  obtain r' t where t: "try_chain E (map_of (ro_budgets R) task) task segs (Ask_segments segs) 0 None ch s = (r', t)"
    by fastforce
  have "s' = t" using assms Inr t
    by (simp add: generate_for_task_def call_chain_def split: sum.splits)
  with assms Inr t show ?thesis
    by (intro chain [OF Inr, of r']) (simp_all add: generate_for_task_def call_chain_def split: sum.splits)
qed


text \<open>
  The fallback chain: when a backend answers, it is the last one called and
  \<open>fallback_used\<close> tells whether others were tried before it; the model's refusal \<open>OUT_OF_SCOPE\<close> is
  final, no other backend is asked after it; the chain is exhausted only when every backend was
  called; and a remote backend that is not permitted stops the chain where it stands.
\<close>

theorem fallback_chain_outcome:
  assumes "generate_for_task E R task segs s = (r, s')" "chain_for R task = Inr chain"
  shows "\<exists>pre post. chain = pre @ post \<and> sent s' = sent s @ map (\<lambda>b. (be_name b, Ask_segments segs)) pre
    \<and> (case r of
         Inr a \<Rightarrow> pre \<noteq> [] \<and> rr_provider a = be_name (last pre) \<and> rr_fallback_used a = (1 < length pre)
       | Inl e \<Rightarrow> is_out_of_scope e \<and> pre \<noteq> []
           \<or> post = [] \<and> (\<exists>cause. e = Chain_exhausted task cause)
           \<or> post \<noteq> [] \<and> e = Remote_not_allowed task (be_name (hd post))
               \<and> \<not> is_trusted_backend (hd post) \<and> \<not> le_allow_remote E)"
  using assms(1)
proof (cases rule: generate_for_task_chain)
  case (chain ch r')
  then have "ch = chain" using assms(2) by simp
  from try_chain_trace [OF chain(2)] obtain pre post where p: "ch = pre @ post"
    "call_trace E task segs (Ask_segments segs) pre s s'" "chain_outcome E task pre post r'"
    "\<forall>v. r' = Inr v \<longrightarrow> sv_fallback v = (0 < (0::nat) \<or> 1 < length pre)" by blast
  have "case r of
         Inr a \<Rightarrow> pre \<noteq> [] \<and> rr_provider a = be_name (last pre) \<and> rr_fallback_used a = (1 < length pre)
       | Inl e \<Rightarrow> is_out_of_scope e \<and> pre \<noteq> []
           \<or> post = [] \<and> (\<exists>cause. e = Chain_exhausted task cause)
           \<or> post \<noteq> [] \<and> e = Remote_not_allowed task (be_name (hd post))
               \<and> \<not> is_trusted_backend (hd post) \<and> \<not> le_allow_remote E"
  proof (cases r')
    case (Inl e)
    with p(3) chain(3) show ?thesis by (simp add: chain_outcome_def)
  next
    case (Inr v)
    with p(3,4) chain(3) show ?thesis by (simp add: chain_outcome_def)
  qed
  with p(1,2) \<open>ch = chain\<close> show ?thesis by (intro exI [of _ pre] exI [of _ post]) (simp add: call_trace_def)
qed (use assms(2) in simp)

text \<open>
  A text in the \<open>trusted\<close> field of \<open>LLM_ENDPOINTS\<close> makes the endpoint trusted whatever it
  says: with \<open>''trusted'': ''false''\<close> the governance gate lets every prompt through to the endpoint,
  with remote use switched off and nothing written to the audit trail.
\<close>

theorem text_flag_makes_endpoint_trusted:
  assumes "read_endpoint (J_obj fs) = Inr (k, ec)" "field fs ''trusted'' = Some (J_str (u ''false''))"
    and "build_backend A show_json transport warm ec = Inr b"
  shows "governance_check E b task segs s = Inr s"
proof -
  have "ec_trusted ec = J_str (u ''false'')"
    using assms(1,2) by (auto simp: read_endpoint_def split: option.splits)
  then have "be_trusted b = J_str (u ''false'')"
    using assms(3) by (auto simp: build_backend_def split: json.splits)
  then show ?thesis by (simp add: governance_check_def is_trusted_backend_def)
qed

section \<open>Concrete runs\<close>

text \<open>A world that counts the calls, a backend that fails and one that answers.\<close>

definition example_backend :: "string \<Rightarrow> bool \<Rightarrow> bool \<Rightarrow> nat backend" where
  "example_backend name trusted ok =
     \<lparr>be_name = u name, be_endpoint = J_null, be_trusted = J_bool trusted,
      be_call = (\<lambda>req n. (if ok then Inr \<lparr>lr_text = Some (u ''SELECT 1''), lr_structured = None, lr_meta = []\<rparr>
                          else Inl (Runtime_error (u ''down'')), 1, Suc n)),
      be_warm = None\<rparr>"

definition example_llm_env :: "nat llm_env" where
  "example_llm_env = \<lparr>le_allow_remote = False, le_hash = (\<lambda>_. 0), le_clock = of_nat\<rparr>"

definition example_llm_state :: "nat llm_state" where
  "example_llm_state = \<lparr>world = 0, sent = [], audited = [], activity = \<lparr>pa_max_entries = 256, pa_last = []\<rparr>\<rparr>"

definition example_router :: "nat router" where
  "example_router = \<lparr>ro_chains = [],
     ro_default_chain = [example_backend ''a'' True False, example_backend ''b'' True True], ro_budgets = []\<rparr>"

definition example_segments :: prompt_segments where
  "example_segments = \<lparr>static_prefix = u ''schema'', session_context = [], question = u ''q''\<rparr>"

declare example_backend_def [ev] example_llm_env_def [ev] example_llm_state_def [ev]
  example_router_def [ev] example_segments_def [ev]

lemma example_run:
  "fst (generate_for_task example_llm_env example_router (u ''t'') example_segments example_llm_state)
     = Inr \<lparr>rr_text = Some (u ''SELECT 1''), rr_structured = None,
         rr_meta = [(u ''provider'', J_str (u ''b'')), (u ''fallback_used'', J_bool True),
           (u ''endpoint'', J_null), (u ''trusted'', J_bool True)],
         rr_provider = u ''b'', rr_fallback_used = True\<rparr>"
  "sent (snd (generate_for_task example_llm_env example_router (u ''t'') example_segments example_llm_state))
     = [(u ''a'', Ask_segments example_segments), (u ''b'', Ask_segments example_segments)]"
  by (simp_all add: ev Let_def)

lemma example_chain:
  "chain_for example_router (u ''t'') = Inr [example_backend ''a'' True False, example_backend ''b'' True True]"
  by (simp add: example_router_def chain_for_def)


theorem fallback_chain_outcome_witness:
  "\<exists>pre post. [example_backend ''a'' True False, example_backend ''b'' True True] = pre @ post
    \<and> sent (snd (generate_for_task example_llm_env example_router (u ''t'') example_segments example_llm_state))
        = sent example_llm_state @ map (\<lambda>b. (be_name b, Ask_segments example_segments)) pre
    \<and> (case fst (generate_for_task example_llm_env example_router (u ''t'') example_segments example_llm_state) of
         Inr a \<Rightarrow> pre \<noteq> [] \<and> rr_provider a = be_name (last pre) \<and> rr_fallback_used a = (1 < length pre)
       | Inl e \<Rightarrow> is_out_of_scope e \<and> pre \<noteq> []
           \<or> post = [] \<and> (\<exists>cause. e = Chain_exhausted (u ''t'') cause)
           \<or> post \<noteq> [] \<and> e = Remote_not_allowed (u ''t'') (be_name (hd post))
               \<and> \<not> is_trusted_backend (hd post) \<and> \<not> le_allow_remote example_llm_env)"
  by (rule fallback_chain_outcome [OF surjective_pairing example_chain])

theorem text_flag_makes_endpoint_trusted_witness:
  defines "fs \<equiv> [(u ''name'', J_str (u ''x'')), (u ''base_url'', J_str (u ''https://api.example.com'')),
      (u ''model'', J_str (u ''m'')), (u ''trusted'', J_str (u ''false''))]"
    and "remote \<equiv> \<lparr>url_host = (\<lambda>_. Some (u ''api.example.com'')), ip_flags = (\<lambda>_. None)\<rparr>"
  shows "\<exists>b :: nat backend. build_backend remote (\<lambda>_. u ''m'')
      (\<lambda>_ _ n. (Inl (Runtime_error []), 0, n)) (\<lambda>_. None) (snd (projr (read_endpoint (J_obj fs)))) = Inr b
    \<and> governance_check example_llm_env b (u ''t'') example_segments example_llm_state = Inr example_llm_state
    \<and> \<not> default_trust_for_url remote (u ''https://api.example.com'')"
proof -
  have f: "field fs ''trusted'' = Some (J_str (u ''false''))"
    by (simp add: fs_def field_def)
  obtain k ec where r: "read_endpoint (J_obj fs) = Inr (k, ec)" and e: "ec_base_url ec = J_str (u ''https://api.example.com'')"
    by (simp add: fs_def read_endpoint_def field_def)
  obtain b :: "nat backend" where b: "build_backend remote (\<lambda>_. u ''m'')
      (\<lambda>_ _ n. (Inl (Runtime_error []), 0, n)) (\<lambda>_. None) ec = Inr b"
    by (simp add: build_backend_def e)
  have "\<not> default_trust_for_url remote (u ''https://api.example.com'')"
    by (simp add: default_trust_for_url_def remote_def endswith_def startswith_def u_def)
  with text_flag_makes_endpoint_trusted [OF r f b] b r show ?thesis by auto
qed

end
