(* ===== verification/Source_Routing.thy ===== *)
theory Source_Routing
  imports Source_Selection Llm_Router
begin

text \<open>
  \<open>llm/source_routing.py\<close>: one request's data-source routing and the single retry of a question
  the model declined. \<open>build\<close> assembles the prompt for a source; a model call is a function of the
  prompt and of a state \<open>'s\<close>.
\<close>

definition is_out_of_scope_failure :: "py_error \<Rightarrow> bool" where
  "is_out_of_scope_failure e = is_out_of_scope (unwrap e)"

record source_routing =
  so_selection :: source_selection
  so_current :: ustr
  so_fallback_from :: "ustr option"
  so_segments :: prompt_segments

definition new_routing :: "(ustr \<Rightarrow> prompt_segments) \<Rightarrow> source_selection \<Rightarrow> source_routing" where
  "new_routing build sel =
     \<lparr>so_selection = sel, so_current = sel_chosen sel, so_fallback_from = None,
      so_segments = build (sel_chosen sel)\<rparr>"

definition plan_routing :: "(ustr \<Rightarrow> prompt_segments) \<Rightarrow> source_selection option \<Rightarrow> source_routing option" where
  "plan_routing build selection = map_option (new_routing build) selection"

text \<open>The source the one retry would go to.\<close>

definition following_source :: "source_routing \<Rightarrow> ustr option" where
  "following_source r =
     (if so_fallback_from r = None then selection_after (so_selection r) (so_current r) else None)"

definition can_fall_back :: "source_routing \<Rightarrow> bool" where
  "can_fall_back r \<longleftrightarrow> so_fallback_from r = None \<and> selection_after (so_selection r) (so_current r) \<noteq> None"

definition fall_back :: "(ustr \<Rightarrow> prompt_segments) \<Rightarrow> source_routing \<Rightarrow> py_error + source_routing" where
  "fall_back build r =
     (case following_source r of
        None \<Rightarrow> Inl (Runtime_error (u ''no data source left to fall back to''))
      | Some s \<Rightarrow> Inr (r\<lparr>so_fallback_from := Some (so_current r), so_current := s, so_segments := build s\<rparr>))"

definition routing_audit :: "source_routing \<Rightarrow> selection_audit" where
  "routing_audit r = audit_selection (so_selection r) (Some (so_current r)) (so_fallback_from r)"

definition generate_with_source_fallback ::
    "(ustr \<Rightarrow> prompt_segments) \<Rightarrow> (prompt_segments \<Rightarrow> 's \<Rightarrow> (py_error + 'r) \<times> 's)
     \<Rightarrow> source_routing option \<Rightarrow> prompt_segments \<Rightarrow> 's
     \<Rightarrow> (py_error + 'r \<times> prompt_segments option) \<times> source_routing option \<times> 's" where
  "generate_with_source_fallback build generate routing segs s =
     (case generate segs s of
        (Inr a, s1) \<Rightarrow> (Inr (a, None), routing, s1)
      | (Inl e, s1) \<Rightarrow>
          (case routing of
             None \<Rightarrow> (Inl e, routing, s1)
           | Some r \<Rightarrow>
               if \<not> is_out_of_scope_failure e \<or> \<not> can_fall_back r then (Inl e, routing, s1)
               else (case fall_back build r of
                       Inl e' \<Rightarrow> (Inl e', routing, s1)
                     | Inr r' \<Rightarrow>
                         (case generate (so_segments r') s1 of
                            (Inl e2, s2) \<Rightarrow> (Inl e2, Some r', s2)
                          | (Inr a, s2) \<Rightarrow> (Inr (a, Some (so_segments r')), Some r', s2)))))"

text \<open>\<open>choose_source\<close> and \<open>continuity_audit\<close>.\<close>

definition choose_source :: "source_selection option \<Rightarrow> ustr option" where
  "choose_source selection = map_option sel_chosen selection"

definition continuity_audit :: "deployment \<Rightarrow> ustr option \<Rightarrow> selection_audit option" where
  "continuity_audit D previous_source =
     (case previous_source of
        None \<Rightarrow> None
      | Some p \<Rightarrow>
          if length (datasource_names D) < 2 then None
          else Some (audit_selection \<lparr>sel_chosen = p, sel_reason = Session, sel_candidates = [p]\<rparr> None None))"

declare is_out_of_scope_failure_def [ev] new_routing_def [ev] plan_routing_def [ev]
  following_source_def [ev] can_fall_back_def [ev] fall_back_def [ev] routing_audit_def [ev]
  generate_with_source_fallback_def [ev]

section \<open>At most one retry\<close>

lemma can_fall_back_iff: "can_fall_back r \<longleftrightarrow> following_source r \<noteq> None"
  by (simp add: can_fall_back_def following_source_def)

lemma fall_back_InrD:
  "fall_back build r = Inr r' \<Longrightarrow>
     \<exists>s. following_source r = Some s \<and> so_segments r' = build s \<and> so_current r' = s
       \<and> so_fallback_from r' = Some (so_current r) \<and> so_selection r' = so_selection r"
  by (auto simp: fall_back_def split: option.splits)

lemma following_after_fall_back: "so_fallback_from r = Some x \<Longrightarrow> following_source r = None"
  by (simp add: following_source_def)

text \<open>
  The two ways a model call with routing goes: one call, or a declined call followed by one call on
  the next source.
\<close>

lemma generate_fallback_cases:
  assumes "generate_with_source_fallback build generate routing segs s = (res, routing', s')"
  obtains (once) r where "generate segs s = (r, s')" "routing' = routing"
      "res = map_sum id (\<lambda>a. (a, None)) r"
  | (twice) e s1 rt rt' src r where "generate segs s = (Inl e, s1)" "is_out_of_scope_failure e"
      "routing = Some rt" "following_source rt = Some src" "routing' = Some rt'"
      "so_segments rt' = build src" "so_current rt' = src" "so_fallback_from rt' = Some (so_current rt)"
      "so_selection rt' = so_selection rt" "generate (build src) s1 = (r, s')"
      "res = map_sum id (\<lambda>a. (a, Some (build src))) r"
proof -
  obtain r s1 where g: "generate segs s = (r, s1)" by fastforce
  show thesis
  proof (cases r)
    case (Inr a)
    with assms g show thesis by (intro once [of r]) (simp_all add: generate_with_source_fallback_def)
  next
    case (Inl e)
    show thesis
    proof (cases "\<exists>rt. routing = Some rt \<and> is_out_of_scope_failure e \<and> can_fall_back rt")
      case False
      with assms g Inl show thesis
        by (intro once [of r]) (auto simp: generate_with_source_fallback_def split: option.splits)
    next
      case True
      then obtain rt where rt: "routing = Some rt" "is_out_of_scope_failure e" "can_fall_back rt" by blast
      then obtain src where src: "following_source rt = Some src" by (auto simp: can_fall_back_iff)
      then obtain rt' where fb: "fall_back build rt = Inr rt'" by (simp add: fall_back_def)
      obtain r2 s2 where g2: "generate (so_segments rt') s1 = (r2, s2)" by fastforce
      from fall_back_InrD [OF fb] src have f: "so_segments rt' = build src" "so_current rt' = src"
        "so_fallback_from rt' = Some (so_current rt)" "so_selection rt' = so_selection rt" by simp_all
      have "res = map_sum id (\<lambda>a. (a, Some (build src))) r2 \<and> routing' = Some rt' \<and> s' = s2"
        using assms g Inl rt fb g2 f
        by (cases r2) (simp_all add: generate_with_source_fallback_def)
      then show thesis using twice [of e s1 rt src rt' r2] g Inl rt src f g2 by simp
    qed
  qed
qed

end
