(* ===== verification/Sql_Agent.thy ===== *)
theory Sql_Agent
  imports Source_Routing
begin

text \<open>
  \<open>llm/sql_agent.py\<close>: the generate / validate / execute / correct loop. The parts it calls are
  parameters of one request (\<open>agent_env\<close>): the SQL guard (sqlglot), the execution of a statement
  and the lookup of cached results, the vocabulary checks and the correction hint. Everything they
  depend on is the world \<open>'w\<close> of the router state. The agent's state adds two ghost traces: the
  prompts it asked the model with and the statements it executed.
\<close>

section \<open>The environment of a request\<close>

record sql_guard =
  gd_clean :: "ustr \<Rightarrow> py_error + ustr"
  gd_validate :: "ustr \<Rightarrow> py_error option"
  gd_ensure_top :: "ustr \<Rightarrow> int \<Rightarrow> py_error + ustr"
  gd_transpile :: "ustr \<Rightarrow> py_error + ustr"

record value_check =
  vc_checked :: nat
  vc_unknown :: "json list"

record ('w, 'd) agent_env =
  ag_llm :: "'w llm_env"
  ag_router :: "'w router"
  ag_build :: "ustr \<Rightarrow> prompt_segments"
  ag_guard :: sql_guard
  ag_execute :: "ustr \<Rightarrow> 'w \<Rightarrow> (py_error + 'd) \<times> 'w"
  ag_cache_lookup :: "(ustr \<Rightarrow> 'w \<Rightarrow> 'd option \<times> 'w) option"
  ag_respell :: "ustr \<Rightarrow> 'w \<Rightarrow> ustr \<times> json option"
  ag_check_values :: "ustr \<Rightarrow> 'w \<Rightarrow> value_check"
  ag_correction_text :: "ustr \<Rightarrow> value_check \<Rightarrow> ustr"
  ag_hint :: "py_error \<Rightarrow> ustr option \<Rightarrow> ustr"
  ag_show :: "py_error \<Rightarrow> ustr"
  ag_max_corrections :: int
  ag_default_top_n :: int
  ag_value_spelling :: bool
  ag_value_check :: bool

record 'w agent_state =
  as_llm :: "'w llm_state"
  as_routing :: "source_routing option"
  as_prompts :: "prompt_segments list"
  as_executed :: "ustr list"

text \<open>The block of \<open>audit_block\<close>, with the unknown literals kept as they are.\<close>

record value_audit =
  va_checked :: nat
  va_unknown :: "json list"
  va_corrected :: bool
  va_fallback :: bool

definition audit_block :: "value_check \<Rightarrow> bool \<Rightarrow> bool \<Rightarrow> value_audit option" where
  "audit_block check corrected fallback =
     (if vc_checked check = 0 \<and> vc_unknown check = [] then None
      else Some \<lparr>va_checked = vc_checked check, va_unknown = vc_unknown check,
                 va_corrected = corrected, va_fallback = fallback\<rparr>)"

record sql_result =
  gr_sql :: ustr
  gr_raw :: ustr
  gr_attempt :: nat
  gr_corrections :: "ustr list"
  gr_meta :: "(ustr, json) odict"
  gr_injected_top :: "int option"
  gr_value_check :: "value_audit option"
  gr_value_spelling :: "json option"
  gr_selection :: "selection_audit option"

text \<open>An exception that leaves the agent, with the attributes attached to it.\<close>

record failure =
  fl_error :: py_error
  fl_candidate_sql :: "ustr option"
  fl_meta :: "(ustr, json) odict option"
  fl_attempt :: "nat option"
  fl_injected_top :: "int option"
  fl_value_check :: "value_audit option"
  fl_value_spelling :: "json option"
  fl_selection :: "selection_audit option"

definition bare_failure :: "py_error \<Rightarrow> failure" where
  "bare_failure e = \<lparr>fl_error = e, fl_candidate_sql = None, fl_meta = None, fl_attempt = None,
     fl_injected_top = None, fl_value_check = None, fl_value_spelling = None, fl_selection = None\<rparr>"

section \<open>The guard stage\<close>

text \<open>A rejection comes with the candidate statement that was rejected, if there was one.\<close>

definition clean_validate_cap ::
    "('w, 'd) agent_env \<Rightarrow> ustr \<Rightarrow> (py_error \<times> ustr option) + (ustr \<times> int option)" where
  "clean_validate_cap E raw =
     (case gd_clean (ag_guard E) raw of
        Inl e \<Rightarrow> Inl (e, None)
      | Inr sql \<Rightarrow>
          (case gd_validate (ag_guard E) sql of
             Some e \<Rightarrow> Inl (e, if is_value_error e then Some sql else None)
           | None \<Rightarrow>
               (case gd_ensure_top (ag_guard E) sql (ag_default_top_n E) of
                  Inl e \<Rightarrow> Inl (e, None)
                | Inr capped \<Rightarrow>
                    (let injected = (if capped \<noteq> sql then Some (ag_default_top_n E) else None)
                     in case gd_transpile (ag_guard E) capped of
                          Inl e \<Rightarrow> Inl (e, if is_value_error e then Some capped else None)
                        | Inr final \<Rightarrow> Inr (final, injected)))))"

section \<open>Calls that change the state\<close>

definition generate_sql ::
    "('w, 'd) agent_env \<Rightarrow> prompt_segments \<Rightarrow> 'w agent_state \<Rightarrow> (py_error + route_result) \<times> 'w agent_state" where
  "generate_sql E segs st =
     (case generate_for_task (ag_llm E) (ag_router E) (u ''sql_generation'') segs (as_llm st) of
        (r, ls) \<Rightarrow> (r, st\<lparr>as_llm := ls, as_prompts := as_prompts st @ [segs]\<rparr>))"

definition now :: "'w agent_state \<Rightarrow> 'w" where
  "now st = world (as_llm st)"

definition set_world :: "'w \<Rightarrow> 'w agent_state \<Rightarrow> 'w agent_state" where
  "set_world w st = st\<lparr>as_llm := (as_llm st)\<lparr>world := w\<rparr>\<rparr>"

text \<open>Cached rows for the statement, or its execution.\<close>

definition run_statement ::
    "('w, 'd) agent_env \<Rightarrow> ustr \<Rightarrow> 'w agent_state \<Rightarrow> (py_error + 'd) \<times> 'w agent_state" where
  "run_statement E sql st =
     (case (case ag_cache_lookup E of
              None \<Rightarrow> (None, st)
            | Some lookup \<Rightarrow> (case lookup sql (now st) of (df, w) \<Rightarrow> (df, set_world w st))) of
        (Some df, st1) \<Rightarrow> (Inr df, st1)
      | (None, st1) \<Rightarrow>
          (case ag_execute E sql (now st1) of
             (r, w) \<Rightarrow> (r, set_world w (st1\<lparr>as_executed := as_executed st1 @ [sql]\<rparr>))))"

section \<open>The filter value round\<close>

record 'd value_round =
  vr_audit :: "value_audit option"
  vr_prompt :: "ustr option"
  vr_executed :: "('d \<times> ustr \<times> ustr \<times> (ustr, json) odict \<times> int option) option"
  vr_spelling :: "json option"

definition with_corrections :: "prompt_segments \<Rightarrow> ustr list \<Rightarrow> prompt_segments" where
  "with_corrections segs cs = segs\<lparr>question := question segs @ concat cs\<rparr>"

definition respelled :: "('w, 'd) agent_env \<Rightarrow> ustr \<Rightarrow> 'w agent_state \<Rightarrow> ustr \<times> json option" where
  "respelled E sql st = (if ag_value_spelling E then ag_respell E sql (now st) else (sql, None))"

definition filter_value_round ::
    "('w, 'd) agent_env \<Rightarrow> ustr \<Rightarrow> prompt_segments \<Rightarrow> ustr list \<Rightarrow> 'w agent_state
     \<Rightarrow> 'd value_round \<times> 'w agent_state" where
  "filter_value_round E sql initial corrections st =
     (let check = ag_check_values E sql (now st);
          nothing = (\<lambda>fallback prompt. \<lparr>vr_audit = audit_block check False fallback, vr_prompt = prompt,
                        vr_executed = None, vr_spelling = None\<rparr>)
      in if vc_unknown check = [] then (nothing False None, st)
         else if ag_max_corrections E \<le> 0 then (nothing True None, st)
         else
           let prompt = [10] @ ag_correction_text E sql check;
               segs = with_corrections initial (corrections @ [prompt])
           in case generate_sql E segs st of
                (Inl e, st1) \<Rightarrow> (nothing True (Some prompt), st1)
              | (Inr rr, st1) \<Rightarrow>
                  (let raw = (case rr_text rr of None \<Rightarrow> [] | Some t \<Rightarrow> t)
                   in case clean_validate_cap E raw of
                        Inl e \<Rightarrow> (nothing True (Some prompt), st1)
                      | Inr (sql1, cap) \<Rightarrow>
                          (case respelled E sql1 st1 of
                             (sql2, spelling) \<Rightarrow>
                               if vc_unknown (ag_check_values E sql2 (now st1)) \<noteq> []
                               then (nothing True (Some prompt), st1)
                               else (case run_statement E sql2 st1 of
                                       (Inl e, st2) \<Rightarrow> (nothing True (Some prompt), st2)
                                     | (Inr df, st2) \<Rightarrow>
                                         (\<lparr>vr_audit = audit_block check True False, vr_prompt = Some prompt,
                                           vr_executed = Some (df, sql2, raw, rr_meta rr, cap),
                                           vr_spelling = spelling\<rparr>, st2)))))"

section \<open>One round\<close>

record loop_vars =
  lv_initial :: prompt_segments
  lv_corrections :: "ustr list"
  lv_hints :: "ustr list"
  lv_last_error :: ustr
  lv_last_exception :: "py_error option"
  lv_sql :: ustr
  lv_raw :: ustr
  lv_value_checked :: bool
  lv_value_audit :: "value_audit option"
  lv_value_prompts :: "ustr list"
  lv_extra :: nat

definition start_vars :: "prompt_segments \<Rightarrow> loop_vars" where
  "start_vars initial = \<lparr>lv_initial = initial, lv_corrections = [], lv_hints = [], lv_last_error = [],
     lv_last_exception = None, lv_sql = [], lv_raw = [], lv_value_checked = False,
     lv_value_audit = None, lv_value_prompts = [], lv_extra = 0\<rparr>"

definition correction_template :: "ustr \<Rightarrow> ustr \<Rightarrow> ustr \<Rightarrow> ustr" where
  "correction_template sql err hint =
     [10] @ u ''The SQL query you generated failed to execute.'' @ [10, 10] @ u ''--- FAILED SQL ---'' @ [10]
     @ sql @ [10, 10] @ u ''--- DATABASE ERROR ---'' @ [10] @ err @ [10] @ hint @ [10]
     @ u ''--- INSTRUCTIONS ---'' @ [10]
     @ u ''Fix ONLY the SQL error above. Do not change the intent of the query.'' @ [10]
     @ u ''Return only the corrected SQL statement with no explanation.'' @ [10, 10] @ u ''SQL:'' @ [10]"

text \<open>The correction text of a round after the first, with a hint that was not shown before.\<close>

definition add_correction :: "('w, 'd) agent_env \<Rightarrow> source_routing option \<Rightarrow> loop_vars \<Rightarrow> loop_vars" where
  "add_correction E routing v =
     (let h = (case lv_last_exception v of
                 None \<Rightarrow> []
               | Some e \<Rightarrow> ag_hint E e (map_option so_current routing));
          hint = (if h \<in> set (lv_hints v) then [] else h)
      in v\<lparr>lv_hints := (if hint = [] then lv_hints v else lv_hints v @ [hint]),
           lv_corrections := lv_corrections v
             @ [correction_template (if lv_sql v = [] then lv_raw v else lv_sql v) (lv_last_error v)
                  (if hint = [] then [] else [10] @ hint @ [10])]\<rparr>)"

datatype ('w, 'd) round_outcome =
    Leave "failure + 'd \<times> sql_result" "'w agent_state"
  | Again loop_vars "'w agent_state"

definition guard_failure ::
    "nat \<Rightarrow> loop_vars \<Rightarrow> (ustr, json) odict \<Rightarrow> py_error \<times> ustr option \<Rightarrow> failure" where
  "guard_failure k v meta ec =
     (bare_failure (fst ec))\<lparr>fl_candidate_sql := snd ec, fl_meta := Some meta,
        fl_attempt := Some (Suc k + lv_extra v), fl_value_check := lv_value_audit v\<rparr>"

text \<open>Running the accepted statement and what an execution error leads to.\<close>

definition execute_stage ::
    "('w, 'd) agent_env \<Rightarrow> nat \<Rightarrow> loop_vars \<Rightarrow> (ustr, json) odict \<Rightarrow> int option \<Rightarrow> json option
     \<Rightarrow> 'w agent_state \<Rightarrow> ('w, 'd) round_outcome" where
  "execute_stage E k v meta cap spelling st =
     (case run_statement E (lv_sql v) st of
        (Inr df, st1) \<Rightarrow>
          Leave (Inr (df, \<lparr>gr_sql = lv_sql v, gr_raw = lv_raw v, gr_attempt = Suc k + lv_extra v,
                   gr_corrections = lv_corrections v @ lv_value_prompts v, gr_meta = meta,
                   gr_injected_top = cap, gr_value_check = lv_value_audit v, gr_value_spelling = spelling,
                   gr_selection = None\<rparr>)) st1
      | (Inl e, st1) \<Rightarrow>
          if \<not> is_runtime_error e then Leave (Inl (bare_failure e)) st1
          else if int k = ag_max_corrections E
          then Leave (Inl ((bare_failure e)\<lparr>fl_candidate_sql := Some (lv_sql v), fl_meta := Some meta,
                   fl_attempt := (if 0 < lv_extra v then Some (Suc k + lv_extra v) else None),
                   fl_injected_top := cap, fl_value_check := lv_value_audit v,
                   fl_value_spelling := spelling\<rparr>)) st1
          else Again (v\<lparr>lv_last_error := ag_show E e, lv_last_exception := None\<rparr>) st1)"

text \<open>The accepted statement: spelling, the filter value round, execution.\<close>

definition accepted_stage ::
    "('w, 'd) agent_env \<Rightarrow> nat \<Rightarrow> loop_vars \<Rightarrow> (ustr, json) odict \<Rightarrow> int option \<Rightarrow> 'w agent_state
     \<Rightarrow> ('w, 'd) round_outcome" where
  "accepted_stage E k v0 meta cap st =
     (case respelled E (lv_sql v0) st of
        (sql, spelling) \<Rightarrow>
          (let v = v0\<lparr>lv_sql := sql\<rparr>
           in if ag_value_check E \<and> \<not> lv_value_checked v
              then (case filter_value_round E sql (lv_initial v) (lv_corrections v) st of
                      (vr, st1) \<Rightarrow>
                        (let v1 = v\<lparr>lv_value_checked := True, lv_value_audit := vr_audit vr,
                               lv_value_prompts := (case vr_prompt vr of None \<Rightarrow> lv_value_prompts v | Some p \<Rightarrow> [p]),
                               lv_extra := (case vr_prompt vr of None \<Rightarrow> lv_extra v | Some _ \<Rightarrow> 1)\<rparr>
                         in case vr_executed vr of
                              Some (df, sql2, raw2, meta2, top2) \<Rightarrow>
                                Leave (Inr (df, \<lparr>gr_sql = sql2, gr_raw = raw2, gr_attempt = Suc k + lv_extra v1,
                                    gr_corrections = lv_corrections v1 @ lv_value_prompts v1, gr_meta = meta2,
                                    gr_injected_top = top2, gr_value_check = lv_value_audit v1,
                                    gr_value_spelling = vr_spelling vr, gr_selection = None\<rparr>)) st1
                            | None \<Rightarrow> execute_stage E k v1 meta cap spelling st1))
              else execute_stage E k v meta cap spelling st))"

text \<open>
  What the model answered goes through the guard. A rejected answer leaves \<open>lv_sql\<close> as it was.
\<close>

definition guard_stage ::
    "('w, 'd) agent_env \<Rightarrow> nat \<Rightarrow> loop_vars \<Rightarrow> (ustr, json) odict \<Rightarrow> 'w agent_state
     \<Rightarrow> ('w, 'd) round_outcome" where
  "guard_stage E k v meta st =
     (case clean_validate_cap E (lv_raw v) of
        Inl (e, cand) \<Rightarrow>
          (case e of
             Policy_rejection m \<Rightarrow> Leave (Inl (guard_failure k v meta (e, cand))) st
           | _ \<Rightarrow>
               if \<not> is_value_error e then Leave (Inl (bare_failure e)) st
               else if int k = ag_max_corrections E then Leave (Inl (guard_failure k v meta (e, cand))) st
               else Again (v\<lparr>lv_last_error := ag_show E e, lv_last_exception := Some e\<rparr>) st)
      | Inr (sql, cap) \<Rightarrow> accepted_stage E k (v\<lparr>lv_sql := sql\<rparr>) meta cap st)"

definition agent_round ::
    "('w, 'd) agent_env \<Rightarrow> nat \<Rightarrow> loop_vars \<Rightarrow> 'w agent_state \<Rightarrow> ('w, 'd) round_outcome" where
  "agent_round E k v st =
     (let v1 = (if k = 0 then v else add_correction E (as_routing st) v);
          segs = (if k = 0 then lv_initial v else with_corrections (lv_initial v1) (lv_corrections v1))
      in case generate_with_source_fallback (ag_build E) (generate_sql E) (as_routing st) segs st of
           (Inl e, routing, st1) \<Rightarrow> Leave (Inl (bare_failure (unwrap e))) (st1\<lparr>as_routing := routing\<rparr>)
         | (Inr (rr, replaced), routing, st1) \<Rightarrow>
             (let v2 = (case replaced of
                          None \<Rightarrow> v1
                        | Some s \<Rightarrow> v1\<lparr>lv_initial := s, lv_corrections := []\<rparr>)
              in guard_stage E k (v2\<lparr>lv_raw := (case rr_text rr of None \<Rightarrow> [] | Some t \<Rightarrow> t)\<rparr>)
                   (rr_meta rr) (st1\<lparr>as_routing := routing\<rparr>)))"

section \<open>The loop\<close>

fun attempt_loop ::
    "('w, 'd) agent_env \<Rightarrow> nat \<Rightarrow> nat \<Rightarrow> loop_vars \<Rightarrow> 'w agent_state
     \<Rightarrow> (failure + 'd \<times> sql_result) \<times> 'w agent_state" where
  "attempt_loop E 0 k v st = (Inl (bare_failure (Runtime_error (u ''SQLAgent loop exited unexpectedly''))), st)"
| "attempt_loop E (Suc n) k v st =
     (case agent_round E k v st of
        Leave r st' \<Rightarrow> (r, st')
      | Again v' st' \<Rightarrow> attempt_loop E n (Suc k) v' st')"

text \<open>
  \<open>run\<close>, from the retrieved selection (\<open>None\<close> with one source) and the prompt without a source.
\<close>

definition agent_run ::
    "('w, 'd) agent_env \<Rightarrow> source_selection option \<Rightarrow> prompt_segments \<Rightarrow> 'w llm_state
     \<Rightarrow> (failure + 'd \<times> sql_result) \<times> 'w agent_state" where
  "agent_run E selection plain ls =
     (let routing = plan_routing (ag_build E) selection;
          initial = (case routing of None \<Rightarrow> plain | Some r \<Rightarrow> so_segments r);
          st = \<lparr>as_llm = ls, as_routing = routing, as_prompts = [], as_executed = []\<rparr>
      in case attempt_loop E (nat (ag_max_corrections E + 1)) 0 (start_vars initial) st of
           (r, st') \<Rightarrow>
             (case as_routing st' of
                None \<Rightarrow> (r, st')
              | Some rt \<Rightarrow>
                  (map_sum (\<lambda>f. f\<lparr>fl_selection := Some (routing_audit rt)\<rparr>)
                     (\<lambda>(df, g). (df, g\<lparr>gr_selection := Some (routing_audit rt)\<rparr>)) r, st')))"

section \<open>The traces of a run\<close>

declare audit_block_def [ev] bare_failure_def [ev] clean_validate_cap_def [ev] generate_sql_def [ev]
  now_def [ev] set_world_def [ev] run_statement_def [ev] with_corrections_def [ev] respelled_def [ev]
  filter_value_round_def [ev] start_vars_def [ev] correction_template_def [ev] add_correction_def [ev]
  guard_failure_def [ev] execute_stage_def [ev] accepted_stage_def [ev] guard_stage_def [ev]
  agent_round_def [ev] agent_run_def [ev]

text \<open>
  A prompt is made from a base prompt when it has its prefix and its session context, and its
  question segment begins with the base's.
\<close>

definition made_from :: "prompt_segments list \<Rightarrow> prompt_segments \<Rightarrow> bool" where
  "made_from B p \<longleftrightarrow> list_ex (\<lambda>b. static_prefix p = static_prefix b
     \<and> session_context p = session_context b \<and> startswith (question p) (question b)) B"

lemma made_from_base: "b \<in> set B \<Longrightarrow> made_from B b"
  by (auto simp: made_from_def list_ex_iff startswith_def)

lemma made_from_corrections: "b \<in> set B \<Longrightarrow> made_from B (with_corrections b cs)"
  by (auto simp: made_from_def list_ex_iff startswith_def with_corrections_def)

text \<open>A statement the guard accepted, or the respelling of one.\<close>

definition approved :: "('w, 'd) agent_env \<Rightarrow> ustr \<Rightarrow> bool" where
  "approved E sql \<longleftrightarrow> (\<exists>raw sql0 cap. clean_validate_cap E raw = Inr (sql0, cap)
     \<and> (sql = sql0 \<or> ag_value_spelling E \<and> (\<exists>w. sql = fst (ag_respell E sql0 w))))"

lemma approved_respelled:
  "clean_validate_cap E raw = Inr (sql0, cap) \<Longrightarrow> respelled E sql0 st = (sql, sp) \<Longrightarrow> approved E sql"
  unfolding approved_def respelled_def by (metis fst_conv)

definition trace_ok ::
    "('w, 'd) agent_env \<Rightarrow> prompt_segments list \<Rightarrow> 'w agent_state \<Rightarrow> nat \<Rightarrow> 'w agent_state \<Rightarrow> bool" where
  "trace_ok E B st0 n st \<longleftrightarrow> (\<exists>ps es. as_prompts st = as_prompts st0 @ ps
     \<and> as_executed st = as_executed st0 @ es \<and> length ps = n \<and> list_all (made_from B) ps
     \<and> list_all (approved E) es)"

lemma trace_ok_start: "trace_ok E B st 0 st"
  by (simp add: trace_ok_def)

lemma trace_ok_cong:
  "as_prompts st' = as_prompts st \<Longrightarrow> as_executed st' = as_executed st \<Longrightarrow>
     trace_ok E B st0 n st' = trace_ok E B st0 n st"
  by (simp add: trace_ok_def)

lemma trace_ok_prompt:
  assumes "trace_ok E B st0 n st" "as_prompts st' = as_prompts st @ [p]" "made_from B p"
    "as_executed st' = as_executed st"
  shows "trace_ok E B st0 (Suc n) st'"
proof -
  from assms(1) obtain ps es where "as_prompts st = as_prompts st0 @ ps" "as_executed st = as_executed st0 @ es"
    "length ps = n" "list_all (made_from B) ps" "list_all (approved E) es"
    unfolding trace_ok_def by blast
  with assms(2-) have "as_prompts st' = as_prompts st0 @ (ps @ [p]) \<and> as_executed st' = as_executed st0 @ es
      \<and> length (ps @ [p]) = Suc n \<and> list_all (made_from B) (ps @ [p]) \<and> list_all (approved E) es"
    by simp
  then show ?thesis unfolding trace_ok_def by (intro exI)
qed

lemma trace_ok_exec:
  assumes "trace_ok E B st0 n st" "as_prompts st' = as_prompts st" "approved E sql"
    "as_executed st' = as_executed st \<or> as_executed st' = as_executed st @ [sql]"
  shows "trace_ok E B st0 n st'"
  using assms(4)
proof
  assume "as_executed st' = as_executed st"
  with assms(1,2) show ?thesis unfolding trace_ok_def by simp
next
  assume e: "as_executed st' = as_executed st @ [sql]"
  from assms(1) obtain ps es where "as_prompts st = as_prompts st0 @ ps" "as_executed st = as_executed st0 @ es"
    "length ps = n" "list_all (made_from B) ps" "list_all (approved E) es"
    unfolding trace_ok_def by blast
  with assms(2,3) e have "as_prompts st' = as_prompts st0 @ ps \<and> as_executed st' = as_executed st0 @ (es @ [sql])
      \<and> length ps = n \<and> list_all (made_from B) ps \<and> list_all (approved E) (es @ [sql])"
    by simp
  then show ?thesis unfolding trace_ok_def by (intro exI)
qed

lemma set_world_simps [simp]:
  "as_prompts (set_world w st) = as_prompts st" "as_executed (set_world w st) = as_executed st"
  "as_routing (set_world w st) = as_routing st"
  by (simp_all add: set_world_def)

lemma run_statement_effect:
  assumes "run_statement E sql st = (r, st')"
  shows "as_prompts st' = as_prompts st \<and> as_routing st' = as_routing st
    \<and> (as_executed st' = as_executed st \<or> as_executed st' = as_executed st @ [sql])"
  using assms by (auto simp: run_statement_def split: option.splits prod.splits)

lemma generate_sql_effect:
  assumes "generate_sql E segs st = (r, st')"
  shows "as_prompts st' = as_prompts st @ [segs] \<and> as_routing st' = as_routing st
    \<and> as_executed st' = as_executed st"
  using assms by (auto simp: generate_sql_def split: prod.splits)

text \<open>The filter value round: at most one more prompt, and only approved statements executed.\<close>

lemma filter_value_round_effect:
  assumes "filter_value_round E sql b cs st = (vr, st')" "b \<in> set B" "trace_ok E B st0 n st"
  shows "trace_ok E B st0 (case vr_prompt vr of None \<Rightarrow> n | Some _ \<Rightarrow> Suc n) st'
    \<and> as_routing st' = as_routing st
    \<and> (\<forall>df s raw meta cap. vr_executed vr = Some (df, s, raw, meta, cap) \<longrightarrow> approved E s \<and> vr_prompt vr \<noteq> None)"
proof -
  define check where "check = ag_check_values E sql (now st)"
  define prompt where "prompt = [10] @ ag_correction_text E sql check"
  define segs where "segs = with_corrections b (cs @ [prompt])"
  consider (none) "vc_unknown check = [] \<or> ag_max_corrections E \<le> 0"
    | (call) "vc_unknown check \<noteq> []" "\<not> ag_max_corrections E \<le> 0" by blast
  then show ?thesis
  proof cases
    case none
    with assms have "st' = st" "vr_prompt vr = None" "vr_executed vr = None"
      by (auto simp: filter_value_round_def Let_def check_def split: if_splits)
    with assms(3) show ?thesis by simp
  next
    case call
    obtain r st1 where g: "generate_sql E segs st = (r, st1)" by fastforce
    note ge = generate_sql_effect [OF g]
    have t1: "trace_ok E B st0 (Suc n) st1"
      by (rule trace_ok_prompt [OF assms(3)]) (use ge made_from_corrections [OF assms(2)] in \<open>simp_all add: segs_def\<close>)
    have main: "trace_ok E B st0 (Suc n) st' \<and> as_routing st' = as_routing st1 \<and> vr_prompt vr = Some prompt
      \<and> (\<forall>df s raw meta cap. vr_executed vr = Some (df, s, raw, meta, cap) \<longrightarrow> approved E s)"
    proof (cases r)
      case (Inl e)
      with assms(1) call g t1 show ?thesis
        by (auto simp: filter_value_round_def Let_def check_def [symmetric] prompt_def segs_def)
    next
      case rr: (Inr rr)
      define raw where "raw = (case rr_text rr of None \<Rightarrow> [] | Some t \<Rightarrow> t)"
      show ?thesis
      proof (cases "clean_validate_cap E raw")
        case (Inl e)
        with assms(1) call g rr t1 show ?thesis
          by (auto simp: filter_value_round_def Let_def check_def [symmetric] prompt_def segs_def raw_def)
      next
        case (Inr sc)
        obtain sql1 cap where sc: "sc = (sql1, cap)" by fastforce
        obtain sql2 sp where sp: "respelled E sql1 st1 = (sql2, sp)" by fastforce
        have ap: "approved E sql2" using Inr sc sp by (auto intro: approved_respelled)
        show ?thesis
        proof (cases "vc_unknown (ag_check_values E sql2 (now st1)) = []")
          case False
          with assms(1) call g rr t1 Inr sc sp show ?thesis
            by (auto simp: filter_value_round_def Let_def check_def [symmetric] prompt_def segs_def raw_def)
        next
          case True
          obtain r2 st2 where run: "run_statement E sql2 st1 = (r2, st2)" by fastforce
          note re = run_statement_effect [OF run]
          have t2: "trace_ok E B st0 (Suc n) st2"
            using trace_ok_exec [OF t1 _ ap] re by blast
          show ?thesis
          proof (cases r2)
            case (Inl e)
            with assms(1) call g rr Inr sc sp True run have "st' = st2" "vr_prompt vr = Some prompt" "vr_executed vr = None"
              by (auto simp: filter_value_round_def Let_def check_def [symmetric] prompt_def segs_def raw_def)
            with t2 re show ?thesis by simp
          next
            case df: (Inr df)
            with assms(1) call g rr Inr sc sp True run
            have "st' = st2" "vr_prompt vr = Some prompt" "vr_executed vr = Some (df, sql2, raw, rr_meta rr, cap)"
              by (auto simp: filter_value_round_def Let_def check_def [symmetric] prompt_def segs_def raw_def)
            with t2 re ap show ?thesis by simp
          qed
        qed
      qed
    qed
    with ge show ?thesis by simp
  qed
qed


definition fell :: "'w agent_state \<Rightarrow> nat" where
  "fell st = (case as_routing st of None \<Rightarrow> 0 | Some r \<Rightarrow> if so_fallback_from r = None then 0 else 1)"

definition may_fall :: "'w agent_state \<Rightarrow> nat" where
  "may_fall st = (case as_routing st of None \<Rightarrow> 0 | Some r \<Rightarrow> if can_fall_back r then 1 else 0)"

definition route_ok :: "'w agent_state \<Rightarrow> 'w agent_state \<Rightarrow> bool" where
  "route_ok st0 st \<longleftrightarrow> as_routing st = as_routing st0 \<or> fell st = 1 \<and> may_fall st0 = 1"

definition extra_ok :: "('w, 'd) agent_env \<Rightarrow> loop_vars \<Rightarrow> bool" where
  "extra_ok E v \<longleftrightarrow> lv_extra v \<le> (if ag_value_check E \<and> lv_value_checked v then 1 else 0)"

definition loop_ok ::
    "('w, 'd) agent_env \<Rightarrow> prompt_segments list \<Rightarrow> 'w agent_state \<Rightarrow> nat \<Rightarrow> loop_vars \<Rightarrow> 'w agent_state \<Rightarrow> bool" where
  "loop_ok E B st0 k v st \<longleftrightarrow> trace_ok E B st0 (k + lv_extra v + fell st) st \<and> extra_ok E v
     \<and> lv_initial v \<in> set B \<and> route_ok st0 st"

definition leave_ok ::
    "('w, 'd) agent_env \<Rightarrow> prompt_segments list \<Rightarrow> 'w agent_state \<Rightarrow> nat \<Rightarrow> failure + 'd \<times> sql_result
     \<Rightarrow> 'w agent_state \<Rightarrow> bool" where
  "leave_ok E B st0 k r st \<longleftrightarrow> (\<exists>x. x \<le> (if ag_value_check E then 1 else 0)
     \<and> trace_ok E B st0 (Suc k + x + fell st) st \<and> route_ok st0 st
     \<and> (case r of
          Inr (df, g) \<Rightarrow> gr_attempt g = Suc k + x \<and> approved E (gr_sql g)
        | Inl f \<Rightarrow> (case fl_attempt f of None \<Rightarrow> True | Some n \<Rightarrow> n = Suc k + x)))"

definition outcome_ok ::
    "('w, 'd) agent_env \<Rightarrow> prompt_segments list \<Rightarrow> 'w agent_state \<Rightarrow> nat \<Rightarrow> ('w, 'd) round_outcome \<Rightarrow> bool" where
  "outcome_ok E B st0 k out =
     (case out of Leave r st \<Rightarrow> leave_ok E B st0 k r st | Again v st \<Rightarrow> loop_ok E B st0 (Suc k) v st)"

lemma extra_ok_leave: "extra_ok E v \<Longrightarrow> lv_extra v \<le> (if ag_value_check E then 1 else 0)"
  by (auto simp: extra_ok_def split: if_splits)

lemma route_ok_cong: "as_routing st' = as_routing st \<Longrightarrow> route_ok st0 st' = route_ok st0 st"
  by (simp add: route_ok_def fell_def)

lemma fell_cong: "as_routing st' = as_routing st \<Longrightarrow> fell st' = fell st"
  by (simp add: fell_def)

lemma leave_failure:
  assumes "loop_ok E B st0 (Suc k) v st" "fl_attempt f = None \<or> fl_attempt f = Some (Suc k + lv_extra v)"
  shows "leave_ok E B st0 k (Inl f) st"
  using assms extra_ok_leave [of E v] unfolding loop_ok_def leave_ok_def
  by (intro exI [of _ "lv_extra v"]) auto

lemma leave_result:
  assumes "loop_ok E B st0 (Suc k) v st" "gr_attempt g = Suc k + lv_extra v" "approved E (gr_sql g)"
  shows "leave_ok E B st0 k (Inr (df, g)) st"
  using assms extra_ok_leave [of E v] unfolding loop_ok_def leave_ok_def
  by (intro exI [of _ "lv_extra v"]) auto

lemma execute_stage_ok:
  assumes "loop_ok E B st0 (Suc k) v st" "approved E (lv_sql v)"
  shows "outcome_ok E B st0 k (execute_stage E k v meta cap sp st)"
proof -
  obtain r st1 where run: "run_statement E (lv_sql v) st = (r, st1)" by fastforce
  note re = run_statement_effect [OF run]
  have l1: "loop_ok E B st0 (Suc k) v st1"
    using assms trace_ok_exec [of E B st0 _ st st1 "lv_sql v"] re
    by (simp add: loop_ok_def route_ok_cong [of st1 st] fell_cong [of st1 st])
  show ?thesis
  proof (cases r)
    case (Inr df)
    with run leave_result [OF l1] assms(2) show ?thesis
      by (simp add: execute_stage_def outcome_ok_def)
  next
    case (Inl e)
    have "loop_ok E B st0 (Suc k) (v\<lparr>lv_last_error := m, lv_last_exception := x\<rparr>) st1" for m x
      using l1 by (simp add: loop_ok_def extra_ok_def)
    with run Inl leave_failure [OF l1] show ?thesis
      by (simp add: execute_stage_def outcome_ok_def bare_failure_def)
  qed
qed

lemma accepted_stage_ok:
  assumes "loop_ok E B st0 (Suc k) v st" "clean_validate_cap E raw = Inr (lv_sql v, c)"
  shows "outcome_ok E B st0 k (accepted_stage E k v meta cap st)"
proof -
  obtain sql sp where sp: "respelled E (lv_sql v) st = (sql, sp)" by fastforce
  have ap: "approved E sql" using assms(2) sp by (rule approved_respelled)
  define w where "w = v\<lparr>lv_sql := sql\<rparr>"
  have l: "loop_ok E B st0 (Suc k) w st" using assms(1) by (simp add: w_def loop_ok_def extra_ok_def)
  show ?thesis
  proof (cases "ag_value_check E \<and> \<not> lv_value_checked w")
    case False
    then have "accepted_stage E k v meta cap st = execute_stage E k w meta cap sp st"
      using sp by (auto simp: accepted_stage_def w_def Let_def)
    with execute_stage_ok [OF l, of meta cap sp] ap show ?thesis by (simp add: w_def)
  next
    case True
    obtain vr st1 where vr: "filter_value_round E sql (lv_initial w) (lv_corrections w) st = (vr, st1)" by fastforce
    define w1 where "w1 = w\<lparr>lv_value_checked := True, lv_value_audit := vr_audit vr,
        lv_value_prompts := (case vr_prompt vr of None \<Rightarrow> lv_value_prompts w | Some p \<Rightarrow> [p]),
        lv_extra := (case vr_prompt vr of None \<Rightarrow> lv_extra w | Some _ \<Rightarrow> 1)\<rparr>"
    have z: "lv_extra w = 0" using l True by (simp add: loop_ok_def extra_ok_def)
    from l have "lv_initial w \<in> set B" "trace_ok E B st0 (Suc k + fell st) st"
      by (simp_all add: loop_ok_def z)
    note fe = filter_value_round_effect [OF vr this]
    have l1: "loop_ok E B st0 (Suc k) w1 st1"
      using l fe True by (simp add: loop_ok_def w1_def extra_ok_def z route_ok_cong [of st1 st] fell_cong [of st1 st]
          split: option.splits)
    have sql1: "lv_sql w1 = sql" by (simp add: w1_def w_def)
    show ?thesis
    proof (cases "vr_executed vr")
      case None
      then have "accepted_stage E k v meta cap st = execute_stage E k w1 meta cap sp st1"
        using sp vr True by (auto simp: accepted_stage_def w_def w1_def Let_def split: option.split)
      with execute_stage_ok [OF l1, of meta cap sp] ap sql1 show ?thesis by simp
    next
      case (Some ex)
      obtain df s raw2 meta2 c2 where ex: "ex = (df, s, raw2, meta2, c2)" by (cases ex) auto
      with fe Some obtain pr where "approved E s" and pr: "vr_prompt vr = Some pr" by auto
      with leave_result [OF l1] show ?thesis
        using sp vr True Some ex pr by (auto simp: accepted_stage_def outcome_ok_def w_def w1_def Let_def)
    qed
  qed
qed

lemma guard_stage_ok:
  assumes "loop_ok E B st0 (Suc k) v st"
  shows "outcome_ok E B st0 k (guard_stage E k v meta st)"
proof (cases "clean_validate_cap E (lv_raw v)")
  case (Inr sc)
  obtain sql cap where sc: "sc = (sql, cap)" by fastforce
  have "loop_ok E B st0 (Suc k) (v\<lparr>lv_sql := sql\<rparr>) st" using assms by (simp add: loop_ok_def extra_ok_def)
  from accepted_stage_ok [OF this, of "lv_raw v" cap] Inr sc show ?thesis by (simp add: guard_stage_def)
next
  case (Inl ec)
  obtain e cand where ec: "ec = (e, cand)" by fastforce
  have "loop_ok E B st0 (Suc k) (v\<lparr>lv_last_error := m, lv_last_exception := x\<rparr>) st" for m x
    using assms by (simp add: loop_ok_def extra_ok_def)
  then show ?thesis
    using Inl ec leave_failure [OF assms]
    by (cases e) (simp_all add: guard_stage_def outcome_ok_def guard_failure_def bare_failure_def)
qed


text \<open>The base prompts of a request: the first one, and that of the source a retry would go to.\<close>

definition bases :: "('w, 'd) agent_env \<Rightarrow> prompt_segments \<Rightarrow> source_routing option \<Rightarrow> prompt_segments list" where
  "bases E initial routing =
     initial # (case Option.bind routing following_source of None \<Rightarrow> [] | Some src \<Rightarrow> [ag_build E src])"

lemma route_ok_next:
  assumes "route_ok st0 st" "as_routing st = Some rt" "following_source rt = Some src"
  shows "ag_build E src \<in> set (bases E initial (as_routing st0)) \<and> as_routing st = as_routing st0
    \<and> fell st = 0 \<and> may_fall st0 = 1"
proof -
  have n: "so_fallback_from rt = None" using assms(3) by (auto simp: following_source_def split: if_splits)
  then have "fell st = 0" using assms(2) by (simp add: fell_def)
  with assms(1) have r: "as_routing st = as_routing st0" by (simp add: route_ok_def)
  then have "as_routing st0 = Some rt" using assms(2) by simp
  with assms(3) have "ag_build E src \<in> set (bases E initial (as_routing st0))" "may_fall st0 = 1"
    by (simp_all add: bases_def may_fall_def can_fall_back_iff)
  with r \<open>fell st = 0\<close> show ?thesis by simp
qed

lemma add_correction_simps [simp]:
  "lv_initial (add_correction E rt v) = lv_initial v" "lv_extra (add_correction E rt v) = lv_extra v"
  "lv_value_checked (add_correction E rt v) = lv_value_checked v" "lv_sql (add_correction E rt v) = lv_sql v"
  by (simp_all add: add_correction_def Let_def)

lemma agent_round_ok:
  assumes "loop_ok E (bases E initial (as_routing st0)) st0 k v st"
  shows "outcome_ok E (bases E initial (as_routing st0)) st0 k (agent_round E k v st)"
proof -
  let ?B = "bases E initial (as_routing st0)"
  define v1 where "v1 = (if k = 0 then v else add_correction E (as_routing st) v)"
  define segs where "segs = (if k = 0 then lv_initial v else with_corrections (lv_initial v1) (lv_corrections v1))"
  have v1: "lv_initial v1 = lv_initial v" "lv_extra v1 = lv_extra v" "lv_value_checked v1 = lv_value_checked v"
    by (simp_all add: v1_def)
  have base: "made_from ?B segs"
    using assms made_from_base made_from_corrections v1(1) by (auto simp: segs_def loop_ok_def)
  have t0: "trace_ok E ?B st0 (k + lv_extra v + fell st) st" and ex: "extra_ok E v"
    and init: "lv_initial v \<in> set ?B" and ro: "route_ok st0 st"
    using assms by (simp_all add: loop_ok_def)
  obtain res routing st1 where g:
    "generate_with_source_fallback (ag_build E) (generate_sql E) (as_routing st) segs st = (res, routing, st1)"
    by (metis prod_cases3)
  define st2 where "st2 = st1\<lparr>as_routing := routing\<rparr>"
  have round: "agent_round E k v st = (case res of
      Inl e \<Rightarrow> Leave (Inl (bare_failure (unwrap e))) st2
    | Inr (rr, replaced) \<Rightarrow>
        guard_stage E k ((case replaced of None \<Rightarrow> v1 | Some s \<Rightarrow> v1\<lparr>lv_initial := s, lv_corrections := []\<rparr>)
          \<lparr>lv_raw := (case rr_text rr of None \<Rightarrow> [] | Some t \<Rightarrow> t)\<rparr>) (rr_meta rr) st2)"
    unfolding agent_round_def Let_def v1_def [symmetric] segs_def [symmetric] g
    by (simp add: st2_def split: sum.split prod.split)
  have "trace_ok E ?B st0 (Suc k + lv_extra v + fell st2) st2 \<and> route_ok st0 st2
    \<and> (\<forall>rr s. res = Inr (rr, Some s) \<longrightarrow> s \<in> set ?B)"
    using g
  proof (cases rule: generate_fallback_cases)
    case (once r)
    note ge = generate_sql_effect [OF once(1)]
    have r2: "as_routing st2 = as_routing st" using once by (simp add: st2_def)
    have "trace_ok E ?B st0 (Suc (k + lv_extra v + fell st)) st2"
      by (rule trace_ok_prompt [OF t0 _ base]) (use ge in \<open>simp_all add: st2_def\<close>)
    with r2 ro once show ?thesis
      by (cases r) (simp_all add: route_ok_cong [OF r2] fell_cong [OF r2])
  next
    case (twice e s1 rt rt' src r)
    note g1 = generate_sql_effect [OF twice(1)] and g2 = generate_sql_effect [OF twice(10)]
    note nx = route_ok_next [OF ro twice(3,4), of E initial]
    have t1: "trace_ok E ?B st0 (Suc (k + lv_extra v + fell st)) s1"
      by (rule trace_ok_prompt [OF t0 _ base]) (use g1 in simp_all)
    have mb: "made_from ?B (ag_build E src)" using nx by (blast intro: made_from_base)
    have "trace_ok E ?B st0 (Suc (Suc (k + lv_extra v + fell st))) st2"
      by (rule trace_ok_prompt [OF t1 _ mb]) (use g2 in \<open>simp_all add: st2_def\<close>)
    moreover have "fell st2 = 1" using twice by (simp add: st2_def fell_def)
    ultimately show ?thesis using nx twice by (cases r) (simp_all add: route_ok_def)
  qed
  then have t2: "trace_ok E ?B st0 (Suc k + lv_extra v + fell st2) st2" and r2: "route_ok st0 st2"
    and rep: "\<And>rr s. res = Inr (rr, Some s) \<Longrightarrow> s \<in> set ?B" by auto
  show ?thesis
  proof (cases res)
    case (Inl e)
    have "loop_ok E ?B st0 (Suc k) v st2" using t2 r2 ex init by (simp add: loop_ok_def)
    from leave_failure [OF this] show ?thesis
      unfolding round Inl by (simp add: outcome_ok_def bare_failure_def)
  next
    case (Inr p)
    obtain rr replaced where p: "p = (rr, replaced)" by fastforce
    have "loop_ok E ?B st0 (Suc k)
        ((case replaced of None \<Rightarrow> v1 | Some s \<Rightarrow> v1\<lparr>lv_initial := s, lv_corrections := []\<rparr>)
          \<lparr>lv_raw := (case rr_text rr of None \<Rightarrow> [] | Some t \<Rightarrow> t)\<rparr>) st2"
      using t2 r2 ex init v1 rep Inr p by (cases replaced) (simp_all add: loop_ok_def extra_ok_def)
    from guard_stage_ok [OF this] show ?thesis unfolding round Inr p by simp
  qed
qed

text \<open>The last round of the budget always leaves the loop.\<close>

lemma last_round_leaves:
  assumes "int k = ag_max_corrections E"
  shows "\<exists>r st'. agent_round E k v st = Leave r st'"
proof -
  have ex: "\<exists>r st'. execute_stage E k w meta cap sp t = Leave r st'" for w meta cap sp t
    using assms by (auto simp: execute_stage_def split: sum.split prod.split)
  have ac: "\<exists>r st'. accepted_stage E k w meta cap t = Leave r st'" for w meta cap t
    using ex by (auto simp: accepted_stage_def Let_def split: prod.split option.split)
  have gs: "\<exists>r st'. guard_stage E k w meta t = Leave r st'" for w meta t
    using assms ac by (auto simp: guard_stage_def split: sum.split prod.split py_error.split)
  show ?thesis
    using gs by (auto simp: agent_round_def Let_def split: sum.split prod.split)
qed

lemma attempt_loop_ok:
  "loop_ok E (bases E initial (as_routing st0)) st0 k v st \<Longrightarrow> attempt_loop E (Suc n) k v st = (r, st') \<Longrightarrow>
     int (k + Suc n) = ag_max_corrections E + 1 \<Longrightarrow>
     \<exists>j. k \<le> j \<and> j \<le> k + n \<and> leave_ok E (bases E initial (as_routing st0)) st0 j r st'"
proof (induction n arbitrary: k v st)
  case 0
  then have "int k = ag_max_corrections E" by simp
  then obtain r1 st1 where "agent_round E k v st = Leave r1 st1" using last_round_leaves by blast
  with 0 agent_round_ok [OF 0(1)] show ?case
    by (intro exI [of _ k]) (simp add: outcome_ok_def)
next
  case (Suc n)
  show ?case
  proof (cases "agent_round E k v st")
    case (Leave r1 st1)
    with Suc.prems agent_round_ok [OF Suc.prems(1)] show ?thesis
      by (intro exI [of _ k]) (simp add: outcome_ok_def)
  next
    case (Again v1 st1)
    with agent_round_ok [OF Suc.prems(1)] have "loop_ok E (bases E initial (as_routing st0)) st0 (Suc k) v1 st1"
      by (simp add: outcome_ok_def)
    from Suc.IH [OF this] Suc.prems Again obtain j where "Suc k \<le> j" "j \<le> Suc k + n"
      "leave_ok E (bases E initial (as_routing st0)) st0 j r st'" by auto
    then show ?thesis by (intro exI [of _ j]) simp
  qed
qed


section \<open>What a request does\<close>

lemma agent_run_ok:
  assumes "agent_run E selection plain ls = (r, st')" "0 \<le> ag_max_corrections E"
  defines "routing \<equiv> plan_routing (ag_build E) selection"
  defines "initial \<equiv> (case routing of None \<Rightarrow> plain | Some rt \<Rightarrow> so_segments rt)"
  defines "st0 \<equiv> \<lparr>as_llm = ls, as_routing = routing, as_prompts = [], as_executed = []\<rparr>"
  shows "\<exists>j x. int j \<le> ag_max_corrections E \<and> x \<le> (if ag_value_check E then 1 else (0::nat))
    \<and> trace_ok E (bases E initial routing) st0 (Suc j + x + fell st') st' \<and> route_ok st0 st'
    \<and> (case r of
         Inr (df, g) \<Rightarrow> gr_attempt g = Suc j + x \<and> approved E (gr_sql g)
       | Inl f \<Rightarrow> (case fl_attempt f of None \<Rightarrow> True | Some n \<Rightarrow> n = Suc j + x))"
proof -
  obtain n where n: "nat (ag_max_corrections E + 1) = Suc n" "int (0 + Suc n) = ag_max_corrections E + 1"
    using assms(2) by (intro that [of "nat (ag_max_corrections E)"]) auto
  obtain r0 st1 where l: "attempt_loop E (Suc n) 0 (start_vars initial) st0 = (r0, st1)" by fastforce
  have "loop_ok E (bases E initial (as_routing st0)) st0 0 (start_vars initial) st0"
  proof -
    have "fell st0 = 0"
      by (simp add: fell_def st0_def routing_def plan_routing_def new_routing_def split: option.split)
    then show ?thesis
      by (simp add: loop_ok_def trace_ok_start extra_ok_def route_ok_def start_vars_def bases_def)
  qed
  from attempt_loop_ok [OF this l n(2)] obtain j where j: "j \<le> n"
    "leave_ok E (bases E initial routing) st0 j r0 st1" by (auto simp: st0_def)
  have run: "agent_run E selection plain ls = (case as_routing st1 of None \<Rightarrow> (r0, st1)
      | Some rt \<Rightarrow> (map_sum (\<lambda>f. f\<lparr>fl_selection := Some (routing_audit rt)\<rparr>)
                     (\<lambda>(df, g). (df, g\<lparr>gr_selection := Some (routing_audit rt)\<rparr>)) r0, st1))"
    unfolding agent_run_def Let_def routing_def [symmetric] initial_def [symmetric] st0_def [symmetric] n(1) l
    by simp
  have st: "st' = st1" using run assms(1) by (simp split: option.splits)
  have jm: "int j \<le> ag_max_corrections E" using j(1) n by simp
  from j(2) obtain x where x: "x \<le> (if ag_value_check E then 1 else 0)"
    "trace_ok E (bases E initial routing) st0 (Suc j + x + fell st1) st1" "route_ok st0 st1"
    "case r0 of Inr (df, g) \<Rightarrow> gr_attempt g = Suc j + x \<and> approved E (gr_sql g)
      | Inl f \<Rightarrow> (case fl_attempt f of None \<Rightarrow> True | Some n \<Rightarrow> n = Suc j + x)"
    unfolding leave_ok_def by blast
  have "case r of
         Inr (df, g) \<Rightarrow> gr_attempt g = Suc j + x \<and> approved E (gr_sql g)
       | Inl f \<Rightarrow> (case fl_attempt f of None \<Rightarrow> True | Some n \<Rightarrow> n = Suc j + x)"
  proof (cases "as_routing st1")
    case None
    with run assms(1) have "r = r0" by simp
    with x(4) show ?thesis by simp
  next
    case (Some rt)
    with run assms(1) have "r = map_sum (\<lambda>f. f\<lparr>fl_selection := Some (routing_audit rt)\<rparr>)
        (\<lambda>(df, g). (df, g\<lparr>gr_selection := Some (routing_audit rt)\<rparr>)) r0" by simp
    with x(4) show ?thesis by (cases r0) auto
  qed
  with jm x(1-3) show ?thesis unfolding st by (intro exI [of _ j] exI [of _ x]) simp
qed

lemma route_ok_fell:
  assumes "route_ok \<lparr>as_llm = ls, as_routing = plan_routing build selection, as_prompts = [], as_executed = []\<rparr> st'"
  shows "fell st' \<le> (case selection of None \<Rightarrow> 0 | Some _ \<Rightarrow> 1)"
  using assms by (auto simp: route_ok_def fell_def may_fall_def plan_routing_def new_routing_def split: option.splits if_splits)

text \<open>
  C20. The cost of a request is bounded and reported truthfully: it asks the model at most
  \<open>max_corrections + 1\<close> times, plus one retry on another data source when several are configured and
  one correction of a filter value when that check is on. A result's \<open>attempt\<close>, and that of an
  exception that carries one, is the number of prompts sent, not counting the prompt a source
  declined.
\<close>

theorem agent_calls_bounded:
  assumes "agent_run E selection plain ls = (r, st')" "0 \<le> ag_max_corrections E"
  shows "int (length (as_prompts st')) \<le> ag_max_corrections E + 1
      + (case selection of None \<Rightarrow> 0 | Some _ \<Rightarrow> 1) + (if ag_value_check E then 1 else 0)
    \<and> (case r of
         Inr (df, g) \<Rightarrow> length (as_prompts st') = gr_attempt g + fell st'
       | Inl f \<Rightarrow> (case fl_attempt f of None \<Rightarrow> True | Some n \<Rightarrow> length (as_prompts st') = n + fell st'))"
proof -
  from agent_run_ok [OF assms] obtain j x where jx: "int j \<le> ag_max_corrections E"
    "x \<le> (if ag_value_check E then 1 else 0)" "length (as_prompts st') = Suc j + x + fell st'"
    "fell st' \<le> (case selection of None \<Rightarrow> 0 | Some _ \<Rightarrow> 1)"
    and r: "case r of Inr (df, g) \<Rightarrow> gr_attempt g = Suc j + x \<and> approved E (gr_sql g)
       | Inl f \<Rightarrow> (case fl_attempt f of None \<Rightarrow> True | Some n \<Rightarrow> n = Suc j + x)"
    by (auto simp: trace_ok_def dest: route_ok_fell)
  have "int (length (as_prompts st')) \<le> ag_max_corrections E + 1
      + (case selection of None \<Rightarrow> 0 | Some _ \<Rightarrow> 1) + (if ag_value_check E then 1 else 0)"
    using jx by (cases selection) (auto split: if_splits)
  moreover have "case r of
         Inr (df, g) \<Rightarrow> length (as_prompts st') = gr_attempt g + fell st'
       | Inl f \<Rightarrow> (case fl_attempt f of None \<Rightarrow> True | Some n \<Rightarrow> length (as_prompts st') = n + fell st')"
    using r jx(3) by (auto split: sum.splits option.splits)
  ultimately show ?thesis by (rule conjI)
qed

text \<open>
  C8. No statement reaches the database that the SQL guard did not accept: every executed
  statement, on the first attempt, after corrections and in the filter value round alike, is one
  the guard accepted or the respelling of one, and so is the statement reported with the result.
\<close>

theorem only_approved_statements_run:
  assumes "agent_run E selection plain ls = (r, st')" "0 \<le> ag_max_corrections E"
  shows "list_all (approved E) (as_executed st')
    \<and> (case r of Inr (df, g) \<Rightarrow> approved E (gr_sql g) | Inl f \<Rightarrow> True)"
  using agent_run_ok [OF assms] by (auto simp: trace_ok_def split: sum.splits)

text \<open>
  Prefix invariance: every prompt of a request has the cached prefix and the session context
  of its first prompt, or of the prompt built for the one source a retry goes to, and only adds
  text at the end of that prompt's question segment. Corrections never touch the prefix.
\<close>

theorem prompts_keep_prefix:
  assumes "agent_run E selection plain ls = (r, st')" "0 \<le> ag_max_corrections E"
  shows "list_all (made_from (case plan_routing (ag_build E) selection of
       None \<Rightarrow> [plain]
     | Some rt \<Rightarrow> so_segments rt # (case following_source rt of None \<Rightarrow> [] | Some src \<Rightarrow> [ag_build E src])))
    (as_prompts st')"
proof -
  from agent_run_ok [OF assms] have "list_all (made_from (bases E
      (case plan_routing (ag_build E) selection of None \<Rightarrow> plain | Some rt \<Rightarrow> so_segments rt)
      (plan_routing (ag_build E) selection))) (as_prompts st')"
    by (auto simp: trace_ok_def)
  then show ?thesis by (cases "plan_routing (ag_build E) selection") (simp_all add: bases_def)
qed

text \<open>
  A correction can show the model a statement it did not just write: when an earlier statement
  failed in the database and the next answer is rejected by the guard, the correction that follows
  pairs the earlier statement with the guard's error about the rejected one, which is not shown.
\<close>

theorem rejected_answer_not_shown:
  assumes "lv_sql v \<noteq> []" "clean_validate_cap E (lv_raw v) = Inl (Correctable_rejection m, cand)"
    and "int k \<noteq> ag_max_corrections E"
  shows "\<exists>v' hint. guard_stage E k v meta st = Again v' st
    \<and> last (lv_corrections (add_correction E routing v'))
       = correction_template (lv_sql v) (ag_show E (Correctable_rejection m)) hint"
  using assms by (auto simp: guard_stage_def add_correction_def Let_def)


section \<open>A concrete request\<close>

text \<open>
  The model first writes a statement the database refuses, then one the guard refuses, then a good
  one; the world counts the calls.
\<close>

definition example_model :: "nat backend" where
  "example_model =
     \<lparr>be_name = u ''m'', be_endpoint = J_null, be_trusted = J_bool True,
      be_call = (\<lambda>req n. (Inr \<lparr>lr_text = Some (if n = 0 then u ''boom'' else if n = 2 then u ''bad'' else u ''good''),
                             lr_structured = None, lr_meta = []\<rparr>, 1, Suc n)),
      be_warm = None\<rparr>"

definition example_agent :: "(nat, nat) agent_env" where
  "example_agent =
     \<lparr>ag_llm = example_llm_env,
      ag_router = \<lparr>ro_chains = [], ro_default_chain = [example_model], ro_budgets = []\<rparr>,
      ag_build = (\<lambda>_. example_segments),
      ag_guard = \<lparr>gd_clean = Inr,
                  gd_validate = (\<lambda>s. if s = u ''bad'' then Some (Correctable_rejection (u ''unknown table'')) else None),
                  gd_ensure_top = (\<lambda>s n. Inr s), gd_transpile = Inr\<rparr>,
      ag_execute = (\<lambda>s n. (if s = u ''boom'' then Inl (Runtime_error (u ''timeout'')) else Inr n, Suc n)),
      ag_cache_lookup = None, ag_respell = (\<lambda>s n. (s, None)),
      ag_check_values = (\<lambda>s n. \<lparr>vc_checked = 0, vc_unknown = []\<rparr>), ag_correction_text = (\<lambda>s c. []),
      ag_hint = (\<lambda>e s. []),
      ag_show = (\<lambda>e. case e of Correctable_rejection m \<Rightarrow> m | Runtime_error m \<Rightarrow> m | _ \<Rightarrow> []),
      ag_max_corrections = 2, ag_default_top_n = 100, ag_value_spelling = False, ag_value_check = False\<rparr>"

declare example_model_def [ev] example_agent_def [ev]

theorem agent_calls_bounded_witness:
  "int (length (as_prompts (snd (agent_run example_agent None example_segments example_llm_state)))) \<le> 3
    \<and> (case fst (agent_run example_agent None example_segments example_llm_state) of
         Inr (df, g) \<Rightarrow> length (as_prompts (snd (agent_run example_agent None example_segments example_llm_state)))
           = gr_attempt g + fell (snd (agent_run example_agent None example_segments example_llm_state))
       | Inl f \<Rightarrow> (case fl_attempt f of None \<Rightarrow> True
           | Some n \<Rightarrow> length (as_prompts (snd (agent_run example_agent None example_segments example_llm_state)))
               = n + fell (snd (agent_run example_agent None example_segments example_llm_state))))"
proof -
  have m: "ag_max_corrections example_agent = 2" "\<not> ag_value_check example_agent" by (simp_all add: example_agent_def)
  from agent_calls_bounded [where E = example_agent and selection = None and plain = example_segments
      and ls = example_llm_state, OF surjective_pairing]
  show ?thesis by (simp add: m)
qed

theorem only_approved_statements_run_witness:
  "list_all (approved example_agent) (as_executed (snd (agent_run example_agent None example_segments example_llm_state)))
    \<and> (case fst (agent_run example_agent None example_segments example_llm_state) of
         Inr (df, g) \<Rightarrow> approved example_agent (gr_sql g) | Inl f \<Rightarrow> True)"
  by (rule only_approved_statements_run [OF surjective_pairing]) (simp add: example_agent_def)

theorem prompts_keep_prefix_witness:
  "list_all (made_from [example_segments])
     (as_prompts (snd (agent_run example_agent None example_segments example_llm_state)))"
proof -
  have m: "0 \<le> ag_max_corrections example_agent" by (simp add: example_agent_def)
  from prompts_keep_prefix [where E = example_agent and selection = None and plain = example_segments
      and ls = example_llm_state, OF surjective_pairing m]
  show ?thesis by (simp add: plan_routing_def)
qed

theorem rejected_answer_not_shown_witness:
  defines "v \<equiv> (start_vars example_segments)\<lparr>lv_sql := u ''boom'', lv_raw := u ''bad''\<rparr>"
    and "st \<equiv> \<lparr>as_llm = example_llm_state, as_routing = None, as_prompts = [], as_executed = []\<rparr>"
  shows "\<exists>v' hint. guard_stage example_agent 1 v [] st = Again v' st
    \<and> last (lv_corrections (add_correction example_agent None v'))
       = correction_template (u ''boom'') (ag_show example_agent (Correctable_rejection (u ''unknown table''))) hint"
proof -
  have "lv_sql v \<noteq> []" "lv_sql v = u ''boom''" "int 1 \<noteq> ag_max_corrections example_agent"
    "clean_validate_cap example_agent (lv_raw v) = Inl (Correctable_rejection (u ''unknown table''), Some (u ''bad''))"
    by (simp_all add: v_def clean_validate_cap_def example_agent_def)
  from rejected_answer_not_shown [OF this(1,4,3), of "[]" st None] this(2) show ?thesis by simp
qed



end
