(* ===== verification/Key_Store.thy ===== *)
theory Key_Store
  imports Auth
begin

text \<open>
  \<open>appdb/key_store.py\<close> and \<open>appdb/roles.py\<close>: the API keys of the application database, the
  in-memory cache of the usable ones, and the capability grants. The state is the two tables and
  the cache; an operation that finds the database unreachable gets \<open>reachable = False\<close>. Timestamps
  and the raw key of a new entry are arguments.
\<close>

section \<open>Tables and state\<close>

record key_row =
  kr_principal :: ustr
  kr_name :: ustr
  kr_denied :: "ustr list"
  kr_source :: ustr
  kr_created :: ustr
  kr_updated :: ustr
  kr_disabled :: "ustr option"
  kr_revoked :: "ustr option"

record key_state =
  ks_keys :: "(ustr, key_row) odict"
  ks_roles :: "(ustr \<times> ustr, ustr \<times> ustr) odict"
  ks_cached :: "(ustr, principal) odict option"
  ks_cached_at :: rat

record key_env =
  ke_auth :: auth_env
  ke_env_keys :: "key_config_error + (ustr, principal) odict"
  ke_ttl :: rat
  ke_schema_columns :: "(ustr, ustr list) odict"

datatype key_store_error =
    Key_not_found ustr
  | Ambiguous_identity ustr
  | Key_config key_config_error
  | Acl_error policy_error
  | Key_exists ustr
  | Database_unreachable
  | Last_admin
  | Environment_granted

definition invalidate_cache :: "key_state \<Rightarrow> key_state" where
  "invalidate_cache st = st\<lparr>ks_cached := None, ks_cached_at := 0\<rparr>"

definition maximally_restrictive_denied_columns :: "key_env \<Rightarrow> ustr list" where
  "maximally_restrictive_denied_columns E =
     sort (remdups (concat (map snd (ke_schema_columns E))))"

section \<open>Start-up\<close>

definition imported_row :: "ustr \<Rightarrow> principal \<Rightarrow> key_row" where
  "imported_row now p =
     \<lparr>kr_principal = pr_id p, kr_name = pr_name p, kr_denied = pr_denied p,
      kr_source = u ''imported_from_env'', kr_created = now, kr_updated = now,
      kr_disabled = None, kr_revoked = None\<rparr>"

definition hashes_of :: "(ustr, key_row) odict \<Rightarrow> ustr \<Rightarrow> ustr list" where
  "hashes_of rows pid = map fst (filter (\<lambda>(h, r). kr_principal r = pid) rows)"

definition ambiguous :: "(ustr, key_row) odict \<Rightarrow> ustr \<times> principal \<Rightarrow> bool" where
  "ambiguous rows e =
     (hashes_of rows (pr_id (snd e)) \<noteq> [] \<and> fst e \<notin> set (hashes_of rows (pr_id (snd e))))"

text \<open>The import is committed before the identities are compared.\<close>

definition bootstrap_from_env :: "key_env \<Rightarrow> ustr \<Rightarrow> key_state \<Rightarrow> key_store_error option \<times> key_state" where
  "bootstrap_from_env E now st =
     (case ke_env_keys E of
        Inl e \<Rightarrow> (Some (Key_config e), st)
      | Inr env \<Rightarrow>
          (let rows = (if ks_keys st = [] then map (\<lambda>(h, p). (h, imported_row now p)) env else ks_keys st);
               st1 = st\<lparr>ks_keys := rows\<rparr>
           in case find (ambiguous rows) env of
                Some (h, p) \<Rightarrow> (Some (Ambiguous_identity (pr_id p)), st1)
              | None \<Rightarrow> (None, invalidate_cache st1)))"

section \<open>The usable keys\<close>

definition role_capabilities :: "key_state \<Rightarrow> ustr \<Rightarrow> ustr set" where
  "role_capabilities st pid = snd ` fst ` set (filter (\<lambda>g. fst (fst g) = pid) (ks_roles st))"

text \<open>A configuration that cannot be read counts as empty here; so does an unreachable database.\<close>

definition env_principals :: "key_env \<Rightarrow> (ustr, principal) odict" where
  "env_principals E = (case ke_env_keys E of Inl _ \<Rightarrow> [] | Inr env \<Rightarrow> env)"

definition load_db_rows :: "bool \<Rightarrow> key_state \<Rightarrow> (ustr, key_row \<times> ustr set) odict" where
  "load_db_rows reachable st =
     (if reachable then map (\<lambda>(h, r). (h, r, role_capabilities st (kr_principal r))) (ks_keys st) else [])"

definition usable :: "key_row \<Rightarrow> bool" where
  "usable r \<longleftrightarrow> kr_revoked r = None \<and> kr_disabled r = None"

definition row_principal :: "unicode_db \<Rightarrow> (ustr, principal) odict \<Rightarrow> ustr \<Rightarrow> key_row \<times> ustr set \<Rightarrow> principal" where
  "row_principal U env h rc =
     make_principal U (kr_principal (fst rc)) (kr_name (fst rc)) (clean_entries U (kr_denied (fst rc)))
       (snd rc \<union> (case map_of env h of None \<Rightarrow> {} | Some p \<Rightarrow> pr_capabilities p))"

definition merge_keys ::
    "unicode_db \<Rightarrow> (ustr, principal) odict \<Rightarrow> (ustr, key_row \<times> ustr set) odict \<Rightarrow> (ustr, principal) odict" where
  "merge_keys U env rows =
     map (\<lambda>(h, rc). (h, row_principal U env h rc)) (filter (\<lambda>(h, rc). usable (fst rc)) rows)
     @ filter (\<lambda>(h, p). h \<notin> set (od_keys rows)) env"

definition fresh_principals :: "key_env \<Rightarrow> bool \<Rightarrow> key_state \<Rightarrow> (ustr, principal) odict" where
  "fresh_principals E reachable st =
     merge_keys (ae_unicode (ke_auth E)) (env_principals E) (load_db_rows reachable st)"

definition get_active_principals ::
    "key_env \<Rightarrow> bool \<Rightarrow> rat \<Rightarrow> key_state \<Rightarrow> (ustr, principal) odict \<times> key_state" where
  "get_active_principals E reachable now st =
     (case (case ks_cached st of
              None \<Rightarrow> None
            | Some m \<Rightarrow> if ke_ttl E \<le> 0 \<or> now - ks_cached_at st < ke_ttl E then Some m else None) of
        Some m \<Rightarrow> (m, st)
      | None \<Rightarrow>
          (let m = fresh_principals E reachable st in (m, st\<lparr>ks_cached := Some m, ks_cached_at := now\<rparr>)))"

section \<open>The life of a key\<close>

definition issue_key ::
    "key_env \<Rightarrow> (ustr \<Rightarrow> ustr) \<Rightarrow> ustr \<Rightarrow> ustr \<Rightarrow> ustr \<Rightarrow> ustr \<Rightarrow> key_state
     \<Rightarrow> (key_store_error + ustr \<times> key_row) \<times> key_state" where
  "issue_key E sha256 raw_key pid name now st =
     (let h = sha256 raw_key;
          row = \<lparr>kr_principal = pid, kr_name = name,
                 kr_denied = maximally_restrictive_denied_columns E, kr_source = u ''issued'',
                 kr_created = now, kr_updated = now, kr_disabled = None, kr_revoked = None\<rparr>
      in if h \<in> set (od_keys (ks_keys st)) then (Inl (Key_exists h), st)
         else (Inr (raw_key, row), invalidate_cache (st\<lparr>ks_keys := AList.update h row (ks_keys st)\<rparr>)))"

text \<open>The update of one row by its primary key.\<close>

definition change_row ::
    "ustr \<Rightarrow> (key_row \<Rightarrow> key_row) \<Rightarrow> key_state \<Rightarrow> key_store_error option \<times> key_state" where
  "change_row h f st =
     (case map_of (ks_keys st) h of
        None \<Rightarrow> (Some (Key_not_found h), st)
      | Some r \<Rightarrow> (None, invalidate_cache (st\<lparr>ks_keys := AList.update h (f r) (ks_keys st)\<rparr>)))"

definition set_disabled :: "ustr \<Rightarrow> bool \<Rightarrow> ustr \<Rightarrow> key_state \<Rightarrow> key_store_error option \<times> key_state" where
  "set_disabled h disabled now st =
     change_row h (\<lambda>r. r\<lparr>kr_disabled := (if disabled then Some now else None), kr_updated := now\<rparr>) st"

definition revoke_key :: "ustr \<Rightarrow> ustr \<Rightarrow> key_state \<Rightarrow> key_store_error option \<times> key_state" where
  "revoke_key h now st = change_row h (\<lambda>r. r\<lparr>kr_revoked := Some now, kr_updated := now\<rparr>) st"

definition write_denied_columns :: "unicode_db \<Rightarrow> ustr list \<Rightarrow> ustr \<Rightarrow> key_row \<Rightarrow> key_row" where
  "write_denied_columns U denied now r = r\<lparr>kr_denied := clean_entries U denied, kr_updated := now\<rparr>"

definition update_denied_columns ::
    "key_env \<Rightarrow> ustr \<Rightarrow> denied_arg \<Rightarrow> ustr \<Rightarrow> key_state \<Rightarrow> (key_store_error + ustr list) \<times> key_state" where
  "update_denied_columns E h arg now st =
     (case arg of
        One_string s \<Rightarrow> (Inl (Acl_error Single_string), st)
      | _ \<Rightarrow>
          (let A = ke_auth E;
               items = (case arg of Entries items \<Rightarrow> items | _ \<Rightarrow> []);
               stored = ne_entries (normalize_denied_entries (ae_unicode A) items)
           in case parse_column_policy (ae_parser A) (ae_deployment A) (ae_unicode A) True (ae_view A)
                     (Entries stored) of
                Inl e \<Rightarrow> (Inl (Acl_error e), st)
              | Inr _ \<Rightarrow>
                  (case change_row h (write_denied_columns (ae_unicode A) (map text_of_item stored) now) st of
                     (Some e, st') \<Rightarrow> (Inl e, st')
                   | (None, st') \<Rightarrow> (Inr (map text_of_item stored), st'))))"

text \<open>Newest first; rows of equal age keep their order.\<close>

definition list_keys :: "key_state \<Rightarrow> (ustr, key_row) odict" where
  "list_keys st = rev (sort_key (\<lambda>e. kr_created (snd e)) (rev (ks_keys st)))"

section \<open>Capability grants\<close>

definition env_holders :: "key_env \<Rightarrow> ustr \<Rightarrow> ustr set" where
  "env_holders E c = pr_id ` snd ` set (filter (\<lambda>e. c \<in> pr_capabilities (snd e)) (env_principals E))"

definition db_holders :: "bool \<Rightarrow> key_state \<Rightarrow> ustr \<Rightarrow> ustr set" where
  "db_holders reachable st c = (if reachable then fst ` fst ` set (filter (\<lambda>g. snd (fst g) = c) (ks_roles st)) else {})"

definition holders :: "key_env \<Rightarrow> bool \<Rightarrow> key_state \<Rightarrow> ustr \<Rightarrow> ustr set" where
  "holders E reachable st c = env_holders E c \<union> db_holders reachable st c"

definition grant_role :: "ustr \<Rightarrow> ustr \<Rightarrow> ustr \<Rightarrow> ustr \<Rightarrow> key_state \<Rightarrow> key_state" where
  "grant_role pid c by_whom now st =
     invalidate_cache
       (if (pid, c) \<in> set (od_keys (ks_roles st)) then st
        else st\<lparr>ks_roles := AList.update (pid, c) (now, by_whom) (ks_roles st)\<rparr>)"

text \<open>
  \<open>revoke\<close> reads the holders and deletes the grant in two transactions: \<open>check_reachable\<close> is the
  state of the database during the first.
\<close>

definition revoke_check :: "key_env \<Rightarrow> bool \<Rightarrow> ustr \<Rightarrow> ustr \<Rightarrow> key_state \<Rightarrow> key_store_error option" where
  "revoke_check E check_reachable pid c st =
     (if holders E check_reachable st c = {pid} then Some Last_admin
      else if pid \<in> env_holders E c then Some Environment_granted else None)"

definition delete_grant :: "ustr \<Rightarrow> ustr \<Rightarrow> key_state \<Rightarrow> key_state" where
  "delete_grant pid c st = invalidate_cache (st\<lparr>ks_roles := AList.delete (pid, c) (ks_roles st)\<rparr>)"

definition revoke_role ::
    "key_env \<Rightarrow> bool \<Rightarrow> ustr \<Rightarrow> ustr \<Rightarrow> key_state \<Rightarrow> key_store_error option \<times> key_state" where
  "revoke_role E check_reachable pid c st =
     (case revoke_check E check_reachable pid c st of
        Some e \<Rightarrow> (Some e, st)
      | None \<Rightarrow> (None, delete_grant pid c st))"

section \<open>Runs of operations\<close>

text \<open>Operations one after the other; a mutation of an unreachable database fails and changes nothing.\<close>

datatype key_op =
    Op_get rat
  | Op_bootstrap ustr
  | Op_issue ustr ustr ustr ustr
  | Op_set_disabled ustr bool ustr
  | Op_revoke ustr ustr
  | Op_update_acl ustr denied_arg ustr
  | Op_grant ustr ustr ustr ustr
  | Op_revoke_role ustr ustr

definition apply_op :: "key_env \<Rightarrow> (ustr \<Rightarrow> ustr) \<Rightarrow> key_op \<Rightarrow> key_state \<Rightarrow> key_state" where
  "apply_op E sha256 oper st =
     (case oper of
        Op_get now \<Rightarrow> snd (get_active_principals E True now st)
      | Op_bootstrap now \<Rightarrow> snd (bootstrap_from_env E now st)
      | Op_issue raw pid name now \<Rightarrow> snd (issue_key E sha256 raw pid name now st)
      | Op_set_disabled h d now \<Rightarrow> snd (set_disabled h d now st)
      | Op_revoke h now \<Rightarrow> snd (revoke_key h now st)
      | Op_update_acl h arg now \<Rightarrow> snd (update_denied_columns E h arg now st)
      | Op_grant pid c who now \<Rightarrow> grant_role pid c who now st
      | Op_revoke_role pid c \<Rightarrow> snd (revoke_role E True pid c st))"

definition run_ops :: "key_env \<Rightarrow> (ustr \<Rightarrow> ustr) \<Rightarrow> key_op list \<Rightarrow> key_state \<Rightarrow> key_state" where
  "run_ops E sha256 opers st = fold (apply_op E sha256) opers st"

section \<open>The cache agrees with the tables\<close>

declare invalidate_cache_def [ev] maximally_restrictive_denied_columns_def [ev] imported_row_def [ev]
  hashes_of_def [ev] ambiguous_def [ev] bootstrap_from_env_def [ev] role_capabilities_def [ev]
  env_principals_def [ev] load_db_rows_def [ev] usable_def [ev] row_principal_def [ev] merge_keys_def [ev]
  fresh_principals_def [ev] get_active_principals_def [ev] issue_key_def [ev] change_row_def [ev]
  set_disabled_def [ev] revoke_key_def [ev] env_holders_def [ev] db_holders_def [ev] holders_def [ev]
  revoke_check_def [ev] delete_grant_def [ev] revoke_role_def [ev] grant_role_def [ev]

definition coherent :: "key_env \<Rightarrow> key_state \<Rightarrow> bool" where
  "coherent E st = (case ks_cached st of None \<Rightarrow> True | Some m \<Rightarrow> m = fresh_principals E True st)"

lemma coherent_invalidate [simp]: "coherent E (invalidate_cache st)"
  by (simp add: coherent_def invalidate_cache_def)

lemma invalidate_tables [simp]:
  "ks_keys (invalidate_cache st) = ks_keys st" "ks_roles (invalidate_cache st) = ks_roles st"
  by (simp_all add: invalidate_cache_def)

lemma fresh_cong:
  "ks_keys st' = ks_keys st \<Longrightarrow> ks_roles st' = ks_roles st \<Longrightarrow>
     fresh_principals E reachable st' = fresh_principals E reachable st"
  by (simp add: fresh_principals_def load_db_rows_def role_capabilities_def)

lemma get_active_fresh:
  assumes "coherent E st"
  shows "fst (get_active_principals E True now st) = fresh_principals E True st"
    "coherent E (snd (get_active_principals E True now st))"
    "ks_keys (snd (get_active_principals E True now st)) = ks_keys st"
    "ks_roles (snd (get_active_principals E True now st)) = ks_roles st"
  using assms
  by (auto simp: get_active_principals_def coherent_def Let_def split: option.splits intro!: fresh_cong)

lemma change_row_coherent: "coherent E st \<Longrightarrow> coherent E (snd (change_row h f st))"
  by (simp add: change_row_def split: option.split)

lemma change_row_roles: "ks_roles (snd (change_row h f st)) = ks_roles st"
  by (simp add: change_row_def split: option.split)

lemma change_row_lookup:
  "map_of (ks_keys (snd (change_row h' f st))) h
     = (if h = h' then map_option f (map_of (ks_keys st) h) else map_of (ks_keys st) h)"
  by (auto simp: change_row_def update_conv' split: option.split)

lemma update_acl_effect:
  obtains "snd (update_denied_columns E h arg now st) = st"
  | f where "snd (update_denied_columns E h arg now st) = snd (change_row h f st)"
      "\<And>r. kr_revoked (f r) = kr_revoked r"
proof (cases "snd (update_denied_columns E h arg now st) = st")
  case False
  define A where "A = ke_auth E"
  define stored where "stored = ne_entries (normalize_denied_entries (ae_unicode A)
    (case arg of Entries items \<Rightarrow> items | _ \<Rightarrow> []))"
  let ?f = "write_denied_columns (ae_unicode A) (map text_of_item stored) now"
  have "snd (update_denied_columns E h arg now st) = snd (change_row h ?f st)"
  proof (cases arg)
    case (One_string s)
    with False show ?thesis by (simp add: update_denied_columns_def)
  next
    case No_entries
    with False show ?thesis
      by (auto simp: update_denied_columns_def Let_def A_def stored_def split: sum.splits prod.splits option.splits)
  next
    case (Entries items)
    with False show ?thesis
      by (auto simp: update_denied_columns_def Let_def A_def stored_def split: sum.splits prod.splits option.splits)
  qed
  then show ?thesis by (rule that(2)) (simp add: write_denied_columns_def)
qed (rule that(1))

text \<open>An import into an empty table never leaves an ambiguous identity.\<close>

lemma import_unambiguous:
  "find (ambiguous (map (\<lambda>(h, p). (h, imported_row now p)) env)) env = None"
proof -
  have "\<not> ambiguous (map (\<lambda>(h, p). (h, imported_row now p)) env) e" if "e \<in> set env" for e
  proof -
    obtain h p where e: "e = (h, p)" by fastforce
    have "h \<in> fst ` set (filter (\<lambda>(h, r). kr_principal r = pr_id p) (map (\<lambda>(h, p). (h, imported_row now p)) env))"
      using that by (force simp: e imported_row_def)
    then show ?thesis by (simp add: e ambiguous_def hashes_of_def)
  qed
  then show ?thesis by (simp add: find_None_iff)
qed

lemma bootstrap_effect:
  obtains "snd (bootstrap_from_env E now st) = st"
  | "snd (bootstrap_from_env E now st) = invalidate_cache st"
  | rows where "ks_keys st = []" "snd (bootstrap_from_env E now st) = invalidate_cache (st\<lparr>ks_keys := rows\<rparr>)"
proof (cases "ke_env_keys E")
  case (Inl e)
  then show ?thesis by (intro that(1)) (simp add: bootstrap_from_env_def)
next
  case (Inr env)
  show ?thesis
  proof (cases "ks_keys st = []")
    case True
    with Inr import_unambiguous [of now env] show ?thesis
      by (intro that(3)) (simp_all add: bootstrap_from_env_def Let_def)
  next
    case False
    have st: "st\<lparr>ks_keys := ks_keys st\<rparr> = st" by simp
    show ?thesis
    proof (cases "find (ambiguous (ks_keys st)) env")
      case None
      with Inr False st show ?thesis by (intro that(2)) (simp add: bootstrap_from_env_def)
    next
      case (Some e)
      with Inr False st show ?thesis by (intro that(1)) (simp add: bootstrap_from_env_def split: prod.split)
    qed
  qed
qed

lemma apply_op_coherent: "coherent E st \<Longrightarrow> coherent E (apply_op E sha256 oper st)"
proof (cases oper)
  case (Op_bootstrap now)
  assume c: "coherent E st"
  show ?thesis
    by (cases rule: bootstrap_effect [of E now st]) (use c in \<open>simp_all add: apply_op_def Op_bootstrap\<close>)
next
  case (Op_update_acl h arg now)
  assume c: "coherent E st"
  show ?thesis
    by (cases rule: update_acl_effect [of E h arg now st])
      (use c change_row_coherent in \<open>simp_all add: apply_op_def Op_update_acl\<close>)
qed (simp_all add: apply_op_def get_active_fresh issue_key_def Let_def set_disabled_def revoke_key_def
    change_row_coherent grant_role_def revoke_role_def delete_grant_def split: option.split)

lemma run_ops_coherent: "coherent E st \<Longrightarrow> coherent E (run_ops E sha256 opers st)"
  unfolding run_ops_def by (induction opers arbitrary: st) (simp_all add: apply_op_coherent)

section \<open>Revocation is final\<close>

definition is_revoked :: "ustr \<Rightarrow> key_state \<Rightarrow> bool" where
  "is_revoked h st = (case map_of (ks_keys st) h of None \<Rightarrow> False | Some r \<Rightarrow> kr_revoked r \<noteq> None)"

lemma is_revoked_cong: "ks_keys st' = ks_keys st \<Longrightarrow> is_revoked h st' = is_revoked h st"
  by (simp add: is_revoked_def)

lemma is_revoked_change_row:
  "(\<And>r. kr_revoked r \<noteq> None \<Longrightarrow> kr_revoked (f r) \<noteq> None) \<Longrightarrow> is_revoked h st \<Longrightarrow>
     is_revoked h (snd (change_row h' f st))"
  by (auto simp: is_revoked_def change_row_lookup split: option.splits)

lemma apply_op_revoked: "is_revoked h st \<Longrightarrow> is_revoked h (apply_op E sha256 oper st)"
proof (cases oper)
  case (Op_get now)
  assume r: "is_revoked h st"
  have "ks_keys (snd (get_active_principals E True now st)) = ks_keys st"
    by (auto simp: get_active_principals_def Let_def split: option.split)
  with r show ?thesis by (simp add: apply_op_def Op_get is_revoked_def)
next
  case (Op_bootstrap now)
  assume r: "is_revoked h st"
  show ?thesis
    by (cases rule: bootstrap_effect [of E now st])
      (use r in \<open>simp_all add: apply_op_def Op_bootstrap is_revoked_def\<close>)
next
  case (Op_update_acl h' arg now)
  assume r: "is_revoked h st"
  show ?thesis
    by (cases rule: update_acl_effect [of E h' arg now st])
      (use r is_revoked_change_row in \<open>simp_all add: apply_op_def Op_update_acl\<close>)
next
  case (Op_issue raw pid name now)
  assume r: "is_revoked h st"
  then have "h \<in> set (od_keys (ks_keys st))"
    by (auto simp: is_revoked_def od_keys_def split: option.splits dest: map_of_Some_key)
  with r show ?thesis
    by (auto simp: apply_op_def Op_issue issue_key_def Let_def is_revoked_def update_conv')
next
  case (Op_grant pid c who now)
  assume "is_revoked h st"
  then show ?thesis by (simp add: apply_op_def Op_grant grant_role_def is_revoked_def)
next
  case (Op_revoke_role pid c)
  assume r: "is_revoked h st"
  have "ks_keys (apply_op E sha256 oper st) = ks_keys st"
    by (simp add: apply_op_def Op_revoke_role revoke_role_def delete_grant_def split: option.split)
  with r show ?thesis by (simp only: is_revoked_def)
qed (simp_all add: apply_op_def set_disabled_def revoke_key_def is_revoked_change_row)

lemma run_ops_revoked: "is_revoked h st \<Longrightarrow> is_revoked h (run_ops E sha256 opers st)"
  unfolding run_ops_def by (induction opers arbitrary: st) (simp_all add: apply_op_revoked)

lemma map_of_filtered:
  assumes "distinct (map fst rows)"
  shows "map_of (map (\<lambda>(k, v). (k, F k v)) (filter (\<lambda>(k, v). P v) rows)) h
    = (case map_of rows h of None \<Rightarrow> None | Some v \<Rightarrow> if P v then Some (F h v) else None)"
  using assms
proof (induction rows)
  case (Cons e rows)
  obtain k v where e: "e = (k, v)" by fastforce
  show ?case
  proof (cases "h = k")
    case True
    with Cons.prems e have "map_of rows h = None" by (simp add: map_of_eq_None_iff)
    with Cons.IH Cons.prems True e show ?thesis by simp
  next
    case False
    with Cons.IH Cons.prems e show ?thesis by simp
  qed
qed simp

lemma merge_keys_lookup:
  assumes "od_ok rows" "map_of rows h = Some rc"
  shows "map_of (merge_keys U env rows) h = (if usable (fst rc) then Some (row_principal U env h rc) else None)"
proof -
  have k: "h \<in> set (od_keys rows)"
    using assms(2) by (auto simp: od_keys_def dest: map_of_Some_key)
  have e: "map_of (filter (\<lambda>(h, p). h \<notin> set (od_keys rows)) env) h = None"
    using k by (auto simp: map_of_eq_None_iff)
  have "map_of (map (\<lambda>(h, rc). (h, row_principal U env h rc)) (filter (\<lambda>(h, rc). usable (fst rc)) rows)) h
      = (if usable (fst rc) then Some (row_principal U env h rc) else None)"
    using assms map_of_filtered [of rows "row_principal U env" "\<lambda>rc. usable (fst rc)" h]
    by (simp add: od_ok_def)
  with e show ?thesis by (simp add: merge_keys_def map_add_def)
qed



section \<open>The last holder of a capability\<close>

lemma holders_grant: "holders E True st c \<subseteq> holders E True (grant_role pid c' who now st) c"
proof -
  have "set (ks_roles st) \<subseteq> set (ks_roles (grant_role pid c' who now st))"
  proof (cases "(pid, c') \<in> set (od_keys (ks_roles st))")
    case False
    then have "map_of (ks_roles st) (pid, c') = None" by (simp add: od_keys_def map_of_eq_None_iff)
    with False show ?thesis by (auto simp: grant_role_def update_new)
  qed (simp add: grant_role_def)
  then show ?thesis by (auto simp: holders_def db_holders_def)
qed

lemma holders_delete:
  "holders E True st c - {pid} \<subseteq> holders E True (delete_grant pid c' st) c"
  "c \<noteq> c' \<Longrightarrow> holders E True st c \<subseteq> holders E True (delete_grant pid c' st) c"
  by (force simp: holders_def db_holders_def delete_grant_def AList.delete_eq)+

lemma apply_op_holder:
  assumes "holders E True st c \<noteq> {}"
  shows "holders E True (apply_op E sha256 oper st) c \<noteq> {}"
proof -
  have same: "ks_roles st' = ks_roles st \<Longrightarrow> holders E True st' c \<noteq> {}" for st'
    using assms by (simp add: holders_def db_holders_def)
  show ?thesis
  proof (cases oper)
    case (Op_grant pid c' who now)
    with assms holders_grant [of E st c pid c' who now] show ?thesis by (auto simp: apply_op_def)
  next
    case (Op_revoke_role pid c')
    show ?thesis
    proof (cases "revoke_check E True pid c' st")
      case None
      then have "holders E True st c' \<noteq> {pid}" by (auto simp: revoke_check_def split: if_splits)
      with assms holders_delete(1) [of E st c pid c'] holders_delete(2) [of c c' E st pid] have "holders E True (delete_grant pid c' st) c \<noteq> {}"
        by (cases "c = c'") auto
      with None show ?thesis by (simp add: apply_op_def Op_revoke_role revoke_role_def)
    qed (use assms in \<open>simp add: apply_op_def Op_revoke_role revoke_role_def\<close>)
  next
    case (Op_get now)
    show ?thesis by (rule same) (auto simp: apply_op_def Op_get get_active_principals_def Let_def split: option.split)
  next
    case (Op_bootstrap now)
    show ?thesis
      by (rule same, cases rule: bootstrap_effect [of E now st]) (simp_all add: apply_op_def Op_bootstrap)
  next
    case (Op_update_acl h arg now)
    show ?thesis
      by (rule same, cases rule: update_acl_effect [of E h arg now st])
        (simp_all add: apply_op_def Op_update_acl change_row_roles)
  qed (rule same, simp add: apply_op_def issue_key_def Let_def set_disabled_def revoke_key_def change_row_roles)+
qed



section \<open>Requests that overlap\<close>

text \<open>
  The server answers requests in parallel threads. \<open>get_active_principals\<close> holds its lock to read
  and to store the cache but not while it loads, a mutation commits before it invalidates, and a
  revocation of a grant checks in one transaction and deletes in another: the state of the system
  is the store, the key sets loaded and not yet stored, the number of commits whose invalidation
  is still to come, and the revocations whose check has passed.
\<close>

record key_system =
  sy_store :: key_state
  sy_loaded :: "(rat \<times> (ustr, principal) odict) list"
  sy_committed :: nat
  sy_checked :: "(ustr \<times> ustr) list"

inductive key_step :: "key_env \<Rightarrow> key_system \<Rightarrow> key_system \<Rightarrow> bool" for E where
  Load: "ks_cached (sy_store s) = None \<Longrightarrow>
     key_step E s (s\<lparr>sy_loaded := (now, fresh_principals E True (sy_store s)) # sy_loaded s\<rparr>)"
| Store: "(now, m) \<in> set (sy_loaded s) \<Longrightarrow>
     key_step E s (s\<lparr>sy_store := (sy_store s)\<lparr>ks_cached := Some m, ks_cached_at := now\<rparr>,
       sy_loaded := remove1 (now, m) (sy_loaded s)\<rparr>)"
| Commit: "map_of (ks_keys (sy_store s)) h = Some r \<Longrightarrow>
     key_step E s (s\<lparr>sy_store := (sy_store s)\<lparr>ks_keys :=
         AList.update h (r\<lparr>kr_revoked := Some t, kr_updated := t\<rparr>) (ks_keys (sy_store s))\<rparr>,
       sy_committed := Suc (sy_committed s)\<rparr>)"
| Invalidate: "sy_committed s = Suc n \<Longrightarrow>
     key_step E s (s\<lparr>sy_store := invalidate_cache (sy_store s), sy_committed := n\<rparr>)"
| Check: "revoke_check E True pid c (sy_store s) = None \<Longrightarrow>
     key_step E s (s\<lparr>sy_checked := (pid, c) # sy_checked s\<rparr>)"
| Delete: "(pid, c) \<in> set (sy_checked s) \<Longrightarrow>
     key_step E s (s\<lparr>sy_store := delete_grant pid c (sy_store s), sy_checked := remove1 (pid, c) (sy_checked s)\<rparr>)"

definition quiet :: "key_system \<Rightarrow> bool" where
  "quiet s \<longleftrightarrow> sy_loaded s = [] \<and> sy_committed s = 0 \<and> sy_checked s = []"

definition at_rest :: "key_state \<Rightarrow> key_system" where
  "at_rest st = \<lparr>sy_store = st, sy_loaded = [], sy_committed = 0, sy_checked = []\<rparr>"

inductive_cases key_stepE: "key_step E s s'"

lemmas key_step_effects = invalidate_cache_def delete_grant_def is_revoked_def

text \<open>Whatever overlaps, the table itself never forgets a revocation.\<close>

lemma key_step_keeps_revoked:
  assumes "key_step E s s'" "is_revoked h (sy_store s)"
  shows "is_revoked h (sy_store s')"
  using assms(1)
  by (cases rule: key_stepE) (use assms(2) in \<open>auto simp: key_step_effects update_conv'\<close>)

lemma revocation_permanent:
  assumes "(key_step E)\<^sup>*\<^sup>* s s'" "is_revoked h (sy_store s)"
  shows "is_revoked h (sy_store s')"
  using assms by (induction rule: rtranclp_induct) (auto intro: key_step_keeps_revoked)

text \<open>A load that overlaps the revocation of a key.\<close>

lemma stale_key_steps:
  fixes E :: key_env and st :: key_state and h t
  assumes "ks_cached st = None" "map_of (ks_keys st) h = Some r"
  defines "r' \<equiv> r\<lparr>kr_revoked := Some t, kr_updated := t\<rparr>"
  defines "st' \<equiv> (invalidate_cache (st\<lparr>ks_keys := AList.update h r' (ks_keys st)\<rparr>))
      \<lparr>ks_cached := Some (fresh_principals E True st), ks_cached_at := 0\<rparr>"
  shows "(key_step E)\<^sup>*\<^sup>* (at_rest st) (at_rest st')"
proof -
  let ?m = "fresh_principals E True st"
  let ?k = "AList.update h r' (ks_keys st)"
  have 1: "key_step E (at_rest st) \<lparr>sy_store = st, sy_loaded = [(0, ?m)], sy_committed = 0, sy_checked = []\<rparr>"
    using Load [of "at_rest st" E 0] assms(1) by (simp add: at_rest_def)
  have 2: "key_step E \<lparr>sy_store = st, sy_loaded = [(0, ?m)], sy_committed = 0, sy_checked = []\<rparr>
      \<lparr>sy_store = st\<lparr>ks_keys := ?k\<rparr>, sy_loaded = [(0, ?m)], sy_committed = 1, sy_checked = []\<rparr>"
    using Commit [of "\<lparr>sy_store = st, sy_loaded = [(0, ?m)], sy_committed = 0, sy_checked = []\<rparr>" h r E t] assms(2)
    by (simp add: r'_def)
  have 3: "key_step E \<lparr>sy_store = st\<lparr>ks_keys := ?k\<rparr>, sy_loaded = [(0, ?m)], sy_committed = 1, sy_checked = []\<rparr>
      \<lparr>sy_store = invalidate_cache (st\<lparr>ks_keys := ?k\<rparr>), sy_loaded = [(0, ?m)], sy_committed = 0, sy_checked = []\<rparr>"
    using Invalidate [of "\<lparr>sy_store = st\<lparr>ks_keys := ?k\<rparr>, sy_loaded = [(0, ?m)], sy_committed = 1, sy_checked = []\<rparr>" 0 E]
    by simp
  have 4: "key_step E \<lparr>sy_store = invalidate_cache (st\<lparr>ks_keys := ?k\<rparr>), sy_loaded = [(0, ?m)], sy_committed = 0, sy_checked = []\<rparr>
      (at_rest st')"
    using Store [of 0 ?m "\<lparr>sy_store = invalidate_cache (st\<lparr>ks_keys := ?k\<rparr>), sy_loaded = [(0, ?m)], sy_committed = 0, sy_checked = []\<rparr>" E]
    by (simp add: at_rest_def st'_def)
  from 1 2 3 4 show ?thesis by (meson converse_rtranclp_into_rtranclp rtranclp.rtrancl_refl)
qed

text \<open>
  Overlapping requests break the promise that a revocation is immediate: when a request loads
  the keys while a key is revoked, and stores what it loaded after the revocation has invalidated
  the cache, the system comes to rest with the revoked key in the cache; every later request
  accepts it until the cache expires, and for ever when the time to live is not positive.
\<close>

theorem revoked_key_can_stay_cached:
  assumes "ks_cached st = None" "od_ok (ks_keys st)" "map_of (ks_keys st) h = Some r" "usable r"
  shows "\<exists>s. (key_step E)\<^sup>*\<^sup>* (at_rest st) s \<and> quiet s \<and> is_revoked h (sy_store s)
    \<and> (\<forall>now. ke_ttl E \<le> 0 \<or> now < ke_ttl E \<longrightarrow>
         map_of (fst (get_active_principals E True now (sy_store s))) h \<noteq> None)"
proof -
  define r' where "r' = r\<lparr>kr_revoked := Some (u ''t''), kr_updated := u ''t''\<rparr>"
  define st' where "st' = (invalidate_cache (st\<lparr>ks_keys := AList.update h r' (ks_keys st)\<rparr>))
      \<lparr>ks_cached := Some (fresh_principals E True st), ks_cached_at := 0\<rparr>"
  have steps: "(key_step E)\<^sup>*\<^sup>* (at_rest st) (at_rest st')"
    unfolding st'_def r'_def using assms(1,3) by (rule stale_key_steps)
  have "map_of (load_db_rows True st) h = Some (r, role_capabilities st (kr_principal r))"
    using assms(3) by (simp add: load_db_rows_def map_of_map)
  moreover have "od_ok (load_db_rows True st)"
    using assms(2) by (simp add: od_ok_def load_db_rows_def case_prod_unfold comp_def)
  ultimately have "map_of (fresh_principals E True st) h \<noteq> None"
    using assms(4) by (simp add: fresh_principals_def merge_keys_lookup)
  then have "\<forall>now. ke_ttl E \<le> 0 \<or> now < ke_ttl E \<longrightarrow>
      map_of (fst (get_active_principals E True now st')) h \<noteq> None"
    by (simp add: st'_def get_active_principals_def)
  moreover have "is_revoked h st'" by (simp add: st'_def r'_def is_revoked_def update_conv')
  ultimately show ?thesis
    using steps by (intro exI [of _ "at_rest st'"]) (simp add: at_rest_def quiet_def)
qed

text \<open>
  Nor does the last-administrator check hold for overlapping revocations: two principals who
  are the only holders of a capability, both by grants, can be revoked at the same time, each
  check passing while the other still holds it, and no holder is left.
\<close>

theorem overlapping_revocations_leave_no_holder:
  assumes "ke_env_keys E = Inr []" "ks_roles st = [((a, c), g), ((b, c), g')]" "a \<noteq> b"
  shows "\<exists>s. (key_step E)\<^sup>*\<^sup>* (at_rest st) s \<and> quiet s \<and> holders E True (sy_store s) c = {}"
proof -
  have h: "holders E True st c = {a, b}" "env_holders E c = {}"
    using assms by (simp_all add: holders_def db_holders_def env_holders_def env_principals_def)
  have ck: "revoke_check E True a c st = None" "revoke_check E True b c st = None"
    using h assms(3) by (auto simp: revoke_check_def)
  let ?st1 = "delete_grant a c st" and ?st2 = "delete_grant b c (delete_grant a c st)"
  have 1: "key_step E (at_rest st) ((at_rest st)\<lparr>sy_checked := [(a, c)]\<rparr>)"
    using Check [of E a c "at_rest st"] ck by (simp add: at_rest_def)
  have 2: "key_step E ((at_rest st)\<lparr>sy_checked := [(a, c)]\<rparr>) ((at_rest st)\<lparr>sy_checked := [(b, c), (a, c)]\<rparr>)"
    using Check [of E b c "(at_rest st)\<lparr>sy_checked := [(a, c)]\<rparr>"] ck by (simp add: at_rest_def)
  have 3: "key_step E ((at_rest st)\<lparr>sy_checked := [(b, c), (a, c)]\<rparr>) ((at_rest ?st1)\<lparr>sy_checked := [(b, c)]\<rparr>)"
    using Delete [of a c "(at_rest st)\<lparr>sy_checked := [(b, c), (a, c)]\<rparr>" E] assms(3) by (simp add: at_rest_def)
  have 4: "key_step E ((at_rest ?st1)\<lparr>sy_checked := [(b, c)]\<rparr>) (at_rest ?st2)"
    using Delete [of b c "(at_rest ?st1)\<lparr>sy_checked := [(b, c)]\<rparr>" E] by (simp add: at_rest_def)
  have "ks_roles ?st2 = []" using assms(2) by (simp add: delete_grant_def)
  then have "holders E True ?st2 c = {}" using h(2) by (simp add: holders_def db_holders_def)
  moreover have "(key_step E)\<^sup>*\<^sup>* (at_rest st) (at_rest ?st2)"
    using 1 2 3 4 by (meson converse_rtranclp_into_rtranclp rtranclp.rtrancl_refl)
  ultimately show ?thesis by (intro exI [of _ "at_rest ?st2"]) (simp add: at_rest_def quiet_def)
qed

text \<open>
  A database that cannot be read while the holders are counted hides the grants: the check passes
  for the only holder.
\<close>

lemma outage_defeats_check:
  assumes "ke_env_keys E = Inr []" "ks_roles st = [((a, c), g)]"
  shows "fst (revoke_role E False a c st) = None \<and> holders E True (snd (revoke_role E False a c st)) c = {}"
  using assms
  by (simp add: revoke_role_def revoke_check_def holders_def db_holders_def env_holders_def env_principals_def
      delete_grant_def)

section \<open>A concrete store\<close>

definition example_key_row :: "string \<Rightarrow> key_row" where
  "example_key_row pid = \<lparr>kr_principal = u pid, kr_name = u pid, kr_denied = [], kr_source = u ''issued'',
     kr_created = u ''0'', kr_updated = u ''0'', kr_disabled = None, kr_revoked = None\<rparr>"

definition example_key_state :: key_state where
  "example_key_state = \<lparr>ks_keys = [(u ''h'', example_key_row ''a'')],
     ks_roles = [((u ''a'', u ''security''), (u ''0'', u ''a'')), ((u ''b'', u ''security''), (u ''0'', u ''a''))],
     ks_cached = None, ks_cached_at = 0\<rparr>"

definition example_key_env :: key_env where
  "example_key_env = \<lparr>ke_auth = example_env, ke_env_keys = Inr [], ke_ttl = 5, ke_schema_columns = []\<rparr>"



theorem revoked_key_can_stay_cached_witness:
  "\<exists>s. (key_step example_key_env)\<^sup>*\<^sup>* (at_rest example_key_state) s \<and> quiet s \<and> is_revoked (u ''h'') (sy_store s)
    \<and> map_of (fst (get_active_principals example_key_env True 1 (sy_store s))) (u ''h'') \<noteq> None"
proof -
  have "ks_cached example_key_state = None" "od_ok (ks_keys example_key_state)"
    "map_of (ks_keys example_key_state) (u ''h'') = Some (example_key_row ''a'')" "usable (example_key_row ''a'')"
    by (simp_all add: example_key_state_def example_key_row_def usable_def od_ok_def)
  moreover have "1 < ke_ttl example_key_env" by (simp add: example_key_env_def)
  ultimately show ?thesis using revoked_key_can_stay_cached by blast
qed

theorem overlapping_revocations_leave_no_holder_witness:
  "\<exists>s. (key_step example_key_env)\<^sup>*\<^sup>* (at_rest example_key_state) s \<and> quiet s
     \<and> holders example_key_env True (sy_store s) (u ''security'') = {}"
  by (rule overlapping_revocations_leave_no_holder [of _ _ "u ''a''" _ _ "u ''b''"])
    (simp_all add: example_key_env_def example_key_state_def)

end
