(* ===== verification/Decision_Queue.thy ===== *)
theory Decision_Queue
  imports Prelude
begin

text \<open>
  The contract the queues of the admin panel share (access requests, flagged answers): an item is
  absent, open or decided, a decision is taken once, and nothing takes it back. The clients' facts
  about runs of decisions are proved here from the contract; the queues interpret it.
\<close>

fun run_decisions :: "('i \<Rightarrow> 'c \<Rightarrow> 's \<Rightarrow> bool \<times> 's) \<Rightarrow> ('i \<times> 'c) list \<Rightarrow> 's \<Rightarrow> bool list \<times> 's" where
  "run_decisions decide [] s = ([], s)"
| "run_decisions decide ((i, c) # cs) s =
     (let r = decide i c s; rs = run_decisions decide cs (snd r) in (fst r # fst rs, snd rs))"

text \<open>How many of the commands for one item were carried out.\<close>

definition wins :: "'i \<Rightarrow> ('i \<times> 'c) list \<Rightarrow> bool list \<Rightarrow> nat" where
  "wins i cs oks = length (filter (\<lambda>(c, ok). fst c = i \<and> ok) (zip cs oks))"

lemma wins_simps [simp]:
  "wins i [] oks = 0"
  "wins i ((j, c) # cs) (ok # oks) = (if i = j \<and> ok then Suc (wins i cs oks) else wins i cs oks)"
  by (auto simp: wins_def)

locale decisions =
  fixes status :: "'s \<Rightarrow> 'i \<Rightarrow> 'd option option"
    and outcome :: "'c \<Rightarrow> 'd"
    and valid :: "'c \<Rightarrow> bool"
    and decide :: "'i \<Rightarrow> 'c \<Rightarrow> 's \<Rightarrow> bool \<times> 's"
  assumes decide_ok: "fst (decide i c s) \<longleftrightarrow> valid c \<and> status s i = Some None"
    and status_decide: "status (snd (decide i c s)) j
      = (if valid c \<and> status s i = Some None \<and> j = i then Some (Some (outcome c)) else status s j)"
begin

lemma run_decisions_Cons:
  "run_decisions decide ((i, c) # cs) s =
     (fst (decide i c s) # fst (run_decisions decide cs (snd (decide i c s))),
      snd (run_decisions decide cs (snd (decide i c s))))"
  by (simp add: Let_def)

lemma decided_stays:
  "status s i = Some (Some d) \<Longrightarrow> status (snd (run_decisions decide cs s)) i = Some (Some d)"
proof (induction cs arbitrary: s)
  case (Cons x cs)
  obtain j c where x: "x = (j, c)" by (cases x)
  have "status (snd (decide j c s)) i = Some (Some d)" using Cons.prems by (auto simp: status_decide)
  with Cons.IH x show ?case by (simp add: run_decisions_Cons del: run_decisions.simps)
qed simp

lemma decided_wins:
  "status s i \<noteq> Some None \<Longrightarrow> wins i cs (fst (run_decisions decide cs s)) = 0"
proof (induction cs arbitrary: s)
  case (Cons x cs)
  obtain j c where x: "x = (j, c)" by (cases x)
  have "status (snd (decide j c s)) i \<noteq> Some None" using Cons.prems by (auto simp: status_decide)
  with Cons.IH Cons.prems show ?case
    by (auto simp: x run_decisions_Cons decide_ok simp del: run_decisions.simps)
qed simp

lemma at_most_one_win: "wins i cs (fst (run_decisions decide cs s)) \<le> 1"
proof (induction cs arbitrary: s)
  case (Cons x cs)
  obtain j c where x: "x = (j, c)" by (cases x)
  show ?case
  proof (cases "i = j \<and> fst (decide j c s)")
    case True
    then have "status (snd (decide j c s)) i \<noteq> Some None" by (auto simp: decide_ok status_decide)
    then have "wins i cs (fst (run_decisions decide cs (snd (decide j c s)))) = 0" by (rule decided_wins)
    then show ?thesis by (auto simp: x run_decisions_Cons simp del: run_decisions.simps)
  next
    case False
    have "wins i cs (fst (run_decisions decide cs (snd (decide j c s)))) \<le> 1" by (rule Cons.IH)
    with False show ?thesis by (auto simp: x run_decisions_Cons simp del: run_decisions.simps)
  qed
qed simp

lemma first_wins:
  assumes "status s i = Some None" "map_of (filter (\<lambda>(j, c). valid c) cs) i = Some c"
  shows "status (snd (run_decisions decide cs s)) i = Some (Some (outcome c))
    \<and> wins i cs (fst (run_decisions decide cs s)) = 1"
  using assms
proof (induction cs arbitrary: s)
  case (Cons x cs)
  obtain j c' where x: "x = (j, c')" by (cases x)
  show ?case
  proof (cases "i = j \<and> valid c'")
    case True
    with Cons.prems x have "c' = c" by simp
    with True Cons.prems(1) have s: "status (snd (decide j c' s)) i = Some (Some (outcome c))" "fst (decide j c' s)"
      by (simp_all add: status_decide decide_ok)
    have "wins i cs (fst (run_decisions decide cs (snd (decide j c' s)))) = 0"
      using s(1) by (intro decided_wins) simp
    with True s decided_stays [OF s(1)] show ?thesis
      by (simp add: x run_decisions_Cons del: run_decisions.simps)
  next
    case False
    then have "status (snd (decide j c' s)) i = Some None" "\<not> (i = j \<and> fst (decide j c' s))"
      using Cons.prems(1) by (auto simp: status_decide decide_ok)
    moreover have "map_of (filter (\<lambda>(j, c). valid c) cs) i = Some c"
      using False Cons.prems(2) by (auto simp: x split: if_splits)
    ultimately show ?thesis
      using Cons.IH by (auto simp: x run_decisions_Cons simp del: run_decisions.simps)
  qed
qed simp

end

text \<open>A queue that other operations run on as well: none of them may touch a decided item.\<close>

locale triage = decisions status outcome valid decide
  for status :: "'s \<Rightarrow> 'i \<Rightarrow> 'd option option" and outcome :: "'c \<Rightarrow> 'd" and valid :: "'c \<Rightarrow> bool"
    and decide :: "'i \<Rightarrow> 'c \<Rightarrow> 's \<Rightarrow> bool \<times> 's" +
  fixes other :: "'o \<Rightarrow> 's \<Rightarrow> 's"
  assumes other_keeps: "status s i = Some (Some d) \<Longrightarrow> status (other x s) i = Some (Some d)"
begin

lemma decision_final:
  assumes "status s i = Some (Some d)"
  shows "status (fold (\<lambda>x s. case x of Inl (j, c) \<Rightarrow> snd (decide j c s) | Inr y \<Rightarrow> other y s) xs s) i
    = Some (Some d)"
  using assms by (induction xs arbitrary: s) (auto simp: status_decide other_keeps split: sum.split)

end

end
