(* ===== verification/Audit_Join.thy ===== *)
theory Audit_Join
  imports Auth
begin

text \<open>
  \<open>observability/audit.py\<close> (\<open>find_record_by_turn\<close>, \<open>turn_executed_successfully\<close>) and the log readers
  of \<open>scripts/analyze_audit_log.py\<close> it uses: the join from a turn to what the audit log says of it.
  A log file is its lines, or \<open>None\<close> when it cannot be opened; \<open>loads\<close> is \<open>json.loads\<close>.
\<close>

type_synonym audit_record = "(ustr \<times> json) list"

definition read_record :: "(ustr \<Rightarrow> json option) \<Rightarrow> ustr \<Rightarrow> audit_record option" where
  "read_record loads line =
     (if strip line = [] then None
      else (case loads (strip line) of Some (J_obj fs) \<Rightarrow> Some fs | _ \<Rightarrow> None))"

definition iter_records :: "(ustr \<Rightarrow> json option) \<Rightarrow> ustr list option list \<Rightarrow> audit_record list" where
  "iter_records loads files =
     concat (map (\<lambda>f. case f of None \<Rightarrow> [] | Some ls \<Rightarrow> List.map_filter (read_record loads) ls) files)"

text \<open>The files whose name starts with the log's path, in the order of their names.\<close>

definition resolve_log_paths :: "ustr \<Rightarrow> (ustr, 'a) odict \<Rightarrow> 'a list" where
  "resolve_log_paths prefix files = map snd (sort_key fst (filter (\<lambda>(name, f). startswith name prefix) files))"

definition names_turn :: "ustr \<Rightarrow> ustr \<Rightarrow> audit_record \<Rightarrow> bool" where
  "names_turn sid tid r \<longleftrightarrow>
     map_of r (u ''session_id'') = Some (J_str sid) \<and> map_of r (u ''turn_id'') = Some (J_str tid)"

definition find_record_by_turn ::
    "(ustr \<Rightarrow> json option) \<Rightarrow> ustr \<Rightarrow> (ustr, ustr list option) odict \<Rightarrow> ustr \<Rightarrow> ustr \<Rightarrow> audit_record option" where
  "find_record_by_turn loads log_path files sid tid =
     fold (\<lambda>r found. if names_turn sid tid r then Some r else found)
       (iter_records loads (resolve_log_paths log_path files)) None"

fun is_falsy :: "json option \<Rightarrow> bool" where
  "is_falsy None = True"
| "is_falsy (Some J_null) = True"
| "is_falsy (Some (J_bool b)) = (\<not> b)"
| "is_falsy (Some (J_num x)) = (x = 0)"
| "is_falsy (Some (J_str s)) = (s = [])"
| "is_falsy (Some (J_list js)) = (js = [])"
| "is_falsy (Some (J_obj fs)) = (fs = [])"

definition turn_executed_successfully :: "audit_record \<Rightarrow> bool" where
  "turn_executed_successfully r =
     (if \<not> is_falsy (map_of r (u ''error_code'')) then False
      else if \<not> (case map_of r (u ''generated_sql'') of Some (J_str s) \<Rightarrow> strip s \<noteq> [] | _ \<Rightarrow> False) then False
      else if (case map_of r (u ''guard'') of
                 Some (J_obj g) \<Rightarrow> map_of g (u ''verdict'') = Some (J_str (u ''rejected'')) | _ \<Rightarrow> False) then False
      else map_of r (u ''columns'') \<noteq> Some J_null)"

lemma fold_last_match:
  "fold (\<lambda>r found. if P r then Some r else found) xs a
     = (if filter P xs = [] then a else Some (last (filter P xs)))"
  by (induction xs arbitrary: a) auto

lemma find_record_names_turn:
  "find_record_by_turn loads path files sid tid = Some r \<Longrightarrow> names_turn sid tid r"
proof -
  let ?rs = "filter (names_turn sid tid) (iter_records loads (resolve_log_paths path files))"
  assume "find_record_by_turn loads path files sid tid = Some r"
  then have "?rs \<noteq> []" "r = last ?rs"
    unfolding find_record_by_turn_def fold_last_match by (auto split: if_splits)
  from this(1) have "last ?rs \<in> set ?rs" by (rule last_in_set)
  with \<open>r = last ?rs\<close> show ?thesis by simp
qed

declare read_record_def [ev] iter_records_def [ev] resolve_log_paths_def [ev] names_turn_def [ev]
  find_record_by_turn_def [ev] turn_executed_successfully_def [ev]

end
