(* ===== verification/Rotating_Log.thy ===== *)
theory Rotating_Log
  imports Audit_Join
begin

text \<open>
  \<open>logs/logger.py\<close> (\<open>_rotate\<close>, \<open>append_jsonl\<close>): the size-rotated JSON-lines log the query log and
  the audit log are written through. The directory maps a generation to its lines; generation 0
  is the file that is written and generation n the file \<open>path.n\<close>. A line includes its newline.
\<close>

type_synonym generations = "nat \<Rightarrow> ustr list option"

text \<open>\<open>os.replace\<close> of a generation that exists.\<close>

definition move :: "nat \<Rightarrow> nat \<Rightarrow> generations \<Rightarrow> generations" where
  "move k l g = (case g k of None \<Rightarrow> g | Some f \<Rightarrow> (g(l \<mapsto> f))(k := None))"

definition rotate_log :: "int \<Rightarrow> generations \<Rightarrow> generations" where
  "rotate_log backup_count g =
     (if backup_count \<le> 0 then g(0 := None)
      else let n = nat backup_count
           in move 0 1 (fold (\<lambda>k. move k (Suc k)) (rev [1..<n]) (g(n := None))))"

fun utf8_size :: "ustr \<Rightarrow> nat" where
  "utf8_size [] = 0"
| "utf8_size (c # s) = (if c < 0x80 then 1 else if c < 0x800 then 2 else if c < 0x10000 then 3 else 4) + utf8_size s"

definition file_size :: "ustr list option \<Rightarrow> nat" where
  "file_size f = (case f of None \<Rightarrow> 0 | Some ls \<Rightarrow> sum_list (map utf8_size ls))"

definition append_jsonl :: "int \<Rightarrow> int \<Rightarrow> ustr \<Rightarrow> generations \<Rightarrow> generations" where
  "append_jsonl max_bytes backup_count line g =
     (let g' = (if 0 < max_bytes \<and> g 0 \<noteq> None \<and> max_bytes < int (file_size (g 0) + utf8_size line)
                then rotate_log backup_count g else g)
      in g'(0 \<mapsto> (case g' 0 of None \<Rightarrow> [] | Some ls \<Rightarrow> ls) @ [line]))"

section \<open>The chain of generations\<close>

lemma move_shift: "g (Suc k) = None \<Longrightarrow> move k (Suc k) g = g(Suc k := g k, k := None)"
  by (auto simp: move_def fun_eq_iff split: option.split)

lemma shift_chain:
  assumes "g n = None" "m \<le> n"
  shows "fold (\<lambda>k. move k (Suc k)) (rev [m..<n]) g
      = (\<lambda>j. if j = m then None else if m < j \<and> j \<le> n then g (j - 1) else g j)"
  using assms(2,1)
proof (induction n arbitrary: g rule: dec_induct)
  case base
  then show ?case by (auto simp: fun_eq_iff)
next
  case (step n)
  let ?g = "g(Suc n := g n, n := None)"
  have "fold (\<lambda>k. move k (Suc k)) (rev [m..<Suc n]) g = fold (\<lambda>k. move k (Suc k)) (rev [m..<n]) ?g"
    using step.hyps step.prems by (simp add: move_shift)
  also have "\<dots> = (\<lambda>j. if j = m then None else if m < j \<and> j \<le> n then ?g (j - 1) else ?g j)"
    by (rule step.IH) simp
  also have "\<dots> = (\<lambda>j. if j = m then None else if m < j \<and> j \<le> Suc n then g (j - 1) else g j)"
    using step.hyps by (auto simp: fun_eq_iff)
  finally show ?case .
qed

text \<open>
  One rotation shifts every generation up to the number of backups by one, whichever of them
  exist, frees the active file and loses exactly the oldest kept generation; files beyond the
  number of backups are left as they are.
\<close>

theorem rotate_log_shifts:
  "rotate_log backup_count g =
     (\<lambda>j. if j = 0 then None else if int j \<le> backup_count then g (j - 1) else g j)"
proof (cases "backup_count \<le> 0")
  case False
  define n where "n = nat backup_count"
  have n: "1 \<le> n" "\<not> backup_count \<le> 0" "\<And>j. int j \<le> backup_count \<longleftrightarrow> j \<le> n"
    using False by (auto simp: n_def)
  let ?h = "fold (\<lambda>k. move k (Suc k)) (rev [1..<n]) (g(n := None))"
  have "?h = (\<lambda>j. if j = 1 then None else if 1 < j \<and> j \<le> n then (g(n := None)) (j - 1) else (g(n := None)) j)"
    by (rule shift_chain) (use n in simp_all)
  also have "\<dots> = (\<lambda>j. if j = 1 then None else if 1 < j \<and> j \<le> n then g (j - 1) else g j)"
    using n(1) by (intro ext) auto
  finally have h: "?h = (\<lambda>j. if j = 1 then None else if 1 < j \<and> j \<le> n then g (j - 1) else g j)" .
  then have "move 0 (Suc 0) ?h = ?h(Suc 0 := ?h 0, 0 := None)" by (intro move_shift) simp
  moreover have "rotate_log backup_count g = move 0 (Suc 0) ?h"
    using n(2) by (simp add: rotate_log_def n_def Let_def)
  ultimately have "rotate_log backup_count g = ?h(Suc 0 := ?h 0, 0 := None)" by simp
  also have "\<dots> = (\<lambda>j. if j = 0 then None else if j \<le> n then g (j - 1) else g j)"
    unfolding h using n(1) by (intro ext) (auto simp: less_Suc_eq_le)
  finally show ?thesis unfolding n(3) .
qed (auto simp: rotate_log_def fun_eq_iff)

section \<open>What is kept\<close>

definition lines_of :: "ustr list option \<Rightarrow> ustr list" where
  "lines_of f = (case f of None \<Rightarrow> [] | Some ls \<Rightarrow> ls)"

lemma lines_of_simps [simp]: "lines_of None = []" "lines_of (Some ls) = ls"
  by (simp_all add: lines_of_def)

text \<open>The lines of the log and its kept generations, oldest first.\<close>

definition history :: "nat \<Rightarrow> generations \<Rightarrow> ustr list" where
  "history b g = concat (map (\<lambda>k. lines_of (g k)) (rev [0..<Suc b]))"

lemma history_split:
  "history b g = concat (map (\<lambda>k. lines_of (g k)) (rev [1..<Suc b])) @ lines_of (g 0)"
  unfolding history_def by (simp add: upt_conv_Cons del: upt_Suc)

lemma history_write:
  "history b (g(0 \<mapsto> ls)) = concat (map (\<lambda>k. lines_of (g k)) (rev [1..<Suc b])) @ ls"
proof -
  have "map (\<lambda>k. lines_of ((g(0 \<mapsto> ls)) k)) (rev [1..<Suc b]) = map (\<lambda>k. lines_of (g k)) (rev [1..<Suc b])"
    by (rule map_cong) auto
  then show ?thesis unfolding history_split by (simp only:) simp
qed

lemma history_shift:
  assumes "0 < b"
  shows "concat (map (\<lambda>k. lines_of (g (k - 1))) (rev [1..<Suc b]))
    = drop (length (lines_of (g b))) (history b g)"
proof -
  have "map (\<lambda>k. lines_of (g (k - 1))) (rev [1..<Suc b]) = map (\<lambda>k. lines_of (g k)) (rev [0..<b])"
    unfolding rev_map [symmetric] map_Suc_upt [symmetric, of 0 b, simplified One_nat_def [symmetric]]
    by (simp add: comp_def)
  then show ?thesis by (simp add: history_def)
qed

text \<open>
  Appending loses nothing but the oldest kept generation, and that only when the file is full:
  what the log and its backups hold afterwards, in the order it was written, is what they held
  before without that generation, followed by the new line.
\<close>

theorem append_keeps_newest:
  "\<exists>n \<in> {0, length (lines_of (g b))}.
     history b (append_jsonl max_bytes (int b) line g) = drop n (history b g) @ [line]"
proof (cases "0 < max_bytes \<and> g 0 \<noteq> None \<and> max_bytes < int (file_size (g 0) + utf8_size line)")
  case True
  let ?r = "rotate_log (int b) g"
  have r0: "?r 0 = None" by (simp add: rotate_log_shifts)
  have a: "append_jsonl max_bytes (int b) line g = ?r(0 \<mapsto> [line])"
    using True r0 by (simp add: append_jsonl_def)
  have "history b (?r(0 \<mapsto> [line])) = concat (map (\<lambda>k. lines_of (?r k)) (rev [1..<Suc b])) @ [line]"
    by (rule history_write)
  also have "map (\<lambda>k. lines_of (?r k)) (rev [1..<Suc b]) = map (\<lambda>k. lines_of (g (k - 1))) (rev [1..<Suc b])"
    by (rule map_cong) (auto simp: rotate_log_shifts)
  also have "concat \<dots> = drop (length (lines_of (g b))) (history b g)"
  proof (cases "b = 0")
    case False
    then show ?thesis by (intro history_shift) simp
  qed (simp add: history_def)
  finally show ?thesis unfolding a by blast
next
  case False
  then have "append_jsonl max_bytes (int b) line g = g(0 \<mapsto> lines_of (g 0) @ [line])"
    unfolding append_jsonl_def lines_of_def by (simp only: if_False Let_def)
  then have "history b (append_jsonl max_bytes (int b) line g) = history b g @ [line]"
    by (simp only: history_write) (simp only: history_split append_assoc)
  then show ?thesis by simp
qed

text \<open>
  With rotation on, the active file never outgrows the limit, whatever is appended to it, as
  long as no single line does.
\<close>

theorem active_log_bounded:
  assumes "0 < max_bytes" "int (file_size (g 0)) \<le> max_bytes" "list_all (\<lambda>l. int (utf8_size l) \<le> max_bytes) ls"
  shows "int (file_size (fold (append_jsonl max_bytes backup_count) ls g 0)) \<le> max_bytes"
  using assms(2,3)
proof (induction ls arbitrary: g)
  case (Cons l ls)
  let ?g = "append_jsonl max_bytes backup_count l g"
  have "int (file_size (?g 0)) \<le> max_bytes"
    using Cons.prems assms(1)
    by (cases "g 0") (auto simp: append_jsonl_def file_size_def rotate_log_shifts Let_def)
  with Cons show ?case by simp
qed simp

theorem active_log_bounded_witness:
  "int (file_size (fold (append_jsonl 10 2) [u ''aaaa'', u ''bbbb'', u ''cccc''] (\<lambda>_. None) 0)) \<le> 10"
  by (rule active_log_bounded) (simp_all add: file_size_def u_def)

section \<open>Looking a turn up in a rotated log\<close>

definition file_name :: "ustr \<Rightarrow> nat \<Rightarrow> ustr" where
  "file_name path n = (if n = 0 then path else path @ [46] @ decimal n)"

definition log_files :: "ustr \<Rightarrow> nat \<Rightarrow> generations \<Rightarrow> (ustr, ustr list option) odict" where
  "log_files path b g = map (\<lambda>k. (file_name path k, g k)) (filter (\<lambda>k. g k \<noteq> None) [0..<Suc b])"

lemma path_less: "path < path @ c # s"
  by (induction path) simp_all

text \<open>
  The lookup reads the files in the order of their names, the active file first: when a turn
  has two records and the log was rotated between them, the older one is returned, although the
  comment promises the latest entry.
\<close>

theorem rotated_record_hides_current:
  assumes "loads (strip x) = Some (J_obj r)" "loads (strip y) = Some (J_obj r')" "strip x \<noteq> []" "strip y \<noteq> []"
    and "names_turn sid tid r" "names_turn sid tid r'"
    and "0 < max_bytes" "max_bytes < int (utf8_size x + utf8_size y)"
  defines "g \<equiv> append_jsonl max_bytes 1 y (append_jsonl max_bytes 1 x (\<lambda>_. None))"
  shows "find_record_by_turn loads path (log_files path 1 g) sid tid = Some r"
proof -
  have 1: "append_jsonl max_bytes 1 x (\<lambda>_. None) = (\<lambda>_. None)(0 \<mapsto> [x])" by (simp add: append_jsonl_def)
  have "rotate_log 1 ((\<lambda>_. None)(0 \<mapsto> [x])) = (\<lambda>_. None)(1 \<mapsto> [x])"
    unfolding rotate_log_shifts by (intro ext) auto
  then have g: "g = (\<lambda>_. None)(0 \<mapsto> [y], 1 \<mapsto> [x])"
    using assms(7,8) by (simp add: g_def 1 append_jsonl_def file_size_def fun_upd_twist)
  have n: "file_name path 1 = path @ [46, 49]" "file_name path 0 = path" by (simp_all add: file_name_def)
  have "log_files path 1 g = [(path, Some [y]), (path @ [46, 49], Some [x])]"
    using n by (simp add: log_files_def g)
  moreover have "startswith path path" "startswith (path @ [46, 49]) path" by (simp_all add: startswith_def)
  moreover have "path \<le> path @ [46, 49]" by (intro less_imp_le path_less)
  ultimately have "resolve_log_paths path (log_files path 1 g) = [Some [y], Some [x]]"
    by (simp add: resolve_log_paths_def)
  then show ?thesis
    using assms(1-6) by (simp add: find_record_by_turn_def iter_records_def read_record_def List.map_filter_def)
qed

definition example_loads :: "ustr \<Rightarrow> json option" where
  "example_loads s = Some (J_obj [(u ''session_id'', J_str (u ''s'')), (u ''turn_id'', J_str (u ''t'')),
     (u ''request_id'', J_str s)])"

theorem rotated_record_hides_current_witness:
  "find_record_by_turn example_loads (u ''log'')
     (log_files (u ''log'') 1 (append_jsonl 8 1 (u ''newer'') (append_jsonl 8 1 (u ''older'') (\<lambda>_. None))))
     (u ''s'') (u ''t'')
   = Some [(u ''session_id'', J_str (u ''s'')), (u ''turn_id'', J_str (u ''t'')), (u ''request_id'', J_str (u ''older''))]"
proof (rule rotated_record_hides_current)
  have "strip (u ''older'') = u ''older''" "strip (u ''newer'') = u ''newer''"
    by (simp_all add: ev)
  then show "example_loads (strip (u ''older'')) = Some (J_obj [(u ''session_id'', J_str (u ''s'')),
      (u ''turn_id'', J_str (u ''t'')), (u ''request_id'', J_str (u ''older''))])"
    "example_loads (strip (u ''newer'')) = Some (J_obj [(u ''session_id'', J_str (u ''s'')),
      (u ''turn_id'', J_str (u ''t'')), (u ''request_id'', J_str (u ''newer''))])"
    "strip (u ''older'') \<noteq> []" "strip (u ''newer'') \<noteq> []"
    by (simp_all add: example_loads_def)
qed (simp_all add: names_turn_def u_def)

end
