(* ===== verification/Access_Requests.thy ===== *)
theory Access_Requests
  imports Key_Store Audit_Join Decision_Queue
begin

text \<open>
  \<open>appdb/access_requests.py\<close>: the queue of requests for access to a denied column. A request is
  read off the audit record of the refused turn, is decided once, and an approval removes the
  requested entry from the requester's keys. The state is the table of requests and the key store;
  every operation is one transaction, its fresh row id and timestamp are arguments.
\<close>

section \<open>Rows and operations\<close>

datatype access_status = Access_open | Access_approved | Access_denied

record access_row =
  ar_session :: ustr
  ar_turn :: ustr
  ar_requester :: ustr
  ar_column :: ustr
  ar_created :: ustr
  ar_status :: access_status
  ar_note :: "ustr option"
  ar_by :: "ustr option"
  ar_at :: "ustr option"

record access_state =
  as_requests :: "(int, access_row) odict"
  as_keys :: key_state

datatype access_error =
    Turn_not_audited
  | Not_denied_column
  | Malformed_record
  | Request_not_found int
  | Already_resolved access_row
  | Blank_reason
  | Id_taken int

definition access_reasons :: "ustr list" where
  "access_reasons = [u ''denied_column'', u ''join_only_column'']"

text \<open>
  The column a refused turn was about. A guard field that is not an object, an unhashable reason or
  a subject that is not a text makes the source raise outside its own errors.
\<close>

definition requested_column :: "audit_record option \<Rightarrow> access_error + ustr" where
  "requested_column record =
     (case record of
        None \<Rightarrow> Inl Turn_not_audited
      | Some fs \<Rightarrow>
          (case (if is_falsy (map_of fs (u ''guard'')) then Some (J_obj []) else map_of fs (u ''guard'')) of
             Some (J_obj g) \<Rightarrow>
               (case map_of g (u ''reason'') of
                  Some (J_list js) \<Rightarrow> Inl Malformed_record
                | Some (J_obj js) \<Rightarrow> Inl Malformed_record
                | reason \<Rightarrow>
                    if reason \<notin> Some ` J_str ` set access_reasons \<or> is_falsy (map_of g (u ''subject''))
                    then Inl Not_denied_column
                    else (case map_of g (u ''subject'') of
                            Some (J_str c) \<Rightarrow> Inr c
                          | _ \<Rightarrow> Inl Malformed_record))
           | _ \<Rightarrow> Inl Malformed_record))"

definition pending :: "ustr \<Rightarrow> ustr \<Rightarrow> access_row \<Rightarrow> bool" where
  "pending requester column r \<longleftrightarrow>
     ar_requester r = requester \<and> ar_column r = column \<and> ar_status r = Access_open"

definition new_request :: "ustr \<Rightarrow> ustr \<Rightarrow> ustr \<Rightarrow> ustr \<Rightarrow> ustr \<Rightarrow> access_row" where
  "new_request sid tid requester column now =
     \<lparr>ar_session = sid, ar_turn = tid, ar_requester = requester, ar_column = column, ar_created = now,
      ar_status = Access_open, ar_note = None, ar_by = None, ar_at = None\<rparr>"

definition submit_request ::
    "audit_record option \<Rightarrow> ustr \<Rightarrow> ustr \<Rightarrow> ustr \<Rightarrow> int \<Rightarrow> ustr \<Rightarrow> access_state
     \<Rightarrow> (access_error + (int \<times> access_row) \<times> bool) \<times> access_state" where
  "submit_request record sid tid requester new_id now st =
     (case requested_column record of
        Inl e \<Rightarrow> (Inl e, st)
      | Inr column \<Rightarrow>
          (case find (\<lambda>(i, r). pending requester column r) (as_requests st) of
             Some existing \<Rightarrow> (Inr (existing, False), st)
           | None \<Rightarrow>
               (let row = new_request sid tid requester column now
                in if new_id \<in> set (od_keys (as_requests st)) then (Inl (Id_taken new_id), st)
                   else (Inr ((new_id, row), True),
                         st\<lparr>as_requests := AList.update new_id row (as_requests st)\<rparr>))))"

definition get_request :: "int \<Rightarrow> access_state \<Rightarrow> access_error + access_row" where
  "get_request i st =
     (case map_of (as_requests st) i of None \<Rightarrow> Inl (Request_not_found i) | Some r \<Rightarrow> Inr r)"

text \<open>Newest first.\<close>

definition list_requests :: "access_status option \<Rightarrow> ustr option \<Rightarrow> access_state \<Rightarrow> (int \<times> access_row) list" where
  "list_requests status requester st =
     sort_key (\<lambda>e. - fst e)
       (filter (\<lambda>(i, r). (status = None \<or> status = Some (ar_status r))
                        \<and> (requester = None \<or> requester = Some (ar_requester r))) (as_requests st))"

text \<open>The conditional update of a request that must still be open.\<close>

definition claim ::
    "int \<Rightarrow> access_status \<Rightarrow> ustr option \<Rightarrow> ustr \<Rightarrow> ustr \<Rightarrow> access_state \<Rightarrow> access_error + access_row \<times> access_state" where
  "claim i status note actor now st =
     (case map_of (as_requests st) i of
        None \<Rightarrow> Inl (Request_not_found i)
      | Some r \<Rightarrow>
          (if ar_status r \<noteq> Access_open then Inl (Already_resolved r)
           else let r' = r\<lparr>ar_status := status, ar_note := note, ar_by := Some actor, ar_at := Some now\<rparr>
                in Inr (r', st\<lparr>as_requests := AList.update i r' (as_requests st)\<rparr>)))"

fun drop_first :: "('a \<Rightarrow> bool) \<Rightarrow> 'a list \<Rightarrow> 'a list option" where
  "drop_first P [] = None"
| "drop_first P (x # xs) = (if P x then Some xs else map_option (Cons x) (drop_first P xs))"

definition same_entry :: "unicode_db \<Rightarrow> ustr \<Rightarrow> ustr \<Rightarrow> bool" where
  "same_entry U column entry \<longleftrightarrow>
     entry = column \<or> (normalize_denied_entry U column \<noteq> []
       \<and> normalize_denied_entry U entry = normalize_denied_entry U column)"

text \<open>One key of the requester: its row afterwards, or \<open>None\<close> when it is left alone.\<close>

definition widen_key :: "unicode_db \<Rightarrow> ustr \<Rightarrow> ustr \<Rightarrow> ustr \<Rightarrow> key_row \<Rightarrow> key_row option" where
  "widen_key U requester column now r =
     (if kr_principal r \<noteq> requester \<or> kr_revoked r \<noteq> None then None
      else map_option (\<lambda>denied. write_denied_columns U denied now r)
             (drop_first (same_entry U column) (kr_denied r)))"

definition widen_keys ::
    "unicode_db \<Rightarrow> ustr \<Rightarrow> ustr \<Rightarrow> ustr \<Rightarrow> (ustr, key_row) odict \<Rightarrow> (ustr, key_row) odict \<times> nat" where
  "widen_keys U requester column now keys =
     (map (\<lambda>(h, r). (h, case widen_key U requester column now r of None \<Rightarrow> r | Some r' \<Rightarrow> r')) keys,
      length (filter (\<lambda>(h, r). widen_key U requester column now r \<noteq> None) keys))"

definition approve_request ::
    "unicode_db \<Rightarrow> int \<Rightarrow> ustr \<Rightarrow> ustr \<Rightarrow> access_state \<Rightarrow> (access_error + access_row \<times> nat) \<times> access_state" where
  "approve_request U i actor now st =
     (case claim i Access_approved None actor now st of
        Inl e \<Rightarrow> (Inl e, st)
      | Inr (r, st') \<Rightarrow>
          (let (keys, updated) = widen_keys U (ar_requester r) (ar_column r) now (ks_keys (as_keys st'))
           in (Inr (r, updated),
               st'\<lparr>as_keys := invalidate_cache ((as_keys st')\<lparr>ks_keys := keys\<rparr>)\<rparr>)))"

definition deny_request ::
    "int \<Rightarrow> ustr \<Rightarrow> ustr \<Rightarrow> ustr \<Rightarrow> access_state \<Rightarrow> (access_error + access_row) \<times> access_state" where
  "deny_request i actor reason now st =
     (if strip reason = [] then (Inl Blank_reason, st)
      else (case claim i Access_denied (Some reason) actor now st of
              Inl e \<Rightarrow> (Inl e, st)
            | Inr (r, st') \<Rightarrow> (Inr r, st')))"

declare access_reasons_def [ev] requested_column_def [ev] pending_def [ev] new_request_def [ev]
  submit_request_def [ev] get_request_def [ev] list_requests_def [ev] claim_def [ev] same_entry_def [ev]
  widen_key_def [ev] widen_keys_def [ev] approve_request_def [ev] deny_request_def [ev]
  write_denied_columns_def [ev]

section \<open>A request is decided once\<close>

datatype access_command = Approve ustr ustr | Deny ustr ustr ustr

datatype access_op =
    Submit "audit_record option" ustr ustr ustr int ustr
  | Key_op key_env "ustr \<Rightarrow> ustr" key_op

type_synonym access_outcome = "access_status \<times> ustr option \<times> ustr option \<times> ustr option"

definition access_outcome :: "access_command \<Rightarrow> access_outcome" where
  "access_outcome c = (case c of
     Approve actor now \<Rightarrow> (Access_approved, None, Some actor, Some now)
   | Deny actor reason now \<Rightarrow> (Access_denied, Some reason, Some actor, Some now))"

definition access_valid :: "access_command \<Rightarrow> bool" where
  "access_valid c = (case c of Approve actor now \<Rightarrow> True | Deny actor reason now \<Rightarrow> strip reason \<noteq> [])"

definition row_outcome :: "access_row \<Rightarrow> access_outcome option" where
  "row_outcome r = (if ar_status r = Access_open then None else Some (ar_status r, ar_note r, ar_by r, ar_at r))"

definition access_status :: "access_state \<Rightarrow> int \<Rightarrow> access_outcome option option" where
  "access_status st i = map_option row_outcome (map_of (as_requests st) i)"

definition access_decide :: "unicode_db \<Rightarrow> int \<Rightarrow> access_command \<Rightarrow> access_state \<Rightarrow> bool \<times> access_state" where
  "access_decide U i c st = (case c of
     Approve actor now \<Rightarrow> map_prod (\<lambda>r. \<not> isl r) id (approve_request U i actor now st)
   | Deny actor reason now \<Rightarrow> map_prod (\<lambda>r. \<not> isl r) id (deny_request i actor reason now st))"

definition access_apply :: "access_op \<Rightarrow> access_state \<Rightarrow> access_state" where
  "access_apply x st = (case x of
     Submit record sid tid requester i now \<Rightarrow> snd (submit_request record sid tid requester i now st)
   | Key_op E sha256 k \<Rightarrow> st\<lparr>as_keys := apply_op E sha256 k (as_keys st)\<rparr>)"

lemma claim_cases:
  obtains (Absent) "map_of (as_requests st) i = None" "claim i s n a t st = Inl (Request_not_found i)"
  | (Decided) r where "map_of (as_requests st) i = Some r" "ar_status r \<noteq> Access_open"
      "claim i s n a t st = Inl (Already_resolved r)"
  | (Claimed) r where "map_of (as_requests st) i = Some r" "ar_status r = Access_open"
      "claim i s n a t st = Inr (r\<lparr>ar_status := s, ar_note := n, ar_by := Some a, ar_at := Some t\<rparr>,
         st\<lparr>as_requests := AList.update i (r\<lparr>ar_status := s, ar_note := n, ar_by := Some a, ar_at := Some t\<rparr>)
              (as_requests st)\<rparr>)"
proof (cases "map_of (as_requests st) i")
  case None
  then show ?thesis by (intro Absent) (simp_all add: claim_def)
next
  case (Some r)
  show ?thesis
  proof (cases "ar_status r = Access_open")
    case True
    with Some show ?thesis by (intro Claimed [of r]) (simp_all add: claim_def Let_def)
  next
    case False
    with Some show ?thesis by (intro Decided [of r]) (simp_all add: claim_def)
  qed
qed

text \<open>What a decision does to the table of requests.\<close>

definition decided_row :: "access_command \<Rightarrow> access_row \<Rightarrow> access_row" where
  "decided_row c r = (case access_outcome c of (s, n, a, t) \<Rightarrow>
     r\<lparr>ar_status := s, ar_note := n, ar_by := a, ar_at := t\<rparr>)"

lemma access_decide_effect:
  "(if access_valid c \<and> access_status st i = Some None
    then fst (access_decide U i c st)
      \<and> (\<exists>r. map_of (as_requests st) i = Some r \<and> ar_status r = Access_open
           \<and> as_requests (snd (access_decide U i c st)) = AList.update i (decided_row c r) (as_requests st))
    else \<not> fst (access_decide U i c st) \<and> snd (access_decide U i c st) = st)"
proof (cases c)
  case (Approve actor now)
  show ?thesis
    by (cases rule: claim_cases [of st i Access_approved None actor now])
      (simp_all add: Approve access_decide_def approve_request_def access_valid_def access_status_def row_outcome_def
        decided_row_def access_outcome_def Let_def case_prod_unfold)
next
  case (Deny actor reason now)
  show ?thesis
    by (cases rule: claim_cases [of st i Access_denied "Some reason" actor now])
      (simp_all add: Deny access_decide_def deny_request_def access_valid_def access_status_def row_outcome_def
        decided_row_def access_outcome_def)
qed

lemma row_outcome_decided [simp]: "row_outcome (decided_row c r) = Some (access_outcome c)"
  by (cases c) (simp_all add: row_outcome_def decided_row_def access_outcome_def)

lemma submit_keeps:
  "map_of (as_requests st) i = Some r \<Longrightarrow>
   map_of (as_requests (snd (submit_request record sid tid requester j now st))) i = Some r"
  by (auto simp: submit_request_def update_conv' od_keys_def Let_def map_of_SomeD split: sum.split option.split)
    (metis fst_conv image_eqI map_of_SomeD)

interpretation aq: triage access_status access_outcome access_valid "access_decide U" access_apply for U
proof
  fix i c st j
  show "fst (access_decide U i c st) = (access_valid c \<and> access_status st i = Some None)"
    using access_decide_effect [of c st i U] by (auto split: if_splits)
  show "access_status (snd (access_decide U i c st)) j
      = (if access_valid c \<and> access_status st i = Some None \<and> j = i then Some (Some (access_outcome c))
         else access_status st j)"
    using access_decide_effect [of c st i U] by (auto simp: access_status_def update_conv' split: if_splits)
next
  fix st i d x
  assume "access_status st i = Some (Some d)"
  then show "access_status (access_apply x st) i = Some (Some d)"
    by (cases x) (auto simp: access_status_def access_apply_def submit_keeps)
qed

definition access_step :: "unicode_db \<Rightarrow> (int \<times> access_command) + access_op \<Rightarrow> access_state \<Rightarrow> access_state" where
  "access_step U x st = (case x of Inl (i, c) \<Rightarrow> snd (access_decide U i c st) | Inr y \<Rightarrow> access_apply y st)"

text \<open>
  C17. However approvals and denials of requests follow each other, the first admissible command for
  an open request decides it and is the only one for it that is carried out; no later approval,
  denial, submission or operation on keys changes the decision.
\<close>

theorem access_decision_final:
  assumes "access_status st i = Some None" "map_of (filter (\<lambda>(j, c). access_valid c) cs) i = Some c"
  shows "wins i cs (fst (run_decisions (access_decide U) cs st)) = 1
    \<and> access_status (fold (access_step U) later (snd (run_decisions (access_decide U) cs st))) i
        = Some (Some (access_outcome c))"
proof -
  have *: "access_step U = (\<lambda>x s. case x of Inl (j, c) \<Rightarrow> snd (access_decide U j c s) | Inr y \<Rightarrow> access_apply y s)"
    by (intro ext) (simp add: access_step_def)
  show ?thesis
    unfolding * using aq.first_wins [OF assms, of U] by (intro conjI aq.decision_final) simp_all
qed

section \<open>One open request per column\<close>

definition one_open :: "access_state \<Rightarrow> bool" where
  "one_open st \<longleftrightarrow> od_ok (as_requests st)
     \<and> (\<forall>(i, r) \<in> set (as_requests st). \<forall>(j, r') \<in> set (as_requests st).
          pending (ar_requester r) (ar_column r) r \<and> pending (ar_requester r) (ar_column r) r' \<longrightarrow> i = j)"

lemma one_open_alt:
  "one_open st \<longleftrightarrow> od_ok (as_requests st)
     \<and> (\<forall>i j r r' q c. map_of (as_requests st) i = Some r \<and> map_of (as_requests st) j = Some r'
          \<and> pending q c r \<and> pending q c r' \<longrightarrow> i = j)"
proof (cases "od_ok (as_requests st)")
  case True
  then have eq: "(i, r) \<in> set (as_requests st) \<longleftrightarrow> map_of (as_requests st) i = Some r" for i r
    by (simp add: od_ok_def)
  have "one_open st \<longleftrightarrow> (\<forall>i r j r'. map_of (as_requests st) i = Some r \<and> map_of (as_requests st) j = Some r'
      \<and> pending (ar_requester r) (ar_column r) r \<and> pending (ar_requester r) (ar_column r) r' \<longrightarrow> i = j)"
    unfolding one_open_def Ball_def split_paired_All split_conv eq using True by blast
  also have "\<dots> \<longleftrightarrow> (\<forall>i j r r' q c. map_of (as_requests st) i = Some r \<and> map_of (as_requests st) j = Some r'
          \<and> pending q c r \<and> pending q c r' \<longrightarrow> i = j)"
    unfolding pending_def by (intro iffI allI impI) (metis, metis)
  finally show ?thesis using True by simp
qed (simp add: one_open_def)

lemma one_open_cong: "one_open (st\<lparr>as_keys := ks\<rparr>) \<longleftrightarrow> one_open st"
  by (simp add: one_open_def)

lemma one_open_insert:
  assumes "one_open st" "\<And>j r' q c. \<lbrakk>map_of (as_requests st) j = Some r'; j \<noteq> i; pending q c r\<rbrakk> \<Longrightarrow> \<not> pending q c r'"
    and "as_requests st' = AList.update i r (as_requests st)"
  shows "one_open st'"
  unfolding one_open_alt
proof (intro conjI allI impI)
  show "od_ok (as_requests st')" using assms(1) by (simp add: assms(3) od one_open_def)
next
  fix j k r1 r2 q c
  assume *: "map_of (as_requests st') j = Some r1 \<and> map_of (as_requests st') k = Some r2 \<and> pending q c r1 \<and> pending q c r2"
  have l: "map_of (as_requests st') = (map_of (as_requests st))(i \<mapsto> r)" by (simp add: assms(3) update_conv')
  consider "j = i" "k = i" | "j = i" "k \<noteq> i" | "j \<noteq> i" "k = i" | "j \<noteq> i" "k \<noteq> i" by blast
  then show "j = k"
  proof cases
    case 4
    with * l assms(1) show ?thesis unfolding one_open_alt by simp blast
  qed (use * l assms(2) in auto)
qed

lemma one_open_submit:
  assumes "one_open st"
  shows "one_open (snd (submit_request record sid tid requester i now st))"
proof (cases "snd (submit_request record sid tid requester i now st) = st")
  case False
  then obtain c where new: "find (\<lambda>(i, r). pending requester c r) (as_requests st) = None"
      "i \<notin> set (od_keys (as_requests st))"
      "as_requests (snd (submit_request record sid tid requester i now st))
        = AList.update i (new_request sid tid requester c now) (as_requests st)"
    by (auto simp: submit_request_def Let_def split: sum.splits option.splits if_splits)
  have none: "\<not> pending requester c r" if "map_of (as_requests st) j = Some r" for j r
    using new(1) map_of_SomeD [OF that] by (auto simp: find_None_iff)
  show ?thesis
    by (rule one_open_insert [OF assms _ new(3)]) (use none in \<open>auto simp: pending_def new_request_def\<close>)
qed (use assms in simp)

lemma pending_decided [simp]: "\<not> pending q c' (decided_row c r)"
  by (cases c) (simp_all add: pending_def decided_row_def access_outcome_def)

lemma one_open_decide:
  assumes "one_open st"
  shows "one_open (snd (access_decide U i c st))"
proof (cases "access_valid c \<and> access_status st i = Some None")
  case True
  with access_decide_effect [of c st i U] obtain r where
    e: "as_requests (snd (access_decide U i c st)) = AList.update i (decided_row c r) (as_requests st)"
    by auto
  show ?thesis by (rule one_open_insert [OF assms _ e]) simp
next
  case False
  with access_decide_effect [of c st i U] assms show ?thesis by simp
qed

text \<open>
  A requester never has two open requests for the same column: repeating a request returns the
  one that is waiting, and a new one is only opened once that has been decided.
\<close>

theorem one_open_request_per_column:
  assumes "one_open st"
  shows "one_open (fold (access_step U) xs st)"
  using assms
proof (induction xs arbitrary: st)
  case (Cons x xs)
  have "one_open (access_apply y st)" for y
    using Cons.prems one_open_submit [OF Cons.prems] by (cases y) (simp_all add: access_apply_def one_open_cong)
  then have "one_open (access_step U x st)"
    using Cons.prems by (auto simp: access_step_def one_open_decide split: sum.split)
  with Cons.IH show ?case by simp
qed simp

section \<open>What an approval changes\<close>

lemma read_entry_idem [simp]: "read_entry U (read_entry U raw) = read_entry U raw"
  by (simp add: read_entry_def)

lemma denied_names_read_entry [simp]: "denied_names U (read_entry U raw) = denied_names U raw"
  by (cases "normalize_denied_entry U raw = []") (simp_all add: denied_names_def read_entry_def Let_def)

lemma clean_entries_read: "clean_entries U es = map (read_entry U) es"
  by (induction es) (simp_all add: clean_entries_def Let_def read_entry_def)

definition denied_by :: "unicode_db \<Rightarrow> ustr list \<Rightarrow> ustr set" where
  "denied_by U es = denies U (Item_str ` set es)"

definition joins_by :: "unicode_db \<Rightarrow> ustr list \<Rightarrow> scoped_id set" where
  "joins_by U es = joins U (Item_str ` set es)"

lemma denied_by_clean [simp]: "denied_by U (clean_entries U es) = denied_by U es"
  by (induction es) (simp_all add: clean_entries_read denied_by_def)

lemma joins_by_clean [simp]: "joins_by U (clean_entries U es) = joins_by U es"
  by (induction es) (simp_all add: clean_entries_read joins_by_def split: sum.split)

lemma denied_by_mono: "set es \<subseteq> set es' \<Longrightarrow> denied_by U es \<subseteq> denied_by U es'"
  by (auto simp: denied_by_def denies_def)

lemma joins_by_mono: "set es \<subseteq> set es' \<Longrightarrow> joins_by U es \<subseteq> joins_by U es'"
  by (auto simp: joins_by_def joins_def)

lemma drop_first_Some:
  "drop_first P xs = Some ys \<Longrightarrow> \<exists>as x bs. xs = as @ x # bs \<and> ys = as @ bs \<and> P x \<and> list_all (\<lambda>a. \<not> P a) as"
proof (induction xs arbitrary: ys)
  case (Cons x xs)
  show ?case
  proof (cases "P x")
    case True
    with Cons.prems show ?thesis by (intro exI [of _ "[]"]) simp
  next
    case False
    with Cons obtain zs where zs: "drop_first P xs = Some zs" "ys = x # zs" by auto
    then obtain as y bs where "xs = as @ y # bs" "zs = as @ bs" "P y" "list_all (\<lambda>a. \<not> P a) as"
      using Cons.IH by blast
    with False zs show ?thesis by (intro exI [of _ "x # as"]) auto
  qed
qed simp

lemma drop_first_None: "drop_first P xs = None \<longleftrightarrow> (\<forall>x \<in> set xs. \<not> P x)"
  by (induction xs) auto

lemma widen_key_Some:
  assumes "widen_key U requester column now r = Some r'"
  shows "kr_principal r = requester \<and> kr_revoked r = None \<and> r' = r\<lparr>kr_denied := kr_denied r', kr_updated := now\<rparr>
    \<and> denied_by U (kr_denied r') \<subseteq> denied_by U (kr_denied r) \<and> joins_by U (kr_denied r') \<subseteq> joins_by U (kr_denied r)"
proof -
  obtain d where d: "drop_first (same_entry U column) (kr_denied r) = Some d"
      "r' = write_denied_columns U d now r" "kr_principal r = requester" "kr_revoked r = None"
    using assms by (auto simp: widen_key_def split: if_splits)
  have "set d \<subseteq> set (kr_denied r)" using drop_first_Some [OF d(1)] by auto
  then show ?thesis
    using d denied_by_mono [of d "kr_denied r" U] joins_by_mono [of d "kr_denied r" U]
    by (simp add: write_denied_columns_def)
qed

lemma approve_cases:
  assumes "approve_request U i actor now st = (Inr (row, n), st')"
  obtains r where "map_of (as_requests st) i = Some r" "ar_status r = Access_open"
    "row = decided_row (Approve actor now) r"
    "ks_keys (as_keys st') = fst (widen_keys U (ar_requester r) (ar_column r) now (ks_keys (as_keys st)))"
    "n = snd (widen_keys U (ar_requester r) (ar_column r) now (ks_keys (as_keys st)))"
    "ks_roles (as_keys st') = ks_roles (as_keys st)" "ks_cached (as_keys st') = None"
  using assms
  by (cases rule: claim_cases [of st i Access_approved None actor now])
    (auto simp: approve_request_def case_prod_unfold Let_def decided_row_def access_outcome_def invalidate_cache_def)

lemma widen_keys_lookup:
  "map_of (fst (widen_keys U q c now keys)) h
     = map_option (\<lambda>r. case widen_key U q c now r of None \<Rightarrow> r | Some r' \<Rightarrow> r') (map_of keys h)"
  unfolding widen_keys_def by (simp add: map_of_map)

text \<open>
  C23. An approval can only widen access, and only for the requester: every key keeps its row, except
  that a key of the requester that is not revoked may deny less; no name and no join-only column
  becomes restricted that was not before.
\<close>

theorem approval_only_widens:
  assumes "approve_request U i actor now st = (Inr (row, n), st')" "map_of (ks_keys (as_keys st)) h = Some r"
  shows "\<exists>r'. map_of (ks_keys (as_keys st')) h = Some r'
    \<and> (r' = r \<or> kr_principal r = ar_requester row \<and> kr_revoked r = None
         \<and> r' = r\<lparr>kr_denied := kr_denied r', kr_updated := now\<rparr>
         \<and> denied_by U (kr_denied r') \<subseteq> denied_by U (kr_denied r)
         \<and> joins_by U (kr_denied r') \<subseteq> joins_by U (kr_denied r))"
proof -
  obtain q where q: "row = decided_row (Approve actor now) q"
      "ks_keys (as_keys st') = fst (widen_keys U (ar_requester q) (ar_column q) now (ks_keys (as_keys st)))"
    using assms(1) by (rule approve_cases)
  have qr: "ar_requester row = ar_requester q" by (simp add: q(1) decided_row_def access_outcome_def)
  show ?thesis
  proof (cases "widen_key U (ar_requester q) (ar_column q) now r")
    case None
    then show ?thesis by (simp add: q(2) widen_keys_lookup assms(2))
  next
    case (Some r')
    from widen_key_Some [OF this] Some show ?thesis
      unfolding qr by (intro exI [of _ r']) (simp add: q(2) widen_keys_lookup assms(2))
  qed
qed

lemma drop_single:
  assumes "filter P xs = [x]"
  shows "drop_first P xs = Some (filter (\<lambda>y. \<not> P y) xs)"
  using assms
proof (induction xs)
  case (Cons y ys)
  show ?case
  proof (cases "P y")
    case True
    with Cons.prems have "filter P ys = []" by simp
    then have "filter (\<lambda>y. \<not> P y) ys = ys" by (simp add: filter_empty_conv filter_id_conv)
    with True show ?thesis by simp
  next
    case False
    with Cons show ?thesis by simp
  qed
qed simp

text \<open>
  An approval takes effect on the next request: a usable key of the requester that holds the
  requested entry once then authenticates a caller restricted by exactly the other entries.
\<close>

theorem approved_access_takes_effect:
  assumes "approve_request (ae_unicode (ke_auth E)) i actor now st = (Inr (row, n), st')"
    and "map_of (ks_keys (as_keys st)) h = Some r" "usable r" "kr_principal r = ar_requester row"
    and "od_ok (ks_keys (as_keys st))"
    and "filter (same_entry (ae_unicode (ke_auth E)) (ar_column row)) (kr_denied r) = [entry]"
  shows "\<exists>p. map_of (fst (get_active_principals E True later (as_keys st'))) h = Some p
    \<and> pr_denied p = clean_entries (ae_unicode (ke_auth E))
        (filter (\<lambda>e. \<not> same_entry (ae_unicode (ke_auth E)) (ar_column row) e) (kr_denied r))"
proof -
  let ?U = "ae_unicode (ke_auth E)"
  obtain q where q: "row = decided_row (Approve actor now) q"
      "ks_keys (as_keys st') = fst (widen_keys ?U (ar_requester q) (ar_column q) now (ks_keys (as_keys st)))"
      "ks_cached (as_keys st') = None"
    using assms(1) by (rule approve_cases)
  have qr: "ar_requester row = ar_requester q" "ar_column row = ar_column q"
    by (simp_all add: q(1) decided_row_def access_outcome_def)
  let ?d = "filter (\<lambda>e. \<not> same_entry ?U (ar_column row) e) (kr_denied r)"
  let ?r = "write_denied_columns ?U ?d now r"
  have "kr_revoked r = None" using assms(3) by (simp add: usable_def)
  then have "widen_key ?U (ar_requester q) (ar_column q) now r = Some ?r"
    using drop_single [OF assms(6)] assms(4) by (simp add: widen_key_def qr)
  then have r: "map_of (ks_keys (as_keys st')) h = Some ?r"
    by (simp add: q(2) widen_keys_lookup assms(2))
  have "od_ok (ks_keys (as_keys st'))"
    using assms(5) by (simp add: q(2) widen_keys_def od_ok_def case_prod_unfold comp_def)
  then have rows: "od_ok (load_db_rows True (as_keys st'))"
    by (simp add: od_ok_def load_db_rows_def case_prod_unfold comp_def)
  have l: "map_of (load_db_rows True (as_keys st')) h
      = Some (?r, role_capabilities (as_keys st') (kr_principal ?r))"
    using r by (simp add: load_db_rows_def map_of_map)
  have "usable ?r" using assms(3) by (simp add: usable_def write_denied_columns_def)
  with l rows show ?thesis
    by (simp add: get_active_principals_def q(3) fresh_principals_def merge_keys_lookup row_principal_def
        make_principal_def write_denied_columns_def clean_entries_idem Let_def)
qed

text \<open>
  The column of a request is spelled as the refused query spelled it, and the guard compares
  names upper-cased, but the approval looks for the entry as it is written: when the requester's
  keys deny the column in another case the approval succeeds, is final, changes no key, and the
  column stays denied.
\<close>

theorem approval_misses_other_case:
  assumes "map_of (as_requests st) i = Some q" "ar_status q = Access_open" "ar_column q = column"
    and "list_all (\<lambda>(h, k). kr_principal k = ar_requester q \<longrightarrow> kr_denied k = [entry]) (ks_keys (as_keys st))"
    and "normalize_denied_entry U entry = entry" "normalize_denied_entry U column = column"
    and "is_plain entry" "entry \<noteq> column" "entry \<noteq> []" "upper U entry = upper U column"
  shows "\<exists>row st'. approve_request U i actor now st = (Inr (row, 0), st')
    \<and> access_status st' i = Some (Some (access_outcome (Approve actor now)))
    \<and> ks_keys (as_keys st') = ks_keys (as_keys st)
    \<and> upper U column \<in> denied_by U [entry]"
proof -
  let ?keys = "ks_keys (as_keys st)"
  have n: "\<not> same_entry U column entry" using assms(5,6,8) by (simp add: same_entry_def)
  have k: "widen_key U (ar_requester q) column now k = None" if "(h, k) \<in> set ?keys" for h k
  proof (cases "kr_principal k = ar_requester q")
    case True
    with assms(4) that have "kr_denied k = [entry]" by (auto simp: list_all_iff)
    with n show ?thesis by (simp add: widen_key_def)
  qed (simp add: widen_key_def)
  have "map (\<lambda>(h, r). (h, case widen_key U (ar_requester q) column now r of None \<Rightarrow> r | Some r' \<Rightarrow> r')) ?keys = ?keys"
    by (rule map_idI) (use k in auto)
  moreover have "filter (\<lambda>(h, r). widen_key U (ar_requester q) column now r \<noteq> None) ?keys = []"
    using k by (auto simp: filter_empty_conv)
  ultimately have w: "widen_keys U (ar_requester q) column now ?keys = (?keys, 0)"
    by (simp add: widen_keys_def)
  have v: "access_valid (Approve actor now) \<and> access_status st i = Some None"
    using assms(1,2) by (simp add: access_valid_def access_status_def row_outcome_def)
  let ?r = "decided_row (Approve actor now) q"
  have c: "claim i Access_approved None actor now st = Inr (?r, st\<lparr>as_requests := AList.update i ?r (as_requests st)\<rparr>)"
    using assms(1,2) by (simp add: claim_def decided_row_def access_outcome_def Let_def)
  have rq: "ar_requester ?r = ar_requester q" "ar_column ?r = column"
    by (simp_all add: decided_row_def access_outcome_def assms(3))
  have "approve_request U i actor now st = (Inr (?r, 0),
      st\<lparr>as_requests := AList.update i ?r (as_requests st), as_keys := invalidate_cache ((as_keys st)\<lparr>ks_keys := ?keys\<rparr>)\<rparr>)"
    by (simp add: approve_request_def c rq w)
  moreover have "upper U column \<in> denied_by U [entry]"
    using assms(5,7,9,10) by (simp add: denied_by_def read_entry_def denied_names_def Let_def)
  ultimately show ?thesis by (simp add: access_status_def update_conv')
qed

section \<open>A concrete queue\<close>

definition example_access :: access_state where
  "example_access = \<lparr>as_requests = [(1, new_request (u ''s'') (u ''t'') (u ''a'') (u ''ID'') (u ''0''))],
     as_keys = example_key_state\<lparr>ks_keys := [(u ''h'', (example_key_row ''a'')\<lparr>kr_denied := [u ''ID'', u ''Pay'']\<rparr>)]\<rparr>\<rparr>"

lemma example_approval:
  "approve_request ascii_db 1 (u ''b'') (u ''2'') example_access =
     (Inr (decided_row (Approve (u ''b'') (u ''2'')) (new_request (u ''s'') (u ''t'') (u ''a'') (u ''ID'') (u ''0'')), 1),
      snd (approve_request ascii_db 1 (u ''b'') (u ''2'') example_access))"
  by (simp add: example_access_def example_key_state_def example_key_row_def decided_row_def access_outcome_def
      ev Let_def clean_entries_def)

theorem access_decision_final_witness:
  defines "cs \<equiv> [(1 :: int, Deny (u ''b'') (u '' '') (u ''2'')), (1, Approve (u ''b'') (u ''3'')),
      (1, Deny (u ''c'') (u ''no'') (u ''4''))]"
  shows "wins 1 cs (fst (run_decisions (access_decide ascii_db) cs example_access)) = 1
    \<and> access_status (fold (access_step ascii_db) [Inl (1, Deny (u ''d'') (u ''late'') (u ''5''))]
        (snd (run_decisions (access_decide ascii_db) cs example_access))) 1
      = Some (Some (access_outcome (Approve (u ''b'') (u ''3''))))"
proof (rule access_decision_final)
  show "access_status example_access 1 = Some None"
    by (simp add: access_status_def example_access_def row_outcome_def new_request_def)
  have "strip (u '' '') = []" by (simp add: ev)
  then show "map_of (filter (\<lambda>(j, c). access_valid c) cs) 1 = Some (Approve (u ''b'') (u ''3''))"
    by (simp add: cs_def access_valid_def)
qed

theorem one_open_request_per_column_witness:
  "one_open (fold (access_step ascii_db)
     [Inr (Submit None (u ''s'') (u ''t'') (u ''a'') 2 (u ''1'')), Inl (1, Approve (u ''b'') (u ''3''))] example_access)"
  by (rule one_open_request_per_column) (simp add: one_open_def example_access_def od_ok_def)

theorem approval_only_widens_witness:
  "\<exists>r'. map_of (ks_keys (as_keys (snd (approve_request ascii_db 1 (u ''b'') (u ''2'') example_access)))) (u ''h'') = Some r'
    \<and> (r' = (example_key_row ''a'')\<lparr>kr_denied := [u ''ID'', u ''Pay'']\<rparr>
       \<or> kr_principal ((example_key_row ''a'')\<lparr>kr_denied := [u ''ID'', u ''Pay'']\<rparr>)
           = ar_requester (decided_row (Approve (u ''b'') (u ''2'')) (new_request (u ''s'') (u ''t'') (u ''a'') (u ''ID'') (u ''0'')))
         \<and> kr_revoked ((example_key_row ''a'')\<lparr>kr_denied := [u ''ID'', u ''Pay'']\<rparr>) = None
         \<and> r' = ((example_key_row ''a'')\<lparr>kr_denied := [u ''ID'', u ''Pay'']\<rparr>)\<lparr>kr_denied := kr_denied r', kr_updated := u ''2''\<rparr>
         \<and> denied_by ascii_db (kr_denied r') \<subseteq> denied_by ascii_db (kr_denied ((example_key_row ''a'')\<lparr>kr_denied := [u ''ID'', u ''Pay'']\<rparr>))
         \<and> joins_by ascii_db (kr_denied r') \<subseteq> joins_by ascii_db (kr_denied ((example_key_row ''a'')\<lparr>kr_denied := [u ''ID'', u ''Pay'']\<rparr>)))"
  by (rule approval_only_widens [OF example_approval]) (simp add: example_access_def)

theorem approved_access_takes_effect_witness:
  "\<exists>p. map_of (fst (get_active_principals example_key_env True 9
       (as_keys (snd (approve_request ascii_db 1 (u ''b'') (u ''2'') example_access))))) (u ''h'') = Some p
    \<and> pr_denied p = [u ''Pay'']"
proof -
  have U: "ae_unicode (ke_auth example_key_env) = ascii_db"
    by (simp add: example_key_env_def example_env_def)
  have f: "filter (same_entry ascii_db (u ''ID'')) [u ''ID'', u ''Pay''] = [u ''ID'']"
    by (simp add: ev)
  have c: "ar_column (decided_row (Approve (u ''b'') (u ''2'')) (new_request (u ''s'') (u ''t'') (u ''a'') (u ''ID'') (u ''0''))) = u ''ID''"
    by (simp add: decided_row_def access_outcome_def new_request_def)
  have r: "clean_entries ascii_db (filter (\<lambda>e. \<not> same_entry ascii_db (u ''ID'') e) [u ''ID'', u ''Pay'']) = [u ''Pay'']"
    by (simp add: ev clean_entries_def)
  have "\<exists>p. map_of (fst (get_active_principals example_key_env True 9
       (as_keys (snd (approve_request ascii_db 1 (u ''b'') (u ''2'') example_access))))) (u ''h'') = Some p
    \<and> pr_denied p = clean_entries ascii_db (filter (\<lambda>e. \<not> same_entry ascii_db (u ''ID'') e) [u ''ID'', u ''Pay''])"
    using approved_access_takes_effect [of example_key_env, unfolded U, OF example_approval,
        of "u ''h''" "(example_key_row ''a'')\<lparr>kr_denied := [u ''ID'', u ''Pay'']\<rparr>" "u ''ID''" 9] c f
    by (simp add: example_access_def usable_def example_key_row_def od_ok_def decided_row_def access_outcome_def new_request_def)
  then show ?thesis unfolding r .
qed

theorem approval_misses_other_case_witness:
  "\<exists>row st'. approve_request ascii_db 1 (u ''b'') (u ''2'')
       (example_access\<lparr>as_keys := example_key_state\<lparr>ks_keys := [(u ''h'', (example_key_row ''a'')\<lparr>kr_denied := [u ''id'']\<rparr>)]\<rparr>\<rparr>)
     = (Inr (row, 0), st')
    \<and> access_status st' 1 = Some (Some (access_outcome (Approve (u ''b'') (u ''2''))))
    \<and> ks_keys (as_keys st') = [(u ''h'', (example_key_row ''a'')\<lparr>kr_denied := [u ''id'']\<rparr>)]
    \<and> upper ascii_db (u ''ID'') \<in> denied_by ascii_db [u ''id'']"
proof -
  have "normalize_denied_entry ascii_db (u ''id'') = u ''id''" "normalize_denied_entry ascii_db (u ''ID'') = u ''ID''"
    "is_plain (u ''id'')" "upper ascii_db (u ''id'') = upper ascii_db (u ''ID'')"
    by (simp_all add: ev is_plain_def)
  then show ?thesis
    using approval_misses_other_case [of "example_access\<lparr>as_keys :=
        example_key_state\<lparr>ks_keys := [(u ''h'', (example_key_row ''a'')\<lparr>kr_denied := [u ''id'']\<rparr>)]\<rparr>\<rparr>" 1
        "new_request (u ''s'') (u ''t'') (u ''a'') (u ''ID'') (u ''0'')" "u ''ID''" "u ''id''" ascii_db "u ''b''" "u ''2''"]
    by (simp add: example_access_def new_request_def)
qed

end
