(* ===== verification/Feedback.thy ===== *)
theory Feedback
  imports Rotating_Log Decision_Queue
begin

text \<open>
  \<open>appdb/feedback.py\<close>, \<open>appdb/confirmations.py\<close> and the routes that combine them
  (\<open>api/v2_routes.py\<close>, \<open>api/admin_feedback_routes.py\<close>): analysts flag an answer as wrong or confirm it
  as right, and an administrator resolves a flag, possibly by adding the question to the golden set.
  The state is the two tables and the cases of the golden file; the record of the audit log, row
  ids and timestamps are arguments.
\<close>

section \<open>Flags\<close>

record flag_row =
  fl_session :: ustr
  fl_turn :: ustr
  fl_request :: "json option"
  fl_reporter :: ustr
  fl_category :: ustr
  fl_note :: "ustr option"
  fl_config_version :: "json option"
  fl_created :: ustr
  fl_open :: bool
  fl_outcome :: "ustr option"
  fl_resolution_note :: "ustr option"
  fl_resolution_version :: "int option"
  fl_golden_case :: "ustr option"
  fl_by :: "ustr option"
  fl_at :: "ustr option"

record confirmation =
  cf_session :: ustr
  cf_turn :: ustr
  cf_principal :: ustr
  cf_request :: "json option"
  cf_created :: ustr

record golden_case =
  gc_id :: ustr
  gc_question :: ustr
  gc_tags :: "ustr list"
  gc_status :: ustr

record feedback_state =
  fb_flags :: "(int, flag_row) odict"
  fb_confirmations :: "(int, confirmation) odict"
  fb_golden :: "golden_case list"

datatype feedback_error =
    Bad_category
  | Not_audited
  | Not_successful
  | Flag_not_found int
  | Flag_resolved flag_row
  | Bad_outcome
  | Note_required
  | Bad_question
  | Row_id_taken int
  | Unknown_turn

definition feedback_categories :: "ustr list" where
  "feedback_categories = [u ''wrong_number'', u ''different_question'', u ''wrong_filter_or_period'', u ''other'']"

definition resolution_outcomes :: "ustr list" where
  "resolution_outcomes = [u ''alias_fix'', u ''rule_fix'', u ''golden_case'', u ''not_a_defect'']"

text \<open>\<open>text or None\<close>.\<close>

definition text_or_none :: "ustr \<Rightarrow> ustr option" where
  "text_or_none s = (if s = [] then None else Some s)"

definition submit_flag ::
    "audit_record option \<Rightarrow> ustr \<Rightarrow> ustr \<Rightarrow> ustr \<Rightarrow> ustr \<Rightarrow> ustr \<Rightarrow> int \<Rightarrow> ustr \<Rightarrow> feedback_state
     \<Rightarrow> (feedback_error + int) \<times> feedback_state" where
  "submit_flag record sid tid reporter category note new_id now st =
     (if category \<notin> set feedback_categories then (Inl Bad_category, st)
      else (case record of
              None \<Rightarrow> (Inl Not_audited, st)
            | Some fs \<Rightarrow>
                if new_id \<in> set (od_keys (fb_flags st)) then (Inl (Row_id_taken new_id), st)
                else (Inr new_id, st\<lparr>fb_flags := AList.update new_id
                       \<lparr>fl_session = sid, fl_turn = tid, fl_request = map_of fs (u ''request_id''),
                        fl_reporter = reporter, fl_category = category, fl_note = text_or_none note,
                        fl_config_version = map_of fs (u ''config_version_id''), fl_created = now,
                        fl_open = True, fl_outcome = None, fl_resolution_note = None,
                        fl_resolution_version = None, fl_golden_case = None, fl_by = None, fl_at = None\<rparr>
                       (fb_flags st)\<rparr>)))"

definition get_feedback :: "int \<Rightarrow> feedback_state \<Rightarrow> feedback_error + flag_row" where
  "get_feedback i st = (case map_of (fb_flags st) i of None \<Rightarrow> Inl (Flag_not_found i) | Some r \<Rightarrow> Inr r)"

definition list_feedback :: "bool option \<Rightarrow> ustr option \<Rightarrow> feedback_state \<Rightarrow> (int \<times> flag_row) list" where
  "list_feedback is_open sid st =
     sort_key (\<lambda>e. - fst e)
       (filter (\<lambda>(i, r). (is_open = None \<or> is_open = Some (fl_open r)) \<and> (sid = None \<or> sid = Some (fl_session r)))
         (fb_flags st))"

definition own_open_flag :: "ustr \<Rightarrow> ustr \<Rightarrow> ustr \<Rightarrow> flag_row \<Rightarrow> bool" where
  "own_open_flag sid tid reporter r \<longleftrightarrow>
     fl_session r = sid \<and> fl_turn r = tid \<and> fl_reporter r = reporter \<and> fl_open r"

definition withdraw_open_flags :: "ustr \<Rightarrow> ustr \<Rightarrow> ustr \<Rightarrow> feedback_state \<Rightarrow> nat \<times> feedback_state" where
  "withdraw_open_flags sid tid reporter st =
     (length (filter (\<lambda>(i, r). own_open_flag sid tid reporter r) (fb_flags st)),
      st\<lparr>fb_flags := filter (\<lambda>(i, r). \<not> own_open_flag sid tid reporter r) (fb_flags st)\<rparr>)"

text \<open>
  Resolving a flag: the checks of the arguments, the read that must find the flag open, and the
  update by id.
\<close>

record resolution =
  rs_outcome :: ustr
  rs_actor :: ustr
  rs_note :: ustr
  rs_version :: "int option"
  rs_golden :: "ustr option"
  rs_now :: ustr

definition resolution_error :: "resolution \<Rightarrow> feedback_error option" where
  "resolution_error q =
     (if rs_outcome q \<notin> set resolution_outcomes then Some Bad_outcome
      else if rs_outcome q = u ''not_a_defect'' \<and> strip (rs_note q) = [] then Some Note_required else None)"

definition check_open :: "int \<Rightarrow> feedback_state \<Rightarrow> feedback_error option" where
  "check_open i st =
     (case map_of (fb_flags st) i of
        None \<Rightarrow> Some (Flag_not_found i)
      | Some r \<Rightarrow> if fl_open r then None else Some (Flag_resolved r))"

definition resolved_flag :: "resolution \<Rightarrow> flag_row \<Rightarrow> flag_row" where
  "resolved_flag q r = r\<lparr>fl_open := False, fl_outcome := Some (rs_outcome q), fl_resolution_note := text_or_none (rs_note q),
     fl_resolution_version := rs_version q, fl_golden_case := rs_golden q, fl_by := Some (rs_actor q),
     fl_at := Some (rs_now q)\<rparr>"

definition write_resolution :: "int \<Rightarrow> resolution \<Rightarrow> feedback_state \<Rightarrow> feedback_state" where
  "write_resolution i q st =
     (case map_of (fb_flags st) i of
        None \<Rightarrow> st
      | Some r \<Rightarrow> st\<lparr>fb_flags := AList.update i (resolved_flag q r) (fb_flags st)\<rparr>)"

definition resolve_feedback ::
    "int \<Rightarrow> resolution \<Rightarrow> feedback_state \<Rightarrow> (feedback_error + flag_row) \<times> feedback_state" where
  "resolve_feedback i q st =
     (case resolution_error q of
        Some e \<Rightarrow> (Inl e, st)
      | None \<Rightarrow>
          (case check_open i st of
             Some e \<Rightarrow> (Inl e, st)
           | None \<Rightarrow> (let st' = write_resolution i q st in (get_feedback i st', st'))))"

definition golden_case_id :: "int \<Rightarrow> ustr" where
  "golden_case_id i = u ''feedback_'' @ show_int i"

text \<open>\<open>lookup\<close> is the join of a flag's turn with the audit log.\<close>

definition promote_to_golden_case ::
    "(ustr \<Rightarrow> ustr \<Rightarrow> audit_record option) \<Rightarrow> int \<Rightarrow> ustr list \<Rightarrow> feedback_state
     \<Rightarrow> (feedback_error + ustr \<times> ustr) \<times> feedback_state" where
  "promote_to_golden_case lookup i tags st =
     (case get_feedback i st of
        Inl e \<Rightarrow> (Inl e, st)
      | Inr r \<Rightarrow>
          (case lookup (fl_session r) (fl_turn r) of
             None \<Rightarrow> (Inl Not_audited, st)
           | Some fs \<Rightarrow>
               (case map_of fs (u ''question'') of
                  Some (J_str question) \<Rightarrow>
                    (if strip question = [] then (Inl Bad_question, st)
                     else (Inr (golden_case_id i, question),
                           st\<lparr>fb_golden := fb_golden st @ [\<lparr>gc_id = golden_case_id i, gc_question = question,
                              gc_tags = tags, gc_status = u ''pending_expected''\<rparr>]\<rparr>))
                | _ \<Rightarrow> (Inl Bad_question, st))))"

text \<open>The resolve route: a golden case is written before the flag is looked at.\<close>

definition admin_resolve_feedback ::
    "(ustr \<Rightarrow> ustr \<Rightarrow> audit_record option) \<Rightarrow> int \<Rightarrow> resolution \<Rightarrow> ustr list \<Rightarrow> feedback_state
     \<Rightarrow> (feedback_error + flag_row) \<times> feedback_state" where
  "admin_resolve_feedback lookup i q tags st =
     (if rs_outcome q = u ''golden_case''
      then (case promote_to_golden_case lookup i tags st of
              (Inl e, st') \<Rightarrow> (Inl e, st')
            | (Inr (case_id, question), st') \<Rightarrow> resolve_feedback i (q\<lparr>rs_golden := Some case_id\<rparr>) st')
      else resolve_feedback i (q\<lparr>rs_golden := None\<rparr>) st)"

section \<open>Confirmations\<close>

definition confirms :: "ustr \<Rightarrow> ustr \<Rightarrow> ustr \<Rightarrow> confirmation \<Rightarrow> bool" where
  "confirms sid tid pid c \<longleftrightarrow> cf_session c = sid \<and> cf_turn c = tid \<and> cf_principal c = pid"

definition get_confirmation :: "ustr \<Rightarrow> ustr \<Rightarrow> ustr \<Rightarrow> feedback_state \<Rightarrow> (int \<times> confirmation) option" where
  "get_confirmation sid tid pid st = find (\<lambda>(i, c). confirms sid tid pid c) (fb_confirmations st)"

definition confirm_turn ::
    "audit_record option \<Rightarrow> ustr \<Rightarrow> ustr \<Rightarrow> ustr \<Rightarrow> int \<Rightarrow> ustr \<Rightarrow> feedback_state
     \<Rightarrow> (feedback_error + (int \<times> confirmation) \<times> bool) \<times> feedback_state" where
  "confirm_turn record sid tid pid new_id now st =
     (case record of
        None \<Rightarrow> (Inl Not_audited, st)
      | Some fs \<Rightarrow>
          if \<not> turn_executed_successfully fs then (Inl Not_successful, st)
          else (case get_confirmation sid tid pid st of
                  Some existing \<Rightarrow> (Inr (existing, False), st)
                | None \<Rightarrow>
                    if new_id \<in> set (od_keys (fb_confirmations st)) then (Inl (Row_id_taken new_id), st)
                    else (let row = \<lparr>cf_session = sid, cf_turn = tid, cf_principal = pid,
                                     cf_request = map_of fs (u ''request_id''), cf_created = now\<rparr>
                          in (Inr ((new_id, row), True),
                              st\<lparr>fb_confirmations := AList.update new_id row (fb_confirmations st)\<rparr>))))"

definition withdraw_confirmation :: "ustr \<Rightarrow> ustr \<Rightarrow> ustr \<Rightarrow> feedback_state \<Rightarrow> bool \<times> feedback_state" where
  "withdraw_confirmation sid tid pid st =
     (list_ex (\<lambda>(i, c). confirms sid tid pid c) (fb_confirmations st),
      st\<lparr>fb_confirmations := filter (\<lambda>(i, c). \<not> confirms sid tid pid c) (fb_confirmations st)\<rparr>)"

definition list_confirmations ::
    "ustr option \<Rightarrow> ustr option \<Rightarrow> ustr option \<Rightarrow> feedback_state \<Rightarrow> (int \<times> confirmation) list" where
  "list_confirmations sid pid since st =
     rev (sort_key (\<lambda>e. (cf_created (snd e), fst e))
       (filter (\<lambda>(i, c). (sid = None \<or> sid = Some (cf_session c)) \<and> (pid = None \<or> pid = Some (cf_principal c))
                  \<and> (case since of None \<Rightarrow> True | Some t \<Rightarrow> t \<le> cf_created c)) (fb_confirmations st)))"

section \<open>The analyst's routes\<close>

text \<open>
  \<open>sessions\<close> gives the owner of a live session and the turns in it. A turn of another principal is
  answered as if it did not exist.
\<close>

definition owned_turn :: "(ustr \<Rightarrow> (ustr option \<times> ustr list) option) \<Rightarrow> ustr \<Rightarrow> ustr \<Rightarrow> ustr \<Rightarrow> bool" where
  "owned_turn sessions pid sid tid =
     (case sessions sid of
        None \<Rightarrow> False
      | Some (owner, turns) \<Rightarrow> (owner = None \<or> owner = Some pid) \<and> tid \<in> set turns)"

definition submit_turn_feedback ::
    "(ustr \<Rightarrow> (ustr option \<times> ustr list) option) \<Rightarrow> (ustr \<Rightarrow> ustr \<Rightarrow> audit_record option) \<Rightarrow> ustr
     \<Rightarrow> ustr \<Rightarrow> ustr \<Rightarrow> ustr \<Rightarrow> ustr \<Rightarrow> int \<Rightarrow> ustr \<Rightarrow> feedback_state
     \<Rightarrow> (feedback_error + int \<times> bool) \<times> feedback_state" where
  "submit_turn_feedback sessions lookup pid sid tid category note new_id now st =
     (if \<not> owned_turn sessions pid sid tid then (Inl Unknown_turn, st)
      else (case submit_flag (lookup sid tid) sid tid pid category note new_id now st of
              (Inl e, st') \<Rightarrow> (Inl e, st')
            | (Inr i, st') \<Rightarrow>
                (case withdraw_confirmation sid tid pid st' of (w, st'') \<Rightarrow> (Inr (i, w), st''))))"

definition submit_turn_confirmation ::
    "(ustr \<Rightarrow> (ustr option \<times> ustr list) option) \<Rightarrow> (ustr \<Rightarrow> ustr \<Rightarrow> audit_record option) \<Rightarrow> ustr
     \<Rightarrow> ustr \<Rightarrow> ustr \<Rightarrow> int \<Rightarrow> ustr \<Rightarrow> feedback_state
     \<Rightarrow> (feedback_error + (int \<times> confirmation) \<times> bool \<times> nat) \<times> feedback_state" where
  "submit_turn_confirmation sessions lookup pid sid tid new_id now st =
     (if \<not> owned_turn sessions pid sid tid then (Inl Unknown_turn, st)
      else (case confirm_turn (lookup sid tid) sid tid pid new_id now st of
              (Inl e, st') \<Rightarrow> (Inl e, st')
            | (Inr (row, created), st') \<Rightarrow>
                (case withdraw_open_flags sid tid pid st' of (n, st'') \<Rightarrow> (Inr (row, created, n), st''))))"

definition withdraw_turn_confirmation ::
    "(ustr \<Rightarrow> (ustr option \<times> ustr list) option) \<Rightarrow> ustr \<Rightarrow> ustr \<Rightarrow> ustr \<Rightarrow> feedback_state
     \<Rightarrow> (feedback_error + bool) \<times> feedback_state" where
  "withdraw_turn_confirmation sessions pid sid tid st =
     (if \<not> owned_turn sessions pid sid tid then (Inl Unknown_turn, st)
      else map_prod Inr id (withdraw_confirmation sid tid pid st))"

declare feedback_categories_def [ev] resolution_outcomes_def [ev] text_or_none_def [ev] submit_flag_def [ev]
  get_feedback_def [ev] own_open_flag_def [ev] withdraw_open_flags_def [ev] resolution_error_def [ev]
  check_open_def [ev] resolved_flag_def [ev] write_resolution_def [ev] resolve_feedback_def [ev]
  golden_case_id_def [ev] promote_to_golden_case_def [ev] admin_resolve_feedback_def [ev]
  confirms_def [ev] get_confirmation_def [ev] confirm_turn_def [ev] withdraw_confirmation_def [ev]
  owned_turn_def [ev]

section \<open>A flag is resolved once\<close>

type_synonym flag_outcome = "ustr option \<times> ustr option \<times> int option \<times> ustr option \<times> ustr option \<times> ustr option"

definition flag_outcome :: "resolution \<Rightarrow> flag_outcome" where
  "flag_outcome q = (Some (rs_outcome q), text_or_none (rs_note q), rs_version q, rs_golden q,
     Some (rs_actor q), Some (rs_now q))"

definition flag_decision :: "flag_row \<Rightarrow> flag_outcome option" where
  "flag_decision r = (if fl_open r then None
     else Some (fl_outcome r, fl_resolution_note r, fl_resolution_version r, fl_golden_case r, fl_by r, fl_at r))"

definition flag_status :: "feedback_state \<Rightarrow> int \<Rightarrow> flag_outcome option option" where
  "flag_status st i = map_option flag_decision (map_of (fb_flags st) i)"

definition flag_decide :: "int \<Rightarrow> resolution \<Rightarrow> feedback_state \<Rightarrow> bool \<times> feedback_state" where
  "flag_decide i q st = map_prod (\<lambda>r. \<not> isl r) id (resolve_feedback i q st)"

datatype feedback_op =
    Op_flag "audit_record option" ustr ustr ustr ustr ustr int ustr
  | Op_confirm "audit_record option" ustr ustr ustr int ustr
  | Op_withdraw_flags ustr ustr ustr
  | Op_withdraw_confirmation ustr ustr ustr
  | Op_promote "ustr \<Rightarrow> ustr \<Rightarrow> audit_record option" int "ustr list"

definition feedback_apply :: "feedback_op \<Rightarrow> feedback_state \<Rightarrow> feedback_state" where
  "feedback_apply x st = (case x of
     Op_flag rc sid tid pid c n i now \<Rightarrow> snd (submit_flag rc sid tid pid c n i now st)
   | Op_confirm rc sid tid pid i now \<Rightarrow> snd (confirm_turn rc sid tid pid i now st)
   | Op_withdraw_flags sid tid pid \<Rightarrow> snd (withdraw_open_flags sid tid pid st)
   | Op_withdraw_confirmation sid tid pid \<Rightarrow> snd (withdraw_confirmation sid tid pid st)
   | Op_promote lookup i tags \<Rightarrow> snd (promote_to_golden_case lookup i tags st))"

lemma flag_decision_resolved [simp]: "flag_decision (resolved_flag q r) = Some (flag_outcome q)"
  by (simp add: flag_decision_def resolved_flag_def flag_outcome_def)

lemma check_open_status: "check_open i st = None \<longleftrightarrow> flag_status st i = Some None"
  by (auto simp: check_open_def flag_status_def flag_decision_def split: option.split)

lemma flag_status_write:
  "flag_status st i = Some d \<Longrightarrow>
   flag_status (write_resolution i q st) j = (if j = i then Some (Some (flag_outcome q)) else flag_status st j)"
  by (auto simp: write_resolution_def flag_status_def update_conv' split: option.split)

lemma flag_decide_effect:
  "flag_decide i q st =
     (if resolution_error q = None \<and> flag_status st i = Some None then (True, write_resolution i q st)
      else (False, st))"
proof (cases "resolution_error q = None \<and> flag_status st i = Some None")
  case True
  then have "map_of (fb_flags (write_resolution i q st)) i \<noteq> None"
    by (auto simp: write_resolution_def flag_status_def update_conv' split: option.split)
  with True show ?thesis
    by (auto simp: flag_decide_def resolve_feedback_def check_open_status [symmetric] get_feedback_def Let_def)
next
  case False
  then show ?thesis
    by (auto simp: flag_decide_def resolve_feedback_def check_open_status [symmetric] split: option.split)
qed

lemma map_of_filter_keep:
  "map_of xs i = Some r \<Longrightarrow> P r \<Longrightarrow> map_of (filter (\<lambda>(i, r). P r) xs) i = Some r"
  by (induction xs) (auto split: if_splits)


lemma feedback_apply_keeps:
  assumes "map_of (fb_flags st) i = Some r" "\<not> fl_open r"
  shows "map_of (fb_flags (feedback_apply x st)) i = Some r"
proof (cases x)
  case (Op_flag rc sid tid pid c n j now)
  have "i \<in> set (od_keys (fb_flags st))" using assms(1) by (auto simp: od_keys_def dest: map_of_Some_key)
  then show ?thesis
    using assms(1) by (auto simp: Op_flag feedback_apply_def submit_flag_def update_conv' split: option.split)
next
  case (Op_confirm rc sid tid pid j now)
  then show ?thesis using assms(1) by (auto simp: feedback_apply_def confirm_turn_def Let_def split: option.split)
next
  case (Op_withdraw_flags sid tid pid)
  have "\<not> own_open_flag sid tid pid r" using assms(2) by (simp add: own_open_flag_def)
  with assms(1) show ?thesis
    by (simp add: Op_withdraw_flags feedback_apply_def withdraw_open_flags_def map_of_filter_keep)
next
  case (Op_withdraw_confirmation sid tid pid)
  then show ?thesis using assms(1) by (simp add: feedback_apply_def withdraw_confirmation_def)
next
  case (Op_promote lookup j tags)
  then show ?thesis
    using assms(1) by (auto simp: feedback_apply_def promote_to_golden_case_def split: sum.split option.split json.split)
qed

interpretation fq: triage flag_status flag_outcome "\<lambda>q. resolution_error q = None" flag_decide feedback_apply
proof
  fix i q st j
  show "fst (flag_decide i q st) = (resolution_error q = None \<and> flag_status st i = Some None)"
    by (simp add: flag_decide_effect)
  show "flag_status (snd (flag_decide i q st)) j
      = (if resolution_error q = None \<and> flag_status st i = Some None \<and> j = i then Some (Some (flag_outcome q))
         else flag_status st j)"
    by (simp add: flag_decide_effect flag_status_write)
next
  fix st i d x
  assume "flag_status st i = Some (Some d)"
  then obtain r where r: "map_of (fb_flags st) i = Some r" "\<not> fl_open r" "flag_decision r = Some d"
    by (auto simp: flag_status_def flag_decision_def split: if_splits)
  then show "flag_status (feedback_apply x st) i = Some (Some d)"
    using feedback_apply_keeps [OF r(1,2)] by (simp add: flag_status_def)
qed

section \<open>Requests that overlap\<close>

text \<open>
  A resolution reads the flag and then updates it, and each of the analyst's routes stores its row
  before it withdraws the opposite one. The second halves of the requests under way are tasks.
\<close>

datatype task = Write int resolution | Unconfirm ustr ustr ustr | Unflag ustr ustr ustr

definition run_task :: "task \<Rightarrow> feedback_state \<Rightarrow> feedback_state" where
  "run_task t st = (case t of
     Write i q \<Rightarrow> write_resolution i q st
   | Unconfirm sid tid pid \<Rightarrow> snd (withdraw_confirmation sid tid pid st)
   | Unflag sid tid pid \<Rightarrow> snd (withdraw_open_flags sid tid pid st))"

record feedback_system =
  fs_store :: feedback_state
  fs_tasks :: "task list"
  fs_done :: "task list"

inductive feedback_step :: "feedback_system \<Rightarrow> feedback_system \<Rightarrow> bool" where
  Checked: "resolution_error q = None \<Longrightarrow> check_open i (fs_store s) = None \<Longrightarrow>
     feedback_step s (s\<lparr>fs_tasks := Write i q # fs_tasks s\<rparr>)"
| Flagged: "submit_flag rc sid tid pid c n i now (fs_store s) = (Inr j, st') \<Longrightarrow>
     feedback_step s (s\<lparr>fs_store := st', fs_tasks := Unconfirm sid tid pid # fs_tasks s\<rparr>)"
| Confirmed: "confirm_turn rc sid tid pid i now (fs_store s) = (Inr x, st') \<Longrightarrow>
     feedback_step s (s\<lparr>fs_store := st', fs_tasks := Unflag sid tid pid # fs_tasks s\<rparr>)"
| Finished: "t \<in> set (fs_tasks s) \<Longrightarrow>
     feedback_step s (s\<lparr>fs_store := run_task t (fs_store s), fs_tasks := remove1 t (fs_tasks s), fs_done := t # fs_done s\<rparr>)"

inductive_cases feedback_stepE: "feedback_step s s'"

definition feedback_rest :: "feedback_state \<Rightarrow> feedback_system" where
  "feedback_rest st = \<lparr>fs_store = st, fs_tasks = [], fs_done = []\<rparr>"

text \<open>An open flag and a confirmation of the same turn by the same principal.\<close>

definition conflict :: "ustr \<Rightarrow> ustr \<Rightarrow> ustr \<Rightarrow> feedback_state \<Rightarrow> bool" where
  "conflict sid tid pid st \<longleftrightarrow>
     list_ex (\<lambda>(i, r). own_open_flag sid tid pid r) (fb_flags st)
     \<and> list_ex (\<lambda>(i, c). confirms sid tid pid c) (fb_confirmations st)"

definition covered :: "feedback_system \<Rightarrow> bool" where
  "covered s \<longleftrightarrow> (\<forall>sid tid pid. conflict sid tid pid (fs_store s) \<longrightarrow>
     Unconfirm sid tid pid \<in> set (fs_tasks s) \<or> Unflag sid tid pid \<in> set (fs_tasks s))"

lemma list_ex_updateD: "list_ex P (AList.update i r xs) \<Longrightarrow> P (i, r) \<or> list_ex P xs"
proof -
  have "set (AList.update i r xs) \<subseteq> insert (i, r) (set xs)"
    by (induction xs) auto
  then show "list_ex P (AList.update i r xs) \<Longrightarrow> P (i, r) \<or> list_ex P xs"
    by (auto simp: list_ex_iff)
qed

lemma update_keeps_conflict:
  assumes "conflict sid tid pid (write_resolution i q st)"
  shows "conflict sid tid pid st"
proof (cases "map_of (fb_flags st) i")
  case (Some r)
  have "list_ex (\<lambda>(i, r). own_open_flag sid tid pid r) (fb_flags st)"
    using assms list_ex_updateD [of "\<lambda>(i, r). own_open_flag sid tid pid r" i "resolved_flag q r" "fb_flags st"]
    by (auto simp: conflict_def write_resolution_def Some own_open_flag_def resolved_flag_def)
  with assms Some show ?thesis by (simp add: conflict_def write_resolution_def)
qed (use assms in \<open>simp add: write_resolution_def\<close>)

lemma conflict_run_task:
  assumes "conflict sid tid pid (run_task t st)"
  shows "conflict sid tid pid st \<and> t \<noteq> Unconfirm sid tid pid \<and> t \<noteq> Unflag sid tid pid"
proof (cases t)
  case (Write i q)
  with assms update_keeps_conflict [of sid tid pid i q st] show ?thesis by (simp add: run_task_def)
next
  case (Unconfirm s t' p)
  with assms show ?thesis
    by (auto simp: run_task_def withdraw_confirmation_def conflict_def list_ex_iff)
next
  case (Unflag s t' p)
  with assms show ?thesis
    by (auto simp: run_task_def withdraw_open_flags_def conflict_def list_ex_iff)
qed

lemma conflict_submit_flag:
  assumes "submit_flag rc sid tid pid c n i now st = (Inr j, st')" "conflict a b p st'"
  shows "conflict a b p st \<or> (a, b, p) = (sid, tid, pid)"
proof -
  obtain r where "fb_flags st' = AList.update i r (fb_flags st)" "fb_confirmations st' = fb_confirmations st"
    "fl_session r = sid" "fl_turn r = tid" "fl_reporter r = pid"
    using assms(1) by (auto simp: submit_flag_def split: if_splits option.splits)
  then show ?thesis
    using assms(2) list_ex_updateD [of "\<lambda>(i, r). own_open_flag a b p r" i r "fb_flags st"]
    by (auto simp: conflict_def own_open_flag_def)
qed

lemma conflict_confirm_turn:
  assumes "confirm_turn rc sid tid pid i now st = (Inr x, st')" "conflict a b p st'"
  shows "conflict a b p st \<or> (a, b, p) = (sid, tid, pid)"
proof (cases "st' = st")
  case False
  then obtain r where "fb_confirmations st' = AList.update i r (fb_confirmations st)" "fb_flags st' = fb_flags st"
    "cf_session r = sid" "cf_turn r = tid" "cf_principal r = pid"
    using assms(1) by (auto simp: confirm_turn_def Let_def split: if_splits option.splits)
  then show ?thesis
    using assms(2) list_ex_updateD [of "\<lambda>(i, r). confirms a b p r" i r "fb_confirmations st"]
    by (auto simp: conflict_def confirms_def)
qed (use assms in simp)

lemma covered_step:
  assumes "feedback_step s s'" "covered s"
  shows "covered s'"
  using assms(1)
proof cases
  case (Checked q i)
  with assms(2) show ?thesis by (auto simp: covered_def)
next
  case (Flagged rc sid tid pid c n i now j st')
  have *: "conflict a b p st' \<Longrightarrow> conflict a b p (fs_store s) \<or> (a, b, p) = (sid, tid, pid)" for a b p
    by (rule conflict_submit_flag [OF Flagged(2)])
  show ?thesis unfolding covered_def
  proof (intro allI impI)
    fix a b p
    assume "conflict a b p (fs_store s')"
    with * assms(2) show "Unconfirm a b p \<in> set (fs_tasks s') \<or> Unflag a b p \<in> set (fs_tasks s')"
      by (fastforce simp: covered_def Flagged(1))
  qed
next
  case (Confirmed rc sid tid pid i now x st')
  have *: "conflict a b p st' \<Longrightarrow> conflict a b p (fs_store s) \<or> (a, b, p) = (sid, tid, pid)" for a b p
    by (rule conflict_confirm_turn [OF Confirmed(2)])
  show ?thesis unfolding covered_def
  proof (intro allI impI)
    fix a b p
    assume "conflict a b p (fs_store s')"
    with * assms(2) show "Unconfirm a b p \<in> set (fs_tasks s') \<or> Unflag a b p \<in> set (fs_tasks s')"
      by (fastforce simp: covered_def Confirmed(1))
  qed
next
  case (Finished t)
  show ?thesis unfolding covered_def
  proof (intro allI impI)
    fix sid tid pid
    assume "conflict sid tid pid (fs_store s')"
    then have "conflict sid tid pid (run_task t (fs_store s))" by (simp add: Finished(1))
    from conflict_run_task [OF this]
    have "conflict sid tid pid (fs_store s)" "t \<noteq> Unconfirm sid tid pid" "t \<noteq> Unflag sid tid pid" by simp_all
    moreover from this(1) assms(2)
    have "Unconfirm sid tid pid \<in> set (fs_tasks s) \<or> Unflag sid tid pid \<in> set (fs_tasks s)"
      unfolding covered_def by blast
    ultimately show "Unconfirm sid tid pid \<in> set (fs_tasks s') \<or> Unflag sid tid pid \<in> set (fs_tasks s')"
      by (auto simp: Finished(1) in_set_remove1)
  qed
qed

text \<open>
  However flagging, confirming and resolving overlap, when every request has finished no
  principal has both an open flag on a turn and a confirmation of it.
\<close>

theorem flag_and_confirmation_exclusive:
  assumes "feedback_step\<^sup>*\<^sup>* (feedback_rest st) s" "fs_tasks s = []"
    and "\<And>sid tid pid. \<not> conflict sid tid pid st"
  shows "\<not> conflict sid tid pid (fs_store s)"
proof -
  have "covered (feedback_rest st)"
    using assms(3) by (simp add: covered_def feedback_rest_def)
  with assms(1) have "covered s" by (induction rule: rtranclp_induct) (auto intro: covered_step)
  with assms(2) show ?thesis by (simp add: covered_def)
qed

text \<open>
  Two administrators who resolve the same flag at the same time are both told that they did:
  both reads find it open, and the update that comes last silently replaces the other decision.
  Carried out one after the other, the first decision would have stood.
\<close>

theorem overlapping_resolutions_overwrite:
  assumes "flag_status st i = Some None" "resolution_error q = None" "resolution_error q' = None" "q \<noteq> q'"
  shows "(\<exists>s. feedback_step\<^sup>*\<^sup>* (feedback_rest st) s \<and> fs_tasks s = [] \<and> set (fs_done s) = {Write i q, Write i q'}
      \<and> flag_status (fs_store s) i = Some (Some (flag_outcome q')))
    \<and> flag_status (snd (run_decisions flag_decide [(i, q), (i, q')] st)) i = Some (Some (flag_outcome q))"
proof (intro conjI)
  let ?S = "\<lambda>st ts ds. \<lparr>fs_store = st, fs_tasks = ts, fs_done = ds\<rparr>"
  let ?st1 = "write_resolution i q st" and ?st2 = "write_resolution i q' (write_resolution i q st)"
  have o: "check_open i st = None" using assms(1) by (simp add: check_open_status)
  have 1: "feedback_step (?S st [] []) (?S st [Write i q] [])"
    using Checked [of q i "?S st [] []"] o assms(2) by simp
  have 2: "feedback_step (?S st [Write i q] []) (?S st [Write i q', Write i q] [])"
    using Checked [of q' i "?S st [Write i q] []"] o assms(3) by simp
  have 3: "feedback_step (?S st [Write i q', Write i q] []) (?S ?st1 [Write i q'] [Write i q])"
    using Finished [of "Write i q" "?S st [Write i q', Write i q] []"] assms(4) by (simp add: run_task_def)
  have 4: "feedback_step (?S ?st1 [Write i q'] [Write i q]) (?S ?st2 [] [Write i q', Write i q])"
    using Finished [of "Write i q'" "?S ?st1 [Write i q'] [Write i q]"] by (simp add: run_task_def)
  have "feedback_step\<^sup>*\<^sup>* (feedback_rest st) (?S ?st2 [] [Write i q', Write i q])"
    unfolding feedback_rest_def using 1 2 3 4 by (meson converse_rtranclp_into_rtranclp rtranclp.rtrancl_refl)
  moreover have "flag_status ?st2 i = Some (Some (flag_outcome q'))"
    using assms(1) by (simp add: flag_status_write)
  ultimately show "\<exists>s. feedback_step\<^sup>*\<^sup>* (feedback_rest st) s \<and> fs_tasks s = []
      \<and> set (fs_done s) = {Write i q, Write i q'} \<and> flag_status (fs_store s) i = Some (Some (flag_outcome q'))"
    by (intro exI [of _ "?S ?st2 [] [Write i q', Write i q]"]) auto
  show "flag_status (snd (run_decisions flag_decide [(i, q), (i, q')] st)) i = Some (Some (flag_outcome q))"
    using fq.first_wins [of st i "[(i, q), (i, q')]" q] assms(1,2) by simp
qed

text \<open>
  Resolving a flag as a golden case writes the case before it looks at the flag: a request that
  is refused because the flag is resolved already has appended the case again, and after n refused
  requests the golden file holds n more copies under one id.
\<close>

theorem refused_promotion_writes_case:
  assumes "map_of (fb_flags st) i = Some r" "\<not> fl_open r" "rs_outcome q = u ''golden_case''"
    and "lookup (fl_session r) (fl_turn r) = Some fs" "map_of fs (u ''question'') = Some (J_str question)"
    and "strip question \<noteq> []"
  shows "fst (admin_resolve_feedback lookup i q tags st) = Inl (Flag_resolved r)
    \<and> fb_golden (((snd \<circ> admin_resolve_feedback lookup i q tags) ^^ n) st)
        = fb_golden st @ replicate n \<lparr>gc_id = golden_case_id i, gc_question = question, gc_tags = tags,
             gc_status = u ''pending_expected''\<rparr>"
proof -
  let ?c = "\<lparr>gc_id = golden_case_id i, gc_question = question, gc_tags = tags, gc_status = u ''pending_expected''\<rparr>"
  have out: "u ''golden_case'' \<in> set resolution_outcomes" "u ''golden_case'' \<noteq> u ''not_a_defect''"
    by (simp_all add: resolution_outcomes_def)
  have one: "admin_resolve_feedback lookup i q tags st' = (Inl (Flag_resolved r), st'\<lparr>fb_golden := fb_golden st' @ [?c]\<rparr>)"
    if "fb_flags st' = fb_flags st" for st'
    using assms that out
    by (simp add: admin_resolve_feedback_def promote_to_golden_case_def get_feedback_def resolve_feedback_def
        resolution_error_def check_open_def)
  have "fb_flags (((snd \<circ> admin_resolve_feedback lookup i q tags) ^^ n) st) = fb_flags st
    \<and> fb_golden (((snd \<circ> admin_resolve_feedback lookup i q tags) ^^ n) st) = fb_golden st @ replicate n ?c"
    by (induction n) (simp_all add: one replicate_append_same)
  with one [OF refl] show ?thesis by simp
qed

text \<open>
  The later action wins: after a principal confirms a turn, the confirmation is on record, no
  open flag of theirs is left on it, and every flag that was resolved or raised by somebody else
  is kept, as is every confirmation.
\<close>

theorem confirmation_replaces_flags:
  assumes "submit_turn_confirmation sessions lookup pid sid tid i now st = (Inr (row, created, n), st')"
  shows "owned_turn sessions pid sid tid \<and> row \<in> set (fb_confirmations st') \<and> confirms sid tid pid (snd row)
    \<and> set (fb_flags st') = {e \<in> set (fb_flags st). \<not> own_open_flag sid tid pid (snd e)}
    \<and> set (fb_confirmations st) \<subseteq> set (fb_confirmations st')"
proof -
  obtain st1 where c: "confirm_turn (lookup sid tid) sid tid pid i now st = (Inr (row, created), st1)"
      "st' = snd (withdraw_open_flags sid tid pid st1)" "owned_turn sessions pid sid tid"
    using assms by (auto simp: submit_turn_confirmation_def split: if_splits prod.splits sum.splits)
  have "fb_flags st1 = fb_flags st \<and> row \<in> set (fb_confirmations st1) \<and> confirms sid tid pid (snd row)
      \<and> set (fb_confirmations st) \<subseteq> set (fb_confirmations st1)"
  proof (cases "get_confirmation sid tid pid st")
    case None
    with c(1) have "i \<notin> set (od_keys (fb_confirmations st))" "fb_flags st1 = fb_flags st"
      "fb_confirmations st1 = AList.update i (snd row) (fb_confirmations st)" "row = (i, snd row)" "confirms sid tid pid (snd row)"
      by (auto simp: confirm_turn_def Let_def confirms_def split: option.splits if_splits)
    moreover from this(1) have "AList.update i (snd row) (fb_confirmations st) = fb_confirmations st @ [(i, snd row)]"
      by (intro update_new) (simp add: od_keys_def map_of_eq_None_iff)
    ultimately show ?thesis by auto
  next
    case (Some e)
    with c(1) have e: "row = e" "st1 = st" by (auto simp: confirm_turn_def split: option.splits if_splits)
    from Some have "row \<in> set (fb_confirmations st) \<and> confirms sid tid pid (snd row)"
      unfolding e get_confirmation_def find_Some_iff by (auto simp: case_prod_unfold)
    with e show ?thesis by simp
  qed
  with c(2,3) show ?thesis by (auto simp: withdraw_open_flags_def)
qed

section \<open>A concrete queue of flags\<close>

definition example_flag :: flag_row where
  "example_flag = \<lparr>fl_session = u ''s'', fl_turn = u ''t'', fl_request = None, fl_reporter = u ''a'',
     fl_category = u ''other'', fl_note = None, fl_config_version = None, fl_created = u ''0'', fl_open = True,
     fl_outcome = None, fl_resolution_note = None, fl_resolution_version = None, fl_golden_case = None,
     fl_by = None, fl_at = None\<rparr>"

definition example_feedback :: feedback_state where
  "example_feedback = \<lparr>fb_flags = [(7, example_flag)], fb_confirmations = [], fb_golden = []\<rparr>"

definition example_resolution :: "string \<Rightarrow> string \<Rightarrow> resolution" where
  "example_resolution outcome actor = \<lparr>rs_outcome = u outcome, rs_actor = u actor, rs_note = [], rs_version = None,
     rs_golden = None, rs_now = u ''9''\<rparr>"

definition example_lookup :: "ustr \<Rightarrow> ustr \<Rightarrow> audit_record option" where
  "example_lookup sid tid = Some [(u ''question'', J_str (u ''how many'')), (u ''generated_sql'', J_str (u ''SELECT 1''))]"

definition example_confirmation :: confirmation where
  "example_confirmation = \<lparr>cf_session = u ''s'', cf_turn = u ''t'', cf_principal = u ''a'', cf_request = None,
     cf_created = u ''9''\<rparr>"

lemma example_confirm:
  "confirm_turn (example_lookup (u ''s'') (u ''t'')) (u ''s'') (u ''t'') (u ''a'') 1 (u ''9'') example_feedback
     = (Inr ((1, example_confirmation), True), example_feedback\<lparr>fb_confirmations := [(1, example_confirmation)]\<rparr>)"
proof -
  have "turn_executed_successfully [(u ''question'', J_str (u ''how many'')), (u ''generated_sql'', J_str (u ''SELECT 1''))]"
    by (simp add: ev)
  then show ?thesis
    by (simp add: confirm_turn_def example_lookup_def get_confirmation_def example_feedback_def od_keys_def
        example_confirmation_def Let_def)
qed

lemma example_withdraw:
  "withdraw_open_flags (u ''s'') (u ''t'') (u ''a'') (example_feedback\<lparr>fb_confirmations := c\<rparr>)
     = (1, example_feedback\<lparr>fb_confirmations := c, fb_flags := []\<rparr>)"
  by (simp add: withdraw_open_flags_def example_feedback_def own_open_flag_def example_flag_def)

theorem flag_and_confirmation_exclusive_witness:
  "\<not> conflict (u ''s'') (u ''t'') (u ''a'') (fs_store
      \<lparr>fs_store = example_feedback\<lparr>fb_confirmations := [(1, example_confirmation)], fb_flags := []\<rparr>, fs_tasks = [],
       fs_done = [Unflag (u ''s'') (u ''t'') (u ''a'')]\<rparr>)"
proof (rule flag_and_confirmation_exclusive)
  let ?st = "example_feedback\<lparr>fb_confirmations := [(1, example_confirmation)]\<rparr>"
  let ?t = "Unflag (u ''s'') (u ''t'') (u ''a'')"
  have 1: "feedback_step (feedback_rest example_feedback) \<lparr>fs_store = ?st, fs_tasks = [?t], fs_done = []\<rparr>"
    using Confirmed [of "example_lookup (u ''s'') (u ''t'')" "u ''s''" "u ''t''" "u ''a''" 1 "u ''9''"
        "feedback_rest example_feedback"] example_confirm
    by (simp add: feedback_rest_def)
  have 2: "feedback_step \<lparr>fs_store = ?st, fs_tasks = [?t], fs_done = []\<rparr>
      \<lparr>fs_store = example_feedback\<lparr>fb_confirmations := [(1, example_confirmation)], fb_flags := []\<rparr>, fs_tasks = [],
       fs_done = [?t]\<rparr>"
    using Finished [of ?t "\<lparr>fs_store = ?st, fs_tasks = [?t], fs_done = []\<rparr>"] by (simp add: run_task_def example_withdraw)
  from 1 2 show "feedback_step\<^sup>*\<^sup>* (feedback_rest example_feedback)
      \<lparr>fs_store = example_feedback\<lparr>fb_confirmations := [(1, example_confirmation)], fb_flags := []\<rparr>, fs_tasks = [],
       fs_done = [?t]\<rparr>"
    by (meson converse_rtranclp_into_rtranclp rtranclp.rtrancl_refl)
qed (simp_all add: conflict_def example_feedback_def)

lemma example_open: "flag_status example_feedback 7 = Some None"
  by (simp add: flag_status_def example_feedback_def flag_decision_def example_flag_def)

theorem overlapping_resolutions_overwrite_witness:
  "(\<exists>s. feedback_step\<^sup>*\<^sup>* (feedback_rest example_feedback) s \<and> fs_tasks s = []
      \<and> set (fs_done s) = {Write 7 (example_resolution ''alias_fix'' ''b''), Write 7 (example_resolution ''rule_fix'' ''c'')}
      \<and> flag_status (fs_store s) 7 = Some (Some (flag_outcome (example_resolution ''rule_fix'' ''c''))))
    \<and> flag_status (snd (run_decisions flag_decide
         [(7, example_resolution ''alias_fix'' ''b''), (7, example_resolution ''rule_fix'' ''c'')] example_feedback)) 7
      = Some (Some (flag_outcome (example_resolution ''alias_fix'' ''b'')))"
  by (rule overlapping_resolutions_overwrite [OF example_open])
    (simp_all add: resolution_error_def example_resolution_def resolution_outcomes_def)

theorem refused_promotion_writes_case_witness:
  defines "st \<equiv> example_feedback\<lparr>fb_flags := [(7, example_flag\<lparr>fl_open := False\<rparr>)]\<rparr>"
  shows "fst (admin_resolve_feedback example_lookup 7 (example_resolution ''golden_case'' ''b'') [] st)
      = Inl (Flag_resolved (example_flag\<lparr>fl_open := False\<rparr>))
    \<and> fb_golden (((snd \<circ> admin_resolve_feedback example_lookup 7 (example_resolution ''golden_case'' ''b'') []) ^^ 2) st)
        = fb_golden st @ replicate 2 \<lparr>gc_id = golden_case_id 7, gc_question = u ''how many'', gc_tags = [],
             gc_status = u ''pending_expected''\<rparr>"
proof (rule refused_promotion_writes_case
      [where fs = "[(u ''question'', J_str (u ''how many'')), (u ''generated_sql'', J_str (u ''SELECT 1''))]"])
  show "strip (u ''how many'') \<noteq> []" by (simp add: ev)
qed (simp_all add: st_def example_resolution_def example_lookup_def)

theorem confirmation_replaces_flags_witness:
  defines "r \<equiv> submit_turn_confirmation (\<lambda>s. Some (Some (u ''a''), [u ''t''])) example_lookup (u ''a'') (u ''s'') (u ''t'') 1
      (u ''9'') example_feedback"
  shows "owned_turn (\<lambda>s. Some (Some (u ''a''), [u ''t''])) (u ''a'') (u ''s'') (u ''t'')
    \<and> (1, example_confirmation) \<in> set (fb_confirmations (snd r))
    \<and> confirms (u ''s'') (u ''t'') (u ''a'') (snd (1 :: int, example_confirmation))
    \<and> set (fb_flags (snd r)) = {e \<in> set (fb_flags example_feedback). \<not> own_open_flag (u ''s'') (u ''t'') (u ''a'') (snd e)}
    \<and> set (fb_confirmations example_feedback) \<subseteq> set (fb_confirmations (snd r))"
proof -
  have o: "owned_turn (\<lambda>s. Some (Some (u ''a''), [u ''t''])) (u ''a'') (u ''s'') (u ''t'')" by (simp add: owned_turn_def)
  have "submit_turn_confirmation (\<lambda>s. Some (Some (u ''a''), [u ''t''])) example_lookup (u ''a'') (u ''s'') (u ''t'') 1
      (u ''9'') example_feedback = (Inr ((1, example_confirmation), True, 1), snd r)"
    unfolding r_def by (simp add: submit_turn_confirmation_def o example_confirm example_withdraw)
  then show ?thesis by (rule confirmation_replaces_flags)
qed

end
