(* ===== verification/Join_Paths.thy ===== *)
theory Join_Paths
  imports Prelude "HOL-Library.Product_Lexorder"
begin

text \<open>
  \<open>retrieval/join_paths.py\<close>, the search: the best path of foreign keys from a table to a set of
  tables, and the expansion of the retrieved tables by the tables that join them. The heap of
  \<open>heapq\<close> is the ascending list of its entries. The tables of a source are a list without order.
\<close>

section \<open>The graph\<close>

record join_graph =
  jg_adjacency :: "(ustr, (ustr \<times> bool) list) odict"
  jg_sources :: "(ustr, ustr list) odict"

definition neighbours :: "join_graph \<Rightarrow> ustr \<Rightarrow> (ustr \<times> bool) list" where
  "neighbours G t = (case map_of (jg_adjacency G) t of None \<Rightarrow> [] | Some ns \<Rightarrow> ns)"

definition degree :: "join_graph \<Rightarrow> ustr \<Rightarrow> nat" where
  "degree G t = length (neighbours G t)"

definition edge_is_inferred :: "join_graph \<Rightarrow> ustr \<Rightarrow> ustr \<Rightarrow> bool" where
  "edge_is_inferred G a b = (map_of (rev (neighbours G a)) b = Some True)"

section \<open>The search\<close>

text \<open>An entry of the heap: the hops, the inferred hops, and the path from the start.\<close>

type_synonym path_key = "nat \<times> nat \<times> ustr list"

definition cost :: "path_key \<Rightarrow> nat \<times> nat" where
  "cost k = (fst k, fst (snd k))"

definition path_of :: "path_key \<Rightarrow> ustr list" where
  "path_of k = snd (snd k)"

definition end_of :: "path_key \<Rightarrow> ustr" where
  "end_of k = last (path_of k)"

record path_query =
  pq_graph :: join_graph
  pq_start :: ustr
  pq_targets :: "ustr list"
  pq_max_hops :: int
  pq_max_hub :: int
  pq_source :: "ustr option"

definition in_source :: "path_query \<Rightarrow> ustr \<Rightarrow> bool" where
  "in_source Q t =
     (case pq_source Q of
        None \<Rightarrow> True
      | Some s \<Rightarrow> (case map_of (jg_sources (pq_graph Q)) t of None \<Rightarrow> False | Some ss \<Rightarrow> s \<in> set ss))"

definition at_target :: "path_query \<Rightarrow> path_key \<Rightarrow> bool" where
  "at_target Q k \<longleftrightarrow> end_of k \<in> set (pq_targets Q) \<and> end_of k \<noteq> pq_start Q"

definition expandable :: "path_query \<Rightarrow> path_key \<Rightarrow> bool" where
  "expandable Q k \<longleftrightarrow> int (fst k) < pq_max_hops Q
     \<and> (end_of k = pq_start Q \<or> int (degree (pq_graph Q) (end_of k)) \<le> pq_max_hub Q)"

definition extensions :: "path_query \<Rightarrow> path_key \<Rightarrow> path_key list" where
  "extensions Q k =
     map (\<lambda>(t, inferred). (Suc (fst k), fst (snd k) + of_bool inferred, path_of k @ [t]))
       (filter (\<lambda>(t, inferred). t \<notin> set (path_of k) \<and> in_source Q t) (neighbours (pq_graph Q) (end_of k)))"

definition improve :: "path_key option \<Rightarrow> path_key \<Rightarrow> path_key option" where
  "improve best k = (case best of None \<Rightarrow> Some k | Some b \<Rightarrow> if k < b then Some k else Some b)"

definition width :: "join_graph \<Rightarrow> nat" where
  "width G = Max (insert 0 (set (map (length \<circ> snd) (jg_adjacency G))))"

lemma degree_width: "degree G t \<le> width G"
proof (cases "map_of (jg_adjacency G) t")
  case (Some ns)
  then have "(t, ns) \<in> set (jg_adjacency G)" by (rule map_of_SomeD)
  then have "length ns \<in> set (map (length \<circ> snd) (jg_adjacency G))" by (auto simp: image_iff intro!: bexI)
  then have "length ns \<le> width G" unfolding width_def by (intro Max_ge) auto
  with Some show ?thesis by (simp add: degree_def neighbours_def)
qed (simp add: degree_def neighbours_def)

text \<open>
  The search ends: an entry weighs more than all entries that replace it, because a path is only
  extended while it has hops left and a table has at most \<open>width\<close> neighbours.
\<close>

definition weight :: "path_query \<Rightarrow> path_key \<Rightarrow> nat" where
  "weight Q k = Suc (width (pq_graph Q)) ^ nat (pq_max_hops Q - int (fst k))"

lemma weight_pos: "0 < weight Q k"
  by (simp add: weight_def)

lemma weight_extensions:
  assumes "expandable Q k"
  shows "sum_list (map (weight Q) (extensions Q k)) < weight Q k"
proof -
  let ?W = "Suc (width (pq_graph Q))"
  let ?n = "nat (pq_max_hops Q - int (Suc (fst k)))"
  have n: "nat (pq_max_hops Q - int (fst k)) = Suc ?n"
    using assms by (simp add: expandable_def Suc_nat_eq_nat_zadd1)
  have w: "weight Q e = ?W ^ ?n" if "e \<in> set (extensions Q k)" for e
    using that by (auto simp: extensions_def weight_def)
  have "length (extensions Q k) \<le> width (pq_graph Q)"
    unfolding extensions_def length_map
    by (rule order.trans [OF length_filter_le]) (use degree_width in \<open>simp add: degree_def\<close>)
  moreover have "sum_list (map (weight Q) (extensions Q k)) = sum_list (map (\<lambda>_. ?W ^ ?n) (extensions Q k))"
    using w by (simp cong: map_cong)
  ultimately have "sum_list (map (weight Q) (extensions Q k)) \<le> width (pq_graph Q) * ?W ^ ?n"
    by (simp add: sum_list_triv)
  also have "\<dots> < ?W ^ Suc ?n" by simp
  finally show ?thesis by (simp add: weight_def n)
qed

lemma sum_fold_insort:
  "sum_list (map f (fold insort ks heap)) = sum_list (map f ks) + sum_list (map f (heap :: path_key list))"
  for f :: "path_key \<Rightarrow> nat"
proof (induction ks arbitrary: heap)
  case (Cons k ks)
  have "sum_list (map f (insort k xs)) = f k + sum_list (map f xs)" for xs :: "path_key list"
    by (induction xs) auto
  with Cons show ?case by simp
qed simp

function (sequential) search ::
    "path_query \<Rightarrow> path_key list \<Rightarrow> (ustr \<Rightarrow> (nat \<times> nat) option) \<Rightarrow> path_key option \<Rightarrow> path_key option" where
  "search Q [] settled best = best"
| "search Q (k # heap) settled best =
     (if (case best of None \<Rightarrow> False | Some b \<Rightarrow> cost b < cost k) then best
      else if at_target Q k then search Q heap settled (improve best k)
      else if (case settled (end_of k) of None \<Rightarrow> False | Some c \<Rightarrow> c < cost k) then search Q heap settled best
      else if \<not> expandable Q k then search Q heap (settled(end_of k \<mapsto> cost k)) best
      else search Q (fold insort (extensions Q k) heap) (settled(end_of k \<mapsto> cost k)) best)"
  by pat_completeness auto

termination
  by (relation "measure (\<lambda>(Q, heap, settled, best). sum_list (map (weight Q) heap))")
    (auto simp: sum_fold_insort weight_pos weight_extensions)

definition start_sources :: "join_graph \<Rightarrow> ustr \<Rightarrow> ustr option list" where
  "start_sources G start =
     (case map_of (jg_sources G) start of None \<Rightarrow> [None] | Some own \<Rightarrow> map Some (sort (remdups own)))"

definition path_query :: "join_graph \<Rightarrow> ustr \<Rightarrow> ustr list \<Rightarrow> int \<Rightarrow> int \<Rightarrow> ustr option \<Rightarrow> path_query" where
  "path_query G start targets max_hops max_hub source =
     \<lparr>pq_graph = G, pq_start = start, pq_targets = targets, pq_max_hops = max_hops, pq_max_hub = max_hub,
      pq_source = source\<rparr>"

definition best_key :: "join_graph \<Rightarrow> ustr \<Rightarrow> ustr list \<Rightarrow> int \<Rightarrow> int \<Rightarrow> path_key option" where
  "best_key G start targets max_hops max_hub =
     fold (\<lambda>source best. search (path_query G start targets max_hops max_hub source) [(0, 0, [start])] Map.empty best)
       (start_sources G start) None"

definition best_path :: "join_graph \<Rightarrow> ustr \<Rightarrow> ustr list \<Rightarrow> int \<Rightarrow> int \<Rightarrow> ustr list option" where
  "best_path G start targets max_hops max_hub = map_option path_of (best_key G start targets max_hops max_hub)"

section \<open>What the search finds\<close>

text \<open>
  The paths it may use: no table twice, only tables of the source, no stepping through a hub or
  through a target, within the number of hops.
\<close>

inductive route :: "path_query \<Rightarrow> path_key \<Rightarrow> bool" for Q where
  Start: "route Q (0, 0, [pq_start Q])"
| Hop: "route Q k \<Longrightarrow> \<not> at_target Q k \<Longrightarrow> expandable Q k \<Longrightarrow> k' \<in> set (extensions Q k) \<Longrightarrow> route Q k'"

inductive_simps route_Start_simp: "route Q (0, 0, [t])"

definition connection :: "path_query \<Rightarrow> path_key \<Rightarrow> bool" where
  "connection Q k \<longleftrightarrow> route Q k \<and> at_target Q k"

text \<open>One hop of a route towards a longer one.\<close>

definition hop :: "path_query \<Rightarrow> path_key \<Rightarrow> path_key \<Rightarrow> bool" where
  "hop Q k k' \<longleftrightarrow> \<not> at_target Q k \<and> expandable Q k \<and> k' \<in> set (extensions Q k)"

lemma route_hop: "route Q k \<Longrightarrow> hop Q k k' \<Longrightarrow> route Q k'"
  by (auto simp: hop_def intro: Hop)

lemma route_hops: "route Q k \<longleftrightarrow> (hop Q)\<^sup>*\<^sup>* (0, 0, [pq_start Q]) k"
proof
  show "route Q k \<Longrightarrow> (hop Q)\<^sup>*\<^sup>* (0, 0, [pq_start Q]) k"
    by (induction rule: route.induct) (auto simp: hop_def intro: rtranclp.rtrancl_into_rtrancl)
  show "(hop Q)\<^sup>*\<^sup>* (0, 0, [pq_start Q]) k \<Longrightarrow> route Q k"
    by (induction rule: rtranclp_induct) (auto intro: route.Start route_hop)
qed

lemma extension_facts:
  assumes "k' \<in> set (extensions Q k)"
  shows "path_of k' = path_of k @ [end_of k']" "fst k' = Suc (fst k)" "end_of k' \<notin> set (path_of k)"
    "in_source Q (end_of k')"
    "\<exists>b. (end_of k', b) \<in> set (neighbours (pq_graph Q) (end_of k)) \<and> fst (snd k') = fst (snd k) + of_bool b"
proof -
  obtain t b where k': "k' = (Suc (fst k), fst (snd k) + of_bool b, path_of k @ [t])"
      "(t, b) \<in> set (neighbours (pq_graph Q) (end_of k))" "t \<notin> set (path_of k)" "in_source Q t"
    using assms by (auto simp: extensions_def)
  have e: "end_of k' = t" by (simp add: k'(1) end_of_def path_of_def)
  show "path_of k' = path_of k @ [end_of k']" "fst k' = Suc (fst k)" "end_of k' \<notin> set (path_of k)"
    "in_source Q (end_of k')" using k' e by (simp_all add: path_of_def)
  show "\<exists>b. (end_of k', b) \<in> set (neighbours (pq_graph Q) (end_of k)) \<and> fst (snd k') = fst (snd k) + of_bool b"
    unfolding e using k'(2) by (intro exI [of _ b]) (simp add: k'(1))
qed

lemma extensionI:
  assumes "(t, b) \<in> set (neighbours (pq_graph Q) (end_of k))" "t \<notin> set (path_of k)" "in_source Q t"
  shows "(Suc (fst k), fst (snd k) + of_bool b, path_of k @ [t]) \<in> set (extensions Q k)"
  unfolding extensions_def set_map using assms by (intro image_eqI [of _ _ "(t, b)"]) auto

lemma route_facts:
  "route Q k \<Longrightarrow> distinct (path_of k) \<and> length (path_of k) = Suc (fst k) \<and> hd (path_of k) = pq_start Q \<and> path_of k \<noteq> []"
proof (induction rule: route.induct)
  case (Hop k k')
  with extension_facts [OF Hop(4)] show ?case by (simp add: hd_append)
qed (simp add: path_of_def)

lemma route_prefix:
  "route Q k \<Longrightarrow> t \<in> set (path_of k) \<Longrightarrow> \<exists>r. route Q r \<and> end_of r = t \<and> fst r \<le> fst k"
proof (induction rule: route.induct)
  case Start
  then show ?case by (intro exI [of _ "(0, 0, [pq_start Q])"]) (auto simp: path_of_def end_of_def intro: route.Start)
next
  case (Hop k k')
  show ?case
  proof (cases "t = end_of k'")
    case True
    with Hop show ?thesis by (intro exI [of _ k']) (auto intro: route.Hop)
  next
    case False
    with Hop.prems extension_facts(1) [OF Hop(4)] have "t \<in> set (path_of k)"
      by (metis UnE empty_iff empty_set set_append set_ConsD)
    then obtain r where "route Q r" "end_of r = t" "fst r \<le> fst k" using Hop.IH by blast
    with extension_facts(2) [OF Hop(4)] show ?thesis by (intro exI [of _ r]) simp
  qed
qed

text \<open>A cheaper route to the same table stays cheaper along every continuation.\<close>

lemma cheaper_hop:
  assumes "route Q r" "end_of r = end_of k" "cost r < cost k" "hop Q k k'"
  shows "\<exists>r'. route Q r' \<and> end_of r' = end_of k' \<and> cost r' < cost k'"
proof -
  have k': "k' \<in> set (extensions Q k)" "\<not> at_target Q k" "expandable Q k" using assms(4) by (simp_all add: hop_def)
  note e = extension_facts [OF k'(1)]
  have le: "fst r \<le> fst k" using assms(3) by (auto simp: cost_def less_prod_def)
  show ?thesis
  proof (cases "end_of k' \<in> set (path_of r)")
    case True
    then obtain r' where "route Q r'" "end_of r' = end_of k'" "fst r' \<le> fst r"
      using route_prefix [OF assms(1)] by blast
    with le e(2) show ?thesis by (intro exI [of _ r']) (auto simp: cost_def less_prod_def)
  next
    case False
    obtain b where inf: "(end_of k', b) \<in> set (neighbours (pq_graph Q) (end_of r))"
        "fst (snd k') = fst (snd k) + of_bool b"
      using e(5) assms(2) by auto
    let ?r = "(Suc (fst r), fst (snd r) + of_bool b, path_of r @ [end_of k'])"
    have "hop Q r ?r"
      using k'(2,3) le assms(2) extensionI [OF inf(1) False e(4)] by (simp add: hop_def at_target_def expandable_def)
    then have "route Q ?r" by (rule route_hop [OF assms(1)])
    moreover have "cost ?r < cost k'"
      using assms(3) inf(2) e(2) by (auto simp: cost_def less_prod_def)
    ultimately show ?thesis by (intro exI [of _ ?r]) (simp add: end_of_def path_of_def)
  qed
qed

lemma cheaper_hops:
  assumes "(hop Q)\<^sup>*\<^sup>* k k'" "route Q r" "end_of r = end_of k" "cost r < cost k"
  shows "\<exists>r'. route Q r' \<and> end_of r' = end_of k' \<and> cost r' < cost k'"
  using assms
proof (induction rule: rtranclp_induct)
  case (step m n)
  then obtain s where "route Q s" "end_of s = end_of m" "cost s < cost m" by blast
  with step.hyps(2) show ?case by (intro cheaper_hop)
qed blast

declare split_paired_All [simp del] split_paired_Ex [simp del]

lemma hop_cost: "hop Q k k' \<Longrightarrow> cost k < cost k'"
  using extension_facts(2) [of k' Q k] by (auto simp: hop_def cost_def less_prod_def)

lemma hops_cost: "(hop Q)\<^sup>*\<^sup>* k k' \<Longrightarrow> cost k \<le> cost k'"
  by (induction rule: rtranclp_induct) (auto dest: hop_cost)

lemma cost_less: "cost k < cost k' \<Longrightarrow> k < k'"
  by (cases k; cases k') (auto simp: cost_def less_prod_def)

lemma cost_le: "k \<le> k' \<Longrightarrow> cost k \<le> cost k'"
  using cost_less [of k' k] by force

lemma improve_le: "\<exists>r. improve best k = Some r \<and> r \<le> k \<and> (\<forall>b. best = Some b \<longrightarrow> r \<le> b)"
  by (cases best) (auto simp: improve_def)

lemma set_fold_insort [simp]: "set (fold insort ks heap) = set ks \<union> set heap"
  by (induction ks arbitrary: heap) (auto simp: set_insort_key)

lemma sorted_fold_insort [simp]: "sorted heap \<Longrightarrow> sorted (fold insort ks heap)"
  by (induction ks arbitrary: heap) (auto simp: sorted_insort)

lemma search_sound:
  "\<forall>k \<in> set heap. route Q k \<Longrightarrow> search Q heap settled best = best
     \<or> (\<exists>k. search Q heap settled best = Some k \<and> connection Q k)"
proof (induction Q heap settled best rule: search.induct)
  case (2 Q k heap settled best)
  have k: "route Q k" "\<forall>j \<in> set heap. route Q j" using 2(5) by simp_all
  consider "case best of None \<Rightarrow> False | Some b \<Rightarrow> cost b < cost k"
    | (target) "\<not> (case best of None \<Rightarrow> False | Some b \<Rightarrow> cost b < cost k)" "at_target Q k"
    | (settled) "\<not> (case best of None \<Rightarrow> False | Some b \<Rightarrow> cost b < cost k)" "\<not> at_target Q k"
        "case settled (end_of k) of None \<Rightarrow> False | Some c \<Rightarrow> c < cost k"
    | (stop) "\<not> (case best of None \<Rightarrow> False | Some b \<Rightarrow> cost b < cost k)" "\<not> at_target Q k"
        "\<not> (case settled (end_of k) of None \<Rightarrow> False | Some c \<Rightarrow> c < cost k)" "\<not> expandable Q k"
    | (expand) "\<not> (case best of None \<Rightarrow> False | Some b \<Rightarrow> cost b < cost k)" "\<not> at_target Q k"
        "\<not> (case settled (end_of k) of None \<Rightarrow> False | Some c \<Rightarrow> c < cost k)" "\<not> \<not> expandable Q k"
    by blast
  then show ?case
  proof cases
    case target
    have "improve best k = best \<or> improve best k = Some k" by (auto simp: improve_def split: option.split)
    moreover have "connection Q k" using target(2) k(1) by (simp add: connection_def)
    ultimately show ?thesis using 2(1) [OF target k(2)] target by auto
  next
    case settled
    then show ?thesis using 2(2) [OF settled k(2)] by simp
  next
    case stop
    then show ?thesis using 2(3) [OF stop k(2)] by (simp add: fun_upd_def)
  next
    case expand
    then have "\<forall>j \<in> set (fold insort (extensions Q k) heap). route Q j"
      using k route.Hop [OF k(1)] by auto
    then show ?thesis using 2(4) [OF expand] expand by (simp add: fun_upd_def)
  qed simp
qed simp

lemma search_complete:
  assumes "connection Q c"
  shows "\<lbrakk>sorted heap; \<forall>k \<in> set heap. route Q k;
      \<forall>t d. settled t = Some d \<longrightarrow> (\<exists>r. route Q r \<and> end_of r = t \<and> cost r = d);
      (\<exists>b. best = Some b \<and> b \<le> c) \<or> (\<exists>k \<in> set heap. (hop Q)\<^sup>*\<^sup>* k c)\<rbrakk>
    \<Longrightarrow> (\<exists>r. search Q heap settled best = Some r \<and> r \<le> c) \<or> (\<exists>c'. connection Q c' \<and> cost c' < cost c)"
proof (use assms in \<open>induction Q heap settled best rule: search.induct\<close>)
  case (2 Q k heap settled best)
  note prems = 2(5-9)
  have c: "at_target Q c" using prems(5) by (simp add: connection_def)
  have k: "route Q k" "\<forall>j \<in> set heap. route Q j" "sorted heap" "\<forall>j \<in> set heap. k \<le> j"
    using prems(1,2) by simp_all
  consider (break) "case best of None \<Rightarrow> False | Some b \<Rightarrow> cost b < cost k"
    | (target) "\<not> (case best of None \<Rightarrow> False | Some b \<Rightarrow> cost b < cost k)" "at_target Q k"
    | (settled) "\<not> (case best of None \<Rightarrow> False | Some b \<Rightarrow> cost b < cost k)" "\<not> at_target Q k"
        "case settled (end_of k) of None \<Rightarrow> False | Some c \<Rightarrow> c < cost k"
    | (stop) "\<not> (case best of None \<Rightarrow> False | Some b \<Rightarrow> cost b < cost k)" "\<not> at_target Q k"
        "\<not> (case settled (end_of k) of None \<Rightarrow> False | Some c \<Rightarrow> c < cost k)" "\<not> expandable Q k"
    | (expand) "\<not> (case best of None \<Rightarrow> False | Some b \<Rightarrow> cost b < cost k)" "\<not> at_target Q k"
        "\<not> (case settled (end_of k) of None \<Rightarrow> False | Some c \<Rightarrow> c < cost k)" "\<not> \<not> expandable Q k"
    by blast
  then show ?case
  proof cases
    case break
    then obtain b where b: "best = Some b" "cost b < cost k" by (cases best) auto
    have "b \<le> c"
    proof (cases "\<exists>b. best = Some b \<and> b \<le> c")
      case False
      then obtain j where j: "j \<in> set (k # heap)" "(hop Q)\<^sup>*\<^sup>* j c" using prems(4) by blast
      then have "k \<le> j" using k(4) by auto
      then have "cost k \<le> cost c" using cost_le [of k j] hops_cost [OF j(2)] by simp
      with b(2) have "cost b < cost c" by (rule less_le_trans)
      then show ?thesis by (intro less_imp_le cost_less)
    qed (use b in simp)
    with b break show ?thesis by simp
  next
    case target
    obtain r where r: "improve best k = Some r" "r \<le> k" "\<forall>b. best = Some b \<longrightarrow> r \<le> b"
      using improve_le [of best k] by (elim exE conjE)
    have "(\<exists>b. improve best k = Some b \<and> b \<le> c) \<or> (\<exists>j \<in> set heap. (hop Q)\<^sup>*\<^sup>* j c)"
    proof (cases "(hop Q)\<^sup>*\<^sup>* k c")
      case True
      then have "k = c" using target(2) by (cases rule: converse_rtranclpE) (auto simp: hop_def)
      with r show ?thesis by simp
    next
      case False
      with prems(4) r show ?thesis by force
    qed
    with 2(1) [OF target k(3,2) prems(3) _ prems(5)] target show ?thesis by simp
  next
    case settled
    then obtain d where d: "settled (end_of k) = Some d" "d < cost k" by (auto split: option.splits)
    then obtain r where r: "route Q r" "end_of r = end_of k" "cost r < cost k" using prems(3) by blast
    show ?thesis
    proof (cases "(hop Q)\<^sup>*\<^sup>* k c")
      case True
      from cheaper_hops [OF this r] obtain r' where "route Q r'" "end_of r' = end_of c" "cost r' < cost c" by blast
      with c have "connection Q r' \<and> cost r' < cost c" by (simp add: connection_def at_target_def)
      then show ?thesis by blast
    next
      case False
      with prems(4) have "(\<exists>b. best = Some b \<and> b \<le> c) \<or> (\<exists>j \<in> set heap. (hop Q)\<^sup>*\<^sup>* j c)" by auto
      with 2(2) [OF settled k(3,2) prems(3) _ prems(5)] settled show ?thesis by simp
    qed
  next
    case stop
    have "\<not> (hop Q)\<^sup>*\<^sup>* k c"
      using stop(2,4) c by (auto simp: hop_def elim: converse_rtranclpE)
    with prems(4) have h1: "(\<exists>b. best = Some b \<and> b \<le> c) \<or> (\<exists>j \<in> set heap. (hop Q)\<^sup>*\<^sup>* j c)" by auto
    have h2: "\<forall>t d. (settled(end_of k \<mapsto> cost k)) t = Some d \<longrightarrow> (\<exists>r. route Q r \<and> end_of r = t \<and> cost r = d)"
      using prems(3) k(1) by auto
    from 2(3) [OF stop k(3,2) h2 h1 prems(5)] stop show ?thesis by (simp add: fun_upd_def)
  next
    case expand
    let ?heap = "fold insort (extensions Q k) heap"
    have h1: "(\<exists>b. best = Some b \<and> b \<le> c) \<or> (\<exists>j \<in> set ?heap. (hop Q)\<^sup>*\<^sup>* j c)"
    proof (cases "(hop Q)\<^sup>*\<^sup>* k c")
      case True
      then obtain m where "hop Q k m" "(hop Q)\<^sup>*\<^sup>* m c"
        using expand(2) c by (cases rule: converse_rtranclpE) auto
      then show ?thesis by (auto simp: hop_def)
    next
      case False
      with prems(4) show ?thesis by auto
    qed
    have h2: "\<forall>t d. (settled(end_of k \<mapsto> cost k)) t = Some d \<longrightarrow> (\<exists>r. route Q r \<and> end_of r = t \<and> cost r = d)"
      using prems(3) k(1) by auto
    have h3: "\<forall>j \<in> set ?heap. route Q j" using k(1,2) expand by (auto intro: route.Hop)
    from 2(4) [OF expand sorted_fold_insort [OF k(3)] h3 h2 h1 prems(5)] expand show ?thesis by (simp add: fun_upd_def)
  qed
qed simp

lemma search_decreases: "best = Some b \<Longrightarrow> \<exists>r. search Q heap settled best = Some r \<and> r \<le> b"
proof (induction Q heap settled best arbitrary: b rule: search.induct)
  case (2 Q k heap settled best)
  show ?case
  proof (cases "cost b < cost k")
    case False
    obtain b' where b': "improve best k = Some b'" "b' \<le> b"
      using improve_le [of best k] 2(5) by (elim exE conjE) simp
    show ?thesis
    proof (cases "at_target Q k")
      case True
      have "\<exists>r. search Q heap settled (improve best k) = Some r \<and> r \<le> b'"
        by (rule 2(1)) (use False True 2(5) b' in simp_all)
      then obtain r where "search Q heap settled (improve best k) = Some r" "r \<le> b" using b'(2) by fastforce
      then show ?thesis using True False 2(5) by simp
    next
      case nt: False
      show ?thesis
      proof (cases "case settled (end_of k) of None \<Rightarrow> False | Some c \<Rightarrow> c < cost k")
        case True
        have "\<exists>r. search Q heap settled best = Some r \<and> r \<le> b"
          by (rule 2(2)) (use nt False True 2(5) in simp_all)
        then show ?thesis using True nt False 2(5) by simp
      next
        case ns: False
        show ?thesis
        proof (cases "expandable Q k")
          case True
          have "\<exists>r. search Q (fold insort (extensions Q k) heap) (settled(end_of k \<mapsto> cost k)) best = Some r \<and> r \<le> b"
            by (rule 2(4)) (use nt False ns True 2(5) in simp_all)
          then show ?thesis using True ns nt False 2(5) by (simp add: fun_upd_def)
        next
          case ne: False
          have "\<exists>r. search Q heap (settled(end_of k \<mapsto> cost k)) best = Some r \<and> r \<le> b"
            by (rule 2(3)) (use nt False ns ne 2(5) in simp_all)
          then show ?thesis using ne ns nt False 2(5) by (simp add: fun_upd_def)
        qed
      qed
    qed
  qed (use 2 in simp)
qed simp

declare search.simps [simp del]

lemma search_least:
  "connection Q c \<Longrightarrow> \<exists>r. search Q [(0, 0, [pq_start Q])] Map.empty best = Some r \<and> r \<le> c"
proof (induction "cost c" arbitrary: c rule: less_induct)
  case less
  have "(hop Q)\<^sup>*\<^sup>* (0, 0, [pq_start Q]) c" using less.prems by (simp add: connection_def route_hops)
  then have "(\<exists>r. search Q [(0, 0, [pq_start Q])] Map.empty best = Some r \<and> r \<le> c)
      \<or> (\<exists>c'. connection Q c' \<and> cost c' < cost c)"
    by (intro search_complete [OF less.prems]) (simp_all add: route.Start)
  then show ?case
  proof
    assume "\<exists>c'. connection Q c' \<and> cost c' < cost c"
    then obtain c' where c': "connection Q c'" "cost c' < cost c" by blast
    from less.hyps [OF c'(2,1)] obtain r where "search Q [(0, 0, [pq_start Q])] Map.empty best = Some r" "r \<le> c'" by blast
    moreover have "c' \<le> c" using cost_less [OF c'(2)] by simp
    ultimately show ?thesis by (intro exI [of _ r]) simp
  qed
qed

text \<open>All the paths the search may return.\<close>

definition connections :: "join_graph \<Rightarrow> ustr \<Rightarrow> ustr list \<Rightarrow> int \<Rightarrow> int \<Rightarrow> path_key set" where
  "connections G start targets max_hops max_hub =
     {k. \<exists>source \<in> set (start_sources G start). connection (path_query G start targets max_hops max_hub source) k}"

lemma fold_search:
  fixes f :: "ustr option \<Rightarrow> path_key option \<Rightarrow> path_key option"
  assumes f: "\<And>source best. f source best = search (Q source) [(0, 0, [pq_start (Q source)])] Map.empty best"
  shows "(\<forall>source \<in> set ss. \<forall>c. connection (Q source) c \<longrightarrow> (\<exists>r. fold f ss best = Some r \<and> r \<le> c))
    \<and> (\<forall>b. best = Some b \<longrightarrow> (\<exists>r. fold f ss best = Some r \<and> r \<le> b))
    \<and> (fold f ss best = best \<or> (\<exists>source \<in> set ss. \<exists>k. fold f ss best = Some k \<and> connection (Q source) k))"
proof (induction ss arbitrary: best)
  case (Cons s ss)
  note IH = Cons.IH [of "f s best"]
  have dec: "\<exists>r. fold f ss (f s best) = Some r \<and> r \<le> b" if "\<exists>r. f s best = Some r \<and> r \<le> b" for b
  proof -
    from that obtain q where q: "f s best = Some q" "q \<le> b" by (elim exE conjE)
    from conjunct1 [OF conjunct2 [OF IH]] q(1) obtain r where "fold f ss (f s best) = Some r" "r \<le> q"
      by (elim allE impE exE conjE)
    with q(2) show ?thesis by (intro exI [of _ r]) (simp del: less_eq_prod_simp)
  qed
  have "\<exists>r. fold f (s # ss) best = Some r \<and> r \<le> c" if "source \<in> set (s # ss)" "connection (Q source) c" for source c
  proof (cases "source = s")
    case True
    with that have "\<exists>r. f s best = Some r \<and> r \<le> c" unfolding f by (intro search_least) simp
    from dec [OF this] show ?thesis by simp
  next
    case False
    with that have "source \<in> set ss" by simp
    with conjunct1 [OF IH] that(2) show ?thesis by simp
  qed
  moreover have "\<exists>r. fold f (s # ss) best = Some r \<and> r \<le> b" if "best = Some b" for b
    using dec [of b] search_decreases [OF that] unfolding f by simp
  moreover have "f s best = best \<or> (\<exists>k. f s best = Some k \<and> connection (Q s) k)"
    unfolding f by (rule search_sound) (simp add: route.Start)
  then have "fold f (s # ss) best = best \<or> (\<exists>source \<in> set (s # ss). \<exists>k. fold f (s # ss) best = Some k \<and> connection (Q source) k)"
    using conjunct2 [OF conjunct2 [OF IH]] by auto
  ultimately show ?case by blast
qed simp

lemma best_key_spec:
  "(best_key G s T m d = None \<longleftrightarrow> connections G s T m d = {})
   \<and> (best_key G s T m d = Some k \<longleftrightarrow> k \<in> connections G s T m d \<and> connections G s T m d \<subseteq> {k..})"
proof -
  define f where "f = (\<lambda>source best. search (path_query G s T m d source) [(0, 0, [s])] Map.empty best)"
  have f: "f source best = search (path_query G s T m d source) [(0, 0, [pq_start (path_query G s T m d source)])] Map.empty best"
    for source best by (simp add: f_def path_query_def)
  have b: "best_key G s T m d = fold f (start_sources G s) None" by (simp add: best_key_def f_def)
  note F = fold_search [of f "path_query G s T m d", OF f, of "start_sources G s" None]
  have 1: "\<exists>r. best_key G s T m d = Some r \<and> r \<le> c" if "c \<in> connections G s T m d" for c
    using conjunct1 [OF F] that unfolding b connections_def by blast
  have 2: "best_key G s T m d = None \<or> (\<exists>k. best_key G s T m d = Some k \<and> k \<in> connections G s T m d)"
    using conjunct2 [OF conjunct2 [OF F]] unfolding b connections_def by blast
  show ?thesis
  proof (cases "best_key G s T m d")
    case None
    with 1 have "connections G s T m d = {}" by fastforce
    with None show ?thesis by simp
  next
    case (Some r)
    with 2 have r: "r \<in> connections G s T m d" by simp
    moreover have "connections G s T m d \<subseteq> {r..}" using 1 Some by force
    ultimately show ?thesis using Some by (auto intro: antisym)
  qed
qed

text \<open>
  C19. The path search returns the best path there is: of all paths within the hop limit that stay in
  one source of the start, repeat no table and step through no hub and no target, the one with the
  fewest foreign keys, then the fewest inferred ones, then the smallest table names; and it returns
  nothing only when there is none. Discarding a table that was reached more cheaply loses no path.
\<close>

theorem best_path_least:
  "(best_path G s T m d = None \<longleftrightarrow> connections G s T m d = {})
   \<and> (best_path G s T m d = Some p \<longleftrightarrow>
        (\<exists>k. k \<in> connections G s T m d \<and> connections G s T m d \<subseteq> {k..} \<and> path_of k = p))"
  using best_key_spec [of G s T m d] by (auto simp: best_path_def)

section \<open>The loop ends\<close>

text \<open>One iteration of the loop over the heap; \<open>None\<close> when the loop is left.\<close>

definition search_iteration ::
    "path_query \<Rightarrow> path_key list \<times> (ustr \<Rightarrow> (nat \<times> nat) option) \<times> path_key option
     \<Rightarrow> (path_key list \<times> (ustr \<Rightarrow> (nat \<times> nat) option) \<times> path_key option) option" where
  "search_iteration Q s = (case s of
     ([], settled, best) \<Rightarrow> None
   | (k # heap, settled, best) \<Rightarrow>
       (if (case best of None \<Rightarrow> False | Some b \<Rightarrow> cost b < cost k) then None
        else if at_target Q k then Some (heap, settled, improve best k)
        else if (case settled (end_of k) of None \<Rightarrow> False | Some c \<Rightarrow> c < cost k) then Some (heap, settled, best)
        else if \<not> expandable Q k then Some (heap, settled(end_of k \<mapsto> cost k), best)
        else Some (fold insort (extensions Q k) heap, settled(end_of k \<mapsto> cost k), best)))"

lemma search_iterates:
  "search Q heap settled best =
     (case search_iteration Q (heap, settled, best) of None \<Rightarrow> best | Some (h, s, b) \<Rightarrow> search Q h s b)"
  by (cases heap) (simp_all add: search_iteration_def search.simps)

text \<open>
  C24. The search ends for every graph, also a cyclic one, and every limit: no sequence of iterations
  of its loop is infinite.
\<close>

theorem search_loop_terminates: "wf {(s', s). search_iteration Q s = Some s'}"
proof (rule wf_subset [OF wf_measure])
  show "{(s', s). search_iteration Q s = Some s'} \<subseteq> measure (\<lambda>(heap, settled, best). sum_list (map (weight Q) heap))"
    by (auto simp: search_iteration_def sum_fold_insort weight_pos weight_extensions split: list.splits if_splits)
qed

section \<open>Joining the retrieved tables\<close>

definition connected_within :: "join_graph \<Rightarrow> ustr \<Rightarrow> ustr list \<Rightarrow> int \<Rightarrow> int \<Rightarrow> bool" where
  "connected_within G table anchors hops max_hub =
     (let targets = filter (\<lambda>t. t \<noteq> table) anchors
      in if hops < 1 \<or> targets = [] \<or> table \<notin> set (od_keys (jg_adjacency G)) then False
         else best_path G table targets hops max_hub \<noteq> None)"

record expand_env =
  ee_enabled :: bool
  ee_graph :: join_graph
  ee_max_hops :: int
  ee_max_hub :: int
  ee_max_added :: int
  ee_fits :: "ustr list \<Rightarrow> bool"
  ee_facts :: "ustr list"

definition inferred_in :: "join_graph \<Rightarrow> ustr list \<Rightarrow> nat" where
  "inferred_in G path = length (filter (\<lambda>(x, y). edge_is_inferred G x y) (zip path (tl path)))"

text \<open>The pending table closest to the component, with its path.\<close>

fun closest :: "expand_env \<Rightarrow> ustr list \<Rightarrow> ustr list \<Rightarrow> (path_key \<times> ustr) option \<Rightarrow> (path_key \<times> ustr) option" where
  "closest E component [] best = best"
| "closest E component (t # ts) best =
     (case best_path (ee_graph E) t component (ee_max_hops E) (ee_max_hub E) of
        None \<Rightarrow> closest E component ts best
      | Some path \<Rightarrow>
          (let k = (length path, inferred_in (ee_graph E) path, path)
           in closest E component ts
                (case best of None \<Rightarrow> Some (k, t) | Some (b, t') \<Rightarrow> if k < b then Some (k, t) else best)))"

lemma closest_in:
  "closest E component ts best = Some (k, t) \<Longrightarrow> best = Some (k, t) \<or>
     t \<in> set ts \<and> best_path (ee_graph E) t component (ee_max_hops E) (ee_max_hub E) = Some (path_of k)"
proof (induction E component ts best rule: closest.induct)
  case (2 E component t' ts best)
  show ?case
  proof (cases "best_path (ee_graph E) t' component (ee_max_hops E) (ee_max_hub E)")
    case None
    with 2 show ?thesis by auto
  next
    case (Some path)
    let ?k = "(length path, inferred_in (ee_graph E) path, path)"
    let ?b = "case best of None \<Rightarrow> Some (?k, t') | Some (b, t'') \<Rightarrow> if ?k < b then Some (?k, t') else best"
    have "?b = Some (k, t) \<or>
        t \<in> set ts \<and> best_path (ee_graph E) t component (ee_max_hops E) (ee_max_hub E) = Some (path_of k)"
      by (rule 2(2) [OF Some]) (use 2(3) Some in \<open>simp_all add: Let_def\<close>)
    then show ?thesis
      using Some by (auto simp: path_of_def split: option.splits if_splits)
  qed
qed simp

lemma length_remove1_less: "t \<in> set ts \<Longrightarrow> length (remove1 t ts) < length ts"
  by (induction ts) auto

lemma length_filter_remove1: "t \<in> set ts \<Longrightarrow> length (filter P (remove1 t ts)) < length ts"
  by (rule le_less_trans [OF length_filter_le length_remove1_less])

function expand_loop :: "expand_env \<Rightarrow> ustr list \<Rightarrow> ustr list \<Rightarrow> ustr list \<Rightarrow> ustr list \<Rightarrow> ustr list" where
  "expand_loop E selected component pending added =
     (case closest E component pending None of
        None \<Rightarrow> added
      | Some (k, t) \<Rightarrow>
          (let path = path_of k;
               new = filter (\<lambda>x. x \<notin> set selected \<and> x \<notin> set added) (rev (butlast (tl path)));
               rest = remove1 t pending
           in if new \<noteq> [] \<and> ee_max_added E < int (length added + length new)
              then expand_loop E selected component rest added
              else if new \<noteq> [] \<and> \<not> ee_fits E (selected @ added @ new)
              then expand_loop E selected component rest added
              else expand_loop E selected (component @ path)
                     (filter (\<lambda>x. x \<notin> set (component @ path)) rest) (added @ new)))"
  by pat_completeness auto

termination
  by (relation "measure (\<lambda>(E, selected, component, pending, added). length pending)")
    (auto simp: length_remove1_less length_filter_remove1 simp del: length_remove1 dest!: closest_in)

declare expand_loop.simps [simp del]

definition expand_join_paths :: "expand_env \<Rightarrow> ustr list \<Rightarrow> ustr list" where
  "expand_join_paths E selected =
     (let ordered = filter (\<lambda>t. t \<in> set (od_keys (jg_adjacency (ee_graph E)))) (rev (remdups (rev selected)))
      in if \<not> ee_enabled E \<or> length ordered < 2 then []
         else (let start = (case find (\<lambda>t. t \<in> set (ee_facts E)) ordered of None \<Rightarrow> hd ordered | Some t \<Rightarrow> t)
               in expand_loop E selected [start] (filter (\<lambda>t. t \<noteq> start) ordered) []))"

lemma route_inner:
  "route Q k \<Longrightarrow> t \<in> set (butlast (tl (path_of k))) \<Longrightarrow> int (degree (pq_graph Q) t) \<le> pq_max_hub Q"
proof (induction rule: route.induct)
  case (Hop k k')
  note f = route_facts [OF Hop(1)]
  have tl: "tl (path_of k') = tl (path_of k) @ [end_of k']"
    using f by (simp add: extension_facts(1) [OF Hop(4)])
  then have t: "t \<in> set (tl (path_of k))" using Hop.prems by simp
  then have ne: "tl (path_of k) \<noteq> []" by auto
  then have "end_of k = last (tl (path_of k))" by (simp add: end_of_def last_tl)
  then have s: "t \<in> set (butlast (tl (path_of k))) \<or> t = end_of k"
    using t ne by (metis append_butlast_last_id UnE empty_iff empty_set set_ConsD set_append)
  have "hd (path_of k) \<notin> set (tl (path_of k))" using f by (cases "path_of k") auto
  then have "t \<noteq> pq_start Q" using t f by auto
  with s Hop.IH Hop(3) show ?case by (auto simp: expandable_def)
qed (simp add: path_of_def)

lemma best_path_facts:
  assumes "best_path G s T m d = Some p"
  shows "distinct p \<and> (\<forall>t \<in> set (butlast (tl p)). int (degree G t) \<le> d)"
proof -
  obtain k src where "route (path_query G s T m d src) k" "path_of k = p"
    using assms best_key_spec [of G s T m d] by (auto simp: best_path_def connections_def connection_def)
  moreover have "pq_graph (path_query G s T m d src) = G" "pq_max_hub (path_query G s T m d src) = d"
    by (simp_all add: path_query_def)
  ultimately show ?thesis
    using route_facts [of "path_query G s T m d src" k] route_inner [of "path_query G s T m d src" k] by auto
qed

definition expansion_ok :: "expand_env \<Rightarrow> ustr list \<Rightarrow> ustr list \<Rightarrow> bool" where
  "expansion_ok E selected added \<longleftrightarrow>
     distinct added \<and> set added \<inter> set selected = {}
     \<and> list_all (\<lambda>t. int (degree (ee_graph E) t) \<le> ee_max_hub E) added
     \<and> (added = [] \<or> int (length added) \<le> ee_max_added E \<and> ee_fits E (selected @ added))"

lemma expand_loop_ok:
  "expansion_ok E selected added \<Longrightarrow> expansion_ok E selected (expand_loop E selected component pending added)"
proof (induction E selected component pending added rule: expand_loop.induct)
  case (1 E selected component pending added)
  show ?case
  proof (cases "closest E component pending None")
    case None
    with "1.prems" show ?thesis by (simp add: expand_loop.simps)
  next
    case (Some kt)
    obtain k t where kt: "kt = (k, t)" by (cases kt)
    let ?p = "path_of k"
    let ?new = "filter (\<lambda>x. x \<notin> set selected \<and> x \<notin> set added) (rev (butlast (tl ?p)))"
    let ?rest = "remove1 t pending"
    have loop: "expand_loop E selected component pending added =
        (if ?new \<noteq> [] \<and> ee_max_added E < int (length added + length ?new)
         then expand_loop E selected component ?rest added
         else if ?new \<noteq> [] \<and> \<not> ee_fits E (selected @ added @ ?new)
         then expand_loop E selected component ?rest added
         else expand_loop E selected (component @ ?p) (filter (\<lambda>x. x \<notin> set (component @ ?p)) ?rest) (added @ ?new))"
      by (subst expand_loop.simps) (simp only: Some kt option.case prod.case Let_def)
    from closest_in [of E component pending None k t] Some kt
    have p: "best_path (ee_graph E) t component (ee_max_hops E) (ee_max_hub E) = Some ?p" by simp
    show ?thesis
    proof (cases "?new \<noteq> [] \<and> ee_max_added E < int (length added + length ?new)")
      case True
      from 1(1) [OF Some kt [symmetric] refl refl refl True "1.prems"] show ?thesis unfolding loop if_P [OF True] .
    next
      case fit: False
      show ?thesis
      proof (cases "?new \<noteq> [] \<and> \<not> ee_fits E (selected @ added @ ?new)")
        case True
        from 1(2) [OF Some kt [symmetric] refl refl refl fit True "1.prems"] show ?thesis
          unfolding loop if_not_P [OF fit] if_P [OF True] .
      next
        case False
        have "expansion_ok E selected (added @ ?new)"
        proof (cases "?new = []")
          case False
          note f = best_path_facts [OF p]
          have "distinct ?new" using f by (simp add: distinct_butlast distinct_tl)
          moreover have "list_all (\<lambda>t. int (degree (ee_graph E) t) \<le> ee_max_hub E) ?new"
            using f by (auto simp: list_all_iff)
          ultimately show ?thesis
            using "1.prems" fit \<open>\<not> (?new \<noteq> [] \<and> \<not> ee_fits E (selected @ added @ ?new))\<close> False
            by (auto simp: expansion_ok_def)
        qed (use "1.prems" in \<open>simp only: append_Nil2\<close>)
        from 1(3) [OF Some kt [symmetric] refl refl refl fit False this] show ?thesis
          unfolding loop if_not_P [OF fit] if_not_P [OF False] .
      qed
    qed
  qed
qed

text \<open>
  The expansion adds each table once and none that was retrieved, no hub, at most the configured
  number in all, and never outgrows the token budget: with the additions the schema block still
  fits.
\<close>

theorem expansion_bounded:
  "let A = expand_join_paths E selected
   in distinct A \<and> set A \<inter> set selected = {}
      \<and> list_all (\<lambda>t. int (degree (ee_graph E) t) \<le> ee_max_hub E) A
      \<and> (A = [] \<or> int (length A) \<le> ee_max_added E \<and> ee_fits E (selected @ A))"
proof -
  have "expansion_ok E selected []" by (simp add: expansion_ok_def)
  then have "expansion_ok E selected (expand_join_paths E selected)"
    by (simp add: expand_join_paths_def Let_def expand_loop_ok)
  then show ?thesis by (simp add: expansion_ok_def Let_def)
qed

end
