(* ===== verification/Join_Graph.thy ===== *)
theory Join_Graph
  imports Join_Paths Persian_Text
begin

text \<open>
  \<open>retrieval/join_paths.py\<close>, the graph: the foreign keys declared by the schema and by
  \<open>relationships.yaml\<close>, and those inferred from the names of columns, as an undirected graph over the
  queryable tables. The schema is given by its tables and columns, the qualifier of each table, its
  bare name (\<open>bare\<close>) and its sources.
\<close>

section \<open>Names\<close>

text \<open>\<open>name.partition('' -> '')\<close>, without the separator.\<close>

fun partition_arrow :: "ustr \<Rightarrow> ustr \<times> ustr" where
  "partition_arrow [] = ([], [])"
| "partition_arrow (c # s) =
     (if startswith (c # s) (u '' -> '') then ([], drop 4 (c # s))
      else map_prod (Cons c) id (partition_arrow s))"

text \<open>The letters a case-insensitive pattern \<open>id\<close> accepts.\<close>

definition id_letters :: "ustr \<Rightarrow> bool" where
  "id_letters s \<longleftrightarrow> (\<exists>i \<in> {0x49, 0x69, 0x130, 0x131}. \<exists>d \<in> {0x44, 0x64}. s = [i, d])"

text \<open>
  \<open>_KEY_COLUMN_RE\<close>: the stem of a key column. The group is lazy, so the shorter stem is tried first;
  \<open>$\<close> also matches before a final newline.
\<close>

definition stem_ok :: "ustr \<Rightarrow> bool" where
  "stem_ok s \<longleftrightarrow> s \<noteq> [] \<and> last s \<noteq> 95 \<and> 10 \<notin> set (butlast s)"

definition stem_rest :: "ustr \<Rightarrow> bool" where
  "stem_rest r \<longleftrightarrow> (let r = (if r \<noteq> [] \<and> last r = 10 then butlast r else r) in
     id_letters r \<or> r \<noteq> [] \<and> hd r = 95 \<and> id_letters (tl r))"

definition key_column_stem :: "ustr \<Rightarrow> ustr option" where
  "key_column_stem column =
     map_option (\<lambda>n. take n column)
       (find (\<lambda>n. stem_ok (take n column) \<and> stem_rest (drop n column)) [1..<Suc (length column)])"

record schema_tables =
  st_columns :: "(ustr, ustr list) odict"
  st_qualifier :: "(ustr, ustr) odict"
  st_bare :: "ustr \<Rightarrow> ustr"
  st_sources :: "(ustr, ustr list) odict"

definition qualifier :: "schema_tables \<Rightarrow> ustr \<Rightarrow> ustr" where
  "qualifier S t = (case map_of (st_qualifier S) t of None \<Rightarrow> [] | Some q \<Rightarrow> q)"

text \<open>The tables with one bare name, by table name.\<close>

definition by_bare :: "unicode_db \<Rightarrow> schema_tables \<Rightarrow> ustr \<Rightarrow> ustr list" where
  "by_bare U S name = filter (\<lambda>t. lower U (st_bare S t) = name) (sort (od_keys (st_columns S)))"

definition resolve_bare :: "unicode_db \<Rightarrow> schema_tables \<Rightarrow> ustr \<Rightarrow> ustr option \<Rightarrow> ustr option" where
  "resolve_bare U S name schema =
     (let candidates = by_bare U S (lower U (strip name));
          narrowed = (case schema of
            None \<Rightarrow> candidates
          | Some s \<Rightarrow>
              (if s = [] then candidates
               else let wanted = lower U (strip s)
                    in filter (\<lambda>k. lower U (qualifier S k) = wanted
                         \<or> last (split_on 46 (lower U (qualifier S k))) = wanted) candidates))
      in case narrowed of [k] \<Rightarrow> Some k | _ \<Rightarrow> None)"

section \<open>Edges\<close>

datatype edge_origin = From_schema | From_relationships | Inferred

record join_edge =
  je_a :: ustr
  je_b :: ustr
  je_origin :: edge_origin

definition joined :: "(ustr \<times> ustr) list \<Rightarrow> ustr \<Rightarrow> ustr \<Rightarrow> bool" where
  "joined known a b \<longleftrightarrow> (a, b) \<in> set known \<or> (b, a) \<in> set known"

definition same_source :: "schema_tables \<Rightarrow> ustr \<Rightarrow> ustr \<Rightarrow> bool" where
  "same_source S a b \<longleftrightarrow>
     (case (map_of (st_sources S) a, map_of (st_sources S) b) of
        (Some x, Some y) \<Rightarrow> set x \<inter> set y \<noteq> {} | _ \<Rightarrow> False)"

text \<open>The table one column points at by its name, if exactly one qualifies.\<close>

definition infer_target :: "unicode_db \<Rightarrow> schema_tables \<Rightarrow> ustr \<Rightarrow> ustr \<Rightarrow> ustr option" where
  "infer_target U S table column =
     (case key_column_stem column of
        None \<Rightarrow> None
      | Some stem \<Rightarrow>
          (let lowered = (\<lambda>t. map (lower U) (case map_of (st_columns S) t of None \<Rightarrow> [] | Some cs \<Rightarrow> cs));
               c0 = filter (\<lambda>t. t \<noteq> table \<and> (u ''id'' \<in> set (lowered t) \<or> lower U column \<in> set (lowered t)))
                      (by_bare U S (lower U stem));
               c1 = (if st_sources S = [] then c0 else filter (\<lambda>t. same_source S t table) c0);
               c2 = (if 1 < length c1
                     then (let ss = filter (\<lambda>t. map_of (st_qualifier S) t = map_of (st_qualifier S) table) c1
                           in if length ss = 1 then ss else [])
                     else c1)
           in case c2 of [t] \<Rightarrow> Some t | _ \<Rightarrow> None))"

fun infer_edges ::
    "unicode_db \<Rightarrow> schema_tables \<Rightarrow> (ustr \<times> ustr) list \<Rightarrow> (ustr \<times> ustr) list \<Rightarrow> (ustr \<times> ustr) list" where
  "infer_edges U S [] known = []"
| "infer_edges U S ((table, column) # rest) known =
     (case infer_target U S table column of
        None \<Rightarrow> infer_edges U S rest known
      | Some t \<Rightarrow>
          if joined known table t then infer_edges U S rest known
          else (table, t) # infer_edges U S rest ((table, t) # known))"

definition sorted_columns :: "schema_tables \<Rightarrow> (ustr \<times> ustr) list" where
  "sorted_columns S =
     concat (map (\<lambda>t. map (Pair t) (sort (case map_of (st_columns S) t of None \<Rightarrow> [] | Some cs \<Rightarrow> cs)))
       (sort (od_keys (st_columns S))))"

text \<open>\<open>add\<close>: a pair of known tables that is not joined yet.\<close>

definition add_edge :: "schema_tables \<Rightarrow> edge_origin \<Rightarrow> ustr \<times> ustr \<Rightarrow> join_edge list \<Rightarrow> join_edge list" where
  "add_edge S origin p edges =
     (let cols = od_keys (st_columns S)
      in if fst p = snd p \<or> fst p \<notin> set cols \<or> snd p \<notin> set cols
            \<or> joined (map (\<lambda>e. (je_a e, je_b e)) edges) (fst p) (snd p)
         then edges
         else edges @ [\<lparr>je_a = fst p, je_b = snd p, je_origin = origin\<rparr>])"

text \<open>An entry of \<open>relationships.yaml\<close>: the two tables with their optional schemas.\<close>

type_synonym yaml_relationship = "(ustr \<times> ustr option) \<times> (ustr \<times> ustr option)"

definition resolved_entry :: "unicode_db \<Rightarrow> schema_tables \<Rightarrow> yaml_relationship \<Rightarrow> (ustr \<times> ustr) option" where
  "resolved_entry U S e =
     (case (resolve_bare U S (fst (fst e)) (snd (fst e)), resolve_bare U S (fst (snd e)) (snd (snd e))) of
        (Some a, Some b) \<Rightarrow> if a \<noteq> [] \<and> b \<noteq> [] then Some (a, b) else None
      | _ \<Rightarrow> None)"

definition declared_edges ::
    "unicode_db \<Rightarrow> schema_tables \<Rightarrow> ustr list \<Rightarrow> yaml_relationship list \<Rightarrow> join_edge list" where
  "declared_edges U S relationships entries =
     fold (add_edge S From_relationships) (List.map_filter (resolved_entry U S) entries)
       (fold (add_edge S From_schema) (map partition_arrow relationships) [])"

definition all_edges ::
    "unicode_db \<Rightarrow> schema_tables \<Rightarrow> ustr list \<Rightarrow> yaml_relationship list \<Rightarrow> bool \<Rightarrow> join_edge list" where
  "all_edges U S relationships entries infer =
     (let edges = declared_edges U S relationships entries
      in edges @ (if infer
           then map (\<lambda>(a, b). \<lparr>je_a = a, je_b = b, je_origin = Inferred\<rparr>)
                  (infer_edges U S (sorted_columns S) (map (\<lambda>e. (je_a e, je_b e)) edges))
           else []))"

definition neighbours_of :: "join_edge list \<Rightarrow> ustr \<Rightarrow> (ustr, bool) odict" where
  "neighbours_of edges t =
     fold (\<lambda>e ns. let i = (je_origin e = Inferred)
                  in (\<lambda>ns. if je_b e = t then AList.update (je_a e) i ns else ns)
                       (if je_a e = t then AList.update (je_b e) i ns else ns))
       edges []"

definition build_join_graph ::
    "unicode_db \<Rightarrow> schema_tables \<Rightarrow> ustr list \<Rightarrow> yaml_relationship list \<Rightarrow> bool \<Rightarrow> join_graph" where
  "build_join_graph U S relationships entries infer =
     (let edges = all_edges U S relationships entries infer
      in \<lparr>jg_adjacency = filter (\<lambda>(t, ns). ns \<noteq> [])
            (map (\<lambda>t. (t, sort_key fst (neighbours_of edges t))) (od_keys (st_columns S))),
          jg_sources = st_sources S\<rparr>)"

section \<open>The graph is a simple undirected graph\<close>

definition connects :: "ustr \<Rightarrow> ustr \<Rightarrow> join_edge \<Rightarrow> bool" where
  "connects a b e \<longleftrightarrow> je_a e = a \<and> je_b e = b \<or> je_a e = b \<and> je_b e = a"

lemma connects_sym: "connects a b e = connects b a e"
  by (auto simp: connects_def)

lemma joined_edges: "joined (map (\<lambda>e. (je_a e, je_b e)) es) a b \<longleftrightarrow> list_ex (connects a b) es"
  by (auto simp: joined_def connects_def list_ex_iff image_iff)

lemma neighbours_of_snoc:
  "neighbours_of (es @ [e]) t = (if je_b e = t then AList.update (je_a e) (je_origin e = Inferred) else id)
     ((if je_a e = t then AList.update (je_b e) (je_origin e = Inferred) else id) (neighbours_of es t))"
  by (simp add: neighbours_of_def Let_def)

lemma neighbours_of_ok: "od_ok (neighbours_of es t)"
proof (induction es rule: rev_induct)
  case (snoc e es)
  then show ?case by (simp add: neighbours_of_snoc od)
qed (simp add: neighbours_of_def od_ok_def)

lemma neighbours_of_lookup:
  "map_of (neighbours_of es t) x = map_option (\<lambda>e. je_origin e = Inferred) (find (connects t x) (rev es))"
proof (induction es rule: rev_induct)
  case (snoc e es)
  then show ?case by (auto simp: neighbours_of_snoc update_conv' connects_def)
qed (simp add: neighbours_of_def)

lemma find_Some_in: "find P xs = Some x \<Longrightarrow> x \<in> set xs \<and> P x"
  by (auto simp: find_Some_iff)

lemma find_append: "find P (xs @ ys) = (case find P xs of None \<Rightarrow> find P ys | Some x \<Rightarrow> Some x)"
  by (induction xs) auto

text \<open>The edges stay between two different queryable tables.\<close>

definition edge_ok :: "schema_tables \<Rightarrow> join_edge \<Rightarrow> bool" where
  "edge_ok S e \<longleftrightarrow> je_a e \<noteq> je_b e \<and> je_a e \<in> set (od_keys (st_columns S)) \<and> je_b e \<in> set (od_keys (st_columns S))"

lemma add_edges_ok:
  "list_all (\<lambda>e. edge_ok S e \<and> je_origin e \<noteq> Inferred) es \<Longrightarrow> origin \<noteq> Inferred \<Longrightarrow>
   list_all (\<lambda>e. edge_ok S e \<and> je_origin e \<noteq> Inferred) (fold (add_edge S origin) ps es)"
proof (induction ps arbitrary: es)
  case (Cons p ps)
  have "list_all (\<lambda>e. edge_ok S e \<and> je_origin e \<noteq> Inferred) (add_edge S origin p es)"
    using Cons.prems by (auto simp: add_edge_def Let_def edge_ok_def)
  with Cons show ?case by simp
qed simp

lemma declared_edges_ok:
  "list_all (\<lambda>e. edge_ok S e \<and> je_origin e \<noteq> Inferred) (declared_edges U S relationships entries)"
  unfolding declared_edges_def by (intro add_edges_ok) simp_all

lemma infer_target_ok:
  assumes "infer_target U S table column = Some t"
  shows "t \<noteq> table \<and> t \<in> set (od_keys (st_columns S))"
proof -
  obtain stem where stem: "key_column_stem column = Some stem"
    using assms by (auto simp: infer_target_def split: option.splits)
  define lo where "lo = (\<lambda>t. map (lower U) (case map_of (st_columns S) t of None \<Rightarrow> [] | Some cs \<Rightarrow> cs))"
  define c0 where "c0 = filter (\<lambda>t. t \<noteq> table \<and> (u ''id'' \<in> set (lo t) \<or> lower U column \<in> set (lo t)))
      (by_bare U S (lower U stem))"
  define c1 where "c1 = (if st_sources S = [] then c0 else filter (\<lambda>t. same_source S t table) c0)"
  define c2 where "c2 = (if 1 < length c1
      then (let ss = filter (\<lambda>t. map_of (st_qualifier S) t = map_of (st_qualifier S) table) c1
            in if length ss = 1 then ss else [])
      else c1)"
  have "infer_target U S table column = (case c2 of [t] \<Rightarrow> Some t | _ \<Rightarrow> None)"
    unfolding infer_target_def stem option.case Let_def c2_def c1_def c0_def lo_def ..
  with assms have "t \<in> set c2" by (auto split: list.splits)
  also have "set c2 \<subseteq> set c1" by (auto simp: c2_def Let_def)
  also have "set c1 \<subseteq> set c0" by (auto simp: c1_def)
  finally show ?thesis by (simp add: c0_def by_bare_def)
qed

lemma infer_edges_new:
  "list_all (\<lambda>(a, b). \<not> joined known a b \<and> a \<noteq> b \<and> a \<in> fst ` set cs \<and> b \<in> set (od_keys (st_columns S)))
     (infer_edges U S cs known)"
proof (induction U S cs known rule: infer_edges.induct)
  case (2 U S table column rest known)
  show ?case
  proof (cases "infer_target U S table column")
    case None
    with 2(1) [OF None] show ?thesis by (auto simp: list_all_iff)
  next
    case (Some t)
    from infer_target_ok [OF Some] have t: "t \<noteq> table" "t \<in> set (od_keys (st_columns S))" by simp_all
    show ?thesis
    proof (cases "joined known table t")
      case True
      with 2(2) [OF Some True] Some show ?thesis by (auto simp: list_all_iff)
    next
      case False
      with 2(3) [OF Some False] Some t show ?thesis by (auto simp: list_all_iff joined_def)
    qed
  qed
qed simp

lemma sorted_columns_tables: "fst ` set (sorted_columns S) \<subseteq> set (od_keys (st_columns S))"
  by (auto simp: sorted_columns_def)

lemma neighbours_build:
  "neighbours (build_join_graph U S rels entries infer) a
     = (if a \<in> set (od_keys (st_columns S))
        then sort_key fst (neighbours_of (all_edges U S rels entries infer) a) else [])"
proof -
  have "map_of (filter (\<lambda>(t, ns). ns \<noteq> []) (map (\<lambda>t. (t, f t)) ks)) a
      = (if a \<in> set ks \<and> f a \<noteq> [] then Some (f a) else None)" for f :: "ustr \<Rightarrow> (ustr \<times> bool) list" and ks
    by (induction ks) auto
  then show ?thesis by (simp add: neighbours_def build_join_graph_def Let_def split: option.split)
qed

lemma all_edges_split:
  obtains I where "all_edges U S rels entries infer = declared_edges U S rels entries @ I"
    "\<And>e. e \<in> set I \<Longrightarrow> edge_ok S e \<and> je_origin e = Inferred
       \<and> \<not> list_ex (connects (je_a e) (je_b e)) (declared_edges U S rels entries)"
proof
  let ?D = "declared_edges U S rels entries"
  let ?I = "if infer then map (\<lambda>(a, b). \<lparr>je_a = a, je_b = b, je_origin = Inferred\<rparr>)
      (infer_edges U S (sorted_columns S) (map (\<lambda>e. (je_a e, je_b e)) ?D)) else []"
  show "all_edges U S rels entries infer = ?D @ ?I" by (simp add: all_edges_def Let_def)
  fix e
  assume "e \<in> set ?I"
  then obtain x y where xy: "(x, y) \<in> set (infer_edges U S (sorted_columns S) (map (\<lambda>e. (je_a e, je_b e)) ?D))"
      "e = \<lparr>je_a = x, je_b = y, je_origin = Inferred\<rparr>"
    by (auto split: if_splits)
  with infer_edges_new [of "map (\<lambda>e. (je_a e, je_b e)) ?D" "sorted_columns S" S U]
  have "\<not> list_ex (connects x y) ?D" "x \<noteq> y" "x \<in> fst ` set (sorted_columns S)" "y \<in> set (od_keys (st_columns S))"
    by (auto simp: list_all_iff joined_edges)
  with sorted_columns_tables [of S]
  show "edge_ok S e \<and> je_origin e = Inferred \<and> \<not> list_ex (connects (je_a e) (je_b e)) ?D"
    by (auto simp: xy(2) edge_ok_def)
qed

text \<open>The edge a neighbour comes from.\<close>

lemma neighbour_edge:
  assumes "map_of (neighbours_of (all_edges U S rels entries infer) a) b = Some inferred"
  shows "a \<noteq> b \<and> b \<in> set (od_keys (st_columns S))
    \<and> inferred = (\<not> list_ex (connects a b) (declared_edges U S rels entries))"
proof -
  let ?D = "declared_edges U S rels entries"
  obtain I where I: "all_edges U S rels entries infer = ?D @ I"
    "\<And>e. e \<in> set I \<Longrightarrow> edge_ok S e \<and> je_origin e = Inferred \<and> \<not> list_ex (connects (je_a e) (je_b e)) ?D"
    using all_edges_split [of U S rels entries infer] by blast
  obtain e where e: "find (connects a b) (rev I @ rev ?D) = Some e" "inferred = (je_origin e = Inferred)"
    using assms by (auto simp: I(1) neighbours_of_lookup)
  have d: "edge_ok S e \<and> je_origin e \<noteq> Inferred" if "e \<in> set ?D" for e
    using that declared_edges_ok [of S U rels entries] by (auto simp: list_all_iff)
  have e': "e \<in> set I \<or> e \<in> set ?D" "connects a b e" using find_Some_in [OF e(1)] by auto
  then have ok: "edge_ok S e" using d I(2) by blast
  have "inferred = (\<not> list_ex (connects a b) ?D)"
  proof (cases "e \<in> set I")
    case True
    have "connects (je_a e) (je_b e) x \<longleftrightarrow> connects a b x" for x using e'(2) by (auto simp: connects_def)
    with I(2) [OF True] e(2) show ?thesis by (auto simp: list_ex_iff)
  next
    case False
    with e' d e(2) show ?thesis by (auto simp: list_ex_iff)
  qed
  moreover have "a \<noteq> b" "b \<in> set (od_keys (st_columns S))" using ok e'(2) by (auto simp: edge_ok_def connects_def)
  ultimately show ?thesis by simp
qed

text \<open>
  The graph is what the search assumes: an undirected graph without loops over the queryable
  tables, each neighbour listed once, and an edge counts as inferred exactly when no declared
  relationship joins the two tables.
\<close>

theorem join_graph_simple:
  assumes "(b, inferred) \<in> set (neighbours (build_join_graph U S rels entries infer) a)"
  shows "a \<noteq> b \<and> a \<in> set (od_keys (st_columns S)) \<and> b \<in> set (od_keys (st_columns S))
    \<and> (a, inferred) \<in> set (neighbours (build_join_graph U S rels entries infer) b)
    \<and> distinct (map fst (neighbours (build_join_graph U S rels entries infer) a))
    \<and> inferred = (\<not> list_ex (connects a b) (declared_edges U S rels entries))"
proof -
  let ?E = "all_edges U S rels entries infer"
  have a: "a \<in> set (od_keys (st_columns S))" using assms by (auto simp: neighbours_build split: if_splits)
  have l: "map_of (neighbours_of ?E a) b = Some inferred"
    using assms a neighbours_of_ok [of ?E a] by (simp add: neighbours_build od_ok_def)
  have "connects b a = connects a b" by (intro ext) (rule connects_sym)
  with l have "map_of (neighbours_of ?E b) a = Some inferred" by (simp add: neighbours_of_lookup)
  then have "(a, inferred) \<in> set (neighbours_of ?E b)" by (rule map_of_SomeD)
  with a neighbour_edge [OF l] neighbours_of_ok [of ?E a] show ?thesis
    by (simp add: neighbours_build od_ok_def distinct_map)
qed

section \<open>A concrete schema\<close>

definition example_tables :: schema_tables where
  "example_tables = \<lparr>st_columns = [(u ''Order'', [u ''ID'', u ''Customer_ID'']), (u ''Customer'', [u ''ID'', u ''CityID'']), (u ''City'', [u ''ID''])],
     st_qualifier = [], st_bare = id, st_sources = []\<rparr>"

lemma example_stems:
  "key_column_stem (u ''ID'') = None" "key_column_stem (u ''Customer_ID'') = Some (u ''Customer'')"
  "key_column_stem (u ''CityID'') = Some (u ''City'')"
  by (simp_all add: key_column_stem_def upt_rec stem_ok_def stem_rest_def id_letters_def u_def Let_def)

lemma example_neighbours:
  "neighbours (build_join_graph ascii_db example_tables [u ''Order -> Customer''] [] True) (u ''Customer'')
     = [(u ''City'', True), (u ''Order'', False)]"
proof -
  have d: "declared_edges ascii_db example_tables [u ''Order -> Customer''] []
      = [\<lparr>je_a = u ''Order'', je_b = u ''Customer'', je_origin = From_schema\<rparr>]"
    by (simp add: declared_edges_def add_edge_def example_tables_def od_keys_def joined_def u_def startswith_def
        List.map_filter_def)
  have s: "sorted_columns example_tables = [(u ''City'', u ''ID''), (u ''Customer'', u ''CityID''), (u ''Customer'', u ''ID''),
      (u ''Order'', u ''Customer_ID''), (u ''Order'', u ''ID'')]"
    by (simp add: sorted_columns_def example_tables_def od_keys_def u_def)
  have t: "infer_target ascii_db example_tables (u ''City'') (u ''ID'') = None"
    "infer_target ascii_db example_tables (u ''Customer'') (u ''ID'') = None"
    "infer_target ascii_db example_tables (u ''Order'') (u ''ID'') = None"
    "infer_target ascii_db example_tables (u ''Customer'') (u ''CityID'') = Some (u ''City'')"
    "infer_target ascii_db example_tables (u ''Order'') (u ''Customer_ID'') = Some (u ''Customer'')"
    by (simp_all add: infer_target_def example_stems)
      (simp_all add: by_bare_def example_tables_def od_keys_def u_def ascii_db_def ascii_lower_def Collect_disj_eq image_Un)
  have i: "infer_edges ascii_db example_tables (sorted_columns example_tables) [(u ''Order'', u ''Customer'')]
      = [(u ''Customer'', u ''City'')]"
    unfolding s by (simp add: t joined_def)
  show ?thesis
    by (simp add: neighbours_build all_edges_def d i)
      (simp add: example_tables_def od_keys_def neighbours_of_def u_def)
qed

theorem join_graph_simple_witness:
  defines "G \<equiv> build_join_graph ascii_db example_tables [u ''Order -> Customer''] [] True"
  shows "u ''Customer'' \<noteq> u ''City'' \<and> u ''Customer'' \<in> set (od_keys (st_columns example_tables))
    \<and> u ''City'' \<in> set (od_keys (st_columns example_tables)) \<and> (u ''Customer'', True) \<in> set (neighbours G (u ''City''))
    \<and> distinct (map fst (neighbours G (u ''Customer'')))
    \<and> True = (\<not> list_ex (connects (u ''Customer'') (u ''City''))
        (declared_edges ascii_db example_tables [u ''Order -> Customer''] []))"
  unfolding G_def by (rule join_graph_simple) (simp add: example_neighbours)

end
