(* ===== verification/Session_Store.thy ===== *)
theory Session_Store
  imports Auth
begin

text \<open>
  \<open>session/store.py\<close> and \<open>session/persistence.py\<close>: the hot set of conversations with its expiry and
  its per-owner eviction, and the database they are kept in across expiry. The state is the hot set
  (least recently used first), the rows and the turns of the database. Session ids, clocks and the
  time stamps are arguments. JSON values are stored as they are: \<open>json.loads\<close> reads back what
  \<open>json.dumps\<close> wrote.
\<close>

section \<open>Conversations\<close>

text \<open>
  Of a turn the store and the engine look at the id, the index, the question, the statement that ran
  and the result: the names of its columns, its row count and its rows (\<open>tn_rows\<close> is \<open>None\<close> when the
  turn has no result, and then the columns, the count and \<open>tn_omitted\<close> mean nothing). The
  interpretation is the model's summary of the rows; \<open>tn_rest\<close> stands for the other fields.
\<close>

record session_turn =
  tn_id :: ustr
  tn_index :: int
  tn_question :: ustr
  tn_sql :: "ustr option"
  tn_columns :: "ustr list"
  tn_row_count :: int
  tn_rows :: "json list option"
  tn_omitted :: bool
  tn_interpretation :: "ustr option"
  tn_rest :: json

record turn_memory =
  tm_turn :: ustr
  tm_filters :: "(ustr, json) odict"
  tm_columns :: "ustr list"
  tm_sql :: "ustr option"
  tm_injected_top :: "int option"
  tm_row_count :: int
  tm_datasource :: "ustr option"

record session_record =
  sr_id :: ustr
  sr_created :: ustr
  sr_last :: rat
  sr_turns :: "session_turn list"
  sr_memory :: "(ustr, turn_memory) odict"
  sr_owner :: "ustr option"
  sr_title :: "ustr option"

record session_row =
  sw_owner :: "ustr option"
  sw_title :: "ustr option"
  sw_created :: ustr
  sw_last_active :: ustr

record session_state =
  ss_hot :: "(ustr, session_record) odict"
  ss_rows :: "(ustr, session_row) odict"
  ss_turns :: "(ustr \<times> ustr, int \<times> session_turn \<times> turn_memory) odict"

record session_config =
  sc_ttl :: rat
  sc_max_size :: int
  sc_max_turns :: int
  sc_persistent :: bool
  sc_title_length :: nat

definition empty_memory :: "ustr \<Rightarrow> turn_memory" where
  "empty_memory tid = \<lparr>tm_turn = tid, tm_filters = [], tm_columns = [], tm_sql = None, tm_injected_top = None,
     tm_row_count = 0, tm_datasource = None\<rparr>"

section \<open>The database\<close>

definition upsert_session ::
    "ustr \<Rightarrow> ustr option \<Rightarrow> ustr option \<Rightarrow> ustr \<Rightarrow> ustr \<Rightarrow> session_state \<Rightarrow> session_state" where
  "upsert_session sid owner title created active st =
     st\<lparr>ss_rows := AList.update sid
       (case map_of (ss_rows st) sid of
          None \<Rightarrow> \<lparr>sw_owner = owner, sw_title = title, sw_created = created, sw_last_active = active\<rparr>
        | Some r \<Rightarrow> r\<lparr>sw_owner := owner, sw_title := title, sw_last_active := active\<rparr>) (ss_rows st)\<rparr>"

definition set_title :: "ustr \<Rightarrow> ustr \<Rightarrow> session_state \<Rightarrow> session_state" where
  "set_title sid title st =
     (case map_of (ss_rows st) sid of
        None \<Rightarrow> st
      | Some r \<Rightarrow> st\<lparr>ss_rows := AList.update sid (r\<lparr>sw_title := Some title\<rparr>) (ss_rows st)\<rparr>)"

definition delete_session :: "ustr \<Rightarrow> session_state \<Rightarrow> session_state" where
  "delete_session sid st =
     st\<lparr>ss_turns := filter (\<lambda>((s, t), v). s \<noteq> sid) (ss_turns st), ss_rows := AList.delete sid (ss_rows st)\<rparr>"

definition purge_sessions_older_than :: "ustr \<Rightarrow> session_state \<Rightarrow> nat \<times> session_state" where
  "purge_sessions_older_than cutoff st =
     (let ids = map fst (filter (\<lambda>(s, r). sw_last_active r < cutoff) (ss_rows st))
      in (length ids,
          st\<lparr>ss_turns := filter (\<lambda>((s, t), v). s \<notin> set ids) (ss_turns st),
             ss_rows := filter (\<lambda>(s, r). s \<notin> set ids) (ss_rows st)\<rparr>))"

text \<open>The rows of a result are never written.\<close>

definition strip_rows :: "session_turn \<Rightarrow> session_turn" where
  "strip_rows t = t\<lparr>tn_rows := map_option (\<lambda>_. []) (tn_rows t)\<rparr>"

definition omit_rows :: "session_turn \<Rightarrow> session_turn" where
  "omit_rows t = (case tn_rows t of None \<Rightarrow> t | Some _ \<Rightarrow> t\<lparr>tn_rows := Some [], tn_omitted := True\<rparr>)"

definition save_turn :: "ustr \<Rightarrow> session_turn \<Rightarrow> turn_memory option \<Rightarrow> session_state \<Rightarrow> session_state" where
  "save_turn sid turn memory st =
     st\<lparr>ss_turns := AList.update (sid, tn_id turn)
       (tn_index turn, strip_rows turn,
        (case memory of None \<Rightarrow> empty_memory (tn_id turn) | Some m \<Rightarrow> m\<lparr>tm_turn := tn_id turn\<rparr>))
       (ss_turns st)\<rparr>"

definition load_turns :: "ustr \<Rightarrow> session_state \<Rightarrow> session_turn list \<times> (ustr, turn_memory) odict" where
  "load_turns sid st =
     (let rows = sort_key (\<lambda>e. fst (snd e)) (filter (\<lambda>((s, t), v). s = sid) (ss_turns st))
      in (map (\<lambda>e. omit_rows (fst (snd (snd e)))) rows,
          fold (\<lambda>e. AList.update (tn_id (fst (snd (snd e)))) (snd (snd (snd e)))) rows []))"

section \<open>The hot set\<close>

definition owner_count :: "ustr option \<Rightarrow> (ustr, session_record) odict \<Rightarrow> nat" where
  "owner_count owner hot = length (filter (\<lambda>(s, r). sr_owner r = owner) hot)"

definition oldest_for_owner :: "ustr option \<Rightarrow> (ustr, session_record) odict \<Rightarrow> ustr option" where
  "oldest_for_owner owner hot = map_option fst (find (\<lambda>(s, r). sr_owner r = owner) hot)"

lemma oldest_in: "oldest_for_owner owner hot = Some s \<Longrightarrow> \<exists>r. (s, r) \<in> set hot \<and> sr_owner r = owner"
  by (auto simp: oldest_for_owner_def find_Some_iff) (metis nth_mem prod.collapse)

lemma delete_shorter: "(s, r) \<in> set hot \<Longrightarrow> length (AList.delete s hot) < length hot"
  unfolding AList.delete_eq by (rule length_filter_less) auto

function make_room :: "int \<Rightarrow> ustr option \<Rightarrow> (ustr, session_record) odict \<Rightarrow> (ustr, session_record) odict" where
  "make_room max_size owner hot =
     (if int (owner_count owner hot) \<ge> max_size \<or> int (length hot) \<ge> max_size
      then (case oldest_for_owner owner hot of
              None \<Rightarrow> hot
            | Some s \<Rightarrow> make_room max_size owner (AList.delete s hot))
      else hot)"
  by pat_completeness auto
termination
  by (relation "measure (\<lambda>(max_size, owner, hot). length hot)") (auto dest!: oldest_in intro: delete_shorter)

declare make_room.simps [simp del]

definition admit :: "session_config \<Rightarrow> session_record \<Rightarrow> session_state \<Rightarrow> session_state" where
  "admit C r st = st\<lparr>ss_hot := AList.update (sr_id r) r (make_room (sc_max_size C) (sr_owner r) (ss_hot st))\<rparr>"

definition create :: "session_config \<Rightarrow> ustr \<Rightarrow> ustr option \<Rightarrow> rat \<Rightarrow> ustr \<Rightarrow> session_state \<Rightarrow> session_record \<times> session_state" where
  "create C sid owner now stamp st =
     (let r = \<lparr>sr_id = sid, sr_created = stamp, sr_last = now, sr_turns = [], sr_memory = [], sr_owner = owner,
               sr_title = None\<rparr>;
          st1 = admit C r st
      in (r, if sc_persistent C then upsert_session sid owner None stamp stamp st1 else st1))"

definition rehydrate :: "session_config \<Rightarrow> rat \<Rightarrow> ustr \<Rightarrow> session_state \<Rightarrow> session_record option \<times> session_state" where
  "rehydrate C now sid st =
     (case map_of (ss_rows st) sid of
        None \<Rightarrow> (None, st)
      | Some row \<Rightarrow>
          (let loaded = load_turns sid st;
               r = \<lparr>sr_id = sid, sr_created = sw_created row, sr_last = now, sr_turns = fst loaded,
                    sr_memory = snd loaded, sr_owner = sw_owner row, sr_title = sw_title row\<rparr>
           in (Some r, admit C r st)))"

definition get_session :: "session_config \<Rightarrow> rat \<Rightarrow> ustr \<Rightarrow> session_state \<Rightarrow> session_record option \<times> session_state" where
  "get_session C now sid st =
     (if sc_ttl C \<le> 0 then (None, st)
      else (case map_of (ss_hot st) sid of
              Some r \<Rightarrow>
                (if sc_ttl C < now - sr_last r
                 then (let st1 = st\<lparr>ss_hot := AList.delete sid (ss_hot st)\<rparr>
                       in if sc_persistent C then rehydrate C now sid st1 else (None, st1))
                 else (let r' = r\<lparr>sr_last := now\<rparr>
                       in (Some r', st\<lparr>ss_hot := od_touch sid (AList.update sid r' (ss_hot st))\<rparr>)))
            | None \<Rightarrow> if sc_persistent C then rehydrate C now sid st else (None, st)))"

definition delete_everywhere :: "session_config \<Rightarrow> ustr \<Rightarrow> session_state \<Rightarrow> bool \<times> session_state" where
  "delete_everywhere C sid st =
     (let st1 = st\<lparr>ss_hot := AList.delete sid (ss_hot st)\<rparr>
      in (map_of (ss_hot st) sid \<noteq> None \<or> sc_persistent C \<and> map_of (ss_rows st) sid \<noteq> None,
          if sc_persistent C then delete_session sid st1 else st1))"

definition purge_expired :: "session_config \<Rightarrow> ustr \<Rightarrow> session_state \<Rightarrow> nat \<times> session_state" where
  "purge_expired C cutoff st = (if sc_persistent C then purge_sessions_older_than cutoff st else (0, st))"

section \<open>Turns\<close>

text \<open>\<open>add_turn\<close> caps the transcript; the engine appends without it.\<close>

definition append_turn :: "session_turn \<Rightarrow> turn_memory \<Rightarrow> session_record \<Rightarrow> session_record" where
  "append_turn turn memory r =
     r\<lparr>sr_turns := sr_turns r @ [turn], sr_memory := AList.update (tn_id turn) memory (sr_memory r)\<rparr>"

function drop_oldest :: "int \<Rightarrow> session_record \<Rightarrow> session_record" where
  "drop_oldest max_turns r =
     (if max_turns < int (length (sr_turns r)) \<and> sr_turns r \<noteq> []
      then drop_oldest max_turns
             (r\<lparr>sr_turns := tl (sr_turns r), sr_memory := AList.delete (tn_id (hd (sr_turns r))) (sr_memory r)\<rparr>)
      else r)"
  by pat_completeness auto
termination
  by (relation "measure (\<lambda>(max_turns, r). length (sr_turns r))") auto

declare drop_oldest.simps [simp del]

definition add_turn :: "session_config \<Rightarrow> session_turn \<Rightarrow> turn_memory \<Rightarrow> session_record \<Rightarrow> session_record" where
  "add_turn C turn memory r = drop_oldest (sc_max_turns C) (append_turn turn memory r)"

definition find_turn :: "session_record \<Rightarrow> ustr \<Rightarrow> session_turn option" where
  "find_turn r tid = find (\<lambda>t. tn_id t = tid) (sr_turns r)"

text \<open>\<open>rfind\<close> of a space in the truncated text, when it is not at the start.\<close>

definition truncate_at_word_boundary :: "nat \<Rightarrow> ustr \<Rightarrow> ustr" where
  "truncate_at_word_boundary max_length text =
     (if length text \<le> max_length then text
      else (let t = take max_length text
            in rstrip (case find (\<lambda>i. t ! i = 32) (rev [1..<length t]) of None \<Rightarrow> t | Some i \<Rightarrow> take i t)))"

definition sync_turn :: "session_config \<Rightarrow> session_turn \<Rightarrow> ustr \<Rightarrow> session_record \<Rightarrow> session_state \<Rightarrow> session_record \<times> session_state" where
  "sync_turn C turn stamp r st =
     (let r' = (if sr_title r = None \<and> tn_index turn = 1
                then r\<lparr>sr_title := Some (truncate_at_word_boundary (sc_title_length C) (tn_question turn))\<rparr> else r)
      in (r', if sc_persistent C
              then save_turn (sr_id r') turn (map_of (sr_memory r') (tn_id turn))
                     (upsert_session (sr_id r') (sr_owner r') (sr_title r') (sr_created r') stamp st)
              else st))"

definition rename_row :: "session_config \<Rightarrow> ustr \<Rightarrow> session_record \<Rightarrow> session_state \<Rightarrow> session_record \<times> session_state" where
  "rename_row C title r st =
     (r\<lparr>sr_title := Some title\<rparr>, if sc_persistent C then set_title (sr_id r) title st else st)"

definition listed_sessions :: "ustr \<Rightarrow> ustr \<Rightarrow> session_state \<Rightarrow> (ustr \<times> session_row \<times> nat) list" where
  "listed_sessions owner cutoff st =
     map (\<lambda>(s, r). (s, r, length (filter (\<lambda>((s', t), v). s' = s) (ss_turns st))))
       (filter (\<lambda>(s, r). (sw_owner r = Some owner \<or> sw_owner r = None) \<and> cutoff \<le> sw_last_active r) (ss_rows st))"

section \<open>Runs\<close>

text \<open>
  A request holds the object it looked up. While that object is in the hot set its changes are
  changes of the hot set; once it was dropped from there they are only the request's own.
\<close>

definition held_object :: "session_record \<Rightarrow> session_state \<Rightarrow> session_record" where
  "held_object held st = (case map_of (ss_hot st) (sr_id held) of Some r \<Rightarrow> r | None \<Rightarrow> held)"

definition write_back :: "session_record \<Rightarrow> session_state \<Rightarrow> session_state" where
  "write_back r st =
     (if map_of (ss_hot st) (sr_id r) = None then st
      else st\<lparr>ss_hot := AList.update (sr_id r) r (ss_hot st)\<rparr>)"

definition finish_turn ::
    "session_config \<Rightarrow> session_turn \<Rightarrow> turn_memory \<Rightarrow> ustr \<Rightarrow> session_record \<Rightarrow> session_state \<Rightarrow> session_state" where
  "finish_turn C turn memory stamp held st =
     (case sync_turn C turn stamp (append_turn turn memory (held_object held st)) st of
        (r, st') \<Rightarrow> write_back r st')"

definition rename_session :: "session_config \<Rightarrow> ustr \<Rightarrow> session_record \<Rightarrow> session_state \<Rightarrow> session_state" where
  "rename_session C title held st =
     (case rename_row C title (held_object held st) st of (r, st') \<Rightarrow> write_back r st')"

datatype session_event =
    Created ustr "ustr option" rat ustr
  | Looked_up rat ustr
  | Answered session_record session_turn turn_memory ustr
  | Renamed session_record ustr
  | Deleted ustr
  | Cleared
  | Purged ustr

fun apply_event :: "session_config \<Rightarrow> session_event \<Rightarrow> session_state \<Rightarrow> session_state" where
  "apply_event C (Created sid owner now stamp) st = snd (create C sid owner now stamp st)"
| "apply_event C (Looked_up now sid) st = snd (get_session C now sid st)"
| "apply_event C (Answered held turn memory stamp) st = finish_turn C turn memory stamp held st"
| "apply_event C (Renamed held title) st = rename_session C title held st"
| "apply_event C (Deleted sid) st = snd (delete_everywhere C sid st)"
| "apply_event C Cleared st = st\<lparr>ss_hot := []\<rparr>"
| "apply_event C (Purged cutoff) st = snd (purge_expired C cutoff st)"

section \<open>Eviction takes from the asking owner only\<close>

definition of_owner :: "ustr option \<Rightarrow> (ustr, session_record) odict \<Rightarrow> (ustr, session_record) odict" where
  "of_owner owner hot = filter (\<lambda>(s, r). sr_owner r = owner) hot"

lemma filter_update_other:
  "\<not> P (k, v) \<Longrightarrow> \<forall>w. (k, w) \<in> set d \<longrightarrow> \<not> P (k, w) \<Longrightarrow> filter P (AList.update k v d) = filter P d"
  by (induction d) (auto split: prod.splits)

lemma filter_delete_other:
  "\<forall>w. (k, w) \<in> set d \<longrightarrow> \<not> P (k, w) \<Longrightarrow> filter P (AList.delete k d) = filter P d"
  by (induction d) (auto simp: AList.delete_eq split: prod.splits)

lemma od_ok_unique: "od_ok d \<Longrightarrow> (k, v) \<in> set d \<Longrightarrow> (k, w) \<in> set d \<Longrightarrow> v = w"
  unfolding od_ok_def by (metis map_of_is_SomeI option.inject)

lemma make_room_ok: "od_ok hot \<Longrightarrow> od_ok (make_room m owner hot)"
proof (induction m owner hot rule: make_room.induct)
  case (1 m owner hot)
  show ?case
  proof (cases "oldest_for_owner owner hot")
    case None
    then show ?thesis using "1.prems" by (simp add: make_room.simps [of m owner hot])
  next
    case (Some s)
    have "od_ok (AList.delete s hot)" using "1.prems" by (rule odict.ok_del)
    with 1 Some show ?thesis by (simp add: make_room.simps [of m owner hot])
  qed
qed

lemma make_room_subset: "set (make_room m owner hot) \<subseteq> set hot"
proof (induction m owner hot rule: make_room.induct)
  case (1 m owner hot)
  have "set (AList.delete s hot) \<subseteq> set hot" for s by (auto simp: AList.delete_eq)
  with 1 show ?case
    by (simp add: make_room.simps [of m owner hot] split: option.splits) blast
qed

lemma make_room_spares:
  "od_ok hot \<Longrightarrow> e \<noteq> owner \<Longrightarrow> of_owner e (make_room m owner hot) = of_owner e hot"
proof (induction m owner hot rule: make_room.induct)
  case (1 m owner hot)
  show ?case
  proof (cases "oldest_for_owner owner hot")
    case None
    then show ?thesis by (simp add: make_room.simps [of m owner hot])
  next
    case (Some s)
    then obtain r where r: "(s, r) \<in> set hot" "sr_owner r = owner" using oldest_in by blast
    have ok: "od_ok (AList.delete s hot)" using "1.prems"(1) by (rule odict.ok_del)
    have "\<forall>w. (s, w) \<in> set hot \<longrightarrow> sr_owner w \<noteq> e"
      using od_ok_unique [OF "1.prems"(1) r(1)] r(2) "1.prems"(2) by blast
    then have "of_owner e (AList.delete s hot) = of_owner e hot"
      unfolding of_owner_def by (intro filter_delete_other) simp
    with 1 ok Some show ?thesis by (simp add: make_room.simps [of m owner hot])
  qed
qed

text \<open>The loop ends with room for one more, or with nothing of the owner left.\<close>

lemma make_room_done:
  assumes "of_owner owner (make_room m owner hot) \<noteq> []"
  shows "int (length (make_room m owner hot)) < m"
  using assms
proof (induction m owner hot rule: make_room.induct)
  case (1 m owner hot)
  show ?case
  proof (cases "int (owner_count owner hot) \<ge> m \<or> int (length hot) \<ge> m")
    case False
    then show ?thesis by (simp add: make_room.simps [of m owner hot])
  next
    case True
    show ?thesis
    proof (cases "oldest_for_owner owner hot")
      case None
      then have "of_owner owner hot = []"
        by (auto simp: oldest_for_owner_def of_owner_def find_None_iff filter_empty_conv)
      with "1.prems" None True show ?thesis by (simp add: make_room.simps [of m owner hot])
    next
      case (Some s)
      with True have step: "make_room m owner hot = make_room m owner (AList.delete s hot)"
        by (simp add: make_room.simps [of m owner hot])
      show ?thesis using "1.IH" [OF True Some] "1.prems" unfolding step by blast
    qed
  qed
qed


text \<open>Every event of a run has the property in the state it meets.\<close>

fun along_run :: "(session_event \<Rightarrow> session_state \<Rightarrow> bool) \<Rightarrow> session_config \<Rightarrow> session_event list \<Rightarrow> session_state \<Rightarrow> bool" where
  "along_run P C [] st \<longleftrightarrow> True"
| "along_run P C (e # es) st \<longleftrightarrow> P e st \<and> along_run P C es (apply_event C e st)"

lemma along_run_invariant:
  assumes "\<And>e st. I st \<Longrightarrow> P e st \<Longrightarrow> I (apply_event C e st)"
  shows "I st \<Longrightarrow> along_run P C es st \<Longrightarrow> I (fold (apply_event C) es st)"
  using assms by (induction es arbitrary: st) auto

definition fresh_id :: "session_event \<Rightarrow> session_state \<Rightarrow> bool" where
  "fresh_id e st \<longleftrightarrow> (case e of Created sid owner now stamp \<Rightarrow> map_of (ss_hot st) sid = None | _ \<Rightarrow> True)"

definition belongs :: "ustr option \<Rightarrow> ustr \<Rightarrow> session_state \<Rightarrow> bool" where
  "belongs owner sid st \<longleftrightarrow> map_option sr_owner (map_of (ss_hot st) sid) = Some owner
     \<or> map_option sw_owner (map_of (ss_rows st) sid) = Some owner"

fun foreign :: "ustr option \<Rightarrow> session_event \<Rightarrow> session_state \<Rightarrow> bool" where
  "foreign e (Created sid owner now stamp) st \<longleftrightarrow> owner \<noteq> e"
| "foreign e (Looked_up now sid) st \<longleftrightarrow> \<not> belongs e sid st"
| "foreign e (Answered held turn memory stamp) st \<longleftrightarrow> \<not> belongs e (sr_id held) st"
| "foreign e (Renamed held title) st \<longleftrightarrow> \<not> belongs e (sr_id held) st"
| "foreign e (Deleted sid) st \<longleftrightarrow> \<not> belongs e sid st"
| "foreign e Cleared st \<longleftrightarrow> False"
| "foreign e (Purged cutoff) st \<longleftrightarrow> True"

definition hot_ok :: "(ustr, session_record) odict \<Rightarrow> bool" where
  "hot_ok hot \<longleftrightarrow> od_ok hot \<and> (\<forall>(s, r) \<in> set hot. sr_id r = s)"

lemma hot_okD: "hot_ok hot \<Longrightarrow> map_of hot s = Some r \<Longrightarrow> sr_id r = s"
  by (auto simp: hot_ok_def dest: map_of_SomeD)

lemma set_update_subset: "set (AList.update k v d) \<subseteq> insert (k, v) (set d)"
  by (induction d) (auto split: prod.splits)

lemma set_od_touch: "set (od_touch k d) \<subseteq> set d"
  by (auto simp: od_touch_def AList.delete_eq dest: map_of_SomeD split: option.splits)

lemma hot_ok_update: "hot_ok hot \<Longrightarrow> hot_ok (AList.update (sr_id r) r hot)"
  using set_update_subset [of "sr_id r" r hot] by (auto simp: hot_ok_def odict.ok_put)

lemma set_delete_subset: "set (AList.delete k d) \<subseteq> set d"
  by (auto simp: AList.delete_eq)

lemma hot_ok_delete: "hot_ok hot \<Longrightarrow> hot_ok (AList.delete s hot)"
  using set_delete_subset [of s hot] unfolding hot_ok_def by (blast intro: odict.ok_del)

lemma hot_ok_touch: "hot_ok hot \<Longrightarrow> hot_ok (od_touch s hot)"
  using set_od_touch [of s hot] by (auto simp: hot_ok_def odict.ok_touch)

lemma hot_ok_make_room: "hot_ok hot \<Longrightarrow> hot_ok (make_room m owner hot)"
  using make_room_subset [of m owner hot] by (auto simp: hot_ok_def make_room_ok)

lemma not_found_pairs: "map_of d k = None \<Longrightarrow> (k, v) \<notin> set d"
  by (metis weak_map_of_SomeI option.distinct(1))

text \<open>What each event does to the hot set.\<close>

lemma hot_upsert [simp]: "ss_hot (upsert_session sid owner title created active st) = ss_hot st"
  by (simp add: upsert_session_def)

lemma hot_save_turn [simp]: "ss_hot (save_turn sid turn memory st) = ss_hot st"
  by (simp add: save_turn_def)

lemma hot_set_title [simp]: "ss_hot (set_title sid title st) = ss_hot st"
  by (simp add: set_title_def split: option.splits)

lemma hot_delete_session [simp]: "ss_hot (delete_session sid st) = ss_hot st"
  by (simp add: delete_session_def)

lemma hot_purge [simp]: "ss_hot (snd (purge_sessions_older_than cutoff st)) = ss_hot st"
  by (simp add: purge_sessions_older_than_def Let_def)

lemma hot_create:
  "ss_hot (snd (create C sid owner now stamp st)) = AList.update sid (fst (create C sid owner now stamp st))
     (make_room (sc_max_size C) owner (ss_hot st))"
  by (simp add: create_def admit_def Let_def)

lemma create_record:
  "sr_id (fst (create C sid owner now stamp st)) = sid" "sr_owner (fst (create C sid owner now stamp st)) = owner"
  by (simp_all add: create_def Let_def)

lemma sync_turn_record:
  "sr_id (fst (sync_turn C turn stamp r st)) = sr_id r" "sr_owner (fst (sync_turn C turn stamp r st)) = sr_owner r"
  "ss_hot (snd (sync_turn C turn stamp r st)) = ss_hot st"
  by (simp_all add: sync_turn_def Let_def)

lemma append_turn_record [simp]:
  "sr_id (append_turn turn memory r) = sr_id r" "sr_owner (append_turn turn memory r) = sr_owner r"
  by (simp_all add: append_turn_def)

lemma hot_write_back:
  "ss_hot (write_back r st) =
     (if map_of (ss_hot st) (sr_id r) = None then ss_hot st else AList.update (sr_id r) r (ss_hot st))"
  by (simp add: write_back_def)

lemma held_object_id: "hot_ok (ss_hot st) \<Longrightarrow> sr_id (held_object held st) = sr_id held"
  by (auto simp: held_object_def dest: hot_okD split: option.splits)

lemma held_object_hot:
  "map_of (ss_hot st) (sr_id held) \<noteq> None \<Longrightarrow> map_of (ss_hot st) (sr_id held) = Some (held_object held st)"
  by (auto simp: held_object_def)

lemma rehydrate_hot:
  "(map_of (ss_rows st) sid = None \<and> rehydrate C now sid st = (None, st))
   \<or> (\<exists>w r. map_of (ss_rows st) sid = Some w \<and> sr_id r = sid \<and> sr_owner r = sw_owner w
        \<and> rehydrate C now sid st = (Some r, admit C r st))"
proof (cases "map_of (ss_rows st) sid")
  case (Some w)
  then show ?thesis by (simp add: rehydrate_def Let_def)
qed (simp add: rehydrate_def)

lemma hot_admit [simp]:
  "ss_hot (admit C r st) = AList.update (sr_id r) r (make_room (sc_max_size C) (sr_owner r) (ss_hot st))"
  by (simp add: admit_def)

lemma make_room_not_found: "map_of hot s = None \<Longrightarrow> map_of (make_room m owner hot) s = None"
  using make_room_subset [of m owner hot] by (metis map_of_SomeD not_found_pairs option.exhaust subsetD)


text \<open>The four changes an event makes to the hot set, with the owner of the conversation changed.\<close>

inductive hot_step ::
    "int \<Rightarrow> ustr option \<Rightarrow> (ustr, session_record) odict \<Rightarrow> (ustr, session_record) odict \<Rightarrow> bool" for m where
  dropped: "map_of hot s = Some r \<Longrightarrow> hot_step m (sr_owner r) hot (AList.delete s hot)"
| admitted: "map_of hot (sr_id r) = None \<Longrightarrow>
    hot_step m (sr_owner r) hot (AList.update (sr_id r) r (make_room m (sr_owner r) hot))"
| replaced: "map_of hot (sr_id r') = Some r \<Longrightarrow> sr_owner r' = sr_owner r \<Longrightarrow>
    hot_step m (sr_owner r) hot (AList.update (sr_id r') r' hot)"
| touched: "map_of hot s = Some r \<Longrightarrow> hot_step m (sr_owner r) hot (od_touch s hot)"

inductive_cases hot_stepE: "hot_step m owner hot hot'"

definition hot_steps ::
    "int \<Rightarrow> (ustr option \<Rightarrow> bool) \<Rightarrow> (ustr, session_record) odict \<Rightarrow> (ustr, session_record) odict \<Rightarrow> bool" where
  "hot_steps m P = (\<lambda>h h'. \<exists>owner. P owner \<and> hot_step m owner h h')\<^sup>*\<^sup>*"

lemma hot_steps_refl [simp, intro]: "hot_steps m P h h"
  by (simp add: hot_steps_def)

lemma hot_steps_step: "P owner \<Longrightarrow> hot_step m owner h h' \<Longrightarrow> hot_steps m P h' h'' \<Longrightarrow> hot_steps m P h h''"
  unfolding hot_steps_def by (rule converse_rtranclp_into_rtranclp) blast+

lemma hot_steps_one: "P owner \<Longrightarrow> hot_step m owner h h' \<Longrightarrow> hot_steps m P h h'"
  by (rule hot_steps_step) auto

lemma hot_steps_invariant:
  assumes "hot_steps m P h h'" "I h" "\<And>owner g g'. P owner \<Longrightarrow> hot_step m owner g g' \<Longrightarrow> I g \<Longrightarrow> I g'"
  shows "I h'"
  using assms(1,2) unfolding hot_steps_def
  by (induction rule: rtranclp_induct) (use assms(3) in blast)+

lemma hot_step_ok: "hot_step m owner hot hot' \<Longrightarrow> hot_ok hot \<Longrightarrow> hot_ok hot'"
  by (induction rule: hot_step.induct) (auto intro: hot_ok_delete hot_ok_update hot_ok_make_room hot_ok_touch)

lemma write_back_steps:
  assumes "sr_id r = sr_id held" "sr_owner r = sr_owner (held_object held st)" "ss_hot st' = ss_hot st"
    and "\<And>r. map_of (ss_hot st) (sr_id held) = Some r \<Longrightarrow> P (sr_owner r)"
  shows "hot_steps m P (ss_hot st) (ss_hot (write_back r st'))"
proof (cases "map_of (ss_hot st) (sr_id held)")
  case None
  then show ?thesis using assms(1,3) by (simp add: write_back_def)
next
  case (Some r0)
  then have r0: "r0 = held_object held st" using held_object_hot [of st held] by simp
  have "hot_step m (sr_owner r0) (ss_hot st) (AList.update (sr_id r) r (ss_hot st))"
    using assms(1,2) Some r0 by (intro replaced) simp_all
  with assms(3,4) Some show ?thesis by (simp add: hot_write_back) (auto intro: hot_steps_one)
qed

lemma rehydrate_steps:
  assumes "map_of (ss_hot st) sid = None" "\<And>w. map_of (ss_rows st) sid = Some w \<Longrightarrow> P (sw_owner w)"
  shows "hot_steps (sc_max_size C) P (ss_hot st) (ss_hot (snd (rehydrate C now sid st)))"
  using rehydrate_hot [of st sid C now]
proof
  assume "\<exists>w r. map_of (ss_rows st) sid = Some w \<and> sr_id r = sid \<and> sr_owner r = sw_owner w
    \<and> rehydrate C now sid st = (Some r, admit C r st)"
  then obtain w r where r: "map_of (ss_rows st) sid = Some w" "sr_id r = sid" "sr_owner r = sw_owner w"
    "rehydrate C now sid st = (Some r, admit C r st)" by blast
  have "hot_step (sc_max_size C) (sr_owner r) (ss_hot st) (ss_hot (admit C r st))"
    unfolding hot_admit using assms(1) r(2) by (intro admitted) simp
  moreover have "P (sr_owner r)" using assms(2) r by simp
  ultimately show ?thesis using r(4) by (simp del: hot_admit) (rule hot_steps_one)
qed simp

lemma get_session_steps:
  assumes "\<And>r. map_of (ss_hot st) sid = Some r \<Longrightarrow> P (sr_owner r)"
    and "\<And>w. map_of (ss_rows st) sid = Some w \<Longrightarrow> P (sw_owner w)"
    and "hot_ok (ss_hot st)"
  shows "hot_steps (sc_max_size C) P (ss_hot st) (ss_hot (snd (get_session C now sid st)))"
proof (cases "map_of (ss_hot st) sid")
  case None
  then show ?thesis using rehydrate_steps [of st sid P C now] assms(2)
    by (simp add: get_session_def)
next
  case (Some r)
  let ?m = "sc_max_size C"
  have P: "P (sr_owner r)" and id: "sr_id r = sid"
    using assms(1) Some hot_okD [OF assms(3) Some] by auto
  define st1 where "st1 = st\<lparr>ss_hot := AList.delete sid (ss_hot st)\<rparr>"
  have d: "hot_step ?m (sr_owner r) (ss_hot st) (ss_hot st1)"
    using dropped [OF Some] by (simp add: st1_def)
  have "hot_steps ?m P (ss_hot st1) (ss_hot (snd (rehydrate C now sid st1)))"
    using assms(2) by (intro rehydrate_steps) (simp_all add: st1_def delete_conv')
  with d P have expired: "hot_steps ?m P (ss_hot st) (ss_hot (snd (rehydrate C now sid st1)))"
    by (blast intro: hot_steps_step)
  define h where "h = AList.update sid (r\<lparr>sr_last := now\<rparr>) (ss_hot st)"
  have "hot_step ?m (sr_owner r) (ss_hot st) h"
    using replaced [of "ss_hot st" "r\<lparr>sr_last := now\<rparr>" r ?m] Some id by (simp add: h_def)
  moreover have "hot_step ?m (sr_owner (r\<lparr>sr_last := now\<rparr>)) h (od_touch sid h)"
    by (rule touched) (simp add: h_def update_conv')
  ultimately have live: "hot_steps ?m P (ss_hot st) (od_touch sid h)"
    using P by (auto intro: hot_steps_step hot_steps_one)
  show ?thesis
    using Some expired live d P by (auto simp: get_session_def Let_def st1_def h_def intro: hot_steps_one)
qed

lemma finish_turn_steps:
  assumes "hot_ok (ss_hot st)" "\<And>r. map_of (ss_hot st) (sr_id held) = Some r \<Longrightarrow> P (sr_owner r)"
  shows "hot_steps m P (ss_hot st) (ss_hot (finish_turn C turn memory stamp held st))"
  unfolding finish_turn_def prod.case_eq_if
  by (rule write_back_steps [of _ held]) (use assms in \<open>simp_all add: sync_turn_record held_object_id\<close>)

lemma rename_session_steps:
  assumes "hot_ok (ss_hot st)" "\<And>r. map_of (ss_hot st) (sr_id held) = Some r \<Longrightarrow> P (sr_owner r)"
  shows "hot_steps m P (ss_hot st) (ss_hot (rename_session C title held st))"
  unfolding rename_session_def prod.case_eq_if
  by (rule write_back_steps [of _ held]) (use assms in \<open>simp_all add: rename_row_def held_object_id\<close>)

lemma event_steps:
  assumes "hot_ok (ss_hot st)" "fresh_id e st" "e \<noteq> Cleared" "\<And>owner. \<not> P owner \<Longrightarrow> foreign owner e st"
  shows "hot_steps (sc_max_size C) P (ss_hot st) (ss_hot (apply_event C e st))"
proof (cases e)
  case (Created sid owner now stamp)
  then have "P owner" using assms(4) [of owner] by auto
  moreover have "hot_step (sc_max_size C) owner (ss_hot st) (ss_hot (apply_event C e st))"
    using assms(2) Created admitted [of "ss_hot st" "fst (create C sid owner now stamp st)" "sc_max_size C"]
    by (simp add: fresh_id_def hot_create create_record)
  ultimately show ?thesis by (rule hot_steps_one)
next
  case (Looked_up now sid)
  have "P o'" if "belongs o' sid st" for o' using assms(4) [of o'] that Looked_up by auto
  then show ?thesis using get_session_steps [of st sid P C now] assms(1) Looked_up by (simp add: belongs_def)
next
  case (Answered held turn memory stamp)
  have "P o'" if "belongs o' (sr_id held) st" for o' using assms(4) [of o'] that Answered by auto
  then show ?thesis using finish_turn_steps [OF assms(1), of held P] Answered by (simp add: belongs_def)
next
  case (Renamed held title)
  have "P o'" if "belongs o' (sr_id held) st" for o' using assms(4) [of o'] that Renamed by auto
  then show ?thesis using rename_session_steps [OF assms(1), of held P] Renamed by (simp add: belongs_def)
next
  case (Deleted sid)
  have P: "P o'" if "belongs o' sid st" for o' using assms(4) [of o'] that Deleted by auto
  have hot: "ss_hot (apply_event C e st) = AList.delete sid (ss_hot st)"
    using Deleted by (simp add: delete_everywhere_def Let_def)
  show ?thesis
  proof (cases "map_of (ss_hot st) sid")
    case None
    then have "AList.delete sid (ss_hot st) = ss_hot st"
      by (simp add: map_of_eq_None_iff delete_id)
    then show ?thesis by (simp add: hot)
  next
    case (Some r)
    then show ?thesis unfolding hot using P [of "sr_owner r"] by (intro hot_steps_one [OF _ dropped]) (auto simp: belongs_def)
  qed
next
  case (Purged cutoff)
  then show ?thesis by (simp add: purge_expired_def)
qed (use assms(3) in simp)


lemma apply_event_ok: "fresh_id e st \<Longrightarrow> hot_ok (ss_hot st) \<Longrightarrow> hot_ok (ss_hot (apply_event C e st))"
proof (cases "e = Cleared")
  case False
  assume f: "fresh_id e st" and ok: "hot_ok (ss_hot st)"
  have "hot_steps (sc_max_size C) (\<lambda>_. True) (ss_hot st) (ss_hot (apply_event C e st))"
    by (rule event_steps [OF ok f False]) simp
  then show ?thesis by (rule hot_steps_invariant [where I = hot_ok]) (auto intro: ok hot_step_ok)
qed (simp add: hot_ok_def)

lemma of_owner_update:
  "sr_owner r \<noteq> e \<Longrightarrow> \<forall>w. (s, w) \<in> set d \<longrightarrow> sr_owner w \<noteq> e \<Longrightarrow> of_owner e (AList.update s r d) = of_owner e d"
  unfolding of_owner_def by (rule filter_update_other) auto

lemma hot_okD_set: "hot_ok hot \<Longrightarrow> map_of hot s = Some r \<Longrightarrow> (s, w) \<in> set hot \<Longrightarrow> w = r"
  by (auto simp: hot_ok_def dest: map_of_SomeD od_ok_unique)

lemma hot_step_spares:
  assumes "hot_step m owner hot hot'" "hot_ok hot" "owner \<noteq> e"
  shows "of_owner e hot' = of_owner e hot"
  using assms
proof cases
  case (dropped s r)
  then have "\<forall>w. (s, w) \<in> set hot \<longrightarrow> sr_owner w \<noteq> e" using assms hot_okD_set by blast
  then show ?thesis unfolding dropped(2) of_owner_def by (intro filter_delete_other) simp
next
  case (admitted r)
  have "map_of (make_room m owner hot) (sr_id r) = None" using admitted by (simp add: make_room_not_found)
  then have "\<forall>w. (sr_id r, w) \<in> set (make_room m owner hot) \<longrightarrow> sr_owner w \<noteq> e"
    using not_found_pairs by fast
  then have "of_owner e hot' = of_owner e (make_room m owner hot)"
    using admitted assms(3) by (simp add: of_owner_update)
  then show ?thesis using assms(2,3) by (simp add: make_room_spares hot_ok_def)
next
  case (replaced r' r)
  then have "\<forall>w. (sr_id r', w) \<in> set hot \<longrightarrow> sr_owner w \<noteq> e" using assms hot_okD_set by blast
  then show ?thesis using replaced assms(3) by (simp add: of_owner_update)
next
  case (touched s r)
  then have "\<forall>w. (s, w) \<in> set hot \<longrightarrow> sr_owner w \<noteq> e" using assms hot_okD_set by blast
  then have "of_owner e (AList.delete s hot) = of_owner e hot"
    unfolding of_owner_def by (intro filter_delete_other) simp
  with touched assms(3) show ?thesis by (simp add: od_touch_def of_owner_def)
qed

lemma event_spares:
  assumes "hot_ok (ss_hot st)" "fresh_id ev st" "foreign e ev st"
  shows "of_owner e (ss_hot (apply_event C ev st)) = of_owner e (ss_hot st)"
proof -
  have ne: "ev \<noteq> Cleared" using assms(3) by auto
  have "hot_steps (sc_max_size C) (\<lambda>owner. owner \<noteq> e) (ss_hot st) (ss_hot (apply_event C ev st))"
    by (rule event_steps [OF assms(1,2) ne]) (use assms(3) in auto)
  from hot_steps_invariant [OF this, where I = "\<lambda>h. hot_ok h \<and> of_owner e h = of_owner e (ss_hot st)"]
  show ?thesis using assms(1) hot_step_ok hot_step_spares by metis
qed

text \<open>
  Whatever other owners do - create conversations without end, look theirs up, answer, rename,
  delete - an owner's conversations stay in the hot set, in the same order and with the same
  content: nobody's eviction reaches another owner's working set.
\<close>

theorem others_conversations_stay_hot:
  assumes "hot_ok (ss_hot st)" "along_run (\<lambda>ev st. fresh_id ev st \<and> foreign e ev st) C evs st"
  shows "of_owner e (ss_hot (fold (apply_event C) evs st)) = of_owner e (ss_hot st)"
proof -
  have "hot_ok (ss_hot (fold (apply_event C) evs st))
      \<and> of_owner e (ss_hot (fold (apply_event C) evs st)) = of_owner e (ss_hot st)"
    by (rule along_run_invariant [OF _ _ assms(2),
          where I = "\<lambda>st'. hot_ok (ss_hot st') \<and> of_owner e (ss_hot st') = of_owner e (ss_hot st)"])
      (use assms(1) event_spares apply_event_ok in auto)
  then show ?thesis by blast
qed

section \<open>The size of the hot set\<close>

definition hot_owners :: "(ustr, session_record) odict \<Rightarrow> ustr option set" where
  "hot_owners hot = (\<lambda>(s, r). sr_owner r) ` set hot"

definition size_bounded :: "int \<Rightarrow> (ustr, session_record) odict \<Rightarrow> bool" where
  "size_bounded m hot \<longleftrightarrow> length hot \<le> nat m + card (hot_owners hot)"

lemma finite_hot_owners [simp]: "finite (hot_owners hot)"
  by (simp add: hot_owners_def)

lemma set_delete_found:
  assumes "od_ok d" "map_of d k = Some v"
  shows "set (AList.delete k d) = set d - {(k, v)}" "(k, v) \<in> set d"
proof -
  have "w = v" if "(k, w) \<in> set d" for w
    using that od_ok_unique [OF assms(1) map_of_SomeD [OF assms(2)]] by blast
  then show "set (AList.delete k d) = set d - {(k, v)}" by (auto simp: AList.delete_eq)
  show "(k, v) \<in> set d" using assms(2) by (rule map_of_SomeD)
qed

lemma size_bounded_delete:
  assumes "od_ok hot" "map_of hot s = Some r" "size_bounded m hot"
  shows "size_bounded m (AList.delete s hot)"
proof -
  have "length (od_keys (AList.delete s hot)) = length (remove1 s (od_keys hot))"
    using assms(1) by (simp add: odict.keys_del odict.ok_distinct distinct_remove1_removeAll [symmetric] del: length_od_keys)
  moreover have "s \<in> set (od_keys hot)" using assms(1,2) odict.get_None by (metis option.distinct(1))
  ultimately have len: "length (AList.delete s hot) = length hot - 1" by (simp add: length_remove1)
  have "hot_owners hot \<subseteq> insert (sr_owner r) (hot_owners (AList.delete s hot))"
    by (auto simp: hot_owners_def set_delete_found [OF assms(1,2)])
  then have "card (hot_owners hot) \<le> card (insert (sr_owner r) (hot_owners (AList.delete s hot)))"
    by (intro card_mono) simp_all
  also have "\<dots> \<le> Suc (card (hot_owners (AList.delete s hot)))" by (simp add: card_insert_if)
  finally show ?thesis using assms(3) len by (simp add: size_bounded_def)
qed

lemma size_bounded_make_room: "od_ok hot \<Longrightarrow> size_bounded m hot \<Longrightarrow> size_bounded m (make_room m owner hot)"
proof (induction m owner hot rule: make_room.induct)
  case (1 m owner hot)
  show ?case
  proof (cases "oldest_for_owner owner hot")
    case None
    then show ?thesis using "1.prems" by (simp add: make_room.simps [of m owner hot])
  next
    case (Some s)
    then obtain r where "(s, r) \<in> set hot" using oldest_in by blast
    then have "map_of hot s = Some r" using "1.prems"(1) by (simp add: od_ok_def)
    then have "size_bounded m (AList.delete s hot)" using "1.prems" by (intro size_bounded_delete)
    moreover have "od_ok (AList.delete s hot)" using "1.prems"(1) by (rule odict.ok_del)
    ultimately show ?thesis using 1 Some by (simp add: make_room.simps [of m owner hot])
  qed
qed

lemma owners_replaced:
  "map_of d s = Some r \<Longrightarrow> sr_owner r' = sr_owner r \<Longrightarrow>
   map (\<lambda>(s, r). sr_owner r) (AList.update s r' d) = map (\<lambda>(s, r). sr_owner r) d"
  by (induction d) (auto split: if_splits)

lemma hot_step_size:
  assumes "hot_step m owner hot hot'" "hot_ok hot" "size_bounded m hot"
  shows "size_bounded m hot'"
  using assms
proof cases
  case (dropped s r)
  then show ?thesis using assms by (auto simp: hot_ok_def intro: size_bounded_delete)
next
  case (admitted r)
  define h where "h = make_room m owner hot"
  have h: "hot' = h @ [(sr_id r, r)]"
    unfolding h_def using admitted by (simp add: update_new make_room_not_found)
  have b: "size_bounded m h" unfolding h_def using assms by (intro size_bounded_make_room) (simp_all add: hot_ok_def)
  have o: "hot_owners hot' = insert owner (hot_owners h)" using h admitted by (simp add: hot_owners_def)
  show ?thesis
  proof (cases "of_owner owner h = []")
    case True
    then have "owner \<notin> hot_owners h" by (auto simp: of_owner_def hot_owners_def filter_empty_conv)
    with b h o show ?thesis by (simp add: size_bounded_def)
  next
    case False
    then have "int (length h) < m" unfolding h_def by (rule make_room_done)
    with h show ?thesis by (simp add: size_bounded_def)
  qed
next
  case (replaced r' r)
  then have eq: "map (\<lambda>(s, r). sr_owner r) hot' = map (\<lambda>(s, r). sr_owner r) hot" by (simp add: owners_replaced)
  have "length hot' = length hot" using arg_cong [OF eq, of length] by simp
  moreover have "hot_owners hot' = hot_owners hot" using arg_cong [OF eq, of set] by (simp add: hot_owners_def)
  ultimately show ?thesis using assms(3) by (simp add: size_bounded_def)
next
  case (touched s r)
  have "od_ok hot" using assms(2) by (simp add: hot_ok_def)
  moreover have "set (od_touch s hot) = set hot"
    using touched set_delete_found [OF \<open>od_ok hot\<close> touched(3)] by (simp add: od_touch_def insert_absorb)
  ultimately show ?thesis using touched assms(3) by (simp add: size_bounded_def hot_owners_def)
qed

lemma apply_event_size:
  assumes "hot_ok (ss_hot st)" "size_bounded (sc_max_size C) (ss_hot st)" "fresh_id e st"
  shows "size_bounded (sc_max_size C) (ss_hot (apply_event C e st))"
proof (cases "e = Cleared")
  case False
  have "hot_steps (sc_max_size C) (\<lambda>_. True) (ss_hot st) (ss_hot (apply_event C e st))"
    by (rule event_steps [OF assms(1,3) False]) simp
  from hot_steps_invariant [OF this, where I = "\<lambda>h. hot_ok h \<and> size_bounded (sc_max_size C) h"]
  show ?thesis using assms hot_step_ok hot_step_size by metis
qed (simp add: size_bounded_def)

text \<open>
  Sparing the other owners costs at most one conversation for each owner in the hot set: over
  any run from an empty hot set its size is at most the configured maximum plus the number of owners
  that have a conversation there.
\<close>

theorem hot_size_bounded:
  assumes "ss_hot st = []" "along_run fresh_id C evs st"
  shows "length (ss_hot (fold (apply_event C) evs st))
    \<le> nat (sc_max_size C) + card (hot_owners (ss_hot (fold (apply_event C) evs st)))"
proof -
  have "hot_ok (ss_hot (fold (apply_event C) evs st))
      \<and> size_bounded (sc_max_size C) (ss_hot (fold (apply_event C) evs st))"
    by (rule along_run_invariant [OF _ _ assms(2),
          where I = "\<lambda>st'. hot_ok (ss_hot st') \<and> size_bounded (sc_max_size C) (ss_hot st')"])
      (use assms(1) apply_event_size apply_event_ok in \<open>auto simp: hot_ok_def size_bounded_def\<close>)
  then show ?thesis by (simp add: size_bounded_def)
qed


text \<open>A store of at most two hot conversations, and runs on it.\<close>

definition example_sessions :: session_config where
  "example_sessions = \<lparr>sc_ttl = 1800, sc_max_size = 2, sc_max_turns = 50, sc_persistent = True, sc_title_length = 60\<rparr>"

definition no_sessions :: session_state where
  "no_sessions = \<lparr>ss_hot = [], ss_rows = [], ss_turns = []\<rparr>"

lemma make_room_full:
  "m \<le> int (owner_count owner hot) \<or> m \<le> int (length hot) \<Longrightarrow> oldest_for_owner owner hot = Some s \<Longrightarrow>
   make_room m owner hot = make_room m owner (AList.delete s hot)"
  "m \<le> int (length hot) \<Longrightarrow> oldest_for_owner owner hot = None \<Longrightarrow> make_room m owner hot = hot"
  "int (owner_count owner hot) < m \<Longrightarrow> int (length hot) < m \<Longrightarrow> make_room m owner hot = hot"
  by (simp_all add: make_room.simps [of m owner hot])

lemmas session_evaluation = example_sessions_def no_sessions_def create_def admit_def upsert_session_def
  get_session_def rehydrate_def load_turns_def make_room_full owner_count_def oldest_for_owner_def
  fresh_id_def belongs_def Let_def

theorem others_conversations_stay_hot_witness:
  defines "st \<equiv> snd (create example_sessions (u ''s1'') (Some (u ''ann'')) 0 (u ''t'') no_sessions)"
  defines "evs \<equiv> [Created (u ''s2'') (Some (u ''bob'')) 1 (u ''t''), Created (u ''s3'') (Some (u ''bob'')) 2 (u ''t''),
    Looked_up 3 (u ''s2'')]"
  shows "of_owner (Some (u ''ann'')) (ss_hot (fold (apply_event example_sessions) evs st)) = of_owner (Some (u ''ann'')) (ss_hot st)"
  by (rule others_conversations_stay_hot)
    (simp_all add: st_def evs_def session_evaluation hot_ok_def od_ok_def)

theorem hot_size_bounded_witness:
  defines "evs \<equiv> [Created (u ''s1'') (Some (u ''ann'')) 0 (u ''t''), Created (u ''s2'') (Some (u ''ann'')) 0 (u ''t''),
    Created (u ''s3'') (Some (u ''bob'')) 1 (u ''t'')]"
  shows "length (ss_hot (fold (apply_event example_sessions) evs no_sessions)) \<le>
    nat (sc_max_size example_sessions) + card (hot_owners (ss_hot (fold (apply_event example_sessions) evs no_sessions)))"
  by (rule hot_size_bounded) (simp_all add: evs_def session_evaluation)


section \<open>What the database keeps of a conversation\<close>

definition stored_turns :: "ustr \<Rightarrow> session_state \<Rightarrow> ((ustr \<times> ustr) \<times> int \<times> session_turn \<times> turn_memory) list" where
  "stored_turns sid st = filter (\<lambda>((s, t), v). s = sid) (ss_turns st)"

text \<open>The stored turns of a conversation are numbered from one, in order, each under its own id.\<close>

definition numbered :: "((ustr \<times> ustr) \<times> int \<times> session_turn \<times> turn_memory) list \<Rightarrow> bool" where
  "numbered es \<longleftrightarrow> map (\<lambda>e. fst (snd e)) es = map (\<lambda>i. int i + 1) [0..<length es]
     \<and> distinct (map (\<lambda>e. snd (fst e)) es)
     \<and> (\<forall>((s, t), i, turn, m) \<in> set es. tn_id turn = t \<and> tm_turn m = t)"

definition stored_ok :: "session_state \<Rightarrow> bool" where
  "stored_ok st \<longleftrightarrow> od_ok (ss_rows st) \<and> (\<forall>sid. numbered (stored_turns sid st)
     \<and> (map_of (ss_rows st) sid = None \<longrightarrow> stored_turns sid st = []))"

text \<open>A record agrees with the rows kept for it, the rows of its results left out.\<close>

definition mirrored :: "session_record \<Rightarrow> session_state \<Rightarrow> bool" where
  "mirrored r st \<longleftrightarrow>
     (case map_of (ss_rows st) (sr_id r) of
        None \<Rightarrow> False
      | Some w \<Rightarrow> sw_owner w = sr_owner r \<and> sw_title w = sr_title r \<and> sw_created w = sr_created r)
     \<and> load_turns (sr_id r) st = (map omit_rows (sr_turns r), sr_memory r)"

definition valid_event :: "session_event \<Rightarrow> session_state \<Rightarrow> bool" where
  "valid_event e st \<longleftrightarrow>
     (case e of
        Created sid owner now stamp \<Rightarrow> map_of (ss_hot st) sid = None \<and> map_of (ss_rows st) sid = None
      | Answered held turn memory stamp \<Rightarrow>
          (map_of (ss_hot st) (sr_id held) \<noteq> None \<or> mirrored held st)
          \<and> tn_index turn = int (length (sr_turns (held_object held st))) + 1
          \<and> tn_id turn \<notin> tn_id ` set (sr_turns (held_object held st))
          \<and> tm_turn memory = tn_id turn
      | Renamed held title \<Rightarrow> map_of (ss_hot st) (sr_id held) \<noteq> None \<or> mirrored held st
      | Purged cutoff \<Rightarrow> ss_hot st = []
      | _ \<Rightarrow> True)"

inductive session_reach :: "session_config \<Rightarrow> session_state \<Rightarrow> bool" for C where
  started: "session_reach C no_sessions"
| stepped: "session_reach C st \<Longrightarrow> valid_event e st \<Longrightarrow> session_reach C (apply_event C e st)"

lemma numbered_Nil [simp]: "numbered []"
  by (simp add: numbered_def)

lemma numbered_snoc:
  "numbered es \<Longrightarrow> i = int (length es) + 1 \<Longrightarrow> tn_id turn = t \<Longrightarrow> tm_turn m = t \<Longrightarrow>
   t \<notin> (\<lambda>e. snd (fst e)) ` set es \<Longrightarrow> numbered (es @ [((s, t), i, turn, m)])"
  by (auto simp: numbered_def)

lemma fold_update_new:
  "distinct (map key es) \<Longrightarrow> key ` set es \<inter> fst ` set acc = {} \<Longrightarrow>
   fold (\<lambda>e. AList.update (key e) (val e)) es acc = acc @ map (\<lambda>e. (key e, val e)) es"
proof (induction es arbitrary: acc)
  case (Cons e es)
  have "map_of acc (key e) = None" using Cons.prems(2) by (auto simp: map_of_eq_None_iff)
  then have eq: "AList.update (key e) (val e) acc = acc @ [(key e, val e)]" by (rule update_new)
  have "fold (\<lambda>e. AList.update (key e) (val e)) es (acc @ [(key e, val e)])
      = (acc @ [(key e, val e)]) @ map (\<lambda>e. (key e, val e)) es"
    using Cons.prems by (intro Cons.IH) auto
  then show ?case by (simp add: eq)
qed simp

lemma load_turns_numbered:
  assumes "numbered (stored_turns sid st)"
  shows "load_turns sid st = (map (\<lambda>e. omit_rows (fst (snd (snd e)))) (stored_turns sid st),
    map (\<lambda>e. (snd (fst e), snd (snd (snd e)))) (stored_turns sid st))"
proof -
  define es where "es = stored_turns sid st"
  have n: "numbered es" using assms by (simp add: es_def)
  have "sorted (map (\<lambda>e. fst (snd e)) es)"
    using n by (simp add: numbered_def sorted_iff_nth_mono)
  then have srt: "sort_key (\<lambda>e. fst (snd e)) es = es" by (rule sort_key_id_if_sorted)
  have ids: "tn_id (fst (snd (snd e))) = snd (fst e)" if "e \<in> set es" for e
    using n that by (cases e) (fastforce simp: numbered_def)
  have "fold (\<lambda>e. AList.update (tn_id (fst (snd (snd e)))) (snd (snd (snd e)))) es []
      = fold (\<lambda>e. AList.update (snd (fst e)) (snd (snd (snd e)))) es []"
    by (rule fold_cong) (simp_all add: ids)
  also have "\<dots> = map (\<lambda>e. (snd (fst e), snd (snd (snd e)))) es"
    using n by (subst fold_update_new) (simp_all add: numbered_def)
  finally show ?thesis
    using srt unfolding load_turns_def Let_def es_def stored_turns_def by simp
qed

lemma omit_strip [simp]: "omit_rows (strip_rows t) = omit_rows t"
  by (simp add: omit_rows_def strip_rows_def split: option.splits)

lemma omit_omit [simp]: "omit_rows (omit_rows t) = omit_rows t"
  by (simp add: omit_rows_def split: option.splits)

lemma omit_rows_id [simp]: "tn_id (omit_rows t) = tn_id t"
  by (simp add: omit_rows_def split: option.splits)

lemma strip_rows_id [simp]: "tn_id (strip_rows t) = tn_id t"
  by (simp add: strip_rows_def)


lemma load_turns_cong: "stored_turns sid st' = stored_turns sid st \<Longrightarrow> load_turns sid st' = load_turns sid st"
  by (simp add: load_turns_def stored_turns_def)

lemma mirrored_cong:
  "map_of (ss_rows st') (sr_id r) = map_of (ss_rows st) (sr_id r) \<Longrightarrow>
   stored_turns (sr_id r) st' = stored_turns (sr_id r) st \<Longrightarrow> mirrored r st' \<longleftrightarrow> mirrored r st"
  by (simp add: mirrored_def load_turns_cong [of "sr_id r" st' st])

definition session_inv :: "session_state \<Rightarrow> bool" where
  "session_inv st \<longleftrightarrow> stored_ok st \<and> hot_ok (ss_hot st) \<and> (\<forall>(s, r) \<in> set (ss_hot st). mirrored r st)"

lemma session_invI:
  "stored_ok st \<Longrightarrow> hot_ok (ss_hot st) \<Longrightarrow> (\<And>s r. (s, r) \<in> set (ss_hot st) \<Longrightarrow> mirrored r st) \<Longrightarrow> session_inv st"
  unfolding session_inv_def by blast

lemma session_invD:
  assumes "session_inv st"
  shows "stored_ok st" "hot_ok (ss_hot st)" "(s, r) \<in> set (ss_hot st) \<Longrightarrow> mirrored r st \<and> sr_id r = s"
  using assms unfolding session_inv_def hot_ok_def by blast+

lemma stored_okD:
  "stored_ok st \<Longrightarrow> numbered (stored_turns sid st)"
  "stored_ok st \<Longrightarrow> map_of (ss_rows st) sid = None \<Longrightarrow> stored_turns sid st = []"
  by (auto simp: stored_ok_def)

text \<open>Changing the hot set alone.\<close>

lemma stored_turns_hot [simp]: "stored_turns sid (st\<lparr>ss_hot := h\<rparr>) = stored_turns sid st"
  by (simp add: stored_turns_def)

lemma stored_ok_hot [simp]: "stored_ok (st\<lparr>ss_hot := h\<rparr>) = stored_ok st"
  by (simp add: stored_ok_def)

lemma mirrored_hot [simp]: "mirrored r (st\<lparr>ss_hot := h\<rparr>) = mirrored r st"
  by (rule mirrored_cong) simp_all

lemma mirrored_last [simp]: "mirrored (r\<lparr>sr_last := now\<rparr>) st = mirrored r st"
  by (simp add: mirrored_def cong: option.case_cong)

lemma session_inv_hot:
  "session_inv st \<Longrightarrow> hot_ok h \<Longrightarrow> (\<And>s r. (s, r) \<in> set h \<Longrightarrow> (s, r) \<in> set (ss_hot st) \<or> mirrored r st) \<Longrightarrow>
   session_inv (st\<lparr>ss_hot := h\<rparr>)"
  by (rule session_invI) (simp_all, (blast dest: session_invD)+)

lemma session_inv_put:
  assumes "session_inv st" "mirrored r st"
  shows "session_inv (st\<lparr>ss_hot := AList.update (sr_id r) r (ss_hot st)\<rparr>)"
  by (rule session_inv_hot [OF assms(1)])
    (use set_update_subset [of "sr_id r" r "ss_hot st"] assms session_invD(2) in \<open>auto intro: hot_ok_update\<close>)

lemma session_inv_admit:
  assumes "session_inv st" "mirrored r st"
  shows "session_inv (admit C r st)"
proof -
  let ?h = "make_room (sc_max_size C) (sr_owner r) (ss_hot st)"
  have "set (AList.update (sr_id r) r ?h) \<subseteq> insert (sr_id r, r) (set (ss_hot st))"
    using set_update_subset make_room_subset by fastforce
  then show ?thesis unfolding admit_def
    by (intro session_inv_hot [OF assms(1)] hot_ok_update hot_ok_make_room session_invD(2) [OF assms(1)])
      (use assms(2) in auto)
qed

lemma rehydrated_mirrored:
  assumes "stored_ok st" "map_of (ss_rows st) sid = Some w"
  shows "mirrored \<lparr>sr_id = sid, sr_created = sw_created w, sr_last = now, sr_turns = fst (load_turns sid st),
    sr_memory = snd (load_turns sid st), sr_owner = sw_owner w, sr_title = sw_title w\<rparr> st"
  using assms(2) load_turns_numbered [OF stored_okD(1) [OF assms(1)], of sid]
  by (simp add: mirrored_def)

lemma session_inv_rehydrate:
  assumes "session_inv st"
  shows "session_inv (snd (rehydrate C now sid st))"
proof (cases "map_of (ss_rows st) sid")
  case (Some w)
  show ?thesis
    using session_inv_admit [OF assms rehydrated_mirrored [OF session_invD(1) [OF assms] Some]] Some
    by (simp add: rehydrate_def Let_def)
qed (simp add: rehydrate_def assms)

lemma session_inv_get:
  assumes "session_inv st"
  shows "session_inv (snd (get_session C now sid st))"
proof (cases "map_of (ss_hot st) sid")
  case None
  then show ?thesis using assms session_inv_rehydrate by (simp add: get_session_def)
next
  case (Some r)
  have r: "mirrored r st" "sr_id r = sid" using session_invD(3) [OF assms map_of_SomeD [OF Some]] by auto
  have d: "session_inv (st\<lparr>ss_hot := AList.delete sid (ss_hot st)\<rparr>)"
    using set_delete_subset by (intro session_inv_hot [OF assms] hot_ok_delete session_invD(2) [OF assms]) fast
  have p: "session_inv (st\<lparr>ss_hot := AList.update sid (r\<lparr>sr_last := now\<rparr>) (ss_hot st)\<rparr>)"
    using session_inv_put [OF assms, of "r\<lparr>sr_last := now\<rparr>"] r by simp
  have t: "session_inv (st\<lparr>ss_hot := od_touch sid (AList.update sid (r\<lparr>sr_last := now\<rparr>) (ss_hot st))\<rparr>)"
    using session_inv_hot [OF p hot_ok_touch [OF session_invD(2) [OF p]], of sid] set_od_touch by fastforce
  show ?thesis
    using Some d t session_inv_rehydrate [OF d] assms by (simp add: get_session_def Let_def)
qed

text \<open>Saving a turn, renaming, deleting and purging.\<close>

lemma mirrored_row:
  assumes "mirrored r st"
  obtains w where "map_of (ss_rows st) (sr_id r) = Some w" "sw_owner w = sr_owner r" "sw_title w = sr_title r"
    "sw_created w = sr_created r"
  using assms by (auto simp: mirrored_def split: option.splits)

lemma mirrored_stored:
  assumes "stored_ok st" "mirrored r st"
  shows "map omit_rows (sr_turns r) = map (\<lambda>e. omit_rows (fst (snd (snd e)))) (stored_turns (sr_id r) st)"
    and "sr_memory r = map (\<lambda>e. (snd (fst e), snd (snd (snd e)))) (stored_turns (sr_id r) st)"
  using assms(2) load_turns_numbered [OF stored_okD(1) [OF assms(1)], of "sr_id r"] by (simp_all add: mirrored_def)

lemma mirrored_ids:
  assumes "stored_ok st" "mirrored r st"
  shows "map tn_id (sr_turns r) = map (\<lambda>e. snd (fst e)) (stored_turns (sr_id r) st)"
    and "length (stored_turns (sr_id r) st) = length (sr_turns r)"
proof -
  let ?es = "stored_turns (sr_id r) st"
  have eq: "map omit_rows (sr_turns r) = map (\<lambda>e. omit_rows (fst (snd (snd e)))) ?es"
    by (rule mirrored_stored [OF assms])
  have ids: "tn_id (fst (snd (snd e))) = snd (fst e)" if "e \<in> set ?es" for e
    using stored_okD(1) [OF assms(1), of "sr_id r"] that by (cases e) (fastforce simp: numbered_def)
  have "map tn_id (sr_turns r) = map tn_id (map omit_rows (sr_turns r))" by simp
  also have "\<dots> = map (\<lambda>e. snd (fst e)) ?es" unfolding eq by (simp add: ids)
  finally show "map tn_id (sr_turns r) = map (\<lambda>e. snd (fst e)) ?es" .
  show "length ?es = length (sr_turns r)" using arg_cong [OF eq, of length] by simp
qed

lemma stored_turns_save:
  assumes "tn_id turn \<notin> (\<lambda>e. snd (fst e)) ` set (stored_turns sid st)"
  shows "stored_turns s (save_turn sid turn memory st) =
    (if s = sid then stored_turns sid st @ [((sid, tn_id turn), tn_index turn, strip_rows turn,
        (case memory of None \<Rightarrow> empty_memory (tn_id turn) | Some m \<Rightarrow> m\<lparr>tm_turn := tn_id turn\<rparr>))]
     else stored_turns s st)"
proof -
  have "map_of (ss_turns st) (sid, tn_id turn) = None"
    using assms by (force simp: map_of_eq_None_iff stored_turns_def)
  then show ?thesis by (simp add: save_turn_def stored_turns_def update_new)
qed

lemma stored_turns_upsert [simp]: "stored_turns s (upsert_session sid owner title created active st) = stored_turns s st"
  by (simp add: upsert_session_def stored_turns_def)

lemma rows_save [simp]: "ss_rows (save_turn sid turn memory st) = ss_rows st"
  by (simp add: save_turn_def)

text \<open>Changing one conversation's rows keeps the others' mirror.\<close>

lemma session_inv_other_rows:
  assumes "session_inv st" "stored_ok st'" "ss_hot st' = ss_hot st"
    and "\<And>s. s \<noteq> sid \<Longrightarrow> map_of (ss_rows st') s = map_of (ss_rows st) s \<and> stored_turns s st' = stored_turns s st"
    and "mirrored r st'" "sr_id r = sid"
  shows "session_inv (write_back r st')"
proof -
  have others: "mirrored q st'" if "(s, q) \<in> set (ss_hot st)" "s \<noteq> sid" for s q
    using session_invD(3) [OF assms(1) that(1)] assms(4) [OF that(2)] by (auto simp: mirrored_cong [of st' q st])
  show ?thesis
  proof (cases "map_of (ss_hot st) sid = None")
    case True
    then have "session_inv st'"
      using assms(2,3) others not_found_pairs [OF True] session_invD(2) [OF assms(1)]
      by (intro session_invI) (simp, simp, metis)
    then show ?thesis using True assms(3,6) by (simp add: write_back_def)
  next
    case False
    have ok: "hot_ok (AList.update sid r (ss_hot st))"
      using hot_ok_update [OF session_invD(2) [OF assms(1)], of r] assms(6) by simp
    have "mirrored q st'" if m: "(s, q) \<in> set (AList.update sid r (ss_hot st))" for s q
    proof (cases "s = sid")
      case True
      have "map_of (AList.update sid r (ss_hot st)) s = Some q" using m ok by (simp add: hot_ok_def od_ok_def)
      then show ?thesis using True assms(5) by (simp add: update_conv')
    next
      case False
      then show ?thesis using m set_update_subset [of sid r "ss_hot st"] others by blast
    qed
    with ok have "session_inv (st'\<lparr>ss_hot := AList.update sid r (ss_hot st)\<rparr>)"
      using assms(2) by (intro session_invI) simp_all
    then show ?thesis using False assms(3,6) by (auto simp: write_back_def)
  qed
qed

lemma held_mirrored:
  assumes "session_inv st" "map_of (ss_hot st) (sr_id held) \<noteq> None \<or> mirrored held st"
  shows "mirrored (held_object held st) st" "sr_id (held_object held st) = sr_id held"
proof -
  show "sr_id (held_object held st) = sr_id held"
    using assms(1) by (simp add: held_object_id session_invD)
  show "mirrored (held_object held st) st"
  proof (cases "map_of (ss_hot st) (sr_id held) = None")
    case False
    then show ?thesis using held_object_hot session_invD(3) [OF assms(1)] map_of_SomeD by metis
  qed (use assms in \<open>simp add: held_object_def\<close>)
qed

lemma sync_turn_state:
  assumes "sc_persistent C" "map_of (sr_memory r) (tn_id turn) = Some m"
  obtains title where "sync_turn C turn stamp r st = (r\<lparr>sr_title := title\<rparr>,
    save_turn (sr_id r) turn (Some m) (upsert_session (sr_id r) (sr_owner r) title (sr_created r) stamp st))"
proof -
  let ?t = "if sr_title r = None \<and> tn_index turn = 1
    then Some (truncate_at_word_boundary (sc_title_length C) (tn_question turn)) else sr_title r"
  have "sync_turn C turn stamp r st = (r\<lparr>sr_title := ?t\<rparr>,
    save_turn (sr_id r) turn (Some m) (upsert_session (sr_id r) (sr_owner r) ?t (sr_created r) stamp st))"
    using assms by (simp add: sync_turn_def Let_def)
  then show ?thesis by (rule that)
qed

lemma session_inv_save:
  assumes st: "session_inv st" and r: "mirrored r st" and C: "sc_persistent C"
    and turn: "tn_index turn = int (length (sr_turns r)) + 1" "tn_id turn \<notin> tn_id ` set (sr_turns r)"
      "tm_turn memory = tn_id turn"
    and sync: "sync_turn C turn stamp (append_turn turn memory r) st = (r', st')"
  shows "session_inv (write_back r' st') \<and> mirrored r' st'"
proof -
  let ?s = "sr_id r" and ?t = "tn_id turn"
  note ok = session_invD(1) [OF st]
  have new: "?t \<notin> (\<lambda>e. snd (fst e)) ` set (stored_turns ?s st)"
    using turn(2) arg_cong [OF mirrored_ids(1) [OF ok r], of set] by simp
  have "map_of (sr_memory (append_turn turn memory r)) ?t = Some memory" by (simp add: append_turn_def update_conv')
  then obtain title where sync': "(r', st') = ((append_turn turn memory r)\<lparr>sr_title := title\<rparr>,
      save_turn ?s turn (Some memory) (upsert_session ?s (sr_owner r) title (sr_created r) stamp st))"
    using sync_turn_state [OF C, of "append_turn turn memory r" turn memory stamp st] sync
    by (auto simp: append_turn_def)
  then have req: "r' = (append_turn turn memory r)\<lparr>sr_title := title\<rparr>" by simp
  have keep: "memory\<lparr>tm_turn := ?t\<rparr> = memory" using turn(3) by simp
  have stored: "stored_turns s st' = (if s = ?s then stored_turns ?s st @ [((?s, ?t), tn_index turn, strip_rows turn, memory)]
      else stored_turns s st)" for s
    using sync' new by (simp add: stored_turns_save keep)
  obtain w where w: "map_of (ss_rows st) ?s = Some w" "sw_created w = sr_created r" using mirrored_row [OF r] by metis
  have rows: "ss_rows st' = AList.update ?s (w\<lparr>sw_owner := sr_owner r, sw_title := title, sw_last_active := stamp\<rparr>) (ss_rows st)"
    using sync' w by (simp add: upsert_session_def)
  have num: "numbered (stored_turns ?s st')"
    unfolding stored using stored_okD(1) [OF ok, of ?s] new turn(1,3) mirrored_ids(2) [OF ok r]
    by (simp add: numbered_snoc)
  have ok': "stored_ok st'"
    using ok num by (auto simp: stored_ok_def rows odict.ok_put update_conv' stored)
  have mem: "map_of (sr_memory r) ?t = None"
    using new by (simp add: mirrored_stored(2) [OF ok r] map_of_eq_None_iff image_image)
  have r': "mirrored r' st'"
    using w(2) load_turns_numbered [OF num] mirrored_stored [OF ok r] mem
    by (simp add: req mirrored_def rows update_conv' stored append_turn_def update_new)
  have "session_inv (write_back r' st')"
  proof (rule session_inv_other_rows [OF st ok' _ _ r', of ?s])
    show "ss_hot st' = ss_hot st" using sync' by simp
    show "map_of (ss_rows st') s = map_of (ss_rows st) s \<and> stored_turns s st' = stored_turns s st" if "s \<noteq> ?s" for s
      using that by (simp add: rows update_conv' stored)
    show "sr_id r' = ?s" using sync' by (simp add: append_turn_def)
  qed
  with r' show ?thesis by blast
qed

lemma session_inv_rename:
  assumes st: "session_inv st" and r: "mirrored r st" and C: "sc_persistent C"
  shows "session_inv (write_back (fst (rename_row C title r st)) (snd (rename_row C title r st)))"
proof -
  let ?s = "sr_id r"
  define st' where "st' = snd (rename_row C title r st)"
  obtain w where w: "map_of (ss_rows st) ?s = Some w" "sw_owner w = sr_owner r" "sw_created w = sr_created r"
    using mirrored_row [OF r] by metis
  have st': "st' = st\<lparr>ss_rows := AList.update ?s (w\<lparr>sw_title := Some title\<rparr>) (ss_rows st)\<rparr>"
    using C w by (simp add: st'_def rename_row_def set_title_def)
  have stored: "stored_turns s st' = stored_turns s st" for s by (simp add: st' stored_turns_def)
  have rows: "ss_rows st' = AList.update ?s (w\<lparr>sw_title := Some title\<rparr>) (ss_rows st)" by (simp add: st')
  have ok': "stored_ok st'"
    using session_invD(1) [OF st] by (auto simp: stored_ok_def stored rows odict.ok_put update_conv')
  have "mirrored (r\<lparr>sr_title := Some title\<rparr>) st'"
    using r w load_turns_cong [OF stored, of ?s] by (simp add: mirrored_def st' update_conv')
  then show ?thesis
    unfolding st'_def [symmetric] using stored ok' rows
    by (intro session_inv_other_rows [OF st, of _ ?s]) (simp_all add: rename_row_def update_conv' st'_def [unfolded rename_row_def])
qed

lemma session_inv_create:
  assumes st: "session_inv st" and C: "sc_persistent C"
    and fresh: "map_of (ss_hot st) sid = None" "map_of (ss_rows st) sid = None"
  shows "session_inv (snd (create C sid owner now stamp st))"
proof -
  define r where "r = fst (create C sid owner now stamp st)"
  have rf: "sr_id r = sid" "sr_owner r = owner" "sr_title r = None" "sr_created r = stamp" "sr_turns r = []" "sr_memory r = []"
    by (simp_all add: r_def create_def Let_def)
  define st1 where "st1 = upsert_session sid owner None stamp stamp st"
  have rows: "ss_rows st1 = AList.update sid \<lparr>sw_owner = owner, sw_title = None, sw_created = stamp, sw_last_active = stamp\<rparr> (ss_rows st)"
    using fresh(2) by (simp add: st1_def upsert_session_def)
  have stored: "stored_turns s st1 = stored_turns s st" for s by (simp add: st1_def)
  have hot: "ss_hot st1 = ss_hot st" by (simp add: st1_def)
  have eq: "snd (create C sid owner now stamp st) = admit C r st1"
    using C by (simp add: create_def r_def st1_def admit_def Let_def upsert_session_def)
  have "stored_ok st1"
    using session_invD(1) [OF st] by (auto simp: stored_ok_def rows stored odict.ok_put update_conv')
  moreover have "mirrored q st1" if "(s, q) \<in> set (ss_hot st)" for s q
  proof -
    have "s \<noteq> sid" using that fresh(1) not_found_pairs by metis
    with session_invD(3) [OF st that] show ?thesis
      by (auto simp: mirrored_cong [of st1 q st] rows update_conv' stored)
  qed
  ultimately have "session_inv st1" using session_invD(2) [OF st] hot by (intro session_invI) simp_all
  moreover have "mirrored r st1"
    using load_turns_numbered [of sid st1] stored_okD(2) [OF session_invD(1) [OF st] fresh(2)]
    by (simp add: mirrored_def rf rows update_conv' stored)
  ultimately show ?thesis unfolding eq by (rule session_inv_admit)
qed

text \<open>Dropping the rows of some conversations.\<close>

lemma map_of_drop_keys: "map_of (filter (\<lambda>(s, r). s \<notin> S) d) s = (if s \<in> S then None else map_of d s)"
  by (induction d) auto

lemma session_inv_drop:
  assumes "session_inv st" "ss_rows st' = filter (\<lambda>(s, r). s \<notin> S) (ss_rows st)"
    "ss_turns st' = filter (\<lambda>((s, t), v). s \<notin> S) (ss_turns st)"
    "hot_ok (ss_hot st')" "\<And>s r. (s, r) \<in> set (ss_hot st') \<Longrightarrow> (s, r) \<in> set (ss_hot st) \<and> s \<notin> S"
  shows "session_inv st'"
proof -
  have stored: "stored_turns s st' = (if s \<in> S then [] else stored_turns s st)" for s
    unfolding stored_turns_def assms(3) filter_filter by (auto simp: filter_empty_conv intro: filter_cong)
  have rows: "map_of (ss_rows st') s = (if s \<in> S then None else map_of (ss_rows st) s)" for s
    unfolding assms(2) by (rule map_of_drop_keys)
  have "od_ok (ss_rows st')"
    using session_invD(1) [OF assms(1)] unfolding assms(2) stored_ok_def od_ok_def by (blast intro: distinct_map_filter)
  then have "stored_ok st'"
    using session_invD(1) [OF assms(1)] by (auto simp: stored_ok_def rows stored)
  moreover have "mirrored r st'" if "(s, r) \<in> set (ss_hot st')" for s r
    using assms(5) [OF that] session_invD(3) [OF assms(1), of s r] by (auto simp: mirrored_cong [of st' r st] rows stored)
  ultimately show ?thesis using assms(4) by (intro session_invI)
qed

lemma session_inv_delete:
  assumes "session_inv st" "sc_persistent C"
  shows "session_inv (snd (delete_everywhere C sid st))"
proof (rule session_inv_drop [OF assms(1), where S = "{sid}"])
  show "ss_rows (snd (delete_everywhere C sid st)) = filter (\<lambda>(s, r). s \<notin> {sid}) (ss_rows st)"
    using assms(2) by (auto simp: delete_everywhere_def delete_session_def AList.delete_eq Let_def intro: filter_cong)
qed (use assms hot_ok_delete session_invD(2) in
    \<open>auto simp: delete_everywhere_def delete_session_def AList.delete_eq Let_def hot_ok_def intro: odict.ok_del [unfolded AList.delete_eq]\<close>)

lemma session_inv_purge:
  assumes "session_inv st" "ss_hot st = []"
  shows "session_inv (snd (purge_expired C cutoff st))"
proof (cases "sc_persistent C")
  case True
  show ?thesis
    by (rule session_inv_drop [OF assms(1),
          where S = "set (map fst (filter (\<lambda>(s, r). sw_last_active r < cutoff) (ss_rows st)))"])
      (use True assms(2) in \<open>simp_all add: purge_expired_def purge_sessions_older_than_def Let_def hot_ok_def\<close>)
qed (simp add: purge_expired_def assms(1))

lemma apply_event_inv:
  assumes "session_inv st" "valid_event e st" "sc_persistent C"
  shows "session_inv (apply_event C e st)"
proof (cases e)
  case (Created sid owner now stamp)
  then show ?thesis using assms session_inv_create by (simp add: valid_event_def)
next
  case (Looked_up now sid)
  then show ?thesis using assms session_inv_get by simp
next
  case (Answered held turn memory stamp)
  obtain r' st' where s: "sync_turn C turn stamp (append_turn turn memory (held_object held st)) st = (r', st')" by fastforce
  have v: "map_of (ss_hot st) (sr_id held) \<noteq> None \<or> mirrored held st"
    "tn_index turn = int (length (sr_turns (held_object held st))) + 1"
    "tn_id turn \<notin> tn_id ` set (sr_turns (held_object held st))" "tm_turn memory = tn_id turn"
    using assms(2) Answered by (simp_all add: valid_event_def)
  have "session_inv (write_back r' st')"
    using session_inv_save [OF assms(1) held_mirrored(1) [OF assms(1) v(1)] assms(3) v(2-4) s] by blast
  then show ?thesis using Answered s by (simp add: finish_turn_def)
next
  case (Renamed held title)
  then have "map_of (ss_hot st) (sr_id held) \<noteq> None \<or> mirrored held st" using assms(2) by (simp add: valid_event_def)
  from session_inv_rename [OF assms(1) held_mirrored(1) [OF assms(1) this] assms(3), of title]
  show ?thesis using Renamed by (simp add: rename_session_def prod.case_eq_if)
next
  case (Deleted sid)
  then show ?thesis using assms session_inv_delete by simp
next
  case Cleared
  then show ?thesis using session_inv_hot [OF assms(1), of "[]"] by (simp add: hot_ok_def)
next
  case (Purged cutoff)
  then show ?thesis using assms session_inv_purge by (simp add: valid_event_def)
qed

lemma session_reach_inv: "session_reach C st \<Longrightarrow> sc_persistent C \<Longrightarrow> session_inv st"
proof (induction rule: session_reach.induct)
  case started
  show ?case by (auto simp: session_inv_def stored_ok_def no_sessions_def hot_ok_def stored_turns_def)
next
  case (stepped st e)
  then show ?case by (intro apply_event_inv)
qed

lemma rehydrate_mirrored:
  assumes "mirrored r st"
  shows "fst (rehydrate C now (sr_id r) st) = Some (r\<lparr>sr_last := now, sr_turns := map omit_rows (sr_turns r)\<rparr>)"
proof -
  obtain w where "map_of (ss_rows st) (sr_id r) = Some w" "sw_owner w = sr_owner r" "sw_title w = sr_title r"
    "sw_created w = sr_created r" using mirrored_row [OF assms] .
  then show ?thesis using assms by (simp add: rehydrate_def Let_def mirrored_def)
qed


text \<open>
  A conversation deleted while one of its questions is being answered comes back: finishing the
  turn writes the conversation's row again, and the next lookup returns it with that turn alone.
\<close>

theorem deleted_conversation_comes_back:
  assumes "sc_persistent C" "0 < sc_ttl C"
  shows "\<exists>r. fst (get_session C now (sr_id held)
      (finish_turn C turn memory stamp held (snd (delete_everywhere C (sr_id held) st)))) = Some r
    \<and> sr_owner r = sr_owner held \<and> sr_turns r = [omit_rows turn]"
proof -
  let ?s = "sr_id held"
  define st1 where "st1 = snd (delete_everywhere C ?s st)"
  have hot: "map_of (ss_hot st1) ?s = None" and gone: "map_of (ss_rows st1) ?s = None" "stored_turns ?s st1 = []"
    using assms(1) by (auto simp: st1_def delete_everywhere_def delete_session_def Let_def delete_conv' stored_turns_def filter_empty_conv)
  obtain title where sync: "sync_turn C turn stamp (append_turn turn memory held) st1
      = ((append_turn turn memory held)\<lparr>sr_title := title\<rparr>,
         save_turn ?s turn (Some memory) (upsert_session ?s (sr_owner held) title (sr_created held) stamp st1))"
    using sync_turn_state [OF assms(1), of "append_turn turn memory held" turn memory stamp st1]
    by (auto simp: append_turn_def update_conv')
  define st2 where "st2 = save_turn ?s turn (Some memory) (upsert_session ?s (sr_owner held) title (sr_created held) stamp st1)"
  have fin: "finish_turn C turn memory stamp held st1 = st2"
    using hot sync by (simp add: finish_turn_def held_object_def write_back_def st2_def)
  have "load_turns ?s st2 = ([omit_rows turn], [(tn_id turn, memory\<lparr>tm_turn := tn_id turn\<rparr>)])"
    using stored_turns_save [of turn ?s "upsert_session ?s (sr_owner held) title (sr_created held) stamp st1" ?s "Some memory"] gone
    by (simp add: load_turns_def stored_turns_def [symmetric] st2_def)
  moreover have "map_of (ss_rows st2) ?s = Some \<lparr>sw_owner = sr_owner held, sw_title = title, sw_created = sr_created held, sw_last_active = stamp\<rparr>"
    using gone(1) by (simp add: st2_def upsert_session_def update_conv')
  moreover have "map_of (ss_hot st2) ?s = None" using hot by (simp add: st2_def)
  ultimately show ?thesis
    unfolding st1_def [symmetric] fin using assms by (simp add: get_session_def rehydrate_def Let_def)
qed


definition example_turn :: session_turn where
  "example_turn = \<lparr>tn_id = u ''t1'', tn_index = 1, tn_question = u ''orders'', tn_sql = Some (u ''select 1''),
     tn_columns = [u ''n''], tn_row_count = 1, tn_rows = Some [J_null],
     tn_omitted = False, tn_interpretation = Some (u ''one row''), tn_rest = J_null\<rparr>"

lemmas finish_evaluation = finish_turn_def sync_turn_def append_turn_def held_object_def write_back_def save_turn_def
  truncate_at_word_boundary_def strip_rows_def omit_rows_def delete_everywhere_def delete_session_def od_touch_def


theorem deleted_conversation_comes_back_witness:
  defines "st1 \<equiv> apply_event example_sessions (Created (u ''s1'') (Some (u ''ann'')) 0 (u ''t'')) no_sessions"
  defines "r1 \<equiv> fst (create example_sessions (u ''s1'') (Some (u ''ann'')) 0 (u ''t'') no_sessions)"
  shows "\<exists>r. fst (get_session example_sessions 1 (sr_id r1) (finish_turn example_sessions example_turn
        (empty_memory (u ''t1'')) (u ''t'') r1 (snd (delete_everywhere example_sessions (sr_id r1) st1)))) = Some r
      \<and> sr_owner r = sr_owner r1 \<and> sr_turns r = [omit_rows example_turn]"
  by (rule deleted_conversation_comes_back) (simp_all add: example_sessions_def)

text \<open>The interpretation of the rows stays in what is written and read back.\<close>

lemma interpretation_persists: "tn_interpretation (omit_rows (strip_rows t)) = tn_interpretation t"
  by (simp add: omit_rows_def strip_rows_def split: option.splits)

text \<open>The engine appends turns with no regard to the transcript cap; \<open>add_turn\<close> enforces it.\<close>

lemma drop_oldest_capped: "0 \<le> m \<Longrightarrow> int (length (sr_turns (drop_oldest m r))) \<le> m"
proof (induction m r rule: drop_oldest.induct)
  case (1 m r)
  then show ?case
    by (cases "m < int (length (sr_turns r)) \<and> sr_turns r \<noteq> []") (auto simp: drop_oldest.simps [of m r])
qed

lemma add_turn_capped: "0 \<le> sc_max_turns C \<Longrightarrow> int (length (sr_turns (add_turn C turn memory r))) \<le> sc_max_turns C"
  by (simp add: add_turn_def drop_oldest_capped)

lemma append_turn_uncapped: "length (sr_turns (append_turn turn memory r)) = Suc (length (sr_turns r))"
  by (simp add: append_turn_def)


end
