(* ===== verification/Turn_Policy.thy ===== *)
theory Turn_Policy
  imports Session_Store Feedback
begin

text \<open>
  \<open>session/refinement.py\<close>, \<open>session/ambiguity.py\<close>, \<open>session/memory.py\<close> and the free functions of
  \<open>session/engine.py\<close>: how a question relates to the conversation, the assumptions it is answered
  under, and who may change them. The warehouse's default scope, the rememberable keys, today's date
  and Python's \<open>str\<close>, \<open>int\<close>, \<open>str.lower\<close> and \<open>str.isdigit\<close> are the record \<open>policy_env\<close>.
\<close>

section \<open>Records\<close>

record memory_key =
  mk_filter_key :: ustr
  mk_field :: ustr
  mk_column :: ustr
  mk_options :: "ustr list"
  mk_max_length :: nat

record memory_entry =
  me_key :: ustr
  me_field :: ustr
  me_value :: ustr
  me_updated :: ustr

record policy_env =
  pe_scope_key :: ustr
  pe_scope_field :: ustr
  pe_scope_label :: ustr
  pe_scope_options :: "ustr list"
  pe_scope_prompt :: ustr
  pe_memory_keys :: "(ustr, memory_key) odict"
  pe_today :: "int \<times> int \<times> int"
  pe_show :: "json \<Rightarrow> ustr"
  pe_lower :: "ustr \<Rightarrow> ustr"
  pe_isdigit :: "ustr \<Rightarrow> bool"
  pe_int :: "ustr \<Rightarrow> int option"

datatype assumption_source = By_question | By_session | By_default | By_policy | By_memory

record assumption =
  an_field :: ustr
  an_value :: ustr
  an_source :: assumption_source
  an_editable :: bool

record clarification =
  cl_field :: ustr
  cl_prompt :: ustr
  cl_options :: "ustr list"

text \<open>\<open>dict(d)\<close> updated with the items of another dictionary.\<close>

definition od_merge :: "('k, 'v) odict \<Rightarrow> ('k, 'v) odict \<Rightarrow> ('k, 'v) odict" where
  "od_merge d new = fold (\<lambda>(k, v). AList.update k v) new d"

section \<open>Fresh or refining\<close>

definition cte_refinement_cues :: "ustr list" where
  "cte_refinement_cues = [
     [1575, 1586, 32, 1576, 1740, 1606, 32, 1570, 1606, 8204, 1607, 1575],
     [1575, 1586, 32, 1576, 1740, 1606, 32, 1570, 1606, 1607, 1575],
     [1575, 1586, 32, 1576, 1740, 1606, 32, 1575, 1608, 1606, 1575],
     [1575, 1586, 32, 1576, 1740, 1606, 32, 1575, 1740, 1606, 8204, 1607, 1575],
     [1575, 1586, 32, 1576, 1740, 1606, 32, 1575, 1740, 1606, 1575],
     [1575, 1586, 32, 1605, 1740, 1575, 1606, 32, 1570, 1606, 8204, 1607, 1575],
     [1575, 1586, 32, 1605, 1740, 1575, 1606, 32, 1570, 1606, 1607, 1575],
     [1575, 1586, 32, 1605, 1740, 1575, 1606, 32, 1575, 1740, 1606, 8204, 1607, 1575],
     [1583, 1585, 32, 1576, 1740, 1606, 32, 1570, 1606, 8204, 1607, 1575],
     [1583, 1585, 32, 1576, 1740, 1606, 32, 1575, 1740, 1606, 8204, 1607, 1575],
     [1583, 1585, 32, 1605, 1740, 1575, 1606, 32, 1570, 1606, 8204, 1607, 1575],
     u ''among those'',
     u ''among these'',
     u ''of those'',
     u ''from those'',
     u ''out of those'']"

definition carry_forward_cues :: "ustr list" where
  "carry_forward_cues = [
     [1607, 1605, 1740, 1606, 32, 1585, 1575],
     [1607, 1605, 1740, 1606, 32, 1585, 1608],
     [1607, 1605, 1740, 1606, 8204, 1591, 1608, 1585],
     [1607, 1605, 1740, 1606, 1608],
     [1607, 1605, 1608, 1606, 32, 1587, 1608, 1575, 1604],
     [1607, 1605, 1575, 1606, 32, 1587, 1608, 1575, 1604],
     [1607, 1605, 1608, 1606, 32, 1585, 1608],
     [1607, 1605, 1575, 1606, 8204, 1591, 1608, 1585],
     [1576, 1607, 32, 1607, 1605, 1740, 1606, 32, 1578, 1585, 1578, 1740, 1576],
     [1583, 1608, 1576, 1575, 1585, 1607],
     [1607, 1605, 1608, 1606],
     u ''same for'',
     u ''same as before'',
     u ''same query'',
     u ''same question'',
     u ''again'']"

definition relative_period_deltas :: "(ustr \<times> int) list" where
  "relative_period_deltas = [
     ([1587, 1575, 1604, 32, 1602, 1576, 1604], - 1),
     ([1587, 1575, 1604, 32, 1711, 1584, 1588, 1578, 1607], - 1),
     ([1662, 1575, 1585, 1587, 1575, 1604], - 1),
     ([1587, 1575, 1604, 32, 1570, 1740, 1606, 1583, 1607], 1),
     ([1587, 1575, 1604, 32, 1576, 1593, 1583], 1)]"

definition contains_any :: "ustr \<Rightarrow> ustr list \<Rightarrow> bool" where
  "contains_any question cues = list_ex (contains question) cues"

definition relative_period_delta :: "ustr \<Rightarrow> int" where
  "relative_period_delta question =
     (case find (\<lambda>(phrase, d). contains question phrase) relative_period_deltas of
        None \<Rightarrow> 0
      | Some (phrase, d) \<Rightarrow> d)"

datatype basis_kind = Fresh | Refines
datatype composition = Cte | No_composition

record basis_decision =
  bd_kind :: basis_kind
  bd_turn :: "ustr option"
  bd_composition :: composition
  bd_filters :: "(ustr, json) odict"
  bd_delta :: int

definition fresh_basis :: basis_decision where
  "fresh_basis = \<lparr>bd_kind = Fresh, bd_turn = None, bd_composition = No_composition, bd_filters = [], bd_delta = 0\<rparr>"

definition classify_basis :: "ustr \<Rightarrow> session_turn option \<Rightarrow> turn_memory option \<Rightarrow> basis_decision" where
  "classify_basis question previous memory =
     (case previous of
        None \<Rightarrow> fresh_basis
      | Some t \<Rightarrow>
          (let filters = (case memory of None \<Rightarrow> [] | Some m \<Rightarrow> tm_filters m)
           in if contains_any question cte_refinement_cues
              then \<lparr>bd_kind = Refines, bd_turn = Some (tn_id t), bd_composition = Cte, bd_filters = filters, bd_delta = 0\<rparr>
              else if contains_any question carry_forward_cues
              then \<lparr>bd_kind = Refines, bd_turn = Some (tn_id t), bd_composition = No_composition, bd_filters = filters,
                    bd_delta = relative_period_delta question\<rparr>
              else fresh_basis))"

definition persian_year :: ustr where
  "persian_year = u ''PersianYear''"

definition display_field_name :: "policy_env \<Rightarrow> ustr \<Rightarrow> ustr" where
  "display_field_name E k =
     (if k = persian_year then u ''period'' else if k = pe_scope_key E then pe_scope_field E else pe_lower E k)"

definition inherited :: "policy_env \<Rightarrow> basis_decision \<Rightarrow> ustr list" where
  "inherited E b = map (\<lambda>(k, v). display_field_name E k @ u ''='' @ pe_show E v) (bd_filters b)"

section \<open>Assumptions\<close>

definition measure_cues :: "(ustr list \<times> ustr) list" where
  "measure_cues = [
     ([[1581, 1580, 1605], [1608, 1586, 1606]],
       [1581, 1580, 1605, 32, 1605, 1593, 1575, 1605, 1604, 1607, 32, 40, 72, 97, 108, 108, 77, 97, 116,
       99, 104, 105, 110, 103, 87, 101, 105, 103, 104, 116, 41]),
     ([[1575, 1585, 1586, 1588], [1585, 1740, 1575, 1604]],
       [1575, 1585, 1586, 1588, 32, 1585, 1740, 1575, 1604, 1740, 32, 1605, 1593, 1575, 1605, 1604, 1607]),
     ([[1578, 1593, 1583, 1575, 1583]],
       [1578, 1593, 1583, 1575, 1583, 32, 1602, 1585, 1575, 1585, 1583, 1575, 1583])]"

definition default_measure :: ustr where
  "default_measure =
     [1575, 1585, 1586, 1588, 32, 1585, 1740, 1575, 1604, 1740, 32, 1605, 1593, 1575, 1605, 1604, 1607]"

definition measure_options :: "ustr list" where
  "measure_options = [
     [1575, 1585, 1586, 1588, 32, 1585, 1740, 1575, 1604, 1740, 32, 1605, 1593, 1575, 1605, 1604, 1607],
     [1581, 1580, 1605, 32, 1605, 1593, 1575, 1605, 1604, 1607],
     [1578, 1593, 1583, 1575, 1583, 32, 1602, 1585, 1575, 1585, 1583, 1575, 1583]]"

definition rank_words :: "ustr list" where
  "rank_words = [
     [1576, 1585, 1578, 1585],
     [1576, 1740, 1588, 1578, 1585, 1740, 1606],
     [1705, 1605, 1578, 1585, 1740, 1606],
     [1576, 1575, 1604, 1575, 1578, 1585, 1740, 1606],
     u ''top'',
     u ''best'']"

definition scope_policy_text :: ustr where
  "scope_policy_text = [
     1607, 1605, 1607, 1620, 32, 1587, 1591, 1585, 1607, 1575, 1740, 32, 1605, 1606, 1591, 1576, 1602,
     32, 1576, 1575, 32, 1601, 1740, 1604, 1578, 1585, 32, 1602, 1576, 1604, 1740, 1548, 32, 1606, 1607,
     32, 1601, 1602, 1591, 32, 1587, 1591, 1585, 1607, 1575, 1740, 32, 1606, 1605, 1575, 1740, 1588,
     8204, 1583, 1575, 1583, 1607, 8204, 1588, 1583, 1607, 1620, 32, 1662, 1585, 1587, 1588, 32, 1602,
     1576, 1604]"

definition measure_prompt :: ustr where
  "measure_prompt = [
     171, 1576, 1585, 1578, 1585, 187, 32, 1576, 1585, 32, 1575, 1587, 1575, 1587, 32, 1705, 1583, 1575,
     1605, 32, 1605, 1593, 1740, 1575, 1585, 1567]"

definition resolve_measure :: "ustr \<Rightarrow> ustr \<times> assumption_source" where
  "resolve_measure question =
     (case find (\<lambda>(cues, label). contains_any question cues) measure_cues of
        None \<Rightarrow> (default_measure, By_default)
      | Some (cues, label) \<Rightarrow> (label, By_question))"

definition is_ranking_question :: "ustr \<Rightarrow> bool" where
  "is_ranking_question question = contains_any question rank_words"

definition to_persian_digits :: "nat \<Rightarrow> ustr" where
  "to_persian_digits n = map (\<lambda>c. c - 48 + 0x6F0) (decimal n)"

definition gregorian_to_jalali_year :: "int \<Rightarrow> int \<Rightarrow> int \<Rightarrow> int" where
  "gregorian_to_jalali_year y m d = (if 3 < m \<or> m = 3 \<and> 21 \<le> d then y - 621 else y - 622)"

definition current_year :: "policy_env \<Rightarrow> int" where
  "current_year E = (case pe_today E of (y, m, d) \<Rightarrow> gregorian_to_jalali_year y m d)"

definition default_period_label :: "policy_env \<Rightarrow> ustr" where
  "default_period_label E = [1587, 1575, 1604, 32, 1580, 1575, 1585, 1740, 32, 40] @ to_persian_digits (nat (current_year E)) @ [41]"

definition new_assumption :: "ustr \<Rightarrow> ustr \<Rightarrow> assumption_source \<Rightarrow> assumption" where
  "new_assumption f v s = \<lparr>an_field = f, an_value = v, an_source = s, an_editable = True\<rparr>"

definition assumptions_for_fresh ::
    "policy_env \<Rightarrow> ustr \<Rightarrow> (ustr, json) odict \<Rightarrow> assumption list \<times> clarification list \<times> bool" where
  "assumptions_for_fresh E question filters =
     (if \<not> is_ranking_question question then ([], [], False)
      else
        let scope = (case map_of filters (pe_scope_key E) of
                       Some v \<Rightarrow> new_assumption (pe_scope_field E) (pe_show E v) By_question
                     | None \<Rightarrow> new_assumption (pe_scope_field E) (pe_scope_label E) By_default);
            scope_offer = (case map_of filters (pe_scope_key E) of
                       Some v \<Rightarrow> []
                     | None \<Rightarrow> [\<lparr>cl_field = pe_scope_field E, cl_prompt = pe_scope_prompt E, cl_options = pe_scope_options E\<rparr>]);
            measure = resolve_measure question;
            measure_offer = (if snd measure = By_default
                       then [\<lparr>cl_field = u ''measure'', cl_prompt = measure_prompt, cl_options = measure_options\<rparr>] else []);
            period = (if map_of filters persian_year = None
                       then [new_assumption (u ''period'') (default_period_label E) By_default] else [])
        in ([scope, new_assumption (u ''measure'') (fst measure) (snd measure)] @ period,
            scope_offer @ measure_offer, True))"

definition inherited_assumptions :: "policy_env \<Rightarrow> (ustr, json) odict \<Rightarrow> assumption list" where
  "inherited_assumptions E filters =
     map (\<lambda>(k, v). new_assumption (display_field_name E k) (pe_show E v) By_session) filters"

definition assumptions_for_cte_refinement :: "policy_env \<Rightarrow> ustr \<Rightarrow> (ustr, json) odict \<Rightarrow> assumption list" where
  "assumptions_for_cte_refinement E question filters =
     [\<lparr>an_field = u ''scope'', an_value = scope_policy_text, an_source = By_policy, an_editable = False\<rparr>,
      (case resolve_measure question of (v, s) \<Rightarrow> new_assumption (u ''measure'') v s)]
     @ inherited_assumptions E filters"

definition assumptions_for_carry_forward :: "policy_env \<Rightarrow> (ustr, json) odict \<Rightarrow> assumption list" where
  "assumptions_for_carry_forward E filters = inherited_assumptions E filters"

section \<open>Memory\<close>

text \<open>\<open>_CONTROL_CHAR_RE\<close>, with the two line ends.\<close>

definition has_disallowed_chars :: "ustr \<Rightarrow> bool" where
  "has_disallowed_chars v \<longleftrightarrow> 10 \<in> set v \<or> 13 \<in> set v
     \<or> list_ex (\<lambda>c. c \<le> 8 \<or> c = 11 \<or> c = 12 \<or> (14 \<le> c \<and> c \<le> 31) \<or> c = 127) v"

datatype memory_error = Unknown_memory_key | Control_characters | Value_too_long | Not_an_option

definition validate_memory_value :: "policy_env \<Rightarrow> ustr \<Rightarrow> ustr \<Rightarrow> memory_error option" where
  "validate_memory_value E k v =
     (case map_of (pe_memory_keys E) k of
        None \<Rightarrow> Some Unknown_memory_key
      | Some c \<Rightarrow>
          if has_disallowed_chars v then Some Control_characters
          else if mk_max_length c < length v then Some Value_too_long
          else if mk_options c \<noteq> [] \<and> v \<notin> set (mk_options c) then Some Not_an_option
          else None)"

text \<open>The first default of the entry's field takes the remembered value.\<close>

fun remember :: "memory_entry \<Rightarrow> assumption list \<Rightarrow> assumption list option" where
  "remember e [] = None"
| "remember e (a # as) =
     (if an_field a = me_field e \<and> an_source a = By_default
      then Some (a\<lparr>an_value := me_value e, an_source := By_memory\<rparr> # as)
      else map_option ((#) a) (remember e as))"

text \<open>A warning names the field and the column; the Persian sentence around them is left out.\<close>

record memory_result =
  mr_assumptions :: "assumption list"
  mr_warnings :: "(ustr \<times> ustr) list"
  mr_used :: "(ustr, ustr) odict"

definition apply_entry ::
    "policy_env \<Rightarrow> ustr set \<Rightarrow> ustr \<times> memory_entry \<Rightarrow> memory_result \<Rightarrow> memory_result" where
  "apply_entry E denied = (\<lambda>(k, e) r.
     case map_of (pe_memory_keys E) k of
       None \<Rightarrow> r
     | Some c \<Rightarrow>
         if mk_column c \<in> denied then r\<lparr>mr_warnings := mr_warnings r @ [(me_field e, mk_column c)]\<rparr>
         else (case remember e (mr_assumptions r) of
                 None \<Rightarrow> r
               | Some as \<Rightarrow> r\<lparr>mr_assumptions := as, mr_used := AList.update k (me_value e) (mr_used r)\<rparr>))"

definition apply_memory_to_assumptions ::
    "policy_env \<Rightarrow> assumption list \<Rightarrow> (ustr, memory_entry) odict \<Rightarrow> ustr list \<Rightarrow> memory_result" where
  "apply_memory_to_assumptions E as entries denied =
     fold (apply_entry E (set denied)) entries \<lparr>mr_assumptions = as, mr_warnings = [], mr_used = []\<rparr>"

section \<open>Overrides\<close>

definition apply_override :: "(ustr, ustr) odict \<Rightarrow> assumption \<Rightarrow> assumption" where
  "apply_override overrides a =
     (case map_of overrides (an_field a) of
        Some v \<Rightarrow> if an_editable a then a\<lparr>an_value := v, an_source := By_question\<rparr> else a
      | None \<Rightarrow> a)"

definition apply_overrides :: "(ustr, ustr) odict \<Rightarrow> assumption list \<Rightarrow> assumption list" where
  "apply_overrides overrides as = map (apply_override overrides) as"

definition cte_override_conflict ::
    "policy_env \<Rightarrow> (ustr, json) odict \<Rightarrow> (ustr, ustr) odict \<Rightarrow> (ustr, json) odict option" where
  "cte_override_conflict E filters overrides =
     (let changed = (\<lambda>(k, v). case map_of overrides (display_field_name E k) of
                       None \<Rightarrow> None | Some w \<Rightarrow> if w \<noteq> pe_show E v then Some w else None)
      in if list_all (\<lambda>e. changed e = None) filters then None
         else Some (map (\<lambda>e. (fst e, case changed e of None \<Rightarrow> snd e | Some w \<Rightarrow> J_str w)) filters))"

section \<open>The filters a question is asked with\<close>

text \<open>Python's \<open>int\<close> of a filter's value; \<open>None\<close> is the exception.\<close>

definition as_int :: "policy_env \<Rightarrow> json \<Rightarrow> int option" where
  "as_int E v =
     (case v of
        J_num q \<Rightarrow> Some (if 0 \<le> q then \<lfloor>q\<rfloor> else \<lceil>q\<rceil>)
      | J_bool b \<Rightarrow> Some (if b then 1 else 0)
      | J_str s \<Rightarrow> pe_int E s
      | _ \<Rightarrow> None)"

definition shift_year :: "policy_env \<Rightarrow> int \<Rightarrow> (ustr, json) odict \<Rightarrow> (ustr, json) odict option" where
  "shift_year E delta filters =
     (if delta = 0 then Some filters
      else (case (case map_of filters persian_year of
                    None \<Rightarrow> Some (current_year E) | Some v \<Rightarrow> if v = J_null then Some (current_year E) else as_int E v) of
              None \<Rightarrow> None
            | Some y \<Rightarrow> Some (AList.update persian_year (J_num (rat_of_int (y + delta))) filters)))"

text \<open>A value of the scope field, and a period that is a plain year, become filters.\<close>

fun filters_from_assumptions :: "policy_env \<Rightarrow> assumption list \<Rightarrow> (ustr, json) odict \<Rightarrow> (ustr, json) odict option" where
  "filters_from_assumptions E [] filters = Some filters"
| "filters_from_assumptions E (a # as) filters =
     (if an_field a = pe_scope_field E
      then filters_from_assumptions E as (AList.update (pe_scope_key E) (J_str (an_value a)) filters)
      else if an_field a = u ''period'' \<and> pe_isdigit E (strip (an_value a))
      then (case pe_int E (strip (an_value a)) of
              None \<Rightarrow> None
            | Some y \<Rightarrow> filters_from_assumptions E as (AList.update persian_year (J_num (rat_of_int y)) filters))
      else filters_from_assumptions E as filters)"

definition string_filters :: "(ustr, json) odict \<Rightarrow> (ustr, ustr) odict" where
  "string_filters filters = concat (map (\<lambda>(k, v). case v of J_str s \<Rightarrow> [(k, s)] | _ \<Rightarrow> []) filters)"

definition filters_to_enforce ::
    "policy_env \<Rightarrow> (ustr, json) odict \<Rightarrow> assumption list \<Rightarrow> (ustr, json) odict \<Rightarrow> (ustr, ustr) odict" where
  "filters_to_enforce E found as merged =
     (case map_of merged (pe_scope_key E) of
        Some (J_str v) \<Rightarrow>
          if list_ex (\<lambda>a. an_field a = pe_scope_field E \<and> an_source a = By_question) as
          then AList.update (pe_scope_key E) v (string_filters found) else string_filters found
      | _ \<Rightarrow> string_filters found)"

definition resolved_question_for_fresh :: "policy_env \<Rightarrow> ustr \<Rightarrow> assumption list \<Rightarrow> (ustr, json) odict \<Rightarrow> ustr" where
  "resolved_question_for_fresh E question as filters =
     (if as = [] then question
      else
        let value_of = (\<lambda>f. map_option an_value (find (\<lambda>a. an_field a = f) as));
            ring = (case value_of (pe_scope_field E) of
                      Some v \<Rightarrow> Some v
                    | None \<Rightarrow> (if is_falsy (map_of filters (pe_scope_key E)) then None
                        else map_option (pe_show E) (map_of filters (pe_scope_key E))));
            parts = filter (\<lambda>p. p \<noteq> []) (List.map_filter id [value_of (u ''measure''), ring, value_of (u ''period'')])
        in if parts = [] then question
           else question @ [32, 8212, 32, 1576, 1585, 32, 1575, 1587, 1575, 1587, 32] @ join [1548, 32] parts)"

record turn_plan =
  tp_assumptions :: "assumption list"
  tp_clarifications :: "clarification list"
  tp_ambiguous :: bool
  tp_warnings :: "(ustr \<times> ustr) list"
  tp_filters :: "(ustr, json) odict"
  tp_enforce :: "(ustr, ustr) odict"
  tp_resolved :: ustr

text \<open>
  \<open>TurnEngine._handle_generative\<close> up to the prompt: \<open>found\<close> are the filters retrieval read from the
  question. \<open>None\<close> is the exception \<open>int\<close> raises, which leaves the engine.
\<close>

definition plan_generative ::
    "policy_env \<Rightarrow> ustr \<Rightarrow> basis_decision \<Rightarrow> (ustr, json) odict \<Rightarrow> (ustr, memory_entry) odict
     \<Rightarrow> (ustr, ustr) odict \<Rightarrow> ustr list \<Rightarrow> bool \<Rightarrow> turn_plan option" where
  "plan_generative E question basis found entries overrides denied demoted =
     (let carry = (bd_kind basis = Refines) in
      case shift_year E (if carry then bd_delta basis else 0) (od_merge (bd_filters basis) found) of
        None \<Rightarrow> None
      | Some merged \<Rightarrow>
          (case (if carry then (assumptions_for_carry_forward E merged, [], False) else assumptions_for_fresh E question merged) of
             (as0, offers, amb) \<Rightarrow>
               (let m = apply_memory_to_assumptions E as0 entries denied;
                    as = apply_overrides overrides (mr_assumptions m);
                    resolved = (if carry \<and> \<not> demoted
                                then [1607, 1605, 1575, 1606, 32, 1662, 1585, 1587, 1588, 32, 1602, 1576, 1604, 1740, 1548, 32, 1576, 1585, 1575, 1740, 32] @ (case map_of merged persian_year of None \<Rightarrow> [] | Some v \<Rightarrow> pe_show E v)
                                else resolved_question_for_fresh E question as merged)
                in case filters_from_assumptions E as merged of
                     None \<Rightarrow> None
                   | Some final \<Rightarrow> Some \<lparr>tp_assumptions = as, tp_clarifications = offers,
                       tp_ambiguous = (if carry then as \<noteq> [] else amb), tp_warnings = mr_warnings m,
                       tp_filters = final, tp_enforce = filters_to_enforce E found as final,
                       tp_resolved = resolved\<rparr>)))"

text \<open>
  \<open>TurnEngine.ask\<close>: an override of a filter baked into the previous statement takes the question
  off the composition path.
\<close>

definition basis_with_overrides :: "policy_env \<Rightarrow> basis_decision \<Rightarrow> (ustr, ustr) odict \<Rightarrow> basis_decision \<times> bool" where
  "basis_with_overrides E basis overrides =
     (if bd_kind basis = Refines \<and> bd_composition basis = Cte
      then (case cte_override_conflict E (bd_filters basis) overrides of
              None \<Rightarrow> (basis, False)
            | Some filters \<Rightarrow> (basis\<lparr>bd_composition := No_composition, bd_filters := filters\<rparr>, True))
      else (basis, False))"

declare contains_any_def [ev] relative_period_delta_def [ev] fresh_basis_def [ev] classify_basis_def [ev]
  persian_year_def [ev] display_field_name_def [ev] resolve_measure_def [ev] is_ranking_question_def [ev]
  gregorian_to_jalali_year_def [ev] current_year_def [ev] new_assumption_def [ev] assumptions_for_fresh_def [ev]
  inherited_assumptions_def [ev] assumptions_for_cte_refinement_def [ev] assumptions_for_carry_forward_def [ev]
  apply_entry_def [ev] apply_memory_to_assumptions_def [ev] apply_override_def [ev] apply_overrides_def [ev]
  cte_override_conflict_def [ev] as_int_def [ev] shift_year_def [ev] string_filters_def [ev]
  filters_to_enforce_def [ev] plan_generative_def [ev] basis_with_overrides_def [ev] od_merge_def [ev]
  cte_refinement_cues_def [ev] carry_forward_cues_def [ev] relative_period_deltas_def [ev] measure_cues_def [ev]
  rank_words_def [ev]

section \<open>Who decides an assumption\<close>

text \<open>How an assumption may be replaced by a memory entry.\<close>

definition remembered :: "assumption \<Rightarrow> assumption \<Rightarrow> bool" where
  "remembered a b \<longleftrightarrow> an_source a = By_default \<and> an_source b = By_memory
     \<and> an_field b = an_field a \<and> an_editable b = an_editable a"

lemma remember_pointwise:
  "remember e as = Some bs \<Longrightarrow> list_all2 (\<lambda>a b. b = a \<or> remembered a b \<and> an_value b = me_value e) as bs"
proof (induction as arbitrary: bs)
  case (Cons a as)
  show ?case
  proof (cases "an_field a = me_field e \<and> an_source a = By_default")
    case True
    then have "bs = a\<lparr>an_value := me_value e, an_source := By_memory\<rparr> # as" using Cons.prems by simp
    then show ?thesis using True by (simp add: remembered_def list_all2_same)
  next
    case False
    then obtain cs where "remember e as = Some cs" "bs = a # cs" using Cons.prems by (auto split: if_splits)
    then show ?thesis using Cons.IH by simp
  qed
qed simp

definition kept_or_remembered :: "assumption list \<Rightarrow> assumption list \<Rightarrow> bool" where
  "kept_or_remembered as bs = list_all2 (\<lambda>a b. b = a \<or> remembered a b) as bs"

lemma kept_or_remembered_trans:
  assumes "kept_or_remembered as bs" "kept_or_remembered bs cs"
  shows "kept_or_remembered as cs"
  unfolding kept_or_remembered_def
  by (rule list_all2_trans [OF _ assms [unfolded kept_or_remembered_def]]) (auto simp: remembered_def)

lemma kept_or_remembered_refl [simp]: "kept_or_remembered as as"
  by (simp add: kept_or_remembered_def list_all2_same)

lemma apply_entry_kept: "kept_or_remembered (mr_assumptions r) (mr_assumptions (apply_entry E denied ke r))"
proof -
  obtain k e where [simp]: "ke = (k, e)" by (cases ke)
  have "kept_or_remembered (mr_assumptions r) bs" if "remember e (mr_assumptions r) = Some bs" for bs
    using remember_pointwise [OF that] unfolding kept_or_remembered_def by (rule list_all2_mono) blast
  then show ?thesis by (auto simp: apply_entry_def split: option.split)
qed

lemma apply_memory_kept: "kept_or_remembered as (mr_assumptions (apply_memory_to_assumptions E as entries denied))"
proof -
  have "kept_or_remembered (mr_assumptions r) (mr_assumptions (fold (apply_entry E D) entries r))" for r D
    by (induction entries arbitrary: r) (simp, metis apply_entry_kept fold_simps(2) kept_or_remembered_trans)
  from this [of "\<lparr>mr_assumptions = as, mr_warnings = [], mr_used = []\<rparr>" "set denied"]
  show ?thesis by (simp add: apply_memory_to_assumptions_def)
qed

text \<open>
  Question, then session, then memory, then default: whatever is remembered and whatever the
  caller overrides, every assumption keeps its place, its field and its editability; it is the
  caller's override when the field is overridden and editable, it is a remembered value only where
  the configured default stood, and otherwise it is what the question or the session said.
\<close>

theorem assumption_precedence:
  "list_all2 (\<lambda>a b. an_field b = an_field a \<and> an_editable b = an_editable a \<and>
      (case (if an_editable a then map_of overrides (an_field a) else None) of
         Some v \<Rightarrow> an_value b = v \<and> an_source b = By_question
       | None \<Rightarrow> b = a \<or> an_source a = By_default \<and> an_source b = By_memory))
    as (apply_overrides overrides (mr_assumptions (apply_memory_to_assumptions E as entries denied)))"
  unfolding apply_overrides_def list_all2_map2
  using apply_memory_kept [of as E entries denied, unfolded kept_or_remembered_def]
  by (rule list_all2_mono) (auto simp: apply_override_def remembered_def split: option.splits)

text \<open>What was used is what the cache key must carry, and none of it is on a denied column.\<close>

definition memory_ok :: "policy_env \<Rightarrow> (ustr, memory_entry) odict \<Rightarrow> ustr set \<Rightarrow> assumption list \<Rightarrow> memory_result \<Rightarrow> bool" where
  "memory_ok E entries denied as r \<longleftrightarrow>
     (\<forall>(k, v) \<in> set (mr_used r). \<exists>e c. (k, e) \<in> set entries \<and> v = me_value e
        \<and> map_of (pe_memory_keys E) k = Some c \<and> mk_column c \<notin> denied)
     \<and> (\<forall>b \<in> set (mr_assumptions r). b \<in> set as \<or> (\<exists>(k, v) \<in> set (mr_used r). an_value b = v \<and> an_source b = By_memory))"

lemma remember_set:
  "remember e as = Some bs \<Longrightarrow> b \<in> set bs \<Longrightarrow> b \<in> set as \<or> an_value b = me_value e \<and> an_source b = By_memory"
  by (induction as arbitrary: bs) (auto split: if_splits)

lemma apply_entry_ok:
  assumes ok: "memory_ok E entries D as r" and e: "(k, e) \<in> set entries" and new: "k \<notin> fst ` set (mr_used r)"
  shows "memory_ok E entries D as (apply_entry E D (k, e) r)"
    and "fst ` set (mr_used (apply_entry E D (k, e) r)) \<subseteq> insert k (fst ` set (mr_used r))"
    and "set (mr_warnings r) \<subseteq> set (mr_warnings (apply_entry E D (k, e) r))"
    and "map_of (pe_memory_keys E) k = Some c \<Longrightarrow> mk_column c \<in> D \<Longrightarrow>
      (me_field e, mk_column c) \<in> set (mr_warnings (apply_entry E D (k, e) r))"
proof -
  have used: "AList.update k (me_value e) (mr_used r) = mr_used r @ [(k, me_value e)]"
    using new by (intro update_new) (simp add: map_of_eq_None_iff)
  have "memory_ok E entries D as (apply_entry E D (k, e) r)
    \<and> fst ` set (mr_used (apply_entry E D (k, e) r)) \<subseteq> insert k (fst ` set (mr_used r))
    \<and> set (mr_warnings r) \<subseteq> set (mr_warnings (apply_entry E D (k, e) r))"
  proof (cases "map_of (pe_memory_keys E) k")
    case None
    then show ?thesis using ok by (auto simp: apply_entry_def)
  next
    case (Some c)
    show ?thesis
    proof (cases "mk_column c \<in> D")
      case True
      then show ?thesis using ok Some by (auto simp: apply_entry_def memory_ok_def)
    next
      case False
      show ?thesis
      proof (cases "remember e (mr_assumptions r)")
        case None
        then show ?thesis using ok Some False by (auto simp: apply_entry_def)
      next
        case bs: (Some bs)
        have "b \<in> set as \<or> (\<exists>(k, v) \<in> set (mr_used r @ [(k, me_value e)]). an_value b = v \<and> an_source b = By_memory)"
          if "b \<in> set bs" for b
          using remember_set [OF bs that] ok by (auto simp: memory_ok_def)
        moreover have "\<exists>e c. (k', e) \<in> set entries \<and> v = me_value e \<and> map_of (pe_memory_keys E) k' = Some c \<and> mk_column c \<notin> D"
          if "(k', v) \<in> set (mr_used r @ [(k, me_value e)])" for k' v
          using that ok e Some False by (auto simp: memory_ok_def)
        ultimately show ?thesis
          using Some False bs used by (simp add: apply_entry_def memory_ok_def) blast
      qed
    qed
  qed
  then show "memory_ok E entries D as (apply_entry E D (k, e) r)"
    "fst ` set (mr_used (apply_entry E D (k, e) r)) \<subseteq> insert k (fst ` set (mr_used r))"
    "set (mr_warnings r) \<subseteq> set (mr_warnings (apply_entry E D (k, e) r))" by blast+
  show "map_of (pe_memory_keys E) k = Some c \<Longrightarrow> mk_column c \<in> D \<Longrightarrow>
      (me_field e, mk_column c) \<in> set (mr_warnings (apply_entry E D (k, e) r))"
    by (simp add: apply_entry_def)
qed

lemma apply_entries_ok:
  assumes "od_ok rest" "set rest \<subseteq> set entries" "memory_ok E entries D as r"
    "fst ` set (mr_used r) \<inter> fst ` set rest = {}"
  shows "memory_ok E entries D as (fold (apply_entry E D) rest r)
    \<and> set (mr_warnings r) \<subseteq> set (mr_warnings (fold (apply_entry E D) rest r))
    \<and> (\<forall>(k, e) \<in> set rest. \<forall>c. map_of (pe_memory_keys E) k = Some c \<longrightarrow> mk_column c \<in> D \<longrightarrow>
         (me_field e, mk_column c) \<in> set (mr_warnings (fold (apply_entry E D) rest r)))"
  using assms
proof (induction rest arbitrary: r)
  case (Cons ke rest)
  obtain k e where [simp]: "ke = (k, e)" by (cases ke)
  let ?r = "apply_entry E D (k, e) r"
  have new: "k \<notin> fst ` set (mr_used r)" and e: "(k, e) \<in> set entries" using Cons.prems by auto
  note step = apply_entry_ok [OF Cons.prems(3) e new]
  have "k \<notin> fst ` set rest" using Cons.prems(1) by (simp add: od_ok_def)
  moreover have "fst ` set (mr_used r) \<inter> fst ` set rest = {}" using Cons.prems(4) by auto
  ultimately have "fst ` set (mr_used ?r) \<inter> fst ` set rest = {}" using step(2) by blast
  then have "memory_ok E entries D as (fold (apply_entry E D) rest ?r)
    \<and> set (mr_warnings ?r) \<subseteq> set (mr_warnings (fold (apply_entry E D) rest ?r))
    \<and> (\<forall>(k, e) \<in> set rest. \<forall>c. map_of (pe_memory_keys E) k = Some c \<longrightarrow> mk_column c \<in> D \<longrightarrow>
         (me_field e, mk_column c) \<in> set (mr_warnings (fold (apply_entry E D) rest ?r)))"
    using Cons.prems step(1) by (intro Cons.IH) (auto simp: od_ok_def)
  with step(3,4) show ?case by auto
qed simp


text \<open>What the store accepts is one line of bounded length from the declared options.\<close>

lemma validated_value_is_safe:
  assumes "validate_memory_value E k v = None"
  shows "\<exists>c. map_of (pe_memory_keys E) k = Some c \<and> length v \<le> mk_max_length c
    \<and> (mk_options c = [] \<or> v \<in> set (mk_options c)) \<and> (\<forall>ch \<in> set v. (32 \<le> ch \<or> ch = 9) \<and> ch \<noteq> 127)"
proof -
  obtain c where c: "map_of (pe_memory_keys E) k = Some c" "\<not> has_disallowed_chars v" "length v \<le> mk_max_length c"
    "mk_options c = [] \<or> v \<in> set (mk_options c)"
    using assms by (auto simp: validate_memory_value_def split: option.splits if_splits)
  have "(32 \<le> ch \<or> ch = 9) \<and> ch \<noteq> 127" if "ch \<in> set v" for ch
  proof -
    have "\<not> (ch = 10 \<or> ch = 13 \<or> ch \<le> 8 \<or> ch = 11 \<or> ch = 12 \<or> (14 \<le> ch \<and> ch \<le> 31) \<or> ch = 127)"
      using c(2) that by (auto simp: has_disallowed_chars_def list_ex_iff)
    then show ?thesis by arith
  qed
  with c show ?thesis by blast
qed

section \<open>When planning raises\<close>

definition unreadable_year :: "policy_env \<Rightarrow> assumption \<Rightarrow> bool" where
  "unreadable_year E a \<longleftrightarrow> an_field a = u ''period'' \<and> an_field a \<noteq> pe_scope_field E
     \<and> pe_isdigit E (strip (an_value a)) \<and> pe_int E (strip (an_value a)) = None"

lemma filters_from_assumptions_None:
  "filters_from_assumptions E as filters = None \<longleftrightarrow> (\<exists>a \<in> set as. unreadable_year E a)"
  by (induction E as filters rule: filters_from_assumptions.induct)
    (auto simp: unreadable_year_def split: option.splits)

lemma shift_year_None:
  "shift_year E delta filters = None \<longleftrightarrow>
     delta \<noteq> 0 \<and> (\<exists>v. map_of filters persian_year = Some v \<and> v \<noteq> J_null \<and> as_int E v = None)"
  by (auto simp: shift_year_def split: option.splits)

definition asked_filters :: "policy_env \<Rightarrow> basis_decision \<Rightarrow> (ustr, json) odict \<Rightarrow> (ustr, json) odict option" where
  "asked_filters E basis found =
     shift_year E (if bd_kind basis = Refines then bd_delta basis else 0) (od_merge (bd_filters basis) found)"

definition declared_assumptions ::
    "policy_env \<Rightarrow> ustr \<Rightarrow> basis_decision \<Rightarrow> (ustr, json) odict \<Rightarrow> (ustr, memory_entry) odict
     \<Rightarrow> (ustr, ustr) odict \<Rightarrow> ustr list \<Rightarrow> assumption list" where
  "declared_assumptions E question basis merged entries overrides denied =
     apply_overrides overrides (mr_assumptions (apply_memory_to_assumptions E
       (if bd_kind basis = Refines then assumptions_for_carry_forward E merged
        else fst (assumptions_for_fresh E question merged)) entries denied))"

lemma plan_generative_eq:
  "plan_generative E question basis found entries overrides denied demoted =
     (case asked_filters E basis found of
        None \<Rightarrow> None
      | Some merged \<Rightarrow>
          map_option (\<lambda>final. the (plan_generative E question basis found entries overrides denied demoted))
            (filters_from_assumptions E (declared_assumptions E question basis merged entries overrides denied) merged))"
  by (simp add: plan_generative_def asked_filters_def declared_assumptions_def Let_def
      split: option.split prod.split)

text \<open>
  Planning a turn raises exactly in two ways, both on a year: a question that shifts the period
  meets an inherited period \<open>int\<close> cannot read, or a period the caller declared or remembered passes
  \<open>str.isdigit\<close> and is refused by \<open>int\<close>. Nothing else in the filters, the memory or the overrides
  can keep a turn from being answered.
\<close>

theorem planning_raises_iff:
  "plan_generative E question basis found entries overrides denied demoted = None \<longleftrightarrow>
     asked_filters E basis found = None
     \<or> (\<exists>merged a. asked_filters E basis found = Some merged
          \<and> a \<in> set (declared_assumptions E question basis merged entries overrides denied) \<and> unreadable_year E a)"
  by (subst plan_generative_eq) (auto simp: filters_from_assumptions_None split: option.split)

text \<open>An override is enough: a superscript two is a digit to Python and no integer.\<close>

definition example_policy :: policy_env where
  "example_policy = \<lparr>pe_scope_key = u ''Ring'', pe_scope_field = u ''ring'', pe_scope_label = u ''All rings'',
     pe_scope_options = [u ''All rings'', u ''Ring A''], pe_scope_prompt = u ''Which ring?'',
     pe_memory_keys = [(u ''scope'', \<lparr>mk_filter_key = u ''Ring'', mk_field = u ''ring'', mk_column = u ''Name'',
        mk_options = [u ''Ring A''], mk_max_length = 120\<rparr>)],
     pe_today = (2026, 8, 27), pe_show = (\<lambda>v. case v of J_str s \<Rightarrow> s | J_num q \<Rightarrow> show_int \<lfloor>q\<rfloor> | _ \<Rightarrow> []),
     pe_lower = map ascii_lower, pe_isdigit = (\<lambda>s. s \<noteq> [] \<and> list_all (\<lambda>c. is_digit c \<or> c = 178) s),
     pe_int = (\<lambda>s. if s \<noteq> [] \<and> list_all is_digit s then Some (foldl (\<lambda>n c. 10 * n + int c - 48) 0 s) else None)\<rparr>"

lemma superscript_override_raises:
  "plan_generative example_policy (u ''again'')
     \<lparr>bd_kind = Refines, bd_turn = Some (u ''t1''), bd_composition = No_composition,
      bd_filters = [(persian_year, J_num 1404)], bd_delta = 0\<rparr>
     [] [] [(u ''period'', [178])] [] False = None"
  by (simp add: ev example_policy_def Let_def strip_def lstrip_def rstrip_def is_space_def is_digit_def u_def)

lemma planning_possible_example:
  "\<exists>p. plan_generative example_policy (u ''top sellers'') fresh_basis [] [] [] [] False = Some p"
proof -
  have asked: "asked_filters example_policy fresh_basis [] = Some []"
    by (simp add: asked_filters_def shift_year_def fresh_basis_def od_merge_def)
  have "declared_assumptions example_policy (u ''top sellers'') fresh_basis [] [] [] []
      = [new_assumption (u ''ring'') (u ''All rings'') By_default, new_assumption (u ''measure'') default_measure By_default,
         new_assumption (u ''period'') (default_period_label example_policy) By_default]"
    by (simp add: declared_assumptions_def ev example_policy_def Let_def u_def startswith_def map_idI
        default_period_label_def)
  moreover have "\<not> pe_isdigit example_policy (strip (default_period_label example_policy))"
    by (simp add: default_period_label_def to_persian_digits_def ev example_policy_def strip_def lstrip_def rstrip_def
        is_space_def is_digit_def)
  ultimately have "filters_from_assumptions example_policy (declared_assumptions example_policy (u ''top sellers'') fresh_basis [] [] [] []) [] \<noteq> None"
    unfolding filters_from_assumptions_None by (simp add: new_assumption_def unreadable_year_def)
  then show ?thesis by (subst plan_generative_eq) (auto simp: asked)
qed

section \<open>What the question leaves open\<close>

text \<open>
  A ranking question that names no scope is asked with the configured label of the open scope as
  a filter value: with no memory and no override the filters handed to the prompt, and kept for the
  next turn, map the scope's filter to that label, though nobody chose it and the label (\<open>All
  rings\<close> in the template) is no value of the column.
\<close>

theorem open_scope_becomes_filter:
  assumes "is_ranking_question question" "bd_kind basis \<noteq> Refines"
    and "map_of (od_merge (bd_filters basis) found) (pe_scope_key E) = None"
    and "pe_scope_field E \<notin> {u ''measure'', u ''period''}" "pe_scope_key E \<noteq> persian_year"
    and "plan_generative E question basis found [] [] denied demoted = Some p"
  shows "map_of (tp_filters p) (pe_scope_key E) = Some (J_str (pe_scope_label E))"
proof -
  define merged where "merged = od_merge (bd_filters basis) found"
  define as where "as = fst (assumptions_for_fresh E question merged)"
  define rest where "rest = new_assumption (u ''measure'') (fst (resolve_measure question)) (snd (resolve_measure question))
      # (if map_of merged persian_year = None then [new_assumption (u ''period'') (default_period_label E) By_default] else [])"
  have as: "as = new_assumption (pe_scope_field E) (pe_scope_label E) By_default # rest"
    using assms(1,3) by (simp add: as_def rest_def assumptions_for_fresh_def Let_def merged_def)
  have "apply_overrides [] (mr_assumptions (apply_memory_to_assumptions E as [] denied)) = as"
    by (simp add: apply_memory_to_assumptions_def apply_overrides_def apply_override_def map_idI)
  then have "filters_from_assumptions E as merged = Some (tp_filters p)"
    using assms(2,6) by (auto simp: plan_generative_def shift_year_def merged_def as_def Let_def split: option.splits prod.splits)
  then have "filters_from_assumptions E rest (AList.update (pe_scope_key E) (J_str (pe_scope_label E)) merged) = Some (tp_filters p)"
    by (simp add: as new_assumption_def)
  moreover have "map_of final (pe_scope_key E) = map_of start (pe_scope_key E)"
    if "filters_from_assumptions E bs start = Some final" "\<forall>a \<in> set bs. an_field a \<noteq> pe_scope_field E" for bs start final
    using that assms(5)
    by (induction E bs start rule: filters_from_assumptions.induct) (auto simp: update_conv' split: if_splits option.splits)
  moreover have "\<forall>a \<in> set rest. an_field a \<noteq> pe_scope_field E" using assms(4) by (auto simp: rest_def new_assumption_def)
  ultimately show ?thesis by (auto simp: update_conv')
qed

theorem open_scope_becomes_filter_witness:
  "\<exists>p. plan_generative example_policy (u ''top sellers'') fresh_basis [] [] [] [] False = Some p
     \<and> map_of (tp_filters p) (u ''Ring'') = Some (J_str (u ''All rings''))"
proof -
  obtain p where p: "plan_generative example_policy (u ''top sellers'') fresh_basis [] [] [] [] False = Some p"
    using planning_possible_example by blast
  moreover have "is_ranking_question (u ''top sellers'')"
    by (simp add: ev u_def startswith_def)
  ultimately have "map_of (tp_filters p) (pe_scope_key example_policy) = Some (J_str (pe_scope_label example_policy))"
    by (intro open_scope_becomes_filter [OF _ _ _ _ _ p]) (simp_all add: ev example_policy_def u_def)
  with p show ?thesis by (auto simp: example_policy_def)
qed


end
