(* ===== verification/Turn_Engine.thy ===== *)
theory Turn_Engine
  imports Turn_Policy Sql_Agent
begin

text \<open>
  \<open>session/engine.py\<close> and \<open>session/composer.py\<close>: answering one question of a conversation. The model,
  the SQL guard, the executor and the vocabulary checks are the environment of Sql_Agent; what
  sqlglot does for the engine (the string literals of a statement, the previous statement without
  its cap) and the size of a data frame are the record \<open>engine_env\<close>. The state is the agent's, with
  its traces of prompts and executed statements. Metadata of an answer that is only displayed (the
  status block, the layout, the type of a column) is left out.
\<close>

section \<open>Answers\<close>

record 'd engine_env =
  en_unicode :: unicode_db
  en_literals :: "ustr \<Rightarrow> ustr list"
  en_uncapped :: "ustr \<Rightarrow> py_error + ustr"
  en_upper :: "ustr \<Rightarrow> ustr"
  en_row_count :: "'d \<Rightarrow> nat"
  en_first_count :: "'d \<Rightarrow> int option"
  en_scan_cap :: int

text \<open>\<open>_GenOutcome\<close>: a refused statement, a failure, or a result.\<close>

datatype turn_failure =
    Router_failed py_error
  | Truncated_output
  | Empty_response
  | Database_failed py_error
  | No_previous_turn

record 'd turn_result =
  rs_sql :: ustr
  rs_rows :: 'd
  rs_injected_top :: "int option"
  rs_truncated :: bool
  rs_unapplied :: "ustr list"
  rs_corrections :: nat

datatype 'd turn_answer =
    Refused py_error "ustr option"
  | Failed turn_failure "(ustr \<times> int option) option"
  | Answer "'d turn_result"

text \<open>
  The correction texts of the engine. A correction holds for one round: it is not kept in the
  prompts of the rounds that follow.
\<close>

definition engine_correction :: "ustr \<Rightarrow> ustr \<Rightarrow> ustr \<Rightarrow> ustr" where
  "engine_correction sql err hint =
     [10, 10] @ u ''The SQL query you generated failed:'' @ [10] @ u ''--- FAILED SQL ---'' @ [10] @ sql @ [10]
     @ u ''--- ERROR ---'' @ [10] @ err @ hint @ [10] @ u ''--- INSTRUCTIONS ---'' @ [10]
     @ u ''Fix ONLY the error above. Return only the corrected SQL statement.'' @ [10, 10] @ u ''SQL:'' @ [10]"

definition filter_correction :: "ustr \<Rightarrow> ustr \<Rightarrow> ustr" where
  "filter_correction sql lacking =
     [10, 10] @ u ''The SQL query you generated does not filter on every value this question'' @ [10]
     @ u ''resolved:'' @ [10] @ u ''--- SQL ---'' @ [10] @ sql @ [10]
     @ u ''--- MISSING FILTER VALUE(S) ---'' @ [10] @ lacking @ [10] @ u ''--- INSTRUCTIONS ---'' @ [10]
     @ u ''Rewrite the query so it also filters on every value listed above, in'' @ [10]
     @ u ''addition to anything it already correctly filters on. Return only the'' @ [10]
     @ u ''corrected SQL statement.'' @ [10, 10] @ u ''SQL:'' @ [10]"

section \<open>Filters a statement leaves out\<close>

definition filter_referenced :: "'d engine_env \<Rightarrow> (ustr, ustr list) odict \<Rightarrow> ustr list \<Rightarrow> ustr \<Rightarrow> ustr \<Rightarrow> bool" where
  "filter_referenced N tokens literals table v =
     (case map_of tokens table of
        Some (t # ts) \<Rightarrow> list_ex (\<lambda>l. list_all (contains l) (t # ts)) literals
      | _ \<Rightarrow> list_ex (\<lambda>l. contains l (normalize_for_matching (en_unicode N) v)) literals)"

definition missing_dimension_filters ::
    "'d engine_env \<Rightarrow> (ustr, ustr) odict \<Rightarrow> (ustr, ustr list) odict \<Rightarrow> ustr \<Rightarrow> (ustr, ustr) odict" where
  "missing_dimension_filters N filters tokens sql =
     (let literals = map (normalize_for_matching (en_unicode N)) (en_literals N sql)
      in filter (\<lambda>(table, v). \<not> filter_referenced N tokens literals table v) filters)"

section \<open>The generation loop\<close>

definition execute_sql ::
    "('w, 'd) agent_env \<Rightarrow> ustr \<Rightarrow> 'w agent_state \<Rightarrow> (py_error + 'd) \<times> 'w agent_state" where
  "execute_sql E sql st =
     (case ag_execute E sql (now st) of
        (r, w) \<Rightarrow> (r, set_world w (st\<lparr>as_executed := as_executed st @ [sql]\<rparr>)))"

definition is_truncated_empty_completion :: "ustr \<Rightarrow> (ustr, json) odict \<Rightarrow> bool" where
  "is_truncated_empty_completion text meta \<longleftrightarrow>
     strip text = [] \<and> map_of meta (u ''finish_reason'') = Some (J_str (u ''length''))"

record 'd value_outcome =
  vo_audit :: "value_audit option"
  vo_prompted :: bool
  vo_executed :: "('d \<times> ustr \<times> int option \<times> (ustr, ustr) odict) option"
  vo_spelling :: "json option"

definition engine_value_round ::
    "('w, 'd) agent_env \<Rightarrow> 'd engine_env \<Rightarrow> (ustr, ustr) odict \<Rightarrow> (ustr, ustr list) odict \<Rightarrow> ustr
     \<Rightarrow> prompt_segments \<Rightarrow> (ustr, ustr) odict \<Rightarrow> 'w agent_state \<Rightarrow> 'd value_outcome \<times> 'w agent_state" where
  "engine_value_round E N filters tokens sql segs lacking st =
     (let check = ag_check_values E sql (now st);
          nothing = (\<lambda>fallback prompted. \<lparr>vo_audit = audit_block check False fallback, vo_prompted = prompted,
                       vo_executed = None, vo_spelling = None\<rparr>)
      in if vc_unknown check = [] then (nothing False False, st)
         else if ag_max_corrections E \<le> 0 then (nothing True False, st)
         else case generate_sql E (with_corrections segs [[10, 10] @ ag_correction_text E sql check]) st of
                (Inl e, st1) \<Rightarrow> (nothing True True, st1)
              | (Inr rr, st1) \<Rightarrow>
                  (case clean_validate_cap E (case rr_text rr of None \<Rightarrow> [] | Some t \<Rightarrow> t) of
                     Inl e \<Rightarrow> (nothing True True, st1)
                   | Inr (sql1, cap) \<Rightarrow>
                       (case respelled E sql1 st1 of
                          (sql2, spelling) \<Rightarrow>
                            (let missing2 = missing_dimension_filters N filters tokens sql2
                             in if vc_unknown (ag_check_values E sql2 (now st1)) \<noteq> []
                                   \<or> \<not> set (map fst missing2) \<subseteq> set (map fst lacking)
                                then (nothing True True, st1)
                                else case execute_sql E sql2 st1 of
                                       (Inl e, st2) \<Rightarrow> (nothing True True, st2)
                                     | (Inr df, st2) \<Rightarrow>
                                         (\<lparr>vo_audit = audit_block check True False, vo_prompted = True,
                                           vo_executed = Some (df, sql2, cap, missing2), vo_spelling = spelling\<rparr>, st2)))))"

record engine_vars =
  ev_segments :: prompt_segments
  ev_last_error :: ustr
  ev_last_exception :: "py_error option"
  ev_last_sql :: "ustr option"
  ev_raw :: ustr
  ev_pending :: "ustr list option"
  ev_filter_used :: bool
  ev_hints :: "ustr list"
  ev_value_checked :: bool
  ev_extra :: nat
  ev_value_check :: "value_audit option"
  ev_value_spelling :: "json option"

definition engine_start :: "prompt_segments \<Rightarrow> engine_vars" where
  "engine_start segs = \<lparr>ev_segments = segs, ev_last_error = u ''None'', ev_last_exception = None, ev_last_sql = None,
     ev_raw = [], ev_pending = None, ev_filter_used = False, ev_hints = [], ev_value_checked = False,
     ev_extra = 0, ev_value_check = None, ev_value_spelling = None\<rparr>"

definition correction_hint_block :: "('w, 'd) agent_env \<Rightarrow> source_routing option \<Rightarrow> engine_vars \<Rightarrow> ustr" where
  "correction_hint_block E routing v =
     (let h = (case ev_last_exception v of None \<Rightarrow> [] | Some e \<Rightarrow> ag_hint E e (map_option so_current routing))
      in if h \<in> set (ev_hints v) then [] else h)"

text \<open>The prompt of a round, and the variables after it was built.\<close>

definition round_prompt ::
    "('w, 'd) agent_env \<Rightarrow> source_routing option \<Rightarrow> nat \<Rightarrow> engine_vars \<Rightarrow> prompt_segments \<times> engine_vars" where
  "round_prompt E routing k v =
     (let shown = (case ev_last_sql v of Some (c # s) \<Rightarrow> c # s | _ \<Rightarrow> ev_raw v) in
      case ev_pending v of
        Some lacking \<Rightarrow>
          (with_corrections (ev_segments v) [filter_correction shown (join (u '', '') lacking)], v\<lparr>ev_pending := None\<rparr>)
      | None \<Rightarrow>
          if 0 < k
          then (let h = correction_hint_block E routing v
                in (with_corrections (ev_segments v)
                      [engine_correction shown (ev_last_error v) (if h = [] then [] else 10 # h)],
                    v\<lparr>ev_hints := (if h = [] then ev_hints v else ev_hints v @ [h])\<rparr>))
          else (ev_segments v, v))"

text \<open>
  A round leaves the loop with an answer, or with an exception that is no \<open>ValueError\<close> from the
  guard, or goes on.
\<close>

datatype ('w, 'd) engine_outcome =
    Done "py_error + 'd turn_answer" engine_vars "'w agent_state"
  | Retry engine_vars "'w agent_state"

definition unapplied :: "(ustr, ustr) odict \<Rightarrow> ustr list" where
  "unapplied lacking = map snd lacking"

definition engine_execute ::
    "('w, 'd) agent_env \<Rightarrow> 'd engine_env \<Rightarrow> nat \<Rightarrow> engine_vars \<Rightarrow> ustr \<Rightarrow> int option \<Rightarrow> (ustr, ustr) odict
     \<Rightarrow> 'd option \<Rightarrow> 'w agent_state \<Rightarrow> ('w, 'd) engine_outcome" where
  "engine_execute E N k v sql cap lacking have st =
     (case (case have of Some df \<Rightarrow> (Inr df, st) | None \<Rightarrow> execute_sql E sql st) of
        (Inl e, st1) \<Rightarrow>
          if int k = ag_max_corrections E then Done (Inr (Failed (Database_failed e) (Some (sql, cap)))) v st1
          else Retry (v\<lparr>ev_last_error := ag_show E e, ev_last_exception := None\<rparr>) st1
      | (Inr df, st1) \<Rightarrow>
          Done (Inr (Answer \<lparr>rs_sql = sql, rs_rows = df, rs_injected_top = cap,
                 rs_truncated = (case cap of None \<Rightarrow> False | Some n \<Rightarrow> n \<le> int (en_row_count N df)),
                 rs_unapplied = unapplied lacking, rs_corrections = k + ev_extra v\<rparr>)) v st1)"

definition engine_accepted ::
    "('w, 'd) agent_env \<Rightarrow> 'd engine_env \<Rightarrow> (ustr, ustr) odict \<Rightarrow> (ustr, ustr list) odict \<Rightarrow> nat \<Rightarrow> prompt_segments
     \<Rightarrow> engine_vars \<Rightarrow> ustr \<Rightarrow> int option \<Rightarrow> 'w agent_state \<Rightarrow> ('w, 'd) engine_outcome" where
  "engine_accepted E N filters tokens k segs v sql cap st =
     (let lacking = missing_dimension_filters N filters tokens sql
      in if lacking \<noteq> [] \<and> \<not> ev_filter_used v \<and> int k < ag_max_corrections E
         then Retry (v\<lparr>ev_last_sql := Some sql, ev_filter_used := True, ev_pending := Some (map snd lacking)\<rparr>) st
         else case respelled E sql st of
           (sql1, spelling) \<Rightarrow>
             (let v1 = v\<lparr>ev_last_sql := Some sql1,
                    ev_value_spelling := (if ag_value_spelling E then spelling else ev_value_spelling v)\<rparr>
              in if ag_value_check E \<and> \<not> ev_value_checked v
                 then (case engine_value_round E N filters tokens sql1 segs lacking st of
                         (vo, st1) \<Rightarrow>
                           (let v2 = v1\<lparr>ev_value_checked := True, ev_value_check := vo_audit vo,
                                  ev_extra := (if vo_prompted vo then 1 else ev_extra v1)\<rparr>
                            in case vo_executed vo of
                                 None \<Rightarrow> engine_execute E N k v2 sql1 cap lacking None st1
                               | Some (df, sql2, cap2, missing2) \<Rightarrow>
                                   engine_execute E N k
                                     (v2\<lparr>ev_last_sql := Some sql2, ev_value_spelling := vo_spelling vo\<rparr>)
                                     sql2 cap2 missing2 (Some df) st1))
                 else engine_execute E N k v1 sql1 cap lacking None st))"

text \<open>The statement shown as refused: the cleaned answer, when there was one.\<close>

definition refused_sql :: "('w, 'd) agent_env \<Rightarrow> ustr \<Rightarrow> ustr option" where
  "refused_sql E raw = (case gd_clean (ag_guard E) raw of Inl e \<Rightarrow> None | Inr sql \<Rightarrow> Some sql)"

definition engine_guard ::
    "('w, 'd) agent_env \<Rightarrow> 'd engine_env \<Rightarrow> (ustr, ustr) odict \<Rightarrow> (ustr, ustr list) odict \<Rightarrow> nat \<Rightarrow> prompt_segments
     \<Rightarrow> engine_vars \<Rightarrow> (ustr, json) odict \<Rightarrow> 'w agent_state \<Rightarrow> ('w, 'd) engine_outcome" where
  "engine_guard E N filters tokens k segs v meta st =
     (if strip (ev_raw v) = []
      then if is_truncated_empty_completion (ev_raw v) meta then Done (Inr (Failed Truncated_output None)) v st
           else if int k = ag_max_corrections E then Done (Inr (Failed Empty_response None)) v st
           else Retry (v\<lparr>ev_last_error := u ''LLM returned an empty response.'', ev_last_exception := None\<rparr>) st
      else case clean_validate_cap E (ev_raw v) of
        Inl (e, cand) \<Rightarrow>
          (case e of
             Policy_rejection m \<Rightarrow> Done (Inr (Refused e (refused_sql E (ev_raw v)))) v st
           | _ \<Rightarrow>
               if \<not> is_value_error e then Done (Inl e) v st
               else if int k = ag_max_corrections E then Done (Inr (Refused e (refused_sql E (ev_raw v)))) v st
               else Retry (v\<lparr>ev_last_error := ag_show E e, ev_last_exception := Some e, ev_last_sql := None\<rparr>) st)
      | Inr (sql, cap) \<Rightarrow> engine_accepted E N filters tokens k segs v sql cap st)"

definition engine_round ::
    "('w, 'd) agent_env \<Rightarrow> 'd engine_env \<Rightarrow> (ustr, ustr) odict \<Rightarrow> (ustr, ustr list) odict \<Rightarrow> nat \<Rightarrow> engine_vars
     \<Rightarrow> 'w agent_state \<Rightarrow> ('w, 'd) engine_outcome" where
  "engine_round E N filters tokens k v0 st =
     (case round_prompt E (as_routing st) k (v0\<lparr>ev_value_spelling := None\<rparr>) of
        (segs, v) \<Rightarrow>
          (case generate_with_source_fallback (ag_build E) (generate_sql E) (as_routing st) segs st of
             (Inl e, routing, st1) \<Rightarrow> Done (Inr (Failed (Router_failed e) None)) v (st1\<lparr>as_routing := routing\<rparr>)
           | (Inr (rr, replaced), routing, st1) \<Rightarrow>
               (let v1 = (case replaced of
                            None \<Rightarrow> v
                          | Some s \<Rightarrow> v\<lparr>ev_segments := s, ev_last_sql := None, ev_pending := None\<rparr>)
                in engine_guard E N filters tokens k segs
                     (v1\<lparr>ev_raw := (case rr_text rr of None \<Rightarrow> [] | Some t \<Rightarrow> t)\<rparr>)
                     (rr_meta rr) (st1\<lparr>as_routing := routing\<rparr>))))"

fun engine_loop ::
    "('w, 'd) agent_env \<Rightarrow> 'd engine_env \<Rightarrow> (ustr, ustr) odict \<Rightarrow> (ustr, ustr list) odict \<Rightarrow> nat \<Rightarrow> nat \<Rightarrow> engine_vars
     \<Rightarrow> 'w agent_state \<Rightarrow> (py_error + 'd turn_answer) \<times> engine_vars \<times> 'w agent_state" where
  "engine_loop E N filters tokens 0 k v st =
     (Inl (Runtime_error (u ''TurnEngine generation loop exited unexpectedly'')), v, st)"
| "engine_loop E N filters tokens (Suc n) k v st =
     (case engine_round E N filters tokens k v st of
        Done r v' st' \<Rightarrow> (r, v', st')
      | Retry v' st' \<Rightarrow> engine_loop E N filters tokens n (Suc k) v' st')"

definition generate_validate_execute ::
    "('w, 'd) agent_env \<Rightarrow> 'd engine_env \<Rightarrow> (ustr, ustr) odict \<Rightarrow> (ustr, ustr list) odict \<Rightarrow> prompt_segments
     \<Rightarrow> 'w agent_state \<Rightarrow> (py_error + 'd turn_answer) \<times> engine_vars \<times> 'w agent_state" where
  "generate_validate_execute E N filters tokens segs st =
     engine_loop E N filters tokens (nat (ag_max_corrections E + 1)) 0 (engine_start segs) st"

section \<open>The invariant of the loop\<close>

declare filter_referenced_def [ev] missing_dimension_filters_def [ev] execute_sql_def [ev]
  is_truncated_empty_completion_def [ev] engine_value_round_def [ev] engine_start_def [ev]
  correction_hint_block_def [ev] round_prompt_def [ev] unapplied_def [ev] engine_execute_def [ev]
  engine_accepted_def [ev] refused_sql_def [ev] engine_guard_def [ev] engine_round_def [ev]
  generate_validate_execute_def [ev]

lemma startswith_append: "startswith s p \<Longrightarrow> startswith (s @ t) p"
  by (auto simp: startswith_iff)

lemma made_from_more: "made_from B p \<Longrightarrow> made_from B (with_corrections p cs)"
  by (auto simp: made_from_def list_ex_iff with_corrections_def intro!: startswith_append)

lemma execute_sql_effect:
  assumes "execute_sql E sql st = (r, st')"
  shows "as_prompts st' = as_prompts st \<and> as_routing st' = as_routing st \<and> as_executed st' = as_executed st @ [sql]"
  using assms by (auto simp: execute_sql_def split: prod.splits)

text \<open>A filter the statement that runs was checked to carry, before its literals were respelled.\<close>

definition filter_applied ::
    "('w, 'd) agent_env \<Rightarrow> 'd engine_env \<Rightarrow> (ustr, ustr list) odict \<Rightarrow> ustr \<Rightarrow> ustr \<times> ustr \<Rightarrow> bool" where
  "filter_applied E N tokens sql = (\<lambda>(table, v). \<exists>sql0.
     (sql = sql0 \<or> ag_value_spelling E \<and> (\<exists>w. sql = fst (ag_respell E sql0 w)))
     \<and> filter_referenced N tokens (map (normalize_for_matching (en_unicode N)) (en_literals N sql0)) table v)"

definition accounted ::
    "('w, 'd) agent_env \<Rightarrow> 'd engine_env \<Rightarrow> (ustr, ustr) odict \<Rightarrow> (ustr, ustr list) odict \<Rightarrow> ustr \<Rightarrow> ustr list \<Rightarrow> bool" where
  "accounted E N filters tokens sql reported \<longleftrightarrow>
     list_all (\<lambda>f. snd f \<in> set reported \<or> filter_applied E N tokens sql f) filters"

lemma accounted_missing:
  assumes "respelled E sql st = (sql1, sp)"
  shows "accounted E N filters tokens sql1 (unapplied (missing_dimension_filters N filters tokens sql))"
proof -
  have r: "sql1 = sql \<or> ag_value_spelling E \<and> (\<exists>w. sql1 = fst (ag_respell E sql w))"
    using assms unfolding respelled_def by (metis fst_conv)
  show ?thesis
    unfolding accounted_def list_all_iff
  proof
    fix f assume f: "f \<in> set filters"
    show "snd f \<in> set (unapplied (missing_dimension_filters N filters tokens sql)) \<or> filter_applied E N tokens sql1 f"
      using f r by (cases f) (auto simp: unapplied_def missing_dimension_filters_def filter_applied_def Let_def image_iff)
  qed
qed

definition answer_ok ::
    "('w, 'd) agent_env \<Rightarrow> 'd engine_env \<Rightarrow> (ustr, ustr) odict \<Rightarrow> (ustr, ustr list) odict \<Rightarrow> nat
     \<Rightarrow> py_error + 'd turn_answer \<Rightarrow> bool" where
  "answer_ok E N filters tokens c r =
     (case r of
        Inl e \<Rightarrow> \<not> is_value_error e \<and> (\<exists>raw cand. clean_validate_cap E raw = Inl (e, cand))
      | Inr (Answer a) \<Rightarrow> approved E (rs_sql a) \<and> rs_corrections a = c
          \<and> accounted E N filters tokens (rs_sql a) (rs_unapplied a)
      | Inr (Failed x sql) \<Rightarrow> (case sql of None \<Rightarrow> True | Some s \<Rightarrow> approved E (fst s))
      | Inr (Refused e sql) \<Rightarrow> is_value_error e)"

definition engine_ok ::
    "('w, 'd) agent_env \<Rightarrow> prompt_segments list \<Rightarrow> 'w agent_state \<Rightarrow> nat \<Rightarrow> engine_vars \<Rightarrow> 'w agent_state \<Rightarrow> bool" where
  "engine_ok E B st0 k v st \<longleftrightarrow> trace_ok E B st0 (k + ev_extra v + fell st) st
     \<and> ev_extra v \<le> (if ag_value_check E \<and> ev_value_checked v then 1 else 0)
     \<and> ev_segments v \<in> set B \<and> route_ok st0 st"

definition engine_outcome_ok ::
    "('w, 'd) agent_env \<Rightarrow> 'd engine_env \<Rightarrow> (ustr, ustr) odict \<Rightarrow> (ustr, ustr list) odict \<Rightarrow> prompt_segments list
     \<Rightarrow> 'w agent_state \<Rightarrow> nat \<Rightarrow> ('w, 'd) engine_outcome \<Rightarrow> bool" where
  "engine_outcome_ok E N filters tokens B st0 k out =
     (case out of
        Done r v st \<Rightarrow> engine_ok E B st0 (Suc k) v st \<and> answer_ok E N filters tokens (k + ev_extra v) r
      | Retry v st \<Rightarrow> engine_ok E B st0 (Suc k) v st)"

lemma engine_value_round_effect:
  assumes "engine_value_round E N filters tokens sql segs lacking st = (vo, st')" "made_from B segs" "trace_ok E B st0 n st"
  shows "trace_ok E B st0 (if vo_prompted vo then Suc n else n) st' \<and> as_routing st' = as_routing st
    \<and> (\<forall>df s cap m. vo_executed vo = Some (df, s, cap, m) \<longrightarrow>
         vo_prompted vo \<and> approved E s \<and> accounted E N filters tokens s (unapplied m))"
proof -
  define check where "check = ag_check_values E sql (now st)"
  define p where "p = with_corrections segs [[10, 10] @ ag_correction_text E sql check]"
  consider (none) "vc_unknown check = [] \<or> ag_max_corrections E \<le> 0"
    | (call) "vc_unknown check \<noteq> []" "\<not> ag_max_corrections E \<le> 0" by blast
  then show ?thesis
  proof cases
    case none
    with assms have "st' = st" "\<not> vo_prompted vo" "vo_executed vo = None"
      by (auto simp: engine_value_round_def Let_def check_def split: if_splits)
    with assms(3) show ?thesis by simp
  next
    case call
    obtain r st1 where g: "generate_sql E p st = (r, st1)" by fastforce
    note ge = generate_sql_effect [OF g]
    have t1: "trace_ok E B st0 (Suc n) st1"
      by (rule trace_ok_prompt [OF assms(3)]) (use ge made_from_more [OF assms(2)] in \<open>simp_all add: p_def\<close>)
    note unf = engine_value_round_def [of E N filters tokens sql segs lacking st, unfolded Let_def, folded check_def, folded p_def]
    show ?thesis
    proof (cases "\<exists>rr sql1 cap. r = Inr rr \<and> clean_validate_cap E (case rr_text rr of None \<Rightarrow> [] | Some t \<Rightarrow> t) = Inr (sql1, cap)")
      case False
      with assms(1) call g have "st' = st1" "vo_prompted vo" "vo_executed vo = None"
        unfolding unf by (auto split: sum.splits)
      with t1 ge show ?thesis by simp
    next
      case True
      then obtain rr sql1 cap where rr: "r = Inr rr"
        "clean_validate_cap E (case rr_text rr of None \<Rightarrow> [] | Some t \<Rightarrow> t) = Inr (sql1, cap)" by blast
      obtain sql2 sp where sp: "respelled E sql1 st1 = (sql2, sp)" by fastforce
      define m2 where "m2 = missing_dimension_filters N filters tokens sql2"
      have ap: "approved E sql2" using rr(2) sp by (rule approved_respelled)
      have "accounted E N filters tokens sql2 (unapplied m2)"
        unfolding m2_def accounted_def filter_applied_def list_all_iff unapplied_def missing_dimension_filters_def
        by (force simp: Let_def)
      moreover obtain r2 st2 where x: "execute_sql E sql2 st1 = (r2, st2)" by fastforce
      moreover note xe = execute_sql_effect [OF x]
      moreover have "trace_ok E B st0 (Suc n) st2" using trace_ok_exec [OF t1 _ ap] xe by blast
      ultimately show ?thesis
        using assms(1) call g rr sp t1 ge ap unfolding unf by (auto simp: m2_def split: if_splits sum.splits)
    qed
  qed
qed

lemma engine_execute_ok:
  assumes "engine_ok E B st0 (Suc k) v st" "approved E sql" "accounted E N filters tokens sql (unapplied lacking)"
  shows "engine_outcome_ok E N filters tokens B st0 k (engine_execute E N k v sql cap lacking have st)"
proof -
  obtain r st1 where run: "(case have of Some df \<Rightarrow> (Inr df, st) | None \<Rightarrow> execute_sql E sql st) = (r, st1)" by fastforce
  have "engine_ok E B st0 (Suc k) v st1"
  proof (cases "have")
    case None
    then have "execute_sql E sql st = (r, st1)" using run by simp
    note re = execute_sql_effect [OF this]
    show ?thesis
      using assms(1,2) trace_ok_exec [of E B st0 _ st st1 sql] re
      by (simp add: engine_ok_def route_ok_cong [of st1 st] fell_cong [of st1 st])
  qed (use run assms(1) in simp)
  then show ?thesis
    using assms(2,3) by (cases r) (simp_all add: engine_execute_def run engine_outcome_ok_def answer_ok_def engine_ok_def)
qed

lemma engine_ok_cong:
  "engine_ok E B st0 k v st \<Longrightarrow> ev_extra v' = ev_extra v \<Longrightarrow> ev_value_checked v' = ev_value_checked v \<Longrightarrow>
   ev_segments v' = ev_segments v \<Longrightarrow> engine_ok E B st0 k v' st"
  by (simp add: engine_ok_def)

definition respelled_vars :: "('w, 'd) agent_env \<Rightarrow> ustr \<Rightarrow> json option \<Rightarrow> engine_vars \<Rightarrow> engine_vars" where
  "respelled_vars E sql1 sp v =
     v\<lparr>ev_last_sql := Some sql1, ev_value_spelling := (if ag_value_spelling E then sp else ev_value_spelling v)\<rparr>"

definition checked_vars :: "'d value_outcome \<Rightarrow> engine_vars \<Rightarrow> engine_vars" where
  "checked_vars vo v = v\<lparr>ev_value_checked := True, ev_value_check := vo_audit vo,
     ev_extra := (if vo_prompted vo then 1 else ev_extra v)\<rparr>"

text \<open>The four ways an accepted statement goes.\<close>

lemma engine_accepted_cases:
  assumes sp: "respelled E sql st = (sql1, sp)"
    and lacking: "lacking = missing_dimension_filters N filters tokens sql"
  obtains (again) "engine_accepted E N filters tokens k segs v sql cap st =
      Retry (v\<lparr>ev_last_sql := Some sql, ev_filter_used := True, ev_pending := Some (map snd lacking)\<rparr>) st"
  | (run) "engine_accepted E N filters tokens k segs v sql cap st =
      engine_execute E N k (respelled_vars E sql1 sp v) sql1 cap lacking None st"
  | (fallback) vo st1 where "ag_value_check E" "\<not> ev_value_checked v"
      "engine_value_round E N filters tokens sql1 segs lacking st = (vo, st1)"
      "engine_accepted E N filters tokens k segs v sql cap st =
         engine_execute E N k (checked_vars vo (respelled_vars E sql1 sp v)) sql1 cap lacking None st1"
  | (corrected) vo st1 df sql2 cap2 lacking2 where "ag_value_check E" "\<not> ev_value_checked v"
      "engine_value_round E N filters tokens sql1 segs lacking st = (vo, st1)"
      "vo_executed vo = Some (df, sql2, cap2, lacking2)"
      "engine_accepted E N filters tokens k segs v sql cap st =
         engine_execute E N k ((checked_vars vo (respelled_vars E sql1 sp v))
             \<lparr>ev_last_sql := Some sql2, ev_value_spelling := vo_spelling vo\<rparr>) sql2 cap2 lacking2 (Some df) st1"
proof -
  let ?again = "lacking \<noteq> [] \<and> \<not> ev_filter_used v \<and> int k < ag_max_corrections E"
  let ?check = "ag_value_check E \<and> \<not> ev_value_checked v"
  note unf = engine_accepted_def [of E N filters tokens k segs v sql cap st, unfolded Let_def lacking [symmetric] sp prod.case]
  consider "?again" | "\<not> ?again" "\<not> ?check" | "\<not> ?again" "?check" by blast
  then show thesis
  proof cases
    case 1
    then show thesis by (intro again) (simp add: unf)
  next
    case 2
    then show thesis unfolding unf by (intro run) (simp only: if_not_P unf respelled_vars_def if_False not_True_eq_False)
  next
    case 3
    obtain vo st1 where vo: "engine_value_round E N filters tokens sql1 segs lacking st = (vo, st1)" by fastforce
    show thesis
    proof (cases "vo_executed vo")
      case None
      show thesis
        by (rule fallback [OF conjunct1 [OF 3(2)] conjunct2 [OF 3(2)] vo])
          (simp only: unf if_not_P [OF 3(1)] if_P [OF 3(2)] vo prod.case None option.case respelled_vars_def checked_vars_def)
    next
      case (Some x)
      obtain df sql2 cap2 lacking2 where x: "vo_executed vo = Some (df, sql2, cap2, lacking2)" using Some by (cases x) auto
      show thesis
        by (rule corrected [OF conjunct1 [OF 3(2)] conjunct2 [OF 3(2)] vo x])
          (simp only: unf if_not_P [OF 3(1)] if_P [OF 3(2)] vo prod.case x option.case respelled_vars_def checked_vars_def)
    qed
  qed
qed

lemma engine_accepted_ok:
  assumes ok: "engine_ok E B st0 (Suc k) v st" and made: "made_from B segs" and g: "clean_validate_cap E raw = Inr (sql, c)"
  shows "engine_outcome_ok E N filters tokens B st0 k (engine_accepted E N filters tokens k segs v sql cap st)"
proof -
  define lacking where "lacking = missing_dimension_filters N filters tokens sql"
  obtain sql1 sp where sp: "respelled E sql st = (sql1, sp)" by fastforce
  note ap = approved_respelled [OF g sp]
  note acc = accounted_missing [OF sp, of N filters tokens, folded lacking_def]
  have ok1: "engine_ok E B st0 (Suc k) (respelled_vars E sql1 sp v) st"
    using ok by (rule engine_ok_cong) (simp_all add: respelled_vars_def)
  have checked: "engine_ok E B st0 (Suc k) (checked_vars vo (respelled_vars E sql1 sp v)) st1
      \<and> (\<forall>df s cap m. vo_executed vo = Some (df, s, cap, m) \<longrightarrow> approved E s \<and> accounted E N filters tokens s (unapplied m))"
    if vo: "engine_value_round E N filters tokens sql1 segs lacking st = (vo, st1)" "ag_value_check E" "\<not> ev_value_checked v" for vo st1
  proof -
    have z: "ev_extra v = 0" using ok that by (simp add: engine_ok_def)
    have t: "trace_ok E B st0 (Suc k + fell st) st" using ok z by (simp add: engine_ok_def)
    note ve = engine_value_round_effect [OF vo(1) made t]
    then show ?thesis
      using ok that by (auto simp: engine_ok_def checked_vars_def respelled_vars_def z
          route_ok_cong [of st1 st] fell_cong [of st1 st] split: if_splits)
  qed
  show ?thesis
    using sp lacking_def
  proof (cases rule: engine_accepted_cases [where k = k and segs = segs and v = v and cap = cap])
    case again
    have "engine_ok E B st0 (Suc k) (v\<lparr>ev_last_sql := Some sql, ev_filter_used := True, ev_pending := Some (map snd lacking)\<rparr>) st"
      using ok by (rule engine_ok_cong) simp_all
    then show ?thesis unfolding again by (simp add: engine_outcome_ok_def)
  next
    case run
    show ?thesis unfolding run by (rule engine_execute_ok [OF ok1 ap acc])
  next
    case (fallback vo st1)
    show ?thesis unfolding fallback(4)
      by (rule engine_execute_ok [OF _ ap acc]) (use checked fallback in blast)
  next
    case (corrected vo st1 df sql2 cap2 lacking2)
    note ck = checked [OF corrected(3,1,2)]
    show ?thesis unfolding corrected(5)
      by (rule engine_execute_ok [OF engine_ok_cong [OF conjunct1 [OF ck]]]) (use ck corrected(4) in simp_all)
  qed
qed

lemma engine_guard_ok:
  assumes ok: "engine_ok E B st0 (Suc k) v st" and made: "made_from B segs"
  shows "engine_outcome_ok E N filters tokens B st0 k (engine_guard E N filters tokens k segs v meta st)"
proof -
  have retry: "engine_ok E B st0 (Suc k) (v\<lparr>ev_last_error := m, ev_last_exception := x\<rparr>) st"
    "engine_ok E B st0 (Suc k) (v\<lparr>ev_last_error := m, ev_last_exception := x, ev_last_sql := None\<rparr>) st" for m x
    using engine_ok_cong [OF ok] by simp_all
  show ?thesis
  proof (cases "strip (ev_raw v) = []")
    case True
    then show ?thesis using ok retry by (simp add: engine_guard_def engine_outcome_ok_def answer_ok_def)
  next
    case False
    show ?thesis
    proof (cases "clean_validate_cap E (ev_raw v)")
      case (Inr sc)
      obtain sql cap where "sc = (sql, cap)" by fastforce
      then show ?thesis using engine_accepted_ok [OF ok made] Inr False by (simp add: engine_guard_def)
    next
      case (Inl ec)
      obtain e cand where ec: "ec = (e, cand)" by fastforce
      show ?thesis using Inl ec False ok retry
        by (cases e) (auto simp: engine_guard_def engine_outcome_ok_def answer_ok_def)
    qed
  qed
qed

lemma round_prompt_vars:
  "round_prompt E routing k v = (segs, v') \<Longrightarrow>
     ev_extra v' = ev_extra v \<and> ev_value_checked v' = ev_value_checked v \<and> ev_segments v' = ev_segments v
     \<and> (segs = ev_segments v \<or> (\<exists>cs. segs = with_corrections (ev_segments v) cs))"
  by (auto simp: round_prompt_def Let_def split: option.splits if_splits)

lemma engine_round_ok:
  assumes ok: "engine_ok E (bases E initial (as_routing st0)) st0 k v0 st"
  shows "engine_outcome_ok E N filters tokens (bases E initial (as_routing st0)) st0 k (engine_round E N filters tokens k v0 st)"
proof -
  let ?B = "bases E initial (as_routing st0)"
  obtain segs v where rp: "round_prompt E (as_routing st) k (v0\<lparr>ev_value_spelling := None\<rparr>) = (segs, v)" by fastforce
  note rv = round_prompt_vars [OF rp]
  have okv: "engine_ok E ?B st0 k v st" using ok by (rule engine_ok_cong) (use rv in simp_all)
  then have t0: "trace_ok E ?B st0 (k + ev_extra v + fell st) st" and init: "ev_segments v \<in> set ?B" and ro: "route_ok st0 st"
    and ex: "ev_extra v \<le> (if ag_value_check E \<and> ev_value_checked v then 1 else 0)" by (simp_all add: engine_ok_def)
  have base: "made_from ?B segs" using rv okv by (auto simp: engine_ok_def intro: made_from_base made_from_corrections)
  obtain res routing st1 where g:
    "generate_with_source_fallback (ag_build E) (generate_sql E) (as_routing st) segs st = (res, routing, st1)"
    by (metis prod_cases3)
  define st2 where "st2 = st1\<lparr>as_routing := routing\<rparr>"
  have round: "engine_round E N filters tokens k v0 st = (case res of
      Inl e \<Rightarrow> Done (Inr (Failed (Router_failed e) None)) v st2
    | Inr (rr, replaced) \<Rightarrow>
        engine_guard E N filters tokens k segs
          ((case replaced of None \<Rightarrow> v | Some s \<Rightarrow> v\<lparr>ev_segments := s, ev_last_sql := None, ev_pending := None\<rparr>)
          \<lparr>ev_raw := (case rr_text rr of None \<Rightarrow> [] | Some t \<Rightarrow> t)\<rparr>) (rr_meta rr) st2)"
    unfolding engine_round_def Let_def rp g by (simp add: g st2_def split: sum.split prod.split)
  have "trace_ok E ?B st0 (Suc k + ev_extra v + fell st2) st2 \<and> route_ok st0 st2
    \<and> (\<forall>rr s. res = Inr (rr, Some s) \<longrightarrow> s \<in> set ?B)"
    using g
  proof (cases rule: generate_fallback_cases)
    case (once r)
    note ge = generate_sql_effect [OF once(1)]
    have r2: "as_routing st2 = as_routing st" using once by (simp add: st2_def)
    have "trace_ok E ?B st0 (Suc (k + ev_extra v + fell st)) st2"
      by (rule trace_ok_prompt [OF t0 _ base]) (use ge in \<open>simp_all add: st2_def\<close>)
    with r2 ro once show ?thesis
      by (cases r) (simp_all add: route_ok_cong [OF r2] fell_cong [OF r2])
  next
    case (twice e s1 rt rt' src r)
    note g1 = generate_sql_effect [OF twice(1)] and g2 = generate_sql_effect [OF twice(10)]
    note nx = route_ok_next [OF ro twice(3,4), of E initial]
    have t1: "trace_ok E ?B st0 (Suc (k + ev_extra v + fell st)) s1"
      by (rule trace_ok_prompt [OF t0 _ base]) (use g1 in simp_all)
    have mb: "made_from ?B (ag_build E src)" using nx by (blast intro: made_from_base)
    have "trace_ok E ?B st0 (Suc (Suc (k + ev_extra v + fell st))) st2"
      by (rule trace_ok_prompt [OF t1 _ mb]) (use g2 in \<open>simp_all add: st2_def\<close>)
    moreover have "fell st2 = 1" using twice by (simp add: st2_def fell_def)
    ultimately show ?thesis using nx twice by (cases r) (simp_all add: route_ok_def)
  qed
  then have t2: "trace_ok E ?B st0 (Suc k + ev_extra v + fell st2) st2" and r2: "route_ok st0 st2"
    and rep: "\<And>rr s. res = Inr (rr, Some s) \<Longrightarrow> s \<in> set ?B" by auto
  show ?thesis
  proof (cases res)
    case (Inl e)
    then show ?thesis
      unfolding round using t2 r2 ex init by (simp add: engine_outcome_ok_def answer_ok_def engine_ok_def)
  next
    case (Inr p)
    obtain rr replaced where p: "p = (rr, replaced)" by fastforce
    have "engine_ok E ?B st0 (Suc k)
        ((case replaced of None \<Rightarrow> v | Some s \<Rightarrow> v\<lparr>ev_segments := s, ev_last_sql := None, ev_pending := None\<rparr>)
          \<lparr>ev_raw := (case rr_text rr of None \<Rightarrow> [] | Some t \<Rightarrow> t)\<rparr>) st2"
      using t2 r2 ex init rep Inr p by (cases replaced) (simp_all add: engine_ok_def)
    from engine_guard_ok [OF this base] show ?thesis unfolding round Inr p by simp
  qed
qed

lemma engine_last_round:
  assumes "int k = ag_max_corrections E"
  shows "\<exists>r v' st'. engine_round E N filters tokens k v st = Done r v' st'"
proof -
  have ex: "\<exists>r v' st'. engine_execute E N k w sql cap lacking df t = Done r v' st'" for w sql cap lacking df t
    using assms by (auto simp: engine_execute_def split: sum.split prod.split)
  have ac: "\<exists>r v' st'. engine_accepted E N filters tokens k segs w sql cap t = Done r v' st'" for segs w sql cap t
    using ex assms by (auto simp: engine_accepted_def Let_def split: prod.split option.split)
  have gs: "\<exists>r v' st'. engine_guard E N filters tokens k segs w meta t = Done r v' st'" for segs w meta t
    using assms ac by (auto simp: engine_guard_def split: sum.split prod.split py_error.split)
  show ?thesis
    using gs by (auto simp: engine_round_def Let_def split: sum.split prod.split)
qed

lemma engine_loop_ok:
  "engine_ok E (bases E initial (as_routing st0)) st0 k v st \<Longrightarrow> engine_loop E N filters tokens (Suc n) k v st = (r, v', st') \<Longrightarrow>
     int (k + Suc n) = ag_max_corrections E + 1 \<Longrightarrow>
     \<exists>j \<le> k + n. engine_ok E (bases E initial (as_routing st0)) st0 (Suc j) v' st'
       \<and> answer_ok E N filters tokens (j + ev_extra v') r"
proof (induction n arbitrary: k v st)
  case 0
  then have "int k = ag_max_corrections E" by simp
  then obtain r1 v1 st1 where "engine_round E N filters tokens k v st = Done r1 v1 st1" using engine_last_round by blast
  with 0 engine_round_ok [OF 0(1), of N filters tokens] show ?case
    by (intro exI [of _ k]) (simp add: engine_outcome_ok_def)
next
  case (Suc n)
  show ?case
  proof (cases "engine_round E N filters tokens k v st")
    case (Done r1 v1 st1)
    with Suc.prems engine_round_ok [OF Suc.prems(1), of N filters tokens] show ?thesis
      by (intro exI [of _ k]) (simp add: engine_outcome_ok_def)
  next
    case (Retry v1 st1)
    with engine_round_ok [OF Suc.prems(1), of N filters tokens]
    have "engine_ok E (bases E initial (as_routing st0)) st0 (Suc k) v1 st1" by (simp add: engine_outcome_ok_def)
    from Suc.IH [OF this] Suc.prems Retry show ?thesis by auto
  qed
qed

section \<open>What a question costs and what it may run\<close>

lemma engine_start_ok:
  assumes "fell st = 0"
  shows "engine_ok E (bases E segs (as_routing st)) st 0 (engine_start segs) st"
  using assms by (simp add: engine_ok_def trace_ok_start engine_start_def bases_def route_ok_def)

lemma generate_validate_execute_ok:
  assumes "generate_validate_execute E N filters tokens segs st = (r, v, st')" "fell st = 0" "0 \<le> ag_max_corrections E"
  shows "\<exists>j. int j \<le> ag_max_corrections E \<and> engine_ok E (bases E segs (as_routing st)) st (Suc j) v st'
    \<and> answer_ok E N filters tokens (j + ev_extra v) r"
proof -
  define n where "n = nat (ag_max_corrections E)"
  have n: "nat (ag_max_corrections E + 1) = Suc n" "int (0 + Suc n) = ag_max_corrections E + 1"
    using assms(3) by (simp_all add: n_def)
  have "engine_loop E N filters tokens (Suc n) 0 (engine_start segs) st = (r, v, st')"
    using assms(1) by (simp add: generate_validate_execute_def n(1))
  from engine_loop_ok [OF engine_start_ok [OF assms(2)] this n(2)] obtain j where "j \<le> n"
    "engine_ok E (bases E segs (as_routing st)) st (Suc j) v st'" "answer_ok E N filters tokens (j + ev_extra v) r" by auto
  then show ?thesis using n(2) by (intro exI [of _ j]) simp
qed



text \<open>
  A question is always answered by an outcome: unless the guard itself raises something that is
  no \<open>ValueError\<close>, the loop ends with a result, a refusal or a failure to show - the exception after
  the loop is never raised.
\<close>

theorem turn_always_has_outcome:
  assumes "\<And>raw e cand. clean_validate_cap E raw = Inl (e, cand) \<Longrightarrow> is_value_error e"
    and "fell st = 0" "0 \<le> ag_max_corrections E"
  shows "\<exists>answer v st'. generate_validate_execute E N filters tokens segs st = (Inr answer, v, st')"
proof -
  obtain r v st' where g: "generate_validate_execute E N filters tokens segs st = (r, v, st')" by (metis prod_cases3)
  from generate_validate_execute_ok [OF g assms(2,3)] show ?thesis
    using assms(1) g by (cases r) (auto simp: answer_ok_def)
qed

lemma value_round_prompt:
  assumes "engine_value_round E N filters tokens sql segs lacking st = (vo, st')"
  shows "as_prompts st' = as_prompts st
    \<or> (\<exists>p. as_prompts st' = as_prompts st @ [p] \<and> static_prefix p = static_prefix segs)"
proof -
  define p where "p = with_corrections segs [[10, 10] @ ag_correction_text E sql (ag_check_values E sql (now st))]"
  obtain r st1 where g: "generate_sql E p st = (r, st1)" by fastforce
  have "as_prompts st' = as_prompts st1 \<or> st' = st"
    using assms g unfolding engine_value_round_def Let_def p_def [symmetric]
    by (auto split: if_splits sum.splits prod.splits dest!: execute_sql_effect)
  then show ?thesis using generate_sql_effect [OF g] by (auto simp: p_def with_corrections_def)
qed

lemma execute_prompts:
  "engine_execute E N k v sql cap lacking df st = out \<Longrightarrow>
   (case out of Done r v' st' \<Rightarrow> as_prompts st' = as_prompts st \<and> ev_segments v' = ev_segments v
     | Retry v' st' \<Rightarrow> as_prompts st' = as_prompts st \<and> ev_segments v' = ev_segments v)"
  by (auto simp: engine_execute_def split: option.splits sum.splits prod.splits dest: execute_sql_effect)

definition prompted_from :: "prompt_segments \<Rightarrow> prompt_segments list \<Rightarrow> prompt_segments list \<Rightarrow> bool" where
  "prompted_from segs ps ps' \<longleftrightarrow> ps' = ps \<or> (\<exists>p. ps' = ps @ [p] \<and> static_prefix p = static_prefix segs)"

lemma accepted_prompts:
  assumes "engine_accepted E N filters tokens k segs v sql cap st = Done r v' st'"
  shows "prompted_from segs (as_prompts st) (as_prompts st') \<and> ev_segments v' = ev_segments v"
proof -
  obtain sql1 sp where sp: "respelled E sql st = (sql1, sp)" by fastforce
  from sp refl show ?thesis
  proof (cases rule: engine_accepted_cases [where k = k and segs = segs and v = v and cap = cap and N = N
        and filters = filters and tokens = tokens])
    case again
    with assms show ?thesis by simp
  next
    case run
    with assms execute_prompts [of E N k _ sql1 cap _ None st "Done r v' st'"] show ?thesis
      by (simp add: respelled_vars_def prompted_from_def)
  next
    case (fallback vo st1)
    with assms execute_prompts [of E N k _ sql1 cap _ None st1 "Done r v' st'"] value_round_prompt [OF fallback(3)] show ?thesis
      by (simp add: respelled_vars_def checked_vars_def prompted_from_def)
  next
    case (corrected vo st1 df sql2 cap2 lacking2)
    with assms execute_prompts [of E N k _ sql2 cap2 lacking2 "Some df" st1 "Done r v' st'"] value_round_prompt [OF corrected(3)]
    show ?thesis by (simp add: respelled_vars_def checked_vars_def prompted_from_def)
  qed
qed

lemma prompted_refl [simp]: "prompted_from segs ps ps"
  by (simp add: prompted_from_def)

lemma guard_prompts:
  assumes "engine_guard E N filters tokens k segs v meta st = Done r v' st'"
  shows "prompted_from segs (as_prompts st) (as_prompts st') \<and> ev_segments v' = ev_segments v"
proof (cases "\<exists>sql cap. strip (ev_raw v) \<noteq> [] \<and> clean_validate_cap E (ev_raw v) = Inr (sql, cap)")
  case True
  then obtain sql cap where "strip (ev_raw v) \<noteq> []" "clean_validate_cap E (ev_raw v) = Inr (sql, cap)" by blast
  then have "engine_accepted E N filters tokens k segs v sql cap st = Done r v' st'"
    using assms by (simp add: engine_guard_def)
  then show ?thesis by (rule accepted_prompts)
next
  case False
  then show ?thesis
    using assms by (auto simp: engine_guard_def split: if_splits sum.splits prod.splits py_error.splits)
qed

text \<open>
  After a source declined the question and the next one answered it, the filter value correction
  of that round goes back to the declined source: it is sent with the prefix of the prompt that was
  declined, while the rounds that follow use the prompt \<open>s\<close> of the source that answered.
\<close>

theorem value_correction_uses_declined_source:
  assumes "round_prompt E (as_routing st) k (v0\<lparr>ev_value_spelling := None\<rparr>) = (segs, v)"
    and "generate_with_source_fallback (ag_build E) (generate_sql E) (as_routing st) segs st = (Inr (rr, Some s), routing, st1)"
    and "engine_round E N filters tokens k v0 st = Done r v' st'"
    and "as_prompts st' \<noteq> as_prompts st1"
  shows "static_prefix (last (as_prompts st')) = static_prefix segs \<and> ev_segments v' = s"
proof -
  define w where "w = v\<lparr>ev_segments := s, ev_last_sql := None, ev_pending := None,
      ev_raw := (case rr_text rr of None \<Rightarrow> [] | Some t \<Rightarrow> t)\<rparr>"
  have "engine_guard E N filters tokens k segs w (rr_meta rr) (st1\<lparr>as_routing := routing\<rparr>) = Done r v' st'"
    using assms(1-3) by (simp add: engine_round_def Let_def w_def)
  from guard_prompts [OF this]
  have "prompted_from segs (as_prompts st1) (as_prompts st') \<and> ev_segments v' = ev_segments w" by simp
  then show ?thesis using assms(4) by (auto simp: prompted_from_def w_def)
qed

section \<open>A concrete turn\<close>

text \<open>The model answers a good statement that carries no filter.\<close>

definition example_engine :: "nat engine_env" where
  "example_engine = \<lparr>en_unicode = ascii_db, en_literals = (\<lambda>s. []), en_uncapped = Inr, en_upper = map ascii_upper,
     en_row_count = (\<lambda>n. 1), en_first_count = Some \<circ> int, en_scan_cap = 10\<rparr>"

definition example_state :: "nat agent_state" where
  "example_state = \<lparr>as_llm = example_llm_state\<lparr>world := 4\<rparr>, as_routing = None, as_prompts = [], as_executed = []\<rparr>"

lemma example_facts: "fell example_state = 0" "0 \<le> ag_max_corrections example_agent"
  "as_prompts example_state = []" "as_executed example_state = []" "may_fall example_state = 0"
  "ag_max_corrections example_agent = 2" "\<not> ag_value_check example_agent"
  by (simp_all add: fell_def may_fall_def example_state_def example_agent_def)

lemma example_accepts: "clean_validate_cap example_agent raw = Inl (e, cand) \<Longrightarrow> is_value_error e"
  by (auto simp: clean_validate_cap_def example_agent_def split: if_splits)


theorem turn_always_has_outcome_witness:
  "\<exists>answer v st'. generate_validate_execute example_agent example_engine [(u ''Ring'', u ''A'')] [] example_segments example_state
     = (Inr answer, v, st')"
  by (rule turn_always_has_outcome [OF example_accepts example_facts(1,2)])

definition one_shot :: "(nat, nat) agent_env" where
  "one_shot = example_agent\<lparr>ag_max_corrections := 0\<rparr>"

lemma one_shot_generates:
  "\<exists>rr st1. generate_sql one_shot example_segments example_state = (Inr rr, st1) \<and> rr_text rr = Some (u ''good'')
     \<and> now st1 = 5 \<and> as_routing st1 = None"
  by (simp add: generate_sql_def generate_for_task_def call_chain_def chain_for_def send_def finalize_meta_def
      governance_check_def note_prefix_use_def now_def one_shot_def example_agent_def example_state_def
      example_model_def example_llm_env_def example_llm_state_def Let_def is_trusted_backend_def)

lemma one_shot_answer:
  "\<exists>a v st'. generate_validate_execute one_shot example_engine [(u ''Ring'', u ''A'')] [] example_segments example_state
     = (Inr (Answer a), v, st')"
proof -
  obtain rr st1 where g: "generate_sql one_shot example_segments example_state = (Inr rr, st1)"
    "rr_text rr = Some (u ''good'')" "now st1 = 5" "as_routing st1 = None" using one_shot_generates by blast
  have rt: "as_routing example_state = None" by (simp add: example_state_def)
  have guard: "clean_validate_cap one_shot (u ''good'') = Inr (u ''good'', None)"
    by (simp add: clean_validate_cap_def one_shot_def example_agent_def)
  have env: "ag_max_corrections one_shot = 0" "\<not> ag_value_check one_shot" "\<not> ag_value_spelling one_shot"
    "ag_execute one_shot (u ''good'') n = (Inr n, Suc n)" for n
    by (simp_all add: one_shot_def example_agent_def)
  have "strip (u ''good'') \<noteq> []" by (simp add: strip_eq_Nil_iff u_def is_space_def)
  then show ?thesis
    using g guard env rt
    by (simp add: generate_validate_execute_def engine_round_def round_prompt_def engine_start_def Let_def
        generate_with_source_fallback_def engine_guard_def engine_accepted_def respelled_def engine_execute_def
        execute_sql_def)
qed


text \<open>
  Two sources: the first declines the question, the second answers a statement with an unknown
  literal, the value correction a better one.
\<close>

definition declining_model :: "nat backend" where
  "declining_model = example_model\<lparr>be_call := (\<lambda>req n. (if n = 4 then Inl (Value_error out_of_scope_sentinel)
     else Inr \<lparr>lr_text = Some (if n = 5 then u ''good'' else u ''better''), lr_structured = None, lr_meta = []\<rparr>, 1, Suc n))\<rparr>"

definition declining :: "(nat, nat) agent_env" where
  "declining = example_agent\<lparr>ag_router := \<lparr>ro_chains = [], ro_default_chain = [declining_model], ro_budgets = []\<rparr>,
     ag_build := (\<lambda>source. \<lparr>static_prefix = source, session_context = [], question = u ''q''\<rparr>),
     ag_check_values := (\<lambda>s n. \<lparr>vc_checked = 1, vc_unknown = (if s = u ''good'' then [J_null] else [])\<rparr>),
     ag_value_check := True\<rparr>"

definition two_sources :: source_routing where
  "two_sources = new_routing (ag_build declining) \<lparr>sel_chosen = u ''a'', sel_reason = Session, sel_candidates = [u ''a'', u ''b'']\<rparr>"

definition declining_state :: "nat agent_state" where
  "declining_state = example_state\<lparr>as_routing := Some two_sources\<rparr>"

lemma declining_generates:
  obtains r st1 where "generate_sql declining segs st = (r, st1)" "now st1 = Suc (now st)" "as_routing st1 = as_routing st"
    "as_prompts st1 = as_prompts st @ [segs]" "as_executed st1 = as_executed st"
    "if now st = 4 then r = Inl (Value_error out_of_scope_sentinel)
     else \<exists>rr. r = Inr rr \<and> rr_text rr = Some (if now st = 5 then u ''good'' else u ''better'')"
proof -
  obtain r st1 where g: "generate_sql declining segs st = (r, st1)" by fastforce
  note ge = generate_sql_effect [OF g]
  have "now st1 = Suc (now st) \<and> (if now st = 4 then r = Inl (Value_error out_of_scope_sentinel)
     else (\<exists>rr. r = Inr rr \<and> rr_text rr = Some (if now st = 5 then u ''good'' else u ''better'')))"
    using g by (auto simp: generate_sql_def generate_for_task_def call_chain_def chain_for_def send_def finalize_meta_def
        governance_check_def note_prefix_use_def now_def declining_def example_agent_def declining_model_def
        example_model_def Let_def is_trusted_backend_def split: if_splits)
  with ge show thesis by (intro that [OF g]) simp_all
qed

lemma routed_simps [simp]:
  "now (st\<lparr>as_routing := rt\<rparr>) = now st"
  by (simp add: now_def)

theorem value_correction_uses_declined_source_witness:
  "\<exists>v' st'. (\<exists>r. engine_round declining example_engine [] [] 0 (engine_start (so_segments two_sources)) declining_state = Done r v' st')
     \<and> static_prefix (last (as_prompts st')) = u ''a'' \<and> static_prefix (ev_segments v') = u ''b''"
proof -
  define segs where "segs = so_segments two_sources"
  have pa: "static_prefix segs = u ''a''" by (simp add: segs_def two_sources_def new_routing_def declining_def)
  have rp: "round_prompt declining (as_routing declining_state) 0 ((engine_start segs)\<lparr>ev_value_spelling := None\<rparr>)
      = (segs, (engine_start segs)\<lparr>ev_value_spelling := None\<rparr>)"
    by (simp add: round_prompt_def engine_start_def)
  have w0: "now declining_state = 4" "as_routing declining_state = Some two_sources"
    by (simp_all add: declining_state_def example_state_def now_def)
  obtain st1 where g1: "generate_sql declining segs declining_state = (Inl (Value_error out_of_scope_sentinel), st1)"
    "now st1 = 5"
    by (rule declining_generates [of segs declining_state]) (simp add: w0)
  define rt where "rt = two_sources\<lparr>so_fallback_from := Some (u ''a''), so_current := u ''b'', so_segments := ag_build declining (u ''b'')\<rparr>"
  have fb: "can_fall_back two_sources" "fall_back (ag_build declining) two_sources = Inr rt"
    by (simp_all add: can_fall_back_def fall_back_def following_source_def two_sources_def new_routing_def
        selection_after_def rt_def)
  obtain st2 rr2 where g2: "generate_sql declining (ag_build declining (u ''b'')) st1 = (Inr rr2, st2)" "now st2 = 6"
    "rr_text rr2 = Some (u ''good'')"
    by (rule declining_generates [of "ag_build declining (u ''b'')" st1]) (auto simp: g1)
  have gen: "generate_with_source_fallback (ag_build declining) (generate_sql declining) (as_routing declining_state) segs declining_state
      = (Inr (rr2, Some (ag_build declining (u ''b''))), Some rt, st2)"
    using g1 g2 fb by (simp add: generate_with_source_fallback_def w0 is_out_of_scope_failure_def rt_def)
  define p where "p = with_corrections segs [10 # 10 # ag_correction_text declining (u ''good'') (ag_check_values declining (u ''good'') 6)]"
  obtain st3 rr3 where g3: "generate_sql declining p (st2\<lparr>as_routing := Some rt\<rparr>) = (Inr rr3, st3)" "now st3 = 7"
    "rr_text rr3 = Some (u ''better'')" "as_prompts st3 = as_prompts st2 @ [p]"
    by (rule declining_generates [of p "st2\<lparr>as_routing := Some rt\<rparr>"]) (auto simp: g2)
  have env: "\<And>s. s \<noteq> u ''bad'' \<Longrightarrow> clean_validate_cap declining s = Inr (s, None)" "ag_value_check declining"
    "\<And>s st. respelled declining s st = (s, None)" "ag_max_corrections declining = 2"
    "\<And>n. vc_unknown (ag_check_values declining (u ''good'') n) = [J_null]"
    "\<And>n. vc_unknown (ag_check_values declining (u ''better'') n) = []"
    "\<And>s n. s \<noteq> u ''boom'' \<Longrightarrow> ag_execute declining s n = (Inr n, Suc n)" "\<not> ag_value_spelling declining"
    by (simp_all add: declining_def example_agent_def clean_validate_cap_def respelled_def)
  have "strip (u ''good'') \<noteq> []" by (simp add: strip_eq_Nil_iff u_def is_space_def)
  moreover obtain vo st4 df where "engine_value_round declining example_engine [] [] (u ''good'') segs [] (st2\<lparr>as_routing := Some rt\<rparr>) = (vo, st4)"
    "vo_executed vo = Some (df, u ''better'', None, [])" "as_prompts st4 = as_prompts st2 @ [p]"
    using g2(2) g3 env by (simp add: engine_value_round_def Let_def p_def [symmetric] execute_sql_def missing_dimension_filters_def)
  ultimately obtain r v' st' where round: "engine_round declining example_engine [] [] 0 (engine_start segs) declining_state = Done r v' st'"
    "as_prompts st' = as_prompts st2 @ [p]"
    using gen rp g2 g3 env
    by (simp add: engine_round_def engine_guard_def engine_accepted_def engine_execute_def
        missing_dimension_filters_def Let_def engine_start_def)
  from value_correction_uses_declined_source [OF rp gen round(1)] round(2)
  have "static_prefix (last (as_prompts st')) = static_prefix segs \<and> ev_segments v' = ag_build declining (u ''b'')" by simp
  then show ?thesis using round(1) pa by (intro exI [of _ v'] exI [of _ st']) (auto simp: segs_def declining_def)
qed

end
