(* ===== verification/Turn_Ask.thy ===== *)
theory Turn_Ask
  imports Turn_Engine
begin

text \<open>
  \<open>session/composer.py\<close> and \<open>TurnEngine.ask\<close>: composing a refinement over the previous statement, the
  probe of its cap, the context the model is shown of the conversation, and one whole turn - the
  decision how the question relates to the conversation, its plan, its answer and the record it
  leaves in the conversation. Timings, the audit record, the interpretation of the rows and the
  display fields of a turn (\<open>tn_rest\<close>) are left out.
\<close>

section \<open>The conversation as the model sees it\<close>

definition turn_block :: "session_turn \<Rightarrow> ustr" where
  "turn_block t =
     u ''turn '' @ tn_id t @ u '':'' @ [10]
     @ u ''  question: '' @ tn_question t @ [10]
     @ u ''  SQL: '' @ (case tn_sql t of Some (c # s) \<Rightarrow> c # s | _ \<Rightarrow> u ''(none)'') @ [10]
     @ u ''  result columns: '' @ (if tn_rows t = None then u ''(none)'' else join (u '', '') (tn_columns t)) @ [10]
     @ u ''  row_count: '' @ show_int (if tn_rows t = None then 0 else tn_row_count t)"

definition build_session_context_text :: "session_turn list \<Rightarrow> int \<Rightarrow> ustr" where
  "build_session_context_text turns max_turns =
     (if turns = [] \<or> max_turns \<le> 0 then []
      else join [10, 10] (map turn_block (drop (length turns - nat max_turns) turns)))"

section \<open>Composing a refinement\<close>

definition build_capped_predicate :: "('w, 'd) agent_env \<Rightarrow> 'd engine_env \<Rightarrow> ustr \<Rightarrow> int \<Rightarrow> py_error + ustr" where
  "build_capped_predicate E N previous cap =
     (case en_uncapped N previous of Inl e \<Rightarrow> Inl e | Inr s \<Rightarrow> gd_ensure_top (ag_guard E) s cap)"

definition own_with :: py_error where
  "own_with = Value_error (u ''Model-generated outer query must not define its own WITH clause '' @
     u ''-- '' @ [39] @ u ''_prev'' @ [39] @ u '' is defined exactly once by the composer'')"

definition compose_refinement_sql ::
    "('w, 'd) agent_env \<Rightarrow> 'd engine_env \<Rightarrow> ustr \<Rightarrow> ustr \<Rightarrow> int \<Rightarrow> py_error + ustr" where
  "compose_refinement_sql E N previous outer cap =
     (case gd_clean (ag_guard E) outer of
        Inl e \<Rightarrow> Inl e
      | Inr cleaned \<Rightarrow>
          if startswith (en_upper N (strip cleaned)) (u ''WITH'') then Inl own_with
          else map_sum id (\<lambda>p. u ''WITH _prev AS ('' @ [10] @ u ''    '' @ p @ [10] @ u '')'' @ [10] @ cleaned)
                 (build_capped_predicate E N previous cap))"

definition scan_probe :: "ustr \<Rightarrow> int \<Rightarrow> ustr" where
  "scan_probe uncapped cap =
     u ''SELECT COUNT(*) AS Cnt FROM (SELECT TOP '' @ show_int (cap + 1) @ u '' 1 AS _x FROM ('' @ uncapped
     @ u '') AS _base) AS _check''"

text \<open>Whatever goes wrong in the check counts as no truncation.\<close>

definition check_scan_truncated ::
    "('w, 'd) agent_env \<Rightarrow> 'd engine_env \<Rightarrow> ustr \<Rightarrow> int \<Rightarrow> 'w agent_state \<Rightarrow> bool \<times> 'w agent_state" where
  "check_scan_truncated E N previous cap st =
     (case en_uncapped N previous of
        Inl e \<Rightarrow> (False, st)
      | Inr s \<Rightarrow>
          (case execute_sql E (scan_probe s cap) st of
             (Inl e, st1) \<Rightarrow> (False, st1)
           | (Inr df, st1) \<Rightarrow> (case en_first_count N df of None \<Rightarrow> False | Some n \<Rightarrow> cap < n, st1)))"

definition outer_instruction :: "ustr \<Rightarrow> ustr list \<Rightarrow> ustr" where
  "outer_instruction q columns =
     [10, 10] @ u ''This question refines the previous turn. A CTE named `_prev` is already ''
     @ u ''prepared for you, containing every row matching the previous turn''
     @ [39] @ u ''s filter '' @ u ''(not just the rows it displayed), with these columns available: ''
     @ (if columns = [] then u ''(unknown)'' else join (u '', '') columns) @ u ''. ''
     @ u ''Write ONLY the final SELECT statement, selecting FROM `_prev` (do not define ''
     @ u ''your own WITH clause), to answer: '' @ q"

text \<open>
  \<open>TurnEngine._handle_cte_refinement\<close> from the previous statement on: one model call, the guard over
  the composed statement, the probe, the execution. A refusal shows the composed statement; an
  exception of the guard that is no \<open>ValueError\<close> leaves the engine.
\<close>

definition guard_composed ::
    "('w, 'd) agent_env \<Rightarrow> ustr \<Rightarrow> py_error + ustr \<times> int option" where
  "guard_composed E composed =
     (case gd_validate (ag_guard E) composed of
        Some e \<Rightarrow> Inl e
      | None \<Rightarrow>
          (case gd_ensure_top (ag_guard E) composed (ag_default_top_n E) of
             Inl e \<Rightarrow> Inl e
           | Inr capped \<Rightarrow>
               map_sum id (\<lambda>s. (s, if capped \<noteq> composed then Some (ag_default_top_n E) else None))
                 (gd_transpile (ag_guard E) capped)))"

definition run_composed ::
    "('w, 'd) agent_env \<Rightarrow> 'd engine_env \<Rightarrow> ustr \<Rightarrow> ustr \<Rightarrow> int option \<Rightarrow> 'w agent_state
     \<Rightarrow> (py_error + 'd turn_answer \<times> bool) \<times> 'w agent_state" where
  "run_composed E N previous sql injected st =
     (case check_scan_truncated E N previous (en_scan_cap N) st of
        (truncated, st1) \<Rightarrow>
          (case execute_sql E sql st1 of
             (Inl e, st2) \<Rightarrow> (Inr (Failed (Database_failed e) (Some (sql, injected)), False), st2)
           | (Inr df, st2) \<Rightarrow>
               (Inr (Answer \<lparr>rs_sql = sql, rs_rows = df, rs_injected_top = injected, rs_truncated = False,
                       rs_unapplied = [], rs_corrections = 0\<rparr>, truncated), st2)))"

definition cte_refinement ::
    "('w, 'd) agent_env \<Rightarrow> 'd engine_env \<Rightarrow> (ustr \<Rightarrow> ustr list) \<Rightarrow> ustr \<Rightarrow> ustr \<Rightarrow> ustr option \<Rightarrow> 'w agent_state
     \<Rightarrow> (py_error + 'd turn_answer \<times> bool) \<times> 'w agent_state" where
  "cte_refinement E N predicate_columns q context previous st =
     (case previous of
        None \<Rightarrow> (Inr (Failed No_previous_turn None, False), st)
      | Some prev \<Rightarrow>
          if prev = [] then (Inr (Failed No_previous_turn None, False), st)
          else case generate_sql E \<lparr>static_prefix = [], session_context = context,
                      question = outer_instruction q (predicate_columns prev)\<rparr> st of
                 (Inl e, st1) \<Rightarrow> (Inr (Failed (Router_failed e) None, False), st1)
               | (Inr rr, st1) \<Rightarrow>
                   (case compose_refinement_sql E N prev (case rr_text rr of None \<Rightarrow> [] | Some t \<Rightarrow> t) (en_scan_cap N) of
                      Inl e \<Rightarrow> (if is_value_error e then Inr (Refused e None, False) else Inl e, st1)
                    | Inr composed \<Rightarrow>
                        (case guard_composed E composed of
                           Inl e \<Rightarrow> (if is_value_error e then Inr (Refused e (Some composed), False) else Inl e, st1)
                         | Inr (sql, injected) \<Rightarrow> run_composed E N prev sql injected st1)))"

section \<open>One turn\<close>

definition last_turn :: "session_record \<Rightarrow> session_turn option" where
  "last_turn r = (if sr_turns r = [] then None else Some (last (sr_turns r)))"

definition memory_for :: "session_record \<Rightarrow> ustr option \<Rightarrow> turn_memory option" where
  "memory_for r tid = (case tid of None \<Rightarrow> None | Some t \<Rightarrow> if t = [] then None else map_of (sr_memory r) t)"

definition previous_turn_source ::
    "nat \<Rightarrow> (ustr \<Rightarrow> ustr option) \<Rightarrow> session_turn option \<Rightarrow> turn_memory option \<Rightarrow> ustr option" where
  "previous_turn_source sources route previous memory =
     (case previous of
        None \<Rightarrow> None
      | Some t \<Rightarrow>
          (case tn_sql t of
             None \<Rightarrow> None
           | Some sql \<Rightarrow>
               if sql = [] \<or> sources < 2 then None
               else (case Option.bind memory tm_datasource of
                       Some (c # s) \<Rightarrow> Some (c # s)
                     | _ \<Rightarrow> route sql)))"

text \<open>
  What a turn depends on beside the conversation: \<open>rq_env\<close> is the environment with the prompts built
  for the turn's filters, \<open>rq_plain\<close> the prompt without a source, \<open>rq_select\<close> the selection of the data
  source given the previous one, \<open>rq_found\<close> and \<open>rq_tokens\<close> what retrieval read from the question,
  \<open>rq_columns\<close> and \<open>rq_cells\<close> the columns and the rows of a data frame.
\<close>

record ('w, 'd) turn_request =
  rq_question :: ustr
  rq_turn_id :: ustr
  rq_overrides :: "(ustr, ustr) odict"
  rq_entries :: "(ustr, memory_entry) odict"
  rq_memory_enabled :: bool
  rq_denied :: "ustr list"
  rq_found :: "(ustr, json) odict"
  rq_tokens :: "(ustr, ustr list) odict"
  rq_env :: "ustr \<Rightarrow> (ustr, json) odict \<Rightarrow> ('w, 'd) agent_env"
  rq_plain :: "ustr \<Rightarrow> (ustr, json) odict \<Rightarrow> prompt_segments"
  rq_engine :: "'d engine_env"
  rq_select :: "ustr option \<Rightarrow> source_selection option"
  rq_sources :: nat
  rq_route :: "ustr \<Rightarrow> ustr option"
  rq_prompt_turns :: int
  rq_predicate_columns :: "ustr \<Rightarrow> ustr list"
  rq_columns :: "'d \<Rightarrow> ustr list"
  rq_cells :: "'d \<Rightarrow> json list"
  rq_rest :: json

text \<open>The turn and its memory, from an answer.\<close>

definition answer_sql :: "'d turn_answer \<Rightarrow> ustr option" where
  "answer_sql a = (case a of Answer r \<Rightarrow> Some (rs_sql r) | Failed f sql \<Rightarrow> map_option fst sql | Refused e sql \<Rightarrow> None)"

definition turn_of :: "('w, 'd) turn_request \<Rightarrow> int \<Rightarrow> 'd turn_answer \<Rightarrow> session_turn" where
  "turn_of Q index a =
     \<lparr>tn_id = rq_turn_id Q, tn_index = index, tn_question = rq_question Q, tn_sql = answer_sql a,
      tn_columns = (case a of Answer r \<Rightarrow> rq_columns Q (rs_rows r) | _ \<Rightarrow> []),
      tn_row_count = (case a of Answer r \<Rightarrow> int (length (rq_cells Q (rs_rows r))) | _ \<Rightarrow> 0),
      tn_rows = (case a of Answer r \<Rightarrow> Some (rq_cells Q (rs_rows r)) | Refused e s \<Rightarrow> Some [] | Failed f s \<Rightarrow> None),
      tn_omitted = False, tn_interpretation = None, tn_rest = rq_rest Q\<rparr>"

definition memory_of ::
    "('w, 'd) turn_request \<Rightarrow> (ustr, json) odict \<Rightarrow> ustr option \<Rightarrow> 'd turn_answer \<Rightarrow> turn_memory" where
  "memory_of Q filters source a =
     \<lparr>tm_turn = rq_turn_id Q, tm_filters = filters,
      tm_columns = (case a of Answer r \<Rightarrow> rq_columns Q (rs_rows r) | _ \<Rightarrow> []),
      tm_sql = answer_sql a,
      tm_injected_top = (case a of Answer r \<Rightarrow> rs_injected_top r | Failed f s \<Rightarrow> Option.bind s snd | _ \<Rightarrow> None),
      tm_row_count = (case a of Answer r \<Rightarrow> int (length (rq_cells Q (rs_rows r))) | _ \<Rightarrow> 0),
      tm_datasource = (if answer_sql a = None \<or> answer_sql a = Some [] then None else source)\<rparr>"

text \<open>\<open>ask\<close>: what the answer is, with the filters and the source the turn's memory keeps.\<close>

definition answer_question ::
    "policy_env \<Rightarrow> ('w, 'd) turn_request \<Rightarrow> session_record \<Rightarrow> 'w agent_state
     \<Rightarrow> (py_error + 'd turn_answer \<times> (ustr, json) odict \<times> ustr option) \<times> 'w agent_state" where
  "answer_question P Q r st =
     (let previous = last_turn r;
          memory = memory_for r (map_option tn_id previous);
          source = previous_turn_source (rq_sources Q) (rq_route Q) previous memory;
          context = build_session_context_text (sr_turns r) (rq_prompt_turns Q)
      in case basis_with_overrides P (classify_basis (rq_question Q) previous memory) (rq_overrides Q) of
           (basis, demoted) \<Rightarrow>
             if bd_kind basis = Refines \<and> bd_composition basis = Cte
             then (case cte_refinement (rq_env Q context []) (rq_engine Q) (rq_predicate_columns Q) (rq_question Q)
                          context (Option.bind previous tn_sql) st of
                     (x, st1) \<Rightarrow> (map_sum id (\<lambda>(a, truncated). (a, bd_filters basis, source)) x, st1))
             else (case plan_generative P (rq_question Q) basis (rq_found Q)
                          (if rq_memory_enabled Q then rq_entries Q else []) (rq_overrides Q) (rq_denied Q) demoted of
                     None \<Rightarrow> (Inl (Value_error (u ''invalid literal for int()'')), st)
                   | Some p \<Rightarrow>
                       (let E = rq_env Q context (tp_filters p);
                            routing = plan_routing (ag_build E) (rq_select Q (if bd_kind basis = Refines then source else None));
                            segs = (case routing of None \<Rightarrow> rq_plain Q context (tp_filters p) | Some rt \<Rightarrow> so_segments rt);
                            tokens = filter (\<lambda>(t, ts). t \<in> fst ` set (tp_enforce p)) (rq_tokens Q)
                        in case generate_validate_execute E (rq_engine Q) (tp_enforce p) tokens segs (st\<lparr>as_routing := routing\<rparr>) of
                             (x, v, st1) \<Rightarrow>
                               (map_sum id (\<lambda>a. (a, tp_filters p, map_option so_current (as_routing st1))) x, st1))))"

definition ask ::
    "policy_env \<Rightarrow> ('w, 'd) turn_request \<Rightarrow> session_record \<Rightarrow> 'w agent_state
     \<Rightarrow> (py_error + session_turn \<times> turn_memory) \<times> session_record \<times> 'w agent_state" where
  "ask P Q r st =
     (case answer_question P Q r st of
        (Inl e, st1) \<Rightarrow> (Inl e, r, st1)
      | (Inr (a, filters, source), st1) \<Rightarrow>
          (let turn = turn_of Q (int (length (sr_turns r)) + 1) a;
               memory = memory_of Q filters source a
           in (Inr (turn, memory), append_turn turn memory r, st1)))"

section \<open>A turn and the conversation it is kept in\<close>

lemma turn_block_omit [simp]: "turn_block (omit_rows t) = turn_block t"
  by (simp add: turn_block_def omit_rows_def split: option.splits)

lemma omit_rows_sql [simp]: "tn_sql (omit_rows t) = tn_sql t"
  by (simp add: omit_rows_def split: option.splits)

lemma context_omit:
  "build_session_context_text (map omit_rows ts) n = build_session_context_text ts n"
  by (simp add: build_session_context_text_def drop_map o_def)

lemma classify_basis_cong:
  "tn_id t' = tn_id t \<Longrightarrow> classify_basis q (Some t') m = classify_basis q (Some t) m"
  by (simp add: classify_basis_def Let_def)

text \<open>
  C25. Reopening a conversation changes no answer: a turn asked of a conversation that expired and was
  read back from the database - its turns without the rows of their results - gives the same turn,
  the same memory and the same state as one asked of the conversation that stayed hot. Nothing a
  prompt or a decision is made of depends on rows kept in memory.
\<close>

theorem reopened_conversation_answers_alike:
  "fst (ask P Q (r\<lparr>sr_last := time, sr_turns := map omit_rows (sr_turns r)\<rparr>) st) = fst (ask P Q r st)
   \<and> snd (snd (ask P Q (r\<lparr>sr_last := time, sr_turns := map omit_rows (sr_turns r)\<rparr>) st)) = snd (snd (ask P Q r st))"
proof -
  let ?r = "r\<lparr>sr_last := time, sr_turns := map omit_rows (sr_turns r)\<rparr>"
  have lt: "last_turn ?r = map_option omit_rows (last_turn r)"
    by (simp add: last_turn_def last_map)
  have id: "map_option tn_id (map_option omit_rows x) = map_option tn_id x" for x
    by (cases x) simp_all
  have sql: "Option.bind (map_option omit_rows x) tn_sql = Option.bind x tn_sql" for x
    by (cases x) simp_all
  have mem: "memory_for ?r t = memory_for r t" for t by (cases t) (simp_all add: memory_for_def)
  have cb: "classify_basis q (map_option omit_rows x) m = classify_basis q x m" for q x m
    using classify_basis_cong [of "omit_rows (the x)" "the x" q m] by (cases x) simp_all
  have src: "previous_turn_source n f (map_option omit_rows x) m = previous_turn_source n f x m" for n f x m
    by (cases x) (simp_all add: previous_turn_source_def)
  have ctx: "build_session_context_text (sr_turns ?r) n = build_session_context_text (sr_turns r) n" for n
    by (simp add: context_omit)
  have "answer_question P Q ?r st = answer_question P Q r st"
    unfolding answer_question_def Let_def lt id sql mem cb src ctx by (rule refl)
  then show ?thesis by (simp add: ask_def Let_def split: sum.split prod.split)
qed

text \<open>
  What the engine appends is what the store expects: an answered turn carries the request's id,
  the next index and a memory of its own, and the record grows by exactly it, so handing it to the
  session store is a valid step for every reachable state of the store; an exception leaves the
  record as it was.
\<close>

theorem answered_turn_is_valid:
  assumes "ask P Q r st = (res, r', st')" "session_reach C store" "map_of (ss_hot store) sid = Some r"
    and "sc_persistent C" "rq_turn_id Q \<notin> tn_id ` set (sr_turns r)"
  shows "case res of
      Inl e \<Rightarrow> r' = r
    | Inr (turn, memory) \<Rightarrow> r' = append_turn turn memory r \<and> valid_event (Answered r turn memory stamp) store
        \<and> session_reach C (finish_turn C turn memory stamp r store)"
proof -
  have id: "sr_id r = sid" using session_invD(3) [OF session_reach_inv [OF assms(2,4)] map_of_SomeD [OF assms(3)]] by simp
  obtain x st1 where a: "answer_question P Q r st = (x, st1)" by fastforce
  show ?thesis
  proof (cases x)
    case (Inl e)
    then show ?thesis using assms(1) a by (auto simp: ask_def)
  next
    case (Inr y)
    obtain b filters source where y: "y = (b, filters, source)" by (cases y) auto
    define turn where "turn = turn_of Q (int (length (sr_turns r)) + 1) b"
    define memory where "memory = memory_of Q filters source b"
    have res: "res = Inr (turn, memory)" "r' = append_turn turn memory r"
      using assms(1) a Inr y by (simp_all add: ask_def Let_def turn_def memory_def)
    have "held_object r store = r" using assms(3) id by (simp add: held_object_def)
    then have v: "valid_event (Answered r turn memory stamp) store"
      using assms(3,5) id by (simp add: valid_event_def turn_def memory_def turn_of_def memory_of_def)
    from session_reach.stepped [OF assms(2) v] res v show ?thesis by simp
  qed
qed

text \<open>
  A refinement sends the database the statement composed over the previous one, which the guard
  accepted as a whole, and before it the probe that counts the previous statement's rows. The probe
  is made from the previous statement without its cap and is not given to the guard again.
\<close>

theorem refinement_executes:
  assumes "cte_refinement E N columns q context (Some prev) st = (res, st')"
  shows "as_executed st' = as_executed st
    \<or> (\<exists>outer composed sql injected probe. compose_refinement_sql E N prev outer (en_scan_cap N) = Inr composed
         \<and> guard_composed E composed = Inr (sql, injected)
         \<and> as_executed st' = as_executed st @ probe @ [sql]
         \<and> (case en_uncapped N prev of Inl e \<Rightarrow> probe = [] | Inr s \<Rightarrow> probe = [scan_probe s (en_scan_cap N)]))"
proof (cases "prev = []")
  case False
  define p where "p = \<lparr>static_prefix = [], session_context = context, question = outer_instruction q (columns prev)\<rparr>"
  obtain x st1 where g: "generate_sql E p st = (x, st1)" by fastforce
  have e1: "as_executed st1 = as_executed st" using generate_sql_effect [OF g] by simp
  note unf = cte_refinement_def [of E N columns q "context" "Some prev" st, simplified, folded p_def]
  show ?thesis
  proof (cases "\<exists>rr composed sql injected. x = Inr rr
      \<and> compose_refinement_sql E N prev (case rr_text rr of None \<Rightarrow> [] | Some t \<Rightarrow> t) (en_scan_cap N) = Inr composed
      \<and> guard_composed E composed = Inr (sql, injected)")
    case no: False
    then have "st' = st1" using assms False g by (auto simp: unf split: sum.splits)
    with e1 show ?thesis by simp
  next
    case True
    then obtain rr composed sql injected where c: "x = Inr rr"
      "compose_refinement_sql E N prev (case rr_text rr of None \<Rightarrow> [] | Some t \<Rightarrow> t) (en_scan_cap N) = Inr composed"
      "guard_composed E composed = Inr (sql, injected)" by blast
    then have "run_composed E N prev sql injected st1 = (res, st')" using assms False g by (simp add: unf)
    then obtain probe where "as_executed st' = as_executed st1 @ probe @ [sql]
      \<and> (case en_uncapped N prev of Inl e \<Rightarrow> probe = [] | Inr s \<Rightarrow> probe = [scan_probe s (en_scan_cap N)])"
      by (auto simp: run_composed_def check_scan_truncated_def split: sum.splits prod.splits option.splits
          dest!: execute_sql_effect)
    then have "compose_refinement_sql E N prev (case rr_text rr of None \<Rightarrow> [] | Some t \<Rightarrow> t) (en_scan_cap N) = Inr composed
      \<and> guard_composed E composed = Inr (sql, injected) \<and> as_executed st' = as_executed st @ probe @ [sql]
      \<and> (case en_uncapped N prev of Inl e \<Rightarrow> probe = [] | Inr s \<Rightarrow> probe = [scan_probe s (en_scan_cap N)])"
      using c e1 by simp
    then show ?thesis by (intro disjI2 exI)
  qed
qed (use assms in \<open>simp add: cte_refinement_def\<close>)

section \<open>A concrete conversation\<close>

definition example_request :: "(nat, nat) turn_request" where
  "example_request = \<lparr>rq_question = u ''orders'', rq_turn_id = u ''t1'', rq_overrides = [], rq_entries = [],
     rq_memory_enabled = True, rq_denied = [], rq_found = [], rq_tokens = [], rq_env = (\<lambda>_ _. example_agent),
     rq_plain = (\<lambda>_ _. example_segments), rq_engine = example_engine, rq_select = (\<lambda>_. None), rq_sources = 1,
     rq_route = (\<lambda>_. None), rq_prompt_turns = 3, rq_predicate_columns = (\<lambda>_. []), rq_columns = (\<lambda>n. [u ''n'']),
     rq_cells = (\<lambda>n. [J_null]), rq_rest = J_null\<rparr>"

theorem answered_turn_is_valid_witness:
  defines "r1 \<equiv> fst (create example_sessions (u ''s1'') (Some (u ''ann'')) 0 (u ''t'') no_sessions)"
  defines "st1 \<equiv> apply_event example_sessions (Created (u ''s1'') (Some (u ''ann'')) 0 (u ''t'')) no_sessions"
  shows "\<exists>res r' st'. ask example_policy example_request r1 example_state = (res, r', st') \<and>
     (case res of
        Inl e \<Rightarrow> r' = r1
      | Inr (turn, memory) \<Rightarrow> r' = append_turn turn memory r1 \<and> valid_event (Answered r1 turn memory (u ''t'')) st1
          \<and> session_reach example_sessions (finish_turn example_sessions turn memory (u ''t'') r1 st1))"
proof -
  obtain res r' st' where a: "ask example_policy example_request r1 example_state = (res, r', st')" by (metis prod_cases3)
  have "session_reach example_sessions st1"
    unfolding st1_def by (intro stepped started) (simp_all add: valid_event_def no_sessions_def)
  moreover have "map_of (ss_hot st1) (u ''s1'') = Some r1"
    unfolding st1_def r1_def by (simp add: session_evaluation)
  moreover have "sc_persistent example_sessions" "rq_turn_id example_request \<notin> tn_id ` set (sr_turns r1)"
    by (simp_all add: example_sessions_def r1_def create_def Let_def)
  ultimately show ?thesis using answered_turn_is_valid [OF a, of example_sessions st1 "u ''s1''" "u ''t''"] a by blast
qed

end
