(* ===== verification/Sql_Ast.thy ===== *)
theory Sql_Ast
  imports Schema_Config
begin

text \<open>
  The syntax trees the guard inspects (\<open>security/sql_guard.py\<close>). The parser, sqlglot, is not part of
  the repository: a tree is what the guard can observe of a parsed statement. A node has the class
  the guard tests it for, the texts its properties (\<open>name\<close>, \<open>alias\<close>, \<open>table\<close>, \<open>db\<close>, \<open>catalog\<close>)
  return, and its children under the argument they are stored in, in the order sqlglot iterates over
  them. A node of the tree is visited with its ancestors, so that \<open>parent\<close> and the identity of two
  nodes are those of positions in the tree.
\<close>

section \<open>Nodes\<close>

datatype node_class =
    Select | Union_op | Intersect_op | Except_op
  | Insert_stmt | Update_stmt | Delete_stmt | Drop_stmt | Alter_stmt | Create_stmt | Merge_stmt
  | Truncate_stmt | Revoke_stmt | Execute_stmt | Into | Command
  | Parameter | Current_user | Session_user | Current_schema | Object_id
  | Cte | Table | Column | Star | Subquery | Paren | Alias | Identifier | Dot | Literal | National
  | Add | Eq | And_op | Join | Count | Anonymous | Other_node

datatype arg_key =
    This | Expression | Expressions | From | Joins | On | Using | With | Limit | Offset | Fetch | Order | Db | Catalog
  | Other_arg

record node_text =
  nt_type :: ustr
  nt_name :: ustr
  nt_alias :: ustr
  nt_table :: ustr
  nt_db :: ustr
  nt_catalog :: ustr
  nt_method :: ustr
  nt_value :: ustr
  nt_string :: bool
  nt_comments :: bool

datatype ast = Node (cls: node_class) (text_of: node_text) (args: "(arg_key \<times> ast) list")

text \<open>\<open>node.args.get(key)\<close> for an argument that holds one node, and for one that holds a list.\<close>

definition arg :: "arg_key \<Rightarrow> ast \<Rightarrow> ast option" where
  "arg k n = map_of (args n) k"

definition arg_list :: "arg_key \<Rightarrow> ast \<Rightarrow> ast list" where
  "arg_list k n = map snd (filter (\<lambda>(j, c). j = k) (args n))"

abbreviation name_of :: "ast \<Rightarrow> ustr" where "name_of n \<equiv> nt_name (text_of n)"
abbreviation alias_of :: "ast \<Rightarrow> ustr" where "alias_of n \<equiv> nt_alias (text_of n)"
abbreviation table_of :: "ast \<Rightarrow> ustr" where "table_of n \<equiv> nt_table (text_of n)"

text \<open>\<open>alias_or_name\<close> and \<open>unalias()\<close>.\<close>

definition alias_or_name :: "ast \<Rightarrow> ustr" where
  "alias_or_name n = (if alias_of n \<noteq> [] then alias_of n else name_of n)"

definition unalias :: "ast \<Rightarrow> ast" where
  "unalias n = (if cls n = Alias then (case arg This n of None \<Rightarrow> n | Some c \<Rightarrow> c) else n)"

section \<open>Positions\<close>

text \<open>
  A node with the path from it to the root: for every ancestor, nearest first, the argument it was
  reached through.
\<close>

type_synonym located = "ast \<times> (arg_key \<times> ast) list"

definition children :: "located \<Rightarrow> located list" where
  "children l = (case l of (n, up) \<Rightarrow> map (\<lambda>(k, c). (c, (k, n) # up)) (args n))"

fun node_count :: "ast \<Rightarrow> nat" where
  "node_count (Node c t as) = Suc (sum_list (map (\<lambda>(k, a). node_count a) as))"

definition work :: "located list \<Rightarrow> nat" where
  "work q = sum_list (map (node_count \<circ> fst) q)"

lemma node_count_args: "node_count n = Suc (sum_list (map (\<lambda>(k, a). node_count a) (args n)))"
  by (cases n) simp

lemma work_children: "node_count (fst l) = Suc (work (children l))"
proof (cases l)
  case (Pair n up)
  then show ?thesis
    using node_count_args [of n] by (simp add: work_def children_def comp_def case_prod_unfold)
qed

lemma work_append [simp]: "work (p @ q) = work p + work q"
  by (simp add: work_def)

lemma work_Cons: "work (l # q) = node_count (fst l) + work q"
  by (simp add: work_def)

text \<open>\<open>walk()\<close> and \<open>find_all\<close>: breadth first.\<close>

function bfs :: "located list \<Rightarrow> located list" where
  "bfs [] = []"
| "bfs (l # q) = l # bfs (q @ children l)"
  by pat_completeness auto

termination
  by (relation "measure work") (simp_all add: work_Cons work_children)

definition walk :: "ast \<Rightarrow> located list" where
  "walk t = bfs [(t, [])]"

definition find_all :: "node_class \<Rightarrow> ast \<Rightarrow> located list" where
  "find_all c t = filter (\<lambda>(n, up). cls n = c) (walk t)"

definition parent :: "located \<Rightarrow> ast option" where
  "parent l = (case snd l of [] \<Rightarrow> None | (k, p) # up \<Rightarrow> Some p)"

text \<open>The located parent, one step up.\<close>

definition step_up :: "located \<Rightarrow> located option" where
  "step_up l = (case snd l of [] \<Rightarrow> None | (k, p) # up \<Rightarrow> Some (p, up))"

text \<open>\<open>_enclosing_select\<close>: the nearest ancestor that is a select, itself located.\<close>

fun enclosing :: "(arg_key \<times> ast) list \<Rightarrow> located option" where
  "enclosing [] = None"
| "enclosing ((k, p) # up) = (if cls p = Select then Some (p, up) else enclosing up)"

definition enclosing_select :: "located \<Rightarrow> located option" where
  "enclosing_select l = enclosing (snd l)"

lemma enclosing_shorter: "enclosing up = Some (s, up') \<Longrightarrow> length up' < length up"
  by (induction up arbitrary: s up') (auto split: if_splits intro: less_SucI)

lemma enclosing_is_select: "enclosing up = Some (s, up') \<Longrightarrow> cls s = Select"
  by (induction up) (auto split: if_splits)

section \<open>What a walk visits\<close>

text \<open>The nodes below a position.\<close>

inductive below :: "located \<Rightarrow> located \<Rightarrow> bool" for l where
  here: "below l l"
| down: "below l m \<Longrightarrow> m' \<in> set (children m) \<Longrightarrow> below l m'"

lemma below_trans: "below m n \<Longrightarrow> below l m \<Longrightarrow> below l n"
  by (induction rule: below.induct) (auto intro: below.down)

lemma below_child: "m \<in> set (children l) \<Longrightarrow> below m n \<Longrightarrow> below l n"
  by (erule below_trans) (blast intro: below.intros)

lemma below_cases_top: "below l n \<Longrightarrow> n = l \<or> (\<exists>m \<in> set (children l). below m n)"
  by (induction rule: below.induct) (auto intro: below.intros)

lemma bfs_below: "l \<in> set (bfs q) \<longleftrightarrow> (\<exists>m \<in> set q. below m l)"
proof (induction q rule: bfs.induct)
  case (2 m q)
  have "(\<exists>k \<in> set (q @ children m). below k l) \<or> l = m
      \<longleftrightarrow> (\<exists>k \<in> set q. below k l) \<or> below m l"
    using below_cases_top [of m l] below_child [of _ m l] below.here [of m] by (auto 4 3)
  with 2 show ?case by auto
qed simp

lemma walk_iff: "l \<in> set (walk t) \<longleftrightarrow> below (t, []) l"
  unfolding walk_def bfs_below by simp

lemma find_all_iff: "l \<in> set (find_all c t) \<longleftrightarrow> below (t, []) l \<and> cls (fst l) = c"
  by (auto simp: find_all_def walk_iff)

text \<open>The subtrees of a statement, without their positions.\<close>

inductive subtree :: "ast \<Rightarrow> ast \<Rightarrow> bool" for t where
  whole: "subtree t t"
| part: "subtree t n \<Longrightarrow> (k, c) \<in> set (args n) \<Longrightarrow> subtree t c"

lemma below_subtree: "below (t, []) l \<Longrightarrow> subtree t (fst l)"
  by (induction rule: below.induct) (auto simp: children_def intro: subtree.intros split: prod.splits)

lemma subtree_below: "subtree t n \<Longrightarrow> \<exists>up. below (t, []) (n, up)"
proof (induction rule: subtree.induct)
  case (part n k c)
  then obtain up where "below (t, []) (n, up)" by blast
  moreover have "(c, (k, n) # up) \<in> set (children (n, up))"
    using part.hyps(2) by (force simp: children_def)
  ultimately show ?case by (blast intro: below.down)
qed (blast intro: below.here)

lemma walk_subtrees: "fst ` set (walk t) = {n. subtree t n}"
  using below_subtree subtree_below by (force simp: walk_iff)

lemma walk_root: "(t, []) \<in> set (walk t)"
  by (simp add: walk_iff below.here)

text \<open>The path of a visited node leads through visited nodes up to the root.\<close>

fun path_ok :: "ast \<Rightarrow> located \<Rightarrow> bool" where
  "path_ok t (n, []) \<longleftrightarrow> n = t"
| "path_ok t (n, (k, p) # up) \<longleftrightarrow> (k, n) \<in> set (args p) \<and> path_ok t (p, up)"

lemma walk_path_ok: "l \<in> set (walk t) \<longleftrightarrow> path_ok t l"
proof
  assume "l \<in> set (walk t)"
  then have "below (t, []) l" by (simp add: walk_iff)
  then show "path_ok t l"
    by (induction rule: below.induct) (auto simp: children_def split: prod.splits)
next
  obtain n up where l: "l = (n, up)" by (cases l)
  assume "path_ok t l"
  then show "l \<in> set (walk t)"
    unfolding l
  proof (induction up arbitrary: n)
    case (Cons kp up)
    obtain k p where kp: "kp = (k, p)" by (cases kp)
    from Cons have "(p, up) \<in> set (walk t)" "(k, n) \<in> set (args p)" by (auto simp: kp)
    moreover from this have "(n, (k, p) # up) \<in> set (children (p, up))" by (force simp: children_def)
    ultimately show ?case unfolding kp walk_iff by (blast intro: below.down)
  qed (simp add: walk_root)
qed

lemma enclosing_visited:
  "path_ok t (n, up) \<Longrightarrow> enclosing up = Some (s, up') \<Longrightarrow> path_ok t (s, up')"
proof (induction up arbitrary: n)
  case (Cons kp up)
  then show ?case by (cases kp) (auto split: if_splits)
qed simp

section \<open>Table references\<close>

lemma node_count_arg: "(k, c) \<in> set (args n) \<Longrightarrow> node_count c < node_count n"
proof -
  assume "(k, c) \<in> set (args n)"
  then have "node_count c \<in> set (map (\<lambda>(k, a). node_count a) (args n))" by force
  from member_le_sum_list [OF this] show ?thesis by (simp add: node_count_args [of n])
qed

text \<open>
  \<open>table_ref_parts\<close>: a four-part name is nested \<open>Dot\<close>s inside the reference's own \<open>this\<close>. The
  inner function reads the two sides of a \<open>Dot\<close>.
\<close>

function flatten_dots :: "ast \<Rightarrow> ustr list" where
  "flatten_dots n =
     (if cls n = Dot
      then concat (map (\<lambda>(k, c). flatten_dots c)
             (filter (\<lambda>(k, c). k = This) (args n) @ filter (\<lambda>(k, c). k = Expression) (args n)))
      else if cls n = Identifier then [nt_value (text_of n)]
      else if name_of n \<noteq> [] then [name_of n] else [])"
  by auto

termination
  by (relation "measure node_count") (auto dest: node_count_arg)

declare flatten_dots.simps [simp del]

definition table_ref_parts :: "ast \<Rightarrow> ustr list" where
  "table_ref_parts t =
     (if nt_catalog (text_of t) \<noteq> [] then [nt_catalog (text_of t)] else [])
     @ (if nt_db (text_of t) \<noteq> [] then [nt_db (text_of t)] else [])
     @ (case arg This t of
          Some d \<Rightarrow> if cls d = Dot then flatten_dots d
                    else if name_of t \<noteq> [] then [name_of t] else []
        | None \<Rightarrow> if name_of t \<noteq> [] then [name_of t] else [])"

end
