(* ===== verification/Dialects.thy ===== *)
theory Dialects
  imports Prelude
begin

text \<open>
  \<open>security/dialects.py\<close>: what the guard and the executor know about each database dialect. The
  quoting of one identifier is sqlglot's and a parameter.
\<close>

datatype qualification_style = By_schema | By_database | No_qualification

record dialect_profile =
  dl_name :: ustr
  dl_system_schemas :: "ustr list"
  dl_system_prefixes :: "ustr list"
  dl_dangerous :: "ustr list"
  dl_session_timeout :: "ustr option"
  dl_driver_timeout :: "ustr option"
  dl_qualification :: qualification_style
  dl_national_literal :: bool
  dl_table_hints :: bool

definition tsql :: ustr where "tsql = u ''tsql''"

definition dialect_profiles :: "(ustr, dialect_profile) odict" where
  "dialect_profiles =
     [(tsql,
       \<lparr>dl_name = tsql, dl_system_schemas = [u ''INFORMATION_SCHEMA'', u ''SYS''],
        dl_system_prefixes = [], dl_dangerous = [],
        dl_session_timeout = Some (u ''SET LOCK_TIMEOUT {timeout_ms}''),
        dl_driver_timeout = Some (u ''timeout''), dl_qualification = By_schema,
        dl_national_literal = True, dl_table_hints = True\<rparr>),
      (u ''postgres'',
       \<lparr>dl_name = u ''postgres'', dl_system_schemas = [u ''INFORMATION_SCHEMA'', u ''PG_CATALOG''],
        dl_system_prefixes = [u ''PG_''],
        dl_dangerous = [u ''DBLINK'', u ''DBLINK_CONNECT'', u ''DBLINK_EXEC''],
        dl_session_timeout = Some (u ''SET statement_timeout = {timeout_ms}''),
        dl_driver_timeout = None, dl_qualification = By_schema,
        dl_national_literal = False, dl_table_hints = False\<rparr>),
      (u ''mysql'',
       \<lparr>dl_name = u ''mysql'',
        dl_system_schemas = [u ''INFORMATION_SCHEMA'', u ''MYSQL'', u ''PERFORMANCE_SCHEMA'', u ''SYS''],
        dl_system_prefixes = [], dl_dangerous = [u ''LOAD_FILE''],
        dl_session_timeout = Some (u ''SET SESSION MAX_EXECUTION_TIME = {timeout_ms}''),
        dl_driver_timeout = None, dl_qualification = By_database,
        dl_national_literal = True, dl_table_hints = False\<rparr>),
      (u ''sqlite'',
       \<lparr>dl_name = u ''sqlite'',
        dl_system_schemas = [u ''SQLITE_MASTER'', u ''SQLITE_TEMP_MASTER'', u ''SQLITE_SEQUENCE''],
        dl_system_prefixes = [u ''SQLITE_''], dl_dangerous = [],
        dl_session_timeout = None, dl_driver_timeout = None, dl_qualification = No_qualification,
        dl_national_literal = False, dl_table_hints = False\<rparr>)]"

datatype dialect_error =
    Unsupported_dialect ustr
  | No_system_catalogue ustr
  | Unsupported_backend ustr

definition get_dialect_profile :: "ustr \<Rightarrow> dialect_error + dialect_profile" where
  "get_dialect_profile dialect =
     (case map_of dialect_profiles dialect of
        None \<Rightarrow> Inl (Unsupported_dialect dialect)
      | Some p \<Rightarrow> Inr p)"

text \<open>The start-up check; the second component says whether the missing timeout is logged.\<close>

definition check_profile :: "ustr \<Rightarrow> dialect_profile \<Rightarrow> dialect_error + dialect_profile \<times> bool" where
  "check_profile dialect p =
     (if dl_system_schemas p = [] then Inl (No_system_catalogue dialect)
      else Inr (p, dl_session_timeout p = None))"

definition require_dialect_supported :: "ustr \<Rightarrow> dialect_error + dialect_profile \<times> bool" where
  "require_dialect_supported dialect =
     (case get_dialect_profile dialect of Inl e \<Rightarrow> Inl e | Inr p \<Rightarrow> check_profile dialect p)"

definition sqlalchemy_backends :: "(ustr, ustr) odict" where
  "sqlalchemy_backends =
     [(u ''mssql'', tsql), (u ''postgresql'', u ''postgres''), (u ''mysql'', u ''mysql''),
      (u ''sqlite'', u ''sqlite'')]"

definition sqlglot_dialect_for_backend :: "ustr \<Rightarrow> dialect_error + ustr" where
  "sqlglot_dialect_for_backend backend =
     (case map_of sqlalchemy_backends backend of
        None \<Rightarrow> Inl (Unsupported_backend backend)
      | Some d \<Rightarrow> Inr d)"

datatype qualifier_error = Empty_qualifier_part ustr | Too_many_qualifier_parts ustr

definition quote_tsql_qualifier :: "(ustr \<Rightarrow> ustr) \<Rightarrow> ustr \<Rightarrow> qualifier_error + ustr" where
  "quote_tsql_qualifier quote qualifier =
     (let parts = split_on 46 qualifier
      in if list_ex (\<lambda>p. strip p = []) parts then Inl (Empty_qualifier_part qualifier)
         else if 3 < length parts then Inl (Too_many_qualifier_parts qualifier)
         else Inr (join [46] (map (\<lambda>p. quote (strip p)) parts)))"

lemma get_dialect_profile_cases:
  assumes "get_dialect_profile d = Inr p"
  shows "(d, p) \<in> set dialect_profiles"
  using assms by (auto simp: get_dialect_profile_def split: option.splits dest: map_of_SomeD)

text \<open>Every backend the executor maps has a profile that the start-up check accepts.\<close>

lemma backends_supported:
  assumes "sqlglot_dialect_for_backend b = Inr d"
  shows "\<exists>p w. require_dialect_supported d = Inr (p, w) \<and> dl_name p = d"
proof -
  from assms have "(b, d) \<in> set sqlalchemy_backends"
    by (auto simp: sqlglot_dialect_for_backend_def split: option.splits dest: map_of_SomeD)
  then have "d \<in> {tsql, u ''postgres'', u ''mysql'', u ''sqlite''}"
    by (auto simp: sqlalchemy_backends_def)
  then show ?thesis
    by (auto simp: require_dialect_supported_def get_dialect_profile_def dialect_profiles_def
        check_profile_def tsql_def)
qed

end
