(* ===== verification/Sql_Text.thy ===== *)
theory Sql_Text
  imports Persian_Text
begin

text \<open>
  \<open>security/sql_guard.py\<close>, the functions on the text of a statement: the scan that tells which
  characters are inside parentheses or a string literal, \<open>clean_sql\<close> on a model's answer, and the
  T-SQL part of \<open>ensure_top\<close>. The regular expressions are written out as matchers on positions.
  \<open>D\<close> is the value of a decimal digit (\<open>\d\<close>, \<open>int\<close>), \<open>U\<close> the Unicode tables.
\<close>

section \<open>Matchers\<close>

text \<open>
  A matcher gives the end of the match that starts at a position. Under \<open>IGNORECASE\<close> a letter of a
  keyword also matches its other case and the letters that fold to it.
\<close>

type_synonym matcher = "ustr \<Rightarrow> nat \<Rightarrow> nat option"

type_synonym digits = "nat \<Rightarrow> nat option"

definition same_letter :: "nat \<Rightarrow> nat \<Rightarrow> bool" where
  "same_letter p c \<longleftrightarrow> c = p \<or> c = p + 32 \<or> p = 0x49 \<and> (c = 0x130 \<or> c = 0x131) \<or> p = 0x53 \<and> c = 0x17F"

definition keyword :: "ustr \<Rightarrow> matcher" where
  "keyword k s i =
     (if list_all2 same_letter k (take (length k) (drop i s)) then Some (i + length k) else None)"

text \<open>\<open>\b\<close> at a position.\<close>

definition word_at :: "unicode_db \<Rightarrow> ustr \<Rightarrow> nat \<Rightarrow> bool" where
  "word_at U s i \<longleftrightarrow> i < length s \<and> is_word U (s ! i)"

definition boundary :: "unicode_db \<Rightarrow> ustr \<Rightarrow> nat \<Rightarrow> bool" where
  "boundary U s i \<longleftrightarrow> (0 < i \<and> word_at U s (i - 1)) \<noteq> word_at U s i"

text \<open>A greedy run of one character class: its end.\<close>

definition run :: "(nat \<Rightarrow> bool) \<Rightarrow> ustr \<Rightarrow> nat \<Rightarrow> nat" where
  "run P s i = i + length (takeWhile P (drop i s))"

definition run1 :: "(nat \<Rightarrow> bool) \<Rightarrow> matcher" where
  "run1 P s i = (if run P s i = i then None else Some (run P s i))"

definition then_match :: "matcher \<Rightarrow> matcher \<Rightarrow> matcher" where
  "then_match m m' s i = Option.bind (m s i) (m' s)"

definition at_boundary :: "unicode_db \<Rightarrow> matcher" where
  "at_boundary U s i = (if boundary U s i then Some i else None)"

definition spaces :: matcher where "spaces = run1 is_space"

definition digit_run :: "digits \<Rightarrow> matcher" where "digit_run D = run1 (\<lambda>c. D c \<noteq> None)"

definition bounded_word :: "unicode_db \<Rightarrow> ustr \<Rightarrow> matcher" where
  "bounded_word U k = then_match (at_boundary U) (then_match (keyword k) (at_boundary U))"

definition starts_of :: "matcher \<Rightarrow> ustr \<Rightarrow> nat list" where
  "starts_of m s = filter (\<lambda>i. m s i \<noteq> None) [0..<Suc (length s)]"

definition regex_search :: "matcher \<Rightarrow> ustr \<Rightarrow> nat option" where
  "regex_search m s = find (\<lambda>i. m s i \<noteq> None) [0..<Suc (length s)]"

text \<open>\<open>sub\<close> of a pattern that never matches the empty text; \<open>f\<close> gives the replacement of a match.\<close>

function sub_from :: "matcher \<Rightarrow> (nat \<Rightarrow> nat \<Rightarrow> ustr) \<Rightarrow> ustr \<Rightarrow> nat \<Rightarrow> ustr" where
  "sub_from m f s i =
     (if length s \<le> i then []
      else case m s i of
             None \<Rightarrow> s ! i # sub_from m f s (Suc i)
           | Some j \<Rightarrow> f i j @ sub_from m f s (max j (Suc i)))"
  by pat_completeness auto

termination
  by (relation "measure (\<lambda>(m, f, s, i). length s - i)") auto

declare sub_from.simps [simp del]

definition sub_all :: "matcher \<Rightarrow> (nat \<Rightarrow> nat \<Rightarrow> ustr) \<Rightarrow> ustr \<Rightarrow> ustr" where
  "sub_all m f s = sub_from m f s 0"

definition slice :: "ustr \<Rightarrow> nat \<Rightarrow> nat \<Rightarrow> ustr" where
  "slice s i j = take (j - i) (drop i s)"

section \<open>The patterns\<close>

definition select_token :: "unicode_db \<Rightarrow> matcher" where
  "select_token U = bounded_word U (u ''SELECT'')"

definition order_by :: "unicode_db \<Rightarrow> matcher" where
  "order_by U = then_match (at_boundary U) (then_match (keyword (u ''ORDER''))
     (then_match spaces (then_match (keyword (u ''BY'')) (at_boundary U))))"

definition distinct_after :: "unicode_db \<Rightarrow> matcher" where
  "distinct_after U = then_match spaces (then_match (keyword (u ''DISTINCT'')) (at_boundary U))"

definition top_after :: "unicode_db \<Rightarrow> digits \<Rightarrow> matcher" where
  "top_after U D = then_match spaces (then_match (keyword (u ''TOP''))
     (then_match spaces (then_match (digit_run D) (at_boundary U))))"

definition limit_prefix :: "unicode_db \<Rightarrow> matcher" where
  "limit_prefix U = then_match (at_boundary U) (then_match (keyword (u ''LIMIT'')) spaces)"

definition limit_re :: "unicode_db \<Rightarrow> digits \<Rightarrow> matcher" where
  "limit_re U D = then_match (limit_prefix U) (digit_run D)"

definition limit_strip :: "unicode_db \<Rightarrow> digits \<Rightarrow> matcher" where
  "limit_strip U D s i =
     then_match (limit_re U D) (at_boundary U) s (run is_space s i)"

definition select_start :: "unicode_db \<Rightarrow> matcher" where
  "select_start U s i =
     (case then_match (keyword (u ''SELECT'')) (at_boundary U) s i of
        Some j \<Rightarrow> Some j
      | None \<Rightarrow> then_match (keyword (u ''WITH'')) (at_boundary U) s i)"

definition top_distinct_prefix :: matcher where
  "top_distinct_prefix = then_match (keyword (u ''SELECT'')) (then_match spaces
     (then_match (keyword (u ''TOP'')) spaces))"

definition top_distinct :: "digits \<Rightarrow> matcher" where
  "top_distinct D = then_match top_distinct_prefix (then_match (digit_run D)
     (then_match spaces (keyword (u ''DISTINCT''))))"

text \<open>\<open>_FENCE_RE\<close>: the text of the first fenced block, without the spaces around it.\<close>

definition fence :: ustr where "fence = [96, 96, 96]"

definition fence_start :: "ustr \<Rightarrow> nat \<Rightarrow> nat" where
  "fence_start s i =
     (let j = i + 3; k = (case keyword (u ''SQL'') s j of Some e \<Rightarrow> e | None \<Rightarrow> j) in run is_space s k)"

definition fenced :: "ustr \<Rightarrow> ustr option" where
  "fenced s =
     (case find (\<lambda>i. startswith (drop i s) fence) [0..<Suc (length s)] of
        None \<Rightarrow> None
      | Some i \<Rightarrow>
          map_option (slice s (fence_start s i))
            (find (\<lambda>j. startswith (dropWhile is_space (drop j s)) fence)
               [fence_start s i..<Suc (length s)]))"

section \<open>The scan\<close>

text \<open>\<open>_scan_structure\<close>: for every character the parenthesis depth and whether it is in a string.\<close>

fun scan :: "nat \<Rightarrow> bool \<Rightarrow> ustr \<Rightarrow> (nat \<times> bool) list" where
  "scan depth in_string [] = []"
| "scan depth True [c] = [(depth, True)]"
| "scan depth True (c # d # s) =
     (if c = 39 \<and> d = 39 then (depth, True) # (depth, True) # scan depth True s
      else (depth, True) # scan depth (c \<noteq> 39) (d # s))"
| "scan depth False (c # s) =
     (if c = 39 then (depth, True) # scan depth True s
      else (depth, False) # scan (if c = 40 then depth + 1 else if c = 41 then depth - 1 else depth) False s)"

definition scan_structure :: "ustr \<Rightarrow> (nat \<times> bool) list" where
  "scan_structure s = scan 0 False s"

definition at_top :: "ustr \<Rightarrow> nat \<Rightarrow> bool" where
  "at_top s i \<longleftrightarrow> i < length (scan_structure s) \<and> scan_structure s ! i = (0, False)"

definition top_level_select_matches :: "unicode_db \<Rightarrow> ustr \<Rightarrow> nat list" where
  "top_level_select_matches U s = filter (at_top s) (starts_of (select_token U) s)"

definition has_top_level_order_by :: "unicode_db \<Rightarrow> ustr \<Rightarrow> bool" where
  "has_top_level_order_by U s \<longleftrightarrow> list_ex (at_top s) (starts_of (order_by U) s)"

section \<open>ensure_top for T-SQL\<close>

datatype cap_error = No_top_level_select ustr | Set_operation_ordered

definition top_clause :: "int \<Rightarrow> ustr" where
  "top_clause n = u '' TOP '' @ show_int n"

definition ensure_top_tsql :: "unicode_db \<Rightarrow> digits \<Rightarrow> ustr \<Rightarrow> int \<Rightarrow> cap_error + ustr" where
  "ensure_top_tsql U D sql n =
     (case top_level_select_matches U sql of
        [] \<Rightarrow> Inl (No_top_level_select (take 200 sql))
      | p # q # ps \<Rightarrow>
          (let body = drop p sql
           in if has_top_level_order_by U body then Inl Set_operation_ordered
              else Inr (take p sql @ u ''SELECT'' @ top_clause n @ u '' * FROM ('' @ body
                        @ u '') AS _ensure_top_capped''))
      | [p] \<Rightarrow>
          (let pos = p + 6; rest = drop pos sql
           in case distinct_after U rest 0 of
                Some after \<Rightarrow>
                  if top_after U D (drop after rest) 0 \<noteq> None then Inr sql
                  else Inr (take pos sql @ take after rest @ top_clause n @ drop after rest)
              | None \<Rightarrow>
                  if top_after U D rest 0 \<noteq> None then Inr sql
                  else Inr (take pos sql @ top_clause n @ rest)))"

section \<open>clean_sql\<close>

datatype clean_error = Empty_answer | No_select ustr | Not_capped cap_error

definition int_of_digits :: "digits \<Rightarrow> ustr \<Rightarrow> int" where
  "int_of_digits D s = fold (\<lambda>c v. 10 * v + int (case D c of None \<Rightarrow> 0 | Some d \<Rightarrow> d)) s 0"

definition first_limit :: "unicode_db \<Rightarrow> digits \<Rightarrow> ustr \<Rightarrow> int option" where
  "first_limit U D s =
     (case regex_search (limit_re U D) s of
        None \<Rightarrow> None
      | Some i \<Rightarrow>
          (case limit_prefix U s i of
             None \<Rightarrow> None
           | Some j \<Rightarrow> Some (int_of_digits D (slice s j (run (\<lambda>c. D c \<noteq> None) s j)))))"

definition strip_limits :: "unicode_db \<Rightarrow> digits \<Rightarrow> ustr \<Rightarrow> ustr" where
  "strip_limits U D s = sub_all (limit_strip U D) (\<lambda>i j. []) s"

definition top_count :: "digits \<Rightarrow> ustr \<Rightarrow> nat \<Rightarrow> ustr" where
  "top_count D s i =
     (case top_distinct_prefix s i of
        None \<Rightarrow> [] | Some j \<Rightarrow> slice s j (run (\<lambda>c. D c \<noteq> None) s j))"

definition fix_top_distinct :: "digits \<Rightarrow> ustr \<Rightarrow> ustr" where
  "fix_top_distinct D s = sub_all (top_distinct D) (\<lambda>i j. u ''SELECT DISTINCT TOP '' @ top_count D s i) s"

definition limit_to_top :: "unicode_db \<Rightarrow> digits \<Rightarrow> ustr \<Rightarrow> cap_error + ustr" where
  "limit_to_top U D sql =
     (case first_limit U D sql of
        None \<Rightarrow> Inr sql
      | Some n \<Rightarrow> ensure_top_tsql U D (strip_limits U D sql) n)"

definition clean_sql :: "unicode_db \<Rightarrow> digits \<Rightarrow> ustr \<Rightarrow> clean_error + ustr" where
  "clean_sql U D raw =
     (if strip raw = [] then Inl Empty_answer
      else let sql = (case fenced raw of Some inner \<Rightarrow> inner | None \<Rightarrow> raw)
           in case regex_search (select_start U) sql of
                None \<Rightarrow> Inl (No_select (take 200 sql))
              | Some i \<Rightarrow>
                  (case limit_to_top U D (strip (drop i sql)) of
                     Inl e \<Rightarrow> Inl (Not_capped e)
                   | Inr capped \<Rightarrow> Inr (strip (fix_top_distinct D capped))))"

text \<open>The decimal digits of ASCII, for evaluating definitions on concrete input.\<close>

definition ascii_digits :: digits where
  "ascii_digits c = (if 48 \<le> c \<and> c \<le> 57 then Some (c - 48) else None)"

end
