(* ===== verification/Sql_Guard.thy ===== *)
theory Sql_Guard
  imports Sql_Ast Sql_Text Dialects Column_Policy
begin

text \<open>
  \<open>security/sql_guard.py\<close>, \<open>validate_sql\<close>: the checks every statement passes before it runs. The
  parser and the printer of sqlglot are parameters (\<open>ge_parse\<close>, \<open>ge_render\<close>); a rejection records
  its class (correctable or policy), whether it is a refusal, its reason, its subject and which check
  raised it with what its message quotes. Reasons, order of the checks and early exits are the code's.
\<close>

section \<open>Rejections\<close>

datatype rejection_reason =
    R_denied_column | R_join_only_column | R_forbidden_statement | R_unknown_table
  | R_system_catalogue | R_no_table_reference | R_cross_datasource | R_ambiguous_table | R_other

datatype rejection_cause =
    Empty_sql
  | Limit_in_tsql
  | Syntax_error
  | No_statement
  | Several_statements nat
  | Forbidden ustr
  | Not_a_query ustr
  | Has_comment
  | National_literal ustr
  | String_concatenation ustr
  | System_catalogue ustr
  | Table_not_listed ustr
  | Wrong_qualifier ustr "ustr list"
  | Ambiguous_reference ustr "ustr list"
  | Several_sources "(ustr, ustr list) odict"
  | Policy_invalid policy_error
  | Denied_column ustr
  | Column_not_listed ustr ustr
  | Star_unverifiable ustr
  | Star_exposes ustr "ustr list"
  | Join_only ustr ustr ustr bool
  | Natural_join ustr ustr ustr
  | Star_restricted ustr "ustr list"
  | Star_unresolved ustr
  | No_table
  | Not_cleaned clean_error
  | Not_capped_text cap_error
  | Not_capped_tree ustr
  | Not_transpiled ustr
  | Tables_changed "ustr list" "ustr list"

record rejection =
  rj_policy :: bool
  rj_refusal :: bool
  rj_reason :: rejection_reason
  rj_subject :: "ustr option"
  rj_table :: "ustr option"
  rj_cause :: rejection_cause

definition correctable :: "rejection_reason \<Rightarrow> ustr option \<Rightarrow> rejection_cause \<Rightarrow> rejection" where
  "correctable reason subject cause =
     \<lparr>rj_policy = False, rj_refusal = False, rj_reason = reason, rj_subject = subject,
      rj_table = None, rj_cause = cause\<rparr>"

definition refused :: "rejection_reason \<Rightarrow> ustr option \<Rightarrow> rejection_cause \<Rightarrow> rejection" where
  "refused reason subject cause = (correctable reason subject cause)\<lparr>rj_refusal := True\<rparr>"

definition policy_rejection :: "rejection_reason \<Rightarrow> ustr option \<Rightarrow> rejection_cause \<Rightarrow> rejection" where
  "policy_rejection reason subject cause =
     \<lparr>rj_policy = True, rj_refusal = True, rj_reason = reason, rj_subject = subject,
      rj_table = None, rj_cause = cause\<rparr>"

text \<open>The exceptions a validation may end with: a rejection, or one it does not catch.\<close>

datatype guard_error =
    Rejected rejection
  | Bad_dialect dialect_error
  | Bad_policy policy_error
  | Bad_routing routing_error

section \<open>The lookup tables\<close>

record schema_lookup =
  lk_tables :: "(ustr, ustr) odict"
  lk_columns :: "(ustr, ustr set) odict"
  lk_qualifier_parts :: "(ustr, ustr list) odict"
  lk_qualifier :: "(ustr, ustr) odict"
  lk_bare :: "(ustr, ustr list) odict"

definition bare_of :: "identifier_parser \<Rightarrow> ustr \<Rightarrow> key_error + ustr" where
  "bare_of P name =
     (case P name of
        None \<Rightarrow> Inl (Not_an_identifier name)
      | Some parts \<Rightarrow> if parts = [] then Inl (No_name name) else Inr (last parts))"

fun index_bare ::
    "identifier_parser \<Rightarrow> unicode_db \<Rightarrow> ustr list \<Rightarrow> (ustr, ustr list) odict
     \<Rightarrow> key_error + (ustr, ustr list) odict" where
  "index_bare P U [] index = Inr index"
| "index_bare P U (name # names) index =
     (case bare_of P name of
        Inl e \<Rightarrow> Inl e
      | Inr bare \<Rightarrow>
          (let key = lower U bare; ks = (case map_of index key of None \<Rightarrow> [] | Some ks \<Rightarrow> ks)
           in index_bare P U names (AList.update key (ks @ [name]) index)))"

definition build_schema_lookup ::
    "identifier_parser \<Rightarrow> unicode_db \<Rightarrow> schema_cache \<Rightarrow> key_error + schema_lookup" where
  "build_schema_lookup P U cache =
     (let names = od_keys (sc_columns cache);
          q = (\<lambda>n. case map_of (sc_qualifiers cache) n of None \<Rightarrow> [] | Some q \<Rightarrow> q)
      in case index_bare P U names [] of
           Inl e \<Rightarrow> Inl e
         | Inr index \<Rightarrow> Inr
             \<lparr>lk_tables = fold (\<lambda>n. AList.update (lower U n) n) names [],
              lk_columns = map (\<lambda>(n, cs). (n, set (map (\<lambda>(c, d). lower U c) cs))) (sc_columns cache),
              lk_qualifier_parts =
                map (\<lambda>n. (n, if q n = [] then [] else map (lower U) (split_on 46 (q n)))) names,
              lk_qualifier = map (\<lambda>n. (n, q n)) names,
              lk_bare = index\<rparr>)"

section \<open>Table references\<close>

datatype match_status = Resolved | Unknown | Ambiguous | Qualifier_mismatch | Multi_part_only

record table_match =
  tm_canonical :: "ustr option"
  tm_candidates :: "ustr list"
  tm_status :: match_status

definition match_result :: "ustr option \<Rightarrow> ustr list \<Rightarrow> match_status \<Rightarrow> table_match" where
  "match_result c ks s = \<lparr>tm_canonical = c, tm_candidates = ks, tm_status = s\<rparr>"

definition parts_of :: "schema_lookup \<Rightarrow> ustr \<Rightarrow> ustr list" where
  "parts_of L key = (case map_of (lk_qualifier_parts L) key of None \<Rightarrow> [] | Some ps \<Rightarrow> ps)"

definition candidates_of :: "schema_lookup \<Rightarrow> unicode_db \<Rightarrow> ustr \<Rightarrow> ustr list" where
  "candidates_of L U name = (case map_of (lk_bare L) (lower U name) of None \<Rightarrow> [] | Some ks \<Rightarrow> ks)"

definition match_qualified :: "schema_lookup \<Rightarrow> ustr list \<Rightarrow> ustr list \<Rightarrow> table_match" where
  "match_qualified L candidates qualifier =
     (case filter (\<lambda>k. parts_of L k = qualifier) candidates of
        [k] \<Rightarrow> match_result (Some k) candidates Resolved
      | k # k' # ks \<Rightarrow> match_result None (k # k' # ks) Ambiguous
      | [] \<Rightarrow>
          (case filter (\<lambda>k. parts_of L k = []) candidates of
             [k] \<Rightarrow> match_result (Some k) candidates Resolved
           | k # k' # ks \<Rightarrow> match_result None (k # k' # ks) Ambiguous
           | [] \<Rightarrow> match_result None candidates Qualifier_mismatch))"

definition match_table_ref ::
    "schema_lookup \<Rightarrow> unicode_db \<Rightarrow> ustr \<Rightarrow> ustr list \<Rightarrow> table_match" where
  "match_table_ref L U name qualifier =
     (let candidates = candidates_of L U name
      in if candidates = [] then match_result None [] Unknown
         else if qualifier \<noteq> [] then match_qualified L candidates qualifier
         else (case candidates of
                 [k] \<Rightarrow> if length (parts_of L k) \<le> 1 then match_result (Some k) candidates Resolved
                        else match_result None candidates Multi_part_only
               | _ \<Rightarrow> match_result None candidates Ambiguous))"

definition ref_name_and_qualifier :: "unicode_db \<Rightarrow> ast \<Rightarrow> ustr \<times> ustr list" where
  "ref_name_and_qualifier U t =
     (let parts = table_ref_parts t
      in if parts = [] then ([], []) else (last parts, map (lower U) (butlast parts)))"

definition cte_names :: "unicode_db \<Rightarrow> ast \<Rightarrow> ustr set" where
  "cte_names U tree =
     set (map (\<lambda>(n, up). lower U (alias_of n)) (filter (\<lambda>(n, up). alias_of n \<noteq> []) (find_all Cte tree)))"

definition resolve_table_name :: "schema_lookup \<Rightarrow> unicode_db \<Rightarrow> ustr set \<Rightarrow> ast \<Rightarrow> ustr option" where
  "resolve_table_name L U ctes table =
     (case ref_name_and_qualifier U table of
        (name, qualifier) \<Rightarrow>
          if name = [] \<or> lower U name \<in> ctes then None
          else tm_canonical (match_table_ref L U name qualifier))"

definition resolve_table_key :: "schema_lookup \<Rightarrow> unicode_db \<Rightarrow> ast \<Rightarrow> ast \<Rightarrow> ustr option" where
  "resolve_table_key L U table tree = resolve_table_name L U (cte_names U tree) table"

definition resolved_tables :: "schema_lookup \<Rightarrow> unicode_db \<Rightarrow> ustr set \<Rightarrow> ast \<Rightarrow> ustr list" where
  "resolved_tables L U ctes tree =
     concat (map (\<lambda>(n, up). case resolve_table_name L U ctes n of None \<Rightarrow> [] | Some k \<Rightarrow> [k])
       (find_all Table tree))"

text \<open>
  \<open>_collect_table_alias_map\<close>: every alias, the last one written winning, then the bare names written
  by exactly one resolved reference.
\<close>

definition table_entries ::
    "schema_lookup \<Rightarrow> unicode_db \<Rightarrow> ustr set \<Rightarrow> ast \<Rightarrow> (ast \<times> ustr) list" where
  "table_entries L U ctes tree =
     concat (map (\<lambda>(n, up). case resolve_table_name L U ctes n of None \<Rightarrow> [] | Some k \<Rightarrow> [(n, k)])
       (find_all Table tree))"

definition collect_table_alias_map ::
    "schema_lookup \<Rightarrow> unicode_db \<Rightarrow> ustr set \<Rightarrow> ast \<Rightarrow> (ustr, ustr) odict" where
  "collect_table_alias_map L U ctes tree =
     (let entries = table_entries L U ctes tree;
          names = map (\<lambda>(n, k). (lower U (name_of n), k)) entries;
          aliases = fold (\<lambda>(n, k) m. if alias_of n \<noteq> [] then AList.update (lower U (alias_of n)) k m else m)
                      entries []
      in fold (\<lambda>(name, k) m. if count_list (map fst names) name = 1 then AList.update name k m else m)
           names aliases)"

definition direct_from_sources :: "ast \<Rightarrow> ast list" where
  "direct_from_sources select =
     (case arg From select of
        None \<Rightarrow> []
      | Some f \<Rightarrow> (case arg This f of None \<Rightarrow> [] | Some s \<Rightarrow> [s]))
     @ concat (map (\<lambda>j. case arg This j of None \<Rightarrow> [] | Some s \<Rightarrow> [s]) (arg_list Joins select))"

fun star_tables :: "schema_lookup \<Rightarrow> unicode_db \<Rightarrow> ustr set \<Rightarrow> ast list \<Rightarrow> ustr list option" where
  "star_tables L U ctes [] = Some []"
| "star_tables L U ctes (s # ss) =
     (if cls s \<noteq> Table then None
      else case resolve_table_name L U ctes s of
             None \<Rightarrow> None
           | Some k \<Rightarrow> map_option (Cons k) (star_tables L U ctes ss))"

definition resolve_star_tables ::
    "schema_lookup \<Rightarrow> unicode_db \<Rightarrow> ustr set \<Rightarrow> located option \<Rightarrow> ustr list option" where
  "resolve_star_tables L U ctes select =
     (case select of
        None \<Rightarrow> None
      | Some (s, up) \<Rightarrow> star_tables L U ctes (direct_from_sources s))"

section \<open>The environment of a validation\<close>

record guard_env =
  ge_unicode :: unicode_db
  ge_digits :: digits
  ge_ident :: identifier_parser
  ge_deployment :: deployment
  ge_lookup :: schema_lookup
  ge_item_order :: "py_item set \<Rightarrow> py_item list"
  ge_table_order :: "ustr set \<Rightarrow> ustr list"
  ge_parse :: "ustr \<Rightarrow> ustr \<Rightarrow> ast option list option"
  ge_render :: "ustr \<Rightarrow> ast \<Rightarrow> ustr"

abbreviation resolve_in :: "guard_env \<Rightarrow> ustr set \<Rightarrow> ast \<Rightarrow> ustr option" where
  "resolve_in G \<equiv> resolve_table_name (ge_lookup G) (ge_unicode G)"

definition guard_columns :: "guard_env \<Rightarrow> ustr \<Rightarrow> ustr set" where
  "guard_columns G t = (case map_of (lk_columns (ge_lookup G)) t of None \<Rightarrow> {} | Some cs \<Rightarrow> cs)"

section \<open>Forbidden constructs\<close>

definition named_forbidden_types :: "(node_class \<times> ustr) list" where
  "named_forbidden_types =
     [(Insert_stmt, u ''INSERT''), (Update_stmt, u ''UPDATE''), (Delete_stmt, u ''DELETE''),
      (Drop_stmt, u ''DROP''), (Alter_stmt, u ''ALTER''), (Create_stmt, u ''CREATE''),
      (Merge_stmt, u ''MERGE''), (Truncate_stmt, u ''TRUNCATE''), (Revoke_stmt, u ''REVOKE''),
      (Execute_stmt, u ''EXECUTE''), (Into, u ''INTO'')]"

definition allowed_root_types :: "node_class set" where
  "allowed_root_types = {Select, Union_op, Intersect_op, Except_op}"

definition dangerous_function_names :: "ustr set" where
  "dangerous_function_names = {u ''OPENROWSET'', u ''OPENQUERY'', u ''OPENDATASOURCE''}"

definition safe_anonymous_functions :: "ustr set" where
  "safe_anonymous_functions = {u ''VAR'', u ''VARP'', u ''STDEVP'', u ''STRING_SPLIT'', u ''CHOOSE'',
     u ''PARSE'', u ''CHECKSUM'', u ''BINARY_CHECKSUM''}"

definition forbidden_state_types :: "node_class set" where
  "forbidden_state_types = {Parameter, Current_user, Session_user, Current_schema, Object_id}"

definition is_dangerous_identifier :: "unicode_db \<Rightarrow> dialect_profile \<Rightarrow> ustr \<Rightarrow> bool" where
  "is_dangerous_identifier U p name =
     (let up = upper U name
      in startswith up (u ''XP_'') \<or> startswith up (u ''SP_'') \<or> up \<in> dangerous_function_names
         \<or> up \<in> set (dl_dangerous p))"

definition is_string_literal_operand :: "ast option \<Rightarrow> bool" where
  "is_string_literal_operand n =
     (case n of None \<Rightarrow> False | Some e \<Rightarrow> cls e = National \<or> cls e = Literal \<and> nt_string (text_of e))"

definition forbidden_label :: "unicode_db \<Rightarrow> ast \<Rightarrow> ustr option" where
  "forbidden_label U n =
     (if cls n = Command
      then Some (if nt_value (text_of n) \<noteq> [] then upper U (nt_value (text_of n)) else u ''COMMAND'')
      else map_of named_forbidden_types (cls n))"

definition forbidden :: "ustr \<Rightarrow> guard_error" where
  "forbidden label = Rejected (policy_rejection R_forbidden_statement (Some label) (Forbidden label))"

section \<open>One statement\<close>

definition validate_text :: "guard_env \<Rightarrow> ustr \<Rightarrow> ustr \<Rightarrow> guard_error option" where
  "validate_text G dialect sql =
     (if strip sql = [] then Some (Rejected (correctable R_other None Empty_sql))
      else if dialect = tsql \<and> regex_search (limit_re (ge_unicode G) (ge_digits G)) sql \<noteq> None
      then Some (Rejected (correctable R_other None Limit_in_tsql))
      else None)"

definition single_statement :: "guard_env \<Rightarrow> ustr \<Rightarrow> ustr \<Rightarrow> guard_error + ast" where
  "single_statement G dialect sql =
     (case ge_parse G sql dialect of
        None \<Rightarrow> Inl (Rejected (correctable R_other None Syntax_error))
      | Some raw \<Rightarrow>
          (case List.map_filter id raw of
             [] \<Rightarrow> Inl (Rejected (correctable R_other None No_statement))
           | [tree] \<Rightarrow> Inr tree
           | stmts \<Rightarrow>
               (case List.map_filter (forbidden_label (ge_unicode G)) stmts of
                  label # ls \<Rightarrow> Inl (forbidden label)
                | [] \<Rightarrow> Inl (Rejected (policy_rejection R_forbidden_statement None
                                  (Several_statements (length stmts)))))))"

definition check_root :: "guard_env \<Rightarrow> ast \<Rightarrow> guard_error option" where
  "check_root G tree =
     (case forbidden_label (ge_unicode G) tree of
        Some label \<Rightarrow> Some (forbidden label)
      | None \<Rightarrow>
          if cls tree \<notin> allowed_root_types
          then Some (Rejected (policy_rejection R_forbidden_statement (Some (nt_type (text_of tree)))
                       (Not_a_query (nt_type (text_of tree)))))
          else None)"

section \<open>The nodes of the tree\<close>

definition system_catalogue :: "ustr \<Rightarrow> guard_error" where
  "system_catalogue name = Rejected (policy_rejection R_system_catalogue (Some name) (System_catalogue name))"

definition check_catalogue :: "dialect_profile \<Rightarrow> ustr \<Rightarrow> ustr \<Rightarrow> guard_error option" where
  "check_catalogue p db name =
     (if db \<in> set (dl_system_schemas p) then Some (system_catalogue db)
      else if db = [] \<and> name \<in> set (dl_system_schemas p) then Some (system_catalogue name)
      else if list_ex (startswith db) (dl_system_prefixes p) then Some (system_catalogue db)
      else if list_ex (startswith name) (dl_system_prefixes p) then Some (system_catalogue name)
      else None)"

definition check_allowlist :: "guard_env \<Rightarrow> ustr set \<Rightarrow> ast \<Rightarrow> guard_error option" where
  "check_allowlist G ctes n =
     (let U = ge_unicode G; raw = name_of n
      in if raw = [] \<or> lower U raw \<in> ctes then None
         else (let q = snd (ref_name_and_qualifier U n); m = match_table_ref (ge_lookup G) U raw q
               in case tm_status m of
                    Resolved \<Rightarrow> None
                  | Unknown \<Rightarrow> Some (Rejected (refused R_unknown_table (Some raw) (Table_not_listed raw)))
                  | Ambiguous \<Rightarrow> Some (Rejected (refused R_ambiguous_table (Some raw)
                      (Ambiguous_reference raw (tm_candidates m))))
                  | _ \<Rightarrow> Some (Rejected (refused R_unknown_table (Some raw)
                      (Wrong_qualifier (if q \<noteq> [] then join [46] q @ [46] @ raw else raw) (tm_candidates m))))))"

definition check_table :: "guard_env \<Rightarrow> dialect_profile \<Rightarrow> ustr set \<Rightarrow> ast \<Rightarrow> guard_error option" where
  "check_table G p ctes n =
     (let U = ge_unicode G; raw = name_of n; db = upper U (nt_db (text_of n)); up = upper U raw
      in if is_dangerous_identifier U p raw then Some (forbidden up)
         else (case check_catalogue p db up of Some e \<Rightarrow> Some e | None \<Rightarrow> check_allowlist G ctes n))"

definition check_node ::
    "guard_env \<Rightarrow> ustr \<Rightarrow> dialect_profile \<Rightarrow> ustr set \<Rightarrow> ast \<Rightarrow> guard_error option" where
  "check_node G dialect p ctes n =
     (let U = ge_unicode G
      in case forbidden_label U n of
           Some label \<Rightarrow> Some (forbidden label)
         | None \<Rightarrow>
             if nt_comments (text_of n) then Some (Rejected (correctable R_other None Has_comment))
             else if cls n = National \<and> \<not> dl_national_literal p
             then Some (Rejected (correctable R_other None (National_literal (ge_render G dialect n))))
             else if dialect \<noteq> tsql \<and> cls n = Add
               \<and> (is_string_literal_operand (arg This n) \<or> is_string_literal_operand (arg Expression n))
             then Some (Rejected (correctable R_other None (String_concatenation (ge_render G dialect n))))
             else if cls n = Anonymous \<and> is_dangerous_identifier U p (name_of n)
             then Some (forbidden (upper U (name_of n)))
             else if cls n = Table then check_table G p ctes n
             else None)"

section \<open>One data source\<close>

definition require_single_datasource :: "guard_env \<Rightarrow> ustr set \<Rightarrow> ast \<Rightarrow> guard_error option" where
  "require_single_datasource G ctes tree =
     (let tables = set (resolved_tables (ge_lookup G) (ge_unicode G) ctes tree)
      in if card tables < 2 then None
         else (case choose_datasource (ge_deployment G) (ge_table_order G tables) of
                 Inr s \<Rightarrow> None
               | Inl (Cross_datasource groups) \<Rightarrow>
                   Some (Rejected (refused R_cross_datasource None (Several_sources groups)))
               | Inl e \<Rightarrow> Some (Bad_routing e)))"

section \<open>Denied columns\<close>

definition unknown_column :: "ustr \<Rightarrow> ustr \<Rightarrow> guard_error" where
  "unknown_column name t = Rejected ((correctable R_other (Some name) (Column_not_listed name t))\<lparr>rj_table := Some t\<rparr>)"

definition check_column ::
    "guard_env \<Rightarrow> ustr set \<Rightarrow> (ustr, ustr) odict \<Rightarrow> ast \<Rightarrow> guard_error option" where
  "check_column G denied aliases c =
     (let U = ge_unicode G; name = name_of c
      in if name = [] \<or> name = [42] then None
         else if upper U name \<in> denied
         then Some (Rejected (policy_rejection R_denied_column (Some name) (Denied_column name)))
         else if table_of c = [] then None
         else (case map_of aliases (lower U (table_of c)) of
                 None \<Rightarrow> None
               | Some t \<Rightarrow> if lower U name \<notin> guard_columns G t then Some (unknown_column name t) else None))"

definition star_label :: "located \<Rightarrow> ustr" where
  "star_label star =
     (case parent star of
        Some p \<Rightarrow> if cls p = Column \<and> table_of p \<noteq> [] then table_of p @ u ''.*'' else u ''*''
      | None \<Rightarrow> u ''*'')"

definition star_reads ::
    "guard_env \<Rightarrow> ustr set \<Rightarrow> (ustr, ustr) odict \<Rightarrow> located \<Rightarrow> ustr list option" where
  "star_reads G ctes aliases star =
     (let U = ge_unicode G;
          bare = resolve_star_tables (ge_lookup G) U ctes (enclosing_select star)
      in case parent star of
           Some p \<Rightarrow>
             if cls p = Column \<and> table_of p \<noteq> []
             then map_option (\<lambda>t. [t]) (map_of aliases (lower U (table_of p)))
             else bare
         | None \<Rightarrow> bare)"

definition exposed_denied :: "guard_env \<Rightarrow> ustr set \<Rightarrow> ustr list \<Rightarrow> ustr list" where
  "exposed_denied G denied tables =
     sort (concat (map (\<lambda>t. sorted_list_of_set {c \<in> guard_columns G t. upper (ge_unicode G) c \<in> denied})
       tables))"

definition check_star ::
    "guard_env \<Rightarrow> ustr set \<Rightarrow> (ustr, ustr) odict \<Rightarrow> ustr set \<Rightarrow> located \<Rightarrow> guard_error option" where
  "check_star G ctes aliases denied star =
     (case star_reads G ctes aliases star of
        None \<Rightarrow> Some (Rejected (policy_rejection R_denied_column None (Star_unverifiable (star_label star))))
      | Some tables \<Rightarrow>
          (let exposed = exposed_denied G denied tables
           in if exposed \<noteq> []
              then Some (Rejected (policy_rejection R_denied_column
                     (if length exposed = 1 then Some (hd exposed) else None)
                     (Star_exposes (star_label star) exposed)))
              else None))"


section \<open>Join-only columns\<close>

record scope_sources =
  sp_names :: "(ustr, ustr option list) odict"
  sp_tables :: "ustr list"

definition source_label :: "unicode_db \<Rightarrow> ast \<Rightarrow> ustr" where
  "source_label U s =
     lower U (if cls s = Table then alias_or_name s else alias_of s)"

definition add_source ::
    "guard_env \<Rightarrow> ustr set \<Rightarrow> ast \<Rightarrow> scope_sources \<Rightarrow> scope_sources" where
  "add_source G ctes s sc =
     (let k = (if cls s = Table then resolve_in G ctes s else None);
          label = source_label (ge_unicode G) s;
          sc' = (case k of None \<Rightarrow> sc | Some t \<Rightarrow> sc\<lparr>sp_tables := sp_tables sc @ [t]\<rparr>);
          old = (case map_of (sp_names sc) label of None \<Rightarrow> [] | Some ks \<Rightarrow> ks)
      in if label = [] then sc' else sc'\<lparr>sp_names := AList.update label (old @ [k]) (sp_names sc)\<rparr>)"

text \<open>\<open>_select_scope\<close>; its cache by node identity only saves work.\<close>

definition select_scope :: "guard_env \<Rightarrow> ustr set \<Rightarrow> ast \<Rightarrow> scope_sources" where
  "select_scope G ctes select =
     fold (add_source G ctes) (direct_from_sources select) \<lparr>sp_names = [], sp_tables = []\<rparr>"

definition executing_source :: "guard_env \<Rightarrow> ustr set \<Rightarrow> ast \<Rightarrow> routing_error + ustr option" where
  "executing_source G ctes tree =
     (let tables = set (resolved_tables (ge_lookup G) (ge_unicode G) ctes tree)
      in if tables = {} then Inr None
         else choose_datasource (ge_deployment G) (ge_table_order G tables))"

text \<open>From an equality up through \<open>AND\<close> and parentheses to the \<open>ON\<close> of a join.\<close>

fun on_clause :: "(arg_key \<times> ast) list \<Rightarrow> bool" where
  "on_clause [] = False"
| "on_clause ((k, p) # up) =
     (if cls p = And_op \<or> cls p = Paren then on_clause up else cls p = Join \<and> k = On)"

definition is_column :: "ast option \<Rightarrow> bool" where
  "is_column n = (case n of None \<Rightarrow> False | Some c \<Rightarrow> cls c = Column)"

definition is_join_key_operand :: "located \<Rightarrow> bool" where
  "is_join_key_operand column =
     (case snd column of
        [] \<Rightarrow> False
      | (k, eq) # up \<Rightarrow>
          cls eq = Eq \<and> is_column (arg This eq) \<and> is_column (arg Expression eq) \<and> on_clause up)"

fun scopes :: "(arg_key \<times> ast) list \<Rightarrow> ast list" where
  "scopes [] = []"
| "scopes ((k, p) # up) = (if cls p = Select then p # scopes up else scopes up)"

definition has_entry :: "guard_env \<Rightarrow> join_only_restrictions \<Rightarrow> ustr \<Rightarrow> ustr \<Rightarrow> bool" where
  "has_entry G r t name =
     (case jo_entry (ge_unicode G) r t name of None \<Rightarrow> False | Some e \<Rightarrow> e \<noteq> [])"

fun unqualified_restricted ::
    "guard_env \<Rightarrow> ustr set \<Rightarrow> join_only_restrictions \<Rightarrow> ustr \<Rightarrow> ast list \<Rightarrow> ustr list" where
  "unqualified_restricted G ctes r name [] = []"
| "unqualified_restricted G ctes r name (s # ss) =
     (let tables = sp_tables (select_scope G ctes s); hit = filter (\<lambda>t. has_entry G r t name) tables
      in if hit \<noteq> [] then hit
         else if list_ex (\<lambda>t. name \<in> guard_columns G t) tables then []
         else unqualified_restricted G ctes r name ss)"

definition names_in :: "guard_env \<Rightarrow> ustr set \<Rightarrow> ustr \<Rightarrow> ast list \<Rightarrow> ustr option list option" where
  "names_in G ctes qualifier ss =
     (case List.map_filter (\<lambda>s. map_of (sp_names (select_scope G ctes s)) qualifier) ss of
        [] \<Rightarrow> None
      | ks # _ \<Rightarrow> Some ks)"

definition restricted_tables_of ::
    "guard_env \<Rightarrow> ustr set \<Rightarrow> join_only_restrictions \<Rightarrow> (ustr, ustr) odict \<Rightarrow> ustr set \<Rightarrow> located
     \<Rightarrow> ustr list" where
  "restricted_tables_of G ctes r aliases all_tables column =
     (let U = ge_unicode G; name = lower U (name_of (fst column));
          qualifier = lower U (table_of (fst column)); ss = scopes (snd column)
      in if qualifier \<noteq> []
         then (case names_in G ctes qualifier ss of
                 Some ks \<Rightarrow> filter (\<lambda>t. has_entry G r t name) (List.map_filter id ks)
               | None \<Rightarrow>
                   (case map_of aliases qualifier of
                      None \<Rightarrow> []
                    | Some t \<Rightarrow> if t \<noteq> [] \<and> has_entry G r t name then [t] else []))
         else if ss = [] then filter (\<lambda>t. has_entry G r t name) (sorted_list_of_set all_tables)
         else unqualified_restricted G ctes r name ss)"

definition check_join_only_column ::
    "guard_env \<Rightarrow> ustr set \<Rightarrow> join_only_restrictions \<Rightarrow> (ustr, ustr) odict \<Rightarrow> ustr set \<Rightarrow> located
     \<Rightarrow> guard_error option" where
  "check_join_only_column G ctes r aliases all_tables column =
     (let name = name_of (fst column)
      in if name = [] \<or> name = [42] \<or> lower (ge_unicode G) name \<notin> jo_names r then None
         else (case restricted_tables_of G ctes r aliases all_tables column of
                 [] \<Rightarrow> None
               | t # ts \<Rightarrow>
                   if is_join_key_operand column then None
                   else (let entry = (case jo_entry (ge_unicode G) r t name of
                             Some e \<Rightarrow> if e \<noteq> [] then e else name | None \<Rightarrow> name)
                         in Some (Rejected (refused R_join_only_column (Some entry)
                              (Join_only entry t name (table_of (fst column) = [])))))))"

definition check_using ::
    "guard_env \<Rightarrow> join_only_restrictions \<Rightarrow> ustr list \<Rightarrow> ast \<Rightarrow> guard_error option" where
  "check_using G r tables column =
     (let written = name_of column
      in if lower (ge_unicode G) written \<in> jo_names r
         then first_error (\<lambda>t. if has_entry G r t written
                then (case jo_entry (ge_unicode G) r t written of
                        None \<Rightarrow> None
                      | Some e \<Rightarrow> Some (Rejected (refused R_join_only_column (Some e)
                          (Join_only e t written False))))
                else None) tables
         else None)"

definition check_natural :: "join_only_restrictions \<Rightarrow> ustr \<Rightarrow> guard_error option" where
  "check_natural r t =
     (case map_of (jo_by_table r) t of
        None \<Rightarrow> None
      | Some [] \<Rightarrow> None
      | Some ((c, e) # cs) \<Rightarrow> Some (Rejected (refused R_join_only_column (Some e) (Natural_join c t e))))"

definition check_join ::
    "guard_env \<Rightarrow> ustr set \<Rightarrow> join_only_restrictions \<Rightarrow> located \<Rightarrow> guard_error option" where
  "check_join G ctes r j =
     (case enclosing_select j of
        None \<Rightarrow> None
      | Some (s, up) \<Rightarrow>
          (let tables = sp_tables (select_scope G ctes s)
           in case first_error (check_using G r tables) (arg_list Using (fst j)) of
                Some e \<Rightarrow> Some e
              | None \<Rightarrow>
                  if upper (ge_unicode G) (nt_method (text_of (fst j))) = u ''NATURAL''
                  then first_error (check_natural r) tables
                  else None))"

definition join_star_sources ::
    "guard_env \<Rightarrow> ustr set \<Rightarrow> located option \<Rightarrow> ustr list \<times> bool" where
  "join_star_sources G ctes select =
     (case select of
        None \<Rightarrow> ([], True)
      | Some (s, up) \<Rightarrow>
          (let ss = direct_from_sources s; res = resolve_in G ctes
           in (concat (map (\<lambda>x. if cls x = Table then (case res x of Some k \<Rightarrow> [k] | None \<Rightarrow> []) else []) ss),
               list_ex (\<lambda>x. if cls x = Table
                            then res x = None \<and> lower (ge_unicode G) (name_of x) \<notin> ctes
                            else cls x \<noteq> Subquery) ss)))"

definition join_star_reads ::
    "guard_env \<Rightarrow> ustr set \<Rightarrow> (ustr, ustr) odict \<Rightarrow> located \<Rightarrow> ustr list \<times> bool" where
  "join_star_reads G ctes aliases star =
     (case parent star of
        Some p \<Rightarrow>
          if cls p = Column \<and> table_of p \<noteq> []
          then (let q = lower (ge_unicode G) (table_of p)
                in case names_in G ctes q (scopes (snd star)) of
                     Some ks \<Rightarrow> (List.map_filter id ks, False)
                   | None \<Rightarrow> (case map_of aliases q of Some t \<Rightarrow> [t] | None \<Rightarrow> [], False))
          else join_star_sources G ctes (enclosing_select star)
      | None \<Rightarrow> join_star_sources G ctes (enclosing_select star))"

definition restricted_entries :: "join_only_restrictions \<Rightarrow> ustr list \<Rightarrow> ustr set" where
  "restricted_entries r tables =
     set (concat (map (\<lambda>t. case map_of (jo_by_table r) t of None \<Rightarrow> [] | Some cs \<Rightarrow> map snd cs) tables))"

definition check_join_only_star ::
    "guard_env \<Rightarrow> ustr set \<Rightarrow> join_only_restrictions \<Rightarrow> (ustr, ustr) odict \<Rightarrow> located \<Rightarrow> guard_error option" where
  "check_join_only_star G ctes r aliases star =
     (if (case parent star of Some p \<Rightarrow> cls p = Count | None \<Rightarrow> False) then None
      else (case join_star_reads G ctes aliases star of
              (tables, unresolved) \<Rightarrow>
                (let entries = sorted_list_of_set (restricted_entries r tables)
                 in if entries \<noteq> []
                    then Some (Rejected (refused R_join_only_column
                           (if length entries = 1 then Some (hd entries) else None)
                           (Star_restricted (star_label star) entries)))
                    else if unresolved
                    then Some (Rejected (refused R_join_only_column None (Star_unresolved (star_label star))))
                    else None)))"

definition enforce_join_only ::
    "guard_env \<Rightarrow> ustr set \<Rightarrow> join_only_restrictions \<Rightarrow> (ustr, ustr) odict \<Rightarrow> ast \<Rightarrow> guard_error option" where
  "enforce_join_only G ctes r aliases tree =
     (let all_tables = set (resolved_tables (ge_lookup G) (ge_unicode G) ctes tree)
      in first_error id
           [first_error (check_join_only_column G ctes r aliases all_tables) (find_all Column tree),
            first_error (check_join G ctes r) (find_all Join tree),
            first_error (check_join_only_star G ctes r aliases) (find_all Star tree)])"

definition guard_view :: "guard_env \<Rightarrow> schema_view" where
  "guard_view G = \<lparr>sv_columns = lk_columns (ge_lookup G), sv_qualifiers = lk_qualifier (ge_lookup G)\<rparr>"

text \<open>\<open>ColumnPolicyError\<close> is caught; the plain \<open>ValueError\<close> of a table key and the assertion are not.\<close>

definition policy_failure :: "policy_error \<Rightarrow> guard_error" where
  "policy_failure e =
     (case e of
        Table_key_error k \<Rightarrow> Bad_policy e
      | Assertion_error \<Rightarrow> Bad_policy e
      | _ \<Rightarrow> Rejected (policy_rejection R_other None (Policy_invalid e)))"

definition check_join_only ::
    "guard_env \<Rightarrow> ustr set \<Rightarrow> (ustr, ustr) odict \<Rightarrow> column_policy \<Rightarrow> ast \<Rightarrow> guard_error option" where
  "check_join_only G ctes aliases policy tree =
     (if cp_join_only policy = [] then None
      else (case executing_source G ctes tree of
              Inl e \<Rightarrow> Some (Bad_routing e)
            | Inr source \<Rightarrow>
                (case resolve_join_only (ge_ident G) (ge_deployment G) (ge_unicode G) policy
                        (guard_view G) source of
                   Inl e \<Rightarrow> Some (policy_failure e)
                 | Inr r \<Rightarrow> if jo_by_table r = [] then None else enforce_join_only G ctes r aliases tree)))"

section \<open>Functions, session state and the need for a table\<close>

definition check_projection :: "guard_env \<Rightarrow> ustr \<Rightarrow> ast \<Rightarrow> guard_error option" where
  "check_projection G dialect n =
     (let U = ge_unicode G; up = upper U (name_of n)
      in if cls n \<in> forbidden_state_types
         then Some (forbidden (upper U (strip (hd (split_on 40 (ge_render G dialect n))))))
         else if cls n = Anonymous \<and> up \<notin> safe_anonymous_functions
         then Some (Rejected (policy_rejection R_forbidden_statement (if up \<noteq> [] then Some up else None)
                (Forbidden (if up \<noteq> [] then up else u ''ANONYMOUS''))))
         else None)"

definition has_table :: "guard_env \<Rightarrow> ustr set \<Rightarrow> ast \<Rightarrow> bool" where
  "has_table G ctes tree =
     list_ex (\<lambda>(n, up). cls n = Table \<and> lower (ge_unicode G) (name_of n) \<notin> ctes) (walk tree)"

definition require_table :: "guard_env \<Rightarrow> ustr set \<Rightarrow> ast \<Rightarrow> guard_error option" where
  "require_table G ctes tree =
     (if has_table G ctes tree then None
      else Some (Rejected (refused R_no_table_reference None No_table)))"

section \<open>validate_sql\<close>

definition check_columns ::
    "guard_env \<Rightarrow> ustr set \<Rightarrow> (ustr, ustr) odict \<Rightarrow> column_policy \<Rightarrow> ast \<Rightarrow> guard_error option" where
  "check_columns G ctes aliases policy tree =
     first_error id
       [first_error (\<lambda>l. check_column G (cp_denied policy) aliases (fst l)) (find_all Column tree),
        if cp_denied policy = {} then None
        else first_error (check_star G ctes aliases (cp_denied policy)) (find_all Star tree),
        check_join_only G ctes aliases policy tree]"

definition validate_tree ::
    "guard_env \<Rightarrow> ustr \<Rightarrow> dialect_profile \<Rightarrow> denied_arg \<Rightarrow> ast \<Rightarrow> guard_error option" where
  "validate_tree G dialect p denied_arg tree =
     (let ctes = cte_names (ge_unicode G) tree;
          aliases = collect_table_alias_map (ge_lookup G) (ge_unicode G) ctes tree
      in first_error id
           [check_root G tree,
            first_error (\<lambda>l. check_node G dialect p ctes (fst l)) (walk tree),
            require_single_datasource G ctes tree,
            (case cached_column_policy (ge_item_order G) (ge_unicode G) denied_arg of
               Inl e \<Rightarrow> Some (policy_failure e)
             | Inr policy \<Rightarrow> check_columns G ctes aliases policy tree),
            first_error (\<lambda>l. check_projection G dialect (fst l)) (walk tree),
            require_table G ctes tree])"

definition validate_sql :: "guard_env \<Rightarrow> ustr \<Rightarrow> denied_arg \<Rightarrow> ustr \<Rightarrow> guard_error option" where
  "validate_sql G dialect denied_arg sql =
     (case validate_text G dialect sql of
        Some e \<Rightarrow> Some e
      | None \<Rightarrow>
          (case get_dialect_profile dialect of
             Inl e \<Rightarrow> Some (Bad_dialect e)
           | Inr p \<Rightarrow>
               (case single_statement G dialect sql of
                  Inl e \<Rightarrow> Some e
                | Inr tree \<Rightarrow> validate_tree G dialect p denied_arg tree)))"

text \<open>\<open>extract_touched_tables\<close>, sorted.\<close>

definition extract_touched_tables :: "guard_env \<Rightarrow> ustr \<Rightarrow> ustr \<Rightarrow> ustr list" where
  "extract_touched_tables G dialect sql =
     (case ge_parse G sql dialect of
        None \<Rightarrow> []
      | Some raw \<Rightarrow>
          sorted_list_of_set (set (concat (map (\<lambda>tree.
              filter (\<lambda>k. k \<noteq> []) (resolved_tables (ge_lookup G) (ge_unicode G) (cte_names (ge_unicode G) tree) tree))
            (List.map_filter id raw)))))"


end
