(* ===== verification/Guard_Safety.thy ===== *)
theory Guard_Safety
  imports Sql_Guard
begin

text \<open>
  What \<open>validate_sql\<close> guarantees of a statement it accepts, how it classifies the ones it refuses, and
  three statements it accepts although the rules it documents exclude them.
\<close>

section \<open>Acceptance\<close>

lemma validate_sql_None:
  assumes "validate_sql G d da sql = None"
  obtains p tree where
    "validate_text G d sql = None" "get_dialect_profile d = Inr p"
    "single_statement G d sql = Inr tree" "validate_tree G d p da tree = None"
  using assms by (auto simp: validate_sql_def split: option.splits sum.splits)

lemma single_statement_Inr:
  assumes "single_statement G d sql = Inr tree"
  shows "\<exists>raw. ge_parse G sql d = Some raw \<and> List.map_filter id raw = [tree]"
  using assms by (auto simp: single_statement_def split: option.splits list.splits)

lemma walk_all: "(\<forall>l \<in> set (walk t). P (fst l)) \<longleftrightarrow> (\<forall>n. subtree t n \<longrightarrow> P n)"
  using walk_subtrees [of t] by (metis (mono_tags, lifting) image_iff mem_Collect_eq)

lemma validate_tree_None:
  fixes G tree
  defines "ctes \<equiv> cte_names (ge_unicode G) tree"
  defines "aliases \<equiv> collect_table_alias_map (ge_lookup G) (ge_unicode G) ctes tree"
  assumes "validate_tree G d p da tree = None"
  obtains policy where
    "check_root G tree = None"
    "\<And>n. subtree tree n \<Longrightarrow> check_node G d p ctes n = None"
    "require_single_datasource G ctes tree = None"
    "cached_column_policy (ge_item_order G) (ge_unicode G) da = Inr policy"
    "check_columns G ctes aliases policy tree = None"
    "\<And>n. subtree tree n \<Longrightarrow> check_projection G d n = None"
    "require_table G ctes tree = None"
proof -
  have v: "check_root G tree = None" "first_error (\<lambda>l. check_node G d p ctes (fst l)) (walk tree) = None"
    "require_single_datasource G ctes tree = None"
    "(case cached_column_policy (ge_item_order G) (ge_unicode G) da of
        Inl e \<Rightarrow> Some (policy_failure e)
      | Inr policy \<Rightarrow> check_columns G ctes aliases policy tree) = None"
    "first_error (\<lambda>l. check_projection G d (fst l)) (walk tree) = None"
    "require_table G ctes tree = None"
    using assms(3) unfolding validate_tree_def Let_def ctes_def [symmetric] aliases_def [symmetric]
    by (simp_all add: first_error_None del: first_error.simps)
  from v(4) obtain policy where p: "cached_column_policy (ge_item_order G) (ge_unicode G) da = Inr policy"
      "check_columns G ctes aliases policy tree = None"
    by (auto split: sum.splits)
  have n: "\<And>n. subtree tree n \<Longrightarrow> check_node G d p ctes n = None"
    "\<And>n. subtree tree n \<Longrightarrow> check_projection G d n = None"
    using v(2,5) walk_all [of tree "\<lambda>n. check_node G d p ctes n = None"]
      walk_all [of tree "\<lambda>n. check_projection G d n = None"]
    by (simp_all add: first_error_None)
  show thesis by (rule that [OF v(1) n(1) v(3) p n(2) v(6)])
qed

section \<open>Only reads\<close>

text \<open>The classes of node that write, run procedures or read the state of the server.\<close>

definition write_types :: "node_class set" where
  "write_types = {Insert_stmt, Update_stmt, Delete_stmt, Drop_stmt, Alter_stmt, Create_stmt, Merge_stmt,
     Truncate_stmt, Revoke_stmt, Execute_stmt, Into, Command}"

lemma forbidden_label_None: "forbidden_label U n = None \<longleftrightarrow> cls n \<notin> write_types"
  by (cases "cls n") (simp_all add: forbidden_label_def write_types_def named_forbidden_types_def)

lemma check_node_None:
  assumes "check_node G d p ctes n = None"
  shows "cls n \<notin> write_types" "\<not> nt_comments (text_of n)"
    "cls n = Anonymous \<Longrightarrow> \<not> is_dangerous_identifier (ge_unicode G) p (name_of n)"
    "cls n = Table \<Longrightarrow> check_table G p ctes n = None"
    "cls n = National \<Longrightarrow> dl_national_literal p"
  using assms unfolding check_node_def Let_def forbidden_label_None [of "ge_unicode G", symmetric]
  by (auto split: option.splits if_splits)

lemma check_projection_None:
  assumes "check_projection G d n = None"
  shows "cls n \<notin> forbidden_state_types"
    "cls n = Anonymous \<Longrightarrow> upper (ge_unicode G) (name_of n) \<in> safe_anonymous_functions"
  using assms by (auto simp: check_projection_def Let_def split: if_splits)

lemma check_root_None: "check_root G tree = None \<Longrightarrow> cls tree \<in> allowed_root_types"
  by (auto simp: check_root_def split: option.splits if_splits)

text \<open>
  C1. An accepted text parses to exactly one statement, a query, and nowhere in it is there a node that
  writes, a comment, a read of server or session state, or a function without a type of its own
  outside the list of safe ones.
\<close>

theorem accepted_statement_only_reads:
  assumes "validate_sql G d da sql = None"
  shows "\<exists>raw tree. ge_parse G sql d = Some raw \<and> List.map_filter id raw = [tree]
    \<and> cls tree \<in> {Select, Union_op, Intersect_op, Except_op}
    \<and> (\<forall>n. subtree tree n \<longrightarrow> cls n \<notin> write_types \<and> cls n \<notin> forbidden_state_types
          \<and> \<not> nt_comments (text_of n)
          \<and> (cls n = Anonymous \<longrightarrow> upper (ge_unicode G) (name_of n) \<in> safe_anonymous_functions))"
proof -
  obtain p tree where 1: "single_statement G d sql = Inr tree" "validate_tree G d p da tree = None"
    using validate_sql_None [OF assms] by blast
  show ?thesis
    using single_statement_Inr [OF 1(1)] validate_tree_None [OF 1(2)]
      check_root_None check_node_None(1,2) check_projection_None
    unfolding allowed_root_types_def by metis
qed

section \<open>Only listed tables\<close>

lemma check_table_None:
  assumes "check_table G p ctes n = None"
  shows "\<not> is_dangerous_identifier (ge_unicode G) p (name_of n)"
    "upper (ge_unicode G) (nt_db (text_of n)) \<notin> set (dl_system_schemas p)"
    "check_allowlist G ctes n = None"
  using assms by (auto simp: check_table_def check_catalogue_def Let_def split: if_splits option.splits)

lemma match_status_canonical:
  "tm_status (match_table_ref L U name q) = Resolved \<longleftrightarrow> tm_canonical (match_table_ref L U name q) \<noteq> None"
  by (auto simp: match_table_ref_def match_qualified_def match_result_def Let_def split: list.splits)

lemma check_allowlist_None:
  assumes "check_allowlist G ctes n = None" "name_of n \<noteq> []" "lower (ge_unicode G) (name_of n) \<notin> ctes"
  shows "\<exists>k. tm_canonical (match_table_ref (ge_lookup G) (ge_unicode G) (name_of n)
    (snd (ref_name_and_qualifier (ge_unicode G) n))) = Some k"
proof -
  have "tm_status (match_table_ref (ge_lookup G) (ge_unicode G) (name_of n)
      (snd (ref_name_and_qualifier (ge_unicode G) n))) = Resolved"
    using assms by (auto simp: check_allowlist_def Let_def split: match_status.splits)
  then show ?thesis by (auto simp: match_status_canonical)
qed

text \<open>The candidates for a name are the keys with that bare name.\<close>

definition bare_is :: "identifier_parser \<Rightarrow> unicode_db \<Rightarrow> ustr \<Rightarrow> ustr \<Rightarrow> bool" where
  "bare_is P U name k \<longleftrightarrow> (case bare_of P k of Inl _ \<Rightarrow> False | Inr b \<Rightarrow> lower U b = lower U name)"

definition bucket :: "(ustr, ustr list) odict \<Rightarrow> ustr \<Rightarrow> ustr list" where
  "bucket index key = (case map_of index key of None \<Rightarrow> [] | Some ks \<Rightarrow> ks)"

lemma bucket_update: "bucket (AList.update k ks i) j = (if j = k then ks else bucket i j)"
  by (simp add: bucket_def update_conv')

lemma index_bare_spec:
  "index_bare P U names i = Inr j \<Longrightarrow>
   bucket j (lower U name) = bucket i (lower U name) @ filter (bare_is P U name) names"
proof (induction names arbitrary: i)
  case (Cons n ns)
  then obtain b where b: "bare_of P n = Inr b"
    by (auto split: sum.splits)
  with Cons.prems have "index_bare P U ns (AList.update (lower U b) (bucket i (lower U b) @ [n]) i) = Inr j"
    by (simp add: bucket_def Let_def)
  from Cons.IH [OF this] b show ?case by (simp add: bucket_update bare_is_def)
qed simp

lemma candidates_are_bare:
  assumes "build_schema_lookup P U cache = Inr L"
  shows "candidates_of L U name = filter (bare_is P U name) (od_keys (sc_columns cache))"
proof -
  obtain i where i: "index_bare P U (od_keys (sc_columns cache)) [] = Inr i" "lk_bare L = i"
    using assms by (auto simp: build_schema_lookup_def Let_def split: sum.splits)
  then show ?thesis
    using index_bare_spec [OF i(1), of name] by (simp add: candidates_of_def bucket_def)
qed

lemma only_element: "distinct xs \<Longrightarrow> xs = [k] \<longleftrightarrow> set xs = {k}"
  by (cases xs; cases "tl xs") auto

text \<open>
  \<open>_match_table_ref\<close>: a reference resolves to a key exactly when the key is the only one it can mean.
  Unqualified, that is the only key with the bare name, provided the key names no other database;
  qualified, the only key with that bare name and that qualifier or, when none has the qualifier, the
  only one without a qualifier.
\<close>

theorem reference_resolves_uniquely:
  fixes cache U P
  defines "C \<equiv> \<lambda>name. {k \<in> set (od_keys (sc_columns cache)). bare_is P U name k}"
  assumes "build_schema_lookup P U cache = Inr L" "distinct (od_keys (sc_columns cache))"
  shows "tm_canonical (match_table_ref L U name q) = Some k \<longleftrightarrow>
    (if q = [] then C name = {k} \<and> length (parts_of L k) \<le> 1
     else {j \<in> C name. parts_of L j = q} = {k}
       \<or> {j \<in> C name. parts_of L j = q} = {} \<and> {j \<in> C name. parts_of L j = []} = {k})"
proof -
  define ks where "ks = candidates_of L U name"
  have ks: "distinct ks" "set ks = C name"
    using assms(3) unfolding ks_def candidates_are_bare [OF assms(2)] C_def by auto
  have f: "filter Q ks = [j] \<longleftrightarrow> {i \<in> C name. Q i} = {j}" "filter Q ks = [] \<longleftrightarrow> {i \<in> C name. Q i} = {}" for Q j
    using only_element [of "filter Q ks" j] ks by (auto simp: filter_empty_conv)
  have k1: "ks = [j] \<longleftrightarrow> C name = {j}" for j
    using only_element [OF ks(1)] ks(2) by simp
  show ?thesis
  proof (cases "q = []")
    case True
    have "tm_canonical (match_table_ref L U name q) = Some k \<longleftrightarrow> ks = [k] \<and> length (parts_of L k) \<le> 1"
      using True by (auto simp: match_table_ref_def match_result_def Let_def ks_def [symmetric] split: list.splits)
    with True show ?thesis by (simp add: k1)
  next
    case False
    have "tm_canonical (match_table_ref L U name q) = Some k \<longleftrightarrow>
        filter (\<lambda>k. parts_of L k = q) ks = [k]
        \<or> filter (\<lambda>k. parts_of L k = q) ks = [] \<and> filter (\<lambda>k. parts_of L k = []) ks = [k]"
      using False
      by (auto simp: match_table_ref_def match_qualified_def match_result_def Let_def ks_def [symmetric]
          split: list.splits)
    with False show ?thesis by (simp add: f)
  qed
qed

lemma canonical_listed:
  assumes "build_schema_lookup P U cache = Inr L" "tm_canonical (match_table_ref L U name q) = Some k"
  shows "k \<in> set (od_keys (sc_columns cache))" "bare_is P U name k"
    "q = [] \<or> parts_of L k = q \<or> parts_of L k = []"
proof -
  have "k \<in> set (candidates_of L U name) \<and> (q = [] \<or> parts_of L k = q \<or> parts_of L k = [])"
    using assms(2)
    by (auto simp: match_table_ref_def match_qualified_def match_result_def Let_def filter_eq_Cons_iff
        split: list.splits if_splits)
  then show "k \<in> set (od_keys (sc_columns cache))" "bare_is P U name k"
    "q = [] \<or> parts_of L k = q \<or> parts_of L k = []"
    by (auto simp: candidates_are_bare [OF assms(1)])
qed

lemma in_config_order_Nil [simp]: "in_config_order D ns = [] \<longleftrightarrow> ns = []" "[] = in_config_order D ns \<longleftrightarrow> ns = []"
  by (metis set_in_config_order set_empty)+

lemma sources_of_table_not_Nil: "sources_of_table D t \<noteq> []"
  by (auto simp: sources_of_table_def table_datasource_sets_def split: option.splits if_splits dest!: map_of_SomeD)

lemma require_single_datasource_None:
  assumes "require_single_datasource G ctes tree = None"
    and order: "\<And>S. finite S \<Longrightarrow> set (ge_table_order G S) = S"
  shows "\<exists>s. \<forall>k \<in> set (resolved_tables (ge_lookup G) (ge_unicode G) ctes tree).
    s \<in> set (sources_of_table (ge_deployment G) k)"
proof -
  define T where "T = set (resolved_tables (ge_lookup G) (ge_unicode G) ctes tree)"
  have fin: "finite T" by (simp add: T_def)
  consider (few) "card T < 2" | (many) s where "choose_datasource (ge_deployment G) (ge_table_order G T) = Inr s"
    using assms(1) by (auto simp: require_single_datasource_def Let_def T_def split: if_splits sum.splits routing_error.splits)
  then have "\<exists>s. \<forall>k \<in> T. s \<in> set (sources_of_table (ge_deployment G) k)"
  proof cases
    case few
    then consider "T = {}" | k where "T = {k}"
      using fin by (metis One_nat_def Suc_1 card_1_singletonE card_eq_0_iff less_2_cases)
    then show ?thesis
      using sources_of_table_not_Nil by cases (auto simp: ex_in_conv)
  next
    case many
    then show ?thesis
      using choose_datasource_cases [of "ge_table_order G T" "ge_deployment G"] order [OF fin]
      by (auto simp: common_source_iff)
  qed
  then show ?thesis by (simp add: T_def)
qed



section \<open>Only allowed columns\<close>

lemma built_columns:
  assumes "build_schema_lookup P U cache = Inr L"
  shows "lk_columns L = map (\<lambda>(n, cs). (n, set (map (\<lambda>(c, d). lower U c) cs))) (sc_columns cache)"
  using assms by (auto simp: build_schema_lookup_def Let_def split: sum.splits)

lemma guard_columns_finite:
  assumes "build_schema_lookup P U cache = Inr (ge_lookup G)"
  shows "finite (guard_columns G t)"
  using built_columns [OF assms]
  by (auto simp: guard_columns_def split: option.split dest!: map_of_SomeD)

lemma star_tables_Some:
  "star_tables L U ctes ss = Some ts \<Longrightarrow>
   list_all2 (\<lambda>s t. cls s = Table \<and> resolve_table_name L U ctes s = Some t) ss ts"
  by (induction ss arbitrary: ts) (auto split: if_splits option.splits)

lemma exposed_denied_Nil:
  assumes "exposed_denied G denied ts = []" "t \<in> set ts" "finite (guard_columns G t)" "c \<in> guard_columns G t"
  shows "upper (ge_unicode G) c \<notin> denied"
proof
  assume up: "upper (ge_unicode G) c \<in> denied"
  have "set (exposed_denied G denied ts) = {}" using assms(1) by simp
  then have "sorted_list_of_set {c \<in> guard_columns G t. upper (ge_unicode G) c \<in> denied} = []"
    using assms(2) by (auto simp: exposed_denied_def)
  then show False using assms(3,4) up by simp
qed

lemma check_columns_None:
  assumes "check_columns G ctes aliases policy tree = None"
  shows "\<And>l. l \<in> set (find_all Column tree) \<Longrightarrow> check_column G (cp_denied policy) aliases (fst l) = None"
    "\<And>l. cp_denied policy \<noteq> {} \<Longrightarrow> l \<in> set (find_all Star tree) \<Longrightarrow>
       check_star G ctes aliases (cp_denied policy) l = None"
    "check_join_only G ctes aliases policy tree = None"
  using assms by (auto simp: check_columns_def first_error_None simp del: first_error.simps split: if_splits)

lemma check_column_None:
  "check_column G denied aliases c = None \<Longrightarrow> name_of c \<noteq> [] \<Longrightarrow> name_of c \<noteq> [42] \<Longrightarrow>
   upper (ge_unicode G) (name_of c) \<notin> denied"
  by (auto simp: check_column_def Let_def split: if_splits)

definition bare_star :: "located \<Rightarrow> bool" where
  "bare_star star \<longleftrightarrow> (case parent star of None \<Rightarrow> True | Some p \<Rightarrow> cls p \<noteq> Column \<or> table_of p = [])"

text \<open>The sources of the select around a position are listed tables, none with a column \<open>Q\<close> holds of.\<close>

definition sources_without :: "guard_env \<Rightarrow> ustr set \<Rightarrow> (ustr \<Rightarrow> bool) \<Rightarrow> located \<Rightarrow> bool" where
  "sources_without G ctes Q l \<longleftrightarrow>
     (case enclosing_select l of
        None \<Rightarrow> False
      | Some (s, up) \<Rightarrow> \<forall>src \<in> set (direct_from_sources s). cls src = Table
          \<and> (\<exists>t. resolve_in G ctes src = Some t \<and> (\<forall>c \<in> guard_columns G t. \<not> Q c)))"

lemma check_star_None:
  assumes "check_star G ctes aliases denied star = None" "bare_star star"
    and fin: "\<And>t. finite (guard_columns G t)"
  shows "sources_without G ctes (\<lambda>c. upper (ge_unicode G) c \<in> denied) star"
proof -
  have r: "star_reads G ctes aliases star
      = resolve_star_tables (ge_lookup G) (ge_unicode G) ctes (enclosing_select star)"
    using assms(2) by (auto simp: star_reads_def bare_star_def Let_def split: option.splits)
  obtain ts where ts: "star_reads G ctes aliases star = Some ts" "exposed_denied G denied ts = []"
    using assms(1) by (auto simp: check_star_def Let_def split: option.splits if_splits)
  obtain s up where s: "enclosing_select star = Some (s, up)"
      "star_tables (ge_lookup G) (ge_unicode G) ctes (direct_from_sources s) = Some ts"
    using ts(1) unfolding r by (auto simp: resolve_star_tables_def split: option.splits)
  have "cls src = Table \<and> (\<exists>t. resolve_in G ctes src = Some t \<and> t \<in> set ts)"
    if "src \<in> set (direct_from_sources s)" for src
    using star_tables_Some [OF s(2)] that by (auto simp: list_all2_conv_all_nth in_set_conv_nth)
  then show ?thesis
    using exposed_denied_Nil [OF ts(2) _ fin] by (fastforce simp: sources_without_def s)
qed



section \<open>Join-only columns only join\<close>

text \<open>
  The one allowed place of a join-only column: one side of an equality of two columns that is reached
  from the \<open>ON\<close> of a join through \<open>AND\<close> and parentheses only.
\<close>

definition join_key_position :: "located \<Rightarrow> bool" where
  "join_key_position l \<longleftrightarrow> (\<exists>k eq mid j up. snd l = (k, eq) # mid @ (On, j) # up
     \<and> cls eq = Eq \<and> is_column (arg This eq) \<and> is_column (arg Expression eq)
     \<and> (\<forall>(k', p) \<in> set mid. cls p = And_op \<or> cls p = Paren) \<and> cls j = Join)"

lemma on_clause_path:
  "on_clause up \<Longrightarrow> \<exists>mid j rest. up = mid @ (On, j) # rest
     \<and> (\<forall>(k', p) \<in> set mid. cls p = And_op \<or> cls p = Paren) \<and> cls j = Join"
proof (induction up rule: on_clause.induct)
  case (2 k p up)
  show ?case
  proof (cases "cls p = And_op \<or> cls p = Paren")
    case True
    with 2 obtain mid j rest where "up = mid @ (On, j) # rest"
        "\<forall>(k', p) \<in> set mid. cls p = And_op \<or> cls p = Paren" "cls j = Join" by auto
    with True show ?thesis by (intro exI [of _ "(k, p) # mid"]) auto
  next
    case False
    with 2 show ?thesis by (intro exI [of _ "[]"]) auto
  qed
qed simp

lemma join_key_operand_position: "is_join_key_operand l \<Longrightarrow> join_key_position l"
  using on_clause_path
  by (fastforce simp: is_join_key_operand_def join_key_position_def split: list.splits)

text \<open>A reference reads a table of the nearest select around it: by a name of one of its sources, or by no name.\<close>

definition reads_from :: "guard_env \<Rightarrow> ustr set \<Rightarrow> located \<Rightarrow> ustr \<Rightarrow> bool" where
  "reads_from G ctes l t \<longleftrightarrow>
     (case scopes (snd l) of
        [] \<Rightarrow> False
      | s # ss \<Rightarrow>
          (let q = lower (ge_unicode G) (table_of (fst l)); sc = select_scope G ctes s
           in if q = [] then t \<in> set (sp_tables sc)
              else (case map_of (sp_names sc) q of None \<Rightarrow> False | Some ks \<Rightarrow> Some t \<in> set ks)))"

lemma reads_from_restricted:
  assumes "reads_from G ctes l t" "has_entry G r t (lower (ge_unicode G) (name_of (fst l)))"
  shows "restricted_tables_of G ctes r aliases ts l \<noteq> []"
proof -
  obtain s ss where s: "scopes (snd l) = s # ss"
    using assms(1) by (auto simp: reads_from_def split: list.splits)
  let ?q = "lower (ge_unicode G) (table_of (fst l))"
  show ?thesis
  proof (cases "?q = []")
    case True
    then have "t \<in> set (sp_tables (select_scope G ctes s))"
      using assms(1) by (simp add: reads_from_def s Let_def)
    with True assms(2) show ?thesis
      by (auto simp: restricted_tables_of_def s Let_def filter_empty_conv)
  next
    case False
    then obtain ks where ks: "map_of (sp_names (select_scope G ctes s)) ?q = Some ks" "Some t \<in> set ks"
      using assms(1) by (auto simp: reads_from_def s Let_def split: option.splits)
    then have "names_in G ctes ?q (s # ss) = Some ks" "t \<in> set (List.map_filter id ks)"
      by (simp_all add: names_in_def List.map_filter_def image_iff)
         (metis (mono_tags, lifting) mem_Collect_eq option.distinct(1) option.sel)
    with False assms(2) show ?thesis
      by (auto simp: restricted_tables_of_def s Let_def filter_empty_conv)
  qed
qed


section \<open>Rejections\<close>

definition rejection_ok :: "rejection \<Rightarrow> bool" where
  "rejection_ok r \<longleftrightarrow>
     (rj_policy r \<longrightarrow> rj_refusal r)
     \<and> (rj_reason r \<in> {R_denied_column, R_forbidden_statement, R_system_catalogue} \<longrightarrow> rj_policy r)
     \<and> (rj_reason r \<in> {R_unknown_table, R_ambiguous_table, R_cross_datasource, R_no_table_reference,
          R_join_only_column} \<longrightarrow> \<not> rj_policy r \<and> rj_refusal r)
     \<and> (rj_reason r = R_other \<and> rj_refusal r \<longrightarrow> rj_policy r)
     \<and> (\<forall>t. rj_table r = Some t \<longrightarrow> \<not> rj_policy r \<and> \<not> rj_refusal r \<and> rj_subject r \<noteq> None)"

definition error_ok :: "guard_error \<Rightarrow> bool" where
  "error_ok e \<longleftrightarrow> (case e of Rejected r \<Rightarrow> rejection_ok r | _ \<Rightarrow> True)"

lemma rejection_classes:
  "R \<in> {R_denied_column, R_forbidden_statement, R_system_catalogue, R_other} \<Longrightarrow>
     error_ok (Rejected (policy_rejection R s c))"
  "R \<in> {R_unknown_table, R_ambiguous_table, R_cross_datasource, R_no_table_reference, R_join_only_column} \<Longrightarrow>
     error_ok (Rejected (refused R s c))"
  "error_ok (Rejected (correctable R_other s c))"
  "error_ok (Bad_dialect x)" "error_ok (Bad_policy y)" "error_ok (Bad_routing z)"
  "error_ok (forbidden l)" "error_ok (system_catalogue l)" "error_ok (unknown_column n t)"
  "error_ok (policy_failure y)"
  by (auto simp: error_ok_def rejection_ok_def policy_rejection_def refused_def correctable_def
      forbidden_def system_catalogue_def unknown_column_def policy_failure_def split: policy_error.splits)

definition all_ok :: "guard_error option \<Rightarrow> bool" where
  "all_ok r \<longleftrightarrow> (\<forall>e. r = Some e \<longrightarrow> error_ok e)"

lemma first_error_ok:
  "(\<And>x. x \<in> set xs \<Longrightarrow> all_ok (f x)) \<Longrightarrow> all_ok (first_error f xs)"
  by (induction xs) (auto simp: all_ok_def split: option.splits)

lemma all_ok_simps [simp]: "all_ok None" "all_ok (Some e) \<longleftrightarrow> error_ok e"
  by (simp_all add: all_ok_def)

lemma columns_errors_ok:
  "all_ok (check_column G den al c)"
  "all_ok (check_star G ctes al den l)"
  "all_ok (check_join_only_column G ctes r al ts l)"
  "all_ok (check_using G r tables i)"
  "all_ok (check_natural r t)"
  "all_ok (check_join_only_star G ctes r al l)"
  by (auto simp: check_column_def check_star_def check_join_only_column_def check_using_def check_natural_def
      check_join_only_star_def Let_def rejection_classes
      split: option.split list.split prod.split intro!: first_error_ok)

lemma nodes_errors_ok:
  "all_ok (check_root G tree)"
  "all_ok (check_allowlist G ctes n)"
  "all_ok (check_catalogue p db nm)"
  "all_ok (check_projection G d n)"
  "all_ok (require_table G ctes tree)"
  "all_ok (require_single_datasource G ctes tree)"
  "all_ok (validate_text G d sql)"
  by (auto simp: check_root_def check_allowlist_def check_catalogue_def check_projection_def
      require_table_def require_single_datasource_def validate_text_def Let_def rejection_classes
      split: option.split list.split sum.split routing_error.split match_status.split)

lemma single_statement_error_ok: "single_statement G d sql = Inl e \<Longrightarrow> error_ok e"
  by (auto simp: single_statement_def rejection_classes split: option.splits list.splits)

lemma check_table_error_ok: "all_ok (check_table G p ctes n)"
  using nodes_errors_ok(2) [of G ctes n] nodes_errors_ok(3) [of p]
  by (auto simp: check_table_def Let_def rejection_classes all_ok_def split: option.split)

lemma check_node_error_ok: "all_ok (check_node G d p ctes n)"
  using check_table_error_ok [of G p ctes n]
  by (auto simp: check_node_def Let_def rejection_classes split: option.split)

lemma check_join_error_ok: "all_ok (check_join G ctes r j)"
proof -
  have "all_ok (first_error (check_using G r ts) is)" "all_ok (first_error (check_natural r) ts)" for ts "is"
    by (intro first_error_ok columns_errors_ok)+
  then show ?thesis
    by (auto simp: check_join_def Let_def all_ok_def split: option.split)
qed

lemma enforce_error_ok: "all_ok (enforce_join_only G ctes r al tree)"
  unfolding enforce_join_only_def Let_def
  by (rule first_error_ok)
     (auto simp del: first_error.simps intro!: first_error_ok columns_errors_ok check_join_error_ok)

lemma check_join_only_error_ok: "all_ok (check_join_only G ctes al pol tree)"
  using enforce_error_ok
  by (auto simp: check_join_only_def rejection_classes split: sum.split)

lemma check_columns_error_ok: "all_ok (check_columns G ctes al pol tree)"
  unfolding check_columns_def
  by (rule first_error_ok)
     (auto simp del: first_error.simps intro!: first_error_ok columns_errors_ok check_join_only_error_ok)

lemma validate_tree_error_ok: "all_ok (validate_tree G d p da tree)"
  unfolding validate_tree_def Let_def
  by (rule first_error_ok)
     (auto simp: rejection_classes simp del: first_error.simps split: sum.split
       intro!: first_error_ok nodes_errors_ok check_node_error_ok check_columns_error_ok)

text \<open>
  Every rejection is classified consistently: a policy rejection is a refusal; denied columns,
  forbidden statements and system catalogues are never correctable; unknown or ambiguous tables, several
  sources, no table and join-only columns are correctable refusals; and only an unknown column, which is
  no refusal, carries a table.
\<close>

theorem rejections_are_classified:
  assumes "validate_sql G d da sql = Some (Rejected r)"
  shows "rejection_ok r"
proof -
  have "error_ok (Rejected r)"
    using assms nodes_errors_ok(7) [of G d sql] single_statement_error_ok [of G d sql] validate_tree_error_ok
    by (auto simp: validate_sql_def all_ok_def split: option.splits sum.splits)
  then show ?thesis by (simp add: error_ok_def)
qed


section \<open>Three statements\<close>

definition plain_text :: node_text where
  "plain_text = \<lparr>nt_type = [], nt_name = [], nt_alias = [], nt_table = [], nt_db = [], nt_catalog = [],
     nt_method = [], nt_value = [], nt_string = False, nt_comments = False\<rparr>"

definition named :: "ustr \<Rightarrow> node_text" where
  "named s = plain_text\<lparr>nt_name := s\<rparr>"

definition table_node :: "ustr \<Rightarrow> ustr \<Rightarrow> ustr \<Rightarrow> ast" where
  "table_node db name al = Node Table (plain_text\<lparr>nt_name := name, nt_db := db, nt_alias := al\<rparr>) []"

definition column_node :: "ustr \<Rightarrow> ustr \<Rightarrow> ast" where
  "column_node q name = Node Column (plain_text\<lparr>nt_name := name, nt_table := q\<rparr>) []"

definition from_node :: "ast \<Rightarrow> ast" where
  "from_node t = Node Other_node plain_text [(This, t)]"

definition example_cache :: schema_cache where
  "example_cache =
     \<lparr>sc_descriptions = [],
      sc_columns = [(u ''Customer'', [(u ''ID'', []), (u ''Name'', []), (u ''NationalID'', [])]),
                    (u ''Order'', [(u ''ID'', []), (u ''CustomerID'', [])])],
      sc_units = [], sc_relationships = [], sc_qualifiers = [], sc_datasources = [],
      sc_resolvable = [], sc_prefetchable = []\<rparr>"

definition example_lookup :: schema_lookup where
  "example_lookup =
     \<lparr>lk_tables = [(u ''customer'', u ''Customer''), (u ''order'', u ''Order'')],
      lk_columns = [(u ''Customer'', {u ''id'', u ''name'', u ''nationalid''}),
                    (u ''Order'', {u ''id'', u ''customerid''})],
      lk_qualifier_parts = [(u ''Customer'', []), (u ''Order'', [])],
      lk_qualifier = [(u ''Customer'', []), (u ''Order'', [])],
      lk_bare = [(u ''customer'', [u ''Customer'']), (u ''order'', [u ''Order''])]\<rparr>"

text \<open>An environment whose parser knows one statement.\<close>

definition item_order :: "py_item set \<Rightarrow> py_item list" where
  "item_order S = map Item_str (sorted_list_of_set {s. Item_str s \<in> S})
     @ (if Item_other \<in> S then [Item_other] else [])"

definition tsql_dialect :: dialect_profile where
  "tsql_dialect =
     \<lparr>dl_name = tsql, dl_system_schemas = [u ''INFORMATION_SCHEMA'', u ''SYS''],
      dl_system_prefixes = [], dl_dangerous = [],
      dl_session_timeout = Some (u ''SET LOCK_TIMEOUT {timeout_ms}''),
      dl_driver_timeout = Some (u ''timeout''), dl_qualification = By_schema,
      dl_national_literal = True, dl_table_hints = True\<rparr>"

definition example_guard :: "ast \<Rightarrow> guard_env" where
  "example_guard tree =
     \<lparr>ge_unicode = ascii_db, ge_digits = ascii_digits, ge_ident = dotted,
      ge_deployment = example_deployment, ge_lookup = example_lookup,
      ge_item_order = item_order, ge_table_order = sorted_list_of_set,
      ge_parse = (\<lambda>sql d. Some [Some tree]), ge_render = (\<lambda>d n. [])\<rparr>"

lemma node_simps [simp]:
  "cls (table_node db n al) = Table" "args (table_node db n al) = []"
  "name_of (table_node db n al) = n" "alias_of (table_node db n al) = al" "nt_db (text_of (table_node db n al)) = db"
  "nt_catalog (text_of (table_node db n al)) = []" "\<not> nt_comments (text_of (table_node db n al))"
  "cls (column_node q n) = Column" "args (column_node q n) = []"
  "name_of (column_node q n) = n" "table_of (column_node q n) = q" "\<not> nt_comments (text_of (column_node q n))"
  "cls (from_node t) = Other_node" "args (from_node t) = [(This, t)]" "\<not> nt_comments (text_of (from_node t))"
  "\<not> nt_comments plain_text" "\<not> nt_comments (named s)" "nt_name (named s) = s"
  by (simp_all add: table_node_def column_node_def from_node_def plain_text_def named_def)

lemma example_guard_simps [simp]:
  "ge_unicode (example_guard t) = ascii_db" "ge_lookup (example_guard t) = example_lookup"
  "ge_deployment (example_guard t) = example_deployment" "ge_item_order (example_guard t) = item_order"
  "ge_table_order (example_guard t) = sorted_list_of_set" "ge_ident (example_guard t) = dotted"
  by (simp_all add: example_guard_def)

lemma example_lookup_built: "build_schema_lookup dotted ascii_db example_cache = Inr example_lookup"
  by (simp add: build_schema_lookup_def example_cache_def example_lookup_def bare_of_def dotted_def ev Let_def)

lemma no_limit: "regex_search (limit_re ascii_db ascii_digits) (u ''q'') = None"
  by (simp add: regex_search_def limit_re_def limit_prefix_def then_match_def at_boundary_def keyword_def u_def
      spaces_def run1_def run_def boundary_def upt_rec)

lemma example_text: "validate_text (example_guard t) tsql (u ''q'') = None"
  by (simp add: validate_text_def example_guard_def no_limit) (simp add: ev)

lemma example_validate:
  "validate_sql (example_guard t) tsql da (u ''q'') = validate_tree (example_guard t) tsql tsql_dialect da t"
proof -
  have "single_statement (example_guard t) tsql (u ''q'') = Inr t"
    by (simp add: single_statement_def example_guard_def List.map_filter_def)
  moreover have "get_dialect_profile tsql = Inr tsql_dialect"
    by (simp add: get_dialect_profile_def dialect_profiles_def tsql_dialect_def)
  ultimately show ?thesis by (simp add: validate_sql_def example_text)
qed

text \<open>The keys and the columns of the example.\<close>

lemma example_matches [simp]:
  "match_table_ref example_lookup ascii_db (u ''Customer'') [] = match_result (Some (u ''Customer'')) [u ''Customer''] Resolved"
  "match_table_ref example_lookup ascii_db (u ''Order'') [] = match_result (Some (u ''Order'')) [u ''Order''] Resolved"
  by (simp_all add: match_table_ref_def candidates_of_def parts_of_def example_lookup_def ev Let_def)

lemma example_words [simp]:
  "lower ascii_db (u ''Customer'') = u ''customer''" "lower ascii_db (u ''Order'') = u ''order''"
  "lower ascii_db (u ''payroll'') = u ''payroll''" "lower ascii_db (u ''c'') = u ''c''"
  "lower ascii_db (u ''a'') = u ''a''" "lower ascii_db (u ''b'') = u ''b''" "lower ascii_db [] = []"
  "lower ascii_db (u ''ID'') = u ''id''" "casefold ascii_db (u ''id'') = u ''id''"
  "upper ascii_db (u ''Name'') = u ''NAME''" "upper ascii_db (u ''ID'') = u ''ID''"
  "lower ascii_db (u ''Name'') = u ''name''" "upper ascii_db (u ''id'') = u ''ID''"
  "upper ascii_db (u ''name'') = u ''NAME''" "upper ascii_db (u ''nationalid'') = u ''NATIONALID''"
  "upper ascii_db (u ''customerid'') = u ''CUSTOMERID''" "upper ascii_db (u ''STRING_SPLIT'') = u ''STRING_SPLIT''"
  "upper ascii_db (u ''Customer'') = u ''CUSTOMER''" "upper ascii_db (u ''Order'') = u ''ORDER''"
  "upper ascii_db (u ''payroll'') = u ''PAYROLL''" "upper ascii_db (u ''hr'') = u ''HR''" "upper ascii_db [] = []"
  by (simp_all add: ev)

lemma ref_table_node [simp]:
  "ref_name_and_qualifier U (table_node db n al) = (if n = [] then (if db = [] then [] else db, []) else (n, if db = [] then [] else [lower U db]))"
  by (simp add: ref_name_and_qualifier_def table_ref_parts_def arg_def)

lemma example_resolves_table [simp]:
  "u ''customer'' \<notin> ctes \<Longrightarrow>
     resolve_table_name example_lookup ascii_db ctes (table_node [] (u ''Customer'') al) = Some (u ''Customer'')"
  "u ''order'' \<notin> ctes \<Longrightarrow>
     resolve_table_name example_lookup ascii_db ctes (table_node [] (u ''Order'') al) = Some (u ''Order'')"
  "n \<noteq> [] \<Longrightarrow> lower U n \<in> ctes \<Longrightarrow> resolve_table_name L U ctes (table_node db n al) = None"
  by (simp_all add: resolve_table_name_def match_result_def)

lemma example_table_ok:
  "check_table (example_guard t) tsql_dialect ctes (table_node [] (u ''Customer'') al) = None"
  "check_table (example_guard t) tsql_dialect ctes (table_node [] (u ''Order'') al) = None"
  by (simp_all add: check_table_def check_allowlist_def match_result_def Let_def is_dangerous_identifier_def
      dangerous_function_names_def check_catalogue_def tsql_dialect_def startswith_def)
     (simp_all add: u_def)

lemma validate_tree_NoneI:
  assumes "cte_names (ge_unicode G) tree = ctes"
    and "collect_table_alias_map (ge_lookup G) (ge_unicode G) ctes tree = aliases"
    and "cls tree \<in> allowed_root_types"
    and "\<And>n. n \<in> fst ` set (walk tree) \<Longrightarrow> check_node G d p ctes n = None \<and> check_projection G d n = None"
    and "require_single_datasource G ctes tree = None"
    and "cached_column_policy (ge_item_order G) (ge_unicode G) da = Inr policy"
    and "check_columns G ctes aliases policy tree = None" "has_table G ctes tree"
  shows "validate_tree G d p da tree = None"
proof -
  have "check_root G tree = None"
    using assms(3) forbidden_label_None [of "ge_unicode G" tree]
    by (auto simp: check_root_def allowed_root_types_def write_types_def)
  then show ?thesis
    using assms(4-8) unfolding validate_tree_def Let_def assms(1,2)
    by (auto simp: first_error_None require_table_def simp del: first_error.simps)
qed

lemmas node_ev = check_node_def check_projection_def forbidden_label_None forbidden_label_def named_forbidden_types_def
  forbidden_state_types_def is_string_literal_operand_def

lemma quiet_node:
  assumes "cls n \<notin> write_types" "cls n \<notin> forbidden_state_types" "\<not> nt_comments (text_of n)"
    and "cls n \<notin> {National, Add, Anonymous, Table}"
  shows "check_node G d p ctes n = None \<and> check_projection G d n = None"
proof -
  have "forbidden_label (ge_unicode G) n = None" using assms(1) by (simp add: forbidden_label_None)
  then show ?thesis using assms by (auto simp: check_node_def check_projection_def Let_def)
qed

lemma table_node_ok:
  "check_node G d p ctes (table_node db n al) = check_table G p ctes (table_node db n al)"
  "check_projection G d (table_node db n al) = None"
  by (simp_all add: check_node_def check_projection_def forbidden_state_types_def forbidden_label_def
      named_forbidden_types_def Let_def)

lemma one_table_one_source: "resolved_tables (ge_lookup G) (ge_unicode G) ctes tree = [t] \<Longrightarrow> require_single_datasource G ctes tree = None"
  by (simp add: require_single_datasource_def)

text \<open>\<open>WITH payroll AS (SELECT Name FROM Customer) SELECT Name FROM hr.payroll\<close>\<close>

definition cte_body :: ast where
  "cte_body = Node Select plain_text
     [(Expressions, column_node [] (u ''Name'')), (From, from_node (table_node [] (u ''Customer'') []))]"

definition cte_clause :: ast where
  "cte_clause = Node Other_node plain_text
     [(Expressions, Node Cte (plain_text\<lparr>nt_alias := u ''payroll''\<rparr>) [(This, cte_body)])]"

definition cte_statement :: ast where
  "cte_statement = Node Select plain_text
     [(With, cte_clause), (Expressions, column_node [] (u ''Name'')),
      (From, from_node (table_node (u ''hr'') (u ''payroll'') []))]"

lemma walk_cte_statement:
  "map (\<lambda>l. (fst l, [])) (walk cte_statement) = map (\<lambda>n. (n, []))
     [cte_statement, cte_clause, column_node [] (u ''Name''), from_node (table_node (u ''hr'') (u ''payroll'') []),
      Node Cte (plain_text\<lparr>nt_alias := u ''payroll''\<rparr>) [(This, cte_body)],
      table_node (u ''hr'') (u ''payroll'') [], cte_body, column_node [] (u ''Name''),
      from_node (table_node [] (u ''Customer'') []), table_node [] (u ''Customer'') []]"
  by (simp add: walk_def children_def cte_statement_def cte_clause_def cte_body_def)

lemma nodes_by_class: "map (f \<circ> fst) (find_all c t) = map f (filter (\<lambda>n. cls n = c) (map fst (walk t)))"
  by (simp add: find_all_def filter_map comp_def case_prod_unfold)

lemma cte_statement_facts:
  "cte_names ascii_db cte_statement = {u ''payroll''}"
  "table_entries example_lookup ascii_db {u ''payroll''} cte_statement
     = [(table_node [] (u ''Customer'') [], u ''Customer'')]"
  "resolved_tables example_lookup ascii_db {u ''payroll''} cte_statement = [u ''Customer'']"
  by (simp_all add: cte_names_def table_entries_def resolved_tables_def find_all_def walk_def children_def cte_statement_def
      cte_clause_def cte_body_def)

lemma names_u [simp]: "lower ascii_db (u s) \<noteq> [] \<longleftrightarrow> s \<noteq> []"
  by (simp add: ascii_db_def u_def)

lemma quiet_nodes [simp]:
  "check_node G d p ctes (column_node q n) = None" "check_projection G d (column_node q n) = None"
  "check_node G d p ctes (from_node t) = None" "check_projection G d (from_node t) = None"
  "check_node G d p ctes (Node Select plain_text as) = None" "check_projection G d (Node Select plain_text as) = None"
  "check_node G d p ctes (Node Other_node plain_text as) = None" "check_projection G d (Node Other_node plain_text as) = None"
  "check_node G d p ctes (Node Cte (plain_text\<lparr>nt_alias := a\<rparr>) as) = None"
  "check_projection G d (Node Cte (plain_text\<lparr>nt_alias := a\<rparr>) as) = None"
  "check_node G d p ctes (Node Literal plain_text as) = None" "check_projection G d (Node Literal plain_text as) = None"
  "check_node G d p ctes (Node Star (named s) as) = None" "check_projection G d (Node Star (named s) as) = None"
  "check_node G d p ctes (Node Column (plain_text\<lparr>nt_name := n, nt_table := q\<rparr>) as) = None"
  "check_projection G d (Node Column (plain_text\<lparr>nt_name := n, nt_table := q\<rparr>) as) = None"
  using quiet_node [of _ G d p ctes]
  by (simp_all add: write_types_def forbidden_state_types_def plain_text_def named_def)

lemma startswith_u [simp]: "startswith (u s) (u p) \<longleftrightarrow> take (length p) s = p"
proof -
  have "take (length (u p)) (u s) = u (take (length p) s)" by (simp add: u_def take_map)
  then show ?thesis by (simp add: startswith_def)
qed

lemma hr_payroll_ok:
  "u ''payroll'' \<in> ctes \<Longrightarrow> check_table (example_guard t) tsql_dialect ctes (table_node (u ''hr'') (u ''payroll'') []) = None"
  by (simp add: check_table_def check_allowlist_def is_dangerous_identifier_def
      dangerous_function_names_def check_catalogue_def tsql_dialect_def Let_def)

lemma cte_statement_checked:
  assumes "cached_column_policy item_order ascii_db da = Inr pol" "u ''NAME'' \<notin> cp_denied pol" "cp_join_only pol = []"
  shows "validate_sql (example_guard cte_statement) tsql da (u ''q'') = None"
proof -
  let ?G = "example_guard cte_statement"
  have nodes: "check_node ?G tsql tsql_dialect {u ''payroll''} n = None \<and> check_projection ?G tsql n = None"
    if "n \<in> fst ` set (walk cte_statement)" for n
    using that
    by (auto simp: walk_def children_def cte_statement_def cte_clause_def cte_body_def table_node_ok
        hr_payroll_ok example_table_ok)
  have cols: "check_columns ?G {u ''payroll''} al pol cte_statement = None" for al
    using assms(2,3)
    by (simp add: check_columns_def check_join_only_def find_all_def walk_def children_def
        cte_statement_def cte_clause_def cte_body_def check_column_def Let_def)
  have tab: "has_table ?G {u ''payroll''} cte_statement"
    by (simp add: has_table_def walk_def children_def cte_statement_def cte_clause_def cte_body_def)
  show ?thesis
    unfolding example_validate
    by (rule validate_tree_NoneI [OF _ refl _ nodes _ _ cols tab])
       (simp_all add: cte_statement_facts allowed_root_types_def one_table_one_source assms(1),
        simp add: cte_statement_def)
qed

lemma cte_statement_accepted: "validate_sql (example_guard cte_statement) tsql No_entries (u ''q'') = None"
  by (rule cte_statement_checked [of _ empty_policy]) (simp_all add: cached_column_policy_def empty_policy_def)

text \<open>
  The allowlist has a hole. A reference spelled like a CTE is never looked up, not even a qualified one,
  which in SQL never denotes a CTE: a statement that defines a CTE \<open>payroll\<close> may read \<open>hr.payroll\<close>,
  a table that is not in the schema.
\<close>

theorem cte_name_escapes_allowlist:
  "validate_sql (example_guard cte_statement) tsql No_entries (u ''q'') = None
   \<and> subtree cte_statement (table_node (u ''hr'') (u ''payroll'') [])
   \<and> \<not> list_ex (bare_is dotted ascii_db (u ''payroll'')) (od_keys (sc_columns example_cache))"
proof (intro conjI cte_statement_accepted)
  have "table_node (u ''hr'') (u ''payroll'') [] \<in> fst ` set (walk cte_statement)"
    by (simp add: walk_def children_def cte_statement_def cte_clause_def cte_body_def)
  then show "subtree cte_statement (table_node (u ''hr'') (u ''payroll'') [])"
    by (simp add: walk_subtrees)
qed (simp add: example_cache_def bare_is_def bare_of_def dotted_def ev)

text \<open>\<open>SELECT c.* FROM Customer c WHERE EXISTS (SELECT 1 FROM Order c)\<close>\<close>

definition alias_star :: ast where
  "alias_star = Node Column (plain_text\<lparr>nt_name := [42], nt_table := u ''c''\<rparr>)
     [(This, Node Star (named [42]) [])]"

definition alias_inner :: ast where
  "alias_inner = Node Select plain_text
     [(Expressions, Node Literal plain_text []), (From, from_node (table_node [] (u ''Order'') (u ''c'')))]"

definition alias_statement :: ast where
  "alias_statement = Node Select plain_text
     [(Expressions, alias_star), (From, from_node (table_node [] (u ''Customer'') (u ''c''))),
      (Other_arg, Node Other_node plain_text [(This, alias_inner)])]"

definition deny_national_id :: denied_arg where
  "deny_national_id = Entries [Item_str (u ''NationalID'')]"

lemma national_id_policy:
  "cached_column_policy item_order ascii_db deny_national_id = Inr \<lparr>cp_denied = {u ''NATIONALID''}, cp_join_only = []\<rparr>"
  by (simp add: cached_column_policy_def deny_national_id_def item_order_def parse_syntax_def read_entry_def
      normalize_denied_entry_def strip_by_def is_edge_noise_def is_plain_def denied_names_def
      without_format_characters_def ev)

lemma alias_statement_facts:
  "cte_names ascii_db alias_statement = {}"
  "table_entries example_lookup ascii_db {} alias_statement
     = [(table_node [] (u ''Customer'') (u ''c''), u ''Customer''), (table_node [] (u ''Order'') (u ''c''), u ''Order'')]"
  "set (resolved_tables example_lookup ascii_db {} alias_statement) = {u ''Customer'', u ''Order''}"
  by (auto simp: cte_names_def table_entries_def resolved_tables_def find_all_def walk_def children_def
      alias_statement_def alias_inner_def alias_star_def)

lemma alias_map: "map_of (collect_table_alias_map example_lookup ascii_db {} alias_statement) (u ''c'') = Some (u ''Order'')"
  by (simp add: collect_table_alias_map_def alias_statement_facts Let_def)

lemma two_tables_one_source:
  "set (resolved_tables example_lookup ascii_db ctes tree) = {u ''Customer'', u ''Order''} \<Longrightarrow>
   require_single_datasource (example_guard t) ctes tree = None"
proof -
  assume r: "set (resolved_tables example_lookup ascii_db ctes tree) = {u ''Customer'', u ''Order''}"
  have "choose_datasource example_deployment [u ''Customer'', u ''Order''] = Inr (Some (u ''B''))"
    by (simp add: ev example_deployment_def Let_def)
  moreover have "sorted_list_of_set {u ''Customer'', u ''Order''} = [u ''Customer'', u ''Order'']"
    by (simp add: u_def)
  ultimately show ?thesis
    unfolding require_single_datasource_def example_guard_simps r Let_def by simp
qed

lemma alias_statement_accepted:
  "validate_sql (example_guard alias_statement) tsql deny_national_id (u ''q'') = None"
proof -
  let ?G = "example_guard alias_statement"
  let ?p = "\<lparr>cp_denied = {u ''NATIONALID''}, cp_join_only = []\<rparr>"
  have nodes: "check_node ?G tsql tsql_dialect {} n = None \<and> check_projection ?G tsql n = None"
    if "n \<in> fst ` set (walk alias_statement)" for n
    using that
    by (auto simp: walk_def children_def alias_statement_def alias_inner_def alias_star_def table_node_ok example_table_ok)
  have exposed: "exposed_denied ?G {u ''NATIONALID''} [u ''Order''] = []"
  proof -
    have "{c \<in> guard_columns ?G (u ''Order''). upper ascii_db c \<in> {u ''NATIONALID''}} = {}"
      by (auto simp: guard_columns_def example_lookup_def)
    then show ?thesis
      unfolding exposed_denied_def list.map concat.simps example_guard_simps by (simp only:) simp
  qed
  have cols: "check_columns ?G {} (collect_table_alias_map example_lookup ascii_db {} alias_statement) ?p alias_statement = None"
    using alias_map exposed
    by (simp add: check_columns_def check_join_only_def find_all_def walk_def children_def alias_statement_def
        alias_inner_def alias_star_def check_column_def check_star_def star_reads_def parent_def Let_def
        plain_text_def named_def)
  have tab: "has_table ?G {} alias_statement"
    by (simp add: has_table_def walk_def children_def alias_statement_def alias_inner_def alias_star_def)
  show ?thesis
    unfolding example_validate
    by (rule validate_tree_NoneI [where policy = ?p, OF _ refl _ nodes _ _ _ tab])
       (simp_all add: alias_statement_facts allowed_root_types_def two_tables_one_source national_id_policy cols,
        simp add: alias_statement_def)
qed

text \<open>
  \<open>alias.*\<close> is expanded through a map of aliases over the whole statement, in which the last table written
  with an alias wins. Here \<open>c.*\<close> reads \<open>Customer\<close>, which has a denied column, but the subquery's \<open>c\<close> is
  \<open>Order\<close>, so the statement is accepted and shows the denied column.
\<close>

theorem shadowed_alias_shows_denied_column:
  "validate_sql (example_guard alias_statement) tsql deny_national_id (u ''q'') = None
   \<and> (Node Star (named [42]) [], [(This, alias_star), (Expressions, alias_statement)]) \<in> set (walk alias_statement)
   \<and> table_of alias_star = u ''c''
   \<and> direct_from_sources alias_statement = [table_node [] (u ''Customer'') (u ''c'')]
   \<and> u ''nationalid'' \<in> guard_columns (example_guard alias_statement) (u ''Customer'')"
proof (intro conjI alias_statement_accepted)
  show "(Node Star (named [42]) [], [(This, alias_star), (Expressions, alias_statement)]) \<in> set (walk alias_statement)"
    by (simp add: walk_path_ok alias_statement_def alias_star_def)
  show "direct_from_sources alias_statement = [table_node [] (u ''Customer'') (u ''c'')]"
    by (simp add: direct_from_sources_def arg_def arg_list_def alias_statement_def)
qed (simp_all add: alias_star_def guard_columns_def example_lookup_def)

text \<open>\<open>SELECT Name FROM STRING_SPLIT(...)\<close>\<close>

definition function_statement :: ast where
  "function_statement = Node Select plain_text
     [(Expressions, column_node [] (u ''Name'')),
      (From, from_node (Node Table plain_text [(This, Node Anonymous (named (u ''STRING_SPLIT'')) [])]))]"

lemma string_split_ok:
  "check_node (example_guard t) tsql tsql_dialect ctes (Node Anonymous (named (u ''STRING_SPLIT'')) []) = None"
  "check_projection (example_guard t) tsql (Node Anonymous (named (u ''STRING_SPLIT'')) []) = None"
  by (simp_all add: check_node_def check_projection_def forbidden_label_def named_forbidden_types_def
      is_dangerous_identifier_def dangerous_function_names_def tsql_dialect_def forbidden_state_types_def
      safe_anonymous_functions_def Let_def)

lemma nameless_table_ok:
  "check_node (example_guard t) tsql tsql_dialect ctes (Node Table plain_text as) = None"
  "check_projection (example_guard t) tsql (Node Table plain_text as) = None"
proof -
  have "upper ascii_db [] = []" "name_of (Node Table plain_text as) = []" "nt_db plain_text = []"
    "nt_name plain_text = []" by (simp_all add: plain_text_def)
  then show "check_node (example_guard t) tsql tsql_dialect ctes (Node Table plain_text as) = None"
    "check_projection (example_guard t) tsql (Node Table plain_text as) = None"
    by (simp_all add: check_node_def check_projection_def check_table_def check_allowlist_def check_catalogue_def
        forbidden_label_def named_forbidden_types_def is_dangerous_identifier_def dangerous_function_names_def
        tsql_dialect_def forbidden_state_types_def Let_def startswith_def)
qed

text \<open>
  The last rule asks for a table reference and says that finding one proves that a real table is read. A
  table-valued function is a table reference without a name, so a statement that reads no table of the
  schema at all is accepted.
\<close>

theorem table_function_counts_as_table:
  "validate_sql (example_guard function_statement) tsql No_entries (u ''q'') = None
   \<and> resolved_tables example_lookup ascii_db {} function_statement = []"
proof -
  let ?G = "example_guard function_statement"
  have r: "resolve_table_name L U ctes (Node Table plain_text [(This, Node Anonymous t [])]) = None" for L U ctes t
    by (simp add: resolve_table_name_def ref_name_and_qualifier_def table_ref_parts_def arg_def plain_text_def)
  have facts: "cte_names ascii_db function_statement = {}"
    "resolved_tables example_lookup ascii_db {} function_statement = []"
    by (simp_all add: cte_names_def resolved_tables_def find_all_def walk_def children_def function_statement_def r)
  have nodes: "check_node ?G tsql tsql_dialect {} n = None \<and> check_projection ?G tsql n = None"
    if "n \<in> fst ` set (walk function_statement)" for n
    using that by (auto simp: walk_def children_def function_statement_def string_split_ok nameless_table_ok)
  have cols: "check_columns ?G {} al empty_policy function_statement = None" for al
    by (simp add: check_columns_def check_join_only_def empty_policy_def find_all_def walk_def children_def
        function_statement_def check_column_def Let_def)
  have tab: "has_table ?G {} function_statement"
    by (simp add: has_table_def walk_def children_def function_statement_def)
  have "validate_sql ?G tsql No_entries (u ''q'') = None"
    unfolding example_validate
    by (rule validate_tree_NoneI [OF _ refl _ nodes _ _ cols tab])
       (simp_all add: facts allowed_root_types_def require_single_datasource_def cached_column_policy_def,
        simp add: function_statement_def)
  then show ?thesis using facts by simp
qed

section \<open>The properties at work\<close>

lemma cte_parsed: "ge_parse (example_guard t) s d = Some [Some t]"
  by (simp add: example_guard_def)

lemma single_parsed: "single_statement (example_guard t) d s = Inr t"
  by (simp add: single_statement_def cte_parsed List.map_filter_def)

lemma cte_subtrees: "subtree cte_statement cte_body" "subtree cte_statement (table_node [] (u ''Customer'') [])"
  "subtree cte_statement (column_node [] (u ''Name''))"
proof -
  have "{cte_body, table_node [] (u ''Customer'') [], column_node [] (u ''Name'')} \<subseteq> fst ` set (walk cte_statement)"
    by (simp add: walk_def children_def cte_statement_def cte_clause_def cte_body_def)
  then show "subtree cte_statement cte_body" "subtree cte_statement (table_node [] (u ''Customer'') [])"
    "subtree cte_statement (column_node [] (u ''Name''))"
    by (simp_all add: walk_subtrees)
qed

theorem accepted_statement_only_reads_witness:
  "cls cte_statement \<in> {Select, Union_op, Intersect_op, Except_op} \<and> cls cte_body \<notin> write_types"
  using accepted_statement_only_reads [OF cte_statement_accepted] cte_subtrees(1)
  by (auto simp: cte_parsed List.map_filter_def)

theorem reference_resolves_uniquely_witness:
  "tm_canonical (match_table_ref example_lookup ascii_db (u ''CUSTOMER'') []) = Some (u ''Customer'')"
proof -
  have "{k \<in> set (od_keys (sc_columns example_cache)). bare_is dotted ascii_db (u ''CUSTOMER'') k} = {u ''Customer''}"
    by (auto simp: example_cache_def bare_is_def bare_of_def dotted_def ev)
  then show ?thesis
    using reference_resolves_uniquely [OF example_lookup_built, of "u ''CUSTOMER''" "[]" "u ''Customer''"]
    by (simp add: example_cache_def ev example_lookup_def parts_of_def)
qed


lemma deny_accepts_cte: "validate_sql (example_guard cte_statement) tsql (Entries [Item_str (u ''NationalID'')]) (u ''q'') = None"
  by (rule cte_statement_checked [OF national_id_policy [unfolded deny_national_id_def]]) simp_all


definition drop_statement :: ast where
  "drop_statement = Node Drop_stmt (plain_text\<lparr>nt_type := u ''Drop''\<rparr>) []"

theorem rejections_are_classified_witness:
  "rejection_ok (policy_rejection R_forbidden_statement (Some (u ''DROP'')) (Forbidden (u ''DROP'')))"
proof (rule rejections_are_classified)
  show "validate_sql (example_guard drop_statement) tsql No_entries (u ''q'')
      = Some (Rejected (policy_rejection R_forbidden_statement (Some (u ''DROP'')) (Forbidden (u ''DROP''))))"
    unfolding example_validate validate_tree_def Let_def
    by (simp add: check_root_def forbidden_label_def named_forbidden_types_def drop_statement_def forbidden_def)
qed

text \<open>\<open>SELECT a.Name FROM Customer a JOIN Customer b ON a.ID = b.ID\<close> under the entry \<open>Customer.ID\<close>.\<close>

definition join_equality :: ast where
  "join_equality = Node Eq plain_text
     [(This, column_node (u ''a'') (u ''ID'')), (Expression, column_node (u ''b'') (u ''ID''))]"

definition join_clause :: ast where
  "join_clause = Node Join plain_text [(This, table_node [] (u ''Customer'') (u ''b'')), (On, join_equality)]"

definition join_statement :: ast where
  "join_statement = Node Select plain_text
     [(Expressions, column_node (u ''a'') (u ''Name'')), (From, from_node (table_node [] (u ''Customer'') (u ''a''))),
      (Joins, join_clause)]"

definition restrict_id :: denied_arg where
  "restrict_id = Entries [Item_str (u ''Customer.ID'')]"

definition id_policy :: column_policy where
  "id_policy = \<lparr>cp_denied = {}, cp_join_only = [scoped None (Some (u ''Customer'')) (u ''ID'') (u ''Customer.ID'')]\<rparr>"

definition id_restrictions :: join_only_restrictions where
  "id_restrictions = \<lparr>jo_by_table = [(u ''Customer'', [(u ''id'', u ''Customer.ID'')])], jo_names = {u ''id''}\<rparr>"

lemma id_policy_parsed: "cached_column_policy item_order ascii_db restrict_id = Inr id_policy"
  by (simp add: cached_column_policy_def restrict_id_def id_policy_def item_order_def parse_syntax_def read_entry_def
      normalize_denied_entry_def strip_by_def is_edge_noise_def is_plain_def parse_scoped_def Let_def ev)

lemma id_resolved:
  "resolve_join_only dotted example_deployment ascii_db id_policy (guard_view (example_guard t)) src = Inr id_restrictions"
  by (cases src) (simp_all add: guard_view_def example_lookup_def id_policy_def id_restrictions_def dotted_def
      example_deployment_def Let_def inactive_def ev)

lemma join_statement_facts:
  "cte_names ascii_db join_statement = {}"
  "set (resolved_tables example_lookup ascii_db {} join_statement) = {u ''Customer''}"
  by (simp_all add: cte_names_def resolved_tables_def find_all_def walk_def children_def join_statement_def
      join_clause_def join_equality_def)

lemma join_executing: "executing_source (example_guard t) {} join_statement = Inr (Some (u ''A''))"
proof -
  have "choose_datasource example_deployment [u ''Customer''] = Inr (Some (u ''A''))"
    by (simp add: ev example_deployment_def Let_def)
  then show ?thesis by (simp add: executing_source_def join_statement_facts(2) Let_def)
qed

definition join_position :: located where
  "join_position = (column_node (u ''a'') (u ''ID''),
     [(This, join_equality), (On, join_clause), (Joins, join_statement)])"

lemma join_columns:
  "find_all Column join_statement = [(column_node (u ''a'') (u ''Name''), [(Expressions, join_statement)]),
     join_position,
     (column_node (u ''b'') (u ''ID''), [(Expression, join_equality), (On, join_clause), (Joins, join_statement)])]"
  by (simp add: find_all_def walk_def children_def join_statement_def join_clause_def join_equality_def join_position_def)

lemma join_nodes:
  assumes "n \<in> fst ` set (walk join_statement)"
  shows "check_node (example_guard t) tsql tsql_dialect {} n = None \<and> check_projection (example_guard t) tsql n = None"
  using assms quiet_node [of join_clause "example_guard t" tsql tsql_dialect "{}"]
    quiet_node [of join_equality "example_guard t" tsql tsql_dialect "{}"]
  by (auto simp: walk_def children_def join_statement_def join_clause_def join_equality_def table_node_ok
      example_table_ok write_types_def forbidden_state_types_def)

lemma join_aliases:
  "map_of (collect_table_alias_map example_lookup ascii_db {} join_statement) (u ''a'') = Some (u ''Customer'')"
  "map_of (collect_table_alias_map example_lookup ascii_db {} join_statement) (u ''b'') = Some (u ''Customer'')"
  by (simp_all add: collect_table_alias_map_def table_entries_def find_all_def walk_def children_def Let_def join_statement_def
      join_clause_def join_equality_def)

lemma join_enforced: "enforce_join_only (example_guard t) {} id_restrictions al join_statement = None"
proof -
  have k: "is_join_key_operand join_position" "is_join_key_operand (column_node (u ''b'') (u ''ID''),
      [(Expression, join_equality), (On, join_clause), (Joins, join_statement)])"
    by (simp_all add: is_join_key_operand_def join_position_def join_equality_def join_clause_def is_column_def arg_def)
  have "check_join_only_column (example_guard t) {} id_restrictions al ts l = None"
    if "l \<in> set (find_all Column join_statement)" for l ts
    using that k unfolding join_columns
    by (auto simp: check_join_only_column_def id_restrictions_def Let_def join_position_def split: list.split)
  moreover have "check_join (example_guard t) {} id_restrictions l = None"
    if "l \<in> set (find_all Join join_statement)" for l
    using that by (auto simp: find_all_def walk_def children_def join_statement_def join_clause_def join_equality_def
        check_join_def arg_list_def Let_def enclosing_select_def plain_text_def)
  moreover have "find_all Star join_statement = []"
    by (simp add: find_all_def walk_def children_def join_statement_def join_clause_def join_equality_def)
  ultimately show ?thesis
    by (simp add: enforce_join_only_def first_error_None Let_def del: first_error.simps)
qed

lemma join_statement_accepted: "validate_sql (example_guard join_statement) tsql restrict_id (u ''q'') = None"
proof -
  let ?G = "example_guard join_statement"
  have c: "u ''id'' \<in> guard_columns ?G (u ''Customer'')" "u ''name'' \<in> guard_columns ?G (u ''Customer'')"
    by (simp_all add: guard_columns_def example_lookup_def)
  have j: "check_join_only ?G {} al id_policy join_statement = None" for al
    using id_resolved join_enforced by (simp add: check_join_only_def join_executing)
  have cols: "check_columns ?G {} (collect_table_alias_map example_lookup ascii_db {} join_statement) id_policy join_statement = None"
    using j c by (simp add: check_columns_def join_columns join_position_def check_column_def join_aliases Let_def)
      (simp add: id_policy_def)
  have tab: "has_table ?G {} join_statement"
    by (simp add: has_table_def walk_def children_def join_statement_def join_clause_def join_equality_def)
  show ?thesis
    unfolding example_validate
    by (rule validate_tree_NoneI [where policy = id_policy, OF _ refl _ join_nodes _ _ _ tab])
       (simp_all add: join_statement_facts allowed_root_types_def require_single_datasource_def id_policy_parsed cols,
        simp add: join_statement_def)
qed


end
