(* ===== verification/Sql_Cap.thy ===== *)
theory Sql_Cap
  imports Sql_Text
begin

text \<open>
  The row cap of T-SQL statements: the scan of the text is a one-character automaton, the cap is added
  once and stays, and three texts where the cap does not do what it should.
\<close>

section \<open>The scan is an automaton\<close>

text \<open>A doubled quote inside a literal leaves it and enters it again: no look-ahead is needed.\<close>

fun next_state :: "nat \<times> bool \<Rightarrow> nat \<Rightarrow> nat \<times> bool" where
  "next_state (d, True) c = (d, c \<noteq> 39)"
| "next_state (d, False) c =
     (if c = 39 then (d, True) else if c = 40 then (d + 1, False) else if c = 41 then (d - 1, False) else (d, False))"

fun automaton :: "nat \<times> bool \<Rightarrow> ustr \<Rightarrow> (nat \<times> bool) list" where
  "automaton st [] = []"
| "automaton st (c # s) = (fst st, snd st \<or> c = 39) # automaton (next_state st c) s"

lemma scan_automaton: "scan d b s = automaton (d, b) s"
proof (induction d b s rule: scan.induct)
  case (3 d c e s)
  then show ?case by (cases "c = 39"; cases "e = 39") auto
next
  case (4 d c s)
  then show ?case by (cases "c = 39"; cases "c = 40"; cases "c = 41") auto
qed auto

lemma length_automaton [simp]: "length (automaton st s) = length s"
  by (induction s arbitrary: st) auto

lemma automaton_append: "automaton st (a @ b) = automaton st a @ automaton (foldl next_state st a) b"
  by (induction a arbitrary: st) auto

text \<open>
  \<open>_scan_structure\<close> gives one entry for every character, and the entry of a character is the state of
  the automaton after the text before it: a scan can be continued from any position.
\<close>

theorem scan_is_compositional:
  "length (scan_structure s) = length s
   \<and> scan_structure (a @ b) = automaton (0, False) a @ automaton (foldl next_state (0, False) a) b"
  by (simp add: scan_structure_def scan_automaton automaton_append)

definition state_after :: "ustr \<Rightarrow> nat \<times> bool" where
  "state_after a = foldl next_state (0, False) a"

lemma at_top_state:
  "at_top (a @ c # t) (length a) \<longleftrightarrow> state_after a = (0, False) \<and> c \<noteq> 39"
  by (cases "state_after a")
     (auto simp: at_top_def scan_structure_def scan_automaton automaton_append nth_append state_after_def)

section \<open>Words\<close>

text \<open>What the cap relies on of the regular expression classes.\<close>

definition regex_tables :: "unicode_db \<Rightarrow> digits \<Rightarrow> bool" where
  "regex_tables U D \<longleftrightarrow>
     (\<forall>c. 65 \<le> c \<and> c \<le> 90 \<or> 97 \<le> c \<and> c \<le> 122 \<or> c = 0x130 \<or> c = 0x131 \<or> c = 0x17F \<longrightarrow> is_word U c)
     \<and> (\<forall>c. is_space c \<longrightarrow> \<not> is_word U c)
     \<and> (\<forall>c. D c \<noteq> None \<longrightarrow> is_word U c)
     \<and> (\<forall>c. 48 \<le> c \<and> c \<le> 57 \<longrightarrow> D c \<noteq> None)
     \<and> \<not> is_word U 40 \<and> \<not> is_word U 41 \<and> \<not> is_word U 42 \<and> \<not> is_word U 39 \<and> is_word U 95"

definition ends_word :: "unicode_db \<Rightarrow> ustr \<Rightarrow> bool" where
  "ends_word U a \<longleftrightarrow> a \<noteq> [] \<and> is_word U (last a)"

definition starts_word :: "unicode_db \<Rightarrow> ustr \<Rightarrow> bool" where
  "starts_word U b \<longleftrightarrow> b \<noteq> [] \<and> is_word U (hd b)"

lemma boundary_iff: "boundary U (a @ b) (length a) \<longleftrightarrow> ends_word U a \<noteq> starts_word U b"
proof -
  have "word_at U (a @ b) (length a) = starts_word U b"
    by (cases b) (auto simp: word_at_def starts_word_def)
  moreover have "0 < length a \<and> word_at U (a @ b) (length a - 1) \<longleftrightarrow> ends_word U a"
    by (cases a rule: rev_cases) (auto simp: word_at_def ends_word_def nth_append)
  ultimately show ?thesis by (simp add: boundary_def)
qed

definition spells :: "ustr \<Rightarrow> ustr \<Rightarrow> bool" where
  "spells k w \<longleftrightarrow> list_all2 same_letter k w"

lemma keyword_at: "length w = length k \<Longrightarrow> keyword k (a @ w @ b) (length a) = (if spells k w then Some (length a + length k) else None)"
  by (simp add: keyword_def spells_def)

definition capital :: "nat \<Rightarrow> bool" where
  "capital c \<longleftrightarrow> 65 \<le> c \<and> c \<le> 90"

lemma spelled_words:
  assumes "regex_tables U D" "spells k w" "\<forall>c \<in> set k. capital c"
  shows "\<forall>c \<in> set w. is_word U c"
proof -
  have "is_word U c" if "same_letter p c" "capital p" for p c
    using that assms(1) by (auto simp: regex_tables_def same_letter_def capital_def)
  then show ?thesis
    using assms(2,3) unfolding spells_def by (metis in_set_conv_nth list_all2_conv_all_nth)
qed

lemma boundary_word:
  assumes "\<forall>c \<in> set w. is_word U c" "w \<noteq> []"
  shows "boundary U (a @ w @ b) (length a) \<longleftrightarrow> \<not> ends_word U a"
    "boundary U (a @ w @ b) (length a + length w) \<longleftrightarrow> \<not> starts_word U b"
proof -
  have w: "starts_word U (w @ b)" "ends_word U (a @ w)"
    using assms by (auto simp: starts_word_def ends_word_def)
  show "boundary U (a @ w @ b) (length a) \<longleftrightarrow> \<not> ends_word U a"
    using boundary_iff [of U a "w @ b"] w by simp
  show "boundary U (a @ w @ b) (length a + length w) \<longleftrightarrow> \<not> starts_word U b"
    using boundary_iff [of U "a @ w" b] w by simp
qed

text \<open>A keyword as a whole word, at a position.\<close>

definition word_occurs :: "unicode_db \<Rightarrow> ustr \<Rightarrow> ustr \<Rightarrow> nat \<Rightarrow> bool" where
  "word_occurs U k s i \<longleftrightarrow>
     (\<exists>a w b. s = a @ w @ b \<and> length a = i \<and> spells k w \<and> \<not> ends_word U a \<and> \<not> starts_word U b)"

lemma bounded_word_iff:
  assumes "regex_tables U D" "k \<noteq> []" "\<forall>c \<in> set k. capital c"
  shows "bounded_word U k s i \<noteq> None \<longleftrightarrow> word_occurs U k s i"
proof
  assume "bounded_word U k s i \<noteq> None"
  then have h: "boundary U s i" "keyword k s i \<noteq> None" "boundary U s (i + length k)"
    by (auto simp: bounded_word_def then_match_def at_boundary_def keyword_def split: if_splits bind_splits)
  define a w b where "a = take i s" and "w = take (length k) (drop i s)" and "b = drop (i + length k) s"
  have sp: "spells k w" using h(2) by (auto simp: keyword_def spells_def w_def split: if_splits)
  then have lw: "length w = length k" by (simp add: spells_def list_all2_lengthD)
  with assms(2) have "i \<le> length s" by (cases "i \<le> length s") (auto simp: w_def)
  then have s: "s = a @ w @ b" "length a = i"
    by (simp_all add: a_def w_def b_def) (metis append_take_drop_id drop_drop add.commute)
  have "w \<noteq> []" using lw assms(2) by auto
  from boundary_word [OF spelled_words [OF assms(1) sp assms(3)] this, of a b] h(1,3) s lw sp
  show "word_occurs U k s i" by (auto simp: word_occurs_def)
next
  assume "word_occurs U k s i"
  then obtain a w b where w: "s = a @ w @ b" "length a = i" "spells k w" "\<not> ends_word U a" "\<not> starts_word U b"
    by (auto simp: word_occurs_def)
  have lw: "length w = length k" using w(3) by (simp add: spells_def list_all2_lengthD)
  then have "w \<noteq> []" using assms(2) by auto
  from boundary_word [OF spelled_words [OF assms(1) w(3) assms(3)] this, of a b] w lw
  show "bounded_word U k s i \<noteq> None"
    using keyword_at [OF lw, of a b] by (simp add: bounded_word_def then_match_def at_boundary_def)
qed

definition top_select :: "unicode_db \<Rightarrow> ustr \<Rightarrow> nat \<Rightarrow> bool" where
  "top_select U s i \<longleftrightarrow> (\<exists>a w b. s = a @ w @ b \<and> length a = i \<and> spells (u ''SELECT'') w
     \<and> \<not> ends_word U a \<and> \<not> starts_word U b \<and> state_after a = (0, False))"

lemma select_letters: "\<forall>c \<in> set (u ''SELECT''). capital c" "u ''SELECT'' \<noteq> []" "length (u ''SELECT'') = 6"
  by (simp_all add: u_def capital_def)

lemma spelled_quote: "spells (u ''SELECT'') w \<Longrightarrow> \<exists>c t. w = c # t \<and> c \<noteq> 39"
  by (cases w) (auto simp: spells_def u_def same_letter_def)

lemma starts_of_iff: "i \<in> set (starts_of m s) \<longleftrightarrow> i \<le> length s \<and> m s i \<noteq> None"
  by (simp add: starts_of_def less_Suc_eq_le del: upt_Suc)

lemma top_level_iff:
  assumes "regex_tables U D"
  shows "i \<in> set (top_level_select_matches U s) \<longleftrightarrow> top_select U s i"
proof -
  have "i \<in> set (top_level_select_matches U s) \<longleftrightarrow> i \<le> length s \<and> word_occurs U (u ''SELECT'') s i \<and> at_top s i"
    using bounded_word_iff [OF assms select_letters(2,1), of s i]
    by (auto simp: top_level_select_matches_def starts_of_iff select_token_def)
  also have "\<dots> \<longleftrightarrow> top_select U s i"
  proof
    assume h: "i \<le> length s \<and> word_occurs U (u ''SELECT'') s i \<and> at_top s i"
    then obtain a w b where w: "s = a @ w @ b" "length a = i" "spells (u ''SELECT'') w" "\<not> ends_word U a"
        "\<not> starts_word U b" by (auto simp: word_occurs_def)
    obtain c t where "w = c # t" "c \<noteq> 39" using spelled_quote [OF w(3)] by blast
    with h w at_top_state [of a c "t @ b"] have "state_after a = (0, False)" by simp
    with w show "top_select U s i" by (auto simp: top_select_def)
  next
    assume "top_select U s i"
    then obtain a w b where w: "s = a @ w @ b" "length a = i" "spells (u ''SELECT'') w" "\<not> ends_word U a"
        "\<not> starts_word U b" "state_after a = (0, False)" by (auto simp: top_select_def)
    obtain c t where "w = c # t" "c \<noteq> 39" using spelled_quote [OF w(3)] by blast
    with w at_top_state [of a c "t @ b"] have "i \<le> length s \<and> at_top s i" by auto
    moreover have "word_occurs U (u ''SELECT'') s i"
      unfolding word_occurs_def using w(1-5) by blast
    ultimately show "i \<le> length s \<and> word_occurs U (u ''SELECT'') s i \<and> at_top s i" by blast
  qed
  finally show ?thesis .
qed

lemma matches_sorted: "sorted (top_level_select_matches U s)" "distinct (top_level_select_matches U s)"
  unfolding top_level_select_matches_def starts_of_def
  by (simp_all add: sorted_wrt_filter distinct_filter del: upt_Suc filter_filter)

lemma single_match: "top_level_select_matches U s = [p] \<longleftrightarrow> set (top_level_select_matches U s) = {p}"
proof
  assume "set (top_level_select_matches U s) = {p}"
  then show "top_level_select_matches U s = [p]"
    using matches_sorted(2) [of U s]
    by (cases "top_level_select_matches U s"; cases "tl (top_level_select_matches U s)") auto
qed simp

section \<open>Inserting the cap\<close>

declare decimal.simps [simp del]

lemma top_clause_shape:
  assumes "0 \<le> n"
  shows "top_clause n = [32, 84, 79, 80, 32] @ decimal (nat n)"
  using assms by (simp add: top_clause_def show_int_def u_def)

text \<open>Text without quotes and parentheses leaves the state of the scan alone.\<close>

lemma state_neutral:
  assumes "\<forall>c \<in> set ins. c \<noteq> 39 \<and> c \<noteq> 40 \<and> c \<noteq> 41"
  shows "foldl next_state st ins = st"
proof -
  have "next_state st c = st" if "c \<noteq> 39" "c \<noteq> 40" "c \<noteq> 41" for c
    using that by (cases st; cases "snd st") auto
  then show ?thesis using assms by (induction ins) auto
qed

lemma spelled_len: "spells k w \<Longrightarrow> length w = length k"
  by (simp add: spells_def list_all2_lengthD)

text \<open>The digits and the letters of the clause do not start a \<open>SELECT\<close>.\<close>

lemma clause_no_S:
  assumes "0 \<le> n" "top_clause n = x @ y" "y \<noteq> []"
  shows "\<not> spells (u ''SELECT'') (take 6 (y @ t))"
proof
  assume "spells (u ''SELECT'') (take 6 (y @ t))"
  then have "same_letter 83 (hd y)" using assms(3) by (cases y) (auto simp: spells_def u_def)
  moreover have "hd y \<in> set (top_clause n)" using assms(2,3) by (cases y) auto
  then have "hd y \<in> {32, 84, 79, 80} \<or> 48 \<le> hd y \<and> hd y \<le> 57"
    unfolding top_clause_shape [OF assms(1)] using decimal_digits by auto
  ultimately show False by (auto simp: same_letter_def)
qed

lemma split_at:
  assumes "x @ y = a @ w @ b"
  shows "(\<exists>b'. x = a @ w @ b' \<and> b = b' @ y) \<or> (\<exists>w1 w2. w = w1 @ w2 \<and> w2 \<noteq> [] \<and> x = a @ w1 \<and> w1 \<noteq> [] \<and> y = w2 @ b)
    \<or> (\<exists>a'. a = x @ a' \<and> y = a' @ w @ b)"
proof -
  from assms obtain t where "x = a @ t \<and> t @ y = w @ b \<or> x @ t = a \<and> y = t @ w @ b"
    unfolding append_eq_append_conv2 by blast
  then show ?thesis
  proof (elim disjE conjE)
    assume x: "x = a @ t" and "t @ y = w @ b"
    then obtain v where "t = w @ v \<and> v @ y = b \<or> t @ v = w \<and> y = v @ b"
      unfolding append_eq_append_conv2 by blast
    then show ?thesis
    proof (elim disjE conjE)
      assume "t = w @ v" "v @ y = b"
      with x show ?thesis by simp
    next
      assume v: "t @ v = w" "y = v @ b"
      show ?thesis
      proof (cases "t = [] \<or> v = []")
        case True
        with v x show ?thesis by auto
      next
        case False
        with v x show ?thesis by blast
      qed
    qed
  qed auto
qed

lemma insert_clause_selects:
  assumes R: "regex_tables U D" and n: "0 \<le> n"
    and x: "ends_word U x" and y: "\<not> starts_word U y"
  defines "ins \<equiv> top_clause n"
  shows "top_select U (x @ ins @ y) i \<longleftrightarrow>
    (if i < length x then top_select U (x @ y) i
     else length x + length ins \<le> i \<and> top_select U (x @ y) (i - length ins))"
proof -
  have shape: "ins = [32, 84, 79, 80, 32] @ decimal (nat n)"
    unfolding ins_def by (rule top_clause_shape [OF n])
  have sp: "\<not> is_word U 32" using R by (auto simp: regex_tables_def is_space_def)
  have dw: "is_word U (last (decimal (nat n)))"
    using R decimal_digits [of "last (decimal (nat n))" "nat n"] decimal_not_Nil [of "nat n"]
    by (auto simp: regex_tables_def)
  have ei: "ends_word U (z @ ins)" for z
    using dw decimal_not_Nil [of "nat n"] by (simp add: ends_word_def shape)
  have si: "\<not> starts_word U (ins @ z)" for z using sp by (simp add: starts_word_def shape)
  have neutral: "foldl next_state st ins = st" for st
    by (rule state_neutral) (use decimal_digits [of _ "nat n"] in \<open>force simp: shape\<close>)
  have words: "\<forall>c \<in> set w. is_word U c" if "spells (u ''SELECT'') w" for w
    using spelled_words [OF R that select_letters(1)] .
  show ?thesis
  proof
    assume "top_select U (x @ ins @ y) i"
    then obtain a w b where w: "x @ ins @ y = a @ w @ b" "length a = i" "spells (u ''SELECT'') w" "\<not> ends_word U a"
        "\<not> starts_word U b" "state_after a = (0, False)" by (auto simp: top_select_def)
    from split_at [OF w(1)]
    consider (left) b' where "x = a @ w @ b'" "b = b' @ ins @ y"
      | (over) w1 w2 where "w = w1 @ w2" "w2 \<noteq> []" "w1 \<noteq> []" "x = a @ w1" "ins @ y = w2 @ b"
      | (right) a' where "a = x @ a'" "ins @ y = a' @ w @ b" by blast
    then show "if i < length x then top_select U (x @ y) i
      else length x + length ins \<le> i \<and> top_select U (x @ y) (i - length ins)"
    proof cases
      case left
      have "i < length x" using left(1) w(2) spelled_len [OF w(3)] by (simp add: u_def)
      moreover have "\<not> starts_word U (b' @ y)"
        using w(5) y left(2) by (cases b') (auto simp: starts_word_def)
      then have "top_select U (x @ y) i"
        unfolding top_select_def using w left by (intro exI [of _ a] exI [of _ w] exI [of _ "b' @ y"]) simp
      ultimately show ?thesis by simp
    next
      case over
      then have "hd (ins @ y) \<in> set w2" by (cases w2) auto
      then have "is_word U 32" using words [OF w(3)] over(1) by (auto simp: shape)
      with sp show ?thesis by blast
    next
      case right
      from split_at [of ins y a' w b] right(2)
      consider (inside) b' where "ins = a' @ w @ b'" | (over) w1 w2 where "w = w1 @ w2" "w1 \<noteq> []" "ins = a' @ w1"
        | (after) a'' where "a' = ins @ a''" "y = a'' @ w @ b" by blast
      then show ?thesis
      proof cases
        case inside
        have "w \<noteq> []" using spelled_len [OF w(3)] by (auto simp: u_def)
        with clause_no_S [OF n, of a' "w @ b'" "[]"] inside w(3) spelled_len [OF w(3)] show ?thesis
          by (simp add: ins_def u_def)
      next
        case over
        with clause_no_S [OF n, of a' w1 w2] w(3) spelled_len [OF w(3)] show ?thesis
          by (simp add: ins_def u_def)
      next
        case after
        have ne: "a'' \<noteq> []"
          using w(4) ei [of x] right(1) after(1) by auto
        have "\<not> ends_word U (x @ a'')" using w(4) ne right(1) after(1) by (simp add: ends_word_def)
        moreover have "state_after (x @ a'') = (0, False)"
          using w(6) right(1) after(1) by (simp add: state_after_def neutral)
        moreover have "x @ y = (x @ a'') @ w @ b" using after(2) by simp
        moreover have "length (x @ a'') = i - length ins" "length x + length ins \<le> i"
          using w(2) right(1) after(1) by auto
        ultimately have "top_select U (x @ y) (i - length ins)"
          unfolding top_select_def using w(3,5) by blast
        with \<open>length x + length ins \<le> i\<close> show ?thesis by simp
      qed
    qed
  next
    assume h: "if i < length x then top_select U (x @ y) i
      else length x + length ins \<le> i \<and> top_select U (x @ y) (i - length ins)"
    then obtain a w b where w: "x @ y = a @ w @ b" "spells (u ''SELECT'') w" "\<not> ends_word U a"
        "\<not> starts_word U b" "state_after a = (0, False)"
      and len: "if i < length x then length a = i else length x + length ins \<le> i \<and> length a = i - length ins"
      by (auto simp: top_select_def split: if_splits)
    from split_at [OF w(1)]
    consider (left) b' where "x = a @ w @ b'" "b = b' @ y"
      | (over) w1 w2 where "w = w1 @ w2" "w2 \<noteq> []" "y = w2 @ b"
      | (right) a' where "a = x @ a'" "y = a' @ w @ b" by blast
    then show "top_select U (x @ ins @ y) i"
    proof cases
      case left
      have "length a < length x" using left(1) spelled_len [OF w(2)] by (simp add: u_def)
      then have "length a = i" using len by (auto split: if_splits)
      moreover have "\<not> starts_word U (b' @ ins @ y)"
        using w(4) si left(2) by (cases b') (auto simp: starts_word_def)
      ultimately show ?thesis
        unfolding top_select_def using w left by (intro exI [of _ a] exI [of _ w] exI [of _ "b' @ ins @ y"]) simp
    next
      case over
      then have "starts_word U y" using words [OF w(2)] by (cases w2) (auto simp: starts_word_def)
      with y show ?thesis by blast
    next
      case right
      have ne: "a' \<noteq> []" using w(3) x right(1) by auto
      then have "\<not> ends_word U (x @ ins @ a')" using w(3) right(1) by (simp add: ends_word_def)
      moreover have "state_after (x @ ins @ a') = (0, False)"
        using w(5) right(1) by (simp add: state_after_def neutral)
      moreover have "length (x @ ins @ a') = i" using len right(1) by (auto split: if_splits)
      moreover have "x @ ins @ y = (x @ ins @ a') @ w @ b" using right(2) by simp
      ultimately show ?thesis unfolding top_select_def using w(2,4) by blast
    qed
  qed
qed


lemma one_select_kept:
  assumes R: "regex_tables U D" and n: "0 \<le> n"
    and x: "ends_word U x" and y: "\<not> starts_word U y"
    and one: "top_level_select_matches U (x @ y) = [p]" and p: "p < length x"
  shows "top_level_select_matches U (x @ top_clause n @ y) = [p]"
proof -
  have "top_select U (x @ y) i \<longleftrightarrow> i = p" for i
    using one unfolding top_level_iff [OF R, symmetric] by simp
  then have "top_select U (x @ top_clause n @ y) i \<longleftrightarrow> i = p" for i
    using insert_clause_selects [OF R n x y, of i] p by auto
  then show ?thesis unfolding single_match using top_level_iff [OF R] by blast
qed

lemma clause_starts_no_word:
  assumes R: "regex_tables U D" and n: "0 \<le> n"
  shows "\<not> starts_word U (top_clause n @ y)"
  using top_clause_shape [OF n] R by (auto simp: starts_word_def regex_tables_def is_space_def)

lemma digits_are_words:
  assumes "regex_tables U D"
  shows "D c \<noteq> None \<Longrightarrow> is_word U c" "is_space c \<Longrightarrow> \<not> is_word U c"
  using assms unfolding regex_tables_def by blast+

lemma clause_is_cap:
  assumes R: "regex_tables U D" and n: "0 \<le> n" and y: "\<not> starts_word U y"
  shows "distinct_after U (top_clause n @ y) 0 = None" "top_after U D (top_clause n @ y) 0 \<noteq> None"
proof -
  define d where "d = decimal (nat n)"
  have s: "top_clause n @ y = [32, 84, 79, 80, 32] @ d @ y" using top_clause_shape [OF n] by (simp add: d_def)
  have digit: "D c \<noteq> None" "is_word U c" "\<not> is_space c" if "c \<in> set d" for c
  proof -
    show "D c \<noteq> None" using R decimal_digits [of c "nat n"] that unfolding regex_tables_def d_def by blast
    then show "is_word U c" using R unfolding regex_tables_def by blast
    then show "\<not> is_space c" using R unfolding regex_tables_def by blast
  qed
  have d: "d \<noteq> []" by (simp add: d_def)
  have first: "\<not> is_space (hd d)" using digit d by simp
  have sp1: "spaces ([32, 84, 79, 80, 32] @ d @ y) 0 = Some 1"
    by (simp add: spaces_def run1_def run_def is_space_def)
  have sp2: "spaces ([32, 84, 79, 80, 32] @ d @ y) 4 = Some 5"
    using first d by (cases d) (simp_all add: spaces_def run1_def run_def is_space_def)
  have "takeWhile (\<lambda>c. D c \<noteq> None) (d @ y) = d"
  proof -
    have "takeWhile (\<lambda>c. D c \<noteq> None) y = []"
    proof (cases y)
      case (Cons c t)
      then have "D c = None" using y digits_are_words(1) [OF R, of c] unfolding starts_word_def by fastforce
      with Cons show ?thesis by simp
    qed simp
    then show ?thesis using digit(1) by (simp add: takeWhile_append2)
  qed
  then have dr: "digit_run D ([32, 84, 79, 80, 32] @ d @ y) 5 = Some (5 + length d)"
    using d by (simp add: digit_run_def run1_def run_def)
  have "boundary U (([32, 84, 79, 80, 32] @ d) @ y) (length ([32, 84, 79, 80, 32] @ d))"
    unfolding boundary_iff using y d digit(2) [of "last d"] by (simp add: ends_word_def)
  then have b: "boundary U ([32, 84, 79, 80, 32] @ d @ y) (5 + length d)" by (simp add: eval_nat_numeral)
  show "distinct_after U (top_clause n @ y) 0 = None"
    unfolding s distinct_after_def then_match_def sp1 by (simp add: keyword_def u_def same_letter_def)
  have k: "keyword (u ''TOP'') ([32, 84, 79, 80, 32] @ d @ y) 1 = Some 4"
    by (simp add: keyword_def u_def same_letter_def)
  show "top_after U D (top_clause n @ y) 0 \<noteq> None"
    unfolding s top_after_def then_match_def sp1 bind.simps k sp2 dr at_boundary_def using b by simp
qed


lemma length_u [simp]: "length (u t) = length t"
  by (simp add: u_def)

lemma distinct_end:
  assumes R: "regex_tables U D" and "distinct_after U rest 0 = Some k"
  obtains b w where "rest = b @ w @ drop k rest" "k = length b + length w" "b \<noteq> []" "takeWhile is_space rest = b"
    "spells (u ''DISTINCT'') w" "\<not> starts_word U (drop k rest)"
proof -
  define b where "b = takeWhile is_space rest"
  from assms(2) have b: "b \<noteq> []" "keyword (u ''DISTINCT'') rest (length b) = Some k" "boundary U rest k"
    by (auto simp: distinct_after_def then_match_def spaces_def run1_def run_def at_boundary_def b_def
        split: if_splits bind_splits)
  have eight: "length (u ''DISTINCT'') = 8" by simp
  define w where "w = take (length (u ''DISTINCT'')) (drop (length b) rest)"
  have sp: "spells (u ''DISTINCT'') w" "k = length b + 8"
    using b(2) by (auto simp: keyword_def spells_def w_def eight simp del: length_u split: if_splits)
  have lw: "length w = 8" using spelled_len [OF sp(1)] by (simp add: length_u)
  have rest: "rest = b @ w @ drop k rest"
  proof -
    have "rest = b @ drop (length b) rest" unfolding b_def by (metis append_eq_conv_conj takeWhile_dropWhile_id)
    moreover have "drop (length b) rest = w @ drop k rest"
      using append_take_drop_id [of "length (u ''DISTINCT'')" "drop (length b) rest"]
      unfolding w_def sp(2) drop_drop by (simp del: length_u add: eight add.commute)
    ultimately show ?thesis by simp
  qed
  have "\<forall>c \<in> set (u ''DISTINCT''). capital c" by (simp add: u_def capital_def)
  moreover have "w \<noteq> []" using lw by auto
  ultimately have "boundary U (b @ w @ drop k rest) (length b + length w) \<longleftrightarrow> \<not> starts_word U (drop k rest)"
    using boundary_word(2) [OF spelled_words [OF R sp(1)]] by blast
  then have "\<not> starts_word U (drop k rest)" using b(3) rest [symmetric] sp(2) lw by simp
  with that rest sp lw b show thesis by (simp add: b_def)
qed

lemma distinct_at:
  assumes R: "regex_tables U D" and w: "spells (u ''DISTINCT'') w" and b: "b \<noteq> []" "\<forall>c \<in> set b. is_space c"
    and y: "\<not> starts_word U y"
  shows "distinct_after U (b @ w @ y) 0 = Some (length b + length w)" "ends_word U (x @ b @ w)"
proof -
  have cap: "\<forall>c \<in> set (u ''DISTINCT''). capital c" by (simp add: u_def capital_def)
  have lw: "length w = length (u ''DISTINCT'')" using spelled_len [OF w] .
  then have ne: "w \<noteq> []" by (auto simp: u_def)
  have ww: "\<forall>c \<in> set w. is_word U c" by (rule spelled_words [OF R w cap])
  then have "\<not> is_space (hd w)" using digits_are_words(2) [OF R] ne by (meson hd_in_set)
  then have "takeWhile is_space (b @ w @ y) = b"
    using b ne by (cases w) (simp_all add: takeWhile_append2)
  then have s: "spaces (b @ w @ y) 0 = Some (length b)" using b by (simp add: spaces_def run1_def run_def)
  have "boundary U (b @ w @ y) (length b + length w)" using boundary_word(2) [OF ww ne, of b y] y by simp
  then show "distinct_after U (b @ w @ y) 0 = Some (length b + length w)"
    using s keyword_at [OF lw, of b y] w lw
    by (simp add: distinct_after_def then_match_def at_boundary_def)
  show "ends_word U (x @ b @ w)" using ne ww by (simp add: ends_word_def)
qed


text \<open>\<open>r\<close> is the statement with its cap, and capping it again changes nothing.\<close>

definition cap_stays :: "unicode_db \<Rightarrow> digits \<Rightarrow> ustr \<Rightarrow> int \<Rightarrow> nat \<Rightarrow> ustr \<Rightarrow> bool" where
  "cap_stays U D sql n p r \<longleftrightarrow>
     ensure_top_tsql U D sql n = Inr r \<and> top_level_select_matches U r = [p]
     \<and> (\<forall>m. ensure_top_tsql U D r m = Inr r)
     \<and> (r = sql \<or> (\<exists>k. p + 6 \<le> k \<and> r = take k sql @ top_clause n @ drop k sql))"

lemma capped_behind_select:
  assumes R: "regex_tables U D" and n: "0 \<le> n" and one: "top_level_select_matches U sql = [p]"
    and s: "sql = a @ w @ y" "length a = p" "spells (u ''SELECT'') w" "\<not> starts_word U y"
    and open_end: "distinct_after U y 0 = None" "top_after U D y 0 = None"
  shows "cap_stays U D sql n p ((a @ w) @ top_clause n @ y)"
proof -
  define r where "r = (a @ w) @ top_clause n @ y"
  have lw: "length w = 6" using spelled_len [OF s(3)] by simp
  have rest: "drop (p + 6) sql = y" "take (p + 6) sql = a @ w" using s(1,2) lw by simp_all
  have "w \<noteq> []" using lw by auto
  with spelled_words [OF R s(3) select_letters(1)] have x: "ends_word U (a @ w)" by (simp add: ends_word_def)
  have ones: "top_level_select_matches U r = [p]"
    unfolding r_def by (rule one_select_kept [OF R n x s(4)]) (use one s lw in simp_all)
  have "drop (p + 6) r = top_clause n @ y" "take (p + 6) r = a @ w" using s(2) lw by (simp_all add: r_def)
  then have "ensure_top_tsql U D r m = Inr r" for m
    using clause_is_cap [OF R n s(4)] ones by (simp add: ensure_top_tsql_def)
  moreover have "ensure_top_tsql U D sql n = Inr r"
    using open_end one rest by (simp add: ensure_top_tsql_def r_def)
  moreover have "r = take (p + 6) sql @ top_clause n @ drop (p + 6) sql" using rest by (simp add: r_def)
  ultimately show ?thesis using ones unfolding cap_stays_def r_def [symmetric] by blast
qed

lemma capped_behind_distinct:
  assumes R: "regex_tables U D" and n: "0 \<le> n" and one: "top_level_select_matches U sql = [p]"
    and s: "sql = a @ w @ y" "length a = p" "spells (u ''SELECT'') w"
    and d: "distinct_after U y 0 = Some k" and open_end: "top_after U D (drop k y) 0 = None"
  shows "cap_stays U D sql n p ((a @ w @ take k y) @ top_clause n @ drop k y)"
proof -
  obtain b v where d': "y = b @ v @ drop k y" "k = length b + length v" "b \<noteq> []"
      "takeWhile is_space y = b" "spells (u ''DISTINCT'') v" "\<not> starts_word U (drop k y)"
    using distinct_end [OF R d] by blast
  define z where "z = drop k y"
  have z: "\<not> starts_word U z" "y = b @ v @ z" using d' by (simp_all add: z_def)
  have ty: "take k y = b @ v" by (subst z(2)) (simp add: d'(2))
  have lw: "length w = 6" using spelled_len [OF s(3)] by simp
  have rest: "drop (p + 6) sql = y" "take (p + 6) sql = a @ w" using s(1,2) lw by simp_all
  have spaces: "\<forall>c \<in> set b. is_space c" using d'(4) set_takeWhileD by metis
  note at = distinct_at [OF R d'(5,3) spaces]
  have x: "ends_word U ((a @ w) @ b @ v)" using at(2) d'(6) by blast
  define r where "r = ((a @ w) @ b @ v) @ top_clause n @ z"
  have ones: "top_level_select_matches U r = [p]"
    unfolding r_def by (rule one_select_kept [OF R n x z(1)]) (use one s lw z in simp_all)
  have dr: "drop (p + 6) r = b @ v @ top_clause n @ z" using s(2) lw by (simp add: r_def)
  from at(1) [OF clause_starts_no_word [OF R n]]
  have da: "distinct_after U (drop (p + 6) r) 0 = Some k" using d'(2) dr by simp
  have "drop k (drop (p + 6) r) = top_clause n @ z" unfolding dr using d'(2) by simp
  then have "ensure_top_tsql U D r m = Inr r" for m
    using clause_is_cap(2) [OF R n z(1)] ones da by (simp add: ensure_top_tsql_def Let_def del: drop_drop)
  moreover have "ensure_top_tsql U D sql n = Inr r"
    using d open_end one rest ty unfolding ensure_top_tsql_def r_def z_def by simp
  moreover have "r = take (p + 6 + k) sql @ top_clause n @ drop (p + 6 + k) sql"
    using s(1,2) lw z(2) d'(2) by (simp add: r_def)
  moreover have "p + 6 \<le> p + 6 + k" by simp
  moreover have "(a @ w @ take k y) @ top_clause n @ drop k y = r" using ty by (simp add: r_def z_def)
  ultimately show ?thesis using ones unfolding cap_stays_def by metis
qed


section \<open>Concrete statements\<close>

definition regex_db :: unicode_db where
  "regex_db = ascii_db\<lparr>is_word := (\<lambda>c. is_word ascii_db c \<or> c \<in> {0x130, 0x131, 0x17F})\<rparr>"

lemma regex_db_ok: "regex_tables regex_db ascii_digits"
  unfolding regex_tables_def
  by (auto simp: regex_db_def ascii_db_def ascii_digits_def is_space_def split: if_splits)


lemma already_capped:
  "top_level_select_matches U sql = [p] \<Longrightarrow> distinct_after U (drop (p + 6) sql) 0 = None
   \<Longrightarrow> top_after U D (drop (p + 6) sql) 0 \<noteq> None \<Longrightarrow> ensure_top_tsql U D sql n = Inr sql"
  "top_level_select_matches U sql = [p] \<Longrightarrow> distinct_after U (drop (p + 6) sql) 0 = None
   \<Longrightarrow> top_after U D (drop (p + 6) sql) 0 = None
   \<Longrightarrow> ensure_top_tsql U D sql n = Inr (take (p + 6) sql @ top_clause n @ drop (p + 6) sql)"
  by (simp_all add: ensure_top_tsql_def Let_def)

lemma percent_text:
  "u ''SELECT TOP 9 PERCENT A FROM T'' = [83, 69, 76, 69, 67, 84, 32, 84, 79, 80, 32, 57, 32, 80, 69, 82, 67, 69, 78, 84, 32, 65, 32, 70, 82, 79, 77, 32, 84]"
  "u ''SELECT TOP (9) A FROM T'' = [83, 69, 76, 69, 67, 84, 32, 84, 79, 80, 32, 40, 57, 41, 32, 65, 32, 70, 82, 79, 77, 32, 84]"
  by (simp_all add: u_def)

lemmas match_simps = distinct_after_def top_after_def then_match_def spaces_def run1_def run_def keyword_def
  at_boundary_def boundary_def word_at_def digit_run_def same_letter_def is_space_def ascii_digits_def u_def

lemma percent_scan:
  "top_level_select_matches regex_db [83, 69, 76, 69, 67, 84, 32, 84, 79, 80, 32, 57, 32, 80, 69, 82, 67, 69, 78, 84, 32, 65, 32, 70, 82, 79, 77, 32, 84] = [0]"
  "distinct_after regex_db (drop (0 + 6) [83, 69, 76, 69, 67, 84, 32, 84, 79, 80, 32, 57, 32, 80, 69, 82, 67, 69, 78, 84, 32, 65, 32, 70, 82, 79, 77, 32, 84]) 0 = None"
  "top_after regex_db ascii_digits (drop (0 + 6) [83, 69, 76, 69, 67, 84, 32, 84, 79, 80, 32, 57, 32, 80, 69, 82, 67, 69, 78, 84, 32, 65, 32, 70, 82, 79, 77, 32, 84]) 0 \<noteq> None"
  by (code_simp, simp_all add: match_simps regex_db_def ascii_db_def)

lemma parenthesis_scan:
  "top_level_select_matches regex_db [83, 69, 76, 69, 67, 84, 32, 84, 79, 80, 32, 40, 57, 41, 32, 65, 32, 70, 82, 79, 77, 32, 84] = [0]"
  "distinct_after regex_db (drop (0 + 6) [83, 69, 76, 69, 67, 84, 32, 84, 79, 80, 32, 40, 57, 41, 32, 65, 32, 70, 82, 79, 77, 32, 84]) 0 = None"
  "top_after regex_db ascii_digits (drop (0 + 6) [83, 69, 76, 69, 67, 84, 32, 84, 79, 80, 32, 40, 57, 41, 32, 65, 32, 70, 82, 79, 77, 32, 84]) 0 = None"
  by (code_simp, simp_all add: match_simps regex_db_def ascii_db_def)

text \<open>
  The cap looks for \<open>TOP\<close> and a number only. A statement with \<open>TOP 9 PERCENT\<close> passes as capped,
  however many rows that is; a statement with \<open>TOP (9)\<close> gets a second \<open>TOP\<close>, which T-SQL refuses.
\<close>

theorem top_percent_counts_as_cap:
  "ensure_top_tsql regex_db ascii_digits (u ''SELECT TOP 9 PERCENT A FROM T'') n
     = Inr (u ''SELECT TOP 9 PERCENT A FROM T'')
   \<and> ensure_top_tsql regex_db ascii_digits (u ''SELECT TOP (9) A FROM T'') 5
     = Inr (u ''SELECT TOP 5 TOP (9) A FROM T'')"
  unfolding percent_text already_capped(1) [OF percent_scan] already_capped(2) [OF parenthesis_scan]
  by (simp add: u_def top_clause_def show_int_def decimal.simps)

definition literal_text :: ustr where
  "literal_text = u ''SELECT A FROM T WHERE B='' @ [39] @ u ''LIMIT 5 d'' @ [39]"

lemma literal_stages:
  "literal_text = [83, 69, 76, 69, 67, 84, 32, 65, 32, 70, 82, 79, 77, 32, 84, 32, 87, 72, 69, 82, 69, 32, 66, 61, 39, 76, 73, 77, 73, 84, 32, 53, 32, 100, 39]"
  "fenced literal_text = None"
  "regex_search (select_start regex_db) literal_text = Some 0"
  "strip literal_text = literal_text"
  "first_limit regex_db ascii_digits literal_text = Some 5"
  "strip_limits regex_db ascii_digits literal_text = [83, 69, 76, 69, 67, 84, 32, 65, 32, 70, 82, 79, 77, 32, 84, 32, 87, 72, 69, 82, 69, 32, 66, 61, 39, 32, 100, 39]"
  subgoal by (simp add: literal_text_def u_def)
  subgoal by code_simp
  subgoal by code_simp
  subgoal by (simp add: literal_text_def u_def strip_def rstrip_def lstrip_def is_space_def)
  subgoal unfolding literal_text_def by (simp add: u_def first_limit_def regex_search_def limit_re_def limit_prefix_def match_simps upt_rec regex_db_def ascii_db_def slice_def int_of_digits_def)
  subgoal unfolding literal_text_def by (simp add: u_def strip_limits_def sub_all_def sub_from.simps limit_strip_def limit_re_def limit_prefix_def match_simps regex_db_def ascii_db_def)

  done

lemma stripped_scan:
  "top_level_select_matches regex_db [83, 69, 76, 69, 67, 84, 32, 65, 32, 70, 82, 79, 77, 32, 84, 32, 87, 72, 69, 82, 69, 32, 66, 61, 39, 32, 100, 39] = [0]"
  "distinct_after regex_db (drop (0 + 6) [83, 69, 76, 69, 67, 84, 32, 65, 32, 70, 82, 79, 77, 32, 84, 32, 87, 72, 69, 82, 69, 32, 66, 61, 39, 32, 100, 39]) 0 = None"
  "top_after regex_db ascii_digits (drop (0 + 6) [83, 69, 76, 69, 67, 84, 32, 65, 32, 70, 82, 79, 77, 32, 84, 32, 87, 72, 69, 82, 69, 32, 66, 61, 39, 32, 100, 39]) 0 = None"
  by (code_simp, simp_all add: match_simps regex_db_def ascii_db_def)

lemma literal_result:
  "strip [83, 69, 76, 69, 67, 84, 32, 84, 79, 80, 32, 53, 32, 65, 32, 70, 82, 79, 77, 32, 84, 32, 87, 72, 69, 82, 69, 32, 66, 61, 39, 32, 100, 39] = [83, 69, 76, 69, 67, 84, 32, 84, 79, 80, 32, 53, 32, 65, 32, 70, 82, 79, 77, 32, 84, 32, 87, 72, 69, 82, 69, 32, 66, 61, 39, 32, 100, 39]"
  "fix_top_distinct ascii_digits [83, 69, 76, 69, 67, 84, 32, 84, 79, 80, 32, 53, 32, 65, 32, 70, 82, 79, 77, 32, 84, 32, 87, 72, 69, 82, 69, 32, 66, 61, 39, 32, 100, 39] = [83, 69, 76, 69, 67, 84, 32, 84, 79, 80, 32, 53, 32, 65, 32, 70, 82, 79, 77, 32, 84, 32, 87, 72, 69, 82, 69, 32, 66, 61, 39, 32, 100, 39]"
  by (simp add: strip_def rstrip_def lstrip_def is_space_def, simp add: fix_top_distinct_def sub_all_def sub_from.simps top_distinct_def top_distinct_prefix_def top_count_def slice_def match_simps)

text \<open>
  \<open>clean_sql\<close> takes the words \<open>LIMIT 5\<close> of a string literal for a row limit: it removes them from the
  value the statement compares with and caps the statement at five rows.
\<close>

theorem limit_in_literal_is_rewritten:
  "clean_sql regex_db ascii_digits (u ''SELECT A FROM T WHERE B='' @ [39] @ u ''LIMIT 5 d'' @ [39])
     = Inr (u ''SELECT TOP 5 A FROM T WHERE B='' @ [39] @ u '' d'' @ [39])"
proof -
  have "limit_to_top regex_db ascii_digits literal_text = Inr [83, 69, 76, 69, 67, 84, 32, 84, 79, 80, 32, 53, 32, 65, 32, 70, 82, 79, 77, 32, 84, 32, 87, 72, 69, 82, 69, 32, 66, 61, 39, 32, 100, 39]"
    using already_capped(2) [OF stripped_scan, of 5] literal_stages
    by (simp add: limit_to_top_def top_clause_def show_int_def decimal.simps u_def)
  moreover have "strip literal_text \<noteq> []" unfolding literal_stages(4) by (simp add: literal_text_def u_def)
  ultimately show ?thesis
    using literal_stages(2-4) literal_result
    unfolding literal_text_def [symmetric] clean_sql_def by (simp add: u_def)
qed

end
