(* ===== verification/Sql_Pipeline.thy ===== *)
theory Sql_Pipeline
  imports Guard_Safety Turn_Ask
begin

text \<open>
  \<open>security/sql_guard.py\<close> after the validation: the row cap on the syntax tree, the transpilation to the
  dialect of the deployment and the validation of its result, and the guard as the agent and the
  conversation engine call it. What sqlglot does to a tree (\<open>limit()\<close>, the wrapping select) and its
  printer are parameters.
\<close>

record sql_tools =
  tl_guard :: guard_env
  tl_parse_one :: "ustr \<Rightarrow> ustr \<Rightarrow> ast option option"
  tl_print :: "ustr \<Rightarrow> ast \<Rightarrow> ustr option"
  tl_limit :: "int \<Rightarrow> ast \<Rightarrow> ast"
  tl_wrap :: "int \<Rightarrow> ast \<Rightarrow> ast"

section \<open>The row cap on the tree\<close>

definition set_operations :: "node_class set" where
  "set_operations = {Union_op, Intersect_op, Except_op}"

function setop_branches :: "ast \<Rightarrow> ast list" where
  "setop_branches n =
     (if cls n \<in> set_operations
      then concat (map (\<lambda>(k, c). setop_branches c)
             (filter (\<lambda>(k, c). k = This) (args n) @ filter (\<lambda>(k, c). k = Expression) (args n)))
      else [n])"
  by auto

termination
  by (relation "measure node_count") (auto dest: node_count_arg)

declare setop_branches.simps [simp del]

definition set_arg :: "arg_key \<Rightarrow> ast option \<Rightarrow> ast \<Rightarrow> ast" where
  "set_arg k v n =
     Node (cls n) (text_of n) (filter (\<lambda>(j, c). j \<noteq> k) (args n) @ (case v of None \<Rightarrow> [] | Some c \<Rightarrow> [(k, c)]))"

definition uncappable :: "ustr \<Rightarrow> guard_error" where
  "uncappable sql = Rejected (correctable R_other None (Not_capped_tree (take 200 sql)))"

definition has_order_by :: "ast \<Rightarrow> bool" where
  "has_order_by tree \<longleftrightarrow> arg Order tree \<noteq> None
     \<or> list_ex (\<lambda>b. cls b = Select \<and> arg Order b \<noteq> None) (setop_branches tree)"

definition ensure_top_ast :: "sql_tools \<Rightarrow> ustr \<Rightarrow> int \<Rightarrow> ustr \<Rightarrow> guard_error + ustr" where
  "ensure_top_ast T sql n dialect =
     (case tl_parse_one T sql dialect of
        None \<Rightarrow> Inl (uncappable sql)
      | Some None \<Rightarrow> Inl (uncappable sql)
      | Some (Some tree) \<Rightarrow>
          if cls tree = Select
          then (if arg Limit tree \<noteq> None then Inr sql
                else Inr (ge_render (tl_guard T) dialect (tl_limit T n tree)))
          else if cls tree \<in> set_operations
          then (if arg Limit tree \<noteq> None then Inr sql
                else if has_order_by tree then Inl (uncappable sql)
                else (let wrapped = tl_wrap T n (set_arg With None tree)
                      in Inr (ge_render (tl_guard T) dialect
                           (case arg With tree of
                              None \<Rightarrow> wrapped | Some w \<Rightarrow> set_arg With (Some w) wrapped))))
          else Inl (uncappable sql))"

definition ensure_top :: "sql_tools \<Rightarrow> ustr \<Rightarrow> int \<Rightarrow> ustr \<Rightarrow> guard_error + ustr" where
  "ensure_top T sql n dialect =
     (if dialect \<noteq> tsql then ensure_top_ast T sql n dialect
      else map_sum (\<lambda>e. Rejected (correctable R_other None (Not_capped_text e))) id
             (ensure_top_tsql (ge_unicode (tl_guard T)) (ge_digits (tl_guard T)) sql n))"

section \<open>Transpilation\<close>

text \<open>\<open>N'...'\<close> becomes a plain literal where the dialect has no national literals.\<close>

definition string_literal :: "ustr \<Rightarrow> ast" where
  "string_literal s = Node Literal
     \<lparr>nt_type = u ''Literal'', nt_name = s, nt_alias = [], nt_table = [], nt_db = [], nt_catalog = [],
      nt_method = [], nt_value = s, nt_string = True, nt_comments = False\<rparr> []"

definition national_value :: "ast \<Rightarrow> ustr" where
  "national_value n =
     (case arg This n of
        Some l \<Rightarrow> if cls l = Literal then nt_value (text_of l) else nt_value (text_of n)
      | None \<Rightarrow> nt_value (text_of n))"

fun replace_national :: "ast \<Rightarrow> ast" where
  "replace_national (Node c t as) =
     (if c = National then string_literal (national_value (Node c t as))
      else Node c t (map (\<lambda>(k, a). (k, replace_national a)) as))"

definition strip_unsupported_national_literals :: "dialect_profile \<Rightarrow> ast \<Rightarrow> ast" where
  "strip_unsupported_national_literals p tree =
     (if dl_national_literal p then tree else replace_national tree)"

definition not_transpiled :: "ustr \<Rightarrow> guard_error" where
  "not_transpiled sql = Rejected (correctable R_other None (Not_transpiled (take 200 sql)))"

definition transpile_sql :: "sql_tools \<Rightarrow> ustr \<Rightarrow> ustr \<Rightarrow> ustr \<Rightarrow> guard_error + ustr" where
  "transpile_sql T sql target source =
     (case tl_parse_one T sql source of
        None \<Rightarrow> Inl (not_transpiled sql)
      | Some None \<Rightarrow> Inl (not_transpiled sql)
      | Some (Some tree) \<Rightarrow>
          (case get_dialect_profile target of
             Inl e \<Rightarrow> Inl (Bad_dialect e)
           | Inr p \<Rightarrow>
               (case tl_print T target (strip_unsupported_national_literals p tree) of
                  None \<Rightarrow> Inl (not_transpiled sql)
                | Some out \<Rightarrow> Inr out)))"

definition transpile_and_revalidate ::
    "sql_tools \<Rightarrow> ustr \<Rightarrow> ustr \<Rightarrow> ustr \<Rightarrow> denied_arg \<Rightarrow> guard_error + ustr" where
  "transpile_and_revalidate T sql target source da =
     (if target = source then Inr sql
      else (case transpile_sql T sql target source of
              Inl e \<Rightarrow> Inl e
            | Inr out \<Rightarrow>
                (case validate_sql (tl_guard T) target da out of
                   Some e \<Rightarrow> Inl e
                 | None \<Rightarrow>
                     (let before = extract_touched_tables (tl_guard T) source sql;
                          after = extract_touched_tables (tl_guard T) target out
                      in if set before \<noteq> set after
                         then Inl (Rejected (correctable R_other None (Tables_changed before after)))
                         else Inr out))))"

text \<open>After the rewrite no national literal is left.\<close>

lemma replace_national_clean: "subtree (replace_national t) n \<Longrightarrow> cls n \<noteq> National"
proof (induction t rule: replace_national.induct)
  case (1 c t as)
  have cases: "subtree m n \<Longrightarrow> n = m \<or> (\<exists>(k, a) \<in> set (args m). subtree a n)" for m n :: ast
    by (induction rule: subtree.induct) (auto intro: subtree.intros)
  show ?case
    using cases [OF 1(2)] 1(1)
    by (cases "c = National") (auto simp: string_literal_def)
qed

section \<open>The guard of the agent and of the engine\<close>

text \<open>The exceptions as the callers see them; \<open>show\<close> is \<open>str(exc)\<close>.\<close>

definition as_exception :: "(guard_error \<Rightarrow> ustr) \<Rightarrow> guard_error \<Rightarrow> py_error" where
  "as_exception show e =
     (case e of
        Rejected r \<Rightarrow> if rj_policy r then Policy_rejection (show e) else Correctable_rejection (show e)
      | guard_error.Bad_policy Assertion_error \<Rightarrow> Other_error (show e)
      | _ \<Rightarrow> Value_error (show e))"

definition clean_failure :: "clean_error \<Rightarrow> guard_error" where
  "clean_failure e = Rejected (correctable R_other None (Not_cleaned e))"

definition guard_of :: "(guard_error \<Rightarrow> ustr) \<Rightarrow> sql_tools \<Rightarrow> ustr \<Rightarrow> denied_arg \<Rightarrow> sql_guard" where
  "guard_of show T target da =
     (let G = tl_guard T; ex = as_exception show
      in \<lparr>gd_clean = (\<lambda>raw. map_sum (\<lambda>e. ex (clean_failure e)) id (clean_sql (ge_unicode G) (ge_digits G) raw)),
          gd_validate = (\<lambda>sql. map_option ex (validate_sql G tsql da sql)),
          gd_ensure_top = (\<lambda>sql n. map_sum ex id (ensure_top T sql n tsql)),
          gd_transpile = (\<lambda>sql. map_sum ex id (transpile_and_revalidate T sql target tsql da))\<rparr>)"

lemma guard_of_simps [simp]:
  "gd_clean (guard_of show T target da) raw
     = map_sum (\<lambda>e. as_exception show (clean_failure e)) id (clean_sql (ge_unicode (tl_guard T)) (ge_digits (tl_guard T)) raw)"
  "gd_validate (guard_of show T target da) sql = map_option (as_exception show) (validate_sql (tl_guard T) tsql da sql)"
  "gd_ensure_top (guard_of show T target da) sql n = map_sum (as_exception show) id (ensure_top T sql n tsql)"
  "gd_transpile (guard_of show T target da) sql
     = map_sum (as_exception show) id (transpile_and_revalidate T sql target tsql da)"
  by (simp_all add: guard_of_def Let_def)

text \<open>What the guard stage lets through.\<close>

lemma guard_stage_validated:
  assumes "clean_validate_cap E raw = Inr (sql, cap)" "ag_guard E = guard_of show T target da"
  obtains cleaned capped where
    "clean_sql (ge_unicode (tl_guard T)) (ge_digits (tl_guard T)) raw = Inr cleaned"
    "validate_sql (tl_guard T) tsql da cleaned = None"
    "ensure_top T cleaned (ag_default_top_n E) tsql = Inr capped"
    "transpile_and_revalidate T capped target tsql da = Inr sql"
  using assms(1) unfolding clean_validate_cap_def assms(2) guard_of_simps Let_def
  by (auto split: sum.splits option.splits simp: map_sum_def)

lemma revalidated:
  assumes "transpile_and_revalidate T capped target source da = Inr sql" "target \<noteq> source"
  shows "validate_sql (tl_guard T) target da sql = None"
    "set (extract_touched_tables (tl_guard T) source capped) = set (extract_touched_tables (tl_guard T) target sql)"
  using assms by (auto simp: transpile_and_revalidate_def Let_def split: sum.splits option.splits if_splits)

lemma not_transpiled_at_home: "transpile_and_revalidate T capped source source da = Inr capped"
  by (simp add: transpile_and_revalidate_def)



definition example_tools :: sql_tools where
  "example_tools = \<lparr>tl_guard = example_guard join_statement, tl_parse_one = (\<lambda>s d. Some (Some join_statement)),
     tl_print = (\<lambda>d t. Some (u ''q'')), tl_limit = (\<lambda>n t. t), tl_wrap = (\<lambda>n t. t)\<rparr>"

definition guarded_agent :: "(nat, nat) agent_env" where
  "guarded_agent = example_agent\<lparr>ag_guard := guard_of (\<lambda>e. []) example_tools (u ''postgres'') No_entries\<rparr>"


end
