(* ===== verification/Config_Versions.thy ===== *)
theory Config_Versions
  imports Sql_Guard Auth
begin

text \<open>
  \<open>appdb/config_versions.py\<close> and the routes over it (\<open>api/admin_config_routes.py\<close>): the versioned bundle of
  configuration files. A state holds the rows of the table, the files on disk, the caches of the
  process and the cached version id; every public function is an operation on it. A transaction that
  raises leaves the table as it was. The YAML loaders, the hash and the evaluation of the golden set are
  parameters.
\<close>

section \<open>Bundles\<close>

type_synonym config_files = "ustr \<rightharpoonup> ustr"

definition schema_file :: ustr where "schema_file = u ''schema.yaml''"

definition config_filenames :: "ustr list" where
  "config_filenames = [u ''aliases.yaml'', u ''business_rules.yaml'', u ''entities.yaml'', u ''examples.yaml'',
     u ''metrics.yaml'', u ''retrieval_hints.yaml'', u ''session_policy.yaml'', u ''memory_policy.yaml'', schema_file]"

definition security_only_files :: "ustr set" where "security_only_files = {schema_file}"

definition prefix_relevant_files :: "ustr set" where
  "prefix_relevant_files = {u ''business_rules.yaml'', u ''metrics.yaml'', u ''examples.yaml''}"

text \<open>The files with a loader module whose cache is cleared: all but \<open>schema.yaml\<close>.\<close>

definition knowledge_cache_files :: "ustr set" where
  "knowledge_cache_files = {u ''aliases.yaml'', u ''business_rules.yaml'', u ''entities.yaml'', u ''examples.yaml'',
     u ''metrics.yaml'', u ''retrieval_hints.yaml'', u ''session_policy.yaml'', u ''memory_policy.yaml''}"

definition file_text :: "config_files \<Rightarrow> ustr \<Rightarrow> ustr" where
  "file_text b f = (case b f of None \<Rightarrow> [] | Some t \<Rightarrow> t)"

text \<open>The nine files of a directory; a missing one reads as empty.\<close>

definition nine_files :: "config_files \<Rightarrow> config_files" where
  "nine_files disk = (\<lambda>f. if f \<in> set config_filenames then Some (file_text disk f) else None)"

section \<open>Rows and state\<close>

record schema_diff =
  sd_added :: "ustr list"
  sd_removed :: "ustr list"
  sd_columns :: "(ustr \<times> ustr list \<times> ustr list) list"

record bundle_diff =
  bd_files :: "ustr list"
  bd_schema :: "schema_diff option"

datatype dry_run = Not_run | Dry_run ustr "ustr list"

datatype version_status = Applied | Draft | Rejected_draft

record version_row =
  vr_id :: nat
  vr_status :: version_status
  vr_content :: config_files
  vr_hash :: ustr
  vr_based_on :: "nat option"
  vr_restored_from :: "nat option"
  vr_restored_file :: "ustr option"
  vr_created_at :: ustr
  vr_created_by :: ustr
  vr_capability :: ustr
  vr_reviewed_by :: "ustr option"
  vr_reviewed_at :: "ustr option"
  vr_review_note :: "ustr option"
  vr_diff :: "bundle_diff option"
  vr_dry_run :: "dry_run option"

text \<open>
  \<open>cs_loaded\<close>: for every loader module the text its cache was read from; \<open>cs_prefix\<close>: whether the
  rendered prompt prefix is cached; \<open>cs_version_id\<close>: the cached id and when it was read.
\<close>

record config_store =
  cs_rows :: "version_row list"
  cs_disk :: config_files
  cs_export :: "(config_files \<times> nat) option"
  cs_loaded :: config_files
  cs_prefix :: bool
  cs_version_id :: "(nat \<times> int) option"

record config_env =
  cv_unicode :: unicode_db
  cv_ident :: identifier_parser
  cv_deployment :: deployment
  cv_loader :: "ustr \<Rightarrow> ustr \<Rightarrow> ustr option"
  cv_parse_schema :: "ustr \<Rightarrow> ustr + schema_config"
  cv_schema_message :: "schema_error \<Rightarrow> ustr"
  cv_source_message :: "ustr list \<Rightarrow> ustr"
  cv_hash :: "config_files \<Rightarrow> ustr"
  cv_golden :: "ustr + ustr option list option"
  cv_report :: "ustr option list \<Rightarrow> ustr"
  cv_guard :: guard_env
  cv_export_dir :: ustr
  cv_ttl :: int

datatype version_error =
    Unknown_files "ustr list"
  | Stale_version nat nat
  | Invalid_bundle "ustr list"
  | Broken_invariants "violation list"
  | Version_not_found nat
  | Not_a_draft nat version_status
  | Not_permitted
  | No_files
  | No_export_dir
  | Failed ustr

section \<open>Validation, diff and dry run\<close>

text \<open>The schema as the loader's model accepts it.\<close>

definition parse_schema :: "config_env \<Rightarrow> ustr \<Rightarrow> ustr + schema_config" where
  "parse_schema C text =
     (case cv_parse_schema C text of
        Inl e \<Rightarrow> Inl e
      | Inr cfg \<Rightarrow>
          (case validate_schema (cv_ident C) (cv_unicode C) cfg of
             Some e \<Rightarrow> Inl (cv_schema_message C e)
           | None \<Rightarrow> Inr cfg))"

definition validate_candidate_schema :: "config_env \<Rightarrow> ustr \<Rightarrow> ustr option" where
  "validate_candidate_schema C text =
     (case parse_schema C text of
        Inl e \<Rightarrow> Some e
      | Inr cfg \<Rightarrow>
          (let bad = check_table_datasources (cv_deployment C)
                       (Some (map (\<lambda>(n, t). (n, Many_sources (td_datasource t))) (sch_tables cfg)))
           in if bad = [] then None else Some (cv_source_message C bad)))"

definition validate_bundle :: "config_env \<Rightarrow> config_files \<Rightarrow> version_error option" where
  "validate_bundle C files =
     (let errors = List.map_filter
            (\<lambda>f. (if f = schema_file then validate_candidate_schema C else cv_loader C f) (file_text files f))
            config_filenames
      in if errors = [] then None else Some (Invalid_bundle errors))"

definition allowed_columns :: "schema_config \<Rightarrow> (ustr, ustr set) odict" where
  "allowed_columns cfg =
     concat (map (\<lambda>(n, t). case td_columns t of
         None \<Rightarrow> [] | Some cs \<Rightarrow> if cs = [] then [] else [(n, set (od_keys cs))]) (sch_tables cfg))"

definition schema_table_columns :: "config_env \<Rightarrow> ustr \<Rightarrow> version_error + (ustr, ustr set) odict" where
  "schema_table_columns C text =
     (if strip text = [] then Inr []
      else (case parse_schema C text of Inl e \<Rightarrow> Inl (Failed e) | Inr cfg \<Rightarrow> Inr (allowed_columns cfg)))"

definition diff_tables :: "(ustr, ustr set) odict \<Rightarrow> (ustr, ustr set) odict \<Rightarrow> schema_diff" where
  "diff_tables old new =
     (let cols = (\<lambda>d t. case map_of d t of None \<Rightarrow> {} | Some cs \<Rightarrow> cs)
      in \<lparr>sd_added = sorted_list_of_set (set (od_keys new) - set (od_keys old)),
          sd_removed = sorted_list_of_set (set (od_keys old) - set (od_keys new)),
          sd_columns = filter (\<lambda>(t, added, removed). added \<noteq> [] \<or> removed \<noteq> [])
            (map (\<lambda>t. (t, sorted_list_of_set (cols new t - cols old t), sorted_list_of_set (cols old t - cols new t)))
              (sorted_list_of_set (set (od_keys old) \<inter> set (od_keys new))))\<rparr>)"

definition diff_schema :: "config_env \<Rightarrow> ustr \<Rightarrow> ustr \<Rightarrow> version_error + schema_diff" where
  "diff_schema C old new =
     (case schema_table_columns C old of
        Inl e \<Rightarrow> Inl e
      | Inr o_tables \<Rightarrow> map_sum id (diff_tables o_tables) (schema_table_columns C new))"

definition files_changed :: "config_files \<Rightarrow> config_files \<Rightarrow> ustr list" where
  "files_changed old new = sort (filter (\<lambda>f. file_text old f \<noteq> file_text new f) config_filenames)"

definition diff_bundles :: "config_env \<Rightarrow> config_files \<Rightarrow> config_files \<Rightarrow> version_error + bundle_diff" where
  "diff_bundles C old new =
     (let changed = files_changed old new
      in if schema_file \<in> set changed
         then map_sum id (\<lambda>d. \<lparr>bd_files = changed, bd_schema = Some d\<rparr>)
                (diff_schema C (file_text old schema_file) (file_text new schema_file))
         else Inr \<lparr>bd_files = changed, bd_schema = None\<rparr>)"

definition touched_by_golden :: "config_env \<Rightarrow> ustr option list \<Rightarrow> ustr set" where
  "touched_by_golden C cases =
     \<Union> ((\<lambda>c. case c of None \<Rightarrow> {} | Some sql \<Rightarrow>
             if sql = [] then {} else set (extract_touched_tables (cv_guard C) tsql sql)) ` set cases)"

definition dry_run_bundle :: "config_env \<Rightarrow> config_files \<Rightarrow> version_error + dry_run" where
  "dry_run_bundle C files =
     (case cv_golden C of
        Inl e \<Rightarrow> Inl (Failed e)
      | Inr None \<Rightarrow> Inr Not_run
      | Inr (Some cases) \<Rightarrow>
          (let text = file_text files schema_file
           in if strip text = [] then Inr (Dry_run (cv_report C cases) [])
              else map_sum id (\<lambda>tables. Dry_run (cv_report C cases)
                       (sorted_list_of_set (touched_by_golden C cases - set (od_keys tables))))
                     (schema_table_columns C text)))"


section \<open>Reading the table\<close>

definition bootstrap_row :: "config_env \<Rightarrow> ustr \<Rightarrow> config_files \<Rightarrow> version_row" where
  "bootstrap_row C stamp files =
     \<lparr>vr_id = 1, vr_status = Applied, vr_content = files, vr_hash = cv_hash C files, vr_based_on = None,
      vr_restored_from = None, vr_restored_file = None, vr_created_at = stamp, vr_created_by = u ''bootstrap'',
      vr_capability = operations_capability, vr_reviewed_by = None, vr_reviewed_at = None,
      vr_review_note = None, vr_diff = None, vr_dry_run = None\<rparr>"

definition bootstrapped :: "config_env \<Rightarrow> ustr \<Rightarrow> config_store \<Rightarrow> version_row list" where
  "bootstrapped C stamp st =
     (if cs_rows st = [] then [bootstrap_row C stamp (nine_files (cs_disk st))] else cs_rows st)"

definition applied_rows :: "version_row list \<Rightarrow> version_row list" where
  "applied_rows rows = filter (\<lambda>r. vr_status r = Applied) rows"

definition active_row :: "version_row list \<Rightarrow> version_row option" where
  "active_row rows = (if applied_rows rows = [] then None else Some (last (applied_rows rows)))"

definition find_row :: "version_row list \<Rightarrow> nat \<Rightarrow> version_row option" where
  "find_row rows v = find (\<lambda>r. vr_id r = v) rows"

definition get_active_version :: "config_env \<Rightarrow> ustr \<Rightarrow> config_store \<Rightarrow> version_row option \<times> config_store" where
  "get_active_version C stamp st =
     (let rows = bootstrapped C stamp st in (active_row rows, st\<lparr>cs_rows := rows\<rparr>))"

definition get_active_version_id ::
    "config_env \<Rightarrow> ustr \<Rightarrow> int \<Rightarrow> config_store \<Rightarrow> nat option \<times> config_store" where
  "get_active_version_id C stamp clock st =
     (case cs_version_id st of
        Some (v, read) \<Rightarrow>
          if 0 < cv_ttl C \<and> clock - read < cv_ttl C then (Some v, st)
          else (let rows = bootstrapped C stamp st
                in case active_row rows of
                     None \<Rightarrow> (None, st)
                   | Some r \<Rightarrow> (Some (vr_id r), st\<lparr>cs_rows := rows, cs_version_id := Some (vr_id r, clock)\<rparr>))
      | None \<Rightarrow>
          (let rows = bootstrapped C stamp st
           in case active_row rows of
                None \<Rightarrow> (None, st)
              | Some r \<Rightarrow> (Some (vr_id r), st\<lparr>cs_rows := rows, cs_version_id := Some (vr_id r, clock)\<rparr>)))"

text \<open>A loader module reads its file on the first access and keeps it.\<close>

definition read_knowledge :: "ustr \<Rightarrow> config_store \<Rightarrow> ustr \<times> config_store" where
  "read_knowledge f st =
     (case cs_loaded st f of
        Some t \<Rightarrow> (t, st)
      | None \<Rightarrow> (file_text (cs_disk st) f,
                if f \<in> knowledge_cache_files then st\<lparr>cs_loaded := (cs_loaded st)(f \<mapsto> file_text (cs_disk st) f)\<rparr> else st))"

section \<open>Applying a version\<close>

definition write_bundle_to_disk :: "config_files \<Rightarrow> config_store \<Rightarrow> config_store" where
  "write_bundle_to_disk files st =
     st\<lparr>cs_disk := (\<lambda>f. if f \<in> set config_filenames then Some (file_text files f) else cs_disk st f)\<rparr>"

definition write_export :: "config_env \<Rightarrow> config_files \<Rightarrow> nat \<Rightarrow> config_store \<Rightarrow> config_store" where
  "write_export C files v st =
     (if cv_export_dir C = [] then st else st\<lparr>cs_export := Some (nine_files files, v)\<rparr>)"

definition invalidate_runtime_caches :: "ustr list \<Rightarrow> config_store \<Rightarrow> config_store" where
  "invalidate_runtime_caches changed st =
     st\<lparr>cs_version_id := None,
        cs_loaded := (\<lambda>f. if f \<in> set changed \<inter> knowledge_cache_files then None else cs_loaded st f),
        cs_prefix := cs_prefix st \<and> set changed \<inter> knowledge_cache_files \<inter> prefix_relevant_files = {}\<rparr>"

definition take_effect :: "config_env \<Rightarrow> config_files \<Rightarrow> nat \<Rightarrow> ustr list \<Rightarrow> config_store \<Rightarrow> config_store" where
  "take_effect C files v changed st =
     invalidate_runtime_caches changed (write_export C files v (write_bundle_to_disk files st))"

section \<open>propose_or_apply\<close>

text \<open>The checks of a new schema that are not the loader's.\<close>

definition check_invariants :: "config_env \<Rightarrow> (ustr, ustr) odict \<Rightarrow> config_files \<Rightarrow> version_error option" where
  "check_invariants C files content =
     (if schema_file \<in> set (od_keys files) \<and> strip (file_text content schema_file) \<noteq> []
      then (case parse_schema C (file_text content schema_file) of
              Inl e \<Rightarrow> Some (Failed e)
            | Inr cfg \<Rightarrow>
                (let violations = check_allowlist_structural_invariants
                       (concat (map (\<lambda>(n, t). case td_columns t of
                           None \<Rightarrow> [] | Some cs \<Rightarrow> if cs = [] then [] else [(n, cs)]) (sch_tables cfg)))
                       (map (\<lambda>(n, t). (n, td_description t)) (sch_tables cfg))
                       (fold (\<lambda>r. AList.update (rd_from r @ u '' -> '' @ rd_to r) (rd_join_sql r))
                          (sch_relationships cfg) [])
                 in if violations = [] then None else Some (Broken_invariants violations)))
      else None)"

definition proposal ::
    "config_env \<Rightarrow> ustr \<Rightarrow> (ustr, ustr) odict \<Rightarrow> version_row \<Rightarrow> nat \<Rightarrow> principal \<Rightarrow> nat \<Rightarrow> version_error + version_row" where
  "proposal C stamp files active based_on actor v =
     (let content = vr_content active ++ map_of files
      in case validate_bundle C content of
           Some e \<Rightarrow> Inl e
         | None \<Rightarrow>
             (case check_invariants C files content of
                Some e \<Rightarrow> Inl e
              | None \<Rightarrow>
                  (case diff_bundles C (vr_content active) content of
                     Inl e \<Rightarrow> Inl e
                   | Inr diff \<Rightarrow>
                       (case dry_run_bundle C content of
                          Inl e \<Rightarrow> Inl e
                        | Inr dry \<Rightarrow>
                            (let schema_changed = security_only_files \<inter> set (bd_files diff) \<noteq> {};
                                 draft = schema_changed \<and> security_capability \<notin> pr_capabilities actor
                             in Inr \<lparr>vr_id = v, vr_status = (if draft then Draft else Applied),
                                   vr_content = content, vr_hash = cv_hash C content,
                                   vr_based_on = Some based_on, vr_restored_from = None,
                                   vr_restored_file = None, vr_created_at = stamp, vr_created_by = pr_id actor,
                                   vr_capability = (if \<not> draft \<and> schema_changed then security_capability
                                                    else operations_capability),
                                   vr_reviewed_by = None, vr_reviewed_at = None, vr_review_note = None,
                                   vr_diff = Some diff, vr_dry_run = Some dry\<rparr>)))))"

text \<open>The transaction up to its insert: the row it will insert, or the exception.\<close>

definition prepare ::
    "config_env \<Rightarrow> ustr \<Rightarrow> (ustr, ustr) odict \<Rightarrow> nat \<Rightarrow> principal \<Rightarrow> version_row list \<Rightarrow> version_error + version_row" where
  "prepare C stamp files based_on actor rows =
     (case active_row rows of
        None \<Rightarrow> Inl (Failed (u ''AssertionError''))
      | Some active \<Rightarrow>
          if vr_id active \<noteq> based_on then Inl (Stale_version based_on (vr_id active))
          else proposal C stamp files active based_on actor (Suc (length rows)))"

definition after_insert :: "config_env \<Rightarrow> version_row \<Rightarrow> config_store \<Rightarrow> config_store" where
  "after_insert C row st =
     (if vr_status row = Applied
      then take_effect C (vr_content row) (vr_id row)
             (case vr_diff row of None \<Rightarrow> [] | Some d \<Rightarrow> bd_files d) st
      else st)"

definition propose_or_apply ::
    "config_env \<Rightarrow> ustr \<Rightarrow> (ustr, ustr) odict \<Rightarrow> nat \<Rightarrow> principal \<Rightarrow> config_store
     \<Rightarrow> (version_error + version_row) \<times> config_store" where
  "propose_or_apply C stamp files based_on actor st =
     (let unknown = sorted_list_of_set (set (od_keys files) - set config_filenames);
          rows = bootstrapped C stamp st
      in if unknown \<noteq> [] then (Inl (Unknown_files unknown), st)
         else (case prepare C stamp files based_on actor rows of
                 Inl e \<Rightarrow> (Inl e, st)
               | Inr row \<Rightarrow> (Inr row, after_insert C row (st\<lparr>cs_rows := rows @ [row]\<rparr>))))"


section \<open>Restoring, approving, rejecting\<close>

definition update_row :: "nat \<Rightarrow> (version_row \<Rightarrow> version_row) \<Rightarrow> version_row list \<Rightarrow> version_row list" where
  "update_row v f rows = map (\<lambda>r. if vr_id r = v then f r else r) rows"

definition stamp_restore_provenance :: "nat \<Rightarrow> nat \<Rightarrow> ustr option \<Rightarrow> config_store \<Rightarrow> config_store" where
  "stamp_restore_provenance v from_version filename st =
     st\<lparr>cs_rows := update_row v (\<lambda>r. r\<lparr>vr_restored_from := Some from_version, vr_restored_file := filename\<rparr>)
                    (cs_rows st)\<rparr>"

definition content_items :: "config_files \<Rightarrow> (ustr, ustr) odict" where
  "content_items b = map (\<lambda>f. (f, file_text b f)) (filter (\<lambda>f. b f \<noteq> None) config_filenames)"

definition row_or_missing :: "version_row list \<Rightarrow> nat \<Rightarrow> version_error + version_row" where
  "row_or_missing rows v = (case find_row rows v of None \<Rightarrow> Inl (Version_not_found v) | Some r \<Rightarrow> Inr r)"

text \<open>
  The first transaction (bootstrap, active version, source row) commits before \<open>propose_or_apply\<close> opens
  its own.
\<close>

definition restore ::
    "config_env \<Rightarrow> ustr \<Rightarrow> nat \<Rightarrow> ustr option \<Rightarrow> principal \<Rightarrow> config_store
     \<Rightarrow> (version_error + version_row) \<times> config_store" where
  "restore C stamp from_version filename actor st =
     (if (case filename of None \<Rightarrow> False | Some f \<Rightarrow> f \<notin> set config_filenames)
      then (Inl (Unknown_files (case filename of None \<Rightarrow> [] | Some f \<Rightarrow> [f])), st)
      else let rows = bootstrapped C stamp st
           in case active_row rows of
                None \<Rightarrow> (Inl (Failed (u ''AssertionError'')), st)
              | Some active \<Rightarrow>
                  (case row_or_missing rows from_version of
                     Inl e \<Rightarrow> (Inl e, st)
                   | Inr source \<Rightarrow>
                       (let files = (case filename of
                               None \<Rightarrow> content_items (vr_content source)
                             | Some f \<Rightarrow> [(f, file_text (vr_content source) f)])
                        in case propose_or_apply C stamp files (vr_id active) actor (st\<lparr>cs_rows := rows\<rparr>) of
                             (Inl e, st') \<Rightarrow> (Inl e, st')
                           | (Inr row, st') \<Rightarrow>
                               (let st'' = stamp_restore_provenance (vr_id row) from_version filename st'
                                in (row_or_missing (cs_rows st'') (vr_id row), st'')))))"

definition approve_draft ::
    "config_env \<Rightarrow> ustr \<Rightarrow> nat \<Rightarrow> principal \<Rightarrow> config_store \<Rightarrow> (version_error + version_row) \<times> config_store" where
  "approve_draft C stamp v actor st =
     (case row_or_missing (cs_rows st) v of
        Inl e \<Rightarrow> (Inl e, st)
      | Inr draft \<Rightarrow>
          if vr_status draft \<noteq> Draft then (Inl (Not_a_draft v (vr_status draft)), st)
          else (case active_row (cs_rows st) of
                  None \<Rightarrow> (Inl (Failed (u ''AssertionError'')), st)
                | Some active \<Rightarrow>
                    if vr_based_on draft \<noteq> Some (vr_id active)
                    then (Inl (Stale_version (case vr_based_on draft of None \<Rightarrow> 0 | Some b \<Rightarrow> b) (vr_id active)), st)
                    else (let rows = update_row v (\<lambda>r. r\<lparr>vr_status := Applied, vr_reviewed_by := Some (pr_id actor),
                                vr_reviewed_at := Some stamp\<rparr>) (cs_rows st);
                              st' = take_effect C (vr_content draft) v
                                (case vr_diff draft of None \<Rightarrow> [] | Some d \<Rightarrow> bd_files d) (st\<lparr>cs_rows := rows\<rparr>)
                          in (row_or_missing rows v, st'))))"

definition reject_draft ::
    "ustr \<Rightarrow> nat \<Rightarrow> principal \<Rightarrow> ustr \<Rightarrow> config_store \<Rightarrow> (version_error + version_row) \<times> config_store" where
  "reject_draft stamp v actor reason st =
     (case row_or_missing (cs_rows st) v of
        Inl e \<Rightarrow> (Inl e, st)
      | Inr draft \<Rightarrow>
          if vr_status draft \<noteq> Draft then (Inl (Not_a_draft v (vr_status draft)), st)
          else (let rows = update_row v (\<lambda>r. r\<lparr>vr_status := Rejected_draft, vr_reviewed_by := Some (pr_id actor),
                      vr_reviewed_at := Some stamp, vr_review_note := Some reason\<rparr>) (cs_rows st)
                in (row_or_missing rows v, st\<lparr>cs_rows := rows\<rparr>)))"

definition export_active_version :: "config_env \<Rightarrow> ustr \<Rightarrow> config_store \<Rightarrow> version_error + nat \<times> config_store" where
  "export_active_version C stamp st =
     (case get_active_version C stamp st of
        (None, st') \<Rightarrow> Inl (Failed (u ''AssertionError''))
      | (Some r, st') \<Rightarrow> Inr (vr_id r, st'\<lparr>cs_export := Some (nine_files (vr_content r), vr_id r)\<rparr>))"

definition import_bundle_from_directory ::
    "config_env \<Rightarrow> ustr \<Rightarrow> config_files \<Rightarrow> principal \<Rightarrow> config_store \<Rightarrow> (version_error + version_row) \<times> config_store" where
  "import_bundle_from_directory C stamp source actor st =
     (case get_active_version C stamp st of
        (None, st') \<Rightarrow> (Inl (Failed (u ''AssertionError'')), st')
      | (Some r, st') \<Rightarrow>
          propose_or_apply C stamp (map (\<lambda>f. (f, file_text source f)) config_filenames) (vr_id r) actor st')"

section \<open>The routes\<close>

definition may_edit :: "principal \<Rightarrow> bool" where
  "may_edit p \<longleftrightarrow> operations_capability \<in> pr_capabilities p \<or> security_capability \<in> pr_capabilities p"

datatype config_request =
    Save "(ustr, ustr) odict" nat
  | Restore nat "ustr option"
  | Approve nat
  | Reject nat ustr
  | Export_now
  | Import_now
  | Read_active
  | Read_id int
  | Read_file ustr

definition as_result :: "(version_error + version_row) \<times> config_store \<Rightarrow> version_error option \<times> config_store" where
  "as_result r = ((case fst r of Inl e \<Rightarrow> Some e | Inr row \<Rightarrow> None), snd r)"

text \<open>
  A request of a principal. The last three are reads: of the active version, of its id by the request
  path, and of a knowledge module.
\<close>

definition handle ::
    "config_env \<Rightarrow> ustr \<Rightarrow> principal \<Rightarrow> config_request \<Rightarrow> config_store \<Rightarrow> version_error option \<times> config_store" where
  "handle C stamp p req st =
     (case req of
        Save files based_on \<Rightarrow>
          if \<not> may_edit p then (Some Not_permitted, st)
          else if files = [] then (Some No_files, st)
          else as_result (propose_or_apply C stamp files based_on p st)
      | Restore v filename \<Rightarrow>
          if \<not> may_edit p then (Some Not_permitted, st) else as_result (restore C stamp v filename p st)
      | Approve v \<Rightarrow>
          if \<not> is_security p then (Some Not_permitted, st) else as_result (approve_draft C stamp v p st)
      | Reject v reason \<Rightarrow>
          if \<not> is_security p then (Some Not_permitted, st) else as_result (reject_draft stamp v p reason st)
      | Export_now \<Rightarrow>
          if \<not> may_edit p then (Some Not_permitted, st)
          else if cv_export_dir C = [] then (Some No_export_dir, st)
          else (case export_active_version C stamp st of Inl e \<Rightarrow> (Some e, st) | Inr (v, st') \<Rightarrow> (None, st'))
      | Import_now \<Rightarrow>
          if \<not> may_edit p then (Some Not_permitted, st)
          else if cv_export_dir C = [] then (Some No_export_dir, st)
          else as_result (import_bundle_from_directory C stamp
                 (case cs_export st of None \<Rightarrow> Map.empty | Some (b, v) \<Rightarrow> b) p st)
      | Read_active \<Rightarrow> (None, snd (get_active_version C stamp st))
      | Read_id clock \<Rightarrow> (None, snd (get_active_version_id C stamp clock st))
      | Read_file f \<Rightarrow> (None, snd (read_knowledge f st)))"

text \<open>
  A process starts with empty caches on a new database; requests follow one another. \<open>caps\<close> are the
  capabilities a principal has.
\<close>

inductive reachable :: "config_env \<Rightarrow> (ustr \<Rightarrow> ustr set) \<Rightarrow> config_store \<Rightarrow> bool" for C caps where
  start: "reachable C caps \<lparr>cs_rows = [], cs_disk = disk, cs_export = exported, cs_loaded = Map.empty,
            cs_prefix = False, cs_version_id = None\<rparr>"
| request: "reachable C caps st \<Longrightarrow> pr_capabilities p = caps (pr_id p)
    \<Longrightarrow> reachable C caps (snd (handle C stamp p req st))"

end
