(* ===== verification/Config_History.thy ===== *)
theory Config_History
  imports Config_Versions Guard_Safety
begin

text \<open>
  What the versioned configuration guarantees: the applied versions form one history in which nothing is
  lost or rewritten, the active version is the one in effect, a new schema needs the security
  capability - and what two overlapping saves do to it.
\<close>

section \<open>One history\<close>

text \<open>Every applied version was made on top of the one before it.\<close>

fun chain :: "nat option \<Rightarrow> version_row list \<Rightarrow> bool" where
  "chain prev [] = True"
| "chain prev (r # rs) = (vr_based_on r = prev \<and> chain (Some (vr_id r)) rs)"

definition row_ok :: "version_row \<Rightarrow> bool" where
  "row_ok r \<longleftrightarrow> (case vr_based_on r of None \<Rightarrow> vr_status r = Applied | Some b \<Rightarrow> b < vr_id r)
     \<and> dom (vr_content r) = set config_filenames"

definition history_ok :: "version_row list \<Rightarrow> bool" where
  "history_ok rows \<longleftrightarrow> map vr_id rows = [1..<Suc (length rows)] \<and> chain None (applied_rows rows)
     \<and> (rows \<noteq> [] \<longrightarrow> applied_rows rows \<noteq> []) \<and> list_all row_ok rows"

lemma chain_snoc:
  "chain prev (rs @ [r]) \<longleftrightarrow> chain prev rs
     \<and> vr_based_on r = (if rs = [] then prev else Some (vr_id (last rs)))"
  by (induction rs arbitrary: prev) auto

lemma chain_cong:
  "list_all2 (\<lambda>r r'. vr_id r' = vr_id r \<and> vr_based_on r' = vr_based_on r) rs rs' \<Longrightarrow> chain prev rs' = chain prev rs"
  by (induction arbitrary: prev rule: list_all2_induct) auto

lemma applied_append: "applied_rows (xs @ ys) = applied_rows xs @ applied_rows ys"
  by (simp add: applied_rows_def)

lemma active_row_iff: "active_row rows = Some a \<longleftrightarrow> (\<exists>xs. applied_rows rows = xs @ [a])"
  by (auto simp: active_row_def) (metis append_butlast_last_id)

lemma active_in: "active_row rows = Some a \<Longrightarrow> a \<in> set rows \<and> vr_status a = Applied"
proof -
  assume "active_row rows = Some a"
  then obtain xs where "applied_rows rows = xs @ [a]" by (auto simp: active_row_iff)
  then have "a \<in> set (applied_rows rows)" by simp
  then show ?thesis by (simp add: applied_rows_def)
qed

lemma active_exists: "history_ok rows \<Longrightarrow> rows \<noteq> [] \<Longrightarrow> \<exists>a. active_row rows = Some a"
  by (auto simp: history_ok_def active_row_def)

lemma config_names: "schema_file \<in> set config_filenames" "distinct config_filenames"
  "knowledge_cache_files = set config_filenames - {schema_file}"
  by (auto simp: config_filenames_def schema_file_def knowledge_cache_files_def u_def)

lemma ids_of: "map vr_id rows = [1..<Suc (length rows)] \<Longrightarrow> i < length rows \<Longrightarrow> vr_id (rows ! i) = Suc i"
proof -
  assume "map vr_id rows = [1..<Suc (length rows)]" "i < length rows"
  then have "map vr_id rows ! i = [1..<Suc (length rows)] ! i" "i < length rows" by simp_all
  then show ?thesis by (simp add: nth_upt del: upt_Suc)
qed

lemma find_row_id: "find_row rows v = Some r \<Longrightarrow> r \<in> set rows \<and> vr_id r = v"
  unfolding find_row_def by (metis (mono_tags, lifting) find_Some_iff nth_mem)

text \<open>A row for a new version.\<close>

lemma history_insert:
  assumes h: "history_ok rows" and a: "active_row rows = Some a"
    and row: "vr_id row = Suc (length rows)" "vr_based_on row = Some (vr_id a)" "dom (vr_content row) = set config_filenames"
  shows "history_ok (rows @ [row])"
proof -
  obtain xs where xs: "applied_rows rows = xs @ [a]" using a by (auto simp: active_row_iff)
  have "vr_id a < vr_id row"
    using h active_in [OF a] row(1) unfolding history_ok_def
    by (metis in_set_conv_nth ids_of Suc_less_eq)
  moreover have "chain None ((xs @ [a]) @ [row])"
    using h xs row(2) unfolding chain_snoc [of None "xs @ [a]"] by (simp add: history_ok_def)
  moreover have "applied_rows [row] = (if vr_status row = Applied then [row] else [])" by (simp add: applied_rows_def)
  ultimately show ?thesis
    using h xs row by (auto simp: history_ok_def applied_append row_ok_def)
qed

text \<open>A change of one row.\<close>

lemma update_row_at:
  assumes ids: "map vr_id rows = [1..<Suc (length rows)]" and r: "find_row rows v = Some r"
  obtains xs ys where "rows = xs @ [r] @ ys" "\<And>f. update_row v f rows = xs @ [f r] @ ys"
    "\<forall>x \<in> set xs. vr_id x < v" "\<forall>y \<in> set ys. v < vr_id y"
proof -
  from find_row_id [OF r] obtain i where i: "i < length rows" "rows ! i = r" "vr_id r = v"
    by (auto simp: in_set_conv_nth)
  have v: "v = Suc i" using ids_of [OF ids i(1)] i by simp
  define xs ys where "xs = take i rows" and "ys = drop (Suc i) rows"
  have rows: "rows = xs @ [r] @ ys" using id_take_nth_drop [OF i(1)] i(2) by (simp add: xs_def ys_def)
  have xs: "\<forall>x \<in> set xs. vr_id x < v"
    using ids_of [OF ids] i(1) v by (auto simp: xs_def in_set_conv_nth)
  have ys: "\<forall>y \<in> set ys. v < vr_id y"
    using ids_of [OF ids] v by (auto simp: ys_def in_set_conv_nth)
  have "update_row v f rows = xs @ [f r] @ ys" for f
    using xs ys i(3) unfolding rows update_row_def by (auto intro!: map_idI)
  with that rows xs ys show thesis by blast
qed

definition keeps_row :: "(version_row \<Rightarrow> version_row) \<Rightarrow> bool" where
  "keeps_row f \<longleftrightarrow> (\<forall>r. vr_id (f r) = vr_id r \<and> vr_based_on (f r) = vr_based_on r \<and> vr_content (f r) = vr_content r)"

lemma history_update_inactive:
  assumes h: "history_ok rows" and r: "find_row rows v = Some r" and f: "keeps_row f"
    and st: "vr_status r = Draft" "vr_status (f r) = Rejected_draft"
  shows "history_ok (update_row v f rows)" "applied_rows (update_row v f rows) = applied_rows rows"
proof -
  have ids: "map vr_id rows = [1..<Suc (length rows)]" using h by (simp add: history_ok_def)
  obtain xs ys where rows: "rows = xs @ [r] @ ys" and up: "update_row v f rows = xs @ [f r] @ ys"
    using update_row_at [OF ids r] by metis
  show ap: "applied_rows (update_row v f rows) = applied_rows rows"
    unfolding up unfolding rows by (simp add: applied_rows_def st)
  have "row_ok (f r)" if "row_ok r" using that f st by (auto simp: row_ok_def keeps_row_def split: option.splits)
  moreover have "map vr_id (update_row v f rows) = map vr_id rows"
    unfolding up unfolding rows using f by (simp add: keeps_row_def)
  moreover have "length (update_row v f rows) = length rows" by (simp add: update_row_def)
  ultimately show "history_ok (update_row v f rows)"
    using h ap rows up by (auto simp: history_ok_def)
qed

lemma history_restamp:
  assumes h: "history_ok rows" and f: "keeps_row f" "\<And>r. vr_status (f r) = vr_status r"
  shows "history_ok (update_row v f rows)"
    "applied_rows (update_row v f rows) = update_row v f (applied_rows rows)"
proof -
  show ap: "applied_rows (update_row v f rows) = update_row v f (applied_rows rows)"
    by (induction rows) (auto simp: update_row_def applied_rows_def f(2))
  have l: "list_all2 (\<lambda>r r'. vr_id r' = vr_id r \<and> vr_based_on r' = vr_based_on r) rs (update_row v f rs)" for rs
    using f(1) by (induction rs) (auto simp: update_row_def keeps_row_def)
  have "map vr_id (update_row v f rows) = map vr_id rows"
    using f(1) by (induction rows) (auto simp: update_row_def keeps_row_def)
  moreover have "list_all row_ok (update_row v f rows)"
  proof -
    have "row_ok (f r) = row_ok r" for r using f by (simp add: row_ok_def keeps_row_def split: option.split)
    then show ?thesis using h by (auto simp: history_ok_def list_all_iff update_row_def)
  qed
  ultimately show "history_ok (update_row v f rows)"
    using h chain_cong [OF l] by (auto simp: history_ok_def ap) (auto simp: update_row_def)
qed

lemma history_approve:
  assumes h: "history_ok rows" and r: "find_row rows v = Some r" and f: "keeps_row f"
    and st: "vr_status r = Draft" "vr_status (f r) = Applied"
    and a: "active_row rows = Some a" "vr_based_on r = Some (vr_id a)"
  shows "history_ok (update_row v f rows)" "active_row (update_row v f rows) = Some (f r)"
proof -
  have ids: "map vr_id rows = [1..<Suc (length rows)]" using h by (simp add: history_ok_def)
  obtain xs ys where rows: "rows = xs @ [r] @ ys" and up: "update_row v f rows = xs @ [f r] @ ys"
    and ord: "\<forall>y \<in> set ys. v < vr_id y" using update_row_at [OF ids r] by metis
  have rk: "row_ok r" using h rows by (simp add: history_ok_def)
  then have lt: "vr_id a < v" using a(2) find_row_id [OF r] by (auto simp: row_ok_def)
  obtain zs where zs: "applied_rows rows = zs @ [a]" using a(1) by (auto simp: active_row_iff)
  have none: "applied_rows ys = []"
  proof (rule ccontr)
    assume "applied_rows ys \<noteq> []"
    have "applied_rows rows = applied_rows (xs @ [r]) @ applied_rows ys" unfolding rows by (simp add: applied_rows_def)
    then have "last (applied_rows rows) = last (applied_rows ys)" using \<open>applied_rows ys \<noteq> []\<close> by simp
    then have "a \<in> set (applied_rows ys)" using zs \<open>applied_rows ys \<noteq> []\<close> by simp
    then have "v < vr_id a" using ord by (auto simp: applied_rows_def)
    with lt show False by simp
  qed
  have old: "applied_rows xs = zs @ [a]"
    using zs none unfolding rows applied_append by (simp add: applied_rows_def st)
  have new: "applied_rows (update_row v f rows) = (zs @ [a]) @ [f r]"
    unfolding up applied_append none old by (simp add: applied_rows_def st)
  have "chain None (zs @ [a])" using h zs by (simp add: history_ok_def)
  then have "chain None ((zs @ [a]) @ [f r])" unfolding chain_snoc [of None "zs @ [a]"] using a(2) f by (simp add: keeps_row_def)
  moreover have "row_ok (f r)" using rk f st by (auto simp: row_ok_def keeps_row_def split: option.splits)
  moreover have "map vr_id (update_row v f rows) = map vr_id rows"
    unfolding up unfolding rows using f by (simp add: keeps_row_def)
  moreover have "length (update_row v f rows) = length rows" by (simp add: update_row_def)
  ultimately show "history_ok (update_row v f rows)"
    using h new rows up by (auto simp: history_ok_def)
  show "active_row (update_row v f rows) = Some (f r)" unfolding active_row_iff new by blast
qed

section \<open>What is in effect\<close>

definition in_effect :: "config_store \<Rightarrow> bool" where
  "in_effect st \<longleftrightarrow>
     (\<forall>f t. cs_loaded st f = Some t \<longrightarrow> f \<in> knowledge_cache_files \<and> t = file_text (cs_disk st) f)
     \<and> (\<forall>a. active_row (cs_rows st) = Some a \<longrightarrow>
          (\<forall>f \<in> set config_filenames. file_text (cs_disk st) f = file_text (vr_content a) f))
     \<and> (\<forall>v c. cs_version_id st = Some (v, c) \<longrightarrow> (\<exists>a. active_row (cs_rows st) = Some a \<and> vr_id a = v))"

text \<open>The recorded diff of a version is the one against the version it was made on.\<close>

definition diffs_ok :: "version_row list \<Rightarrow> bool" where
  "diffs_ok rows \<longleftrightarrow> (\<forall>r \<in> set rows. \<forall>b. vr_based_on r = Some b \<longrightarrow>
     (\<exists>base d. find_row rows b = Some base \<and> vr_diff r = Some d
        \<and> bd_files d = files_changed (vr_content base) (vr_content r)))"

definition sound :: "config_store \<Rightarrow> bool" where
  "sound st \<longleftrightarrow> history_ok (cs_rows st) \<and> diffs_ok (cs_rows st) \<and> in_effect st"

lemma find_row_append: "find_row (xs @ ys) v = (case find_row xs v of None \<Rightarrow> find_row ys v | Some r \<Rightarrow> Some r)"
  by (induction xs) (auto simp: find_row_def)

lemma find_row_update:
  "keeps_row f \<Longrightarrow> find_row (update_row v f rows) w = map_option (\<lambda>r. if vr_id r = v then f r else r) (find_row rows w)"
  by (induction rows) (auto simp: find_row_def update_row_def keeps_row_def)

lemma find_row_member:
  assumes "history_ok rows" "r \<in> set rows"
  shows "find_row rows (vr_id r) = Some r"
proof -
  have "distinct (map vr_id rows)" using assms(1) unfolding history_ok_def by simp
  then show ?thesis using assms(2) by (induction rows) (auto simp: find_row_def)
qed

lemma diffs_insert:
  assumes "diffs_ok rows" "history_ok rows" "active_row rows = Some a" "vr_based_on row = Some (vr_id a)"
    "\<exists>d. vr_diff row = Some d \<and> bd_files d = files_changed (vr_content a) (vr_content row)"
  shows "diffs_ok (rows @ [row])"
proof -
  have "find_row rows (vr_id a) = Some a" using find_row_member [OF assms(2)] active_in [OF assms(3)] by blast
  with assms show ?thesis by (fastforce simp: diffs_ok_def find_row_append)
qed

lemma diffs_update:
  assumes "diffs_ok rows" "keeps_row f" "\<And>r. vr_diff (f r) = vr_diff r"
  shows "diffs_ok (update_row v f rows)"
  unfolding diffs_ok_def
proof (intro ballI allI impI)
  fix r' b assume "r' \<in> set (update_row v f rows)" "vr_based_on r' = Some b"
  then obtain r where r: "r \<in> set rows" "r' = (if vr_id r = v then f r else r)" by (auto simp: update_row_def)
  have same: "vr_based_on r' = vr_based_on r" "vr_content r' = vr_content r" "vr_diff r' = vr_diff r"
    using r(2) assms(2,3) by (auto simp: keeps_row_def)
  then obtain base d where b: "find_row rows b = Some base" "vr_diff r = Some d"
      "bd_files d = files_changed (vr_content base) (vr_content r)"
    using assms(1) r(1) \<open>vr_based_on r' = Some b\<close> unfolding diffs_ok_def by metis
  have "vr_content (if vr_id base = v then f base else base) = vr_content base" using assms(2) by (simp add: keeps_row_def)
  then show "\<exists>base d. find_row (update_row v f rows) b = Some base \<and> vr_diff r' = Some d
      \<and> bd_files d = files_changed (vr_content base) (vr_content r')"
    using b same by (auto simp: find_row_update [OF assms(2)])
qed

lemma take_effect_simps [simp]:
  "cs_rows (take_effect C files v changed st) = cs_rows st"
  "cs_version_id (take_effect C files v changed st) = None"
  "cs_disk (take_effect C files v changed st) f
     = (if f \<in> set config_filenames then Some (file_text files f) else cs_disk st f)"
  "cs_loaded (take_effect C files v changed st) f
     = (if f \<in> set changed \<inter> knowledge_cache_files then None else cs_loaded st f)"
  by (simp_all add: take_effect_def invalidate_runtime_caches_def write_export_def write_bundle_to_disk_def)

text \<open>Caches are cleared for the changed files only: that is enough while the disk holds the old content.\<close>

lemma take_effect_ok:
  assumes old: "in_effect st" and new: "active_row rows = Some r"
    and changed: "\<And>f. f \<in> knowledge_cache_files \<Longrightarrow> f \<notin> set changed \<Longrightarrow> file_text (vr_content r) f = file_text (cs_disk st) f"
  shows "in_effect (take_effect C (vr_content r) v changed (st\<lparr>cs_rows := rows\<rparr>))"
proof -
  have names: "f \<in> set config_filenames" if "f \<in> knowledge_cache_files" for f using that config_names(3) by auto
  have "file_text (cs_disk (take_effect C (vr_content r) v changed (st\<lparr>cs_rows := rows\<rparr>))) f = file_text (vr_content r) f"
    if "f \<in> set config_filenames" for f
    using that by (simp add: file_text_def)
  then show ?thesis
    using old new changed names by (auto simp: in_effect_def)
qed

lemma bootstrapped_ok:
  assumes "sound st"
  shows "sound (st\<lparr>cs_rows := bootstrapped C stamp st\<rparr>)" "bootstrapped C stamp st \<noteq> []"
proof -
  show "sound (st\<lparr>cs_rows := bootstrapped C stamp st\<rparr>)"
  proof (cases "cs_rows st = []")
    case True
    have d: "dom (nine_files (cs_disk st)) = set config_filenames" by (auto simp: nine_files_def dom_def split: if_splits)
    have v: "cs_version_id st = None"
      using assms True by (cases "cs_version_id st") (auto simp: sound_def in_effect_def active_row_def applied_rows_def)
    have "history_ok (bootstrapped C stamp st)"
      using True d by (simp add: bootstrapped_def history_ok_def applied_rows_def row_ok_def bootstrap_row_def)
    moreover have "diffs_ok (bootstrapped C stamp st)"
      using True by (simp add: bootstrapped_def diffs_ok_def bootstrap_row_def)
    ultimately show ?thesis
      using assms True v
      by (auto simp: sound_def in_effect_def bootstrapped_def active_row_def applied_rows_def bootstrap_row_def
          nine_files_def file_text_def)
  next
    case False
    then have "st\<lparr>cs_rows := bootstrapped C stamp st\<rparr> = st" by (simp add: bootstrapped_def)
    with assms show ?thesis by simp
  qed
qed (simp add: bootstrapped_def)

text \<open>The rows a proposal inserts.\<close>

lemma prepare_row:
  assumes "prepare C stamp files b actor rows = Inr row" "set (od_keys files) \<subseteq> set config_filenames"
    and h: "history_ok rows"
  obtains a where "active_row rows = Some a" "vr_id a = b" "vr_id row = Suc (length rows)"
    "vr_based_on row = Some (vr_id a)" "vr_content row = vr_content a ++ map_of files"
    "dom (vr_content row) = set config_filenames"
    "vr_status row = Draft \<longleftrightarrow> file_text (vr_content row) schema_file \<noteq> file_text (vr_content a) schema_file
       \<and> security_capability \<notin> pr_capabilities actor"
    "vr_status row = Draft \<or> vr_status row = Applied" "vr_created_by row = pr_id actor" "vr_reviewed_by row = None"
    "\<exists>d. vr_diff row = Some d \<and> bd_files d = files_changed (vr_content a) (vr_content row)"
    "vr_hash row = cv_hash C (vr_content row)"
proof -
  from assms(1) obtain a where a: "active_row rows = Some a" "vr_id a = b"
    and p: "proposal C stamp files a b actor (Suc (length rows)) = Inr row"
    by (auto simp: prepare_def split: option.splits if_splits)
  have "dom (vr_content a) = set config_filenames"
    using h active_in [OF a(1)] by (auto simp: history_ok_def list_all_iff row_ok_def)
  then have d: "dom (vr_content a ++ map_of files) = set config_filenames"
    using assms(2) by (auto simp: dom_map_of_conv_image_fst od_keys_def)
  obtain diff dry where diff: "diff_bundles C (vr_content a) (vr_content a ++ map_of files) = Inr diff"
    and dry: "dry_run_bundle C (vr_content a ++ map_of files) = Inr dry"
    using p by (auto simp: proposal_def Let_def split: option.splits sum.splits)
  have fc: "bd_files diff = files_changed (vr_content a) (vr_content a ++ map_of files)"
    using diff by (auto simp: diff_bundles_def Let_def split: if_splits sum.splits simp: map_sum_def)
  have sc: "security_only_files \<inter> set (bd_files diff) \<noteq> {}
      \<longleftrightarrow> file_text (vr_content a ++ map_of files) schema_file \<noteq> file_text (vr_content a) schema_file"
    unfolding fc by (auto simp: security_only_files_def files_changed_def config_names(1))
  define draft where "draft \<longleftrightarrow> file_text (vr_content a ++ map_of files) schema_file \<noteq> file_text (vr_content a) schema_file
    \<and> security_capability \<notin> pr_capabilities actor"
  have "vr_id row = Suc (length rows) \<and> vr_based_on row = Some (vr_id a) \<and> vr_content row = vr_content a ++ map_of files
    \<and> vr_status row = (if draft then Draft else Applied) \<and> vr_created_by row = pr_id actor
    \<and> vr_reviewed_by row = None \<and> vr_diff row = Some diff \<and> vr_hash row = cv_hash C (vr_content a ++ map_of files)"
    using p sc a(2) unfolding proposal_def Let_def diff dry by (auto simp: draft_def split: option.splits)
  then show thesis
    using that [OF a] d fc by (auto simp: draft_def split: if_splits)
qed

lemma prepared_unstamped:
  assumes "prepare C stamp files b actor rows = Inr row"
  shows "row\<lparr>vr_restored_from := None, vr_restored_file := None\<rparr> = row"
  using assms by (auto simp: prepare_def proposal_def Let_def split: option.splits sum.splits if_splits)

section \<open>Every request keeps it\<close>

lemma insert_ok:
  assumes ok: "sound st" and rows: "history_ok rows" and e: "in_effect (st\<lparr>cs_rows := rows\<rparr>)"
    and dr: "diffs_ok rows"
    and p: "prepare C stamp files b actor rows = Inr row" and names: "set (od_keys files) \<subseteq> set config_filenames"
  shows "sound (after_insert C row (st\<lparr>cs_rows := rows @ [row]\<rparr>))"
    "cs_rows (after_insert C row (st\<lparr>cs_rows := rows @ [row]\<rparr>)) = rows @ [row]"
proof -
  obtain a where a: "active_row rows = Some a" "vr_id row = Suc (length rows)" "vr_based_on row = Some (vr_id a)"
    "dom (vr_content row) = set config_filenames" "vr_status row = Draft \<or> vr_status row = Applied"
    and d: "\<exists>d. vr_diff row = Some d \<and> bd_files d = files_changed (vr_content a) (vr_content row)"
    using prepare_row [OF p names rows] by metis
  show r: "cs_rows (after_insert C row (st\<lparr>cs_rows := rows @ [row]\<rparr>)) = rows @ [row]"
    by (simp add: after_insert_def)
  have h: "history_ok (rows @ [row])" "diffs_ok (rows @ [row])"
    by (rule history_insert [OF rows a(1-4)], rule diffs_insert [OF dr rows a(1,3) d])
  show "sound (after_insert C row (st\<lparr>cs_rows := rows @ [row]\<rparr>))"
  proof (cases "vr_status row = Applied")
    case False
    then have "active_row (rows @ [row]) = active_row rows" by (simp add: active_row_def applied_rows_def)
    with False e h show ?thesis by (auto simp: sound_def after_insert_def in_effect_def)
  next
    case True
    have new: "active_row (rows @ [row]) = Some row" using True by (simp add: active_row_def applied_rows_def)
    have disk: "file_text (cs_disk st) f = file_text (vr_content a) f" if "f \<in> set config_filenames" for f
      using e a(1) that by (auto simp: in_effect_def)
    obtain dd where dd: "vr_diff row = Some dd" "bd_files dd = files_changed (vr_content a) (vr_content row)"
      using d by blast
    have "in_effect (take_effect C (vr_content row) (vr_id row) (bd_files dd) ((st\<lparr>cs_rows := rows\<rparr>)\<lparr>cs_rows := rows @ [row]\<rparr>))"
      by (rule take_effect_ok [OF e new]) (simp add: disk dd(2) config_names(3) files_changed_def)
    with True dd h show ?thesis by (simp add: sound_def after_insert_def)
  qed
qed

lemma propose_ok:
  assumes ok: "sound st" and p: "propose_or_apply C stamp files b actor st = (res, st')"
  shows "sound st'" and "(\<exists>e. res = Inl e \<and> st' = st) \<or> (\<exists>row. res = Inr row
    \<and> prepare C stamp files b actor (bootstrapped C stamp st) = Inr row \<and> set (od_keys files) \<subseteq> set config_filenames
    \<and> cs_rows st' = bootstrapped C stamp st @ [row])"
proof -
  note bs = bootstrapped_ok(1) [OF ok, of C stamp, unfolded sound_def, simplified]
  show "(\<exists>e. res = Inl e \<and> st' = st) \<or> (\<exists>row. res = Inr row
    \<and> prepare C stamp files b actor (bootstrapped C stamp st) = Inr row \<and> set (od_keys files) \<subseteq> set config_filenames
    \<and> cs_rows st' = bootstrapped C stamp st @ [row])"
  proof -
    define U where "U = sorted_list_of_set (set (od_keys files) - set config_filenames)"
    have sub: "set (od_keys files) \<subseteq> set config_filenames \<longleftrightarrow> U = []"
      by (auto simp: U_def sorted_list_of_set_eq_Nil_iff)
    note p' = p [unfolded propose_or_apply_def Let_def, folded U_def]
    show ?thesis
    proof (cases "U = []")
      case True
      show ?thesis
      proof (cases "prepare C stamp files b actor (bootstrapped C stamp st)")
        case (Inl e)
        then have "res = Inl e" "st' = st" using p' True by simp_all
        then show ?thesis by blast
      next
        case (Inr row)
        then have "res = Inr row" "st' = after_insert C row (st\<lparr>cs_rows := bootstrapped C stamp st @ [row]\<rparr>)"
          using p' True by simp_all
        then show ?thesis using Inr True sub by (simp add: after_insert_def)
      qed
    next
      case False
      then have "res = Inl (Unknown_files U)" "st' = st" using p' by simp_all
      then show ?thesis by blast
    qed
  qed
  then show "sound st'"
  proof (elim disjE exE conjE)
    fix row assume r: "prepare C stamp files b actor (bootstrapped C stamp st) = Inr row"
      and names: "set (od_keys files) \<subseteq> set config_filenames" and res: "res = Inr row"
    have "st' = after_insert C row (st\<lparr>cs_rows := bootstrapped C stamp st @ [row]\<rparr>)"
      using p r res by (auto simp: propose_or_apply_def Let_def split: if_splits)
    with insert_ok(1) [OF ok _ _ _ r names] bs show ?thesis by simp
  qed (use ok in simp)
qed

lemma restamp_ok:
  assumes "sound st"
  shows "sound (stamp_restore_provenance v w f st)"
proof -
  define g :: "version_row \<Rightarrow> version_row" where "g = (\<lambda>r. r\<lparr>vr_restored_from := Some w, vr_restored_file := f\<rparr>)"
  have g: "keeps_row g" "\<And>r. vr_status (g r) = vr_status r" by (simp_all add: keeps_row_def g_def)
  have "history_ok (cs_rows st)" using assms by (simp add: sound_def)
  note h = history_restamp [OF this g, of v]
  have act: "active_row (update_row v g (cs_rows st))
      = map_option (\<lambda>a. if vr_id a = v then g a else a) (active_row (cs_rows st))"
    unfolding active_row_def h(2) by (simp add: update_row_def last_map)
  have "diffs_ok (update_row v g (cs_rows st))"
    by (rule diffs_update) (use assms g in \<open>simp_all add: sound_def g_def\<close>)
  moreover have "in_effect (st\<lparr>cs_rows := update_row v g (cs_rows st)\<rparr>)"
  proof (cases "active_row (cs_rows st)")
    case (Some a)
    then have new: "active_row (update_row v g (cs_rows st)) = Some (if vr_id a = v then g a else a)" using act by simp
    show ?thesis
      using assms g Some by (auto simp: sound_def in_effect_def new keeps_row_def)
  qed (use assms act in \<open>auto simp: sound_def in_effect_def\<close>)
  ultimately show ?thesis
    using h(1) by (simp add: sound_def stamp_restore_provenance_def g_def)
qed

lemma approve_ok:
  assumes ok: "sound st" and a: "approve_draft C stamp v actor st = (res, st')"
  shows "sound st'"
    "st' = st \<or> (\<exists>r a. find_row (cs_rows st) v = Some r \<and> vr_status r = Draft
       \<and> active_row (cs_rows st) = Some a \<and> vr_based_on r = Some (vr_id a)
       \<and> cs_rows st' = update_row v (\<lambda>r. r\<lparr>vr_status := Applied, vr_reviewed_by := Some (pr_id actor),
           vr_reviewed_at := Some stamp\<rparr>) (cs_rows st))"
proof -
  define g :: "version_row \<Rightarrow> version_row" where "g = (\<lambda>r. r\<lparr>vr_status := Applied, vr_reviewed_by := Some (pr_id actor), vr_reviewed_at := Some stamp\<rparr>)"
  have g: "keeps_row g" "\<And>r. vr_status (g r) = Applied" by (simp_all add: keeps_row_def g_def)
  have h: "history_ok (cs_rows st)" using ok by (simp add: sound_def)
  show "st' = st \<or> (\<exists>r a. find_row (cs_rows st) v = Some r \<and> vr_status r = Draft
       \<and> active_row (cs_rows st) = Some a \<and> vr_based_on r = Some (vr_id a)
       \<and> cs_rows st' = update_row v (\<lambda>r. r\<lparr>vr_status := Applied, vr_reviewed_by := Some (pr_id actor),
           vr_reviewed_at := Some stamp\<rparr>) (cs_rows st))"
    using a by (auto simp: approve_draft_def row_or_missing_def Let_def split: option.splits if_splits)
  show "sound st'"
  proof (cases "st' = st")
    case False
    then obtain r act where r: "find_row (cs_rows st) v = Some r" "vr_status r = Draft"
      and act: "active_row (cs_rows st) = Some act" "vr_based_on r = Some (vr_id act)"
      and st': "st' = take_effect C (vr_content r) v (case vr_diff r of None \<Rightarrow> [] | Some d \<Rightarrow> bd_files d)
         (st\<lparr>cs_rows := update_row v g (cs_rows st)\<rparr>)"
      using a by (auto simp: approve_draft_def row_or_missing_def Let_def g_def split: option.splits if_splits)
    note ha = history_approve [OF h r(1) g(1) r(2) g(2) act]
    obtain d where d: "vr_diff r = Some d" "bd_files d = files_changed (vr_content act) (vr_content r)"
      using ok act(2) find_row_id [OF r(1)] find_row_member [OF h] active_in [OF act(1)]
      by (fastforce simp: sound_def diffs_ok_def)
    have disk: "file_text (cs_disk st) f = file_text (vr_content act) f" if "f \<in> set config_filenames" for f
      using ok act(1) that by (auto simp: sound_def in_effect_def)
    have "in_effect (take_effect C (vr_content (g r)) v (bd_files d) (st\<lparr>cs_rows := update_row v g (cs_rows st)\<rparr>))"
      by (rule take_effect_ok [OF _ ha(2)])
        (use ok in \<open>simp_all add: disk d(2) config_names(3) files_changed_def sound_def g_def\<close>)
    moreover have "diffs_ok (update_row v g (cs_rows st))"
      by (rule diffs_update) (use ok g in \<open>simp_all add: sound_def g_def\<close>)
    ultimately show ?thesis using ha(1) st' d(1) g by (simp add: sound_def keeps_row_def)
  qed (use ok in simp)
qed

lemma reject_ok:
  assumes ok: "sound st" and a: "reject_draft stamp v actor reason st = (res, st')"
  shows "sound st'"
    "st' = st \<or> (\<exists>r. find_row (cs_rows st) v = Some r \<and> vr_status r = Draft
       \<and> cs_rows st' = update_row v (\<lambda>r. r\<lparr>vr_status := Rejected_draft, vr_reviewed_by := Some (pr_id actor),
           vr_reviewed_at := Some stamp, vr_review_note := Some reason\<rparr>) (cs_rows st))"
proof -
  define g :: "version_row \<Rightarrow> version_row" where "g = (\<lambda>r. r\<lparr>vr_status := Rejected_draft,
    vr_reviewed_by := Some (pr_id actor), vr_reviewed_at := Some stamp, vr_review_note := Some reason\<rparr>)"
  have g: "keeps_row g" "\<And>r. vr_status (g r) = Rejected_draft" by (simp_all add: keeps_row_def g_def)
  have h: "history_ok (cs_rows st)" using ok by (simp add: sound_def)
  have c: "st' = st \<or> (\<exists>r. find_row (cs_rows st) v = Some r \<and> vr_status r = Draft
       \<and> st' = st\<lparr>cs_rows := update_row v g (cs_rows st)\<rparr>)"
    using a by (auto simp: reject_draft_def row_or_missing_def Let_def g_def split: option.splits if_splits)
  then show "st' = st \<or> (\<exists>r. find_row (cs_rows st) v = Some r \<and> vr_status r = Draft
       \<and> cs_rows st' = update_row v (\<lambda>r. r\<lparr>vr_status := Rejected_draft, vr_reviewed_by := Some (pr_id actor),
           vr_reviewed_at := Some stamp, vr_review_note := Some reason\<rparr>) (cs_rows st))"
    by (auto simp: g_def)
  from c show "sound st'"
  proof (elim disjE exE conjE)
    fix r assume r: "find_row (cs_rows st) v = Some r" "vr_status r = Draft"
      and st': "st' = st\<lparr>cs_rows := update_row v g (cs_rows st)\<rparr>"
    note hr = history_update_inactive [OF h r(1) g(1) r(2) g(2)]
    have "diffs_ok (update_row v g (cs_rows st))"
      by (rule diffs_update) (use ok g in \<open>simp_all add: sound_def g_def\<close>)
    moreover have "active_row (update_row v g (cs_rows st)) = active_row (cs_rows st)"
      unfolding active_row_def hr(2) ..
    ultimately show ?thesis using ok hr(1) st' by (simp add: sound_def in_effect_def)
  qed (use ok in simp)
qed

section \<open>The steps of the table\<close>

inductive row_step :: "config_env \<Rightarrow> (ustr \<Rightarrow> ustr set) \<Rightarrow> version_row list \<Rightarrow> version_row list \<Rightarrow> bool" for C caps where
  boot: "row_step C caps [] [bootstrap_row C stamp (nine_files disk)]"
| add: "history_ok rows \<Longrightarrow> prepare C stamp files b p rows = Inr row
    \<Longrightarrow> set (od_keys files) \<subseteq> set config_filenames \<Longrightarrow> pr_capabilities p = caps (pr_id p)
    \<Longrightarrow> row_step C caps rows (rows @ [row\<lparr>vr_restored_from := w, vr_restored_file := f\<rparr>])"
| approve: "find_row rows v = Some r \<Longrightarrow> vr_status r = Draft \<Longrightarrow> security_capability \<in> caps (pr_id (p :: principal))
    \<Longrightarrow> active_row rows = Some a \<Longrightarrow> vr_based_on r = Some (vr_id a)
    \<Longrightarrow> row_step C caps rows (update_row v (\<lambda>r. r\<lparr>vr_status := Applied, vr_reviewed_by := Some (pr_id p),
          vr_reviewed_at := Some stamp\<rparr>) rows)"
| reject: "find_row rows v = Some r \<Longrightarrow> vr_status r = Draft \<Longrightarrow> security_capability \<in> caps (pr_id (p :: principal))
    \<Longrightarrow> row_step C caps rows (update_row v (\<lambda>r. r\<lparr>vr_status := Rejected_draft, vr_reviewed_by := Some (pr_id p),
          vr_reviewed_at := Some stamp, vr_review_note := Some reason\<rparr>) rows)"

abbreviation row_steps :: "config_env \<Rightarrow> (ustr \<Rightarrow> ustr set) \<Rightarrow> version_row list \<Rightarrow> version_row list \<Rightarrow> bool" where
  "row_steps C caps \<equiv> (row_step C caps)\<^sup>*\<^sup>*"

lemma boot_steps: "row_steps C caps (cs_rows st) (bootstrapped C stamp st)"
proof (cases "cs_rows st = []")
  case True
  then show ?thesis using row_step.boot [of C caps stamp "cs_disk st"] by (simp add: bootstrapped_def)
qed (simp add: bootstrapped_def)

lemma propose_steps:
  assumes ok: "sound st" and p: "propose_or_apply C stamp files b actor st = (res, st')"
    and caps: "pr_capabilities actor = caps (pr_id actor)"
  shows "row_steps C caps (cs_rows st) (cs_rows st')"
  using propose_ok(2) [OF ok p]
proof (elim disjE exE conjE)
  fix row assume r: "prepare C stamp files b actor (bootstrapped C stamp st) = Inr row"
    and names: "set (od_keys files) \<subseteq> set config_filenames" and st': "cs_rows st' = bootstrapped C stamp st @ [row]"
  have "history_ok (bootstrapped C stamp st)" using bootstrapped_ok(1) [OF ok] by (simp add: sound_def)
  from row_step.add [where caps = caps and w = None and f = None, OF this r names caps] prepared_unstamped [OF r]
  have "row_step C caps (bootstrapped C stamp st) (cs_rows st')" by (simp add: st')
  with boot_steps show ?thesis by (rule rtranclp.rtrancl_into_rtrancl)
qed simp

lemma restore_steps:
  assumes ok: "sound st" and p: "restore C stamp w f actor st = (res, st')"
    and caps: "pr_capabilities actor = caps (pr_id actor)"
  shows "sound st'" "row_steps C caps (cs_rows st) (cs_rows st')"
proof -
  define st1 where "st1 = st\<lparr>cs_rows := bootstrapped C stamp st\<rparr>"
  have ok1: "sound st1" "cs_rows st1 = bootstrapped C stamp st"
    using bootstrapped_ok(1) [OF ok] by (simp_all add: st1_def)
  have b1: "bootstrapped C stamp st1 = cs_rows st1"
    using bootstrapped_ok(2) [OF ok] by (simp add: st1_def bootstrapped_def)
  consider (same) "st' = st" | (failed) files b e where "propose_or_apply C stamp files b actor st1 = (Inl e, st')"
    | (stamped) files b row st2 where "propose_or_apply C stamp files b actor st1 = (Inr row, st2)"
        "st' = stamp_restore_provenance (vr_id row) w f st2"
    using p by (auto simp: restore_def Let_def st1_def split: option.splits sum.splits prod.splits if_splits)
  then have "sound st' \<and> row_steps C caps (cs_rows st) (cs_rows st')"
  proof cases
    case (failed files b e)
    with propose_ok(1) [OF ok1(1) failed] propose_ok(2) [OF ok1(1) failed] boot_steps ok1 show ?thesis by auto
  next
    case (stamped files b row st2)
    from propose_ok(2) [OF ok1(1) stamped(1)]
    have r: "prepare C stamp files b actor (cs_rows st1) = Inr row" and names: "set (od_keys files) \<subseteq> set config_filenames"
      and st2: "cs_rows st2 = cs_rows st1 @ [row]" using b1 by auto
    have h: "history_ok (cs_rows st1)" using ok1 by (simp add: sound_def)
    have "sound st2" by (rule propose_ok(1) [OF ok1(1) stamped(1)])
    have "vr_id row = Suc (length (cs_rows st1))" using prepare_row [OF r names h] by metis
    moreover have "\<forall>x \<in> set (cs_rows st1). vr_id x \<le> length (cs_rows st1)"
      using h ids_of [of "cs_rows st1"] by (auto simp: history_ok_def in_set_conv_nth)
    ultimately have "update_row (vr_id row) g (cs_rows st1 @ [row]) = cs_rows st1 @ [g row]" for g
      unfolding update_row_def by (auto intro!: map_idI)
    then have "row_step C caps (cs_rows st1) (cs_rows st')"
      using row_step.add [where caps = caps and w = "Some w" and f = f, OF h r names caps] by (simp add: stamped(2) st2 stamp_restore_provenance_def)
    with boot_steps [of C caps st stamp] have "row_steps C caps (cs_rows st) (cs_rows st')"
      unfolding ok1(2) by (rule rtranclp.rtrancl_into_rtrancl)
    then show ?thesis using restamp_ok [OF \<open>sound st2\<close>] stamped(2) by simp
  qed (use ok in simp)
  then show "sound st'" "row_steps C caps (cs_rows st) (cs_rows st')" by simp_all
qed

lemma read_steps:
  assumes ok: "sound st"
  shows "sound (snd (get_active_version C stamp st))" "row_steps C caps (cs_rows st) (cs_rows (snd (get_active_version C stamp st)))"
    "sound (snd (get_active_version_id C stamp clock st))"
    "row_steps C caps (cs_rows st) (cs_rows (snd (get_active_version_id C stamp clock st)))"
    "sound (snd (read_knowledge f st))" "cs_rows (snd (read_knowledge f st)) = cs_rows st"
proof -
  note b = bootstrapped_ok(1) [OF ok, of C stamp]
  show "sound (snd (get_active_version C stamp st))"
    "row_steps C caps (cs_rows st) (cs_rows (snd (get_active_version C stamp st)))"
    using b boot_steps by (simp_all add: get_active_version_def Let_def)
  have "sound (st\<lparr>cs_rows := bootstrapped C stamp st, cs_version_id := Some (vr_id r, clock)\<rparr>)"
    if "active_row (bootstrapped C stamp st) = Some r" for r
    using b that by (auto simp: sound_def in_effect_def)
  then show "sound (snd (get_active_version_id C stamp clock st))"
    "row_steps C caps (cs_rows st) (cs_rows (snd (get_active_version_id C stamp clock st)))"
    using ok boot_steps [of C caps st stamp]
    by (auto simp: get_active_version_id_def Let_def split: option.splits)
  show "sound (snd (read_knowledge f st))" "cs_rows (snd (read_knowledge f st)) = cs_rows st"
    using ok by (auto simp: read_knowledge_def sound_def in_effect_def split: option.splits)
qed

lemma import_steps:
  assumes ok: "sound st" and p: "import_bundle_from_directory C stamp source actor st = (res, st')"
    and caps: "pr_capabilities actor = caps (pr_id actor)"
  shows "sound st'" "row_steps C caps (cs_rows st) (cs_rows st')"
proof -
  obtain r st1 where g: "get_active_version C stamp st = (r, st1)" by (cases "get_active_version C stamp st")
  have one: "sound st1" "row_steps C caps (cs_rows st) (cs_rows st1)"
    using read_steps(1,2) [OF ok] g by (metis snd_conv)+
  then show "sound st'" "row_steps C caps (cs_rows st) (cs_rows st')"
    using p propose_ok(1) [OF one(1)] propose_steps [where caps = caps, OF one(1) _ caps]
    by (auto simp: import_bundle_from_directory_def g split: option.splits intro: rtranclp_trans)
qed

lemma handle_ok:
  assumes ok: "sound st" and caps: "pr_capabilities p = caps (pr_id p)"
  shows "sound (snd (handle C stamp p req st)) \<and> row_steps C caps (cs_rows st) (cs_rows (snd (handle C stamp p req st)))"
proof (cases req)
  case (Save files b)
  then show ?thesis
    using ok propose_ok(1) [OF ok surjective_pairing] propose_steps [where caps = caps, OF ok surjective_pairing caps]
    by (simp add: handle_def as_result_def)
next
  case (Restore v f)
  then show ?thesis
    using ok restore_steps [where caps = caps, OF ok surjective_pairing caps] by (simp add: handle_def as_result_def)
next
  case (Approve v)
  have "row_steps C caps (cs_rows st) (cs_rows (snd (approve_draft C stamp v p st)))" if "is_security p"
    using approve_ok(2) [OF ok surjective_pairing, of C stamp v p] row_step.approve that caps
    by (fastforce simp: is_security_def)
  with Approve ok approve_ok(1) [OF ok surjective_pairing] show ?thesis by (simp add: handle_def as_result_def)
next
  case (Reject v reason)
  have "row_steps C caps (cs_rows st) (cs_rows (snd (reject_draft stamp v p reason st)))" if "is_security p"
    using reject_ok(2) [OF ok surjective_pairing, of stamp v p reason] row_step.reject that caps
    by (fastforce simp: is_security_def)
  with Reject ok reject_ok(1) [OF ok surjective_pairing] show ?thesis by (simp add: handle_def as_result_def)
next
  case Export_now
  have "sound (s\<lparr>cs_export := x\<rparr>) = sound s" for s x by (simp add: sound_def in_effect_def)
  with Export_now ok read_steps(1) [OF ok, of C stamp] read_steps(2) [OF ok, of C caps stamp] show ?thesis
    by (auto simp: handle_def export_active_version_def split: prod.splits option.splits)
next
  case Import_now
  then show ?thesis
    using ok import_steps [where caps = caps, OF ok surjective_pairing caps] by (simp add: handle_def as_result_def)
qed (use read_steps [OF ok] in \<open>simp_all add: handle_def\<close>)

lemma reachable_ok: "reachable C caps st \<Longrightarrow> sound st \<and> row_steps C caps [] (cs_rows st)"
proof (induction rule: reachable.induct)
  case (start disk exported)
  show ?case
    by (simp add: sound_def history_ok_def applied_rows_def diffs_ok_def in_effect_def active_row_def)
next
  case (request st p stamp req)
  then show ?case using handle_ok [of st p caps] by (meson rtranclp_trans)
qed

section \<open>The guarantees\<close>



definition schema_authorised :: "(ustr \<Rightarrow> ustr set) \<Rightarrow> version_row list \<Rightarrow> bool" where
  "schema_authorised caps rows \<longleftrightarrow> (\<forall>r \<in> set rows. \<forall>b base. vr_status r = Applied \<longrightarrow> vr_based_on r = Some b
     \<longrightarrow> find_row rows b = Some base \<longrightarrow> file_text (vr_content r) schema_file \<noteq> file_text (vr_content base) schema_file
     \<longrightarrow> security_capability \<in> caps (vr_created_by r)
         \<or> (\<exists>w. vr_reviewed_by r = Some w \<and> security_capability \<in> caps w))"

lemma authorised_update:
  assumes "schema_authorised caps rows" "keeps_row f" "\<And>r. vr_created_by (f r) = vr_created_by r"
    and "\<And>r. vr_status (f r) = Applied \<Longrightarrow> \<exists>w. vr_reviewed_by (f r) = Some w \<and> security_capability \<in> caps w"
  shows "schema_authorised caps (update_row v f rows)"
  unfolding schema_authorised_def
proof (intro ballI allI impI)
  fix r' b base' assume h: "r' \<in> set (update_row v f rows)" "vr_status r' = Applied" "vr_based_on r' = Some b"
    "find_row (update_row v f rows) b = Some base'"
    "file_text (vr_content r') schema_file \<noteq> file_text (vr_content base') schema_file"
  obtain r where r: "r \<in> set rows" "r' = (if vr_id r = v then f r else r)" using h(1) by (auto simp: update_row_def)
  obtain base where base: "find_row rows b = Some base" "vr_content base' = vr_content base"
    using h(4) assms(2) by (auto simp: find_row_update [OF assms(2)] keeps_row_def split: if_splits)
  show "security_capability \<in> caps (vr_created_by r') \<or> (\<exists>w. vr_reviewed_by r' = Some w \<and> security_capability \<in> caps w)"
  proof (cases "vr_id r = v")
    case True
    with r h(2) assms(4) show ?thesis by simp
  next
    case False
    with assms(1) r h(2,3,5) base show ?thesis unfolding schema_authorised_def by metis
  qed
qed

lemma authorised_step:
  "row_step C caps rows rows' \<Longrightarrow> schema_authorised caps rows \<Longrightarrow> schema_authorised caps rows'"
proof (induction rule: row_step.induct)
  case (boot stamp disk)
  show ?case by (simp add: schema_authorised_def bootstrap_row_def)
next
  case (add rows stamp files b p row f w)
  obtain a where a: "active_row rows = Some a" "vr_id row = Suc (length rows)" "vr_based_on row = Some (vr_id a)"
      "vr_created_by row = pr_id p"
    and d: "vr_status row = Draft \<longleftrightarrow> file_text (vr_content row) schema_file \<noteq> file_text (vr_content a) schema_file
       \<and> security_capability \<notin> pr_capabilities p"
    using prepare_row [OF add(2,3,1)] by metis
  have here: "find_row rows (vr_id a) = Some a" using find_row_member [OF add(1)] active_in [OF a(1)] by blast
  have older: "find_row (rows @ [x]) b = find_row rows b" if "r \<in> set rows" "vr_based_on r = Some b" "vr_id x = Suc (length rows)" for r b x
  proof -
    have "vr_id r \<le> length rows"
      using add(1) that(1) ids_of by (fastforce simp: history_ok_def in_set_conv_nth)
    then have "b \<noteq> Suc (length rows)" using add(1) that(1,2) by (auto simp: history_ok_def list_all_iff row_ok_def)
    then have "find_row [x] b = None" using that(3) by (simp add: find_row_def)
    then show ?thesis by (simp add: find_row_append split: option.split)
  qed
  show ?case
    using add(5) a d add(4) here older
    by (auto simp: schema_authorised_def find_row_append)
next
  case (approve rows v r p a stamp)
  show ?case
    by (rule authorised_update [OF approve(6)]) (use approve(3) in \<open>auto simp: keeps_row_def\<close>)
next
  case (reject rows v r p reason stamp)
  show ?case by (rule authorised_update [OF reject(4)]) (auto simp: keeps_row_def)
qed

text \<open>
  C29. The split of roles: an applied version whose \<open>schema.yaml\<close> differs from that of the version it was made
  on was created, or reviewed, by a principal with the security capability.
\<close>

theorem schema_changes_need_security:
  assumes "reachable C caps st" "r \<in> set (cs_rows st)" "vr_status r = Applied" "vr_based_on r = Some b"
    "find_row (cs_rows st) b = Some base" "file_text (vr_content r) schema_file \<noteq> file_text (vr_content base) schema_file"
  shows "security_capability \<in> caps (vr_created_by r)
    \<or> (\<exists>w. vr_reviewed_by r = Some w \<and> security_capability \<in> caps w)"
proof -
  have "row_steps C caps [] (cs_rows st)" using reachable_ok [OF assms(1)] by blast
  then have "schema_authorised caps (cs_rows st)"
    by (induction rule: rtranclp_induct) (simp add: schema_authorised_def, erule authorised_step)
  with assms(2-6) show ?thesis unfolding schema_authorised_def by metis
qed

text \<open>What never changes in a row, and the one change of its status.\<close>

definition frozen :: "version_row \<Rightarrow> version_row \<Rightarrow> bool" where
  "frozen r r' \<longleftrightarrow> vr_id r' = vr_id r \<and> vr_content r' = vr_content r \<and> vr_hash r' = vr_hash r
     \<and> vr_based_on r' = vr_based_on r \<and> vr_restored_from r' = vr_restored_from r \<and> vr_restored_file r' = vr_restored_file r
     \<and> vr_created_at r' = vr_created_at r \<and> vr_created_by r' = vr_created_by r \<and> vr_capability r' = vr_capability r
     \<and> vr_diff r' = vr_diff r \<and> vr_dry_run r' = vr_dry_run r
     \<and> (vr_status r \<noteq> Draft \<longrightarrow> r' = r)"

definition kept :: "version_row list \<Rightarrow> version_row list \<Rightarrow> bool" where
  "kept rows rows' \<longleftrightarrow> (\<exists>old new. rows' = old @ new \<and> list_all2 frozen rows old)"

lemma frozen_refl: "frozen r r" by (simp add: frozen_def)

lemma frozen_trans: "frozen a b \<Longrightarrow> frozen b c \<Longrightarrow> frozen a c"
  unfolding frozen_def by metis

lemma kept_trans: "kept a b \<Longrightarrow> kept b c \<Longrightarrow> kept a c"
proof -
  assume "kept a b" "kept b c"
  then obtain o1 n1 o2 n2 where h: "b = o1 @ n1" "list_all2 frozen a o1" "c = o2 @ n2" "list_all2 frozen b o2"
    by (auto simp: kept_def)
  then obtain x y where xy: "o2 = x @ y" "list_all2 frozen o1 x" by (auto simp: list_all2_append1)
  have "list_all2 frozen a x" using list_all2_trans [OF _ h(2) xy(2)] frozen_trans by blast
  then show "kept a c" unfolding kept_def using h(3) xy(1) by (intro exI [of _ x] exI [of _ "y @ n2"]) simp
qed

lemma kept_update:
  assumes "history_ok rows" "find_row rows v = Some r" "frozen r (f r)"
  shows "kept rows (update_row v f rows)"
proof -
  have "frozen x (if vr_id x = v then f x else x)" if "x \<in> set rows" for x
    using find_row_member [OF assms(1) that] assms(2,3) frozen_refl by auto
  then have "list_all2 frozen rows (update_row v f rows)"
    unfolding update_row_def by (simp add: list_all2_conv_all_nth)
  then show ?thesis unfolding kept_def by (metis append_Nil2)
qed

lemma kept_by_step: "row_step C caps rows rows' \<Longrightarrow> history_ok rows \<Longrightarrow> kept rows rows' \<and> history_ok rows'"
proof (induction rule: row_step.induct)
  case (boot stamp disk)
  have "dom (nine_files disk) = set config_filenames" by (auto simp: nine_files_def dom_def split: if_splits)
  then show ?case by (simp add: kept_def history_ok_def applied_rows_def row_ok_def bootstrap_row_def)
next
  case (add rows stamp files b p row f w)
  obtain a where a: "active_row rows = Some a" "vr_id row = Suc (length rows)" "vr_based_on row = Some (vr_id a)"
      "dom (vr_content row) = set config_filenames"
    using prepare_row [OF add(2,3,1)] by metis
  have "kept rows (rows @ [x])" for x
    unfolding kept_def by (intro exI [of _ rows] exI [of _ "[x]"]) (simp add: list.rel_refl frozen_refl)
  moreover have "history_ok (rows @ [row\<lparr>vr_restored_from := w, vr_restored_file := f\<rparr>])"
    by (rule history_insert [OF add(1) a(1)]) (use a in simp_all)
  ultimately show ?case by blast
next
  case (approve rows v r p a stamp)
  have "history_ok (update_row v (\<lambda>r. r\<lparr>vr_status := Applied, vr_reviewed_by := Some (pr_id p),
          vr_reviewed_at := Some stamp\<rparr>) rows)"
    by (rule history_approve(1) [OF approve(6,1) _ approve(2) _ approve(4,5)]) (simp_all add: keeps_row_def)
  moreover have "kept rows (update_row v (\<lambda>r. r\<lparr>vr_status := Applied, vr_reviewed_by := Some (pr_id p),
          vr_reviewed_at := Some stamp\<rparr>) rows)"
    by (rule kept_update [OF approve(6,1)]) (simp add: frozen_def approve(2))
  ultimately show ?case by blast
next
  case (reject rows v r p reason stamp)
  have "history_ok (update_row v (\<lambda>r. r\<lparr>vr_status := Rejected_draft, vr_reviewed_by := Some (pr_id p),
          vr_reviewed_at := Some stamp, vr_review_note := Some reason\<rparr>) rows)"
    by (rule history_update_inactive(1) [OF reject(4,1) _ reject(2)]) (simp_all add: keeps_row_def)
  moreover have "kept rows (update_row v (\<lambda>r. r\<lparr>vr_status := Rejected_draft, vr_reviewed_by := Some (pr_id p),
          vr_reviewed_at := Some stamp, vr_review_note := Some reason\<rparr>) rows)"
    by (rule kept_update [OF reject(4,1)]) (simp add: frozen_def reject(2))
  ultimately show ?case by blast
qed

text \<open>
  Revert, never reset. Whatever request is handled, the rows there were stay where they are with their
  content, hash, base and provenance; only a draft may change its status, once.
\<close>

theorem history_is_never_rewritten:
  assumes "reachable C caps st" "pr_capabilities p = caps (pr_id p)"
  shows "kept (cs_rows st) (cs_rows (snd (handle C stamp p req st)))"
proof -
  have s: "sound st" using reachable_ok [OF assms(1)] by blast
  have "kept a b \<and> history_ok b" if "row_steps C caps a b" "history_ok a" for a b
    using that
  proof (induction rule: rtranclp_induct)
    case base
    have "kept a a" unfolding kept_def by (intro exI [of _ a] exI [of _ "[]"]) (simp add: list.rel_refl frozen_refl)
    with base show ?case by simp
  next
    case (step y z)
    then have y: "kept a y" "history_ok y" by simp_all
    with kept_by_step [OF step(2) y(2)] kept_trans show ?case by blast
  qed
  then show ?thesis using handle_ok [where caps = caps, OF s assms(2)] s by (auto simp: sound_def)
qed

lemma restored_text:
  assumes "dom b = set config_filenames" "n \<in> set config_filenames"
  shows "file_text (a ++ map_of (case f of None \<Rightarrow> content_items b | Some g \<Rightarrow> [(g, file_text b g)])) n
    = file_text (if f = None \<or> f = Some n then b else a) n"
proof (cases f)
  case None
  have "map_of (content_items b) n = Some (file_text b n)"
    using assms by (auto simp: content_items_def map_of_map_restrict restrict_map_def dom_def)
  with None show ?thesis by (simp add: file_text_def map_add_def)
qed (auto simp: file_text_def map_add_def)

text \<open>
  C30. Restoring a version makes a new one on top of the active version: with the whole bundle of the old
  version, or with the one file asked for and everything else as it is now.
\<close>

theorem restore_brings_content_back:
  assumes r: "reachable C caps st" and p: "restore C stamp w f actor st = (Inr row, st')"
    and "pr_capabilities actor = caps (pr_id actor)"
  shows "\<exists>source a. find_row (bootstrapped C stamp st) w = Some source \<and> active_row (bootstrapped C stamp st) = Some a
    \<and> cs_rows st' = bootstrapped C stamp st @ [row] \<and> vr_based_on row = Some (vr_id a) \<and> vr_restored_from row = Some w
    \<and> (\<forall>g \<in> set config_filenames.
         file_text (vr_content row) g = file_text (vr_content (if f = None \<or> f = Some g then source else a)) g)"
proof -
  define rows where "rows = bootstrapped C stamp st"
  define st1 where "st1 = st\<lparr>cs_rows := rows\<rparr>"
  have ok: "sound st1" and b1: "bootstrapped C stamp st1 = rows"
    using bootstrapped_ok [of st C stamp] reachable_ok [OF r] by (simp_all add: st1_def rows_def bootstrapped_def)
  have h: "history_ok rows" using ok by (simp add: sound_def st1_def)
  obtain source a res st2 where source: "find_row rows w = Some source" and a: "active_row rows = Some a"
    and pr: "propose_or_apply C stamp (case f of None \<Rightarrow> content_items (vr_content source)
          | Some g \<Rightarrow> [(g, file_text (vr_content source) g)]) (vr_id a) actor st1 = (Inr res, st2)"
    and st': "st' = stamp_restore_provenance (vr_id res) w f st2" "row_or_missing (cs_rows st') (vr_id res) = Inr row"
    using p by (auto simp: restore_def Let_def st1_def rows_def row_or_missing_def
        split: option.splits sum.splits prod.splits if_splits)
  define files where "files = (case f of None \<Rightarrow> content_items (vr_content source)
    | Some g \<Rightarrow> [(g, file_text (vr_content source) g)])"
  from propose_ok(2) [OF ok pr] b1
  have res: "prepare C stamp files (vr_id a) actor rows = Inr res" "set (od_keys files) \<subseteq> set config_filenames"
    and st2: "cs_rows st2 = rows @ [res]" by (auto simp: files_def)
  obtain a' where a': "active_row rows = Some a'" "vr_id res = Suc (length rows)"
    "vr_based_on res = Some (vr_id a')" "vr_content res = vr_content a' ++ map_of files"
    using prepare_row [OF res h] by metis
  define g where "g = (\<lambda>r :: version_row. r\<lparr>vr_restored_from := Some w, vr_restored_file := f\<rparr>)"
  have "\<forall>x \<in> set rows. vr_id x \<noteq> vr_id res"
    using h ids_of [of rows] a'(2) by (auto simp: history_ok_def in_set_conv_nth)
  then have rows': "cs_rows st' = rows @ [g res]" and nf: "find_row rows (vr_id res) = None"
    using st2 st'(1) by (auto simp: stamp_restore_provenance_def update_row_def g_def find_row_def find_None_iff intro!: map_idI)
  then have row: "row = g res"
    using st'(2) by (simp add: row_or_missing_def find_row_append) (simp add: find_row_def g_def)
  have "source \<in> set rows" using find_row_id [OF source] by blast
  then have dom: "dom (vr_content source) = set config_filenames"
    using h by (auto simp: history_ok_def list_all_iff row_ok_def)
  have content: "file_text (vr_content res) n = file_text (vr_content (if f = None \<or> f = Some n then source else a)) n"
    if n: "n \<in> set config_filenames" for n
    using restored_text [OF dom n, of "vr_content a" f] a a' by (simp add: files_def)
  show ?thesis
    using source a rows' row a' content by (auto simp: rows_def g_def)
qed

section \<open>Saves that overlap\<close>

text \<open>
  Outside an in-memory database the check of the active version and the insert of a save are not one
  atomic step. Two saves that both check before either inserts are both applied on the same base: the
  second becomes active and none of the first one's changes are in it, although a save based on a
  version that is no longer active is promised to be refused. When the second writes its files first,
  the disk keeps the first one's.
\<close>

theorem overlapping_saves_lose_one:
  assumes h: "history_ok rows" "active_row rows = Some a"
    and one: "prepare C stamp files b p rows = Inr r1" "set (od_keys files) \<subseteq> set config_filenames"
    and two: "prepare C stamp2 files2 b p2 rows = Inr r2" "set (od_keys files2) \<subseteq> set config_filenames"
    and applied: "vr_status r1 = Applied" "vr_status r2 = Applied"
  defines "r2' \<equiv> r2\<lparr>vr_id := Suc (vr_id r1)\<rparr>"
  shows "vr_based_on r1 = Some b \<and> vr_based_on r2' = Some b \<and> active_row (rows @ [r1, r2']) = Some r2'
    \<and> (\<forall>f. f \<notin> set (od_keys files2) \<longrightarrow> file_text (vr_content r2') f = file_text (vr_content a) f)
    \<and> (\<forall>f \<in> set config_filenames. file_text (cs_disk (after_insert C r1 (after_insert C r2' st))) f
         = file_text (vr_content r1) f)"
proof -
  obtain a1 where a1: "active_row rows = Some a1" "vr_id a1 = b" "vr_based_on r1 = Some (vr_id a1)"
    using prepare_row [OF one h(1)] by metis
  obtain a2 where a2: "active_row rows = Some a2" "vr_id a2 = b" "vr_based_on r2 = Some (vr_id a2)"
    "vr_content r2 = vr_content a2 ++ map_of files2"
    using prepare_row [OF two h(1)] by metis
  have "map_of files2 f = None" if "f \<notin> set (od_keys files2)" for f
    using that by (simp add: map_of_eq_None_iff od_keys_def)
  then have "\<forall>f. f \<notin> set (od_keys files2) \<longrightarrow> file_text (vr_content r2') f = file_text (vr_content a) f"
    using a2 h(2) by (simp add: r2'_def file_text_def map_add_def)
  moreover have "active_row (rows @ [r1, r2']) = Some r2'"
    using applied by (simp add: active_row_def applied_rows_def r2'_def)
  ultimately show ?thesis
    using a1 a2 applied by (simp add: r2'_def after_insert_def file_text_def)
qed

section \<open>A concrete history\<close>

definition example_config :: config_env where
  "example_config =
     \<lparr>cv_unicode = ascii_db, cv_ident = dotted, cv_deployment = example_deployment,
      cv_loader = (\<lambda>f t. None), cv_parse_schema = (\<lambda>t. Inr \<lparr>sch_tables = [], sch_relationships = []\<rparr>),
      cv_schema_message = (\<lambda>e. []), cv_source_message = (\<lambda>b. []), cv_hash = (\<lambda>b. []), cv_golden = Inr None,
      cv_report = (\<lambda>cs. []), cv_guard = example_guard join_statement, cv_export_dir = [], cv_ttl = 5\<rparr>"

definition first_store :: config_store where
  "first_store = \<lparr>cs_rows = [], cs_disk = [schema_file \<mapsto> u ''tables''], cs_export = None, cs_loaded = Map.empty,
     cs_prefix = False, cs_version_id = None\<rparr>"

definition admin :: principal where
  "admin = \<lparr>pr_id = u ''sam'', pr_name = u ''Sam'', pr_denied = [], pr_capabilities = {security_capability}\<rparr>"

definition admin_caps :: "ustr \<Rightarrow> ustr set" where
  "admin_caps who = (if who = u ''sam'' then {security_capability} else {})"

definition booted_store :: config_store where
  "booted_store = snd (handle example_config [] admin Read_active first_store)"

definition saved_store :: config_store where
  "saved_store = snd (handle example_config [] admin (Save [(schema_file, [])] 1) booted_store)"

lemma admin_facts: "pr_capabilities admin = admin_caps (pr_id admin)" "may_edit admin" "pr_id admin = u ''sam''"
  "admin_caps (u ''sam'') = {security_capability}"
  by (simp_all add: admin_def admin_caps_def may_edit_def)

lemma booted_reachable: "reachable example_config admin_caps booted_store" "reachable example_config admin_caps saved_store"
proof -
  have "reachable example_config admin_caps first_store" unfolding first_store_def by (rule reachable.start)
  then show b: "reachable example_config admin_caps booted_store"
    unfolding booted_store_def by (rule reachable.request) (rule admin_facts(1))
  then show "reachable example_config admin_caps saved_store"
    unfolding saved_store_def by (rule reachable.request) (rule admin_facts(1))
qed

lemma booted_rows: "cs_rows booted_store = [bootstrap_row example_config [] (nine_files (cs_disk first_store))]"
  by (simp add: booted_store_def handle_def get_active_version_def bootstrapped_def first_store_def Let_def)

lemma example_bundle_valid: "validate_bundle example_config b = None"
proof -
  have "validate_candidate_schema example_config t = None" for t
    by (simp add: validate_candidate_schema_def parse_schema_def example_config_def validate_schema_def
        check_table_datasources_def)
  then show ?thesis
    by (simp add: validate_bundle_def map_filter_def example_config_def Let_def)
qed

lemma example_checks: "check_invariants example_config [(schema_file, [])] (b(schema_file \<mapsto> [])) = None"
  "\<exists>d. diff_bundles example_config x y = Inr d \<and> bd_files d = files_changed x y"
  "dry_run_bundle example_config b = Inr Not_run"
  by (auto simp: check_invariants_def file_text_def diff_bundles_def diff_schema_def schema_table_columns_def
      parse_schema_def example_config_def validate_schema_def dry_run_bundle_def Let_def)

definition booted_content :: config_files where
  "booted_content = nine_files [schema_file \<mapsto> u ''tables'']"

lemma saved_rows:
  "\<exists>row. cs_rows saved_store = cs_rows booted_store @ [row] \<and> vr_id row = 2 \<and> vr_status row = Applied
     \<and> vr_based_on row = Some 1 \<and> vr_created_by row = u ''sam'' \<and> file_text (vr_content row) schema_file = []"
proof -
  define files where "files = [(schema_file, [] :: ustr)]"
  have b: "bootstrapped example_config [] booted_store = cs_rows booted_store"
    by (simp add: bootstrapped_def booted_rows)
  have act: "active_row (cs_rows booted_store) = Some (bootstrap_row example_config [] booted_content)"
    by (simp add: booted_rows active_row_def applied_rows_def bootstrap_row_def booted_content_def first_store_def)
  obtain d where d: "diff_bundles example_config booted_content (booted_content ++ map_of files) = Inr d"
    using example_checks(2) by blast
  have v: "validate_bundle example_config (booted_content ++ map_of files) = None"
    "check_invariants example_config files (booted_content ++ map_of files) = None"
    "dry_run_bundle example_config (booted_content ++ map_of files) = Inr Not_run"
    using example_bundle_valid example_checks(1,3) by (simp_all add: files_def)
  have "\<exists>row. prepare example_config [] files 1 admin (cs_rows booted_store) = Inr row"
    using act d v by (simp add: prepare_def proposal_def bootstrap_row_def Let_def)
  then obtain row where row: "prepare example_config [] files 1 admin (cs_rows booted_store) = Inr row" by blast
  have names: "set (od_keys files) \<subseteq> set config_filenames" using config_names(1) by (simp add: files_def od_keys_def)
  have h: "history_ok (cs_rows booted_store)" using reachable_ok [OF booted_reachable(1)] by (simp add: sound_def)
  obtain a where a: "active_row (cs_rows booted_store) = Some a" "vr_id row = Suc (length (cs_rows booted_store))"
    "vr_based_on row = Some (vr_id a)" "vr_content row = vr_content a ++ map_of files" "vr_created_by row = pr_id admin"
    "vr_id a = 1"
    and st: "vr_status row = Draft \<longleftrightarrow> file_text (vr_content row) schema_file \<noteq> file_text (vr_content a) schema_file
       \<and> security_capability \<notin> pr_capabilities admin" "vr_status row = Draft \<or> vr_status row = Applied"
    using prepare_row [OF row names h] by metis
  have "cs_rows saved_store = cs_rows booted_store @ [row]"
  proof -
    have "sorted_list_of_set (set (od_keys files) - set config_filenames) = []" using names by (simp add: sorted_list_of_set_eq_Nil_iff)
    then show ?thesis
      using row b by (simp add: saved_store_def handle_def admin_facts as_result_def propose_or_apply_def
          after_insert_def files_def [symmetric] Let_def) (simp add: files_def)
  qed
  moreover have "vr_status row = Applied" using st by (simp add: admin_def)
  moreover have "length (cs_rows booted_store) = 1" by (simp add: booted_rows)
  ultimately show ?thesis
    using a admin_facts(3) by (simp add: files_def file_text_def)
qed


lemma saved_active: "\<exists>a. active_row (cs_rows saved_store) = Some a \<and> vr_id a = 2 \<and> file_text (vr_content a) schema_file = []"
  using saved_rows by (auto simp: active_row_def applied_rows_def)


theorem schema_changes_need_security_witness:
  "\<exists>r. r \<in> set (cs_rows saved_store) \<and> vr_id r = 2 \<and> (security_capability \<in> admin_caps (vr_created_by r)
     \<or> (\<exists>w. vr_reviewed_by r = Some w \<and> security_capability \<in> admin_caps w))"
proof -
  obtain row where row: "cs_rows saved_store = cs_rows booted_store @ [row]" "vr_id row = 2" "vr_status row = Applied"
    "vr_based_on row = Some 1" "file_text (vr_content row) schema_file = []" using saved_rows by blast
  have find: "find_row (cs_rows saved_store) 1 = Some (bootstrap_row example_config [] (nine_files (cs_disk first_store)))"
    by (simp add: row(1) booted_rows find_row_def bootstrap_row_def)
  have "file_text (nine_files (cs_disk first_store)) schema_file \<noteq> []"
    using config_names(1) by (simp add: nine_files_def first_store_def file_text_def u_def)
  then have "file_text (vr_content row) schema_file
      \<noteq> file_text (vr_content (bootstrap_row example_config [] (nine_files (cs_disk first_store)))) schema_file"
    using row(5) by (simp add: bootstrap_row_def)
  moreover have "row \<in> set (cs_rows saved_store)" using row(1) by simp
  ultimately show ?thesis
    using schema_changes_need_security [OF booted_reachable(2) _ row(3,4) find] row(2) by blast
qed

theorem history_is_never_rewritten_witness:
  "kept (cs_rows booted_store) (cs_rows saved_store)"
  unfolding saved_store_def by (rule history_is_never_rewritten [OF booted_reachable(1) admin_facts(1)])

text \<open>The restore of a version onto itself, file by file: the aliases, which no check looks at.\<close>

lemma restore_runs:
  "\<exists>row st'. restore example_config [] 1 (Some (u ''aliases.yaml'')) admin booted_store = (Inr row, st')"
proof -
  define source where "source = bootstrap_row example_config [] booted_content"
  define files where "files = [(u ''aliases.yaml'', file_text booted_content (u ''aliases.yaml''))]"
  have rows: "cs_rows booted_store = [source]"
    by (simp add: booted_rows source_def booted_content_def first_store_def)
  have b: "bootstrapped example_config [] booted_store = [source]"
    "bootstrapped example_config [] (booted_store\<lparr>cs_rows := [source]\<rparr>) = [source]"
    by (simp_all add: bootstrapped_def rows)
  have source: "active_row [source] = Some source" "find_row [source] 1 = Some source" "vr_id source = 1"
    "vr_content source = booted_content"
    by (simp_all add: active_row_def applied_rows_def find_row_def source_def bootstrap_row_def)
  have name: "u ''aliases.yaml'' \<in> set config_filenames" "u ''aliases.yaml'' \<noteq> schema_file"
    by (simp_all add: config_filenames_def schema_file_def u_def)
  obtain d where d: "diff_bundles example_config booted_content (booted_content ++ map_of files) = Inr d"
    using example_checks(2) by blast
  have v: "validate_bundle example_config (booted_content ++ map_of files) = None"
    "check_invariants example_config files (booted_content ++ map_of files) = None"
    "dry_run_bundle example_config (booted_content ++ map_of files) = Inr Not_run"
    using example_bundle_valid example_checks(3) name(2) by (simp_all add: files_def check_invariants_def od_keys_def)
  have "\<exists>row. prepare example_config [] files 1 admin [source] = Inr row \<and> vr_id row = 2"
    using source d v by (simp add: prepare_def proposal_def Let_def)
  then obtain row where row: "prepare example_config [] files 1 admin [source] = Inr row" "vr_id row = 2" by blast
  have "sorted_list_of_set (set (od_keys files) - set config_filenames) = []"
    using name(1) by (simp add: files_def od_keys_def sorted_list_of_set_eq_Nil_iff)
  then have "\<exists>st2. propose_or_apply example_config [] files 1 admin (booted_store\<lparr>cs_rows := [source]\<rparr>) = (Inr row, st2)
      \<and> cs_rows st2 = [source, row]"
    using row b by (simp add: propose_or_apply_def Let_def after_insert_def)
  then obtain st2 where st2: "propose_or_apply example_config [] files 1 admin (booted_store\<lparr>cs_rows := [source]\<rparr>) = (Inr row, st2)"
    "cs_rows st2 = [source, row]" by blast
  show ?thesis
    using source b name(1) st2 row(2)
    by (simp add: restore_def row_or_missing_def Let_def files_def stamp_restore_provenance_def update_row_def find_row_def)
qed

theorem restore_brings_content_back_witness:
  "\<exists>row :: version_row. vr_restored_from row = Some 1 \<and> vr_based_on row = Some 1
     \<and> file_text (vr_content row) (u ''aliases.yaml'') = file_text booted_content (u ''aliases.yaml'')"
proof -
  obtain row st' where r: "restore example_config [] 1 (Some (u ''aliases.yaml'')) admin booted_store = (Inr row, st')"
    using restore_runs by blast
  have b: "bootstrapped example_config [] booted_store = [bootstrap_row example_config [] booted_content]"
    by (simp add: bootstrapped_def booted_rows booted_content_def first_store_def)
  have name: "u ''aliases.yaml'' \<in> set config_filenames" by (simp add: config_filenames_def)
  from restore_brings_content_back [OF booted_reachable(1) r admin_facts(1)] obtain source a where
    "find_row [bootstrap_row example_config [] booted_content] 1 = Some source"
    "active_row [bootstrap_row example_config [] booted_content] = Some a" "vr_based_on row = Some (vr_id a)"
    "vr_restored_from row = Some 1" "file_text (vr_content row) (u ''aliases.yaml'') = file_text (vr_content source) (u ''aliases.yaml'')"
    unfolding b using name by auto
  moreover have "find_row [bootstrap_row example_config [] booted_content] 1 = Some (bootstrap_row example_config [] booted_content)"
    "active_row [bootstrap_row example_config [] booted_content] = Some (bootstrap_row example_config [] booted_content)"
    by (simp_all add: find_row_def active_row_def applied_rows_def bootstrap_row_def)
  ultimately show ?thesis by (intro exI [of _ row]) (auto simp: bootstrap_row_def)
qed

text \<open>
  A blank \<open>schema.yaml\<close> skips the check of the allowlist's invariants, which refuses an empty allowlist in
  any other spelling, and is applied.
\<close>

lemma blank_schema_is_applied:
  "check_allowlist_structural_invariants [] [] [] = [Empty_allowlist]
   \<and> (\<exists>row. active_row (cs_rows saved_store) = Some row \<and> file_text (vr_content row) schema_file = [])"
  using saved_active by (auto simp: check_allowlist_structural_invariants_def missing_def)

end
