(* ===== verification/Request_Gate.thy ===== *)
theory Request_Gate
  imports Auth
begin

text \<open>
  What decides whether a request may reach a route, apart from load: \<open>api/auth.py\<close> (who the caller
  is, and the capability a route asks for) and \<open>api/maintenance.py\<close> (the maintenance switch), with
  the request id of \<open>api/middleware.py\<close>. \<open>load_all_principals\<close> is modelled in Key_Store; here its
  result is an argument, \<open>None\<close> standing for an \<open>ApiKeyConfigError\<close>.
\<close>

section \<open>Requests\<close>

text \<open>The part of a request the middleware reads; an absent header is \<open>None\<close>.\<close>

record http_request =
  rq_method :: ustr
  rq_path :: ustr
  rq_peer :: "ustr option"
  rq_authorization :: "ustr option"
  rq_forwarded_for :: "ustr option"
  rq_real_ip :: "ustr option"
  rq_request_id :: "ustr option"

text \<open>\<open>request.state\<close>, as the outer layers fill it.\<close>

record request_state =
  rs_request_id :: ustr
  rs_principal :: "principal option"
  rs_auth_failed :: bool

text \<open>The header's text when it is present and not empty, as \<open>if header:\<close> reads it.\<close>

fun truthy_text :: "ustr option \<Rightarrow> ustr option" where
  "truthy_text None = None"
| "truthy_text (Some h) = (if h = [] then None else Some h)"

section \<open>Who the caller is\<close>

definition stamp_request_id :: "ustr \<Rightarrow> http_request \<Rightarrow> ustr" where
  "stamp_request_id fresh rq = (case truthy_text (rq_request_id rq) of Some i \<Rightarrow> i | None \<Rightarrow> fresh)"

definition resolve_caller ::
    "(ustr \<Rightarrow> ustr) \<Rightarrow> (ustr, principal) odict option \<Rightarrow> http_request \<Rightarrow> principal option" where
  "resolve_caller sha256 keys rq =
     (case keys of None \<Rightarrow> None | Some ks \<Rightarrow> resolve_principal sha256 (rq_authorization rq) ks)"

text \<open>
  \<open>AuthMiddleware.dispatch\<close>: the state of the request and the failures recorded, as pairs of source
  address and path.
\<close>

definition auth_dispatch ::
    "(ustr \<Rightarrow> ustr) \<Rightarrow> (ustr, principal) odict option \<Rightarrow> ustr \<Rightarrow> http_request
     \<Rightarrow> request_state \<times> (ustr \<times> ustr) list" where
  "auth_dispatch sha256 keys rid rq =
     (let p = resolve_caller sha256 keys rq;
          failed = (truthy_text (rq_authorization rq) \<noteq> None \<and> p = None)
      in (\<lparr>rs_request_id = rid, rs_principal = p, rs_auth_failed = failed\<rparr>,
          if failed then [(case rq_peer rq of Some h \<Rightarrow> h | None \<Rightarrow> u ''unknown'', rq_path rq)] else []))"

section \<open>What a route asks for\<close>

datatype gate_error =
    Unauthenticated (gate_message: ustr)
  | Admin_required (gate_message: ustr)
  | Operations_required (gate_message: ustr)
  | Security_required (gate_message: ustr)
  | Maintenance_mode (gate_message: ustr)

definition presented_token :: "http_request \<Rightarrow> ustr option" where
  "presented_token rq =
     (case truthy_text (rq_authorization rq) of
        None \<Rightarrow> None
      | Some h \<Rightarrow> Some (if startswith h bearer_prefix then drop (length bearer_prefix) h else h))"

definition unauthenticated_message :: "unicode_db \<Rightarrow> http_request \<Rightarrow> ustr" where
  "unauthenticated_message U rq =
     (let base = u ''Missing or invalid API key.''
      in case presented_token rq of
           None \<Rightarrow> base
         | Some token \<Rightarrow>
             if token \<noteq> [] \<and> is_hex_digest (lower U (strip token))
             then base @ u '' The value presented looks like a SHA-256 digest. '' @
               u ''The digest is what belongs in the key_sha256 field of '' @
               u ''API_KEYS_JSON / API_KEYS_FILE; what a client sends is the raw '' @
               u ''key that scripts/issue_api_key.py printed once, above that entry.''
             else base)"

definition require_principal ::
    "unicode_db \<Rightarrow> bool \<Rightarrow> http_request \<Rightarrow> request_state \<Rightarrow> gate_error + principal" where
  "require_principal U auth_required rq st =
     (if \<not> auth_required
      then Inr (case rs_principal st of Some p \<Rightarrow> p | None \<Rightarrow> anonymous U)
      else (case rs_principal st of
              None \<Rightarrow> Inl (Unauthenticated (unauthenticated_message U rq))
            | Some p \<Rightarrow> Inr p))"

definition require_admin :: "principal \<Rightarrow> gate_error + principal" where
  "require_admin p =
     (if \<not> is_admin p then Inl (Admin_required (u ''This API key does not have admin access.'')) else Inr p)"

definition require_operations :: "principal \<Rightarrow> gate_error + principal" where
  "require_operations p =
     (if \<not> is_operations p
      then Inl (Operations_required (u ''This API key does not have the operations admin capability.''))
      else Inr p)"

definition require_security :: "principal \<Rightarrow> gate_error + principal" where
  "require_security p =
     (if \<not> is_security p
      then Inl (Security_required (u ''This API key does not have the security admin capability.''))
      else Inr p)"

definition require_operations_or_security :: "principal \<Rightarrow> gate_error + principal" where
  "require_operations_or_security p =
     (if \<not> (is_operations p \<or> is_security p)
      then Inl (Admin_required (u ''This API key has neither the operations nor the security admin capability.''))
      else Inr p)"

definition get_principal_if_any :: "request_state \<Rightarrow> principal option" where
  "get_principal_if_any st = rs_principal st"

section \<open>Maintenance\<close>

record maintenance_state =
  mt_active :: bool
  mt_note :: "ustr option"
  mt_since :: "ustr option"
  mt_actor :: "ustr option"

definition maintenance_off :: maintenance_state where
  "maintenance_off = \<lparr>mt_active = False, mt_note = None, mt_since = None, mt_actor = None\<rparr>"

text \<open>\<open>enable\<close> and \<open>disable\<close>, at the moment \<open>ts\<close>; what they return is the new state.\<close>

definition maintenance_enable :: "ustr \<Rightarrow> ustr option \<Rightarrow> ustr \<Rightarrow> maintenance_state \<Rightarrow> maintenance_state" where
  "maintenance_enable ts note actor m = m\<lparr>mt_active := True, mt_note := note, mt_since := Some ts, mt_actor := Some actor\<rparr>"

definition maintenance_disable :: "ustr \<Rightarrow> ustr \<Rightarrow> maintenance_state \<Rightarrow> maintenance_state" where
  "maintenance_disable ts actor m = m\<lparr>mt_active := False, mt_note := None, mt_since := Some ts, mt_actor := Some actor\<rparr>"

definition require_not_in_maintenance :: "maintenance_state \<Rightarrow> gate_error + unit" where
  "require_not_in_maintenance m =
     (if \<not> mt_active m then Inr ()
      else Inl (Maintenance_mode
        (u ''The system is in maintenance mode.'' @
         (case truthy_text (mt_note m) of Some n \<Rightarrow> 32 # n | None \<Rightarrow> []))))"

section \<open>A route behind its gates\<close>

text \<open>
  The dependencies of a route, resolved in the order its parameters declare them: the caller, the
  capability, then the maintenance switch.
\<close>

datatype route_capability = Any_caller | Admin_only | Operations_only | Security_only | Operations_or_security

fun require_capability :: "route_capability \<Rightarrow> principal \<Rightarrow> gate_error + principal" where
  "require_capability Any_caller p = Inr p"
| "require_capability Admin_only p = require_admin p"
| "require_capability Operations_only p = require_operations p"
| "require_capability Security_only p = require_security p"
| "require_capability Operations_or_security p = require_operations_or_security p"

definition pass_gates ::
    "unicode_db \<Rightarrow> bool \<Rightarrow> maintenance_state \<Rightarrow> route_capability \<Rightarrow> bool \<Rightarrow> http_request \<Rightarrow> request_state
     \<Rightarrow> gate_error + principal" where
  "pass_gates U auth_required m cap refuses_in_maintenance rq st =
     (case require_principal U auth_required rq st of
        Inl e \<Rightarrow> Inl e
      | Inr p \<Rightarrow>
          (case require_capability cap p of
             Inl e \<Rightarrow> Inl e
           | Inr q \<Rightarrow>
               if refuses_in_maintenance
               then (case require_not_in_maintenance m of Inl e \<Rightarrow> Inl e | Inr _ \<Rightarrow> Inr q)
               else Inr q))"

declare stamp_request_id_def [ev] resolve_caller_def [ev] auth_dispatch_def [ev] presented_token_def [ev]
  unauthenticated_message_def [ev] require_principal_def [ev] require_admin_def [ev] require_operations_def [ev]
  require_security_def [ev] require_operations_or_security_def [ev] is_admin_def [ev] is_operations_def [ev]
  is_security_def [ev] maintenance_off_def [ev] maintenance_enable_def [ev] maintenance_disable_def [ev]
  require_not_in_maintenance_def [ev] pass_gates_def [ev] anonymous_def [ev]

section \<open>What passing the gates means\<close>

fun holds_capability :: "route_capability \<Rightarrow> principal \<Rightarrow> bool" where
  "holds_capability Any_caller p \<longleftrightarrow> True"
| "holds_capability Admin_only p \<longleftrightarrow> is_admin p"
| "holds_capability Operations_only p \<longleftrightarrow> is_operations p"
| "holds_capability Security_only p \<longleftrightarrow> is_security p"
| "holds_capability Operations_or_security p \<longleftrightarrow> is_operations p \<or> is_security p"

lemma require_capability_Inr: "require_capability cap p = Inr q \<longleftrightarrow> q = p \<and> holds_capability cap p"
  by (cases cap) (auto simp: require_admin_def require_operations_def require_security_def
      require_operations_or_security_def)

lemma anonymous_holds_nothing: "cap \<noteq> Any_caller \<Longrightarrow> \<not> holds_capability cap (anonymous U)"
  by (cases cap) (simp_all add: anonymous_def make_principal_def is_admin_def is_operations_def is_security_def)

lemma require_principal_Inr:
  "require_principal U req rq st = Inr p \<longleftrightarrow>
     rs_principal st = Some p \<or> \<not> req \<and> rs_principal st = None \<and> p = anonymous U"
  by (auto simp: require_principal_def split: option.splits)

lemma require_not_in_maintenance_Inr: "require_not_in_maintenance m = Inr x \<longleftrightarrow> \<not> mt_active m"
  by (simp add: require_not_in_maintenance_def)

lemma pass_gates_Inr:
  "pass_gates U req m cap mnt rq st = Inr p \<longleftrightarrow>
     (mnt \<longrightarrow> \<not> mt_active m) \<and> holds_capability cap p
     \<and> (rs_principal st = Some p \<or> \<not> req \<and> rs_principal st = None \<and> p = anonymous U)"
  by (auto simp: pass_gates_def require_capability_Inr require_principal_Inr require_not_in_maintenance_Inr
      require_not_in_maintenance_def split: sum.splits)
     (metis require_capability_Inr require_principal_Inr Inl_Inr_False)+

lemma match_hash_mem: "match_hash h ks m = Some p \<Longrightarrow> m = Some p \<or> (h, p) \<in> set ks"
proof (induction ks arbitrary: m)
  case (Cons kp ks)
  obtain k q where kp: "kp = (k, q)" by (cases kp)
  from Cons.prems have "match_hash h ks (if h = k then Some q else m) = Some p" by (simp add: kp)
  from Cons.IH [OF this] show ?case by (auto simp: kp split: if_splits)
qed simp

lemma resolve_principal_mem:
  assumes "resolve_principal sha256 header ks = Some p"
  shows "\<exists>t. header = Some (bearer_prefix @ t) \<and> strip t \<noteq> [] \<and> (sha256 (strip t), p) \<in> set ks"
proof -
  from assms obtain h where h: "header = Some h" "startswith h bearer_prefix"
      "strip (drop (length bearer_prefix) h) \<noteq> []"
      "match_hash (sha256 (strip (drop (length bearer_prefix) h))) ks None = Some p"
    by (auto simp: resolve_principal_def Let_def split: option.splits if_splits)
  from h(2) obtain t where "h = bearer_prefix @ t" by (auto simp: startswith_iff)
  with h match_hash_mem [OF h(4)] show ?thesis by auto
qed

lemma auth_dispatch_state:
  "fst (auth_dispatch sha256 keys rid rq) =
     \<lparr>rs_request_id = rid, rs_principal = resolve_caller sha256 keys rq,
      rs_auth_failed = (truthy_text (rq_authorization rq) \<noteq> None \<and> resolve_caller sha256 keys rq = None)\<rparr>"
  by (simp add: auth_dispatch_def Let_def)

text \<open>
  C31. A route that asks for a capability runs only for a caller whose \<open>Authorization\<close> header is
  \<open>Bearer\<close> and a key whose hash is configured for a principal that carries the capability, whatever
  \<open>AUTH_REQUIRED\<close> says; and a route that refuses in maintenance does not run while it is on.
\<close>

theorem capability_needs_a_configured_key:
  assumes "pass_gates U auth_required m cap mnt rq (fst (auth_dispatch sha256 keys rid rq)) = Inr p"
    and "cap \<noteq> Any_caller"
  shows "(\<exists>ks t. keys = Some ks \<and> rq_authorization rq = Some (bearer_prefix @ t) \<and> strip t \<noteq> []
      \<and> (sha256 (strip t), p) \<in> set ks)
    \<and> holds_capability cap p \<and> \<not> (mnt \<and> mt_active m)"
proof -
  note g = assms(1) [unfolded pass_gates_Inr auth_dispatch_state]
  have held: "holds_capability cap p" "\<not> (mnt \<and> mt_active m)" using g by blast+
  with anonymous_holds_nothing [OF assms(2)] g have "resolve_caller sha256 keys rq = Some p" by auto
  then obtain ks where "keys = Some ks" "resolve_principal sha256 (rq_authorization rq) ks = Some p"
    by (auto simp: resolve_caller_def split: option.splits)
  with resolve_principal_mem held show ?thesis by blast
qed

definition gate_request :: http_request where
  "gate_request = \<lparr>rq_method = u ''POST'', rq_path = u ''/admin/keys'', rq_peer = Some (u ''10.0.0.1''),
     rq_authorization = Some (u ''Bearer k1''), rq_forwarded_for = None, rq_real_ip = None, rq_request_id = None\<rparr>"

definition gate_operator :: principal where
  "gate_operator = \<lparr>pr_id = u ''ops'', pr_name = u ''Operator'', pr_denied = [],
     pr_capabilities = {operations_capability}\<rparr>"

theorem capability_needs_a_configured_key_witness:
  "(\<exists>ks t. Some [(u ''k1'', gate_operator)] = Some ks \<and> rq_authorization gate_request = Some (bearer_prefix @ t)
     \<and> strip t \<noteq> [] \<and> (id (strip t), gate_operator) \<in> set ks)
   \<and> holds_capability Operations_only gate_operator \<and> \<not> (True \<and> mt_active maintenance_off)"
proof (rule capability_needs_a_configured_key [where U = ascii_db and auth_required = False and rid = "[]"])
  show "pass_gates ascii_db False maintenance_off Operations_only True gate_request
      (fst (auth_dispatch id (Some [(u ''k1'', gate_operator)]) [] gate_request)) = Inr gate_operator"
    unfolding pass_gates_Inr auth_dispatch_state
    by (simp add: ev gate_request_def gate_operator_def)
qed simp

end
