(* ===== verification/Rate_Limit.thy ===== *)
theory Rate_Limit
  imports Request_Gate
begin

text \<open>
  The rate limiter of \<open>api/middleware.py\<close>: the client address, the bucket a request draws from,
  the token bucket with its least-recently-seen eviction, and the dispatch of a request. Time is
  the value of \<open>time.monotonic()\<close>, an argument; the floating-point token counts are exact
  rational numbers here. Logging and the usage record of a throttled principal are not modelled.
\<close>

section \<open>The limiter\<close>

record bucket =
  bk_tokens :: rat
  bk_last_refill :: rat

record limit_settings =
  ls_requests :: int
  ls_window :: rat
  ls_burst :: int
  ls_auth_requests :: int
  ls_auth_window :: rat
  ls_auth_burst :: int

text \<open>The numbers that govern one namespace of buckets.\<close>

record allowance =
  al_requests :: int
  al_capacity :: rat
  al_rate :: rat
  al_window :: rat

record limiter =
  lm_shared :: allowance
  lm_auth_failure :: allowance
  lm_trusted :: "ustr set"
  lm_max_tracked :: int

datatype limit_error = Zero_division | Empty_dictionary

definition make_allowance :: "int \<Rightarrow> rat \<Rightarrow> int \<Rightarrow> limit_error + allowance" where
  "make_allowance requests window burst =
     (if window = 0 then Inl Zero_division
      else Inr \<lparr>al_requests = requests, al_capacity = of_int (requests + burst),
                al_rate = of_int requests / window, al_window = window\<rparr>)"

fun or_setting :: "'a option \<Rightarrow> 'a \<Rightarrow> 'a" where
  "or_setting (Some x) d = x"
| "or_setting None d = d"

text \<open>\<open>RateLimitMiddleware.__init__\<close>: an argument left out is read from the settings.\<close>

definition make_limiter ::
    "limit_settings \<Rightarrow> int option \<times> rat option \<times> int option \<Rightarrow> ustr set \<Rightarrow> int
     \<Rightarrow> int option \<times> rat option \<times> int option \<Rightarrow> limit_error + limiter" where
  "make_limiter S shared trusted max_tracked auth =
     (case (shared, auth) of ((r, w, b), (ar, aw, ab)) \<Rightarrow>
        case make_allowance (or_setting r (ls_requests S)) (or_setting w (ls_window S)) (or_setting b (ls_burst S)) of
          Inl e \<Rightarrow> Inl e
        | Inr a \<Rightarrow>
            (case make_allowance (or_setting ar (ls_auth_requests S)) (or_setting aw (ls_auth_window S))
                (or_setting ab (ls_auth_burst S)) of
               Inl e \<Rightarrow> Inl e
             | Inr f \<Rightarrow> Inr \<lparr>lm_shared = a, lm_auth_failure = f, lm_trusted = trusted, lm_max_tracked = max_tracked\<rparr>))"

section \<open>The bucket of a request\<close>

definition client_ip :: "ustr set \<Rightarrow> http_request \<Rightarrow> ustr" where
  "client_ip trusted rq =
     (let direct = (case rq_peer rq of Some h \<Rightarrow> h | None \<Rightarrow> u ''unknown'')
      in if direct \<notin> trusted then direct
         else case truthy_text (rq_forwarded_for rq) of
           Some f \<Rightarrow> strip (hd (split_on 44 f))
         | None \<Rightarrow> (case truthy_text (rq_real_ip rq) of
               Some r \<Rightarrow> strip r
             | None \<Rightarrow> direct))"

definition bucket_key :: "ustr set \<Rightarrow> http_request \<Rightarrow> request_state \<Rightarrow> ustr" where
  "bucket_key trusted rq st =
     (let ip = client_ip trusted rq
      in case rs_principal st of
           Some p \<Rightarrow> u ''principal:'' @ pr_id p @ u ''|ip:'' @ ip
         | None \<Rightarrow> if rs_auth_failed st then u ''authfail|ip:'' @ ip else u ''ip:'' @ ip)"

section \<open>Consuming a token\<close>

type_synonym buckets = "(ustr, bucket) odict"

text \<open>
  \<open>_consume\<close>. The refilled level is stored before the wait of a refused call is computed, so it
  is kept even when that division fails.
\<close>

definition fetch_bucket :: "int \<Rightarrow> rat \<Rightarrow> rat \<Rightarrow> ustr \<Rightarrow> buckets \<Rightarrow> limit_error + (buckets \<times> bucket)" where
  "fetch_bucket max_tracked capacity now_t key d =
     (case map_of d key of
        Some b \<Rightarrow> Inr (od_touch key d, b)
      | None \<Rightarrow>
          (let b = \<lparr>bk_tokens = capacity, bk_last_refill = now_t\<rparr>
           in if int (length d) \<ge> max_tracked
              then (if d = [] then Inl Empty_dictionary else Inr (AList.update key b (od_pop d), b))
              else Inr (AList.update key b d, b)))"

definition refill :: "rat \<Rightarrow> rat \<Rightarrow> rat \<Rightarrow> bucket \<Rightarrow> rat" where
  "refill capacity rate now_t b = min capacity (bk_tokens b + (now_t - bk_last_refill b) * rate)"

definition consume ::
    "int \<Rightarrow> rat \<Rightarrow> rat \<Rightarrow> rat \<Rightarrow> ustr \<Rightarrow> buckets \<Rightarrow> buckets \<times> (limit_error + (bool \<times> rat))" where
  "consume max_tracked capacity rate now_t key d =
     (case fetch_bucket max_tracked capacity now_t key d of
        Inl e \<Rightarrow> (d, Inl e)
      | Inr (d1, b) \<Rightarrow>
          (let tokens = refill capacity rate now_t b
           in if tokens \<ge> 1
              then (AList.update key \<lparr>bk_tokens = tokens - 1, bk_last_refill = now_t\<rparr> d1, Inr (True, 0))
              else (AList.update key \<lparr>bk_tokens = tokens, bk_last_refill = now_t\<rparr> d1,
                    if rate = 0 then Inl Zero_division else Inr (False, (1 - tokens) / rate))))"

section \<open>Dispatch\<close>

definition exempt_paths :: "ustr list" where
  "exempt_paths = [u ''/health'', u ''/docs'', u ''/redoc'', u ''/openapi.json'', u ''/cache/stats'']"

text \<open>\<open>int(x)\<close> truncates toward zero.\<close>

definition py_int :: "rat \<Rightarrow> int" where
  "py_int x = (if x < 0 then \<lceil>x\<rceil> else \<lfloor>x\<rfloor>)"

text \<open>
  What the limiter makes of a request: it passes an exempt path untouched, passes an accepted one
  with the two informational headers, or answers 429 with the time to wait and the \<open>Retry-After\<close>
  header.
\<close>

datatype rate_answer =
    Exempt
  | Passed (limit_header: int) (window_header: int)
  | Throttled (throttled_requests: int) (throttled_window: int) (wait_time: rat) (retry_after: int)
      (throttled_id: ustr) (throttled_path: ustr)

definition governing :: "limiter \<Rightarrow> request_state \<Rightarrow> allowance" where
  "governing lmt st = (if rs_auth_failed st then lm_auth_failure lmt else lm_shared lmt)"

definition rate_dispatch ::
    "limiter \<Rightarrow> rat \<Rightarrow> http_request \<Rightarrow> request_state \<Rightarrow> buckets \<Rightarrow> buckets \<times> (limit_error + rate_answer)" where
  "rate_dispatch lmt now_t rq st d =
     (if rq_path rq \<in> set exempt_paths then (d, Inr Exempt)
      else (let a = governing lmt st
            in case consume (lm_max_tracked lmt) (al_capacity a) (al_rate a) now_t
                  (bucket_key (lm_trusted lmt) rq st) d of
                 (d', Inl e) \<Rightarrow> (d', Inl e)
               | (d', Inr (True, w)) \<Rightarrow> (d', Inr (Passed (al_requests a) (py_int (al_window a))))
               | (d', Inr (False, w)) \<Rightarrow>
                   (d', Inr (Throttled (al_requests a) (py_int (al_window a)) w (py_int w + 1)
                      (rs_request_id st) (rq_path rq)))))"

fun passes :: "limit_error + rate_answer \<Rightarrow> bool" where
  "passes (Inr (Passed _ _)) \<longleftrightarrow> True"
| "passes (Inr Exempt) \<longleftrightarrow> True"
| "passes _ \<longleftrightarrow> False"

declare make_allowance_def [ev] make_limiter_def [ev] client_ip_def [ev] bucket_key_def [ev]
  fetch_bucket_def [ev] refill_def [ev] consume_def [ev] exempt_paths_def [ev] py_int_def [ev]
  governing_def [ev] rate_dispatch_def [ev]

section \<open>The level of a bucket\<close>

text \<open>What a call on \<open>key\<close> at time \<open>t\<close> finds in its bucket after the refill.\<close>

definition level :: "rat \<Rightarrow> rat \<Rightarrow> ustr \<Rightarrow> rat \<Rightarrow> buckets \<Rightarrow> rat" where
  "level capacity rate key t d =
     (case map_of d key of None \<Rightarrow> capacity | Some b \<Rightarrow> refill capacity rate t b)"

text \<open>No bucket is in debt or stamped in the future.\<close>

definition buckets_sound :: "rat \<Rightarrow> buckets \<Rightarrow> bool" where
  "buckets_sound t d \<longleftrightarrow> od_ok d
     \<and> (\<forall>k b. map_of d k = Some b \<longrightarrow> 0 \<le> bk_tokens b \<and> bk_last_refill b \<le> t)"

definition has_room :: "int \<Rightarrow> ustr \<Rightarrow> buckets \<Rightarrow> bool" where
  "has_room n key d \<longleftrightarrow> map_of d key \<noteq> None \<or> int (length d) < n"

lemma map_of_pop: "od_ok d \<Longrightarrow> map_of (od_pop d) k = Some b \<Longrightarrow> map_of d k = Some b"
  by (simp add: odict.get_pop split: if_splits)

lemma fetch_bucket_Inr:
  assumes "od_ok d" "fetch_bucket n capacity t key d = Inr (d1, b)"
  shows "od_ok d1 \<and> map_of d1 key = Some b \<and> refill capacity rate t b = level capacity rate key t d
    \<and> (\<forall>j. j \<noteq> key \<longrightarrow> map_of d1 j = map_of d j \<or> map_of d1 j = None)
    \<and> (has_room n key d \<longrightarrow> (\<forall>j. j \<noteq> key \<longrightarrow> map_of d1 j = map_of d j))"
proof (cases "map_of d key")
  case None
  with assms show ?thesis
    by (auto simp: fetch_bucket_def Let_def od level_def refill_def has_room_def update_conv'
        split: if_splits dest: map_of_pop [THEN sym])
next
  case (Some b')
  with assms show ?thesis
    by (auto simp: fetch_bucket_def od level_def)
qed

lemma fetch_bucket_ok: "0 < n \<Longrightarrow> \<exists>r. fetch_bucket n capacity t key d = Inr r"
  by (auto simp: fetch_bucket_def Let_def split: option.splits)

text \<open>One call: it is accepted when the level is at least one, and its own level falls by one then.\<close>

lemma consume_step:
  assumes "od_ok d" "0 < n" "rate \<noteq> 0" "consume n capacity rate t key d = (d', r)"
  defines "l \<equiv> level capacity rate key t d"
  shows "od_ok d' \<and> r = Inr (if 1 \<le> l then (True, 0) else (False, (1 - l) / rate))
    \<and> map_of d' key = Some \<lparr>bk_tokens = (if 1 \<le> l then l - 1 else l), bk_last_refill = t\<rparr>
    \<and> (\<forall>j. j \<noteq> key \<longrightarrow> map_of d' j = map_of d j \<or> map_of d' j = None)
    \<and> (has_room n key d \<longrightarrow> (\<forall>j. j \<noteq> key \<longrightarrow> map_of d' j = map_of d j))"
proof -
  obtain d1 b where f: "fetch_bucket n capacity t key d = Inr (d1, b)"
    using fetch_bucket_ok [OF assms(2)] by (metis surj_pair)
  note F = fetch_bucket_Inr [OF assms(1) f, of rate]
  then have l: "refill capacity rate t b = l" by (simp add: l_def)
  show ?thesis
  proof (cases "1 \<le> l")
    case True
    with f l assms(4) have "d' = AList.update key \<lparr>bk_tokens = l - 1, bk_last_refill = t\<rparr> d1" "r = Inr (True, 0)"
      by (simp_all add: consume_def Let_def)
    with F True show ?thesis by (simp add: od update_conv')
  next
    case False
    with f l assms(3,4)
    have "d' = AList.update key \<lparr>bk_tokens = l, bk_last_refill = t\<rparr> d1" "r = Inr (False, (1 - l) / rate)"
      by (simp_all add: consume_def Let_def)
    with F False show ?thesis by (simp add: od update_conv')
  qed
qed

lemma level_other:
  assumes "map_of d' k = map_of d k" shows "level capacity rate k t d' = level capacity rate k t d"
  using assms by (simp add: level_def)

lemma level_bounds:
  assumes "buckets_sound t0 d" "t0 \<le> t" "0 \<le> capacity" "0 \<le> rate"
  shows "0 \<le> level capacity rate k t d \<and> level capacity rate k t d \<le> capacity"
proof (cases "map_of d k")
  case None
  then show ?thesis using assms by (simp add: level_def)
next
  case (Some b)
  with assms have "0 \<le> bk_tokens b" "0 \<le> (t - bk_last_refill b) * rate"
    by (force simp: buckets_sound_def)+
  with Some assms(3) show ?thesis by (simp add: level_def refill_def)
qed

lemma level_later:
  assumes "t \<le> t'" "0 \<le> rate"
  shows "level capacity rate k t' d \<le> level capacity rate k t d + rate * (t' - t)"
proof -
  have "0 \<le> rate * (t' - t)" using assms by simp
  then show ?thesis
    by (auto simp: level_def refill_def min_def algebra_simps split: option.splits)
qed

lemma level_after:
  assumes "map_of d k = Some \<lparr>bk_tokens = x, bk_last_refill = t\<rparr>" "x \<le> capacity"
  shows "level capacity rate k t d = x"
  using assms by (simp add: level_def refill_def min_def)

lemma consume_sound:
  assumes "buckets_sound t0 d" "t0 \<le> t" "0 < n" "0 < rate" "0 \<le> capacity"
    and "consume n capacity rate t key d = (d', r)"
  shows "buckets_sound t d'"
proof -
  have ok: "od_ok d" using assms(1) by (simp add: buckets_sound_def)
  note S = consume_step [OF ok assms(3) _ assms(6)]
  have l: "0 \<le> level capacity rate key t d" using level_bounds assms by simp
  have "0 \<le> bk_tokens b \<and> bk_last_refill b \<le> t" if "map_of d' j = Some b" for j b
  proof (cases "j = key")
    case True
    with S that l assms(4) show ?thesis by (auto split: if_splits)
  next
    case False
    with S that assms(4) have "map_of d j = Some b" by force
    with assms(1,2) show ?thesis by (force simp: buckets_sound_def)
  qed
  with S assms(4) show ?thesis by (simp add: buckets_sound_def)
qed

section \<open>Runs of the limiter\<close>

type_synonym rate_call = "rat \<times> http_request \<times> request_state"

fun run_limiter :: "limiter \<Rightarrow> rate_call list \<Rightarrow> buckets \<Rightarrow> buckets \<times> (limit_error + rate_answer) list" where
  "run_limiter lmt [] d = (d, [])"
| "run_limiter lmt ((t, rq, st) # cs) d =
     (case rate_dispatch lmt t rq st d of (d', a) \<Rightarrow>
        case run_limiter lmt cs d' of (d'', rest) \<Rightarrow> (d'', a # rest))"

fun call_key :: "limiter \<Rightarrow> rate_call \<Rightarrow> ustr" where
  "call_key lmt (t, rq, st) = bucket_key (lm_trusted lmt) rq st"

fun call_allowance :: "limiter \<Rightarrow> rate_call \<Rightarrow> allowance" where
  "call_allowance lmt (t, rq, st) = governing lmt st"

fun draws :: "rate_call \<Rightarrow> bool" where
  "draws (t, rq, st) \<longleftrightarrow> rq_path rq \<notin> set exempt_paths"

text \<open>How many of the calls drew a token from the bucket \<open>k\<close>.\<close>

fun accepted :: "limiter \<Rightarrow> ustr \<Rightarrow> rate_call list \<Rightarrow> (limit_error + rate_answer) list \<Rightarrow> nat" where
  "accepted lmt k (c # cs) (a # rest) =
     (if call_key lmt c = k \<and> draws c \<and> passes a then 1 else 0) + accepted lmt k cs rest"
| "accepted lmt k _ _ = 0"

definition positive_limits :: "limiter \<Rightarrow> bool" where
  "positive_limits lmt \<longleftrightarrow> 0 < lm_max_tracked lmt
     \<and> (\<forall>a \<in> {lm_shared lmt, lm_auth_failure lmt}. 0 < al_rate a \<and> 0 \<le> al_capacity a)"

lemma positive_governing:
  "positive_limits lmt \<Longrightarrow> 0 < al_rate (governing lmt st) \<and> 0 \<le> al_capacity (governing lmt st)"
  by (simp add: positive_limits_def governing_def)

lemma rate_dispatch_exempt: "\<not> draws (t, rq, st) \<Longrightarrow> rate_dispatch lmt t rq st d = (d, Inr Exempt)"
  by (simp add: rate_dispatch_def)

text \<open>The step of a call that draws from its bucket.\<close>

lemma rate_dispatch_draws:
  assumes "od_ok d" "positive_limits lmt" "draws (t, rq, st)"
    and "rate_dispatch lmt t rq st d = (d', a)"
  defines "key \<equiv> bucket_key (lm_trusted lmt) rq st"
    and "g \<equiv> governing lmt st"
  defines "l \<equiv> level (al_capacity g) (al_rate g) key t d"
  shows "od_ok d' \<and> (passes a \<longleftrightarrow> 1 \<le> l)
    \<and> (l < 1 \<longrightarrow> (\<exists>r w i p. a = Inr (Throttled r w ((1 - l) / al_rate g) (py_int ((1 - l) / al_rate g) + 1) i p)))
    \<and> map_of d' key = Some \<lparr>bk_tokens = (if 1 \<le> l then l - 1 else l), bk_last_refill = t\<rparr>
    \<and> (\<forall>j. j \<noteq> key \<longrightarrow> map_of d' j = map_of d j \<or> map_of d' j = None)
    \<and> (has_room (lm_max_tracked lmt) key d \<longrightarrow> (\<forall>j. j \<noteq> key \<longrightarrow> map_of d' j = map_of d j))"
proof -
  have pos: "0 < lm_max_tracked lmt" "al_rate g \<noteq> 0"
    using positive_governing [OF assms(2), of st] assms(2) by (auto simp: positive_limits_def g_def)
  obtain d1 r where c: "consume (lm_max_tracked lmt) (al_capacity g) (al_rate g) t key d = (d1, r)"
    by (metis surj_pair)
  note S = consume_step [OF assms(1) pos c, folded l_def]
  then have r: "r = Inr (if 1 \<le> l then (True, 0) else (False, (1 - l) / al_rate g))" by simp
  have eq: "rate_dispatch lmt t rq st d = (d1, Inr (if 1 \<le> l
      then Passed (al_requests g) (py_int (al_window g))
      else Throttled (al_requests g) (py_int (al_window g)) ((1 - l) / al_rate g)
        (py_int ((1 - l) / al_rate g) + 1) (rs_request_id st) (rq_path rq)))"
    using assms(3) c r by (simp add: rate_dispatch_def Let_def key_def g_def)
  with assms(4) S show ?thesis by (cases "1 \<le> l") auto
qed

lemma buckets_sound_mono: "buckets_sound t d \<Longrightarrow> t \<le> t' \<Longrightarrow> buckets_sound t' d"
  unfolding buckets_sound_def by (meson order_trans)

lemma rate_dispatch_sound:
  assumes "buckets_sound t0 d" "t0 \<le> t" "positive_limits lmt" "rate_dispatch lmt t rq st d = (d', a)"
  shows "buckets_sound t d'"
proof (cases "draws (t, rq, st)")
  case False
  with assms(1,2,4) show ?thesis
    by (auto simp: rate_dispatch_exempt intro: buckets_sound_mono)
next
  case True
  obtain d1 r where c: "consume (lm_max_tracked lmt) (al_capacity (governing lmt st)) (al_rate (governing lmt st)) t
      (bucket_key (lm_trusted lmt) rq st) d = (d1, r)" by (metis surj_pair)
  with True assms(4) have "d' = d1"
    by (auto simp: rate_dispatch_def Let_def split: sum.splits prod.splits bool.splits)
  with consume_sound [OF assms(1,2) _ _ _ c] positive_governing [OF assms(3), of st] assms(3)
  show ?thesis by (simp add: positive_limits_def)
qed

text \<open>With enough slots for every key of the run no bucket is ever evicted.\<close>

lemma has_room_keys:
  assumes "od_ok d" "dom (map_of d) \<subseteq> K" "key \<in> K" "finite K" "int (card K) \<le> n"
  shows "has_room n key d"
proof (cases "map_of d key")
  case None
  then have "dom (map_of d) \<subset> K" using assms(2,3) by blast
  then have "card (dom (map_of d)) < card K" using assms(4) by (rule psubset_card_mono [rotated])
  moreover have "card (dom (map_of d)) = length d"
    using assms(1) distinct_card [of "map fst d"] by (simp add: dom_map_of_conv_image_fst od_ok_def)
  ultimately show ?thesis using assms(5) by (simp add: has_room_def)
qed (simp add: has_room_def)

lemma rate_dispatch_others:
  assumes "od_ok d" "positive_limits lmt" "rate_dispatch lmt t rq st d = (d', a)"
    and "bucket_key (lm_trusted lmt) rq st \<noteq> j"
  shows "map_of d' j = map_of d j \<or> map_of d' j = None"
proof (cases "draws (t, rq, st)")
  case True
  from rate_dispatch_draws [OF assms(1,2) True assms(3)] assms(4) show ?thesis by simp
next
  case False
  with assms(3) show ?thesis by (simp add: rate_dispatch_exempt)
qed

lemma rate_dispatch_dom:
  assumes "od_ok d" "positive_limits lmt" "rate_dispatch lmt t rq st d = (d', a)"
  shows "od_ok d' \<and> dom (map_of d') \<subseteq> insert (bucket_key (lm_trusted lmt) rq st) (dom (map_of d))"
proof
  show "od_ok d'"
  proof (cases "draws (t, rq, st)")
    case True
    from rate_dispatch_draws [OF assms(1,2) True assms(3)] show ?thesis by simp
  next
    case False
    with assms(1,3) show ?thesis by (simp add: rate_dispatch_exempt)
  qed
  show "dom (map_of d') \<subseteq> insert (bucket_key (lm_trusted lmt) rq st) (dom (map_of d))"
    using rate_dispatch_others [OF assms] by (metis domIff insert_iff subsetI)
qed

lemma run_limiter_dom:
  assumes "od_ok d" "positive_limits lmt"
  shows "od_ok (fst (run_limiter lmt cs d))
    \<and> dom (map_of (fst (run_limiter lmt cs d))) \<subseteq> dom (map_of d) \<union> call_key lmt ` set cs"
  using assms(1)
proof (induction cs arbitrary: d)
  case (Cons c cs)
  obtain t rq st where c: "c = (t, rq, st)" by (cases c) auto
  obtain d' a where s: "rate_dispatch lmt t rq st d = (d', a)" by (metis surj_pair)
  have step: "od_ok d'" "dom (map_of d') \<subseteq> insert (call_key lmt c) (dom (map_of d))"
    using rate_dispatch_dom [OF Cons.prems assms(2) s] by (simp_all add: c)
  have eq: "fst (run_limiter lmt (c # cs) d) = fst (run_limiter lmt cs d')"
    by (simp add: c s split: prod.splits)
  show ?case unfolding eq list.set image_insert using Cons.IH [OF step(1)] step(2) by blast
qed simp

text \<open>
  The potential argument: the tokens taken from a bucket and those left in it never exceed what it
  held before and what the elapsed time refills.
\<close>

lemma run_limiter_potential:
  assumes "positive_limits lmt" "finite K" "int (card K) \<le> lm_max_tracked lmt"
    and "\<forall>c \<in> set cs. call_key lmt c = k \<longrightarrow> call_allowance lmt c = g" "0 < al_rate g" "0 \<le> al_capacity g"
    and "buckets_sound t0 d" "dom (map_of d) \<union> call_key lmt ` set cs \<subseteq> K"
    and "sorted (t0 # map fst cs @ [t1])"
    and "run_limiter lmt cs d = (d', answers)"
  shows "of_nat (accepted lmt k cs answers) + level (al_capacity g) (al_rate g) k t1 d'
      \<le> level (al_capacity g) (al_rate g) k t0 d + al_rate g * (t1 - t0)
    \<and> buckets_sound t1 d'"
  using assms(4,7-)
proof (induction cs arbitrary: d t0 d' answers)
  case Nil
  then have "t0 \<le> t1" "d' = d" "answers = []" by simp_all
  with level_later [of t0 t1 "al_rate g"] assms(5) buckets_sound_mono [OF Nil.prems(2)] show ?case by simp
next
  case (Cons c cs)
  let ?l = "level (al_capacity g) (al_rate g) k"
  obtain t rq st where c: "c = (t, rq, st)" by (cases c) auto
  obtain d1 a where s: "rate_dispatch lmt t rq st d = (d1, a)" by (metis surj_pair)
  obtain rest where run: "run_limiter lmt cs d1 = (d', rest)" "answers = a # rest"
    using Cons.prems(5) by (auto simp: c s split: prod.splits)
  have times: "t0 \<le> t" "sorted (t # map fst cs @ [t1])" using Cons.prems(4) by (simp_all add: c)
  have snd1: "buckets_sound t d1" using rate_dispatch_sound [OF Cons.prems(2) times(1) assms(1) s] .
  have ok: "od_ok d" using Cons.prems(2) by (simp add: buckets_sound_def)
  have room: "has_room (lm_max_tracked lmt) (call_key lmt c) d"
    using has_room_keys [OF ok _ _ assms(2,3)] Cons.prems(3) by simp
  let ?one = "of_nat (if call_key lmt c = k \<and> draws c \<and> passes a then 1 else 0) :: rat"
  have step: "?one + ?l t d1 \<le> ?l t d \<and> dom (map_of d1) \<subseteq> K"
  proof (cases "draws c")
    case False
    with s Cons.prems(3) show ?thesis by (simp add: c rate_dispatch_exempt)
  next
    case True
    note S = rate_dispatch_draws [OF ok assms(1) True [unfolded c] s]
    have dom: "dom (map_of d1) \<subseteq> K" 
      by (rule order_trans [OF conjunct2 [OF rate_dispatch_dom [OF ok assms(1) s]]])
        (use Cons.prems(3) in \<open>simp add: c\<close>)
    show ?thesis
    proof (cases "call_key lmt c = k")
      case other: False
      with S room have "?l t d1 = ?l t d" by (intro level_other) (simp add: c)
      with other dom show ?thesis by simp
    next
      case same: True
      then have g: "governing lmt st = g" using Cons.prems(1) by (simp add: c)
      have "?l t d \<le> al_capacity g"
        using level_bounds [OF Cons.prems(2) times(1)] assms(5,6) by simp
      with S same g have "?l t d1 = (if 1 \<le> ?l t d then ?l t d - 1 else ?l t d)"
        by (intro level_after) (auto simp: c)
      with S same g dom True show ?thesis by (simp add: c)
    qed
  qed
  have IH: "of_nat (accepted lmt k cs rest) + ?l t1 d' \<le> ?l t d1 + al_rate g * (t1 - t) \<and> buckets_sound t1 d'"
    using Cons.prems(1,3) step snd1 times(2) run(1) by (intro Cons.IH) auto
  have "?l t d \<le> ?l t0 d + al_rate g * (t - t0)" using level_later times(1) assms(5) by simp
  with IH step show ?case by (simp add: run(2) algebra_simps)
qed

section \<open>Who shares a bucket\<close>

text \<open>A failed authentication has no principal; \<open>AuthMiddleware\<close> guarantees it.\<close>

definition state_sound :: "request_state \<Rightarrow> bool" where
  "state_sound st \<longleftrightarrow> \<not> (rs_auth_failed st \<and> rs_principal st \<noteq> None)"

lemma auth_dispatch_sound: "state_sound (fst (auth_dispatch sha256 keys rid rq))"
  by (auto simp: auth_dispatch_state state_sound_def)

lemma hd_bucket_key:
  "hd (bucket_key T rq st) =
     (case rs_principal st of Some p \<Rightarrow> 112 | None \<Rightarrow> if rs_auth_failed st then 97 else 105)"
  by (simp add: bucket_key_def Let_def u_def split: option.splits)

lemma same_key_same_kind:
  assumes "state_sound st" "state_sound st'" "bucket_key T rq st = bucket_key T rq' st'"
  shows "rs_auth_failed st = rs_auth_failed st' \<and> (rs_principal st = None \<longleftrightarrow> rs_principal st' = None)"
proof -
  have "hd (bucket_key T rq st) = hd (bucket_key T rq' st')" using assms(3) by simp
  with assms(1,2) show ?thesis
    unfolding hd_bucket_key state_sound_def by (auto split: option.splits if_splits)
qed

lemma governing_by_key:
  "state_sound st \<Longrightarrow> state_sound st' \<Longrightarrow> bucket_key T rq st = bucket_key T rq' st'
   \<Longrightarrow> governing lmt st = governing lmt st'"
  using same_key_same_kind by (metis governing_def)

lemma split_at_last_bar:
  fixes a b x y :: ustr
  assumes "a @ 124 # x = b @ 124 # y" "124 \<notin> set x" "124 \<notin> set y"
  shows "a = b \<and> x = y"
proof -
  have upto: "takeWhile (\<lambda>c. c \<noteq> 124) (rev w @ 124 # v) = rev w" if "124 \<notin> set w" for v w :: ustr
    by (subst takeWhile_append2) (use that in auto)
  have "rev x @ 124 # rev a = rev y @ 124 # rev b"
    using arg_cong [OF assms(1), of rev] by simp
  from arg_cong [OF this, of "takeWhile (\<lambda>c. c \<noteq> 124)"] have "x = y"
    by (simp only: upto [OF assms(2)] upto [OF assms(3)] rev_is_rev_conv)
  with assms(1) show ?thesis by simp
qed

text \<open>
  Two requests draw from the same bucket exactly when they have the same client address, the
  same principal id (or none) and agree on whether authentication failed, as long as no client
  address contains a bar: a failing caller cannot drain the budget of unauthenticated callers from
  its address, and no principal can drain another's.
\<close>

theorem shared_bucket_iff:
  assumes "state_sound st" "state_sound st'"
    and "124 \<notin> set (client_ip T rq)" "124 \<notin> set (client_ip T rq')"
  shows "bucket_key T rq st = bucket_key T rq' st' \<longleftrightarrow>
     client_ip T rq = client_ip T rq'
     \<and> map_option pr_id (rs_principal st) = map_option pr_id (rs_principal st')
     \<and> rs_auth_failed st = rs_auth_failed st'"
proof
  assume same: "bucket_key T rq st = bucket_key T rq' st'"
  note kind = same_key_same_kind [OF assms(1,2) same]
  show "client_ip T rq = client_ip T rq'
     \<and> map_option pr_id (rs_principal st) = map_option pr_id (rs_principal st')
     \<and> rs_auth_failed st = rs_auth_failed st'"
  proof (cases "rs_principal st")
    case None
    with same kind show ?thesis by (auto simp: bucket_key_def split: if_splits)
  next
    case (Some p)
    with kind obtain q where q: "rs_principal st' = Some q" by auto
    have bar: "u ''|ip:'' @ s = 124 # u ''ip:'' @ s" for s by (simp add: u_def)
    from same Some q have "pr_id p @ 124 # u ''ip:'' @ client_ip T rq = pr_id q @ 124 # u ''ip:'' @ client_ip T rq'"
      by (simp add: bucket_key_def bar)
    then have "pr_id p = pr_id q \<and> u ''ip:'' @ client_ip T rq = u ''ip:'' @ client_ip T rq'"
      by (rule split_at_last_bar) (use assms(3,4) in \<open>simp_all add: u_def\<close>)
    with Some q kind show ?thesis by simp
  qed
next
  assume "client_ip T rq = client_ip T rq'
     \<and> map_option pr_id (rs_principal st) = map_option pr_id (rs_principal st')
     \<and> rs_auth_failed st = rs_auth_failed st'"
  then show "bucket_key T rq st = bucket_key T rq' st'"
    by (auto simp: bucket_key_def Let_def split: option.splits)
qed

definition limit_request :: http_request where
  "limit_request = \<lparr>rq_method = u ''POST'', rq_path = u ''/query'', rq_peer = Some (u ''10.0.0.1''),
     rq_authorization = Some (u ''Bearer k1''), rq_forwarded_for = Some (u ''1.2.3.4, 9.9.9.9''),
     rq_real_ip = None, rq_request_id = None\<rparr>"

definition failed_state :: request_state where
  "failed_state = \<lparr>rs_request_id = [], rs_principal = None, rs_auth_failed = True\<rparr>"

definition plain_state :: request_state where
  "plain_state = \<lparr>rs_request_id = [], rs_principal = None, rs_auth_failed = False\<rparr>"

theorem shared_bucket_iff_witness:
  "bucket_key {u ''10.0.0.1''} limit_request failed_state \<noteq> bucket_key {u ''10.0.0.1''} limit_request plain_state"
proof -
  have "124 \<notin> set (client_ip {u ''10.0.0.1''} limit_request)"
    by (simp add: ev limit_request_def)
  from shared_bucket_iff [OF _ _ this this, of failed_state plain_state] show ?thesis
    by (simp add: state_sound_def failed_state_def plain_state_def)
qed

section \<open>What the limiter guarantees\<close>

lemma run_limiter_sound:
  assumes "positive_limits lmt" "buckets_sound t0 d" "sorted (t0 # map fst cs @ [t1])"
  shows "buckets_sound t1 (fst (run_limiter lmt cs d))"
  using assms(2,3)
proof (induction cs arbitrary: d t0)
  case Nil
  then show ?case by (simp add: buckets_sound_mono)
next
  case (Cons c cs)
  obtain t rq st where c: "c = (t, rq, st)" by (cases c) auto
  obtain d1 a where s: "rate_dispatch lmt t rq st d = (d1, a)" by (metis surj_pair)
  have "buckets_sound t d1"
    using rate_dispatch_sound [OF Cons.prems(1) _ assms(1) s] Cons.prems(2) by (simp add: c)
  from Cons.IH [OF this] Cons.prems(2) show ?case by (simp add: c s split_def)
qed


definition limit_example :: limiter where
  "limit_example = \<lparr>lm_shared = \<lparr>al_requests = 1, al_capacity = 1, al_rate = 1 / 2, al_window = 2\<rparr>,
     lm_auth_failure = \<lparr>al_requests = 1, al_capacity = 1, al_rate = 1, al_window = 1\<rparr>,
     lm_trusted = {u ''10.0.0.1''}, lm_max_tracked = 10\<rparr>"

lemma limit_example_positive: "positive_limits limit_example"
  by (simp add: positive_limits_def limit_example_def)

lemma limit_example_passes: "rate_dispatch limit_example 1 limit_request plain_state [] =
    ([(u ''ip:1.2.3.4'', \<lparr>bk_tokens = 0, bk_last_refill = 1\<rparr>)], Inr (Passed 1 2))"
  by (simp add: ev Let_def limit_example_def limit_request_def plain_state_def)

lemma limit_example_throttles:
  "rate_dispatch limit_example 1 limit_request plain_state [(u ''ip:1.2.3.4'', \<lparr>bk_tokens = 0, bk_last_refill = 1\<rparr>)] =
    ([(u ''ip:1.2.3.4'', \<lparr>bk_tokens = 0, bk_last_refill = 1\<rparr>)], Inr (Throttled 1 2 2 3 [] (u ''/query'')))"
  by (simp add: ev Let_def limit_example_def limit_request_def plain_state_def)


text \<open>Calls on other keys leave a bucket as it is, or evict it.\<close>

lemma run_limiter_others:
  assumes "positive_limits lmt" "od_ok d" "\<forall>c \<in> set cs. call_key lmt c \<noteq> k"
  shows "map_of (fst (run_limiter lmt cs d)) k = map_of d k \<or> map_of (fst (run_limiter lmt cs d)) k = None"
  using assms(2,3)
proof (induction cs arbitrary: d)
  case (Cons c cs)
  obtain t rq st where c: "c = (t, rq, st)" by (cases c) auto
  obtain d1 a where s: "rate_dispatch lmt t rq st d = (d1, a)" by (metis surj_pair)
  have ok: "od_ok d1" using rate_dispatch_dom [OF Cons.prems(1) assms(1) s] by simp
  have "map_of d1 k = map_of d k \<or> map_of d1 k = None"
    by (rule rate_dispatch_others [OF Cons.prems(1) assms(1) s]) (use Cons.prems(2) in \<open>simp add: c\<close>)
  with Cons.IH [OF ok] Cons.prems(2) show ?case by (auto simp: c s split_def)
qed simp

lemma py_int_less: "0 \<le> x \<Longrightarrow> x < of_int (py_int x + 1)"
  by (simp add: py_int_def) linarith

text \<open>
  C33. A throttled caller that waits the seconds its \<open>Retry-After\<close> header names, which are more than
  none, is accepted, whatever requests other callers made in the meantime.
\<close>

theorem retry_after_suffices:
  assumes "positive_limits lmt" "1 \<le> al_capacity (governing lmt st)"
    and "run_limiter lmt earlier [] = (d, answers0)"
    and "rate_dispatch lmt t rq st d = (d1, Inr (Throttled r w wait after i p))"
    and "run_limiter lmt between d1 = (d2, answers)"
    and "\<forall>c \<in> set between. call_key lmt c \<noteq> bucket_key (lm_trusted lmt) rq st"
    and "state_sound st" "state_sound st'"
    and "bucket_key (lm_trusted lmt) rq' st' = bucket_key (lm_trusted lmt) rq st"
    and "t + of_int after \<le> t'"
  shows "0 < after \<and> passes (snd (rate_dispatch lmt t' rq' st' d2))"
proof -
  let ?k = "bucket_key (lm_trusted lmt) rq st" and ?g = "governing lmt st"
  let ?l = "level (al_capacity ?g) (al_rate ?g) ?k t d"
  have ok: "od_ok d" using run_limiter_dom [of "[]" lmt earlier] assms(1,3) by simp
  have pos: "0 < al_rate ?g" using positive_governing [OF assms(1)] by simp
  have dr: "draws (t, rq, st)" using assms(4) by (auto simp: rate_dispatch_def split: if_splits)
  note S = rate_dispatch_draws [OF ok assms(1) dr assms(4)]
  then have low: "?l < 1" by simp
  with S have after: "after = py_int ((1 - ?l) / al_rate ?g) + 1"
    and stored: "map_of d1 ?k = Some \<lparr>bk_tokens = ?l, bk_last_refill = t\<rparr>" by auto
  have "0 \<le> (1 - ?l) / al_rate ?g" using low pos by simp
  then have enough: "(1 - ?l) / al_rate ?g < of_int after" and "0 < after"
    using py_int_less [of "(1 - ?l) / al_rate ?g"] by (auto simp: after py_int_def)
  have "(1 - ?l) / al_rate ?g \<le> t' - t" using enough assms(10) by linarith
  then have "1 - ?l \<le> (t' - t) * al_rate ?g" using pos by (simp only: pos_divide_le_eq)
  then have refilled: "1 \<le> ?l + (t' - t) * al_rate ?g" by linarith
  have ok2: "od_ok d2" "map_of d2 ?k = map_of d1 ?k \<or> map_of d2 ?k = None"
    using run_limiter_dom [of d1 lmt between] run_limiter_others [OF assms(1) _ assms(6), of d1] S assms(1,5) by auto
  have full: "1 \<le> level (al_capacity ?g) (al_rate ?g) ?k t' d2"
    using ok2(2) stored refilled assms(2) by (auto simp: level_def refill_def)
  have g: "governing lmt st' = ?g" using governing_by_key [OF assms(8,7,9)] .
  have "passes (snd (rate_dispatch lmt t' rq' st' d2))"
  proof (cases "draws (t', rq', st')")
    case True
    from rate_dispatch_draws [OF ok2(1) assms(1) True surjective_pairing] full
    show ?thesis by (simp add: g assms(9))
  next
    case False
    then show ?thesis by (simp add: rate_dispatch_exempt)
  qed
  with \<open>0 < after\<close> show ?thesis by simp
qed

theorem retry_after_suffices_witness:
  "0 < (3 :: int) \<and> passes (snd (rate_dispatch limit_example 4 limit_request plain_state
      (fst (run_limiter limit_example [(2, limit_request, failed_state)]
        [(u ''ip:1.2.3.4'', \<lparr>bk_tokens = 0, bk_last_refill = 1\<rparr>)]))))"
proof -
  let ?c = "(1 :: rat, limit_request, plain_state)" and ?f = "(2 :: rat, limit_request, failed_state)"
  have run: "run_limiter limit_example [?c] [] = ([(u ''ip:1.2.3.4'', \<lparr>bk_tokens = 0, bk_last_refill = 1\<rparr>)],
      [Inr (Passed 1 2)])"
    by (simp add: limit_example_passes)
  have other: "\<forall>c \<in> set [?f]. call_key limit_example c \<noteq> bucket_key (lm_trusted limit_example) limit_request plain_state"
    by (simp add: ev limit_example_def limit_request_def plain_state_def failed_state_def)
  from retry_after_suffices [OF limit_example_positive _ run limit_example_throttles surjective_pairing other,
      of plain_state limit_request 4]
  show ?thesis by (simp add: governing_def plain_state_def limit_example_def state_sound_def)
qed


text \<open>
  Behind a trusted proxy the caller names its own bucket: the proxy appends the address it saw, and
  the limiter reads the first entry of the header.
\<close>

theorem forwarded_caller_names_its_bucket:
  assumes "rq_peer rq = Some proxy" "proxy \<in> trusted" "44 \<notin> set claimed" "claimed \<noteq> []"
    and "rq_forwarded_for rq = Some (claimed @ 44 # seen)"
  shows "client_ip trusted rq = strip claimed"
proof -
  have "hd (split_on 44 (claimed @ 44 # seen)) = claimed"
    using assms(3) by (induction claimed) (auto split: list.splits)
  with assms show ?thesis by (simp add: client_ip_def)
qed

text \<open>
  A limit of no requests is accepted at construction and divides by zero at the first throttled call,
  whose level is stored all the same.
\<close>

theorem no_requests_divides_by_zero:
  assumes "make_allowance 0 window burst = Inr a" "map_of d key = Some b"
    and "refill (al_capacity a) 0 t b < 1"
  shows "snd (consume n (al_capacity a) (al_rate a) t key d) = Inl Zero_division"
proof -
  have "al_rate a = 0" using assms(1) by (auto simp: make_allowance_def split: if_splits)
  with assms(2,3) show ?thesis by (simp add: consume_def fetch_bucket_def Let_def)
qed

end
