(* ===== verification/Admission.thy ===== *)
theory Admission
  imports Rate_Limit
begin

text \<open>
  The front of the API as \<open>api/server.py\<close> stacks it: request id, authentication, rate limit,
  concurrency cap (\<open>ConcurrencyMiddleware\<close> of \<open>api/middleware.py\<close>), then the route behind its gates;
  and the worker slots of \<open>api/concurrency.py\<close>. Requests overlap: a request arrives, runs, and
  finishes in a later step. CORS, the security headers and the bodies of the routes are not modelled.
\<close>

section \<open>A pool of slots\<close>

text \<open>
  The contract the admission counter and the worker semaphore share: a slot is given unless all are
  taken, and giving one back frees exactly one.
\<close>

locale slot_pool =
  fixes acquire :: "'p \<Rightarrow> 'p option"
    and release :: "'p \<Rightarrow> 'p"
    and held :: "'p \<Rightarrow> int"
    and size :: int
  assumes acquire_full: "acquire p = None \<longleftrightarrow> size \<le> held p"
    and acquire_held: "acquire p = Some q \<Longrightarrow> held q = held p + 1"
    and release_held: "held (release p) = held p - 1"
begin

definition accounts :: "'p \<Rightarrow> nat \<Rightarrow> bool" where
  "accounts p n \<longleftrightarrow> held p = int n \<and> (size < 0 \<longrightarrow> n = 0) \<and> (0 \<le> size \<longrightarrow> int n \<le> size)"

lemma accounts_acquire: "accounts p n \<Longrightarrow> acquire p = Some q \<Longrightarrow> accounts q (Suc n)"
  using acquire_full [of p] by (auto simp: accounts_def acquire_held)

lemma accounts_refused: "accounts p n \<Longrightarrow> acquire p = None \<longleftrightarrow> int n = max 0 size"
  by (auto simp: accounts_def acquire_full)

lemma accounts_release: "accounts p (Suc n) \<Longrightarrow> accounts (release p) n"
  by (auto simp: accounts_def release_held)

end

section \<open>The concurrency cap\<close>

definition session_turns_path :: "ustr \<Rightarrow> bool" where
  "session_turns_path path =
     (case split_on 47 path of
        [e, v, s, sid, w] \<Rightarrow> e = [] \<and> v = u ''v2'' \<and> s = u ''sessions'' \<and> sid \<noteq> []
          \<and> (w = u ''turns'' \<or> w = u ''turns'' @ [10])
      | _ \<Rightarrow> False)"

definition turn_assumptions_path :: "ustr \<Rightarrow> bool" where
  "turn_assumptions_path path =
     (case split_on 47 path of
        [e, v, s, sid, w, tid, x] \<Rightarrow> e = [] \<and> v = u ''v2'' \<and> s = u ''sessions'' \<and> sid \<noteq> []
          \<and> w = u ''turns'' \<and> tid \<noteq> [] \<and> (x = u ''assumptions'' \<or> x = u ''assumptions'' @ [10])
      | _ \<Rightarrow> False)"

text \<open>\<open>_is_capped_request\<close>; the \<open>$\<close> of its patterns also matches before a final newline.\<close>

definition is_capped_request :: "ustr \<Rightarrow> ustr \<Rightarrow> bool" where
  "is_capped_request path http_method =
     (if http_method = u ''POST'' \<and> (path = u ''/query'' \<or> path = u ''/query/stream'') then True
      else if http_method = u ''POST'' \<and> session_turns_path path then True
      else if http_method = u ''PATCH'' \<and> turn_assumptions_path path then True
      else False)"

text \<open>\<open>_try_acquire\<close> and \<open>_release\<close> on the counter.\<close>

definition try_acquire :: "int \<Rightarrow> int \<Rightarrow> int option" where
  "try_acquire max_active active = (if active \<ge> max_active then None else Some (active + 1))"

definition release_slot :: "int \<Rightarrow> int" where
  "release_slot active = active - 1"

text \<open>
  \<open>run_bounded\<close>'s semaphore: its value counts the free worker slots; a caller waits while it is
  zero, which is \<open>None\<close> here.
\<close>

definition semaphore_acquire :: "int \<Rightarrow> int option" where
  "semaphore_acquire v = (if v \<le> 0 then None else Some (v - 1))"

definition semaphore_release :: "int \<Rightarrow> int" where
  "semaphore_release v = v + 1"

interpretation admission_slots: slot_pool "try_acquire n" release_slot "\<lambda>active. active" n for n
  by unfold_locales (auto simp: try_acquire_def release_slot_def split: if_splits)

interpretation worker_slots: slot_pool semaphore_acquire semaphore_release "\<lambda>v. n - v" n for n
  by unfold_locales (auto simp: semaphore_acquire_def semaphore_release_def split: if_splits)

section \<open>The stack\<close>

text \<open>What the pipeline's routes declare: the capability, and whether they refuse in maintenance.\<close>

definition query_gate :: "route_capability \<times> bool" where
  "query_gate = (Any_caller, True)"

definition query_stream_gate :: "route_capability \<times> bool" where
  "query_stream_gate = (Any_caller, True)"

definition ask_turn_gate :: "route_capability \<times> bool" where
  "ask_turn_gate = (Any_caller, True)"

definition patch_assumptions_gate :: "route_capability \<times> bool" where
  "patch_assumptions_gate = (Any_caller, False)"

text \<open>The gate of a request; what the other routes declare is an argument.\<close>

definition route_gate :: "(http_request \<Rightarrow> route_capability \<times> bool) \<Rightarrow> http_request \<Rightarrow> route_capability \<times> bool" where
  "route_gate other rq =
     (if rq_method rq = u ''POST'' \<and> rq_path rq = u ''/query'' then query_gate
      else if rq_method rq = u ''POST'' \<and> rq_path rq = u ''/query/stream'' then query_stream_gate
      else if rq_method rq = u ''POST'' \<and> session_turns_path (rq_path rq) then ask_turn_gate
      else if rq_method rq = u ''PATCH'' \<and> turn_assumptions_path (rq_path rq) then patch_assumptions_gate
      else other rq)"

record front_config =
  fc_unicode :: unicode_db
  fc_sha256 :: "ustr \<Rightarrow> ustr"
  fc_limiter :: limiter
  fc_max_concurrent :: int
  fc_auth_required :: bool
  fc_other_gate :: "http_request \<Rightarrow> route_capability \<times> bool"

text \<open>A request past the concurrency cap, until its whole response has been sent.\<close>

record flight =
  fl_request :: http_request
  fl_holds_slot :: bool
  fl_verdict :: "gate_error + principal"

record server_state =
  sv_buckets :: buckets
  sv_active :: int
  sv_in_flight :: "flight list"
  sv_maintenance :: maintenance_state
  sv_auth_failures :: "(ustr \<times> ustr) list"

definition server_start :: server_state where
  "server_start = \<lparr>sv_buckets = [], sv_active = 0, sv_in_flight = [], sv_maintenance = maintenance_off,
     sv_auth_failures = []\<rparr>"

datatype front_answer =
    Limiter_failed limit_error
  | Rate_limited rate_answer
  | Overloaded (overload_max: int) (overload_id: ustr) (overload_path: ustr)
  | Entered "gate_error + principal"

text \<open>\<open>ConcurrencyMiddleware.__call__\<close> around the route: the slot is taken before and kept in flight.\<close>

definition concurrency_enter ::
    "front_config \<Rightarrow> http_request \<Rightarrow> request_state \<Rightarrow> server_state \<Rightarrow> server_state \<times> front_answer" where
  "concurrency_enter fc rq st sv =
     (let (cap, mnt) = route_gate (fc_other_gate fc) rq;
          verdict = pass_gates (fc_unicode fc) (fc_auth_required fc) (sv_maintenance sv) cap mnt rq st
      in if \<not> is_capped_request (rq_path rq) (rq_method rq)
         then (sv\<lparr>sv_in_flight := sv_in_flight sv @ [\<lparr>fl_request = rq, fl_holds_slot = False, fl_verdict = verdict\<rparr>]\<rparr>,
               Entered verdict)
         else case try_acquire (fc_max_concurrent fc) (sv_active sv) of
           None \<Rightarrow> (sv, Overloaded (fc_max_concurrent fc) (rs_request_id st) (rq_path rq))
         | Some active \<Rightarrow>
             (sv\<lparr>sv_active := active,
                 sv_in_flight := sv_in_flight sv @ [\<lparr>fl_request = rq, fl_holds_slot = True, fl_verdict = verdict\<rparr>]\<rparr>,
              Entered verdict))"

definition arrive ::
    "front_config \<Rightarrow> rat \<Rightarrow> (ustr, principal) odict option \<Rightarrow> ustr \<Rightarrow> http_request \<Rightarrow> server_state
     \<Rightarrow> server_state \<times> front_answer" where
  "arrive fc t keys fresh rq sv =
     (let (st, failures) = auth_dispatch (fc_sha256 fc) keys (stamp_request_id fresh rq) rq;
          (buckets', a) = rate_dispatch (fc_limiter fc) t rq st (sv_buckets sv);
          sv1 = sv\<lparr>sv_buckets := buckets', sv_auth_failures := sv_auth_failures sv @ failures\<rparr>
      in case a of
           Inl e \<Rightarrow> (sv1, Limiter_failed e)
         | Inr (Throttled r w wait after i p) \<Rightarrow> (sv1, Rate_limited (Throttled r w wait after i p))
         | Inr _ \<Rightarrow> concurrency_enter fc rq st sv1)"

text \<open>The \<open>finally\<close> block: the i-th request in flight has been answered, failed or disconnected.\<close>

definition finish_request :: "nat \<Rightarrow> server_state \<Rightarrow> server_state" where
  "finish_request i sv =
     sv\<lparr>sv_in_flight := take i (sv_in_flight sv) @ drop (Suc i) (sv_in_flight sv),
        sv_active := (if fl_holds_slot (sv_in_flight sv ! i) then release_slot (sv_active sv) else sv_active sv)\<rparr>"

declare session_turns_path_def [ev] turn_assumptions_path_def [ev] is_capped_request_def [ev] try_acquire_def [ev]
  release_slot_def [ev] query_gate_def [ev] query_stream_gate_def [ev] ask_turn_gate_def [ev]
  patch_assumptions_gate_def [ev] route_gate_def [ev] server_start_def [ev] concurrency_enter_def [ev]
  arrive_def [ev] finish_request_def [ev]

section \<open>Every slot is accounted for\<close>

inductive server_step :: "front_config \<Rightarrow> server_state \<Rightarrow> server_state \<Rightarrow> bool" for fc where
  Arrives: "server_step fc sv (fst (arrive fc t keys fresh rq sv))"
| Finishes: "i < length (sv_in_flight sv) \<Longrightarrow> server_step fc sv (finish_request i sv)"
| Enables: "server_step fc sv (sv\<lparr>sv_maintenance := maintenance_enable ts note actor (sv_maintenance sv)\<rparr>)"
| Disables: "server_step fc sv (sv\<lparr>sv_maintenance := maintenance_disable ts actor (sv_maintenance sv)\<rparr>)"

inductive_cases server_stepE: "server_step fc sv sv'"

definition slots_taken :: "server_state \<Rightarrow> nat" where
  "slots_taken sv = length (filter fl_holds_slot (sv_in_flight sv))"

definition slots_accounted :: "front_config \<Rightarrow> server_state \<Rightarrow> bool" where
  "slots_accounted fc sv \<longleftrightarrow> admission_slots.accounts (fc_max_concurrent fc) (sv_active sv) (slots_taken sv)
     \<and> (\<forall>f \<in> set (sv_in_flight sv).
          fl_holds_slot f \<longleftrightarrow> is_capped_request (rq_path (fl_request f)) (rq_method (fl_request f)))"

lemma concurrency_enter_accounted:
  assumes "slots_accounted fc sv"
  shows "slots_accounted fc (fst (concurrency_enter fc rq st sv))"
proof (cases "is_capped_request (rq_path rq) (rq_method rq)")
  case False
  with assms show ?thesis
    by (auto simp: concurrency_enter_def slots_accounted_def slots_taken_def Let_def split_def)
next
  case True
  show ?thesis
  proof (cases "try_acquire (fc_max_concurrent fc) (sv_active sv)")
    case None
    with True assms show ?thesis by (simp add: concurrency_enter_def Let_def split_def)
  next
    case (Some active)
    with True assms admission_slots.accounts_acquire show ?thesis
      by (auto simp: concurrency_enter_def slots_accounted_def slots_taken_def Let_def split_def)
  qed
qed

lemma arrive_cases:
  obtains b fs where "fst (arrive fc t keys fresh rq sv) = sv\<lparr>sv_buckets := b, sv_auth_failures := fs\<rparr>"
  | b fs st where "arrive fc t keys fresh rq sv = concurrency_enter fc rq st (sv\<lparr>sv_buckets := b, sv_auth_failures := fs\<rparr>)"
proof -
  obtain st fs where a: "auth_dispatch (fc_sha256 fc) keys (stamp_request_id fresh rq) rq = (st, fs)"
    by (metis surj_pair)
  obtain b r where r: "rate_dispatch (fc_limiter fc) t rq st (sv_buckets sv) = (b, r)" by (metis surj_pair)
  show thesis
  proof (cases "\<exists>e. r = Inl e \<or> (\<exists>q w x after i p. r = Inr (Throttled q w x after i p))")
    case True
    with a r show thesis by (intro that(1)) (auto simp: arrive_def Let_def)
  next
    case False
    with a r have "arrive fc t keys fresh rq sv =
        concurrency_enter fc rq st (sv\<lparr>sv_buckets := b, sv_auth_failures := sv_auth_failures sv @ fs\<rparr>)"
      by (auto simp: arrive_def Let_def split: sum.splits rate_answer.splits)
    then show thesis by (rule that(2))
  qed
qed

lemma finish_accounted:
  assumes "slots_accounted fc sv" "i < length (sv_in_flight sv)"
  shows "slots_accounted fc (finish_request i sv)"
proof -
  let ?fs = "sv_in_flight sv"
  have split: "?fs = take i ?fs @ ?fs ! i # drop (Suc i) ?fs" using assms(2) by (rule id_take_nth_drop)
  have "slots_taken sv = length (filter fl_holds_slot (take i ?fs @ ?fs ! i # drop (Suc i) ?fs))"
    using split by (simp add: slots_taken_def)
  then have n: "slots_taken sv = slots_taken (finish_request i sv) + (if fl_holds_slot (?fs ! i) then 1 else 0)"
    by (simp add: slots_taken_def finish_request_def)
  have "set (sv_in_flight (finish_request i sv)) \<subseteq> set ?fs"
    by (auto simp: finish_request_def dest: in_set_takeD in_set_dropD)
  with assms(1) n admission_slots.accounts_release show ?thesis
    by (auto simp: slots_accounted_def finish_request_def)
qed

lemma server_step_accounted: "server_step fc sv sv' \<Longrightarrow> slots_accounted fc sv \<Longrightarrow> slots_accounted fc sv'"
proof (induction rule: server_step.induct)
  case (Arrives sv t keys fresh rq)
  show ?case
  proof (rule arrive_cases [of fc t keys fresh rq sv])
    fix b fs assume "fst (arrive fc t keys fresh rq sv) = sv\<lparr>sv_buckets := b, sv_auth_failures := fs\<rparr>"
    with Arrives show ?thesis by (simp add: slots_accounted_def slots_taken_def)
  next
    fix b fs st
    assume "arrive fc t keys fresh rq sv = concurrency_enter fc rq st (sv\<lparr>sv_buckets := b, sv_auth_failures := fs\<rparr>)"
    moreover have "slots_accounted fc (sv\<lparr>sv_buckets := b, sv_auth_failures := fs\<rparr>)"
      using Arrives by (simp add: slots_accounted_def slots_taken_def)
    ultimately show ?thesis by (simp add: concurrency_enter_accounted)
  qed
qed (rule finish_accounted, simp_all add: slots_accounted_def slots_taken_def)

lemma reachable_accounted: "(server_step fc)\<^sup>*\<^sup>* server_start sv \<Longrightarrow> slots_accounted fc sv"
proof (induction rule: rtranclp_induct)
  case base
  show ?case
    by (simp add: slots_accounted_def slots_taken_def server_start_def admission_slots.accounts_def)
next
  case (step sv sv')
  then show ?case by (blast intro: server_step_accounted)
qed

fun is_overload :: "front_answer \<Rightarrow> bool" where
  "is_overload (Overloaded _ _ _) \<longleftrightarrow> True"
| "is_overload _ \<longleftrightarrow> False"

definition limiter_lets_through ::
    "front_config \<Rightarrow> rat \<Rightarrow> (ustr, principal) odict option \<Rightarrow> ustr \<Rightarrow> http_request \<Rightarrow> server_state \<Rightarrow> bool" where
  "limiter_lets_through fc t keys fresh rq sv \<longleftrightarrow>
     passes (snd (rate_dispatch (fc_limiter fc) t rq
       (fst (auth_dispatch (fc_sha256 fc) keys (stamp_request_id fresh rq) rq)) (sv_buckets sv)))"

lemma overload_enter:
  "is_overload (snd (concurrency_enter fc rq st sv)) \<longleftrightarrow>
     is_capped_request (rq_path rq) (rq_method rq) \<and> try_acquire (fc_max_concurrent fc) (sv_active sv) = None"
  by (auto simp: concurrency_enter_def Let_def split_def split: option.splits)

lemma overload_arrive:
  "is_overload (snd (arrive fc t keys fresh rq sv)) \<longleftrightarrow>
     limiter_lets_through fc t keys fresh rq sv \<and> is_capped_request (rq_path rq) (rq_method rq)
     \<and> try_acquire (fc_max_concurrent fc) (sv_active sv) = None"
proof -
  obtain st fs where a: "auth_dispatch (fc_sha256 fc) keys (stamp_request_id fresh rq) rq = (st, fs)"
    by (metis surj_pair)
  obtain b r where r: "rate_dispatch (fc_limiter fc) t rq st (sv_buckets sv) = (b, r)" by (metis surj_pair)
  show ?thesis
  proof (cases r)
    case (Inl e)
    with a r show ?thesis by (simp add: arrive_def limiter_lets_through_def Let_def)
  next
    case (Inr x)
    with a r show ?thesis
      by (cases x) (simp_all add: arrive_def limiter_lets_through_def Let_def overload_enter)
  qed
qed

text \<open>
  C34. However requests arrive, overlap, finish and are refused, and however maintenance is switched,
  the counter is the number of pipeline requests in flight, at most the configured maximum; and a
  request is turned away for overload exactly when it is a pipeline request the limiter lets through
  and every slot is taken by one in flight.
\<close>

theorem slots_are_accounted:
  assumes "(server_step fc)\<^sup>*\<^sup>* server_start sv"
  shows "sv_active sv = int (slots_taken sv) \<and> sv_active sv \<le> max 0 (fc_max_concurrent fc)
    \<and> slots_taken sv = length (filter (\<lambda>f. is_capped_request (rq_path (fl_request f)) (rq_method (fl_request f))) (sv_in_flight sv))
    \<and> (is_overload (snd (arrive fc t keys fresh rq sv)) \<longleftrightarrow>
         limiter_lets_through fc t keys fresh rq sv \<and> is_capped_request (rq_path rq) (rq_method rq)
         \<and> int (slots_taken sv) = max 0 (fc_max_concurrent fc))"
proof -
  from reachable_accounted [OF assms]
  have acc: "admission_slots.accounts (fc_max_concurrent fc) (sv_active sv) (slots_taken sv)"
    and mem: "\<forall>f \<in> set (sv_in_flight sv).
      fl_holds_slot f = is_capped_request (rq_path (fl_request f)) (rq_method (fl_request f))"
    by (simp_all add: slots_accounted_def)
  from mem have "slots_taken sv = length (filter (\<lambda>f. is_capped_request (rq_path (fl_request f)) (rq_method (fl_request f))) (sv_in_flight sv))"
    by (simp add: slots_taken_def cong: filter_cong)
  moreover note overload_arrive admission_slots.accounts_refused [OF acc]
  moreover from acc have "sv_active sv = int (slots_taken sv) \<and> sv_active sv \<le> max 0 (fc_max_concurrent fc)"
    by (auto simp: admission_slots.accounts_def)
  ultimately show ?thesis by simp
qed

definition front_example :: front_config where
  "front_example = \<lparr>fc_unicode = ascii_db, fc_sha256 = id, fc_limiter = limit_example, fc_max_concurrent = 1,
     fc_auth_required = True, fc_other_gate = (\<lambda>rq. (Any_caller, False))\<rparr>"

theorem slots_are_accounted_witness:
  "is_overload (snd (arrive front_example 9 (Some [(u ''k1'', gate_operator)]) [] limit_request
      (fst (arrive front_example 1 (Some [(u ''k1'', gate_operator)]) [] limit_request server_start))))"
proof -
  let ?keys = "Some [(u ''k1'', gate_operator)]"
  let ?sv = "fst (arrive front_example 1 ?keys [] limit_request server_start)"
  have reach: "(server_step front_example)\<^sup>*\<^sup>* server_start ?sv"
    by (intro r_into_rtranclp server_step.Arrives)
  have sv: "?sv = \<lparr>sv_buckets = [(u ''principal:ops|ip:1.2.3.4'', \<lparr>bk_tokens = 0, bk_last_refill = 1\<rparr>)], sv_active = 1,
      sv_in_flight = [\<lparr>fl_request = limit_request, fl_holds_slot = True, fl_verdict = Inr gate_operator\<rparr>],
      sv_maintenance = maintenance_off, sv_auth_failures = []\<rparr>"
    by (simp add: ev Let_def front_example_def limit_example_def limit_request_def gate_operator_def)
  have "slots_taken ?sv = 1" unfolding sv by (simp add: slots_taken_def)
  moreover have "limiter_lets_through front_example 9 ?keys [] limit_request ?sv"
    unfolding sv limiter_lets_through_def
    by (simp add: ev Let_def front_example_def limit_example_def limit_request_def gate_operator_def)
  moreover have "is_capped_request (rq_path limit_request) (rq_method limit_request)"
    by (simp add: ev limit_request_def)
  ultimately show ?thesis using slots_are_accounted [OF reach, of 9 ?keys "[]" limit_request]
    by (simp add: front_example_def)
qed

section \<open>Which requests are capped, and which refuse in maintenance\<close>

lemma session_turns_path_iff:
  "session_turns_path p \<longleftrightarrow> (\<exists>sid tail. p = u ''/v2/sessions/'' @ sid @ u ''/turns'' @ tail
     \<and> sid \<noteq> [] \<and> 47 \<notin> set sid \<and> tail \<in> {[], [10]})"
proof
  assume "session_turns_path p"
  then obtain sid tail where s: "split_on 47 p = [[], u ''v2'', u ''sessions'', sid, u ''turns'' @ tail]"
      "sid \<noteq> []" "tail \<in> {[], [10]}"
    by (auto simp: session_turns_path_def split: list.splits)
  have "47 \<notin> set sid" using split_on_sep_free [of sid 47 p] s(1) by simp
  moreover have "p = u ''/v2/sessions/'' @ sid @ u ''/turns'' @ tail"
    using split_on_join [of 47 p] s(1) by (simp add: u_def)
  ultimately show "\<exists>sid tail. p = u ''/v2/sessions/'' @ sid @ u ''/turns'' @ tail
     \<and> sid \<noteq> [] \<and> 47 \<notin> set sid \<and> tail \<in> {[], [10]}" using s(2,3) by blast
next
  assume "\<exists>sid tail. p = u ''/v2/sessions/'' @ sid @ u ''/turns'' @ tail
     \<and> sid \<noteq> [] \<and> 47 \<notin> set sid \<and> tail \<in> {[], [10]}"
  then obtain sid tail where p: "p = join [47] [[], u ''v2'', u ''sessions'', sid, u ''turns'' @ tail]"
      and s: "sid \<noteq> []" "47 \<notin> set sid" "tail \<in> {[], [10]}"
    by (auto simp: u_def)
  have "split_on 47 p = [[], u ''v2'', u ''sessions'', sid, u ''turns'' @ tail]"
    unfolding p by (rule join_split_on) (use s in \<open>auto simp: u_def\<close>)
  with s show "session_turns_path p" by (auto simp: session_turns_path_def)
qed

text \<open>
  The route that overrides a turn's assumptions runs the pipeline again, so it takes a slot, but does
  not ask whether maintenance is on: it lets in during maintenance whom it lets in otherwise.
\<close>

theorem assumption_override_ignores_maintenance:
  assumes "rq_method rq = u ''PATCH''" "turn_assumptions_path (rq_path rq)"
  shows "is_capped_request (rq_path rq) (rq_method rq)"
    and "route_gate other rq = (cap, mnt) \<Longrightarrow>
      pass_gates U req m cap mnt rq st = pass_gates U req maintenance_off cap mnt rq st"
  using assms by (auto simp: is_capped_request_def route_gate_def patch_assumptions_gate_def pass_gates_def u_def
      split: sum.splits)

end
