(* ===== verification/Agent_World.thy ===== *)
theory Agent_World
  imports Sql_Agent
begin

text \<open>
  What a run of the agent does to the world around it, for any property of the world that the calls
  to the model, the executions and the cache lookups keep: the property still holds afterwards, and a
  result was obtained by running the statement it reports, at a moment when the property held.
\<close>

definition router_backends :: "'w router \<Rightarrow> 'w backend set" where
  "router_backends R = set (ro_default_chain R) \<union> (\<Union>c \<in> snd ` set (ro_chains R). set c)"

definition backend_keeps :: "('w \<Rightarrow> bool) \<Rightarrow> 'w backend \<Rightarrow> bool" where
  "backend_keeps P b \<longleftrightarrow> (\<forall>req w. P w \<longrightarrow> P (snd (snd (be_call b req w))))"

definition world_kept :: "('w \<Rightarrow> bool) \<Rightarrow> ('w, 'd) agent_env \<Rightarrow> bool" where
  "world_kept P E \<longleftrightarrow> (\<forall>b \<in> router_backends (ag_router E). backend_keeps P b)
     \<and> (\<forall>sql w. P w \<longrightarrow> P (snd (ag_execute E sql w)))
     \<and> (\<forall>f sql w. ag_cache_lookup E = Some f \<longrightarrow> P w \<longrightarrow> P (snd (f sql w)))"

lemma send_world:
  assumes "backend_keeps P b" "P (world s)"
  shows "P (world (snd (snd (send b req s))))"
proof -
  obtain r x w where c: "be_call b req (world s) = (r, x, w)" by (metis prod_cases3)
  have "P w" using assms c unfolding backend_keeps_def by (metis snd_conv)
  with c show ?thesis by (simp add: send_def)
qed

lemma governance_world: "governance_check E b task segs s = Inr s1 \<Longrightarrow> world s1 = world s"
  by (auto simp: governance_check_def split: if_splits)

lemma note_prefix_use_world [simp]: "world (note_prefix_use E i segs s) = world s"
  by (simp add: note_prefix_use_def)

lemma try_chain_world:
  assumes "\<forall>b \<in> set bs. backend_keeps P b" "P (world s)"
  shows "P (world (snd (try_chain E budget task segs req i e0 bs s)))"
  using assms
proof (induction bs arbitrary: i e0 s)
  case (Cons b bs)
  show ?case
  proof (cases "governance_check E b task segs s")
    case (Inl e)
    with Cons.prems show ?thesis by simp
  next
    case (Inr s1)
    obtain r x s2 where c: "send b req s1 = (r, x, s2)" by (metis prod_cases3)
    have "P (world s2)"
      using send_world [of P b s1 req] Cons.prems governance_world [OF Inr] by (simp add: c)
    with Cons.IH [of s2] Cons.prems Inr c show ?thesis
      by (auto split: sum.split)
  qed
qed simp

lemma chain_for_backends: "chain_for R task = Inr bs \<Longrightarrow> set bs \<subseteq> router_backends R"
  by (auto simp: chain_for_def router_backends_def Let_def split: option.splits if_splits
      dest!: map_of_SomeD)

lemma generate_for_task_world:
  assumes "\<forall>b \<in> router_backends R. backend_keeps P b" "P (world s)"
  shows "P (world (snd (generate_for_task E R task segs s)))"
proof (cases "chain_for R task")
  case (Inl e)
  with assms show ?thesis by (simp add: generate_for_task_def call_chain_def)
next
  case (Inr bs)
  obtain r s' where t: "try_chain E (map_of (ro_budgets R) task) task segs (Ask_segments segs) 0 None bs s = (r, s')"
    by fastforce
  have "\<forall>b \<in> set bs. backend_keeps P b" using chain_for_backends [OF Inr] assms(1) by blast
  from try_chain_world [OF this assms(2)] t have "P (world s')" by (metis snd_conv)
  with Inr t show ?thesis by (simp add: generate_for_task_def call_chain_def split: sum.split)
qed

lemma generate_sql_world:
  assumes "world_kept P E" "P (now st)"
  shows "P (now (snd (generate_sql E segs st)))"
proof -
  obtain r ls where g: "generate_for_task (ag_llm E) (ag_router E) (u ''sql_generation'') segs (as_llm st) = (r, ls)"
    by fastforce
  have "P (world ls)"
    using generate_for_task_world [of "ag_router E" P "as_llm st"] assms g
    unfolding world_kept_def now_def by (metis snd_conv)
  with g show ?thesis by (simp add: generate_sql_def now_def)
qed

lemma run_statement_world:
  assumes "world_kept P E" "P (now st)"
  shows "P (now (snd (run_statement E sql st)))"
proof -
  have ex: "P (snd (ag_execute E sql w))" if "P w" for w
    using assms(1) that by (simp add: world_kept_def)
  show ?thesis
  proof (cases "ag_cache_lookup E")
    case None
    with ex [OF assms(2)] show ?thesis
      by (simp add: run_statement_def now_def set_world_def split_def)
  next
    case (Some f)
    obtain df w where f: "f sql (now st) = (df, w)" by fastforce
    have "P w" using assms Some f unfolding world_kept_def by (metis snd_conv)
    with ex [OF this] Some f show ?thesis
      by (simp add: run_statement_def now_def set_world_def split_def split: option.split)
  qed
qed

lemma generate_with_fallback_world:
  assumes "world_kept P E" "P (now st)"
    and "generate_with_source_fallback (ag_build E) (generate_sql E) routing segs st = (res, routing', st')"
  shows "P (now st')"
  using assms(3)
proof (cases rule: generate_fallback_cases)
  case (once r)
  with generate_sql_world [OF assms(1,2), of segs] show ?thesis by simp
next
  case (twice e s1 rt rt' src r)
  from generate_sql_world [OF assms(1,2), of segs] twice have "P (now s1)" by simp
  from generate_sql_world [OF assms(1) this, of "ag_build E src"] twice show ?thesis by simp
qed

section \<open>Results are obtained by running the statement they report\<close>

definition obtained :: "('w \<Rightarrow> bool) \<Rightarrow> ('w, 'd) agent_env \<Rightarrow> failure + 'd \<times> sql_result \<Rightarrow> bool" where
  "obtained P E r \<longleftrightarrow> (\<forall>df g. r = Inr (df, g) \<longrightarrow>
     (\<exists>st st'. P (now st) \<and> run_statement E (gr_sql g) st = (Inr df, st')))"

definition outcome_kept :: "('w \<Rightarrow> bool) \<Rightarrow> ('w, 'd) agent_env \<Rightarrow> ('w, 'd) round_outcome \<Rightarrow> bool" where
  "outcome_kept P E out =
     (case out of Leave r st \<Rightarrow> P (now st) \<and> obtained P E r | Again v st \<Rightarrow> P (now st))"

lemma obtained_Inl [simp]: "obtained P E (Inl f)"
  by (simp add: obtained_def)

lemma obtainedI: "P (now st) \<Longrightarrow> run_statement E (gr_sql g) st = (Inr df, st') \<Longrightarrow> obtained P E (Inr (df, g))"
  by (auto simp: obtained_def)

lemma execute_stage_kept:
  assumes "world_kept P E" "P (now st)"
  shows "outcome_kept P E (execute_stage E k v meta cap sp st)"
proof -
  obtain r st1 where run: "run_statement E (lv_sql v) st = (r, st1)" by fastforce
  have P1: "P (now st1)" using run_statement_world [OF assms, of "lv_sql v"] run by simp
  show ?thesis
  proof (cases r)
    case (Inl e)
    with run P1 show ?thesis by (simp add: execute_stage_def outcome_kept_def)
  next
    case (Inr df)
    with run P1 assms(2) show ?thesis
      by (simp add: execute_stage_def outcome_kept_def obtainedI)
  qed
qed

lemma filter_value_round_kept:
  assumes "world_kept P E" "P (now st)" "filter_value_round E sql b cs st = (vr, st')"
  shows "P (now st') \<and> (\<forall>df s raw meta cap. vr_executed vr = Some (df, s, raw, meta, cap) \<longrightarrow>
      (\<exists>s1 s2. P (now s1) \<and> run_statement E s s1 = (Inr df, s2)))"
proof -
  define check where "check = ag_check_values E sql (now st)"
  define prompt where "prompt = [10] @ ag_correction_text E sql check"
  define segs where "segs = with_corrections b (cs @ [prompt])"
  obtain r st1 where g: "generate_sql E segs st = (r, st1)" by fastforce
  have P1: "P (now st1)" using generate_sql_world [OF assms(1,2), of segs] g by simp
  consider (stay) "vr_executed vr = None" "st' = st \<or> st' = st1"
    | (ran) sql2 r2 where "run_statement E sql2 st1 = (r2, st')"
        "\<And>df s raw meta cap. vr_executed vr = Some (df, s, raw, meta, cap) \<Longrightarrow> s = sql2 \<and> r2 = Inr df"
    using assms(3) g
    unfolding filter_value_round_def Let_def check_def [symmetric] prompt_def [symmetric] segs_def [symmetric]
    by (auto split: if_splits sum.splits prod.splits)
  then show ?thesis
  proof cases
    case stay
    with P1 assms(2) show ?thesis by auto
  next
    case ran
    have "P (now st')" using run_statement_world [OF assms(1) P1, of sql2] ran(1) by simp
    with ran P1 show ?thesis by blast
  qed
qed

lemma accepted_stage_kept:
  assumes "world_kept P E" "P (now st)"
  shows "outcome_kept P E (accepted_stage E k v meta cap st)"
proof -
  obtain sql sp where sp: "respelled E (lv_sql v) st = (sql, sp)" by fastforce
  define w where "w = v\<lparr>lv_sql := sql\<rparr>"
  show ?thesis
  proof (cases "ag_value_check E \<and> \<not> lv_value_checked w")
    case False
    then have "accepted_stage E k v meta cap st = execute_stage E k w meta cap sp st"
      using sp by (auto simp: accepted_stage_def w_def Let_def)
    with execute_stage_kept [OF assms] show ?thesis by simp
  next
    case True
    obtain vr st1 where vr: "filter_value_round E sql (lv_initial w) (lv_corrections w) st = (vr, st1)" by fastforce
    note K = filter_value_round_kept [OF assms vr]
    show ?thesis
    proof (cases "vr_executed vr")
      case None
      then have "\<exists>w1. accepted_stage E k v meta cap st = execute_stage E k w1 meta cap sp st1"
        using sp vr True by (auto simp: accepted_stage_def w_def Let_def)
      with execute_stage_kept [OF assms(1)] K show ?thesis by auto
    next
      case (Some ex)
      obtain df s raw meta2 c2 where ex: "ex = (df, s, raw, meta2, c2)" by (cases ex) auto
      from K Some ex obtain s1 s2 where "P (now s1)" "run_statement E s s1 = (Inr df, s2)" by blast
      with sp vr True Some ex K show ?thesis
        by (auto simp: accepted_stage_def outcome_kept_def w_def Let_def obtained_def)
    qed
  qed
qed

lemma guard_stage_kept:
  assumes "world_kept P E" "P (now st)"
  shows "outcome_kept P E (guard_stage E k v meta st)"
proof (cases "clean_validate_cap E (lv_raw v)")
  case (Inl ec)
  obtain e cand where ec: "ec = (e, cand)" by fastforce
  with Inl assms(2) show ?thesis by (cases e) (simp_all add: guard_stage_def outcome_kept_def)
next
  case (Inr sc)
  obtain sql cap where "sc = (sql, cap)" by fastforce
  with Inr accepted_stage_kept [OF assms] show ?thesis by (simp add: guard_stage_def)
qed

lemma now_routing [simp]: "now (st\<lparr>as_routing := r\<rparr>) = now st"
  by (simp add: now_def)

lemma agent_round_kept:
  assumes "world_kept P E" "P (now st)"
  shows "outcome_kept P E (agent_round E k v st)"
proof -
  define v1 where "v1 = (if k = 0 then v else add_correction E (as_routing st) v)"
  define segs where "segs = (if k = 0 then lv_initial v else with_corrections (lv_initial v1) (lv_corrections v1))"
  obtain res routing st1 where g:
    "generate_with_source_fallback (ag_build E) (generate_sql E) (as_routing st) segs st = (res, routing, st1)"
    by (metis prod_cases3)
  have P1: "P (now (st1\<lparr>as_routing := routing\<rparr>))" using generate_with_fallback_world [OF assms g] by simp
  show ?thesis
  proof (cases res)
    case (Inl e)
    with g P1 show ?thesis
      unfolding agent_round_def Let_def v1_def [symmetric] segs_def [symmetric]
      by (simp add: outcome_kept_def)
  next
    case (Inr a)
    obtain rr replaced where "a = (rr, replaced)" by fastforce
    with Inr g guard_stage_kept [OF assms(1) P1] show ?thesis
      unfolding agent_round_def Let_def v1_def [symmetric] segs_def [symmetric] by simp
  qed
qed

lemma attempt_loop_kept:
  assumes "world_kept P E" "P (now st)" "attempt_loop E n k v st = (r, st')"
  shows "P (now st') \<and> obtained P E r"
  using assms(2,3)
proof (induction n arbitrary: k v st)
  case 0
  then show ?case by auto
next
  case (Suc n)
  from agent_round_kept [OF assms(1) Suc.prems(1), of k v]
  show ?case
    using Suc.IH Suc.prems(2) by (cases "agent_round E k v st") (auto simp: outcome_kept_def)
qed

text \<open>The run as a whole.\<close>

lemma agent_run_kept:
  assumes "world_kept P E" "P (world ls)" "agent_run E selection plain ls = (r, st')"
  shows "P (now st') \<and> obtained P E r"
proof -
  define routing where "routing = plan_routing (ag_build E) selection"
  define initial where "initial = (case routing of None \<Rightarrow> plain | Some r \<Rightarrow> so_segments r)"
  define st where "st = \<lparr>as_llm = ls, as_routing = routing, as_prompts = [], as_executed = []\<rparr>"
  obtain r0 st0 where l: "attempt_loop E (nat (ag_max_corrections E + 1)) 0 (start_vars initial) st = (r0, st0)"
    by fastforce
  have "P (now st)" using assms(2) by (simp add: st_def now_def)
  note K = attempt_loop_kept [OF assms(1) this l]
  have run: "agent_run E selection plain ls = (case as_routing st0 of None \<Rightarrow> (r0, st0)
     | Some rt \<Rightarrow> (map_sum (\<lambda>f. f\<lparr>fl_selection := Some (routing_audit rt)\<rparr>)
                     (\<lambda>(df, g). (df, g\<lparr>gr_selection := Some (routing_audit rt)\<rparr>)) r0, st0))"
    unfolding agent_run_def Let_def routing_def [symmetric] initial_def [symmetric] st_def [symmetric] l by simp
  show ?thesis
  proof (cases "as_routing st0")
    case None
    with run assms(3) K show ?thesis by simp
  next
    case (Some rt)
    with run assms(3) K show ?thesis
      by (cases r0) (auto simp: obtained_def)
  qed
qed

end
