(* ===== verification/Query_Runner.thy ===== *)
theory Query_Runner
  imports Query_Cache Auth Agent_World
begin

text \<open>
  \<open>api/runner.py\<close>: one query from the caller to the answer, through the result cache, the agent and the
  audit trail, with the translation of exceptions to the errors of the API. Parameters
  (\<open>runner_env\<close>): what a request builds for the agent, retrieval, pandas' conversions between a frame
  and rows, the table extraction, the classification of library exceptions, and the summary of rows.
  The world of a request holds the shared cache and the audit log next to everything else (\<open>'x\<close>).
  Stage timings, the suspected-cache watch and the numbers of the LLM status block are not modelled.
\<close>

section \<open>Answers, errors and audit records\<close>

datatype query_mode = Mode_sql | Mode_result | Mode_full

fun mode_text :: "query_mode \<Rightarrow> ustr" where
  "mode_text Mode_sql = u ''sql''"
| "mode_text Mode_result = u ''result''"
| "mode_text Mode_full = u ''full''"

text \<open>The status block of the model call, without the figures computed from the metadata.\<close>

record llm_block =
  lb_meta :: "(ustr, json) odict option"
  lb_finish_reason :: ustr
  lb_corrections :: nat
  lb_answered :: bool

record 'r query_response =
  qr_question :: ustr
  qr_sql :: "ustr option"
  qr_rows :: "'r option"
  qr_interpretation :: "ustr option"
  qr_row_count :: "nat option"
  qr_attempts :: "nat option"
  qr_llm :: "llm_block option"

datatype nlq_kind =
    Out_of_scope | Forbidden_sql | Invalid_sql | Empty_sql | Truncated_sql | Query_failed
  | Model_unavailable | Database_unavailable | Model_timeout | Query_timeout

fun nlq_code :: "nlq_kind \<Rightarrow> ustr" where
  "nlq_code Out_of_scope = u ''OUT_OF_SCOPE''"
| "nlq_code Forbidden_sql = u ''FORBIDDEN_SQL''"
| "nlq_code Invalid_sql = u ''INVALID_SQL_RESPONSE''"
| "nlq_code Empty_sql = u ''EMPTY_SQL_RESPONSE''"
| "nlq_code Truncated_sql = u ''LLM_OUTPUT_TRUNCATED''"
| "nlq_code Query_failed = u ''QUERY_EXECUTION_ERROR''"
| "nlq_code Model_unavailable = u ''MODEL_UNAVAILABLE''"
| "nlq_code Database_unavailable = u ''DATABASE_UNAVAILABLE''"
| "nlq_code Model_timeout = u ''MODEL_TIMEOUT''"
| "nlq_code Query_timeout = u ''QUERY_TIMEOUT''"

text \<open>A typed error with the attributes \<open>_carry_exception_meta\<close> copies onto it.\<close>

record nlq_error =
  nq_kind :: nlq_kind
  nq_message :: ustr
  nq_detail :: "ustr option"
  nq_candidate_sql :: "ustr option"
  nq_meta :: "(ustr, json) odict option"
  nq_attempt :: "nat option"
  nq_injected_top :: "int option"
  nq_value_check :: "value_audit option"
  nq_value_spelling :: "json option"
  nq_selection :: "selection_audit option"

datatype runner_error = Typed nlq_error | Untyped ustr

record audit_facts =
  af_sql :: ustr
  af_rejected :: bool
  af_rule :: "ustr option"
  af_injected_top :: "int option"
  af_touched :: "ustr list option"
  af_row_count :: nat
  af_columns :: "ustr list option"
  af_llm :: "llm_block option"
  af_error_code :: "ustr option"
  af_error_message :: "ustr option"
  af_selection :: "selection_audit option"
  af_value_check :: "value_audit option"
  af_value_spelling :: "json option"
  af_from_cache :: bool

definition no_facts :: audit_facts where
  "no_facts = \<lparr>af_sql = [], af_rejected = False, af_rule = None, af_injected_top = None, af_touched = None,
     af_row_count = 0, af_columns = None, af_llm = None, af_error_code = None, af_error_message = None,
     af_selection = None, af_value_check = None, af_value_spelling = None, af_from_cache = False\<rparr>"

record audit_record =
  ar_request_id :: ustr
  ar_question :: ustr
  ar_facts :: audit_facts
  ar_tier :: ustr
  ar_principal_id :: "ustr option"
  ar_datasource :: "ustr option"

record ('x, 'r) runner_world =
  rw_cache :: "'r query_response query_cache"
  rw_audit :: "audit_record list"
  rw_rest :: 'x

section \<open>The environment\<close>

datatype transport_error = Requests_timeout | Requests_connection

datatype database_class = Db_timeout | Db_unavailable | Db_other

record ('x, 'd, 'r) runner_env =
  ne_agent :: "ustr \<Rightarrow> ustr list option \<Rightarrow> (('x, 'r) runner_world, 'd) agent_env"
  ne_select :: "ustr \<Rightarrow> ('x, 'r) runner_world \<Rightarrow> source_selection option"
  ne_plain :: "ustr \<Rightarrow> ustr list option \<Rightarrow> ('x, 'r) runner_world \<Rightarrow> prompt_segments"
  ne_content_version :: ustr
  ne_config_version :: "nat \<Rightarrow> ustr"
  ne_active_version :: "('x, 'r) runner_world \<Rightarrow> nat option"
  ne_clock :: "('x, 'r) runner_world \<Rightarrow> rat"
  ne_sha256 :: "ustr \<Rightarrow> ustr"
  ne_unicode :: unicode_db
  ne_fold_questions :: bool
  ne_to_rows :: "'d \<Rightarrow> 'r"
  ne_of_rows :: "'r \<Rightarrow> 'd"
  ne_row_count :: "'r \<Rightarrow> nat"
  ne_frame_columns :: "'d \<Rightarrow> ustr list"
  ne_row_columns :: "'r \<Rightarrow> ustr list"
  ne_tables :: "ustr \<Rightarrow> ustr list"
  ne_datasource :: "ustr \<Rightarrow> ustr option"
  ne_interpret :: "ustr \<Rightarrow> 'r \<Rightarrow> ('x, 'r) runner_world llm_state
    \<Rightarrow> (py_error + ustr) \<times> ('x, 'r) runner_world llm_state"
  ne_finish_reason :: "(ustr, json) odict option \<Rightarrow> ustr"
  ne_truncated :: "ustr \<Rightarrow> ustr \<Rightarrow> bool"
  ne_truncated_message :: ustr
  ne_reasoning :: "(ustr, json) odict option \<Rightarrow> bool"
  ne_is_refusal :: "py_error \<Rightarrow> bool"
  ne_transport :: "py_error \<Rightarrow> transport_error option"
  ne_unreachable :: "py_error \<Rightarrow> bool"
  ne_classify :: "py_error \<Rightarrow> database_class \<times> ustr"
  ne_cause :: "py_error \<Rightarrow> ustr"
  ne_show :: "py_error \<Rightarrow> ustr"

section \<open>The cache key of a request\<close>

text \<open>\<open>cache_prefix_version_for\<close>; \<open>None\<close>: the application database could not be asked.\<close>

definition cache_prefix_version_for :: "('x, 'd, 'r) runner_env \<Rightarrow> ('x, 'r) runner_world \<Rightarrow> ustr" where
  "cache_prefix_version_for N w =
     (case ne_active_version N w of None \<Rightarrow> ne_content_version N | Some v \<Rightarrow> ne_config_version N v)"

definition cache_scope :: "('x, 'd, 'r) runner_env \<Rightarrow> principal option \<Rightarrow> ustr" where
  "cache_scope N caller = (case caller of None \<Rightarrow> [] | Some p \<Rightarrow> scope_key (ne_sha256 N) p None)"

definition denied_of :: "principal option \<Rightarrow> ustr list option" where
  "denied_of caller = map_option pr_denied caller"

definition rows_from_sql_cache ::
    "('x, 'd, 'r) runner_env \<Rightarrow> ustr \<Rightarrow> ustr \<Rightarrow> ustr \<Rightarrow> ustr \<Rightarrow> ('x, 'r) runner_world
     \<Rightarrow> 'd option \<times> ('x, 'r) runner_world" where
  "rows_from_sql_cache N mode prefix_version scope sql w =
     (case cache_get_by_sql (ne_clock N w) sql mode prefix_version scope (rw_cache w) of
        (c, cached) \<Rightarrow>
          (case cached of None \<Rightarrow> None | Some resp \<Rightarrow> map_option (ne_of_rows N) (qr_rows resp),
           w\<lparr>rw_cache := c\<rparr>))"

definition request_agent ::
    "('x, 'd, 'r) runner_env \<Rightarrow> ustr \<Rightarrow> ustr list option
     \<Rightarrow> (ustr \<Rightarrow> ('x, 'r) runner_world \<Rightarrow> 'd option \<times> ('x, 'r) runner_world) option
     \<Rightarrow> (('x, 'r) runner_world, 'd) agent_env" where
  "request_agent N q denied lookup = (ne_agent N q denied)\<lparr>ag_cache_lookup := lookup\<rparr>"

section \<open>Helpers of the audit record\<close>

definition touched_or_none :: "('x, 'd, 'r) runner_env \<Rightarrow> ustr \<Rightarrow> ustr list option" where
  "touched_or_none N sql = (if ne_tables N sql = [] then None else Some (ne_tables N sql))"

definition columns_from_rows :: "('x, 'd, 'r) runner_env \<Rightarrow> 'r option \<Rightarrow> ustr list option" where
  "columns_from_rows N rows =
     (case rows of None \<Rightarrow> None | Some r \<Rightarrow> if ne_row_count N r = 0 then None else Some (ne_row_columns N r))"

definition reasoning_pollution_note :: "('x, 'd, 'r) runner_env \<Rightarrow> (ustr, json) odict option \<Rightarrow> ustr" where
  "reasoning_pollution_note N meta =
     (if ne_reasoning N meta
      then u ''Model response appears to carry reasoning/chain-of-thought text '' @
           u ''instead of a final SQL answer -- ''
      else [])"

definition plain_error :: "nlq_kind \<Rightarrow> ustr \<Rightarrow> ustr option \<Rightarrow> nlq_error" where
  "plain_error k message detail = \<lparr>nq_kind = k, nq_message = message, nq_detail = detail, nq_candidate_sql = None,
     nq_meta = None, nq_attempt = None, nq_injected_top = None, nq_value_check = None, nq_value_spelling = None,
     nq_selection = None\<rparr>"

definition carry_exception_meta :: "failure \<Rightarrow> nlq_error \<Rightarrow> nlq_error" where
  "carry_exception_meta f e = e\<lparr>nq_candidate_sql := fl_candidate_sql f, nq_meta := fl_meta f,
     nq_attempt := fl_attempt f, nq_injected_top := fl_injected_top f, nq_value_check := fl_value_check f,
     nq_value_spelling := fl_value_spelling f, nq_selection := fl_selection f\<rparr>"

definition guard_rejected_errors :: "nlq_kind set" where
  "guard_rejected_errors = {Forbidden_sql, Invalid_sql}"

definition llm_completed_errors :: "nlq_kind set" where
  "llm_completed_errors = {Out_of_scope, Forbidden_sql, Invalid_sql, Empty_sql, Truncated_sql,
     Database_unavailable, Query_timeout, Query_failed}"

definition status_block :: "(ustr, json) odict option \<Rightarrow> ustr \<Rightarrow> nat \<Rightarrow> llm_block" where
  "status_block meta reason corrections =
     \<lparr>lb_meta = meta, lb_finish_reason = reason, lb_corrections = corrections, lb_answered = True\<rparr>"

definition status_block_for_error :: "(ustr, json) odict option \<Rightarrow> ustr \<Rightarrow> llm_block" where
  "status_block_for_error meta reason =
     \<lparr>lb_meta = meta, lb_finish_reason = reason, lb_corrections = 0, lb_answered = (reason \<noteq> u ''error'')\<rparr>"

section \<open>Translation of exceptions\<close>

definition timeout_error :: "ustr \<Rightarrow> nlq_error" where
  "timeout_error shown =
     plain_error Model_timeout (u ''The LLM took too long to respond. Please try again.'') (Some shown)"

definition connection_error :: "ustr \<Rightarrow> nlq_error" where
  "connection_error shown = plain_error Model_unavailable
     (u ''Cannot reach the LLM backend. Is the configured endpoint running?'') (Some shown)"

definition unreachable_error :: "ustr \<Rightarrow> nlq_error" where
  "unreachable_error shown = plain_error Model_unavailable
     (u ''The language model is currently unreachable. Please try again.'') (Some shown)"

definition out_of_scope_error :: nlq_error where
  "out_of_scope_error = plain_error Out_of_scope
     (u ''This question is outside the scope of the data this system covers.'') None"

definition unparsable :: ustr where
  "unparsable = u ''LLM response could not be parsed into valid SQL: ''"

fun is_builtin_timeout :: "py_error \<Rightarrow> bool" where
  "is_builtin_timeout (Latency_exceeded b) \<longleftrightarrow> True"
| "is_builtin_timeout _ \<longleftrightarrow> False"

text \<open>The clauses of \<open>_safe_run\<close>, in their order.\<close>

definition translate_run_failure :: "('x, 'd, 'r) runner_env \<Rightarrow> failure \<Rightarrow> runner_error" where
  "translate_run_failure N f =
     (let e = fl_error f; msg = ne_show N e
      in if is_value_error e
         then Typed (carry_exception_meta f
           (if is_out_of_scope e then out_of_scope_error
            else if ne_is_refusal N e then plain_error Forbidden_sql msg None
            else plain_error Invalid_sql (reasoning_pollution_note N (fl_meta f) @ unparsable @ msg) None))
         else if ne_transport N e = Some Requests_timeout then Typed (timeout_error msg)
         else if is_builtin_timeout e then Typed (timeout_error msg)
         else if ne_transport N e = Some Requests_connection then Typed (connection_error msg)
         else if is_runtime_error e
         then Typed (carry_exception_meta f
           (if ne_unreachable N e then unreachable_error msg
            else (case ne_classify N e of
                    (Db_timeout, m) \<Rightarrow> plain_error Query_timeout m (Some (ne_cause N e))
                  | (Db_unavailable, m) \<Rightarrow> plain_error Database_unavailable m (Some (ne_cause N e))
                  | (Db_other, m) \<Rightarrow> plain_error Query_failed m (Some (ne_cause N e)))))
         else Untyped msg)"

text \<open>The clauses around the model call of \<open>_safe_generate_sql_only\<close>; \<open>exc\<close> is already unwrapped.\<close>

definition translate_generation_failure :: "('x, 'd, 'r) runner_env \<Rightarrow> py_error \<Rightarrow> runner_error" where
  "translate_generation_failure N e =
     (let msg = ne_show N e
      in if is_value_error e
         then Typed (if is_out_of_scope e then out_of_scope_error else plain_error Invalid_sql (unparsable @ msg) None)
         else if ne_transport N e = Some Requests_timeout then Typed (timeout_error msg)
         else if is_builtin_timeout e then Typed (timeout_error msg)
         else if ne_transport N e = Some Requests_connection then Typed (connection_error msg)
         else if is_runtime_error e then Typed (unreachable_error msg)
         else Untyped msg)"

section \<open>Generation without execution\<close>

definition guard_only ::
    "('x, 'd, 'r) runner_env \<Rightarrow> (('x, 'r) runner_world, 'd) agent_env \<Rightarrow> ustr \<Rightarrow> (ustr, json) odict
     \<Rightarrow> runner_error + ustr" where
  "guard_only N E raw meta =
     (let reject = (\<lambda>candidate e.
            if is_value_error e
            then Typed ((if ne_is_refusal N e then plain_error Forbidden_sql (ne_show N e) None
                   else plain_error Invalid_sql (reasoning_pollution_note N (Some meta) @ unparsable @ ne_show N e)
                     (Some (take 500 raw)))\<lparr>nq_meta := Some meta, nq_candidate_sql := candidate\<rparr>)
            else Untyped (ne_show N e))
      in case gd_clean (ag_guard E) raw of
           Inl e \<Rightarrow> Inl (reject None e)
         | Inr sql \<Rightarrow> (case gd_validate (ag_guard E) sql of Some e \<Rightarrow> Inl (reject (Some sql) e) | None \<Rightarrow> Inr sql))"

definition safe_generate_sql_only ::
    "('x, 'd, 'r) runner_env \<Rightarrow> ustr \<Rightarrow> ustr list option \<Rightarrow> ('x, 'r) runner_world llm_state
     \<Rightarrow> (runner_error + ustr \<times> (ustr, json) odict) \<times> selection_audit option \<times> ('x, 'r) runner_world llm_state" where
  "safe_generate_sql_only N q denied ls =
     (let E = request_agent N q denied None;
          routing = plan_routing (ag_build E) (ne_select N q (world ls));
          segs = (case routing of None \<Rightarrow> ne_plain N q denied (world ls) | Some r \<Rightarrow> so_segments r);
          st = \<lparr>as_llm = ls, as_routing = routing, as_prompts = [], as_executed = []\<rparr>
      in case generate_with_source_fallback (ag_build E) (generate_sql E) routing segs st of
           (Inl e, routing', st') \<Rightarrow>
             (Inl (translate_generation_failure N (unwrap e)), map_option routing_audit routing', as_llm st')
         | (Inr (rr, replaced), routing', st') \<Rightarrow>
             (let raw = (case rr_text rr of None \<Rightarrow> [] | Some t \<Rightarrow> t); meta = rr_meta rr
              in (if strip raw = []
                  then Inl (Typed ((if ne_truncated N raw (ne_finish_reason N (Some meta))
                             then plain_error Truncated_sql (ne_truncated_message N) None
                             else plain_error Empty_sql (u ''LLM returned an empty response.'') None)
                           \<lparr>nq_meta := Some meta\<rparr>))
                  else (case guard_only N E raw meta of Inl err \<Rightarrow> Inl err | Inr sql \<Rightarrow> Inr (sql, meta)),
                  map_option routing_audit routing', as_llm st')))"

definition safe_run ::
    "('x, 'd, 'r) runner_env \<Rightarrow> ustr \<Rightarrow> ustr list option
     \<Rightarrow> (ustr \<Rightarrow> ('x, 'r) runner_world \<Rightarrow> 'd option \<times> ('x, 'r) runner_world) option
     \<Rightarrow> ('x, 'r) runner_world llm_state
     \<Rightarrow> (runner_error + 'd \<times> sql_result) \<times> ('x, 'r) runner_world llm_state" where
  "safe_run N q denied lookup ls =
     (case agent_run (request_agent N q denied lookup) (ne_select N q (world ls)) (ne_plain N q denied (world ls)) ls of
        (Inl f, st) \<Rightarrow> (Inl (translate_run_failure N f), as_llm st)
      | (Inr res, st) \<Rightarrow> (Inr res, as_llm st))"

section \<open>One query\<close>

text \<open>
  What the \<open>try\<close> block does: the answer or the exception, and the facts for the audit record as they
  stand then.
\<close>

definition serve_cached ::
    "('x, 'd, 'r) runner_env \<Rightarrow> 'r query_response \<Rightarrow> audit_facts" where
  "serve_cached N cached =
     (let sql = (case qr_sql cached of None \<Rightarrow> [] | Some s \<Rightarrow> s)
      in no_facts\<lparr>af_from_cache := True, af_sql := sql,
           af_row_count := (case qr_row_count cached of None \<Rightarrow> 0 | Some n \<Rightarrow> n),
           af_columns := columns_from_rows N (qr_rows cached),
           af_touched := (if sql = [] then None else touched_or_none N sql)\<rparr>)"

definition sql_only_body ::
    "('x, 'd, 'r) runner_env \<Rightarrow> ustr \<Rightarrow> ustr list option \<Rightarrow> ('x, 'r) runner_world llm_state
     \<Rightarrow> (runner_error + 'r query_response) \<times> audit_facts \<times> selection_audit option \<times> ('x, 'r) runner_world llm_state" where
  "sql_only_body N q denied ls =
     (case safe_generate_sql_only N q denied ls of
        (Inl e, selection, ls1) \<Rightarrow> (Inl e, no_facts, selection, ls1)
      | (Inr (sql, meta), selection, ls1) \<Rightarrow>
          (let block = status_block (Some meta) (ne_finish_reason N (Some meta)) 0
           in (Inr \<lparr>qr_question = q, qr_sql = Some sql, qr_rows = None, qr_interpretation = None,
                    qr_row_count = None, qr_attempts = None, qr_llm = Some block\<rparr>,
               no_facts\<lparr>af_selection := selection, af_sql := sql, af_touched := touched_or_none N sql,
                        af_llm := Some block\<rparr>,
               selection, ls1)))"

definition result_facts :: "('x, 'd, 'r) runner_env \<Rightarrow> 'd \<Rightarrow> 'r \<Rightarrow> sql_result \<Rightarrow> audit_facts" where
  "result_facts N df rows g =
     no_facts\<lparr>af_selection := gr_selection g, af_value_check := gr_value_check g,
       af_value_spelling := gr_value_spelling g, af_sql := gr_sql g, af_row_count := ne_row_count N rows,
       af_columns := Some (ne_frame_columns N df), af_touched := touched_or_none N (gr_sql g),
       af_injected_top := gr_injected_top g,
       af_llm := Some (status_block (Some (gr_meta g)) (ne_finish_reason N (Some (gr_meta g))) (gr_attempt g - 1))\<rparr>"

definition interpret_stage ::
    "('x, 'd, 'r) runner_env \<Rightarrow> bool \<Rightarrow> ustr \<Rightarrow> 'r \<Rightarrow> ('x, 'r) runner_world llm_state
     \<Rightarrow> (runner_error + ustr option) \<times> ('x, 'r) runner_world llm_state" where
  "interpret_stage N interpret q rows ls =
     (if \<not> interpret then (Inr None, ls)
      else (case ne_interpret N q rows ls of
              (Inl e, ls1) \<Rightarrow> (Inl (Untyped (ne_show N e)), ls1)
            | (Inr t, ls1) \<Rightarrow> (Inr (Some t), ls1)))"

definition store_response ::
    "('x, 'd, 'r) runner_env \<Rightarrow> bool \<Rightarrow> ustr \<Rightarrow> query_mode \<Rightarrow> ustr \<Rightarrow> ustr \<Rightarrow> ustr \<Rightarrow> 'r query_response
     \<Rightarrow> ('x, 'r) runner_world \<Rightarrow> Query_Cache.py_error option \<times> ('x, 'r) runner_world" where
  "store_response N use_cache q mode pv scope sql resp w =
     (if \<not> use_cache then (None, w)
      else (case cache_set (ne_fold_questions N) (ne_unicode N) (ne_clock N w) q (mode_text mode) resp pv (Some sql)
                scope (rw_cache w) of
              (c, err) \<Rightarrow> (err, w\<lparr>rw_cache := c\<rparr>)))"

definition result_body ::
    "('x, 'd, 'r) runner_env \<Rightarrow> ustr \<Rightarrow> query_mode \<Rightarrow> bool \<Rightarrow> ustr \<Rightarrow> ustr \<Rightarrow> ustr list option
     \<Rightarrow> ('x, 'r) runner_world llm_state
     \<Rightarrow> (runner_error + 'r query_response) \<times> audit_facts \<times> selection_audit option \<times> ('x, 'r) runner_world llm_state" where
  "result_body N q mode interpret pv scope denied ls =
     (let use_cache = \<not> interpret;
          lookup = (if use_cache then Some (rows_from_sql_cache N (mode_text mode) pv scope) else None)
      in case safe_run N q denied lookup ls of
           (Inl e, ls1) \<Rightarrow> (Inl e, no_facts, None, ls1)
         | (Inr (df, g), ls1) \<Rightarrow>
             (let rows = ne_to_rows N df; facts = result_facts N df rows g
              in case interpret_stage N interpret q rows ls1 of
                   (Inl e, ls2) \<Rightarrow> (Inl e, facts, None, ls2)
                 | (Inr interpretation, ls2) \<Rightarrow>
                     (let resp = \<lparr>qr_question = q, qr_sql = (if mode = Mode_full then Some (gr_sql g) else None),
                            qr_rows = Some rows, qr_interpretation = interpretation,
                            qr_row_count = Some (ne_row_count N rows), qr_attempts = Some (gr_attempt g),
                            qr_llm = af_llm facts\<rparr>
                      in case store_response N use_cache q mode pv scope (gr_sql g) resp (world ls2) of
                           (Some err, w) \<Rightarrow> (Inl (Untyped ([39] @ u ''dictionary is empty'' @ [39])), facts, None, ls2\<lparr>world := w\<rparr>)
                         | (None, w) \<Rightarrow> (Inr resp, facts, None, ls2\<lparr>world := w\<rparr>))))"

definition query_body ::
    "('x, 'd, 'r) runner_env \<Rightarrow> ustr \<Rightarrow> query_mode \<Rightarrow> bool \<Rightarrow> principal option \<Rightarrow> ustr
     \<Rightarrow> ('x, 'r) runner_world llm_state
     \<Rightarrow> (runner_error + 'r query_response) \<times> audit_facts \<times> selection_audit option \<times> ('x, 'r) runner_world llm_state" where
  "query_body N q mode interpret caller pv ls =
     (let scope = cache_scope N caller; denied = denied_of caller
      in if mode = Mode_sql then sql_only_body N q denied ls
         else if interpret then result_body N q mode interpret pv scope denied ls
         else (case cache_get (ne_fold_questions N) (ne_unicode N) (ne_clock N (world ls)) q (mode_text mode) pv scope
                     (rw_cache (world ls)) of
                 (c, cached) \<Rightarrow>
                   (let ls1 = ls\<lparr>world := (world ls)\<lparr>rw_cache := c\<rparr>\<rparr>
                    in case cached of
                         Some resp \<Rightarrow> (Inr resp, serve_cached N resp, None, ls1)
                       | None \<Rightarrow> result_body N q mode interpret pv scope denied ls1)))"

text \<open>The \<open>except\<close> clauses: what an error adds to the facts.\<close>

definition facts_of_error ::
    "('x, 'd, 'r) runner_env \<Rightarrow> selection_audit option \<Rightarrow> runner_error \<Rightarrow> audit_facts \<Rightarrow> audit_facts" where
  "facts_of_error N sink err facts =
     (case err of
        Untyped m \<Rightarrow> facts\<lparr>af_error_code := Some (u ''INTERNAL_ERROR''), af_error_message := Some m\<rparr>
      | Typed e \<Rightarrow>
          (let kind = nq_kind e;
               reason = (if kind \<in> llm_completed_errors then ne_finish_reason N (nq_meta e) else u ''error'');
               f1 = facts\<lparr>af_error_code := Some (nlq_code kind), af_error_message := Some (nq_message e),
                 af_rejected := af_rejected facts \<or> kind \<in> guard_rejected_errors,
                 af_rule := (if kind \<in> guard_rejected_errors then Some (nlq_code kind)
                             else if kind = Out_of_scope then Some (u ''OUT_OF_SCOPE'') else af_rule facts),
                 af_selection := (case nq_selection e of Some s \<Rightarrow> Some s | None \<Rightarrow> sink),
                 af_value_check := nq_value_check e, af_value_spelling := nq_value_spelling e,
                 af_llm := Some (status_block_for_error (nq_meta e) reason)\<rparr>;
               f2 = (case nq_candidate_sql e of
                       Some (c # s) \<Rightarrow> f1\<lparr>af_sql := c # s, af_touched := touched_or_none N (c # s)\<rparr>
                     | _ \<Rightarrow> f1)
           in case nq_injected_top e of Some t \<Rightarrow> f2\<lparr>af_injected_top := Some t\<rparr> | None \<Rightarrow> f2))"

definition audit_of ::
    "('x, 'd, 'r) runner_env \<Rightarrow> ustr \<Rightarrow> ustr \<Rightarrow> principal option \<Rightarrow> audit_facts \<Rightarrow> audit_record" where
  "audit_of N rid q caller facts =
     \<lparr>ar_request_id = rid, ar_question = q, ar_facts = facts,
      ar_tier = (if af_from_cache facts then u ''T0'' else u ''T2''),
      ar_principal_id = map_option pr_id caller, ar_datasource = ne_datasource N (af_sql facts)\<rparr>"

definition write_audit ::
    "audit_record \<Rightarrow> ('x, 'r) runner_world llm_state \<Rightarrow> ('x, 'r) runner_world llm_state" where
  "write_audit rec ls = ls\<lparr>world := (world ls)\<lparr>rw_audit := rw_audit (world ls) @ [rec]\<rparr>\<rparr>"

definition run_query ::
    "('x, 'd, 'r) runner_env \<Rightarrow> ustr \<Rightarrow> query_mode \<Rightarrow> bool \<Rightarrow> ustr option \<Rightarrow> ustr \<Rightarrow> principal option
     \<Rightarrow> ('x, 'r) runner_world llm_state
     \<Rightarrow> (runner_error + 'r query_response) \<times> ('x, 'r) runner_world llm_state" where
  "run_query N q mode interpret request_id fresh caller ls =
     (let rid = (case request_id of Some (c # s) \<Rightarrow> c # s | _ \<Rightarrow> fresh);
          pv = cache_prefix_version_for N (world ls)
      in case query_body N q mode interpret caller pv ls of
           (r, facts, sink, ls1) \<Rightarrow>
             (r, write_audit (audit_of N rid q caller
                   (case r of Inl e \<Rightarrow> facts_of_error N sink e facts | Inr _ \<Rightarrow> facts)) ls1))"

end
