(* ===== verification/Query_Answers.thy ===== *)
theory Query_Answers
  imports Query_Runner
begin

text \<open>
  What a query of \<open>Query_Runner\<close> guarantees across callers that share the result cache, and what it
  leaves in the audit log. The other requests served while one waits for the model or the database are
  the environment: they may change the world, within the property the theorems maintain.
\<close>

section \<open>The environment of a request\<close>

definition environment_keeps :: "('x, 'd, 'r) runner_env \<Rightarrow> (('x, 'r) runner_world \<Rightarrow> bool) \<Rightarrow> bool" where
  "environment_keeps N P \<longleftrightarrow>
     (\<forall>q denied. (\<forall>b \<in> router_backends (ag_router (ne_agent N q denied)). backend_keeps P b)
        \<and> (\<forall>sql w. P w \<longrightarrow> P (snd (ag_execute (ne_agent N q denied) sql w))))
     \<and> (\<forall>q rows ls. P (world ls) \<longrightarrow> P (world (snd (ne_interpret N q rows ls))))"

lemma request_agent_simps [simp]:
  "ag_llm (request_agent N q d l) = ag_llm (ne_agent N q d)"
  "ag_router (request_agent N q d l) = ag_router (ne_agent N q d)"
  "ag_build (request_agent N q d l) = ag_build (ne_agent N q d)"
  "ag_guard (request_agent N q d l) = ag_guard (ne_agent N q d)"
  "ag_execute (request_agent N q d l) = ag_execute (ne_agent N q d)"
  "ag_cache_lookup (request_agent N q d l) = l"
  "ag_respell (request_agent N q d l) = ag_respell (ne_agent N q d)"
  "ag_value_spelling (request_agent N q d l) = ag_value_spelling (ne_agent N q d)"
  "ag_default_top_n (request_agent N q d l) = ag_default_top_n (ne_agent N q d)"
  "ag_max_corrections (request_agent N q d l) = ag_max_corrections (ne_agent N q d)"
  by (simp_all add: request_agent_def)

lemma clean_validate_cap_request_agent [simp]:
  "clean_validate_cap (request_agent N q d l) raw = clean_validate_cap (ne_agent N q d) raw"
  unfolding clean_validate_cap_def request_agent_simps ..

lemma approved_request_agent [simp]: "approved (request_agent N q d l) sql = approved (ne_agent N q d) sql"
  unfolding approved_def request_agent_simps clean_validate_cap_request_agent ..

lemma environment_world_kept:
  assumes "environment_keeps N P"
    and "\<And>f sql w. l = Some f \<Longrightarrow> P w \<Longrightarrow> P (snd (f sql w))"
  shows "world_kept P (request_agent N q d l)"
  using assms by (auto simp: environment_keeps_def world_kept_def)

lemma safe_run_kept:
  assumes "environment_keeps N P" "P (world ls)"
    and "\<And>f sql w. l = Some f \<Longrightarrow> P w \<Longrightarrow> P (snd (f sql w))"
    and "safe_run N q d l ls = (r, ls')"
  shows "P (world ls') \<and> (\<forall>df g. r = Inr (df, g) \<longrightarrow>
    (\<exists>st st'. P (now st) \<and> run_statement (request_agent N q d l) (gr_sql g) st = (Inr df, st')))"
proof -
  obtain r0 st where a: "agent_run (request_agent N q d l) (ne_select N q (world ls)) (ne_plain N q d (world ls)) ls
      = (r0, st)" by fastforce
  have "world_kept P (request_agent N q d l)"
    by (rule environment_world_kept [OF assms(1)]) (rule assms(3))
  note K = agent_run_kept [OF this assms(2) a]
  with assms(4) a show ?thesis
    by (cases r0) (auto simp: safe_run_def now_def obtained_def)
qed

lemma safe_run_approved:
  assumes "safe_run N q d l ls = (Inr (df, g), ls')" "0 \<le> ag_max_corrections (ne_agent N q d)"
  shows "approved (ne_agent N q d) (gr_sql g)"
proof -
  obtain r0 st where a: "agent_run (request_agent N q d l) (ne_select N q (world ls)) (ne_plain N q d (world ls)) ls
      = (r0, st)" by fastforce
  with assms(1) have "r0 = Inr (df, g)" by (auto simp: safe_run_def split: sum.splits)
  with agent_run_ok [OF a] assms(2) show ?thesis by auto
qed

lemma safe_generate_kept:
  assumes "environment_keeps N P" "P (world ls)" "safe_generate_sql_only N q d ls = (r, sel, ls')"
  shows "P (world ls')"
proof -
  define E where "E = request_agent N q d None"
  define routing where "routing = plan_routing (ag_build E) (ne_select N q (world ls))"
  define segs where "segs = (case routing of None \<Rightarrow> ne_plain N q d (world ls) | Some r \<Rightarrow> so_segments r)"
  define st where "st = \<lparr>as_llm = ls, as_routing = routing, as_prompts = [], as_executed = []\<rparr>"
  obtain res routing' st' where g:
    "generate_with_source_fallback (ag_build E) (generate_sql E) routing segs st = (res, routing', st')"
    by (metis prod_cases3)
  have "world_kept P E" unfolding E_def by (rule environment_world_kept [OF assms(1)]) simp
  moreover have "P (now st)" using assms(2) by (simp add: st_def now_def)
  ultimately have "P (now st')" using g by (rule generate_with_fallback_world)
  moreover have "ls' = as_llm st'"
    using assms(3) unfolding safe_generate_sql_only_def Let_def E_def [symmetric] routing_def [symmetric]
      segs_def [symmetric] st_def [symmetric] g
    by (auto split: sum.splits prod.splits)
  ultimately show ?thesis by (simp add: now_def)
qed

section \<open>Where cached rows come from\<close>

text \<open>
  Rows are an answer under a policy when they were read by a statement the guard accepts under that
  policy, possibly stored and reloaded afterwards.
\<close>

inductive answer_of :: "('x, 'd, 'r) runner_env \<Rightarrow> ustr list option \<Rightarrow> 'r \<Rightarrow> bool" for N denied where
  Read: "approved (ne_agent N q denied) sql \<Longrightarrow> ag_execute (ne_agent N q denied) sql w = (Inr df, w')
    \<Longrightarrow> answer_of N denied (ne_to_rows N df)"
| Reloaded: "answer_of N denied rows \<Longrightarrow> answer_of N denied (ne_to_rows N (ne_of_rows N rows))"

definition entry_sound ::
    "('x, 'd, 'r) runner_env \<Rightarrow> principal option set \<Rightarrow> ustr \<Rightarrow> 'r query_response \<Rightarrow> bool" where
  "entry_sound N callers scope resp \<longleftrightarrow> (\<forall>rows. qr_rows resp = Some rows \<longrightarrow>
     (\<exists>c \<in> callers. cache_scope N c = scope \<and> answer_of N (denied_of c) rows))"

definition store_sound ::
    "('x, 'd, 'r) runner_env \<Rightarrow> principal option set \<Rightarrow> int
     \<Rightarrow> (qkey, 'r query_response cache_entry) odict \<Rightarrow> bool" where
  "store_sound N callers m d \<longleftrightarrow> store_ok m d
     \<and> (\<forall>pv q mode scope e. map_of d (pv, q, mode, scope) = Some e \<longrightarrow> entry_sound N callers scope (ce_response e))"

definition cache_sound ::
    "('x, 'd, 'r) runner_env \<Rightarrow> principal option set \<Rightarrow> ('x, 'r) runner_world \<Rightarrow> bool" where
  "cache_sound N callers w \<longleftrightarrow> store_sound N callers (qc_max_size (rw_cache w)) (qc_store (rw_cache w))
     \<and> store_sound N callers (qc_max_size (rw_cache w)) (qc_sql_store (rw_cache w))"

lemma get_from_sound:
  assumes "store_sound N callers m d" "get_from t k d = (d', r, n)"
  shows "store_sound N callers m d' \<and> (\<forall>resp pv q mode scope. r = Some resp \<longrightarrow> k = (pv, q, mode, scope)
    \<longrightarrow> entry_sound N callers scope resp)"
proof (cases "map_of d k")
  case None
  with assms show ?thesis by (simp add: get_from_def)
next
  case (Some e)
  have ok: "store_ok m d" "od_ok d" using assms(1) by (simp_all add: store_sound_def store_ok_def)
  show ?thesis
  proof (cases "ce_expires_at e < t")
    case True
    with Some assms(2) have d': "d' = AList.delete k d" "r = None" by (auto simp: get_from_def)
    have "store_ok m (AList.delete k d)"
      using ok length_delete_le [of k d] by (auto simp: store_ok_def od)
    with d' assms(1) ok show ?thesis by (simp add: store_sound_def delete_conv')
  next
    case False
    with Some assms(2) have d': "d' = od_touch k d" "r = Some (ce_response e)" by (auto simp: get_from_def)
    have "store_ok m (od_touch k d)" using ok by (simp add: store_ok_def od)
    with d' assms(1) ok Some show ?thesis by (auto simp: store_sound_def od)
  qed
qed

lemma set_in_sound:
  assumes "store_sound N callers m d" "set_in m (pv, q, mode, scope) e d = (d', n, err)"
    and "entry_sound N callers scope (ce_response e)"
  shows "store_sound N callers m d'"
proof -
  have ok: "store_ok m d" using assms(1) by (simp add: store_sound_def)
  note S = set_in_ok [OF ok assms(2)]
  have "entry_sound N callers s (ce_response x)" if "map_of d' (p, y, z, s) = Some x" for p y z s x
  proof -
    from that S(2) have "((map_of d)((pv, q, mode, scope) \<mapsto> e)) (p, y, z, s) = Some x"
      by (auto simp: map_le_def dom_def)
    with assms(1,3) show ?thesis by (auto simp: store_sound_def split: if_splits)
  qed
  with S(1) show ?thesis by (simp add: store_sound_def)
qed

text \<open>The three operations of the cache that a query uses.\<close>

lemma cache_get_sound:
  assumes "cache_sound N callers w" "cache_get fq U t q mode pv scope (rw_cache w) = (c, r)"
  shows "cache_sound N callers (w\<lparr>rw_cache := c\<rparr>) \<and> (\<forall>resp. r = Some resp \<longrightarrow> entry_sound N callers scope resp)"
proof (cases "enabled (rw_cache w)")
  case False
  with assms show ?thesis by (auto simp: cache_get_def)
next
  case True
  obtain st x h m ev where g: "get_from t (question_key fq U q mode pv scope) (qc_store (rw_cache w)) = (st, x, h, m, ev)"
    by (metis prod_cases5)
  have "store_sound N callers (qc_max_size (rw_cache w)) (qc_store (rw_cache w))"
    using assms(1) by (simp add: cache_sound_def)
  note G = get_from_sound [OF this g]
  from True g assms(2) have "c = count_lookup (h, m, ev) ((rw_cache w)\<lparr>qc_store := st\<rparr>)" "r = x"
    by (simp_all add: cache_get_def)
  with G assms(1) show ?thesis by (simp add: cache_sound_def count_lookup_def question_key_def)
qed

lemma cache_get_by_sql_sound:
  assumes "cache_sound N callers w" "cache_get_by_sql t sql mode pv scope (rw_cache w) = (c, r)"
  shows "cache_sound N callers (w\<lparr>rw_cache := c\<rparr>) \<and> (\<forall>resp. r = Some resp \<longrightarrow> entry_sound N callers scope resp)"
proof (cases "enabled (rw_cache w)")
  case False
  with assms show ?thesis by (auto simp: cache_get_by_sql_def)
next
  case True
  obtain st x h m ev where g: "get_from t (sql_key sql mode pv scope) (qc_sql_store (rw_cache w)) = (st, x, h, m, ev)"
    by (metis prod_cases5)
  have "store_sound N callers (qc_max_size (rw_cache w)) (qc_sql_store (rw_cache w))"
    using assms(1) by (simp add: cache_sound_def)
  note G = get_from_sound [OF this g]
  from True g assms(2) have "c = count_lookup (h, m, ev) ((rw_cache w)\<lparr>qc_sql_store := st\<rparr>)" "r = x"
    by (simp_all add: cache_get_by_sql_def)
  with G assms(1) show ?thesis by (simp add: cache_sound_def count_lookup_def sql_key_def)
qed

lemma cache_set_sound:
  assumes "cache_sound N callers w" "entry_sound N callers scope resp"
    and "cache_set fq U t q mode resp pv sql scope (rw_cache w) = (c, err)"
  shows "cache_sound N callers (w\<lparr>rw_cache := c\<rparr>)"
proof (cases "enabled (rw_cache w)")
  case False
  with assms show ?thesis by (auto simp: cache_set_def)
next
  case True
  let ?m = "qc_max_size (rw_cache w)"
  define e where "e = \<lparr>ce_response = resp, ce_expires_at = t + of_int (qc_ttl (rw_cache w))\<rparr>"
  obtain s1 n1 err1 where s1: "set_in ?m (question_key fq U q mode pv scope) e (qc_store (rw_cache w)) = (s1, n1, err1)"
    by (metis prod_cases3)
  have st: "store_sound N callers ?m (qc_store (rw_cache w))" "store_sound N callers ?m (qc_sql_store (rw_cache w))"
    using assms(1) by (simp_all add: cache_sound_def)
  have es: "entry_sound N callers scope (ce_response e)" using assms(2) by (simp add: e_def)
  have S1: "store_sound N callers ?m s1"
    using set_in_sound [OF st(1) _ es] s1 by (simp add: question_key_def)
  have sq: "set_in ?m (sql_key (ch # z) mode pv scope) e (qc_sql_store (rw_cache w)) = (s2, n2, err2)
      \<Longrightarrow> store_sound N callers ?m s2" for ch z s2 n2 err2
    using set_in_sound [OF st(2) _ es] by (simp add: sql_key_def)
  show ?thesis
    using assms(3) True s1 S1 st(2) sq
    by (auto simp: cache_set_def Let_def e_def [symmetric] cache_sound_def split: option.splits list.splits prod.splits)
qed

lemma rows_from_sql_cache_sound:
  assumes "cache_sound N callers w" "rows_from_sql_cache N mode pv scope sql w = (df, w')"
  shows "cache_sound N callers w' \<and> (\<forall>d. df = Some d \<longrightarrow>
    (\<exists>c \<in> callers. \<exists>rows. cache_scope N c = scope \<and> d = ne_of_rows N rows \<and> answer_of N (denied_of c) rows))"
proof -
  obtain c r where g: "cache_get_by_sql (ne_clock N w) sql mode pv scope (rw_cache w) = (c, r)" by fastforce
  note G = cache_get_by_sql_sound [OF assms(1) g]
  with assms(2) g show ?thesis
    by (fastforce simp: rows_from_sql_cache_def entry_sound_def split: option.splits)
qed

section \<open>Every answer was read under the caller's policy\<close>

text \<open>The hash tells the scope texts of the callers apart, and never gives the empty scope.\<close>

definition hash_separates :: "('x, 'd, 'r) runner_env \<Rightarrow> principal option set \<Rightarrow> bool" where
  "hash_separates N callers \<longleftrightarrow> (\<forall>p. Some p \<in> callers \<longrightarrow> cache_scope N (Some p) \<noteq> []
     \<and> (\<forall>q. Some q \<in> callers \<longrightarrow> cache_scope N (Some p) = cache_scope N (Some q)
          \<longrightarrow> scope_text p None = scope_text q None))"

fun same_policy :: "ustr list option \<Rightarrow> ustr list option \<Rightarrow> bool" where
  "same_policy None None \<longleftrightarrow> True"
| "same_policy (Some d) (Some e) \<longleftrightarrow> mset d = mset e"
| "same_policy _ _ \<longleftrightarrow> False"

lemma same_policy_refl [simp]: "same_policy d d"
  by (cases d) simp_all

lemma cache_scope_None [simp]: "cache_scope N None = []"
  by (simp add: cache_scope_def)

lemma same_scope_same_policy:
  assumes "hash_separates N callers" "\<forall>p. Some p \<in> callers \<longrightarrow> list_all valid_text (pr_denied p)"
    and "c \<in> callers" "c' \<in> callers" "cache_scope N c = cache_scope N c'"
  shows "same_policy (denied_of c) (denied_of c')"
proof -
  have nonempty: "cache_scope N (Some p) \<noteq> []" if "Some p \<in> callers" for p
    using assms(1) that unfolding hash_separates_def by blast
  consider (none) "c = None" "c' = None" | (some) p q where "c = Some p" "c' = Some q"
    using assms(3-5) nonempty by (metis cache_scope_None option.exhaust)
  then show ?thesis
  proof cases
    case none
    then show ?thesis by simp
  next
    case (some p q)
    then have "scope_text p None = scope_text q None"
      using assms(1,3-5) unfolding hash_separates_def by blast
    moreover have "list_all valid_text (pr_denied p)" "list_all valid_text (pr_denied q)"
      using assms(2-4) some by blast+
    ultimately have "mset (pr_denied p) = mset (pr_denied q)" by (simp only: scope_text_eq_iff)
    with some show ?thesis by (simp add: denied_of_def)
  qed
qed

definition answered_for ::
    "('x, 'd, 'r) runner_env \<Rightarrow> principal option set \<Rightarrow> ustr \<Rightarrow> runner_error + 'r query_response \<Rightarrow> bool" where
  "answered_for N callers scope r \<longleftrightarrow> (\<forall>resp. r = Inr resp \<longrightarrow> entry_sound N callers scope resp)"

lemma interpret_stage_kept:
  assumes "environment_keeps N P" "P (world ls)" "interpret_stage N i q rows ls = (r, ls')"
  shows "P (world ls')"
proof -
  have "P (world (snd (ne_interpret N q rows ls)))" using assms(1,2) by (simp add: environment_keeps_def)
  with assms(2,3) show ?thesis by (auto simp: interpret_stage_def split: if_splits prod.splits sum.splits)
qed

lemma run_statement_cached:
  assumes "run_statement E sql st = (Inr df, st')"
  obtains f w where "ag_cache_lookup E = Some f" "f sql (now st) = (Some df, w)"
  | w w' where "ag_execute E sql w = (Inr df, w')"
  using assms by (auto simp: run_statement_def split: option.splits prod.splits)

lemma result_body_sound:
  assumes env: "environment_keeps N (cache_sound N callers)" and "cache_sound N callers (world ls)"
    and "0 \<le> ag_max_corrections (ne_agent N q (denied_of caller))" "caller \<in> callers"
    and "result_body N q mode i pv (cache_scope N caller) (denied_of caller) ls = (r, facts, sink, ls')"
  shows "cache_sound N callers (world ls') \<and> answered_for N callers (cache_scope N caller) r"
proof -
  let ?P = "cache_sound N callers" and ?scope = "cache_scope N caller" and ?d = "denied_of caller"
  define l where "l = (if \<not> i then Some (rows_from_sql_cache N (mode_text mode) pv ?scope) else None)"
  have look: "?P (snd (f sql w))" if "l = Some f" "?P w" for f sql w
    using that rows_from_sql_cache_sound [of N callers w "mode_text mode" pv ?scope sql]
    by (auto simp: l_def split: if_splits) (metis prod.collapse)
  obtain r1 ls1 where run: "safe_run N q ?d l ls = (r1, ls1)" by fastforce
  have K: "?P (world ls1) \<and> (\<forall>df g. r1 = Inr (df, g) \<longrightarrow>
    (\<exists>st st'. ?P (now st) \<and> run_statement (request_agent N q ?d l) (gr_sql g) st = (Inr df, st')))"
    by (rule safe_run_kept [OF env assms(2) _ run]) (rule look)
  show ?thesis
  proof (cases r1)
    case (Inl e)
    with run K assms(5) show ?thesis by (auto simp: result_body_def l_def answered_for_def)
  next
    case (Inr dg)
    obtain df g where dg: "dg = (df, g)" by fastforce
    have ap: "approved (ne_agent N q ?d) (gr_sql g)"
      by (rule safe_run_approved [OF run [unfolded Inr dg] assms(3)])
    from K Inr dg obtain st st' where st: "?P (now st)"
        "run_statement (request_agent N q ?d l) (gr_sql g) st = (Inr df, st')" by blast
    have rows: "\<exists>c \<in> callers. cache_scope N c = ?scope \<and> answer_of N (denied_of c) (ne_to_rows N df)"
      using st(2)
    proof (cases rule: run_statement_cached)
      case (1 f w)
      then have "rows_from_sql_cache N (mode_text mode) pv ?scope (gr_sql g) (now st) = (Some df, w)"
        by (simp add: l_def split: if_splits)
      from rows_from_sql_cache_sound [OF st(1) this] show ?thesis by (blast intro: Reloaded)
    next
      case (2 w w')
      with ap assms(4) show ?thesis by (auto intro: Read)
    qed
    obtain ri ls2 where int: "interpret_stage N i q (ne_to_rows N df) ls1 = (ri, ls2)" by fastforce
    have P2: "?P (world ls2)" using interpret_stage_kept [OF env _ int] K by blast
    show ?thesis
    proof (cases ri)
      case (Inl e)
      with run Inr dg int P2 assms(5) show ?thesis by (auto simp: result_body_def l_def answered_for_def Let_def)
    next
      case ri: (Inr interp)
      define resp where "resp = \<lparr>qr_question = q, qr_sql = (if mode = Mode_full then Some (gr_sql g) else None),
          qr_rows = Some (ne_to_rows N df), qr_interpretation = interp,
          qr_row_count = Some (ne_row_count N (ne_to_rows N df)), qr_attempts = Some (gr_attempt g),
          qr_llm = af_llm (result_facts N df (ne_to_rows N df) g)\<rparr>"
      have es: "entry_sound N callers ?scope resp" using rows by (simp add: entry_sound_def resp_def)
      obtain err w where sr: "store_response N (\<not> i) q mode pv ?scope (gr_sql g) resp (world ls2) = (err, w)"
        by fastforce
      have Pw: "?P w"
        using sr P2 cache_set_sound [OF P2 es]
        by (auto simp: store_response_def split: if_splits prod.splits)
      have "ls' = ls2\<lparr>world := w\<rparr> \<and> (r = Inr resp \<or> (\<exists>m. r = Inl m))"
        using run Inr dg int ri sr assms(5)
        unfolding result_body_def Let_def l_def [symmetric]
        by (auto simp: resp_def split: option.splits)
      with Pw es show ?thesis by (auto simp: answered_for_def)
    qed
  qed
qed

lemma sql_only_body_kept:
  assumes "environment_keeps N P" "P (world ls)" "sql_only_body N q d ls = (r, facts, sink, ls')"
  shows "P (world ls') \<and> (\<forall>resp. r = Inr resp \<longrightarrow> qr_rows resp = None)"
proof -
  obtain x sel ls1 where g: "safe_generate_sql_only N q d ls = (x, sel, ls1)" by (metis prod_cases3)
  from safe_generate_kept [OF assms(1,2) g] g assms(3) show ?thesis
    by (cases x) (auto simp: sql_only_body_def Let_def)
qed

lemma query_body_sound:
  assumes env: "environment_keeps N (cache_sound N callers)" and "cache_sound N callers (world ls)"
    and "0 \<le> ag_max_corrections (ne_agent N q (denied_of caller))" "caller \<in> callers"
    and "query_body N q mode i caller pv ls = (r, facts, sink, ls')"
  shows "cache_sound N callers (world ls') \<and> answered_for N callers (cache_scope N caller) r"
proof (cases "mode = Mode_sql \<or> i")
  case True
  then consider (sql) "mode = Mode_sql" | (summary) "mode \<noteq> Mode_sql" i by blast
  then show ?thesis
  proof cases
    case sql
    with assms(5) have "sql_only_body N q (denied_of caller) ls = (r, facts, sink, ls')" by (simp add: query_body_def)
    from sql_only_body_kept [OF env assms(2) this] show ?thesis by (auto simp: answered_for_def entry_sound_def)
  next
    case summary
    with assms(5) have "result_body N q mode i pv (cache_scope N caller) (denied_of caller) ls = (r, facts, sink, ls')"
      by (simp add: query_body_def)
    from result_body_sound [OF env assms(2,3,4) this] show ?thesis .
  qed
next
  case False
  obtain c cached where g: "cache_get (ne_fold_questions N) (ne_unicode N) (ne_clock N (world ls)) q (mode_text mode)
      pv (cache_scope N caller) (rw_cache (world ls)) = (c, cached)" by fastforce
  note G = cache_get_sound [OF assms(2) g]
  show ?thesis
  proof (cases cached)
    case (Some resp)
    with False g assms(5) G show ?thesis by (auto simp: query_body_def Let_def answered_for_def)
  next
    case None
    with False g assms(5) have "result_body N q mode i pv (cache_scope N caller) (denied_of caller)
        (ls\<lparr>world := (world ls)\<lparr>rw_cache := c\<rparr>\<rparr>) = (r, facts, sink, ls')"
      by (simp add: query_body_def Let_def)
    from result_body_sound [OF env _ assms(3,4) this] G show ?thesis by simp
  qed
qed

lemma cache_sound_audit [simp]: "cache_sound N callers (w\<lparr>rw_audit := a\<rparr>) = cache_sound N callers w"
  by (simp add: cache_sound_def)


section \<open>The audit trail\<close>

definition survives_cache :: "(('x, 'r) runner_world \<Rightarrow> bool) \<Rightarrow> bool" where
  "survives_cache P \<longleftrightarrow> (\<forall>w c. P w \<longrightarrow> P (w\<lparr>rw_cache := c\<rparr>))"

lemma result_body_kept:
  assumes env: "environment_keeps N P" and cache: "survives_cache P" and "P (world ls)"
    and "result_body N q mode i pv scope d ls = (r, facts, sink, ls')"
  shows "P (world ls')"
proof -
  define l where "l = (if \<not> i then Some (rows_from_sql_cache N (mode_text mode) pv scope) else None)"
  have look: "P (snd (f sql w))" if "l = Some f" "P w" for f sql w
    using that cache by (auto simp: l_def rows_from_sql_cache_def survives_cache_def split_def split: if_splits)
  obtain r1 ls1 where run: "safe_run N q d l ls = (r1, ls1)" by fastforce
  have P1: "P (world ls1)" using safe_run_kept [OF env assms(3) _ run] look by blast
  show ?thesis
  proof (cases r1)
    case (Inl e)
    with run P1 assms(4) show ?thesis by (simp add: result_body_def l_def)
  next
    case (Inr dg)
    obtain df g where dg: "dg = (df, g)" by fastforce
    obtain ri ls2 where int: "interpret_stage N i q (ne_to_rows N df) ls1 = (ri, ls2)" by fastforce
    have P2: "P (world ls2)" using interpret_stage_kept [OF env P1 int] .
    have store: "P (snd (store_response N u q mode pv scope sql resp (world ls2)))" for u sql resp
      using P2 cache by (simp add: store_response_def survives_cache_def split_def)
    show ?thesis
    proof (cases ri)
      case (Inl e)
      with run Inr dg int P2 assms(4) show ?thesis by (simp add: result_body_def l_def Let_def)
    next
      case ri: (Inr interp)
      obtain resp err w where "store_response N (\<not> i) q mode pv scope (gr_sql g) resp (world ls2) = (err, w)"
          "world ls' = w"
        using run Inr dg int ri assms(4) unfolding result_body_def Let_def l_def [symmetric]
        by (auto split: option.splits prod.splits)
      with store [of "\<not> i" "gr_sql g" resp] show ?thesis by simp
    qed
  qed
qed

lemma query_body_kept:
  assumes env: "environment_keeps N P" and cache: "survives_cache P" and "P (world ls)"
    and "query_body N q mode i caller pv ls = (r, facts, sink, ls')"
  shows "P (world ls')"
proof (cases "mode = Mode_sql \<or> i")
  case True
  with assms(4) sql_only_body_kept [OF env assms(3)] result_body_kept [OF env cache assms(3)] show ?thesis
    by (auto simp: query_body_def Let_def split: if_splits)
next
  case False
  obtain c cached where g: "cache_get (ne_fold_questions N) (ne_unicode N) (ne_clock N (world ls)) q (mode_text mode)
      pv (cache_scope N caller) (rw_cache (world ls)) = (c, cached)" by fastforce
  have P1: "P (world (ls\<lparr>world := (world ls)\<lparr>rw_cache := c\<rparr>\<rparr>))"
    using assms(3) cache by (simp add: survives_cache_def)
  show ?thesis
  proof (cases cached)
    case (Some resp)
    with False g assms(4) P1 show ?thesis by (auto simp: query_body_def Let_def)
  next
    case None
    with False g assms(4) have "result_body N q mode i pv (cache_scope N caller) (denied_of caller)
        (ls\<lparr>world := (world ls)\<lparr>rw_cache := c\<rparr>\<rparr>) = (r, facts, sink, ls')"
      by (simp add: query_body_def Let_def)
    from result_body_kept [OF env cache P1 this] show ?thesis .
  qed
qed

text \<open>What the facts of a query say while no error has been recorded.\<close>

definition facts_match :: "runner_error + 'r query_response \<Rightarrow> audit_facts \<Rightarrow> bool" where
  "facts_match r facts \<longleftrightarrow> af_error_code facts = None \<and> \<not> af_rejected facts
     \<and> (\<forall>resp. r = Inr resp \<longrightarrow> af_row_count facts = (case qr_row_count resp of None \<Rightarrow> 0 | Some n \<Rightarrow> n)
          \<and> (\<forall>sql. qr_sql resp = Some sql \<longrightarrow> af_sql facts = sql))"

lemma sql_only_body_facts: "sql_only_body N q d ls = (r, facts, sink, ls') \<Longrightarrow> facts_match r facts"
  by (auto simp: sql_only_body_def facts_match_def no_facts_def Let_def split: prod.splits sum.splits)

lemma result_body_facts:
  assumes "result_body N q mode i pv scope d ls = (r, facts, sink, ls')"
  shows "facts_match r facts"
proof -
  obtain r1 ls1 where run: "safe_run N q d (if \<not> i then Some (rows_from_sql_cache N (mode_text mode) pv scope) else None) ls
      = (r1, ls1)" by fastforce
  show ?thesis
  proof (cases r1)
    case (Inl e)
    with run assms show ?thesis by (auto simp: result_body_def facts_match_def no_facts_def)
  next
    case (Inr dg)
    obtain df g where dg: "dg = (df, g)" by fastforce
    obtain ri ls2 where int: "interpret_stage N i q (ne_to_rows N df) ls1 = (ri, ls2)" by fastforce
    have f: "facts_match r (result_facts N df (ne_to_rows N df) g)"
      if "\<forall>resp. r = Inr resp \<longrightarrow> qr_row_count resp = Some (ne_row_count N (ne_to_rows N df))
        \<and> (\<forall>sql. qr_sql resp = Some sql \<longrightarrow> sql = gr_sql g)"
      using that by (auto simp: facts_match_def result_facts_def no_facts_def)
    show ?thesis
    proof (cases ri)
      case (Inl e)
      with run Inr dg int assms f show ?thesis by (auto simp: result_body_def Let_def)
    next
      case ri: (Inr interp)
      with run Inr dg int assms f show ?thesis
        by (auto simp: result_body_def Let_def split: option.splits prod.splits if_splits)
    qed
  qed
qed

lemma query_body_facts:
  assumes "query_body N q mode i caller pv ls = (r, facts, sink, ls')"
  shows "facts_match r facts"
proof -
  have cached: "facts_match (Inr resp) (serve_cached N resp)" for resp
    by (auto simp: facts_match_def serve_cached_def no_facts_def Let_def split: option.splits)
  show ?thesis
    using assms cached sql_only_body_facts result_body_facts
    unfolding query_body_def Let_def by (auto split: if_splits prod.splits option.splits)
qed

lemma facts_of_error_code:
  assumes "facts_match r facts"
  shows "case err of
      Typed e \<Rightarrow> af_error_code (facts_of_error N sink err facts) = Some (nlq_code (nq_kind e))
        \<and> (af_rejected (facts_of_error N sink err facts) \<longleftrightarrow> nq_kind e \<in> guard_rejected_errors)
        \<and> (\<forall>c s. nq_candidate_sql e = Some (c # s) \<longrightarrow> af_sql (facts_of_error N sink err facts) = c # s)
    | Untyped m \<Rightarrow> af_error_code (facts_of_error N sink err facts) = Some (u ''INTERNAL_ERROR'')"
  using assms
  by (cases err) (simp_all add: facts_of_error_def facts_match_def Let_def split: option.split list.split)


section \<open>A deployment the hypotheses hold in\<close>

text \<open>A model that answers every prompt alike, a guard that refuses nothing, and one stored row.\<close>

definition runner_backend :: "'w backend" where
  "runner_backend = \<lparr>be_name = u ''m'', be_endpoint = J_null, be_trusted = J_bool True,
     be_call = (\<lambda>req w. (Inr \<lparr>lr_text = Some (u ''SELECT 1''), lr_structured = None, lr_meta = []\<rparr>, 0, w)), be_warm = None\<rparr>"

definition runner_agent :: "('w, ustr list) agent_env" where
  "runner_agent = \<lparr>ag_llm = \<lparr>le_allow_remote = False, le_hash = (\<lambda>s. 0), le_clock = (\<lambda>w. 0)\<rparr>,
     ag_router = \<lparr>ro_chains = [], ro_default_chain = [runner_backend], ro_budgets = []\<rparr>,
     ag_build = (\<lambda>src. \<lparr>static_prefix = [], session_context = [], question = []\<rparr>),
     ag_guard = \<lparr>gd_clean = Inr, gd_validate = (\<lambda>s. None), gd_ensure_top = (\<lambda>s n. Inr s), gd_transpile = Inr\<rparr>,
     ag_execute = (\<lambda>sql w. (Inr [u ''1''], w)), ag_cache_lookup = None, ag_respell = (\<lambda>sql w. (sql, None)),
     ag_check_values = (\<lambda>sql w. \<lparr>vc_checked = 0, vc_unknown = []\<rparr>), ag_correction_text = (\<lambda>sql c. []),
     ag_hint = (\<lambda>e s. []), ag_show = (\<lambda>e. []), ag_max_corrections = 1, ag_default_top_n = 100,
     ag_value_spelling = False, ag_value_check = False\<rparr>"

definition runner_example :: "(unit, ustr list, ustr list) runner_env" where
  "runner_example = \<lparr>ne_agent = (\<lambda>q d. runner_agent), ne_select = (\<lambda>q w. None),
     ne_plain = (\<lambda>q d w. \<lparr>static_prefix = [], session_context = [], question = q\<rparr>), ne_content_version = u ''p'',
     ne_config_version = (\<lambda>n. u ''p''), ne_active_version = (\<lambda>w. None), ne_clock = (\<lambda>w. 0), ne_sha256 = id,
     ne_unicode = ascii_db, ne_fold_questions = False, ne_to_rows = id, ne_of_rows = id, ne_row_count = length,
     ne_frame_columns = (\<lambda>d. [u ''c'']), ne_row_columns = (\<lambda>r. [u ''c'']), ne_tables = (\<lambda>s. []),
     ne_datasource = (\<lambda>s. None), ne_interpret = (\<lambda>q rows ls. (Inr [], ls)), ne_finish_reason = (\<lambda>m. u ''stop''),
     ne_truncated = (\<lambda>r f. False), ne_truncated_message = [], ne_reasoning = (\<lambda>m. False),
     ne_is_refusal = (\<lambda>e. True), ne_transport = (\<lambda>e. None), ne_unreachable = (\<lambda>e. False),
     ne_classify = (\<lambda>e. (Db_other, [])), ne_cause = (\<lambda>e. []), ne_show = (\<lambda>e. [])\<rparr>"

definition runner_start :: "(unit, ustr list) runner_world llm_state" where
  "runner_start = \<lparr>world = \<lparr>rw_cache = new_cache 60 10, rw_audit = [], rw_rest = ()\<rparr>, sent = [], audited = [],
     activity = \<lparr>pa_max_entries = 256, pa_last = []\<rparr>\<rparr>"

definition runner_callers :: "principal option set" where
  "runner_callers = {None, Some (make_principal ascii_db (u ''a'') (u ''A'') [u ''t.c''] {})}"

lemma runner_example_keeps: "environment_keeps runner_example P"
  by (auto simp: environment_keeps_def runner_example_def runner_agent_def runner_backend_def backend_keeps_def
      router_backends_def)

lemma runner_start_sound: "cache_sound N callers (world runner_start)"
  by (simp add: runner_start_def cache_sound_def store_sound_def store_ok_def new_cache_def od_ok_def)

lemma runner_example_facts [ev]:
  "ne_agent runner_example q d = runner_agent" "ne_select runner_example q w = None"
  "ne_plain runner_example q d w = \<lparr>static_prefix = [], session_context = [], question = q\<rparr>"
  "ne_clock runner_example w = 0" "ne_to_rows runner_example = id" "ne_of_rows runner_example = id"
  "ne_unicode runner_example = ascii_db" "ne_fold_questions runner_example = False"
  "ne_active_version runner_example w = None" "ne_content_version runner_example = u ''p''"
  by (simp_all add: runner_example_def)

text \<open>What the model of the example writes is run, and its row is returned.\<close>

definition returned_rows :: "(runner_error + 'r query_response) \<Rightarrow> 'r option" where
  "returned_rows r = (case r of Inl e \<Rightarrow> None | Inr resp \<Rightarrow> qr_rows resp)"

lemma runner_example_answers:
  "returned_rows (fst (run_query runner_example (u ''q'') Mode_full False None (u ''id'') None runner_start))
     = Some [u ''1'']"
  by (simp add: ev Let_def returned_rows_def run_query_def query_body_def result_body_def safe_run_def request_agent_def
      runner_agent_def runner_backend_def interpret_stage_def store_response_def runner_start_def denied_of_def
      cache_scope_def rows_from_sql_cache_def cache_prefix_version_for_def numeral_2_eq_2)



end
