(* ===== verification/Untrusted_Text.thy ===== *)
theory Untrusted_Text
  imports Prelude
begin

text \<open>
  Two places where text from the warehouse is put into something that interprets it:
  \<open>prompt_engine/untrusted.py\<close> fences it in a prompt, \<open>exporters/sanitize.py\<close> defuses it in a
  spreadsheet cell.
\<close>

section \<open>Replacing a text\<close>

text \<open>\<open>str.replace\<close> with a non-empty pattern: occurrences from the left, not overlapping.\<close>

function replace_text :: "ustr \<Rightarrow> ustr \<Rightarrow> ustr \<Rightarrow> ustr" where
  "replace_text old new s =
     (if old = [] then s
      else case s of
        [] \<Rightarrow> []
      | c # t \<Rightarrow> if startswith s old then new @ replace_text old new (drop (length old) s)
                 else c # replace_text old new t)"
  by auto

termination
  by (relation "measure (\<lambda>(old, new, s). length s)") (auto simp: not_less_eq_eq Suc_le_eq)

declare replace_text.simps [simp del]

text \<open>The pieces between the occurrences.\<close>

function split_text :: "ustr \<Rightarrow> ustr \<Rightarrow> ustr list" where
  "split_text old s =
     (if old = [] then [s]
      else case s of
        [] \<Rightarrow> [[]]
      | c # t \<Rightarrow> if startswith s old then [] # split_text old (drop (length old) s)
                 else (case split_text old t of [] \<Rightarrow> [[c]] | w # ws \<Rightarrow> (c # w) # ws))"
  by auto

termination
  by (relation "measure (\<lambda>(old, s). length s)") (auto simp: not_less_eq_eq Suc_le_eq)

declare split_text.simps [simp del]

section \<open>The fence\<close>

definition untrusted_open :: ustr where
  "untrusted_open = u ''[[[BEGIN_UNTRUSTED_WAREHOUSE_DATA]]]''"

definition untrusted_close :: ustr where
  "untrusted_close = u ''[[[END_UNTRUSTED_WAREHOUSE_DATA]]]''"

definition neutralised :: "ustr \<Rightarrow> ustr" where
  "neutralised t = replace_text untrusted_close (u ''[UNTRUSTED_CLOSE]'')
     (replace_text untrusted_open (u ''[UNTRUSTED_OPEN]'') t)"

definition fence_untrusted :: "ustr \<Rightarrow> ustr" where
  "fence_untrusted t = untrusted_open @ [10] @ neutralised t @ [10] @ untrusted_close"

section \<open>Spreadsheet cells\<close>

text \<open>A cell is a text or a value of another type, which is left alone.\<close>

datatype 'v cell_value = Cell_text ustr | Cell_other 'v

definition dangerous_prefixes :: "ustr list" where
  "dangerous_prefixes = [u ''='', u ''+'', u ''-'', u ''@'', [9], [13]]"

fun defuse_formula :: "'v cell_value \<Rightarrow> 'v cell_value" where
  "defuse_formula (Cell_other v) = Cell_other v"
| "defuse_formula (Cell_text s) =
     (if list_ex (startswith s) dangerous_prefixes then Cell_text (39 # s) else Cell_text s)"

section \<open>Replacing splits at the occurrences\<close>

lemma split_text_not_Nil [simp]: "split_text old s \<noteq> []"
  by (subst split_text.simps) (auto split: list.splits)

lemma replace_text_join: "old \<noteq> [] \<Longrightarrow> replace_text old new s = join new (split_text old s)"
proof (induction old new s rule: replace_text.induct)
  case (1 old new s)
  show ?case
  proof (cases s)
    case Nil
    with 1(3) show ?thesis by (simp add: replace_text.simps split_text.simps)
  next
    case (Cons c t)
    show ?thesis
    proof (cases "startswith s old")
      case True
      obtain w ws where w: "split_text old (drop (length old) s) = w # ws"
        by (cases "split_text old (drop (length old) s)") auto
      from True 1(1) [OF 1(3) Cons True 1(3)] 1(3) Cons w show ?thesis
        by (simp add: replace_text.simps [of old new "c # t"] split_text.simps [of old "c # t"])
    next
      case False
      obtain w ws where w: "split_text old t = w # ws" by (cases "split_text old t") auto
      from False 1(2) [OF 1(3) Cons False 1(3)] 1(3) Cons w show ?thesis
        by (cases ws) (simp_all add: replace_text.simps [of old new "c # t"] split_text.simps [of old "c # t"])
    qed
  qed
qed

lemma split_text_join: "old \<noteq> [] \<Longrightarrow> join old (split_text old s) = s"
proof (induction old s rule: split_text.induct)
  case (1 old s)
  show ?case
  proof (cases s)
    case Nil
    with 1(3) show ?thesis by (simp add: split_text.simps)
  next
    case (Cons c t)
    show ?thesis
    proof (cases "startswith s old")
      case True
      then have s: "s = old @ drop (length old) s" by (metis append_take_drop_id startswith_def)
      obtain w ws where w: "split_text old (drop (length old) s) = w # ws"
        by (cases "split_text old (drop (length old) s)") auto
      with True 1(1) [OF 1(3) Cons True 1(3)] 1(3) Cons s show ?thesis
        by (simp add: split_text.simps [of old "c # t"])
    next
      case False
      obtain w ws where w: "split_text old t = w # ws" by (cases "split_text old t") auto
      from False 1(2) [OF 1(3) Cons False 1(3)] 1(3) Cons w show ?thesis
        by (cases ws) (simp_all add: split_text.simps [of old "c # t"])
    qed
  qed
qed

lemma join_Cons_prefix: "\<exists>r. join sep (w # ws) = w @ r"
  by (cases ws) auto

lemma split_text_free: "old \<noteq> [] \<Longrightarrow> w \<in> set (split_text old s) \<Longrightarrow> \<not> contains w old"
proof (induction old s arbitrary: w rule: split_text.induct)
  case (1 old s)
  show ?case
  proof (cases s)
    case Nil
    with 1(3,4) show ?thesis by (simp add: split_text.simps)
  next
    case (Cons c t)
    show ?thesis
    proof (cases "startswith s old")
      case True
      with 1(1) [OF 1(3) Cons True 1(3)] 1(3,4) Cons show ?thesis
        by (auto simp: split_text.simps [of old "c # t"])
    next
      case False
      obtain v vs where v: "split_text old t = v # vs" by (cases "split_text old t") auto
      obtain r where r: "t = v @ r"
        using split_text_join [OF 1(3), of t] join_Cons_prefix [of old v vs] v by metis
      have "\<not> startswith (c # v) old"
      proof
        assume "startswith (c # v) old"
        then obtain z where "c # v = old @ z" unfolding startswith_iff by blast
        then have "s = old @ z @ r" using Cons r by (metis append.assoc append_Cons)
        with False show False unfolding startswith_iff by blast
      qed
      with False 1(2) [OF 1(3) Cons False 1(3)] 1(3,4) Cons v show ?thesis
        by (auto simp: split_text.simps [of old "c # t"])
    qed
  qed
qed

lemma contains_part: "contains w p \<Longrightarrow> contains (a @ w @ b) p"
  unfolding contains_iff by (metis append.assoc)

lemma contains_join_piece: "w \<in> set ws \<Longrightarrow> contains w p \<Longrightarrow> contains (join sep ws) p"
proof (induction sep ws rule: join.induct)
  case (3 sep v x xs)
  then show ?case
    using contains_part [of w p "[]" "sep @ join sep (x # xs)"]
      contains_part [of "join sep (x # xs)" p "v @ sep" "[]"] by auto
qed simp_all

lemma append_eq_cases:
  assumes "xs @ ys = zs @ ts"
  obtains (left) us where "xs = zs @ us" "us @ ys = ts" | (right) us where "zs = xs @ us" "ys = us @ ts"
  using assms by (metis append_eq_append_conv2)

text \<open>A text that can neither hold the pattern, nor be held by it, nor share an end with it.\<close>

definition clear_of :: "ustr \<Rightarrow> ustr \<Rightarrow> bool" where
  "clear_of pat new \<longleftrightarrow> \<not> contains new pat \<and> \<not> contains pat new
     \<and> list_all (\<lambda>i. \<not> endswith new (take i pat) \<and> \<not> startswith new (drop (length pat - i) pat)) [1..<Suc (length pat)]"

lemma clear_of_ends:
  assumes "clear_of pat new" "x \<noteq> []"
  shows "\<not> (pat = x @ y \<and> new = z @ x)" "\<not> (pat = y @ x \<and> new = x @ z)"
proof -
  have *: "\<not> endswith new (take i pat) \<and> \<not> startswith new (drop (length pat - i) pat)"
    if "1 \<le> i" "i \<le> length pat" for i
    using assms(1) that by (auto simp: clear_of_def list_all_iff simp del: upt_Suc)
  have x: "1 \<le> length x" using assms(2) by (cases x) auto
  show "\<not> (pat = x @ y \<and> new = z @ x)"
    using * [of "length x"] x by (auto simp: endswith_iff)
  show "\<not> (pat = y @ x \<and> new = x @ z)"
    using * [of "length x"] x by (auto simp: startswith_iff)
qed

lemma contains_around:
  assumes "clear_of pat new" "contains (a @ new @ b) pat"
  shows "contains a pat \<or> contains b pat"
proof -
  have c: "\<not> contains new pat" "\<not> contains pat new" using assms(1) by (simp_all add: clear_of_def)
  from assms(2) obtain p q where "(p @ pat) @ q = a @ (new @ b)" by (metis append.assoc contains_iff)
  then show ?thesis
  proof (cases rule: append_eq_cases)
    case (right us)
    then have "contains a pat" unfolding contains_iff by (metis append.assoc)
    then show ?thesis ..
  next
    case outer: (left us)
    from outer(1) show ?thesis
    proof (cases rule: append_eq_cases)
      case (left vs)
      from outer(2) left(2) have "vs @ (pat @ q) = new @ b" by (metis append.assoc)
      then show ?thesis
      proof (cases rule: append_eq_cases)
        case (left ws)
        then have "contains b pat" unfolding contains_iff by metis
        then show ?thesis ..
      next
        case new: (right ws)
        from new(2) show ?thesis
        proof (cases rule: append_eq_cases)
          case (left zs)
          with new(1) clear_of_ends(1) [OF assms(1), of ws zs vs] have "ws = []" by blast
          with new(2) have "b = [] @ pat @ q" by simp
          then have "contains b pat" unfolding contains_iff by metis
          then show ?thesis ..
        next
          case (right zs)
          with new(1) have "contains new pat" unfolding contains_iff by metis
          with c show ?thesis by blast
        qed
      qed
    next
      case across: (right vs)
      from outer(2) show ?thesis
      proof (cases rule: append_eq_cases)
        case (left zs)
        with across(2) have "contains pat new" unfolding contains_iff by metis
        with c show ?thesis by blast
      next
        case (right zs)
        with across clear_of_ends(2) [OF assms(1), of us vs zs] have "us = []" by blast
        with across have "a = p @ pat @ []" by simp
        then have "contains a pat" unfolding contains_iff by metis
        then show ?thesis ..
      qed
    qed
  qed
qed

lemma contains_join:
  assumes "clear_of pat new" "pat \<noteq> []"
  shows "contains (join new ws) pat \<Longrightarrow> \<exists>w \<in> set ws. contains w pat"
proof (induction ws)
  case Nil
  with assms(2) show ?case by simp
next
  case (Cons w ws)
  show ?case
  proof (cases ws)
    case Nil
    with Cons.prems show ?thesis by simp
  next
    case (Cons x xs)
    then have "contains w pat \<or> contains (join new ws) pat"
      using contains_around [OF assms(1), of w "join new ws"] Cons.prems by simp
    with Cons.IH show ?thesis by auto
  qed
qed

section \<open>The fence holds\<close>

lemma replace_text_keeps_out:
  assumes "old \<noteq> []" "pat \<noteq> []" "clear_of pat new" "\<not> contains s pat \<or> pat = old"
  shows "\<not> contains (replace_text old new s) pat"
proof
  assume "contains (replace_text old new s) pat"
  then obtain w where w: "w \<in> set (split_text old s)" "contains w pat"
    using contains_join [OF assms(3,2)] by (auto simp: replace_text_join [OF assms(1)])
  with contains_join_piece [OF w, of old] split_text_join [OF assms(1), of s] split_text_free [OF assms(1) w(1)] assms(4)
  show False by auto
qed

lemma markers_clear:
  "clear_of untrusted_open (u ''[UNTRUSTED_OPEN]'')" "clear_of untrusted_open (u ''[UNTRUSTED_CLOSE]'')"
  "clear_of untrusted_close (u ''[UNTRUSTED_CLOSE]'')"
  by (simp_all add: clear_of_def untrusted_open_def untrusted_close_def ev upt_rec)

lemma marker_facts:
  "untrusted_open \<noteq> []" "untrusted_close \<noteq> []" "10 \<notin> set untrusted_open" "10 \<notin> set untrusted_close"
  "\<not> contains untrusted_open untrusted_close" "\<not> contains untrusted_close untrusted_open"
  by (simp_all add: untrusted_open_def untrusted_close_def ev)

lemma neutralised_free:
  "\<not> contains (neutralised t) untrusted_open" "\<not> contains (neutralised t) untrusted_close"
proof -
  have 1: "\<not> contains (replace_text untrusted_open (u ''[UNTRUSTED_OPEN]'') t) untrusted_open"
    by (rule replace_text_keeps_out) (simp_all add: marker_facts markers_clear)
  show "\<not> contains (neutralised t) untrusted_open"
    unfolding neutralised_def by (rule replace_text_keeps_out) (simp_all add: 1 marker_facts markers_clear)
  show "\<not> contains (neutralised t) untrusted_close"
    unfolding neutralised_def by (rule replace_text_keeps_out) (simp_all add: marker_facts markers_clear)
qed

text \<open>An occurrence of a text without the separator lies on one side of it.\<close>

lemma occurrence_beside_separator:
  assumes "c \<notin> set pat" "pat \<noteq> []" "p @ pat @ q = x @ c # y"
  shows "(\<exists>us. x = p @ pat @ us) \<or> (\<exists>us. p = x @ c # us \<and> us @ pat @ q = y)"
proof -
  from assms(3) have "(p @ pat) @ q = x @ (c # y)" by simp
  then show ?thesis
  proof (cases rule: append_eq_cases)
    case (right us)
    then show ?thesis by simp
  next
    case outer: (left us)
    from outer(1) show ?thesis
    proof (cases rule: append_eq_cases)
      case vs: (left vs)
      show ?thesis
      proof (cases vs)
        case Nil
        with vs outer(2) assms(1,2) show ?thesis by (cases pat) auto
      next
        case (Cons d ds)
        from vs(2) outer(2) have "(vs @ pat) @ q = c # y" by simp
        with Cons vs(1) have "p = x @ c # ds \<and> ds @ pat @ q = y" by simp
        then show ?thesis by blast
      qed
    next
      case vs: (right vs)
      have "us = []"
      proof (cases us)
        case (Cons d ds)
        with outer(2) vs(2) assms(1) show ?thesis by simp
      qed simp
      with vs have "x = p @ pat @ []" by simp
      then show ?thesis by blast
    qed
  qed
qed

lemma no_replacement: "old \<noteq> [] \<Longrightarrow> \<not> contains s old \<Longrightarrow> replace_text old new s = s"
proof (induction old new s rule: replace_text.induct)
  case (1 old new s)
  show ?case
  proof (cases s)
    case Nil
    with 1(3) show ?thesis by (simp add: replace_text.simps)
  next
    case (Cons c t)
    have "\<not> startswith s old"
      using 1(4) unfolding contains_iff startswith_iff by (metis append_Nil)
    moreover have "\<not> contains t old"
      using 1(4) Cons contains_part [of t old "[c]" "[]"] by auto
    ultimately show ?thesis
      using 1(2,3) Cons by (simp add: replace_text.simps [of old new "c # t"])
  qed
qed

text \<open>
  C36. Whatever a value from the warehouse holds, a prompt's fence around it has one closing marker, at its
  very end, and one opening marker, at its beginning: no value can end the fence and have the rest of
  its text read as prompt. A value without markers is quoted unchanged.
\<close>

theorem fence_cannot_be_closed_early:
  "(\<forall>before after. fence_untrusted t = before @ untrusted_close @ after \<longrightarrow> after = [])
   \<and> (\<forall>before after. fence_untrusted t = before @ untrusted_open @ after \<longrightarrow> before = [])
   \<and> (\<not> contains t untrusted_open \<and> \<not> contains t untrusted_close \<longrightarrow> neutralised t = t)"
proof (intro conjI allI impI)
  fix before after assume "fence_untrusted t = before @ untrusted_close @ after"
  then have "before @ untrusted_close @ after = untrusted_open @ 10 # (neutralised t @ 10 # untrusted_close)"
    by (simp add: fence_untrusted_def)
  from occurrence_beside_separator [OF marker_facts(4,2) this]
  obtain us where "us @ untrusted_close @ after = neutralised t @ 10 # untrusted_close"
    using marker_facts(5) unfolding contains_iff by metis
  from occurrence_beside_separator [OF marker_facts(4,2) this]
  obtain vs where "vs @ untrusted_close @ after = untrusted_close"
    using neutralised_free(2) [of t] unfolding contains_iff by metis
  then have "length (vs @ untrusted_close @ after) = length untrusted_close" by (rule arg_cong)
  then show "after = []" by simp
next
  fix before after assume "fence_untrusted t = before @ untrusted_open @ after"
  then have "before @ untrusted_open @ after = untrusted_open @ 10 # (neutralised t @ 10 # untrusted_close)"
    by (simp add: fence_untrusted_def)
  from occurrence_beside_separator [OF marker_facts(3,1) this] show "before = []"
  proof (elim disjE exE conjE)
    fix us assume "untrusted_open = before @ untrusted_open @ us"
    then have "length untrusted_open = length (before @ untrusted_open @ us)" by (rule arg_cong)
    then show "before = []" by simp
  next
    fix us assume "us @ untrusted_open @ after = neutralised t @ 10 # untrusted_close"
    from occurrence_beside_separator [OF marker_facts(3,1) this]
    have "contains (neutralised t) untrusted_open \<or> contains untrusted_close untrusted_open"
      unfolding contains_iff by metis
    with neutralised_free(1) marker_facts(6) show "before = []" by blast
  qed
next
  assume "\<not> contains t untrusted_open \<and> \<not> contains t untrusted_close"
  then show "neutralised t = t" by (simp add: neutralised_def no_replacement marker_facts)
qed

theorem fence_cannot_be_closed_early_witness:
  "neutralised (u ''Acme'') = u ''Acme''"
proof -
  have "\<not> contains (u ''Acme'') untrusted_open \<and> \<not> contains (u ''Acme'') untrusted_close"
    by (simp add: untrusted_open_def untrusted_close_def ev)
  with fence_cannot_be_closed_early [of "u ''Acme''"] show ?thesis by blast
qed

text \<open>
  No exported text opens as a formula, a text is changed by one apostrophe at most, and defusing
  twice changes nothing more.
\<close>

theorem exported_text_is_no_formula:
  "defuse_formula (Cell_text s) = Cell_text t \<Longrightarrow>
     \<not> list_ex (startswith t) dangerous_prefixes \<and> (t = s \<or> t = 39 # s)
     \<and> defuse_formula (Cell_text t) = Cell_text t"
  by (auto simp: dangerous_prefixes_def ev split: if_splits)

end
