(* ===== verification/Py_Float.thy ===== *)
theory Py_Float
  imports Prelude Complex_Main "HOL-Library.Log_Nat"
begin

text \<open>
  Python's \<open>float\<close>: binary64 with rounding to nearest, ties to even. A value is an exact rational
  or an infinity; NaN is the absence of a value (\<open>None\<close>) in the results of the operations, and the
  two zeros are one value.
\<close>

section \<open>Values\<close>

datatype flt = Minus_inf | Finite rat | Plus_inf

instantiation flt :: linorder
begin

fun less_eq_flt :: "flt \<Rightarrow> flt \<Rightarrow> bool" where
  "less_eq_flt Minus_inf y \<longleftrightarrow> True"
| "less_eq_flt (Finite a) (Finite b) \<longleftrightarrow> a \<le> b"
| "less_eq_flt (Finite a) y \<longleftrightarrow> y = Plus_inf"
| "less_eq_flt Plus_inf y \<longleftrightarrow> y = Plus_inf"

definition less_flt :: "flt \<Rightarrow> flt \<Rightarrow> bool" where
  "less_flt x y \<longleftrightarrow> x \<le> y \<and> \<not> y \<le> x"

instance
proof
  fix x y z :: flt
  show "x < y \<longleftrightarrow> x \<le> y \<and> \<not> y \<le> x" by (rule less_flt_def)
  show "x \<le> x" by (cases x) simp_all
  show "x \<le> y \<Longrightarrow> y \<le> z \<Longrightarrow> x \<le> z" by (cases x; cases y; cases z) simp_all
  show "x \<le> y \<Longrightarrow> y \<le> x \<Longrightarrow> x = y" by (cases x; cases y) simp_all
  show "x \<le> y \<or> y \<le> x" by (cases x; cases y) (simp_all add: linear)
qed

end

lemma less_flt_Finite [simp]: "Finite a < Finite b \<longleftrightarrow> a < b"
  by (auto simp: less_flt_def)

section \<open>Rounding\<close>

definition round_half_even :: "rat \<Rightarrow> int" where
  "round_half_even q =
     (let f = floor q; r = q - of_int f
      in if r < 1 / 2 then f else if 1 / 2 < r then f + 1 else if even f then f else f + 1)"

text \<open>The exponent of a positive value: the binary digits of its numerator less those of its denominator.\<close>

definition binade :: "rat \<Rightarrow> int" where
  "binade q =
     (case quotient_of q of
        (n, d) \<Rightarrow> (let k = int (floorlog 2 (nat n)) - int (floorlog 2 (nat d))
                  in if 2 powi k \<le> q then k else k - 1))"

definition ulp :: "rat \<Rightarrow> rat" where
  "ulp q = 2 powi (max (binade \<bar>q\<bar> - 52) (- 1074))"

text \<open>The smallest positive double.\<close>

definition tiny :: rat where
  "tiny = 2 powi (- 1074)"

definition double :: "rat \<Rightarrow> flt" where
  "double q =
     (let x = of_int (round_half_even (q / ulp q)) * ulp q
      in if \<bar>x\<bar> < 2 ^ 1024 then Finite x else if 0 < q then Plus_inf else Minus_inf)"

section \<open>Operations\<close>

text \<open>\<open>float(n)\<close> of an integer raises OverflowError (\<open>None\<close>) where the value has no finite double.\<close>

definition float_of_int :: "int \<Rightarrow> flt option" where
  "float_of_int n = (case double (of_int n) of Finite x \<Rightarrow> Some (Finite x) | _ \<Rightarrow> None)"

fun flt_minus :: "flt \<Rightarrow> flt \<Rightarrow> flt option" where
  "flt_minus (Finite a) (Finite b) = Some (double (a - b))"
| "flt_minus Plus_inf y = (if y = Plus_inf then None else Some Plus_inf)"
| "flt_minus Minus_inf y = (if y = Minus_inf then None else Some Minus_inf)"
| "flt_minus (Finite a) Plus_inf = Some Minus_inf"
| "flt_minus (Finite a) Minus_inf = Some Plus_inf"

fun flt_abs :: "flt \<Rightarrow> flt" where
  "flt_abs (Finite a) = Finite \<bar>a\<bar>"
| "flt_abs _ = Plus_inf"

text \<open>A finite number times a value.\<close>

fun flt_scale :: "rat \<Rightarrow> flt \<Rightarrow> flt option" where
  "flt_scale t (Finite a) = Some (double (t * a))"
| "flt_scale t Plus_inf = (if t = 0 then None else Some (if 0 < t then Plus_inf else Minus_inf))"
| "flt_scale t Minus_inf = (if t = 0 then None else Some (if 0 < t then Minus_inf else Plus_inf))"

text \<open>A comparison with NaN is false.\<close>

fun flt_le :: "flt option \<Rightarrow> flt option \<Rightarrow> bool" where
  "flt_le (Some x) (Some y) \<longleftrightarrow> x \<le> y"
| "flt_le _ _ \<longleftrightarrow> False"

text \<open>\<open>round(x, digits)\<close>: the exact value rounded in decimal, then to a double.\<close>

fun flt_round :: "nat \<Rightarrow> flt \<Rightarrow> flt" where
  "flt_round d (Finite x) = double (of_int (round_half_even (x * 10 ^ d)) / 10 ^ d)"
| "flt_round d x = x"

section \<open>Exact results\<close>

lemma round_half_even_int [simp]: "round_half_even (of_int k) = k"
  by (simp add: round_half_even_def)

lemma round_half_even_near: "\<bar>of_int (round_half_even q) - q\<bar> \<le> 1 / 2"
proof -
  have "of_int \<lfloor>q\<rfloor> \<le> q" "q < of_int \<lfloor>q\<rfloor> + 1" by linarith+
  then show ?thesis by (auto simp: round_half_even_def Let_def)
qed

lemma floorlog_two: "0 < n \<Longrightarrow> 2 ^ (floorlog 2 n - 1) \<le> n \<and> n < 2 ^ floorlog 2 n \<and> 0 < floorlog 2 n"
  using floorlog_bounds [where x = n and b = 2] by (simp add: floorlog_def)

lemma binade_bounds:
  assumes "0 < q"
  shows "2 powi binade q \<le> q" "q < 2 powi (binade q + 1)"
proof -
  obtain n d where nd: "quotient_of q = (n, d)" by fastforce
  have d: "0 < d" and q: "q = of_int n / of_int d"
    using quotient_of_denom_pos [OF nd] quotient_of_div [OF nd] by simp_all
  with assms have n: "0 < n" by (simp add: zero_less_divide_iff)
  define a where "a = floorlog 2 (nat n)"
  define b where "b = floorlog 2 (nat d)"
  have a: "2 ^ (a - 1) \<le> nat n" "nat n < 2 ^ a" "0 < a"
    using floorlog_two [of "nat n"] n by (simp_all add: a_def)
  have b: "2 ^ (b - 1) \<le> nat d" "nat d < 2 ^ b" "0 < b"
    using floorlog_two [of "nat d"] d by (simp_all add: b_def)
  have "(of_nat (2 ^ (a - 1)) :: rat) \<le> of_nat (nat n)" "(of_nat (nat n) :: rat) < of_nat (2 ^ a)"
    "(of_nat (2 ^ (b - 1)) :: rat) \<le> of_nat (nat d)" "(of_nat (nat d) :: rat) < of_nat (2 ^ b)"
    using a b by (simp_all only: of_nat_le_iff of_nat_less_iff)
  then have A: "(2::rat) powi (int a - 1) \<le> of_int n" "of_int n < (2::rat) powi int a"
      "(2::rat) powi (int b - 1) \<le> of_int d" "of_int d < (2::rat) powi int b"
    using n d a(3) b(3) by (simp_all add: power_int_def nat_diff_distrib)
  have "q < 2 powi int a / 2 powi (int b - 1)"
    unfolding q using A n d by (intro frac_less) simp_all
  also have "2 powi int a / 2 powi (int b - 1) = (2::rat) powi (int a - int b + 1)"
    by (simp add: power_int_diff [symmetric] algebra_simps del: power_int_of_nat)
  finally have up: "q < 2 powi (int a - int b + 1)" .
  have "2 powi (int a - int b - 1) = (2::rat) powi (int a - 1) / 2 powi int b"
    by (simp add: power_int_diff [symmetric] algebra_simps del: power_int_of_nat)
  also have "\<dots> \<le> q"
    unfolding q using A n d by (intro frac_le) simp_all
  finally have down: "2 powi (int a - int b - 1) \<le> q" .
  from up down show "2 powi binade q \<le> q" "q < 2 powi (binade q + 1)"
    by (auto simp: binade_def nd Let_def a_def [symmetric] b_def [symmetric])
qed

lemma binade_unique:
  assumes "0 < q" "2 powi e \<le> q" "q < 2 powi (e + 1)"
  shows "binade q = e"
proof -
  have "i < j" if "(2::rat) powi i < 2 powi j" for i j
    using that power_int_increasing [of j i "2::rat"] by (meson linorder_not_le one_le_numeral order.strict_iff_not)
  from this [of e "binade q + 1"] this [of "binade q" "e + 1"] binade_bounds [OF assms(1)] assms(2,3)
  show ?thesis by force
qed

lemma ulp_eq: "0 < \<bar>q\<bar> \<Longrightarrow> 2 powi e \<le> \<bar>q\<bar> \<Longrightarrow> \<bar>q\<bar> < 2 powi (e + 1) \<Longrightarrow> ulp q = 2 powi (max (e - 52) (- 1074))"
  by (simp add: ulp_def binade_unique)

lemma ulp_pos [simp]: "0 < ulp q"
  by (simp add: ulp_def)

lemma double_exact:
  assumes "q = of_int k * ulp q" "\<bar>q\<bar> < 2 ^ 1024"
  shows "double q = Finite q"
proof -
  have "q / ulp q = of_int k" using assms(1) ulp_pos [of q] by (metis less_irrefl nonzero_mult_div_cancel_right)
  with assms show ?thesis by (simp add: double_def Let_def)
qed

lemma double_zero [simp]: "double 0 = Finite 0"
  by (rule double_exact [of 0 0]) simp_all

text \<open>The integers up to \<open>2 ^ 53\<close> are exact.\<close>

lemma double_small_int:
  assumes "\<bar>n\<bar> \<le> 2 ^ 53"
  shows "double (of_int n) = Finite (of_int n)"
proof (cases "n = 0")
  case False
  define e where "e = binade \<bar>of_int n\<bar>"
  have pos: "0 < \<bar>of_int n :: rat\<bar>" using False by simp
  have le: "\<bar>of_int n :: rat\<bar> \<le> 2 ^ 53"
    using assms by (metis of_int_abs of_int_le_iff of_int_numeral of_int_power)
  have "2 powi e \<le> \<bar>of_int n :: rat\<bar>" "\<bar>of_int n :: rat\<bar> < 2 powi (e + 1)"
    unfolding e_def by (rule binade_bounds [OF pos])+
  then have lo: "(2::rat) powi e \<le> 2 powi 53" and hi: "(1::rat) < 2 powi (e + 1)"
    using le False by (simp_all add: power_int_def)
  have e53: "e \<le> 53"
    by (rule power_int_le_imp_le_exp [OF _ lo]) simp_all
  have e0: "0 \<le> e"
  proof (rule ccontr)
    assume "\<not> 0 \<le> e"
    then have "(2::rat) powi (e + 1) \<le> 2 powi 0" by (intro power_int_increasing) simp_all
    with hi show False by simp
  qed
  have ulp: "ulp (of_int n) = 2 powi (e - 52)"
    using e0 by (simp add: ulp_def e_def [symmetric] max_def)
  have "\<exists>k. of_int n = of_int k * ulp (of_int n)"
  proof (cases "e = 53")
    case True
    with \<open>2 powi e \<le> \<bar>of_int n :: rat\<bar>\<close> le have "\<bar>of_int n :: rat\<bar> = of_int (2 ^ 53)" by (simp add: power_int_def)
    then have "\<bar>n\<bar> = 2 ^ 53" by (metis of_int_abs of_int_eq_iff)
    then have "n = 2 ^ 53 \<or> n = - (2 ^ 53)" by linarith
    then have "of_int n = (of_int (n div 2) * 2 :: rat)" by auto
    with True ulp show ?thesis by auto
  next
    case False
    with e53 e0 have nat: "int (nat (52 - e)) = 52 - e" by simp
    have "(2::rat) powi (e - 52) * 2 ^ nat (52 - e) = 1"
      unfolding power_int_of_nat [symmetric] nat by (simp add: power_int_add [symmetric])
    then have "of_int n = of_int (n * 2 ^ nat (52 - e)) * ulp (of_int n)"
      unfolding ulp by (simp add: mult.assoc mult.commute [of "2 ^ nat (52 - e)"])
    then show ?thesis by blast
  qed
  then obtain k where "of_int n = of_int k * ulp (of_int n)" by blast
  moreover have "(2::rat) ^ 53 < 2 ^ 1024" by (rule power_strict_increasing) simp_all
  ultimately show ?thesis using double_exact le by (meson le_less_trans)
qed simp

text \<open>Doubles are multiples of the smallest one, so the difference of two is rounded to zero only when they are equal.\<close>

lemma double_multiple:
  assumes "double q = Finite x"
  shows "\<exists>k. x = of_int k * tiny"
proof -
  have x: "x = of_int (round_half_even (q / ulp q)) * ulp q"
    using assms by (auto simp: double_def Let_def split: if_splits)
  define j where "j = max (binade \<bar>q\<bar> - 52) (- 1074)"
  have j: "int (nat (j + 1074)) = j + 1074" unfolding j_def by (simp add: max_def)
  have "(2::rat) powi (j + 1074 + - 1074) = 2 powi (j + 1074) * 2 powi (- 1074)"
    by (rule power_int_add) simp
  moreover have "(2::rat) powi (j + 1074) = 2 ^ nat (j + 1074)"
    unfolding power_int_of_nat [symmetric] j ..
  ultimately have "ulp q = 2 ^ nat (j + 1074) * tiny"
    unfolding ulp_def j_def [symmetric] tiny_def by simp
  with x have "x = of_int (round_half_even (q / ulp q) * 2 ^ nat (j + 1074)) * tiny" by simp
  then show ?thesis by blast
qed

lemma double_no_underflow:
  assumes "q = of_int k * tiny" "q \<noteq> 0"
  shows "double q \<noteq> Finite 0"
proof -
  have pos: "0 < \<bar>q\<bar>" using assms(2) by simp
  have "1 \<le> \<bar>q / ulp q\<bar>"
  proof (cases "binade \<bar>q\<bar> - 52 \<le> - 1074")
    case True
    then have "ulp q = tiny" by (simp add: ulp_def tiny_def max_def)
    then have "q / ulp q = of_int k" using assms(1) ulp_pos [of q] by (metis less_irrefl nonzero_mult_div_cancel_right)
    moreover have "k \<noteq> 0" using assms by auto
    ultimately show ?thesis by (metis of_int_abs of_int_1_le_iff zero_less_abs_iff zless_imp_add1_zle add_0)
  next
    case False
    then have "ulp q = 2 powi (binade \<bar>q\<bar> - 52)" by (simp add: ulp_def tiny_def max_def)
    also have "\<dots> \<le> 2 powi binade \<bar>q\<bar>" by (rule power_int_increasing) simp_all
    also have "\<dots> \<le> \<bar>q\<bar>" by (rule binade_bounds [OF pos])
    finally have "ulp q \<le> \<bar>q\<bar>" .
    then show ?thesis using ulp_pos [of q] by (simp add: abs_divide le_divide_eq abs_of_pos less_imp_neq [symmetric])
  qed
  moreover have "\<bar>0 - x\<bar> \<le> 1 / 2 \<Longrightarrow> 1 \<le> \<bar>x\<bar> \<Longrightarrow> False" for x :: rat by linarith
  ultimately have "round_half_even (q / ulp q) \<noteq> 0"
    using round_half_even_near [of "q / ulp q"] by (metis of_int_0)
  then show ?thesis using less_imp_neq [OF ulp_pos [of q]] by (auto simp: double_def Let_def)
qed

lemma flt_minus_zero:
  assumes "double a = Finite a" "double b = Finite b" "double (a - b) = Finite 0"
  shows "a = b"
proof (rule ccontr)
  assume ne: "a \<noteq> b"
  obtain i j where "a = of_int i * tiny" "b = of_int j * tiny"
    using double_multiple assms(1,2) by metis
  then have "a - b = of_int (i - j) * tiny" by (simp add: algebra_simps)
  with ne assms(3) double_no_underflow show False by (metis right_minus_eq)
qed

end
