(* ===== verification/Result_Compare.thy ===== *)
theory Result_Compare
  imports Py_Float Sql_Ast "HOL-Library.Multiset"
begin

text \<open>
  When two query results are the same answer (\<open>eval/compare.py\<close>): rows as a multiset, numbers within a
  tolerance, order only where the reference statement decides it. A frame is its column names and
  its rows of cells; pandas itself is not modelled. \<open>sqlglot.parse_one\<close>, \<open>math.log10\<close> and \<open>int()\<close> of a
  text are parameters.
\<close>

section \<open>Cells\<close>

text \<open>
  A cell as pandas holds it. A date or time is its ISO text; a datetime is the text of its day and of
  its clock (with the offset when it has one), whether the clock shows midnight and whether it has
  no time zone. A value of another type is its \<open>str()\<close>. \<open>V_float None\<close> is NaN; the exact value of a
  decimal is a rational or an infinity.
\<close>

datatype raw =
    V_null | V_bool bool | V_int int | V_float "flt option" | V_decimal flt
  | V_datetime ustr ustr bool bool | V_date ustr | V_time ustr
  | V_bytes "nat list" | V_text ustr | V_other ustr | V_numpy raw

datatype cell = Cell_null | Cell_int int | Cell_float flt | Cell_time ustr | Cell_string ustr

definition byte_digit :: "nat \<Rightarrow> nat" where
  "byte_digit n = (if n < 10 then 48 + n else 87 + n)"

definition hex_text :: "nat list \<Rightarrow> ustr" where
  "hex_text bs = concat (map (\<lambda>b. [byte_digit (b div 16), byte_digit (b mod 16)]) bs)"

fun float_of_decimal :: "flt \<Rightarrow> flt" where
  "float_of_decimal (Finite q) = double q"
| "float_of_decimal x = x"

fun normalise_cell :: "raw \<Rightarrow> cell" where
  "normalise_cell V_null = Cell_null"
| "normalise_cell (V_float None) = Cell_null"
| "normalise_cell (V_numpy v) = normalise_cell v"
| "normalise_cell (V_bool b) = Cell_int (if b then 1 else 0)"
| "normalise_cell (V_int n) = Cell_int n"
| "normalise_cell (V_float (Some x)) = Cell_float x"
| "normalise_cell (V_decimal x) = Cell_float (float_of_decimal x)"
| "normalise_cell (V_datetime day clock midnight naive) =
     (if midnight \<and> naive then Cell_time day else Cell_time (day @ u ''T'' @ clock))"
| "normalise_cell (V_date s) = Cell_time s"
| "normalise_cell (V_time s) = Cell_time s"
| "normalise_cell (V_bytes bs) = Cell_string (hex_text bs)"
| "normalise_cell (V_text s) = Cell_string s"
| "normalise_cell (V_other s) = Cell_string s"

section \<open>Comparing cells and rows\<close>

datatype compare_error = Float_overflow | Index_error | Bad_tolerance

text \<open>\<open>all(...)\<close> and the loops that stop at the first difference: the first false or raising element decides.\<close>

fun all_lazy :: "('a \<Rightarrow> 'e + bool) \<Rightarrow> 'a list \<Rightarrow> 'e + bool" where
  "all_lazy p [] = Inr True"
| "all_lazy p (x # xs) = (case p x of Inl e \<Rightarrow> Inl e | Inr b \<Rightarrow> if b then all_lazy p xs else Inr False)"

fun map_or_error :: "('a \<Rightarrow> 'e + 'b) \<Rightarrow> 'a list \<Rightarrow> 'e + 'b list" where
  "map_or_error f [] = Inr []"
| "map_or_error f (x # xs) = (case f x of Inl e \<Rightarrow> Inl e | Inr y \<Rightarrow> map_sum id (\<lambda>ys. y # ys) (map_or_error f xs))"

fun is_numeric :: "cell \<Rightarrow> bool" where
  "is_numeric (Cell_int n) \<longleftrightarrow> True"
| "is_numeric (Cell_float x) \<longleftrightarrow> True"
| "is_numeric _ \<longleftrightarrow> False"

text \<open>\<open>float(value)\<close> of a numeric cell.\<close>

fun cell_float :: "cell \<Rightarrow> compare_error + flt" where
  "cell_float (Cell_int n) = (case float_of_int n of None \<Rightarrow> Inl Float_overflow | Some x \<Rightarrow> Inr x)"
| "cell_float (Cell_float x) = Inr x"
| "cell_float _ = Inr (Finite 0)"

definition floats_close :: "rat \<Rightarrow> flt \<Rightarrow> flt \<Rightarrow> bool" where
  "floats_close t x y \<longleftrightarrow> x = y
     \<or> flt_le (map_option flt_abs (flt_minus x y)) (flt_scale t (max (max (Finite 1) (flt_abs x)) (flt_abs y)))"

definition cells_equal :: "rat \<Rightarrow> cell \<Rightarrow> cell \<Rightarrow> compare_error + bool" where
  "cells_equal t a b =
     (case (a, b) of
        (Cell_int m, Cell_int n) \<Rightarrow> Inr (m = n)
      | _ \<Rightarrow>
          if is_numeric a \<and> is_numeric b
          then (case cell_float a of
                  Inl e \<Rightarrow> Inl e
                | Inr x \<Rightarrow> (case cell_float b of Inl e \<Rightarrow> Inl e | Inr y \<Rightarrow> Inr (floats_close t x y)))
          else Inr (a = b))"

definition rows_equal :: "rat \<Rightarrow> cell list \<Rightarrow> cell list \<Rightarrow> compare_error + bool" where
  "rows_equal t a b = (if length a = length b then all_lazy (\<lambda>(x, y). cells_equal t x y) (zip a b) else Inr False)"

section \<open>Comparing multisets of rows\<close>

text \<open>The exact part of a row, with a mark where a number stands, and its numbers.\<close>

definition signature :: "cell list \<Rightarrow> cell option list" where
  "signature row = map (\<lambda>c. if is_numeric c then None else Some c) row"

definition numeric_part :: "cell list \<Rightarrow> cell list" where
  "numeric_part row = filter is_numeric row"

definition digits_for :: "(rat \<Rightarrow> rat) \<Rightarrow> rat \<Rightarrow> nat option" where
  "digits_for log10 t = (if t \<le> 0 then None else Some (nat (max 0 \<lceil>- log10 t\<rceil>)))"

definition row_key :: "nat option \<Rightarrow> cell list \<Rightarrow> compare_error + flt list" where
  "row_key digits v =
     map_or_error (\<lambda>c. map_sum id (case digits of None \<Rightarrow> id | Some d \<Rightarrow> flt_round d) (cell_float c)) v"

text \<open>\<open>sorted(vectors, key=...)\<close>: stable, on tuples of floats.\<close>

definition sort_rows :: "nat option \<Rightarrow> cell list list \<Rightarrow> compare_error + cell list list" where
  "sort_rows digits vs = map_sum id (\<lambda>ks. map snd (sort_key fst (zip ks vs))) (map_or_error (row_key digits) vs)"

type_synonym row_groups = "(cell option list, cell list list) odict"

definition put_in_group :: "cell option list \<Rightarrow> cell list \<Rightarrow> row_groups \<Rightarrow> row_groups" where
  "put_in_group s v d =
     (if s \<in> fst ` set d then map (\<lambda>(k, vs). (k, if k = s then vs @ [v] else vs)) d else d @ [(s, [v])])"

definition group_rows :: "cell list list \<Rightarrow> row_groups" where
  "group_rows rows = foldl (\<lambda>d row. put_in_group (signature row) (numeric_part row) d) [] rows"

definition group_equal ::
    "nat option \<Rightarrow> rat \<Rightarrow> cell list list \<Rightarrow> cell list list \<Rightarrow> compare_error + bool" where
  "group_equal digits t ve va =
     (if length ve \<noteq> length va then Inr False
      else if hd ve = [] then Inr True
      else (case sort_rows digits ve of
              Inl e \<Rightarrow> Inl e
            | Inr se \<Rightarrow>
                (case sort_rows digits va of
                   Inl e \<Rightarrow> Inl e
                 | Inr sa \<Rightarrow> all_lazy (\<lambda>(x, y). rows_equal t x y) (zip se sa))))"

definition multisets_equal ::
    "(rat \<Rightarrow> rat) \<Rightarrow> rat \<Rightarrow> cell list list \<Rightarrow> cell list list \<Rightarrow> compare_error + bool" where
  "multisets_equal log10 t expected actual =
     (let ge = group_rows expected; ga = group_rows actual
      in if fst ` set ge \<noteq> fst ` set ga then Inr False
         else all_lazy (\<lambda>(s, ve). group_equal (digits_for log10 t) t ve
                (case map_of ga s of None \<Rightarrow> [] | Some va \<Rightarrow> va)) ge)"

section \<open>Comparing frames\<close>

record frame =
  fr_columns :: "ustr list"
  fr_rows :: "raw list list"

record verdict =
  vd_equal :: bool
  vd_reason :: ustr
  vd_ordered :: bool

definition rows_of :: "frame \<Rightarrow> cell list list" where
  "rows_of f = map (map normalise_cell) (fr_rows f)"

text \<open>The check of \<open>ComparisonOptions\<close>; \<open>None\<close> is NaN.\<close>

definition comparison_options :: "flt option \<Rightarrow> compare_error + rat" where
  "comparison_options tolerance =
     (case tolerance of Some (Finite t) \<Rightarrow> if 0 \<le> t then Inr t else Inl Bad_tolerance | _ \<Rightarrow> Inl Bad_tolerance)"

definition keys_equal :: "rat \<Rightarrow> nat list \<Rightarrow> cell list \<times> cell list \<Rightarrow> compare_error + bool" where
  "keys_equal t keys p =
     (case p of (re, ra) \<Rightarrow>
        all_lazy (\<lambda>k. if k < length re \<and> k < length ra then cells_equal t (re ! k) (ra ! k) else Inl Index_error) keys)"

definition order_equal ::
    "rat \<Rightarrow> nat list option \<Rightarrow> cell list list \<Rightarrow> cell list list \<Rightarrow> compare_error + bool" where
  "order_equal t keys re ra =
     (case keys of
        Some (k # ks) \<Rightarrow> all_lazy (keys_equal t (k # ks)) (zip re ra)
      | _ \<Rightarrow> all_lazy (\<lambda>(x, y). rows_equal t x y) (zip re ra))"

definition compare_frames ::
    "(rat \<Rightarrow> rat) \<Rightarrow> rat \<Rightarrow> frame \<Rightarrow> frame \<Rightarrow> bool \<Rightarrow> nat list option \<Rightarrow> compare_error + verdict" where
  "compare_frames log10 t expected actual ordered keys =
     (let ce = length (fr_columns expected); ca = length (fr_columns actual);
          re = rows_of expected; ra = rows_of actual
      in if ce \<noteq> ca
         then Inr \<lparr>vd_equal = False, vd_reason = u ''column count differs (expected '' @ decimal ce @ u '', got ''
                @ decimal ca @ u '')'', vd_ordered = ordered\<rparr>
         else if length re \<noteq> length ra
         then Inr \<lparr>vd_equal = False, vd_reason = u ''row count differs (expected '' @ decimal (length re) @ u '', got ''
                @ decimal (length ra) @ u '')'', vd_ordered = ordered\<rparr>
         else (case multisets_equal log10 t re ra of
                 Inl e \<Rightarrow> Inl e
               | Inr False \<Rightarrow> Inr \<lparr>vd_equal = False, vd_reason = u ''result values differ'', vd_ordered = ordered\<rparr>
               | Inr True \<Rightarrow>
                   (case (if ordered \<and> re \<noteq> [] then order_equal t keys re ra else Inr True) of
                      Inl e \<Rightarrow> Inl e
                    | Inr False \<Rightarrow> Inr \<lparr>vd_equal = False,
                        vd_reason = u ''row order differs from the reference ORDER BY'', vd_ordered = True\<rparr>
                    | Inr True \<Rightarrow> Inr \<lparr>vd_equal = True, vd_reason = u ''match'', vd_ordered = ordered\<rparr>)))"

section \<open>The order a reference decides\<close>

text \<open>The names each selected column answers to; \<open>None\<close> with a star.\<close>

definition is_star :: "ast \<Rightarrow> bool" where
  "is_star p \<longleftrightarrow> cls p = Star \<or> cls p = Column \<and> (case arg This p of None \<Rightarrow> False | Some c \<Rightarrow> cls c = Star)"

definition column_answers :: "unicode_db \<Rightarrow> ast \<Rightarrow> ustr set" where
  "column_answers U p =
     ({lower U (alias_or_name p)} - {[]})
     \<union> (case arg This p of
          Some c \<Rightarrow> if cls p = Alias \<and> cls c = Column then {lower U (name_of c)} else {}
        | None \<Rightarrow> {})"

definition projection_names :: "unicode_db \<Rightarrow> ast \<Rightarrow> ustr set list option" where
  "projection_names U tree =
     (if list_ex is_star (arg_list Expressions tree) then None
      else Some (map (column_answers U) (arg_list Expressions tree)))"

fun first_index :: "('a \<Rightarrow> bool) \<Rightarrow> 'a list \<Rightarrow> nat option" where
  "first_index p [] = None"
| "first_index p (x # xs) = (if p x then Some 0 else map_option Suc (first_index p xs))"

definition order_position ::
    "unicode_db \<Rightarrow> (ustr \<Rightarrow> int option) \<Rightarrow> ustr set list \<Rightarrow> ast \<Rightarrow> nat option" where
  "order_position U read_int names ordered_expr =
     (case arg This ordered_expr of
        None \<Rightarrow> None
      | Some target \<Rightarrow>
          if cls target = Literal \<and> \<not> nt_string (text_of target)
          then (let candidate = (case read_int (name_of target) of None \<Rightarrow> - 1 | Some n \<Rightarrow> n - 1)
                in if 0 \<le> candidate \<and> candidate < int (length names) then Some (nat candidate) else None)
          else if cls target = Column then first_index (\<lambda>aliases. lower U (name_of target) \<in> aliases) names
          else None)"

fun order_positions ::
    "unicode_db \<Rightarrow> (ustr \<Rightarrow> int option) \<Rightarrow> ustr set list \<Rightarrow> ast list \<Rightarrow> nat list option" where
  "order_positions U read_int names [] = Some []"
| "order_positions U read_int names (e # es) =
     (case order_position U read_int names e of
        None \<Rightarrow> None
      | Some k \<Rightarrow> map_option (\<lambda>ks. k # ks) (order_positions U read_int names es))"

definition reference_ordering ::
    "unicode_db \<Rightarrow> (ustr \<Rightarrow> int option) \<Rightarrow> (ustr \<Rightarrow> ast option) \<Rightarrow> ustr \<Rightarrow> bool \<times> nat list option" where
  "reference_ordering U read_int parse sql =
     (case parse sql of
        None \<Rightarrow> (False, None)
      | Some tree \<Rightarrow>
          if cls tree \<noteq> Select then (False, None)
          else (case arg Order tree of
                  None \<Rightarrow> (False, None)
                | Some order \<Rightarrow>
                    if arg Limit tree = None \<and> arg Offset tree = None \<and> arg Fetch tree = None then (False, None)
                    else (case projection_names U tree of
                            None \<Rightarrow> (True, None)
                          | Some names \<Rightarrow>
                              (True, order_positions U read_int names (arg_list Expressions order)))))"

definition compare_to_reference ::
    "unicode_db \<Rightarrow> (ustr \<Rightarrow> int option) \<Rightarrow> (ustr \<Rightarrow> ast option) \<Rightarrow> (rat \<Rightarrow> rat) \<Rightarrow> rat \<Rightarrow> ustr
     \<Rightarrow> frame \<Rightarrow> frame \<Rightarrow> compare_error + verdict" where
  "compare_to_reference U read_int parse log10 t reference_sql reference actual =
     (case reference_ordering U read_int parse reference_sql of
        (ordered, keys) \<Rightarrow> compare_frames log10 t reference actual ordered keys)"

section \<open>Containment\<close>

text \<open>The first remaining row that matches is used up.\<close>

fun remove_match :: "rat \<Rightarrow> cell list \<Rightarrow> cell list list \<Rightarrow> compare_error + cell list list option" where
  "remove_match t v [] = Inr None"
| "remove_match t v (c # cs) =
     (case rows_equal t v c of
        Inl e \<Rightarrow> Inl e
      | Inr True \<Rightarrow> Inr (Some cs)
      | Inr False \<Rightarrow> map_sum id (map_option (\<lambda>rest. c # rest)) (remove_match t v cs))"

fun match_all :: "rat \<Rightarrow> cell list list \<Rightarrow> cell list list \<Rightarrow> compare_error + bool" where
  "match_all t [] remaining = Inr True"
| "match_all t (v # vs) remaining =
     (case remove_match t v remaining of
        Inl e \<Rightarrow> Inl e
      | Inr None \<Rightarrow> Inr False
      | Inr (Some rest) \<Rightarrow> match_all t vs rest)"

definition group_contained ::
    "nat option \<Rightarrow> rat \<Rightarrow> cell list list option \<Rightarrow> cell list list \<Rightarrow> compare_error + bool" where
  "group_contained digits t big small =
     (case big of
        None \<Rightarrow> Inr False
      | Some vb \<Rightarrow>
          if length vb < length small then Inr False
          else if hd small = [] then Inr True
          else (case sort_rows digits vb of
                  Inl e \<Rightarrow> Inl e
                | Inr sb \<Rightarrow>
                    (case sort_rows digits small of Inl e \<Rightarrow> Inl e | Inr ss \<Rightarrow> match_all t ss sb)))"

definition containment_row_limit :: nat where "containment_row_limit = 20000"

definition multiset_equal :: "(rat \<Rightarrow> rat) \<Rightarrow> rat \<Rightarrow> frame \<Rightarrow> frame \<Rightarrow> compare_error + bool" where
  "multiset_equal log10 t expected actual =
     (if length (fr_columns expected) \<noteq> length (fr_columns actual) then Inr False
      else if length (rows_of expected) \<noteq> length (rows_of actual) then Inr False
      else multisets_equal log10 t (rows_of expected) (rows_of actual))"

definition multiset_contains :: "(rat \<Rightarrow> rat) \<Rightarrow> rat \<Rightarrow> frame \<Rightarrow> frame \<Rightarrow> compare_error + bool" where
  "multiset_contains log10 t larger smaller =
     (let big = rows_of larger; small = rows_of smaller
      in if length (fr_columns larger) \<noteq> length (fr_columns smaller) then Inr False
         else if length big < length small then Inr False
         else if containment_row_limit < length big then Inr False
         else (let gb = group_rows big
               in all_lazy (\<lambda>(s, vs). group_contained (digits_for log10 t) t (map_of gb s) vs) (group_rows small)))"

end
