(* ===== verification/Answer_Match.thy ===== *)
theory Answer_Match
  imports Result_Compare
begin

text \<open>
  What the verdicts of \<open>Result_Compare\<close> mean. Two answers called equal pair up row by row; with
  tolerance zero the verdict is the equality of multisets; a reordered answer is recognised when no
  two of its rows share a sort key, and the examples show that the condition is needed.
\<close>

section \<open>Short-circuit loops\<close>

lemma all_lazy_True [simp]: "all_lazy p xs = Inr True \<longleftrightarrow> (\<forall>x \<in> set xs. p x = Inr True)"
  by (induction xs) (auto split: sum.splits)

lemma all_lazy_pure: "(\<And>x. x \<in> set xs \<Longrightarrow> p x = Inr (q x)) \<Longrightarrow> all_lazy p xs = Inr (list_all q xs)"
  by (induction xs) auto

lemma map_or_error_Inr:
  "map_or_error f xs = Inr ys \<longleftrightarrow> list_all2 (\<lambda>x y. f x = Inr y) xs ys"
proof (induction xs arbitrary: ys)
  case (Cons x xs)
  have "map_or_error f (x # xs) = Inr ys \<longleftrightarrow> (\<exists>y zs. f x = Inr y \<and> map_or_error f xs = Inr zs \<and> ys = y # zs)"
    by (cases "f x"; cases "map_or_error f xs") auto
  also have "\<dots> \<longleftrightarrow> list_all2 (\<lambda>x y. f x = Inr y) (x # xs) ys"
    unfolding Cons.IH by (auto simp: list_all2_Cons1)
  finally show ?case .
qed auto

lemma map_or_error_pure: "(\<And>x. x \<in> set xs \<Longrightarrow> f x = Inr (g x)) \<Longrightarrow> map_or_error f xs = Inr (map g xs)"
  by (induction xs) auto

lemma rows_equal_True:
  "rows_equal t a b = Inr True \<longleftrightarrow> list_all2 (\<lambda>x y. cells_equal t x y = Inr True) a b"
  by (auto simp: rows_equal_def list_all2_iff)

section \<open>Groups\<close>

lemma keys_put_in_group [simp]: "fst ` set (put_in_group s v d) = insert s (fst ` set d)"
  by (force simp: put_in_group_def image_iff)

lemma map_of_put_in_group:
  "map_of (put_in_group s v d) k =
     (if k = s then Some ((case map_of d s of None \<Rightarrow> [] | Some vs \<Rightarrow> vs) @ [v]) else map_of d k)"
proof (cases "s \<in> fst ` set d")
  case True
  have "map_of (map (\<lambda>(k, vs). (k, if k = s then vs @ [v] else vs)) d) k =
      map_option (\<lambda>vs. if k = s then vs @ [v] else vs) (map_of d k)" for k
    by (induction d) auto
  moreover obtain vs where "map_of d s = Some vs" using True by (metis map_of_eq_None_iff not_None_eq)
  ultimately show ?thesis using True by (cases "map_of d k") (auto simp: put_in_group_def)
next
  case False
  then have "map_of d s = None" by (simp add: map_of_eq_None_iff)
  with False show ?thesis by (cases "map_of d k") (auto simp: put_in_group_def map_add_def)
qed

lemma distinct_put_in_group: "distinct (map fst d) \<Longrightarrow> distinct (map fst (put_in_group s v d))"
proof -
  have "map fst (map (\<lambda>(k, vs). (k, if k = s then vs @ [v] else vs)) d) = map fst d"
    by (induction d) auto
  then show "distinct (map fst d) \<Longrightarrow> ?thesis" by (auto simp: put_in_group_def simp del: map_map)
qed

definition group_of :: "cell option list \<Rightarrow> cell list list \<Rightarrow> cell list list" where
  "group_of s rows = map numeric_part (filter (\<lambda>r. signature r = s) rows)"

lemma group_rows_snoc:
  "group_rows (rows @ [r]) = put_in_group (signature r) (numeric_part r) (group_rows rows)"
  by (simp add: group_rows_def)

lemma keys_group_rows: "fst ` set (group_rows rows) = signature ` set rows"
  by (induction rows rule: rev_induct) (simp_all add: group_rows_snoc, simp add: group_rows_def)

lemma distinct_group_rows: "distinct (map fst (group_rows rows))"
  by (induction rows rule: rev_induct) (simp_all add: group_rows_snoc distinct_put_in_group, simp add: group_rows_def)

lemma map_of_group_rows:
  "map_of (group_rows rows) s = (if s \<in> signature ` set rows then Some (group_of s rows) else None)"
proof (induction rows rule: rev_induct)
  case Nil
  show ?case by (simp add: group_rows_def)
next
  case (snoc r rows)
  have "group_of s rows = []" if "s \<notin> signature ` set rows"
    using that by (auto simp: group_of_def filter_empty_conv)
  with snoc show ?case
    by (auto simp: group_rows_snoc map_of_put_in_group group_of_def)
qed

lemma set_group_rows: "(s, vs) \<in> set (group_rows rows) \<longleftrightarrow> s \<in> signature ` set rows \<and> vs = group_of s rows"
  using map_of_group_rows [of rows s] distinct_group_rows [of rows]
  by (metis map_of_eq_Some_iff option.distinct(1) option.inject)

lemma list_all_group_rows: "list_all (\<lambda>(s, ve). Q s) (group_rows rows) \<longleftrightarrow> (\<forall>s \<in> signature ` set rows. Q s)"
  unfolding keys_group_rows [symmetric] by (force simp: list_all_iff)

lemma group_of_not_Nil: "s \<in> signature ` set rows \<Longrightarrow> group_of s rows \<noteq> []"
  by (auto simp: group_of_def filter_empty_conv)

lemma multisets_equal_groups:
  "multisets_equal L t e a =
     (if signature ` set e \<noteq> signature ` set a then Inr False
      else all_lazy (\<lambda>(s, ve). group_equal (digits_for L t) t (group_of s e) (group_of s a)) (group_rows e))"
proof -
  have cong: "all_lazy p xs = all_lazy q xs" if "\<And>x. x \<in> set xs \<Longrightarrow> p x = q x" for p q :: "'x \<Rightarrow> 'y + bool" and xs
    using that by (induction xs) (auto split: sum.splits)
  show ?thesis
    unfolding multisets_equal_def Let_def keys_group_rows
    by (auto intro!: cong simp: set_group_rows map_of_group_rows)
qed

section \<open>Equal answers pair up\<close>

lemma sort_rows_mset: "sort_rows d vs = Inr ws \<Longrightarrow> mset ws = mset vs"
proof -
  assume "sort_rows d vs = Inr ws"
  then obtain ks where ks: "map_or_error (row_key d) vs = Inr ks" and ws: "ws = map snd (sort_key fst (zip ks vs))"
    by (cases "map_or_error (row_key d) vs") (auto simp: sort_rows_def)
  have "length ks = length vs" using ks by (auto simp: map_or_error_Inr list_all2_lengthD)
  then have "image_mset snd (mset (zip ks vs)) = mset vs" by (metis map_snd_zip mset_map)
  with ws show ?thesis by simp
qed

abbreviation alike :: "rat \<Rightarrow> cell list \<Rightarrow> cell list \<Rightarrow> bool" where
  "alike t a b \<equiv> rows_equal t a b = Inr True"

lemma alike_from_parts:
  "signature a = signature b \<Longrightarrow> alike t (numeric_part a) (numeric_part b) \<Longrightarrow> alike t a b"
proof (induction a arbitrary: b)
  case (Cons x a)
  then obtain y b' where b: "b = y # b'" by (cases b) (auto simp: signature_def)
  show ?case
  proof (cases "is_numeric x")
    case True
    with Cons b show ?thesis by (auto simp: rows_equal_True signature_def numeric_part_def split: if_splits)
  next
    case False
    with Cons.prems(1) b have "\<not> is_numeric y" "x = y" by (auto simp: signature_def split: if_splits)
    moreover have "cells_equal t y y = Inr True" if "\<not> is_numeric y" for y
      using that by (cases y) (simp_all add: cells_equal_def)
    ultimately show ?thesis using Cons b by (auto simp: rows_equal_True signature_def numeric_part_def)
  qed
qed (auto simp: signature_def rows_equal_True)

lemma rel_mset_refl_on: "(\<And>x. x \<in># M \<Longrightarrow> R x x) \<Longrightarrow> rel_mset R M M"
  by (rule multiset.rel_refl_strong)

lemma group_equal_pairs:
  assumes "group_equal d t ve va = Inr True" "ve \<noteq> []" "\<forall>v \<in> set ve \<union> set va. length v = n"
  shows "rel_mset (alike t) (mset ve) (mset va)"
proof (cases "hd ve = []")
  case True
  with assms(2,3) have "n = 0" by (cases ve) auto
  with assms(3) have "replicate (length ve) [] = ve" "replicate (length va) [] = va"
    by (auto intro!: replicate_length_same)
  moreover have "length ve = length va" using assms(1) by (auto simp: group_equal_def split: if_splits)
  ultimately have "ve = va" by metis
  with \<open>n = 0\<close> assms(3) show ?thesis by (auto intro!: rel_mset_refl_on simp: rows_equal_True)
next
  case False
  with assms(1) have len: "length ve = length va" by (auto simp: group_equal_def split: if_splits)
  from assms(1) False len obtain se sa where s: "sort_rows d ve = Inr se" "sort_rows d va = Inr sa"
      "\<forall>p \<in> set (zip se sa). alike t (fst p) (snd p)"
    by (auto simp: group_equal_def split_def split: sum.splits)
  then have "mset se = mset ve" "mset sa = mset va" by (simp_all add: sort_rows_mset)
  moreover from this have "length se = length sa" using len by (metis size_mset)
  with s(3) have "list_all2 (alike t) se sa" by (auto simp: list_all2_iff)
  ultimately show ?thesis unfolding rel_mset_def by blast
qed

lemma rel_mset_union: "rel_mset R A B \<Longrightarrow> rel_mset R C D \<Longrightarrow> rel_mset R (A + C) (B + D)"
  unfolding rel_mset_def by (metis list_all2_appendI mset_append)

lemma part_insert:
  "s \<notin> S \<Longrightarrow> filter_mset (\<lambda>r. f r \<in> insert s S) M = filter_mset (\<lambda>r. f r = s) M + filter_mset (\<lambda>r. f r \<in> S) M"
  by (auto simp: multiset_eq_iff count_filter_mset)

lemma rel_mset_by_groups:
  assumes "finite S" "\<And>s. s \<in> S \<Longrightarrow> rel_mset R (filter_mset (\<lambda>r. f r = s) A) (filter_mset (\<lambda>r. f r = s) B)"
  shows "rel_mset R (filter_mset (\<lambda>r. f r \<in> S) A) (filter_mset (\<lambda>r. f r \<in> S) B)"
  using assms
proof (induction S rule: finite_induct)
  case empty
  show ?case by (simp add: rel_mset_Zero)
next
  case (insert s S)
  then show ?case unfolding part_insert [OF insert(2)] by (auto intro: rel_mset_union)
qed

lemma multisets_equal_pairs:
  assumes "multisets_equal L t e a = Inr True"
  shows "rel_mset (alike t) (mset e) (mset a)"
proof -
  let ?part = "\<lambda>s M. filter_mset (\<lambda>r. signature r = s) M"
  from assms have sigs: "signature ` set e = signature ` set a"
    and all: "\<forall>(s, ve) \<in> set (group_rows e). group_equal (digits_for L t) t (group_of s e) (group_of s a) = Inr True"
    by (auto simp: multisets_equal_groups split: if_splits)
  have groups: "group_equal (digits_for L t) t (group_of s e) (group_of s a) = Inr True"
    if "s \<in> signature ` set e" for s
    using all that set_group_rows [of s "group_of s e" e] by blast
  have "rel_mset (alike t) (?part s (mset e)) (?part s (mset a))" if s: "s \<in> signature ` set e" for s
  proof -
    have len: "length (numeric_part r) = length (filter (\<lambda>c. c = None) (signature r))" for r
      by (induction r) (auto simp: numeric_part_def signature_def)
    have "rel_mset (alike t) (mset (group_of s e)) (mset (group_of s a))"
      by (rule group_equal_pairs [OF groups [OF s] group_of_not_Nil [OF s],
            where n = "length (filter (\<lambda>c. c = None) s)"]) (auto simp: group_of_def len)
    then have "rel_mset (\<lambda>x y. alike t (numeric_part x) (numeric_part y)) (?part s (mset e)) (?part s (mset a))"
      by (simp add: group_of_def multiset.rel_map mset_filter [symmetric] del: mset_filter)
    then show ?thesis
      by (rule multiset.rel_mono_strong) (auto intro: alike_from_parts)
  qed
  then have "rel_mset (alike t) (filter_mset (\<lambda>r. signature r \<in> signature ` set e) (mset e))
      (filter_mset (\<lambda>r. signature r \<in> signature ` set e) (mset a))"
    by (intro rel_mset_by_groups) simp_all
  moreover have "filter_mset (\<lambda>r. signature r \<in> signature ` set e) (mset e) = mset e"
    "filter_mset (\<lambda>r. signature r \<in> signature ` set e) (mset a) = mset a"
    unfolding sigs by (auto simp: filter_mset_eq_conv)
      (metis image_eqI sigs)
  ultimately show ?thesis by simp
qed

text \<open>
  C37. Two answers the comparison calls equal have the same number of columns, and their rows can be
  paired up, each row with one of the other answer, so that paired rows agree cell by cell: nothing is
  missing, added or repeated. Where order counts, the sort key agrees position by position, or the
  whole rows do when the key is not known.
\<close>

theorem equal_answers_pair_up:
  assumes "compare_frames L t expected actual ordered keys = Inr v" "vd_equal v"
  shows "length (fr_columns expected) = length (fr_columns actual)
    \<and> rel_mset (alike t) (mset (rows_of expected)) (mset (rows_of actual))
    \<and> (ordered \<longrightarrow> order_equal t keys (rows_of expected) (rows_of actual) = Inr True)"
proof -
  let ?re = "rows_of expected" and ?ra = "rows_of actual"
  have c: "length (fr_columns expected) = length (fr_columns actual)"
    by (rule ccontr) (use assms in \<open>simp add: compare_frames_def Let_def\<close>; auto)
  then have r: "length ?re = length ?ra"
    by (rule_tac ccontr) (use assms in \<open>simp add: compare_frames_def Let_def\<close>; auto)
  note F = assms(1) [unfolded compare_frames_def Let_def, simplified c r, simplified]
  have m: "multisets_equal L t ?re ?ra = Inr True"
  proof (cases "multisets_equal L t ?re ?ra")
    case (Inr b)
    with F assms(2) show ?thesis by (cases b) auto
  qed (use F in simp)
  have "order_equal t keys ?re ?ra = Inr True" if "ordered"
  proof (cases "?re = []")
    case True
    then show ?thesis by (simp add: order_equal_def split: option.splits list.splits)
  next
    case False
    show ?thesis
    proof (cases "order_equal t keys ?re ?ra")
      case (Inr b)
      with F m that False assms(2) show ?thesis by (cases b) auto
    qed (use F m that False in simp)
  qed
  with multisets_equal_pairs [OF m] c show ?thesis by blast
qed

section \<open>Exact comparison\<close>

text \<open>An integer a double holds exactly, and a float that is one.\<close>

fun exact_cell :: "cell \<Rightarrow> bool" where
  "exact_cell (Cell_int n) \<longleftrightarrow> \<bar>n\<bar> \<le> 2 ^ 53"
| "exact_cell (Cell_float (Finite q)) \<longleftrightarrow> double q = Finite q"
| "exact_cell _ \<longleftrightarrow> True"

text \<open>A cell up to the type of its number.\<close>

fun number_of :: "cell \<Rightarrow> cell" where
  "number_of (Cell_int n) = Cell_float (Finite (of_int n))"
| "number_of c = c"

definition cell_value :: "cell \<Rightarrow> flt" where
  "cell_value c = (case cell_float c of Inl e \<Rightarrow> Finite 0 | Inr x \<Rightarrow> x)"

lemma cell_float_exact:
  "is_numeric c \<Longrightarrow> exact_cell c \<Longrightarrow> cell_float c = Inr (cell_value c) \<and> number_of c = Cell_float (cell_value c)
     \<and> (\<forall>q. cell_value c = Finite q \<longrightarrow> double q = Finite q)"
  by (cases c rule: exact_cell.cases) (simp_all add: cell_value_def float_of_int_def double_small_int)

lemma floats_close_zero:
  assumes "\<forall>q. x = Finite q \<longrightarrow> double q = Finite q" "\<forall>q. y = Finite q \<longrightarrow> double q = Finite q"
  shows "floats_close 0 x y \<longleftrightarrow> x = y"
proof (cases x; cases y)
  fix a b assume xy: "x = Finite a" "y = Finite b"
  have "flt_abs (double (a - b)) \<le> Finite 0 \<longleftrightarrow> double (a - b) = Finite 0"
    by (cases "double (a - b)") auto
  with flt_minus_zero [of a b] assms xy show ?thesis
    by (auto simp: floats_close_def max_def)
qed (simp_all add: floats_close_def max_def)

lemma cells_equal_exact:
  "exact_cell a \<Longrightarrow> exact_cell b \<Longrightarrow> cells_equal 0 a b = Inr (number_of a = number_of b)"
proof (cases "\<exists>m n. a = Cell_int m \<and> b = Cell_int n")
  case False
  assume "exact_cell a" "exact_cell b"
  with False cell_float_exact [of a] cell_float_exact [of b] show ?thesis
    by (cases a; cases b) (simp_all add: cells_equal_def floats_close_zero)
qed (auto simp: cells_equal_def)

lemma rows_equal_exact:
  assumes "list_all exact_cell v" "list_all exact_cell w"
  shows "rows_equal 0 v w = Inr (map number_of v = map number_of w)"
proof (cases "length v = length w")
  case True
  have "all_lazy (\<lambda>(x, y). cells_equal 0 x y) (zip v w) = Inr (list_all (\<lambda>(x, y). number_of x = number_of y) (zip v w))"
  proof (rule all_lazy_pure)
    fix p assume "p \<in> set (zip v w)"
    then have "exact_cell (fst p)" "exact_cell (snd p)"
      using assms set_zip_leftD [of "fst p" "snd p" v w] set_zip_rightD [of "fst p" "snd p" v w]
      by (auto simp: list_all_iff)
    then show "(case p of (x, y) \<Rightarrow> cells_equal 0 x y) = Inr (case p of (x, y) \<Rightarrow> number_of x = number_of y)"
      by (simp add: split_def cells_equal_exact)
  qed
  moreover have "list_all (\<lambda>(x, y). number_of x = number_of y) (zip v w) \<longleftrightarrow> map number_of v = map number_of w"
    using True by (induction v w rule: list_induct2) auto
  ultimately show ?thesis using True by (simp add: rows_equal_def)
qed (use map_eq_imp_length_eq in \<open>auto simp: rows_equal_def\<close>)

text \<open>Sorting by computed keys is sorting by the function that computes them.\<close>

lemma insort_decorated:
  "insort_key fst (f v, v) (map (\<lambda>v. (f v, v)) xs) = map (\<lambda>v. (f v, v)) (insort_key f v xs)"
  by (induction xs) auto

lemma sort_decorated: "map snd (sort_key fst (zip (map f vs) vs)) = sort_key f vs"
proof -
  have "sort_key fst (map (\<lambda>v. (f v, v)) vs) = map (\<lambda>v. (f v, v)) (sort_key f vs)"
    by (induction vs) (simp_all add: insort_decorated)
  moreover have "zip (map f vs) vs = map (\<lambda>v. (f v, v)) vs" by (induction vs) auto
  ultimately show ?thesis by (simp add: comp_def)
qed

lemma sort_rows_pure:
  "(\<And>v. v \<in> set vs \<Longrightarrow> row_key d v = Inr (f v)) \<Longrightarrow> sort_rows d vs = Inr (sort_key f vs)"
  by (simp add: sort_rows_def map_or_error_pure [where g = f] sort_decorated)


lemma map_sort_key: "map f (sort_key f xs) = sort (map f xs)"
  by (rule properties_for_sort [symmetric]) simp_all

lemma sort_eq_iff: "sort xs = sort ys \<longleftrightarrow> mset xs = mset ys"
  by (metis mset_sort properties_for_sort sorted_sort)

lemma row_key_exact:
  "list_all exact_cell v \<Longrightarrow> list_all is_numeric v \<Longrightarrow> row_key None v = Inr (map cell_value v)"
  unfolding row_key_def by (rule map_or_error_pure) (simp add: list_all_iff cell_float_exact)

lemma number_of_value:
  "list_all exact_cell v \<Longrightarrow> list_all is_numeric v \<Longrightarrow> map number_of v = map Cell_float (map cell_value v)"
  by (simp add: list_all_iff cell_float_exact)

lemma group_equal_exact:
  assumes "\<forall>v \<in> set ve \<union> set va. list_all exact_cell v \<and> list_all is_numeric v \<and> length v = n" "ve \<noteq> []"
  shows "group_equal None 0 ve va = Inr (mset (map (map number_of) ve) = mset (map (map number_of) va))"
proof (cases "length ve = length va")
  case False
  then have "mset (map (map number_of) ve) \<noteq> mset (map (map number_of) va)"
    by (metis length_map size_mset)
  with False show ?thesis by (simp add: group_equal_def)
next
  case len: True
  show ?thesis
  proof (cases "hd ve = []")
    case True
    with assms have "n = 0" by (cases ve) auto
    with assms have "replicate (length ve) [] = ve" "replicate (length va) [] = va"
      by (auto intro!: replicate_length_same)
    with len have "ve = va" by metis
    with len True show ?thesis by (simp add: group_equal_def)
  next
    case False
    let ?se = "sort_key (map cell_value) ve" and ?sa = "sort_key (map cell_value) va"
    have s: "sort_rows None ve = Inr ?se" "sort_rows None va = Inr ?sa"
      using assms(1) by (auto intro!: sort_rows_pure row_key_exact)
    have mem: "set ?se = set ve" "set ?sa = set va" by simp_all
    have "all_lazy (\<lambda>(x, y). rows_equal 0 x y) (zip ?se ?sa)
        = Inr (list_all (\<lambda>(x, y). map cell_value x = map cell_value y) (zip ?se ?sa))"
    proof (rule all_lazy_pure)
      fix p assume "p \<in> set (zip ?se ?sa)"
      then have "fst p \<in> set ve" "snd p \<in> set va"
        using set_zip_leftD [of "fst p" "snd p" ?se ?sa] set_zip_rightD [of "fst p" "snd p" ?se ?sa] by auto
      with assms(1) rows_equal_exact [of "fst p" "snd p"] number_of_value [of "fst p"] number_of_value [of "snd p"]
      show "(case p of (x, y) \<Rightarrow> rows_equal 0 x y) = Inr (case p of (x, y) \<Rightarrow> map cell_value x = map cell_value y)"
        by (simp add: split_def inj_map_eq_map inj_def del: map_map)
    qed
    also have "list_all (\<lambda>(x, y). map cell_value x = map cell_value y) (zip ?se ?sa)
        \<longleftrightarrow> map (map cell_value) ?se = map (map cell_value) ?sa"
    proof -
      have "list_all (\<lambda>(x, y). f x = f y) (zip xs ys) \<longleftrightarrow> map f xs = map f ys" if "length xs = length ys"
        for f :: "cell list \<Rightarrow> flt list" and xs ys
        using that by (induction xs ys rule: list_induct2) auto
      then show ?thesis using len by simp
    qed
    also have "\<dots> \<longleftrightarrow> mset (map (map cell_value) ve) = mset (map (map cell_value) va)"
      by (simp only: map_sort_key sort_eq_iff)
    also have "\<dots> \<longleftrightarrow> image_mset (map Cell_float) (mset (map (map cell_value) ve))
        = image_mset (map Cell_float) (mset (map (map cell_value) va))"
      by (rule inj_eq [symmetric], rule multiset.inj_map) (simp add: inj_def inj_map_eq_map)
    also have "\<dots> \<longleftrightarrow> mset (map (map number_of) ve) = mset (map (map number_of) va)"
    proof -
      have "map (map number_of) vs = map (map Cell_float) (map (map cell_value) vs)"
        if "\<forall>v \<in> set vs. list_all exact_cell v \<and> list_all is_numeric v" for vs
        using that by (induction vs) (simp_all add: number_of_value del: map_map)
      then show ?thesis using assms(1) by (simp del: map_map flip: mset_map)
    qed
    finally show ?thesis using len False s by (simp add: group_equal_def)
  qed
qed

text \<open>A row is its exact part and its numbers.\<close>

lemma signature_numbers [simp]: "signature (map number_of r) = signature r"
proof -
  have "is_numeric (number_of c) = is_numeric c" "\<not> is_numeric c \<Longrightarrow> number_of c = c" for c
    by (cases c; simp)+
  then show ?thesis by (simp add: signature_def)
qed

lemma numeric_numbers: "numeric_part (map number_of r) = map number_of (numeric_part r)"
proof -
  have "is_numeric (number_of c) = is_numeric c" for c by (cases c) simp_all
  then show ?thesis by (induction r) (simp_all add: numeric_part_def)
qed

lemma row_from_parts: "signature a = signature b \<Longrightarrow> numeric_part a = numeric_part b \<Longrightarrow> a = b"
proof (induction a arbitrary: b)
  case (Cons x a)
  then obtain y b' where "b = y # b'" by (cases b) (auto simp: signature_def)
  with Cons show ?case by (auto simp: signature_def numeric_part_def split: if_splits)
qed (simp add: signature_def)

lemma length_numeric_part: "length (numeric_part r) = length (filter (\<lambda>c. c = None) (signature r))"
  by (induction r) (auto simp: numeric_part_def signature_def)

lemma numeric_part_all [simp]: "list_all is_numeric (numeric_part r)" "list_all P r \<Longrightarrow> list_all P (numeric_part r)"
  by (simp_all add: numeric_part_def list_all_iff)

lemma group_of_numbers:
  "mset (map (map number_of) (group_of s rows))
     = image_mset numeric_part (filter_mset (\<lambda>r. signature r = s) (image_mset (map number_of) (mset rows)))"
  by (induction rows) (simp_all add: group_of_def numeric_numbers)

lemma kept_whole: "(\<And>x. x \<in># M \<Longrightarrow> P x) \<Longrightarrow> filter_mset P M = M"
  by (simp add: filter_mset_eq_conv)

lemma multisets_equal_exact:
  assumes "\<forall>r \<in> set e \<union> set a. list_all exact_cell r"
  shows "multisets_equal L 0 e a = Inr (image_mset (map number_of) (mset e) = image_mset (map number_of) (mset a))"
proof -
  let ?n = "\<lambda>rows. image_mset (map number_of) (mset rows)"
  let ?part = "\<lambda>s M. filter_mset (\<lambda>r. signature r = s) M"
  have group: "group_equal None 0 (group_of s e) (group_of s a)
      = Inr (image_mset numeric_part (?part s (?n e)) = image_mset numeric_part (?part s (?n a)))"
    if "s \<in> signature ` set e" for s
    unfolding group_of_numbers [symmetric]
    by (rule group_equal_exact [where n = "length (filter (\<lambda>c. c = None) s)", OF _ group_of_not_Nil [OF that]])
      (use assms in \<open>auto simp: group_of_def length_numeric_part numeric_part_all\<close>)
  have "all_lazy (\<lambda>(s, ve). group_equal (digits_for L 0) 0 (group_of s e) (group_of s a)) (group_rows e)
      = Inr (list_all (\<lambda>(s, ve). image_mset numeric_part (?part s (?n e)) = image_mset numeric_part (?part s (?n a)))
              (group_rows e))"
    by (rule all_lazy_pure) (auto simp: set_group_rows digits_for_def group)
  then have eq: "multisets_equal L 0 e a = Inr (signature ` set e = signature ` set a
      \<and> (\<forall>s \<in> signature ` set e. image_mset numeric_part (?part s (?n e)) = image_mset numeric_part (?part s (?n a))))"
    unfolding multisets_equal_groups list_all_group_rows by simp
  have sigs: "signature ` set rows = signature ` set_mset (?n rows)" for rows by (simp add: image_image)
  have sig_in: "signature r \<in> signature ` set rows" if "r \<in># ?n rows" for r rows
    using that by auto
  have "?n e = ?n a" if "signature ` set e = signature ` set a"
    "\<forall>s \<in> signature ` set e. image_mset numeric_part (?part s (?n e)) = image_mset numeric_part (?part s (?n a))"
  proof -
    note groups = that(2)
    have "rel_mset (=) (?part s (?n e)) (?part s (?n a))" if "s \<in> signature ` set e" for s
    proof -
      have "rel_mset (=) (image_mset numeric_part (?part s (?n e))) (image_mset numeric_part (?part s (?n a)))"
        unfolding multiset.rel_eq using groups that by blast
      then show ?thesis
        unfolding multiset.rel_map by (rule multiset.rel_mono_strong) (auto intro: row_from_parts)
    qed
    then have "rel_mset (=) (filter_mset (\<lambda>r. signature r \<in> signature ` set e) (?n e))
        (filter_mset (\<lambda>r. signature r \<in> signature ` set e) (?n a))"
      by (intro rel_mset_by_groups) simp_all
    moreover have "filter_mset (\<lambda>r. signature r \<in> signature ` set e) (?n e) = ?n e"
      "filter_mset (\<lambda>r. signature r \<in> signature ` set e) (?n a) = ?n a"
      by (rule kept_whole, erule sig_in, rule kept_whole, subst that(1), erule sig_in)
    ultimately show ?thesis by (simp add: multiset.rel_eq)
  qed
  moreover have "signature ` set e = signature ` set a" if "?n e = ?n a"
    using that sigs [of e] sigs [of a] by simp
  ultimately have "signature ` set e = signature ` set a
      \<and> (\<forall>s \<in> signature ` set e. image_mset numeric_part (?part s (?n e)) = image_mset numeric_part (?part s (?n a)))
    \<longleftrightarrow> ?n e = ?n a"
    by (metis (no_types, lifting))
  then show ?thesis unfolding eq by (rule arg_cong)
qed

text \<open>
  C38. With tolerance zero, the order ignored and numbers that doubles hold exactly, the verdict is the
  equality of the two multisets of rows, numbers compared by value.
\<close>

theorem exact_comparison_is_multiset_equality:
  assumes "length (fr_columns expected) = length (fr_columns actual)"
    and "\<forall>r \<in> set (rows_of expected) \<union> set (rows_of actual). list_all exact_cell r"
  shows "map_sum id vd_equal (compare_frames L 0 expected actual False keys)
    = Inr (image_mset (map number_of) (mset (rows_of expected)) = image_mset (map number_of) (mset (rows_of actual)))"
proof (cases "length (rows_of expected) = length (rows_of actual)")
  case True
  with assms(1) multisets_equal_exact [OF assms(2), of L] show ?thesis
    by (cases "image_mset (map number_of) (mset (rows_of expected)) = image_mset (map number_of) (mset (rows_of actual))")
      (simp_all add: compare_frames_def Let_def)
next
  case False
  then have "image_mset (map number_of) (mset (rows_of expected)) \<noteq> image_mset (map number_of) (mset (rows_of actual))"
    by (metis size_image_mset size_mset)
  with False assms(1) show ?thesis by (simp add: compare_frames_def Let_def)
qed

section \<open>The same rows in another order\<close>

definition tie_free :: "nat option \<Rightarrow> cell list list \<Rightarrow> bool" where
  "tie_free d rows \<longleftrightarrow> (\<forall>r \<in> set rows. \<exists>k. row_key d (numeric_part r) = Inr k)
     \<and> (\<forall>r \<in> set rows. \<forall>s \<in> set rows. signature r = signature s
          \<and> row_key d (numeric_part r) = row_key d (numeric_part s) \<longrightarrow> numeric_part r = numeric_part s)"

lemma row_key_refl: "row_key d v = Inr k \<Longrightarrow> alike t v v"
proof (induction v arbitrary: k)
  case (Cons c v)
  then obtain x where "cell_float c = Inr x" "\<exists>k. row_key d v = Inr k"
    by (cases "cell_float c"; cases "row_key d v") (auto simp: row_key_def)
  moreover have "cells_equal t c c = Inr True" if "cell_float c = Inr x"
    using that by (cases c) (simp_all add: cells_equal_def floats_close_def)
  ultimately show ?case using Cons.IH by (auto simp: rows_equal_True)
qed (simp add: rows_equal_True)

lemma group_equal_reordered:
  assumes "mset va = mset ve" "\<forall>v \<in> set ve. \<exists>k. row_key d v = Inr k" "inj_on (row_key d) (set ve)"
  shows "group_equal d t ve va = Inr True"
proof -
  define f where "f v = (case row_key d v of Inl e \<Rightarrow> [] | Inr k \<Rightarrow> k)" for v
  have f: "row_key d v = Inr (f v)" if "v \<in> set ve" for v
    using assms(2) that by (force simp: f_def)
  have set: "set va = set ve" using assms(1) by (metis set_mset_mset)
  have "inj_on f (set ve)"
    using assms(3) f by (simp add: inj_on_def)
  then have "sort_key f ve = sort_key f va"
    by (intro sort_key_inj_key_eq) (simp_all add: assms(1))
  moreover have "sort_rows d ve = Inr (sort_key f ve)" "sort_rows d va = Inr (sort_key f va)"
    using f set by (auto intro: sort_rows_pure)
  moreover have "\<forall>p \<in> set (zip (sort_key f va) (sort_key f va)). alike t (fst p) (snd p)"
    using row_key_refl [OF f] set by (auto simp: zip_same)
  moreover have "length va = length ve" using assms(1) by (metis size_mset)
  ultimately show ?thesis by (auto simp: group_equal_def split_def)
qed

text \<open>
  An answer with the same rows in another order is recognised, whatever the tolerance, when rows with
  different numbers have different sort keys. Two rows whose rounded numbers tie can be mispaired:
  see the examples below.
\<close>

theorem reordered_answer_recognised:
  assumes "length (fr_columns expected) = length (fr_columns actual)"
    and "mset (rows_of actual) = mset (rows_of expected)"
    and "tie_free (digits_for L t) (rows_of expected)"
  shows "compare_frames L t expected actual False keys
    = Inr \<lparr>vd_equal = True, vd_reason = u ''match'', vd_ordered = False\<rparr>"
proof -
  let ?e = "rows_of expected" and ?a = "rows_of actual"
  have set: "set ?a = set ?e" using assms(2) by (metis set_mset_mset)
  have len: "length ?a = length ?e" using assms(2) by (metis size_mset)
  have "group_equal (digits_for L t) t (group_of s ?e) (group_of s ?a) = Inr True" for s
  proof (rule group_equal_reordered)
    show "mset (group_of s ?a) = mset (group_of s ?e)"
      using assms(2) by (simp add: group_of_def)
    show "\<forall>v \<in> set (group_of s ?e). \<exists>k. row_key (digits_for L t) v = Inr k"
      using assms(3) by (auto simp: tie_free_def group_of_def)
    show "inj_on (row_key (digits_for L t)) (set (group_of s ?e))"
      using assms(3) by (auto simp: tie_free_def group_of_def inj_on_def)
  qed
  then have "multisets_equal L t ?e ?a = Inr True"
    by (auto simp: multisets_equal_groups set)
  with assms(1) len show ?thesis by (simp add: compare_frames_def Let_def)
qed

section \<open>Where the verdict is wrong\<close>

text \<open>
  Integers above \<open>2 ^ 53\<close> can share a sort key, and integers are compared exactly: the same two
  identifiers in another order are reported as different values, whatever the tolerance.
\<close>

lemma double_large_id: "double 9007199254740993 = Finite 9007199254740992"
proof -
  have "binade 9007199254740993 = 53"
    by (simp add: binade_def floorlog_eq_if compute_floorlog Let_def)
  then have "ulp 9007199254740993 = 2" by (simp add: ulp_def)
  moreover have "\<lfloor>9007199254740993 / 2 :: rat\<rfloor> = 4503599627370496" by (rule floor_unique) simp_all
  ultimately show ?thesis by (simp add: double_def Let_def round_half_even_def)
qed

definition id_frame :: "int list \<Rightarrow> frame" where
  "id_frame ids = \<lparr>fr_columns = [u ''id''], fr_rows = map (\<lambda>n. [V_int n]) ids\<rparr>"

theorem reordered_large_ids_differ:
  "compare_frames L t (id_frame [9007199254740992, 9007199254740993])
     (id_frame [9007199254740993, 9007199254740992]) False None
   = Inr \<lparr>vd_equal = False, vd_reason = u ''result values differ'', vd_ordered = False\<rparr>"
proof -
  have "float_of_int 9007199254740993 = Some (Finite 9007199254740992)"
    using double_large_id by (simp add: float_of_int_def)
  moreover have "float_of_int 9007199254740992 = Some (Finite 9007199254740992)"
    using double_small_int [of 9007199254740992] by (simp add: float_of_int_def)
  ultimately show ?thesis
    by (cases "digits_for L t")
      (simp_all add: compare_frames_def id_frame_def rows_of_def multisets_equal_def group_rows_def put_in_group_def
        signature_def numeric_part_def group_equal_def sort_rows_def row_key_def rows_equal_def cells_equal_def Let_def)
qed

text \<open>An infinite cell is as good as any number, the opposite infinity included.\<close>

theorem infinity_equals_any_number:
  "0 < t \<Longrightarrow> cells_equal t (Cell_float Plus_inf) (Cell_float x) = Inr True"
  by (cases x) (simp_all add: cells_equal_def floats_close_def max_def)

text \<open>
  Rows are paired in the order of their rounded numbers. With a tolerance of one a quarter rounds to
  0 and three quarters to 1: two rows that differ from their counterparts by a half are paired
  crosswise and reported as different. The same happens at the rounding boundary of every tolerance.
\<close>

definition noisy_frame :: "rat \<Rightarrow> rat \<Rightarrow> frame" where
  "noisy_frame x y = \<lparr>fr_columns = [u ''a'', u ''b''],
     fr_rows = [[V_float (Some (Finite x)), V_int 1], [V_float (Some (Finite y)), V_int 0]]\<rparr>"

lemma double_half: "double (1 / 2) = Finite (1 / 2)" "double (- (1 / 2)) = Finite (- (1 / 2))"
proof -
  have "ulp (1 / 2) = 2 powi (- 53)" "ulp (- (1 / 2)) = 2 powi (- 53)"
    using ulp_eq [of "1 / 2" "- 1"] ulp_eq [of "- (1 / 2)" "- 1"] by (simp_all add: power_int_def power_divide)
  then show "double (1 / 2) = Finite (1 / 2)" "double (- (1 / 2)) = Finite (- (1 / 2))"
    by (intro double_exact [where k = "2 ^ 52"] double_exact [where k = "- (2 ^ 52)"];
        simp add: power_int_def power_divide)+
qed

theorem noisy_rows_are_mispaired:
  assumes "digits_for L 1 = Some 0"
  shows "rel_mset (alike 1) (mset (rows_of (noisy_frame (1 / 4) (3 / 4)))) (mset (rows_of (noisy_frame (3 / 4) (1 / 4))))
    \<and> multisets_equal L 1 (rows_of (noisy_frame (1 / 4) (3 / 4))) (rows_of (noisy_frame (3 / 4) (1 / 4))) = Inr False"
proof
  have small: "double 1 = Finite 1" using double_small_int [of 1] by simp
  have near: "cells_equal 1 (Cell_float (Finite (1 / 4))) (Cell_float (Finite (3 / 4))) = Inr True"
    "cells_equal 1 (Cell_float (Finite (3 / 4))) (Cell_float (Finite (1 / 4))) = Inr True"
    by (simp_all add: cells_equal_def floats_close_def max_def double_half small)
  show "rel_mset (alike 1) (mset (rows_of (noisy_frame (1 / 4) (3 / 4)))) (mset (rows_of (noisy_frame (3 / 4) (1 / 4))))"
    unfolding rel_mset_def
    by (intro exI [of _ "rows_of (noisy_frame (1 / 4) (3 / 4))"] exI [of _ "rows_of (noisy_frame (3 / 4) (1 / 4))"])
      (simp add: noisy_frame_def rows_of_def rows_equal_True near, simp add: cells_equal_def)
  have f: "float_of_int 1 = Some (Finite 1)" "float_of_int 0 = Some (Finite 0)"
    using small by (simp_all add: float_of_int_def)
  have r: "round_half_even (1 / 4) = 0" "round_half_even (3 / 4) = 1" "round_half_even 1 = 1" "round_half_even 0 = 0"
  proof -
    have "\<lfloor>1 / 4 :: rat\<rfloor> = 0" "\<lfloor>3 / 4 :: rat\<rfloor> = 0" by (rule floor_unique; simp)+
    then show "round_half_even (1 / 4) = 0" "round_half_even (3 / 4) = 1" "round_half_even 1 = 1" "round_half_even 0 = 0"
      using round_half_even_int [of 1] round_half_even_int [of 0] by (simp_all add: round_half_even_def Let_def)
  qed
  show "multisets_equal L 1 (rows_of (noisy_frame (1 / 4) (3 / 4))) (rows_of (noisy_frame (3 / 4) (1 / 4))) = Inr False"
    by (simp add: assms noisy_frame_def rows_of_def multisets_equal_def group_rows_def put_in_group_def
        signature_def numeric_part_def group_equal_def sort_rows_def row_key_def rows_equal_def f r small Let_def)
      (simp add: cells_equal_def)
qed

section \<open>Containment\<close>

lemma remove_match_used:
  "remove_match t v cs = Inr (Some rest) \<Longrightarrow> \<exists>c. alike t v c \<and> mset cs = add_mset c (mset rest)"
proof (induction cs arbitrary: rest)
  case (Cons c cs)
  show ?case
  proof (cases "alike t v c")
    case True
    with Cons.prems show ?thesis by auto
  next
    case False
    with Cons.prems obtain r where "remove_match t v cs = Inr (Some r)" "rest = c # r"
      by (cases "rows_equal t v c"; cases "remove_match t v cs") (auto split: if_splits bool.splits)
    with Cons.IH show ?thesis by fastforce
  qed
qed simp

lemma match_all_used:
  "match_all t vs rem = Inr True \<Longrightarrow> \<exists>used. mset used \<subseteq># mset rem \<and> list_all2 (alike t) vs used"
proof (induction vs arbitrary: rem)
  case (Cons v vs)
  then obtain rest where r: "remove_match t v rem = Inr (Some rest)" "match_all t vs rest = Inr True"
    by (auto split: sum.splits option.splits)
  obtain c where c: "alike t v c" "mset rem = add_mset c (mset rest)" using remove_match_used [OF r(1)] by blast
  obtain used where "mset used \<subseteq># mset rest" "list_all2 (alike t) vs used" using Cons.IH [OF r(2)] by blast
  with c have "mset (c # used) \<subseteq># mset rem \<and> list_all2 (alike t) (v # vs) (c # used)" by simp
  then show ?case by blast
qed auto

lemma group_contained_pairs:
  assumes "group_contained d t (Some vb) small = Inr True" "small \<noteq> []" "\<forall>v \<in> set small \<union> set vb. length v = n"
  shows "\<exists>M. M \<subseteq># mset vb \<and> rel_mset (alike t) (mset small) M"
proof (cases "hd small = []")
  case True
  with assms(2,3) have "n = 0" by (cases small) auto
  with assms(3) have small: "replicate (length small) [] = small" and "replicate (length vb) [] = vb"
    by (auto intro!: replicate_length_same)
  moreover have "length small \<le> length vb"
    using assms(1) by (auto simp: group_contained_def not_less split: if_splits)
  ultimately have "take (length small) vb = small"
    by (metis min.absorb1 take_replicate)
  then have "mset small \<subseteq># mset vb"
    by (metis append_take_drop_id mset_append mset_subset_eq_add_left)
  moreover have "alike t v v" if "v \<in> set small" for v
  proof -
    have "v = []" using that \<open>n = 0\<close> assms(3) by auto
    then show ?thesis by (simp add: rows_equal_True)
  qed
  then have "rel_mset (alike t) (mset small) (mset small)" by (intro rel_mset_refl_on) simp
  ultimately show ?thesis by blast
next
  case False
  with assms(1) obtain sb ss where s: "sort_rows d vb = Inr sb" "sort_rows d small = Inr ss" "match_all t ss sb = Inr True"
    by (auto simp: group_contained_def split: if_splits sum.splits)
  then obtain used where "mset used \<subseteq># mset sb" "list_all2 (alike t) ss used" using match_all_used by blast
  moreover have "mset sb = mset vb" "mset ss = mset small" using s by (simp_all add: sort_rows_mset)
  ultimately have "mset used \<subseteq># mset vb" "rel_mset (alike t) (mset small) (mset used)"
    unfolding rel_mset_def by (simp, metis)
  then show ?thesis by blast
qed

lemma rel_submset_by_groups:
  assumes "finite S"
    and "\<And>s. s \<in> S \<Longrightarrow> \<exists>M. M \<subseteq># filter_mset (\<lambda>r. f r = s) B \<and> rel_mset R (filter_mset (\<lambda>r. f r = s) A) M"
  shows "\<exists>M. M \<subseteq># filter_mset (\<lambda>r. f r \<in> S) B \<and> rel_mset R (filter_mset (\<lambda>r. f r \<in> S) A) M"
  using assms
proof (induction S rule: finite_induct)
  case empty
  show ?case by (auto simp: rel_mset_Zero)
next
  case (insert s S)
  then obtain M N where "M \<subseteq># filter_mset (\<lambda>r. f r = s) B" "rel_mset R (filter_mset (\<lambda>r. f r = s) A) M"
    "N \<subseteq># filter_mset (\<lambda>r. f r \<in> S) B" "rel_mset R (filter_mset (\<lambda>r. f r \<in> S) A) N"
    by (meson insertI1 insertI2)
  then have "M + N \<subseteq># filter_mset (\<lambda>r. f r \<in> insert s S) B
      \<and> rel_mset R (filter_mset (\<lambda>r. f r \<in> insert s S) A) (M + N)"
    unfolding part_insert [OF insert(2)] by (simp add: subset_mset.add_mono rel_mset_union)
  then show ?case by blast
qed

text \<open>
  Every row of an answer found to be contained in another has a row of its own in the larger one that
  it agrees with.
\<close>

theorem contained_rows_match:
  assumes "multiset_contains L t larger smaller = Inr True"
  shows "\<exists>M. M \<subseteq># mset (rows_of larger) \<and> rel_mset (alike t) (mset (rows_of smaller)) M"
proof -
  let ?big = "rows_of larger" and ?small = "rows_of smaller"
  let ?part = "\<lambda>s M. filter_mset (\<lambda>r. signature r = s) M"
  from assms have all: "\<forall>p \<in> set (group_rows ?small).
      group_contained (digits_for L t) t (map_of (group_rows ?big) (fst p)) (snd p) = Inr True"
    by (auto simp: multiset_contains_def Let_def split_def split: if_splits)
  have "\<exists>M. M \<subseteq># ?part s (mset ?big) \<and> rel_mset (alike t) (?part s (mset ?small)) M" if s: "s \<in> signature ` set ?small" for s
  proof -
    have g: "group_contained (digits_for L t) t (map_of (group_rows ?big) s) (group_of s ?small) = Inr True"
      using all s set_group_rows [of s "group_of s ?small" ?small] by force
    then have "map_of (group_rows ?big) s = Some (group_of s ?big)"
      by (auto simp: map_of_group_rows group_contained_def split: if_splits)
    moreover have "\<forall>v \<in> set (group_of s ?small) \<union> set (group_of s ?big). length v = length (filter (\<lambda>c. c = None) s)"
      by (auto simp: group_of_def length_numeric_part)
    ultimately obtain M where M: "M \<subseteq># mset (group_of s ?big)" "rel_mset (alike t) (mset (group_of s ?small)) M"
      using group_contained_pairs [OF _ group_of_not_Nil [OF s]] g by metis
    then obtain K where "image_mset numeric_part (?part s (mset ?big)) = M + K"
      by (auto simp: group_of_def subset_mset.le_iff_add)
    then obtain N N' where N: "?part s (mset ?big) = N + N'" "image_mset numeric_part N = M"
      using image_mset_eq_plusD by blast
    have sig: "signature r = s" if "r \<in># N" for r
      using N(1) that by (metis (mono_tags) filter_mset_eq_conv union_iff mem_Collect_eq set_mset_filter)
    have "rel_mset (\<lambda>x y. alike t (numeric_part x) (numeric_part y)) (?part s (mset ?small)) N"
      using M(2) unfolding N(2) [symmetric] by (simp add: group_of_def multiset.rel_map)
    then have "rel_mset (alike t) (?part s (mset ?small)) N"
      by (rule multiset.rel_mono_strong) (auto intro: alike_from_parts simp: sig)
    moreover have "N \<subseteq># ?part s (mset ?big)" unfolding N(1) by simp
    ultimately show ?thesis by blast
  qed
  then obtain M where "M \<subseteq># filter_mset (\<lambda>r. signature r \<in> signature ` set ?small) (mset ?big)"
    "rel_mset (alike t) (filter_mset (\<lambda>r. signature r \<in> signature ` set ?small) (mset ?small)) M"
    using rel_submset_by_groups [where f = signature and S = "signature ` set ?small"] by blast
  moreover have "filter_mset (\<lambda>r. signature r \<in> signature ` set ?small) (mset ?small) = mset ?small"
    by (rule kept_whole) simp
  ultimately show ?thesis by (metis multiset_filter_subset subset_mset.order_trans)
qed

section \<open>The order a reference decides\<close>

lemma first_index_less: "first_index p xs = Some k \<Longrightarrow> k < length xs"
  by (induction xs arbitrary: k) (auto split: if_splits)

lemma order_positions_less:
  "order_positions U ri names es = Some ks \<Longrightarrow> \<forall>k \<in> set ks. k < length names"
proof (induction es arbitrary: ks)
  case (Cons e es)
  then obtain k ks' where k: "order_position U ri names e = Some k" "order_positions U ri names es = Some ks'" "ks = k # ks'"
    by (auto split: option.splits)
  have "k < length names"
    using k(1) by (auto simp: order_position_def Let_def dest: first_index_less split: option.splits if_splits)
  with k Cons.IH show ?case by auto
qed auto

lemma reference_keys_in_range:
  assumes "parse sql = Some tree" "reference_ordering U ri parse sql = (ordered, Some ks)" "k \<in> set ks"
  shows "k < length (arg_list Expressions tree)"
  using assms order_positions_less [of U ri _ _ ks]
  by (fastforce simp: reference_ordering_def projection_names_def split: if_splits option.splits)

text \<open>
  The order counts only for a SELECT with ORDER BY and a limit, an offset or a fetch; otherwise two
  answers with the same rows are equal in any order.
\<close>

theorem order_counts_only_with_limit:
  "fst (reference_ordering U ri parse sql) \<longleftrightarrow>
     (case parse sql of
        None \<Rightarrow> False
      | Some tree \<Rightarrow> cls tree = Select \<and> arg Order tree \<noteq> None
          \<and> (arg Limit tree \<noteq> None \<or> arg Offset tree \<noteq> None \<or> arg Fetch tree \<noteq> None))"
  by (auto simp: reference_ordering_def split: option.splits)

text \<open>No comparison against a reference looks for a column that is not there.\<close>

theorem reference_keys_never_miss:
  assumes "\<And>tree. parse sql = Some tree \<Longrightarrow> length (arg_list Expressions tree) = length (fr_columns reference)"
    and "\<forall>f \<in> {reference, actual}. \<forall>r \<in> set (fr_rows f). length r = length (fr_columns f)"
    and "length (fr_columns reference) = length (fr_columns actual)"
    and "reference_ordering U ri parse sql = (ordered, Some ks)"
    and "p \<in> set (zip (rows_of reference) (rows_of actual))"
  shows "\<forall>k \<in> set ks. k < length (fst p) \<and> k < length (snd p)"
proof -
  have "fst p \<in> set (rows_of reference)" "snd p \<in> set (rows_of actual)"
    using assms(5) set_zip_leftD [of "fst p" "snd p"] set_zip_rightD [of "fst p" "snd p"] by auto
  then have "length (fst p) = length (fr_columns reference)" "length (snd p) = length (fr_columns reference)"
    using assms(2,3) by (auto simp: rows_of_def)
  moreover have "k < length (fr_columns reference)" if "k \<in> set ks" for k
  proof (cases "parse sql")
    case None
    with assms(4) show ?thesis by (simp add: reference_ordering_def)
  next
    case (Some tree)
    with reference_keys_in_range [OF Some assms(4) that] assms(1) show ?thesis by simp
  qed
  ultimately show ?thesis by simp
qed

section \<open>Two answers to one question\<close>

definition answer_one :: frame where
  "answer_one = \<lparr>fr_columns = [u ''city'', u ''n''],
     fr_rows = [[V_text (u ''Oslo''), V_int 2], [V_null, V_decimal (Finite 3)]]\<rparr>"

definition answer_two :: frame where
  "answer_two = \<lparr>fr_columns = [u ''c'', u ''total''],
     fr_rows = [[V_null, V_int 3], [V_text (u ''Oslo''), V_float (Some (Finite 2))]]\<rparr>"

lemma double_small_numerals: "double 2 = Finite 2" "double 3 = Finite 3"
  using double_small_int [of 2] double_small_int [of 3] by simp_all

lemma answer_rows:
  "rows_of answer_one = [[Cell_string (u ''Oslo''), Cell_int 2], [Cell_null, Cell_float (Finite 3)]]"
  "rows_of answer_two = [[Cell_null, Cell_int 3], [Cell_string (u ''Oslo''), Cell_float (Finite 2)]]"
  "length (fr_columns answer_one) = 2" "length (fr_columns answer_two) = 2"
  by (simp_all add: rows_of_def answer_one_def answer_two_def double_small_numerals)

lemma answers_equal:
  "compare_frames L t answer_one answer_two False None
     = Inr \<lparr>vd_equal = True, vd_reason = u ''match'', vd_ordered = False\<rparr>"
proof -
  have "float_of_int 2 = Some (Finite 2)" "float_of_int 3 = Some (Finite 3)"
    by (simp_all add: float_of_int_def double_small_numerals)
  then show ?thesis
    by (simp add: compare_frames_def answer_rows multisets_equal_def group_rows_def
        put_in_group_def signature_def numeric_part_def group_equal_def sort_rows_def row_key_def rows_equal_def
        cells_equal_def floats_close_def Let_def insert_commute)
qed

theorem equal_answers_pair_up_witness:
  "rel_mset (alike 0) (mset (rows_of answer_one)) (mset (rows_of answer_two))"
  using equal_answers_pair_up [OF answers_equal [of id 0]] by simp

theorem exact_comparison_is_multiset_equality_witness:
  "image_mset (map number_of) (mset (rows_of answer_one)) = image_mset (map number_of) (mset (rows_of answer_two))"
  using exact_comparison_is_multiset_equality [of answer_one answer_two id None]
  by (simp add: answers_equal answer_rows double_small_numerals)

theorem reordered_answer_recognised_witness:
  "compare_frames id 0 (id_frame [7, 9]) (id_frame [9, 7]) False None
     = Inr \<lparr>vd_equal = True, vd_reason = u ''match'', vd_ordered = False\<rparr>"
proof (rule reordered_answer_recognised)
  have "double 7 = Finite 7" "double 9 = Finite 9"
    using double_small_int [of 7] double_small_int [of 9] by simp_all
  then show "tie_free (digits_for id 0) (rows_of (id_frame [7, 9]))"
    by (simp add: tie_free_def rows_of_def id_frame_def digits_for_def row_key_def numeric_part_def float_of_int_def)
qed (simp_all add: id_frame_def rows_of_def)

end
