(* ===== verification/Table_Retrieval.thy ===== *)
theory Table_Retrieval
  imports Join_Paths Source_Selection Schema_Config Untrusted_Text
begin

text \<open>
  Which tables a question is about (\<open>retrieval/\<close>): configured aliases and patterns
  (\<open>table_evidence.py\<close>, \<open>table_keys.py\<close>), the ranking's extras (\<open>entity_retriever.py\<close>,
  \<open>fact_retriever.py\<close>, the end of \<open>rank_tables\<close> in \<open>schema_data/retriever.py\<close>), the pruning of
  tables nothing supports (\<open>pruning.py\<close>), and the tables that join the rest
  (\<open>context_retriever.py\<close>). The TF-IDF and column scores are functions of the environment, and so
  are the tables \<open>always_include\<close> forces; the product of a ratio and a score is rounded by
  \<open>rt_round\<close>.
\<close>

section \<open>Words\<close>

lemma length_dropWhile_words:
  "dropWhile (\<lambda>c. \<not> W c) s = c # t \<Longrightarrow> length (dropWhile W (c # t)) < length s"
proof -
  assume d: "dropWhile (\<lambda>c. \<not> W c) s = c # t"
  then have "W c" by (metis dropWhile_eq_Cons_conv)
  then have "length (dropWhile W (c # t)) \<le> length t" by (simp add: length_dropWhile_le)
  also have "\<dots> < length (dropWhile (\<lambda>c. \<not> W c) s)" by (simp add: d)
  also have "\<dots> \<le> length s" by (rule length_dropWhile_le)
  finally show ?thesis .
qed

text \<open>\<open>re.findall("\w+", text)\<close>.\<close>

function words :: "(nat \<Rightarrow> bool) \<Rightarrow> ustr \<Rightarrow> ustr list" where
  "words W s =
     (case dropWhile (\<lambda>c. \<not> W c) s of
        [] \<Rightarrow> []
      | c # t \<Rightarrow> takeWhile W (c # t) # words W (dropWhile W (c # t)))"
  by auto

termination
  by (relation "measure (\<lambda>(W, s). length s)") (auto dest: length_dropWhile_words)

declare words.simps [simp del]

definition tokenize :: "unicode_db \<Rightarrow> ustr \<Rightarrow> ustr list" where
  "tokenize U text = words (is_word U) (lower U (normalize_for_matching U text))"

definition stem :: "ustr \<Rightarrow> ustr" where
  "stem token =
     (if list_all (\<lambda>c. c < 128) token
      then (if 4 < length token \<and> endswith token (u ''ies'') then take (length token - 3) token @ u ''y''
            else if 4 < length token \<and> list_ex (endswith token) [u ''sses'', u ''xes'', u ''ches'', u ''shes'']
            then take (length token - 2) token
            else if 3 < length token \<and> endswith token (u ''s'')
                   \<and> \<not> list_ex (endswith token) [u ''ss'', u ''us'', u ''is'']
            then take (length token - 1) token
            else token)
      else (case find (\<lambda>suffix. length suffix + 2 < length token \<and> endswith token suffix)
                  [[0x647, 0x627, 0x6CC], [0x647, 0x627]] of
              None \<Rightarrow> token
            | Some suffix \<Rightarrow> take (length token - length suffix) token))"

section \<open>Aliases\<close>

text \<open>An alias folded for matching, its stemmed words, and those with attached plurals stripped.\<close>

definition alias_form :: "unicode_db \<Rightarrow> ustr \<Rightarrow> ustr \<times> ustr list \<times> ustr list" where
  "alias_form U form =
     (let tokens = tokenize U form
      in (normalize_for_matching U form, map stem tokens, map stem (strip_plural_suffixes U tokens)))"

definition padded :: "ustr \<Rightarrow> ustr" where
  "padded s = [32] @ s @ [32]"

text \<open>\<open>_words_match\<close>; the words of the question stand for their joined text and for their set.\<close>

definition words_match :: "ustr list \<Rightarrow> ustr list \<Rightarrow> bool" where
  "words_match form_stems q_stems \<longleftrightarrow>
     (let stems = join [32] form_stems
      in stems \<noteq> [] \<and> contains (padded (join [32] q_stems)) (padded stems)
         \<or> 1 < length form_stems \<and> set form_stems \<subseteq> set q_stems)"

definition form_hits :: "unicode_db \<Rightarrow> ustr \<Rightarrow> ustr \<Rightarrow> bool" where
  "form_hits U question form =
     (let text = normalize_for_matching U question;
          tokens = tokenize U question;
          q_stems = map stem tokens;
          q_plural = map stem (strip_plural_suffixes U tokens)
      in case alias_form U form of
           (folded, form_stems, form_plural) \<Rightarrow>
             folded \<noteq> []
             \<and> (contains text folded
                \<or> words_match form_stems q_stems
                \<or> form_plural \<noteq> form_stems \<and> words_match form_plural q_stems
                \<or> q_plural \<noteq> q_stems \<and> words_match form_plural q_plural))"

definition alias_hits :: "unicode_db \<Rightarrow> ustr \<Rightarrow> (ustr, ustr list) odict \<Rightarrow> ustr list" where
  "alias_hits U question aliases = map fst (filter (\<lambda>(table, forms). list_ex (form_hits U question) forms) aliases)"

section \<open>The environment\<close>

record retrieval_env =
  rt_unicode :: unicode_db
  rt_round :: "rat \<Rightarrow> rat"
  rt_to_table :: "ustr \<Rightarrow> ustr list option"
  rt_entities :: "(ustr, ustr list) odict"
  rt_fact_patterns :: "(ustr, ustr list) odict"
  rt_fact_tables :: "ustr list"
  rt_always :: "ustr list"
  rt_descriptions :: "ustr list"
  rt_deployment :: deployment
  rt_keywords :: "(ustr, ustr list) odict"
  rt_forced :: "ustr \<Rightarrow> ustr list"
  rt_score :: "ustr \<Rightarrow> ustr \<Rightarrow> rat"
  rt_column :: "ustr \<Rightarrow> ustr \<Rightarrow> rat"
  rt_extra_tables :: int
  rt_extra_ratio :: rat
  rt_prune :: bool
  rt_prune_ratio :: rat
  rt_connect_hops :: int
  rt_hub_degree :: int
  rt_corroborate :: bool
  rt_graph :: join_graph
  rt_expand :: expand_env
  rt_relationships :: "(ustr, ustr) odict"

section \<open>Table references\<close>

definition fold_part :: "unicode_db \<Rightarrow> ustr \<Rightarrow> ustr" where
  "fold_part U text = lower U (strip text)"

definition key_parts :: "retrieval_env \<Rightarrow> ustr \<Rightarrow> ustr list" where
  "key_parts E key =
     (case split_table_key (rt_to_table E) key of
        Inl err \<Rightarrow> [fold_part (rt_unicode E) key]
      | Inr parts \<Rightarrow> map (fold_part (rt_unicode E)) parts)"

definition key_qualifier :: "retrieval_env \<Rightarrow> ustr \<Rightarrow> ustr list" where
  "key_qualifier E key = butlast (key_parts E key)"

text \<open>\<open>found[-len(wanted):] == wanted\<close> for a \<open>wanted\<close> that is not empty.\<close>

definition ends_with :: "'a list \<Rightarrow> 'a list \<Rightarrow> bool" where
  "ends_with xs ys \<longleftrightarrow> drop (length xs - length ys) xs = ys"

definition ref_candidates :: "retrieval_env \<Rightarrow> ustr \<Rightarrow> ustr list" where
  "ref_candidates E ref =
     (if ref \<in> set (rt_descriptions E) then [ref]
      else (let parts = key_parts E ref
            in case find (\<lambda>k. join [46] (key_parts E k) = join [46] parts) (rt_descriptions E) of
                 Some k \<Rightarrow> [k]
               | None \<Rightarrow>
                   (let found = filter (\<lambda>k. last (key_parts E k) = last parts) (rt_descriptions E); wanted = butlast parts
                    in if wanted \<noteq> [] then filter (\<lambda>k. ends_with (key_qualifier E k) wanted) found else found)))"

definition home_qualifiers :: "retrieval_env \<Rightarrow> ustr list list" where
  "home_qualifiers E =
     concat (map (\<lambda>ref. case ref_candidates E ref of [k] \<Rightarrow> [key_qualifier E k] | _ \<Rightarrow> [])
       (od_keys (rt_entities E) @ rt_fact_tables E @ od_keys (rt_fact_patterns E) @ rt_always E))"

definition keyword_sources :: "retrieval_env \<Rightarrow> ustr \<Rightarrow> ustr list" where
  "keyword_sources E text =
     (let hits = keyword_hits (rt_unicode E) text (rt_keywords E);
          best = Max (insert 0 (snd ` set hits))
      in if best = 0 then [] else map fst (filter (\<lambda>(s, n). n = best) hits))"

definition owners_of :: "retrieval_env \<Rightarrow> ustr \<Rightarrow> ustr list" where
  "owners_of E key = (case map_of (table_datasource_sets (rt_deployment E)) key of None \<Rightarrow> [] | Some ss \<Rightarrow> ss)"

definition narrow :: "retrieval_env \<Rightarrow> ustr option \<Rightarrow> ustr list \<Rightarrow> ustr list" where
  "narrow E text candidates =
     (if length candidates < 2 then candidates
      else (let wanted = (case text of
                            Some (c # s) \<Rightarrow>
                              if 1 < length (datasource_names (rt_deployment E)) then keyword_sources E (c # s) else []
                          | _ \<Rightarrow> []);
                in_sources = filter (\<lambda>k. list_ex (\<lambda>s. s \<in> set (owners_of E k)) wanted) candidates;
                at_home = filter (\<lambda>k. key_qualifier E k \<in> set (home_qualifiers E)) candidates
            in if in_sources \<noteq> [] then in_sources else if at_home \<noteq> [] then at_home else candidates))"

definition resolve_table_ref :: "retrieval_env \<Rightarrow> ustr \<Rightarrow> ustr option \<Rightarrow> ustr list" where
  "resolve_table_ref E ref text = narrow E text (ref_candidates E ref)"

text \<open>\<open>resolve_table_ref(ref) or (ref,)\<close>.\<close>

definition resolved_or_itself :: "retrieval_env \<Rightarrow> ustr option \<Rightarrow> ustr \<Rightarrow> ustr list" where
  "resolved_or_itself E text ref = (case resolve_table_ref E ref text of [] \<Rightarrow> [ref] | ks \<Rightarrow> ks)"

definition configured_fact_tables :: "retrieval_env \<Rightarrow> ustr list" where
  "configured_fact_tables E = concat (map (resolved_or_itself E None) (rt_fact_tables E))"

text \<open>\<open>named_tables\<close>: each key at its first mention.\<close>

definition first_mentions :: "'a list \<Rightarrow> 'a list" where
  "first_mentions xs = rev (remdups (rev xs))"

definition named_tables :: "retrieval_env \<Rightarrow> ustr \<Rightarrow> (ustr, ustr list) odict \<Rightarrow> ustr list" where
  "named_tables E question aliases =
     first_mentions (concat (map (resolved_or_itself E (Some question)) (alias_hits (rt_unicode E) question aliases)))"

section \<open>The ranking\<close>

definition forced_score :: rat where "forced_score = 10 ^ 9"

definition min_score :: rat where "min_score = 1 / 100"

definition top_n :: nat where "top_n = 6"

text \<open>The scores of \<open>rank_tables\<close>: of a forced table, and of a table with enough evidence.\<close>

definition table_scores :: "retrieval_env \<Rightarrow> ustr \<Rightarrow> (ustr, rat) odict" where
  "table_scores E question =
     fold (\<lambda>t scores.
            if min_score \<le> rt_score E question t
            then AList.update t (max (case map_of scores t of None \<Rightarrow> 0 | Some x \<Rightarrow> x) (rt_score E question t)) scores
            else scores)
       (rt_descriptions E) (map (\<lambda>t. (t, forced_score)) (rt_forced E question))"

definition rank_tables :: "retrieval_env \<Rightarrow> ustr \<Rightarrow> (ustr \<times> rat) list" where
  "rank_tables E question = sort_key (\<lambda>(t, s). (- s, t)) (table_scores E question)"

definition retrieve_tables :: "retrieval_env \<Rightarrow> ustr \<Rightarrow> ustr list" where
  "retrieve_tables E question =
     (let ranked = rank_tables E question
      in if ranked = [] then rt_descriptions E else map fst (take top_n ranked))"

text \<open>\<open>scored_extras\<close>: the tables of one kind the ranking adds to the configured ones.\<close>

definition scored_extras :: "retrieval_env \<Rightarrow> ustr \<Rightarrow> bool \<Rightarrow> ustr list \<Rightarrow> ustr list" where
  "scored_extras E question of_facts exclude =
     (if rt_extra_tables E \<le> 0 then []
      else (let pool = filter (\<lambda>(t, s). t \<in> set (rt_descriptions E) \<and> (t \<in> set (configured_fact_tables E)) = of_facts)
                         (rank_tables E question);
                forced = map fst (filter (\<lambda>(t, s). forced_score \<le> s \<and> t \<notin> set exclude) pool);
                unforced = filter (\<lambda>(t, s). s < forced_score) pool
            in if unforced = [] then forced
               else (let threshold = rt_round E (rt_extra_ratio E * snd (hd unforced));
                         extras = map fst (filter (\<lambda>(t, s). threshold \<le> s \<and> t \<notin> set exclude) unforced)
                     in forced @ take (nat (rt_extra_tables E)) extras)))"

section \<open>Candidates\<close>

definition retrieve_entities :: "retrieval_env \<Rightarrow> ustr \<Rightarrow> ustr list" where
  "retrieve_entities E question =
     (let results = named_tables E question (rt_entities E)
      in if results \<noteq> [] then results @ scored_extras E question False results
         else filter (\<lambda>t. t \<notin> set (configured_fact_tables E)) (retrieve_tables E question))"

definition retrieve_facts :: "retrieval_env \<Rightarrow> ustr \<Rightarrow> ustr list" where
  "retrieve_facts E question =
     (let matches = named_tables E question (rt_fact_patterns E)
      in if matches \<noteq> [] then matches @ scored_extras E question True matches
         else filter (\<lambda>t. t \<in> set (configured_fact_tables E)) (retrieve_tables E question))"

section \<open>Pruning\<close>

definition joined_to :: "retrieval_env \<Rightarrow> ustr list \<Rightarrow> ustr \<Rightarrow> bool" where
  "joined_to E tables t = connected_within (rt_graph E) t tables (rt_connect_hops E) (rt_hub_degree E)"

lemma length_filter_fewer: "x \<in> set xs \<Longrightarrow> \<not> P x \<Longrightarrow> length (filter P xs) < length xs"
  by (induction xs) (auto simp: le_imp_less_Suc)

text \<open>\<open>rescue\<close>: rounds that keep every pending table joined to a kept one, until none is.\<close>

function rescue :: "retrieval_env \<Rightarrow> ustr list \<Rightarrow> ustr list \<Rightarrow> ustr list \<times> ustr list" where
  "rescue E kept pending =
     (let rescued = filter (joined_to E kept) pending
      in if rescued = [] then (kept, pending)
         else rescue E (kept @ rescued) (filter (\<lambda>t. t \<notin> set kept \<and> t \<notin> set rescued) pending))"
  by auto

termination
proof (relation "measure (\<lambda>(E, kept, pending). length pending)")
  fix E kept pending rescued
  assume "rescued = filter (joined_to E kept) pending" "rescued \<noteq> []"
  then obtain t where "t \<in> set pending" "t \<in> set rescued" by (auto simp: filter_empty_conv)
  then show "((E, kept @ rescued, filter (\<lambda>t. t \<notin> set kept \<and> t \<notin> set rescued) pending), E, kept, pending)
      \<in> measure (\<lambda>(E, kept, pending). length pending)"
    using length_filter_fewer [of t pending "\<lambda>t. t \<notin> set kept \<and> t \<notin> set rescued"] by simp
qed simp

declare rescue.simps [simp del]

definition evidence_tables :: "retrieval_env \<Rightarrow> ustr \<Rightarrow> ustr list" where
  "evidence_tables E question =
     named_tables E question (rt_entities E) @ named_tables E question (rt_fact_patterns E)"

datatype tier = Strong | Column_tier | Lexical

definition tier_of :: "retrieval_env \<Rightarrow> ustr \<Rightarrow> ustr \<Rightarrow> tier" where
  "tier_of E question t =
     (case map_of (rank_tables E question) t of
        None \<Rightarrow> Strong
      | Some s \<Rightarrow>
          if t \<in> set (evidence_tables E question) \<or> forced_score \<le> s then Strong
          else if 0 < rt_column E question t then Column_tier else Lexical)"

text \<open>The candidates with an unforced score, and the best of them.\<close>

definition unforced_scores :: "retrieval_env \<Rightarrow> ustr \<Rightarrow> ustr list \<Rightarrow> (ustr \<times> rat) list" where
  "unforced_scores E question candidates =
     concat (map (\<lambda>t. case map_of (rank_tables E question) t of
                        None \<Rightarrow> [] | Some s \<Rightarrow> if s < forced_score then [(t, s)] else []) candidates)"

definition best_table :: "(ustr \<times> rat) list \<Rightarrow> ustr" where
  "best_table scores = fst (hd (sort_key (\<lambda>(t, s). (- s, t)) scores))"

definition prune_anchors :: "retrieval_env \<Rightarrow> ustr \<Rightarrow> ustr list \<Rightarrow> ustr list" where
  "prune_anchors E question candidates =
     (let scores = unforced_scores E question candidates;
          top = Max (snd ` set scores);
          passing = filter (\<lambda>t.
              tier_of E question t = Strong
              \<or> tier_of E question t = Column_tier
                \<and> rt_round E (rt_prune_ratio E * top) \<le> (case map_of scores t of None \<Rightarrow> 0 | Some s \<Rightarrow> s)) candidates
      in if passing = [] then [best_table scores] else passing)"

definition kept_tables :: "retrieval_env \<Rightarrow> ustr list \<Rightarrow> ustr list \<Rightarrow> ustr list" where
  "kept_tables E anchors candidates =
     (case rescue E anchors (filter (\<lambda>t. t \<notin> set anchors) candidates) of
        (kept, pending) \<Rightarrow>
          if \<not> rt_corroborate E then kept
          else (let pairs = filter (\<lambda>t. joined_to E (filter (\<lambda>s. s \<noteq> t) pending) t) pending;
                    kept2 = kept @ pairs
                in fst (rescue E kept2 (filter (\<lambda>t. t \<notin> set kept2) pending))))"

definition prune_selection :: "retrieval_env \<Rightarrow> ustr \<Rightarrow> ustr list \<Rightarrow> ustr list \<Rightarrow> ustr list \<times> ustr list" where
  "prune_selection E question entities facts =
     (let candidates = first_mentions (entities @ facts)
      in if \<not> rt_prune E \<or> length candidates < 2 \<or> unforced_scores E question candidates = [] then (entities, facts)
         else (let kept = kept_tables E (prune_anchors E question candidates) candidates
               in (filter (\<lambda>t. t \<in> set kept) entities, filter (\<lambda>t. t \<in> set kept) facts)))"

section \<open>The tables of a question\<close>

record selected_context =
  sc_entities :: "ustr list"
  sc_facts :: "ustr list"
  sc_join_tables :: "ustr list"
  sc_relationships :: "ustr list"

text \<open>\<open>RelationshipRetriever.retrieve\<close>; \<open>None\<close> is the ValueError of a name that is not one arrow.\<close>

definition arrow_ends :: "ustr \<Rightarrow> (ustr \<times> ustr) option" where
  "arrow_ends name = (case split_text (u '' -> '') name of [l, r] \<Rightarrow> Some (l, r) | _ \<Rightarrow> None)"

fun retrieve_relationships :: "ustr list \<Rightarrow> (ustr, ustr) odict \<Rightarrow> ustr list option" where
  "retrieve_relationships selected [] = Some []"
| "retrieve_relationships selected ((name, join_sql) # rels) =
     (case arrow_ends name of
        None \<Rightarrow> None
      | Some (l, r) \<Rightarrow>
          map_option (\<lambda>rest. if l \<in> set selected \<and> r \<in> set selected then join_sql # rest else rest)
            (retrieve_relationships selected rels))"

definition context_tables :: "retrieval_env \<Rightarrow> ustr \<Rightarrow> selected_context option" where
  "context_tables E question =
     (case prune_selection E question (retrieve_entities E question) (retrieve_facts E question) of
        (entities, facts) \<Rightarrow>
          (let selected = first_mentions (entities @ facts);
               join_tables = expand_join_paths (rt_expand E) selected
           in map_option (\<lambda>rels. \<lparr>sc_entities = entities, sc_facts = facts, sc_join_tables = join_tables,
                                  sc_relationships = rels\<rparr>)
                (retrieve_relationships (selected @ join_tables) (rt_relationships E))))"

section \<open>More tables to join to\<close>

lemma route_more_targets:
  assumes "set T \<subseteq> set T'" "route (path_query G s T m d src) k"
  shows "route (path_query G s T' m d src) k
    \<or> (\<exists>k'. connection (path_query G s T' m d src) k')"
  using assms(2)
proof (induction rule: route.induct)
  case Start
  show ?case using route.Start [of "path_query G s T' m d src"] by (simp add: path_query_def)
next
  case (Hop k k')
  show ?case
  proof (cases "at_target (path_query G s T' m d src) k")
    case True
    with Hop.IH show ?thesis unfolding connection_def by blast
  next
    case False
    have "in_source (path_query G s T' m d src) = in_source (path_query G s T m d src)"
      by (rule ext) (simp add: in_source_def path_query_def split: option.split)
    then have "expandable (path_query G s T' m d src) k" "k' \<in> set (extensions (path_query G s T' m d src) k)"
      using Hop(3,4) unfolding extensions_def by (simp_all add: expandable_def path_query_def)
    with False Hop.IH route.Hop show ?thesis by metis
  qed
qed

lemma connected_within_mono:
  assumes "connected_within G t T hops hub" "set T \<subseteq> set T'"
  shows "connected_within G t T' hops hub"
proof -
  let ?T = "filter (\<lambda>x. x \<noteq> t) T" and ?T' = "filter (\<lambda>x. x \<noteq> t) T'"
  from assms(1) have c: "\<not> hops < 1" "?T \<noteq> []" "t \<in> set (od_keys (jg_adjacency G))" "best_path G t ?T hops hub \<noteq> None"
    by (auto simp: connected_within_def Let_def split: if_splits)
  from c(4) best_key_spec [of G t ?T hops hub] obtain k src where
      "src \<in> set (start_sources G t)" "connection (path_query G t ?T hops hub src) k"
    unfolding best_path_def connections_def by blast
  moreover have "set ?T \<subseteq> set ?T'" using assms(2) by auto
  moreover have "at_target (path_query G t ?T hops hub src) k \<Longrightarrow> at_target (path_query G t ?T' hops hub src) k"
    using assms(2) by (auto simp: at_target_def path_query_def)
  ultimately have "\<exists>k'. connection (path_query G t ?T' hops hub src) k'"
    using route_more_targets [of ?T ?T' G t hops hub src k] unfolding connection_def by blast
  with \<open>src \<in> _\<close> have "connections G t ?T' hops hub \<noteq> {}" by (auto simp: connections_def)
  then have "best_path G t ?T' hops hub \<noteq> None"
    using conjunct1 [OF best_key_spec [of G t ?T' hops hub]] by (simp add: best_path_def)
  moreover have "?T' \<noteq> []" using c(2) \<open>set ?T \<subseteq> set ?T'\<close> by (metis list.set(1) set_empty subset_empty)
  ultimately show ?thesis using c(1,3) by (simp add: connected_within_def)
qed

lemma joined_to_mono: "joined_to E T t \<Longrightarrow> set T \<subseteq> set T' \<Longrightarrow> joined_to E T' t"
  unfolding joined_to_def by (rule connected_within_mono)

section \<open>What pruning keeps\<close>

text \<open>A candidate is supported when it is in the base or is joined to supported tables.\<close>

inductive supported :: "retrieval_env \<Rightarrow> ustr set \<Rightarrow> ustr list \<Rightarrow> ustr \<Rightarrow> bool" for E B C where
  Base: "t \<in> B \<Longrightarrow> supported E B C t"
| Joined: "t \<in> set C \<Longrightarrow> \<forall>s \<in> set ts. supported E B C s \<Longrightarrow> joined_to E ts t \<Longrightarrow> supported E B C t"

text \<open>Two candidates without support that are joined to each other corroborate each other.\<close>

definition corroborated :: "retrieval_env \<Rightarrow> ustr set \<Rightarrow> ustr list \<Rightarrow> ustr \<Rightarrow> bool" where
  "corroborated E B C t \<longleftrightarrow> rt_corroborate E \<and> t \<in> set C \<and> \<not> supported E B C t
     \<and> (\<exists>ts. set ts = {s \<in> set C. \<not> supported E B C s \<and> s \<noteq> t} \<and> joined_to E ts t)"

lemma rescue_result:
  assumes "rescue E kept pending = (kept', pending')"
  shows "set kept \<subseteq> set kept'" "set kept' \<union> set pending' = set kept \<union> set pending"
    "\<forall>t \<in> set pending'. \<not> joined_to E kept' t"
    "(\<forall>t \<in> set kept. supported E B C t) \<Longrightarrow> set pending \<subseteq> set C \<Longrightarrow> (\<forall>t \<in> set kept'. supported E B C t)"
    "set kept \<inter> set pending = {} \<Longrightarrow> set kept' \<inter> set pending' = {}"
  using assms
proof (induction E kept pending arbitrary: kept' pending' rule: rescue.induct)
  case (1 E kept pending)
  let ?r = "filter (joined_to E kept) pending"
  let ?k = "kept @ ?r" and ?p = "filter (\<lambda>t. t \<notin> set kept \<and> t \<notin> set ?r) pending"
  {
    case 1
    then show ?case
      using "1.IH"(1) [of ?r kept' pending'] by (auto simp: rescue.simps [of E kept pending] Let_def split: if_splits)
  next
    case 2
    then show ?case
      using "1.IH"(2) [of ?r kept' pending'] by (auto simp: rescue.simps [of E kept pending] Let_def split: if_splits)
  next
    case 3
    then show ?case
      using "1.IH"(3) [of ?r kept' pending']
      by (auto simp: rescue.simps [of E kept pending] Let_def filter_empty_conv split: if_splits)
  next
    case 4
    show ?case
    proof (cases "?r = []")
      case True
      with 4 show ?thesis by (simp add: rescue.simps [of E kept pending])
    next
      case False
      have "\<forall>t \<in> set ?k. supported E B C t"
        using 4(1,2) by (auto intro: supported.Joined)
      with "1.IH"(4) [of ?r kept' pending'] False 4 show ?thesis
        by (auto simp: rescue.simps [of E kept pending] Let_def)
    qed
  next
    case 5
    then show ?case
      using "1.IH"(5) [of ?r kept' pending'] by (auto simp: rescue.simps [of E kept pending] Let_def split: if_splits)
  }
qed

lemma rescue_closed:
  assumes "rescue E kept pending = (kept', pending')" "set C \<subseteq> set kept \<union> set pending" "supported E (set kept) C t"
  shows "t \<in> set kept'"
  using assms(3)
proof (induction rule: supported.induct)
  case (Base t)
  with rescue_result(1) [OF assms(1)] show ?case by blast
next
  case (Joined t ts)
  then have "joined_to E kept' t" by (intro joined_to_mono [OF Joined.hyps(2)]) blast
  with rescue_result(2,3) [OF assms(1)] Joined(1) assms(2) show ?case by blast
qed

lemma rescue_supported:
  assumes "rescue E kept pending = (kept', pending')" "set pending \<subseteq> set C" "set C \<subseteq> set kept \<union> set pending"
  shows "set kept' = {t. supported E (set kept) C t}"
  using rescue_result(4) [OF assms(1), of "set kept" C] rescue_closed [OF assms(1,3)] assms(2)
  by (auto intro: supported.Base)

lemma supported_base: "supported E B C t \<Longrightarrow> (\<forall>s \<in> B. supported E B' C s) \<Longrightarrow> supported E B' C t"
  by (induction rule: supported.induct) (auto intro: supported.Joined)

lemma kept_tables_supported:
  "set (kept_tables E anchors C) = {t. supported E (set anchors \<union> Collect (corroborated E (set anchors) C)) C t}"
proof -
  let ?A = "set anchors"
  obtain kept pending where r: "rescue E anchors (filter (\<lambda>t. t \<notin> ?A) C) = (kept, pending)" by fastforce
  have kept: "set kept = {t. supported E ?A C t}" by (rule rescue_supported [OF r]) auto
  have pending: "set pending = {t \<in> set C. \<not> supported E ?A C t}"
    using rescue_result(2,5) [OF r] kept by (auto intro: supported.Base)
  define pairs where "pairs = filter (\<lambda>t. joined_to E (filter (\<lambda>s. s \<noteq> t) pending) t) pending"
  show ?thesis
  proof (cases "rt_corroborate E")
    case False
    then have none: "?A \<union> Collect (corroborated E ?A C) = ?A" by (auto simp: corroborated_def)
    show ?thesis unfolding none using False r kept by (simp add: kept_tables_def)
  next
    case True
    obtain kept' pending' where r': "rescue E (kept @ pairs) (filter (\<lambda>t. t \<notin> set (kept @ pairs)) pending) = (kept', pending')"
      by fastforce
    have eq: "joined_to E ts t = joined_to E ts' t" if "set ts = set ts'" for ts ts' t
      using joined_to_mono that by blast
    have "t \<in> set pairs \<longleftrightarrow> corroborated E ?A C t" for t
    proof -
      have "set (filter (\<lambda>s. s \<noteq> t) pending) = {s \<in> set C. \<not> supported E ?A C s \<and> s \<noteq> t}" by (auto simp: pending)
      then have "(\<exists>ts. set ts = {s \<in> set C. \<not> supported E ?A C s \<and> s \<noteq> t} \<and> joined_to E ts t)
          \<longleftrightarrow> joined_to E (filter (\<lambda>s. s \<noteq> t) pending) t"
        using eq by metis
      with True show ?thesis by (auto simp: pairs_def corroborated_def pending)
    qed
    then have pairs: "set pairs = Collect (corroborated E ?A C)" by blast
    have "set kept' = {t. supported E (set (kept @ pairs)) C t}"
      by (rule rescue_supported [OF r']) (auto simp: pending kept)
    moreover have "{t. supported E (set (kept @ pairs)) C t} = {t. supported E (?A \<union> Collect (corroborated E ?A C)) C t}"
      using supported_base [of E ?A C _ "?A \<union> Collect (corroborated E ?A C)"]
      by (auto simp: kept pairs intro: supported.Base elim!: supported_base)
    moreover have "kept_tables E anchors C = kept'"
      unfolding kept_tables_def r prod.case Let_def pairs_def [symmetric] r' using True by simp
    ultimately show ?thesis by simp
  qed
qed

text \<open>
  C39. Pruning keeps exactly the retrieved tables the evidence and the join graph support: the anchors,
  tables without support that are joined to each other (where that rule is on), and what is joined to
  tables that are kept, in as many rounds as it takes and whatever the order. A table that an alias or
  a pattern names, that is forced, or that no signal explains is never dropped; and what is kept stays
  in its order.
\<close>

theorem pruning_keeps_the_supported:
  assumes "prune_selection E q entities facts = (es, fs)" "rt_prune E"
    and "unforced_scores E q (first_mentions (entities @ facts)) \<noteq> []"
  defines "C \<equiv> first_mentions (entities @ facts)"
  defines "A \<equiv> set (prune_anchors E q C)"
  defines "kept \<equiv> (\<lambda>t. length C < 2 \<or> supported E (A \<union> Collect (corroborated E A C)) C t)"
  shows "es = filter kept entities \<and> fs = filter kept facts
    \<and> (\<forall>t \<in> set entities \<union> set facts. tier_of E q t = Strong \<longrightarrow> kept t)"
proof -
  have set: "set C = set entities \<union> set facts" by (auto simp: C_def first_mentions_def)
  have "t \<in> A" if "t \<in> set C" "tier_of E q t = Strong" for t
    using that by (auto simp: A_def prune_anchors_def Let_def filter_empty_conv)
  then have strong: "\<forall>t \<in> set entities \<union> set facts. tier_of E q t = Strong \<longrightarrow> kept t"
    unfolding set [symmetric] kept_def by (auto intro: supported.Base)
  have kt: "t \<in> set (kept_tables E (prune_anchors E q C) C)
      \<longleftrightarrow> supported E (A \<union> Collect (corroborated E A C)) C t" for t
    by (simp add: kept_tables_supported A_def)
  have "es = filter kept entities \<and> fs = filter kept facts"
  proof (cases "length C < 2")
    case True
    with assms(1) show ?thesis by (simp add: prune_selection_def kept_def C_def)
  next
    case False
    with assms(1-3) show ?thesis by (simp add: prune_selection_def kept_def C_def [symmetric] kt)
  qed
  with strong show ?thesis by blast
qed

text \<open>The best-scored table is not an anchor when only its description matched and another table is.\<close>

theorem best_table_may_be_dropped:
  assumes "prune_anchors E q C = [t]" "best_table (unforced_scores E q C) \<noteq> t"
    and "jg_adjacency (rt_graph E) = []"
  shows "best_table (unforced_scores E q C) \<notin> set (kept_tables E (prune_anchors E q C) C)"
proof -
  have alone: "\<not> joined_to E ts s" for ts s
    using assms(3) by (simp add: joined_to_def connected_within_def od_keys_def)
  then have none: "{t} \<union> Collect (corroborated E {t} C) = {t}" by (auto simp: corroborated_def)
  have "s = t" if "supported E {t} C s" for s
    using that by (cases rule: supported.cases) (auto simp: alone)
  moreover have "set [t] \<union> Collect (corroborated E (set [t]) C) = {t}" using none by simp
  then have "set (kept_tables E [t] C) = {s. supported E {t} C s}"
    using kept_tables_supported [of E "[t]" C] by (simp only:)
  ultimately show ?thesis using assms(1,2) by auto
qed

section \<open>Each table once\<close>

lemma distinct_first_mentions [simp]: "distinct (first_mentions xs)" "set (first_mentions xs) = set xs"
  by (simp_all add: first_mentions_def)

lemma keys_update_scores:
  "distinct (map fst scores) \<Longrightarrow> distinct (map fst (if P then AList.update t v scores else scores))"
  by (simp add: distinct_update)

lemma distinct_table_scores:
  assumes "distinct (rt_forced E q)"
  shows "distinct (map fst (table_scores E q))"
proof -
  have "distinct (map fst (fold (\<lambda>t scores. if P t then AList.update t (f t scores) scores else scores) ts init))"
    if "distinct (map fst init)" for ts init P and f :: "ustr \<Rightarrow> (ustr, rat) odict \<Rightarrow> rat"
    using that by (induction ts arbitrary: init) (simp_all add: distinct_update)
  with assms show ?thesis by (simp add: table_scores_def comp_def)
qed

lemma distinct_rank_tables: "distinct (rt_forced E q) \<Longrightarrow> distinct (map fst (rank_tables E q))"
  using distinct_table_scores [of E q] by (simp add: rank_tables_def distinct_map inj_on_def)

lemma distinct_map_filter: "distinct (map fst xs) \<Longrightarrow> distinct (map fst (filter P xs))"
  by (induction xs) auto

lemma keys_disjoint:
  "distinct (map fst xs) \<Longrightarrow> (t, a) \<in> set xs \<Longrightarrow> (t, b) \<in> set xs \<Longrightarrow> a = b"
  by (metis map_of_eq_Some_iff option.inject)

lemma scored_extras_facts:
  assumes "distinct (rt_forced E q)"
  shows "distinct (scored_extras E q k ex) \<and> set (scored_extras E q k ex) \<inter> set ex = {}"
proof -
  define pool where "pool = filter (\<lambda>(t, s). t \<in> set (rt_descriptions E) \<and> (t \<in> set (configured_fact_tables E)) = k)
      (rank_tables E q)"
  have pool: "distinct (map fst pool)"
    unfolding pool_def by (rule distinct_map_filter [OF distinct_rank_tables [OF assms]])
  define forced where "forced = map fst (filter (\<lambda>(t, s). forced_score \<le> s \<and> t \<notin> set ex) pool)"
  define unforced where "unforced = filter (\<lambda>(t, s). s < forced_score) pool"
  have f: "distinct forced" "set forced \<inter> set ex = {}"
    using distinct_map_filter [OF pool] by (auto simp: forced_def)
  have x: "distinct (map fst (filter P unforced))" for P
    unfolding unforced_def by (intro distinct_map_filter pool)
  have sep: "t \<notin> set forced" if "(t, s) \<in> set unforced" for t s
    using that keys_disjoint [OF pool, of t s] by (auto simp: forced_def unforced_def)
  define extras where
    "extras = map fst (filter (\<lambda>(t, s). rt_round E (rt_extra_ratio E * snd (hd unforced)) \<le> s \<and> t \<notin> set ex) unforced)"
  have e: "distinct (take n extras)" "set (take n extras) \<inter> set ex = {}" "set (take n extras) \<inter> set forced = {}" for n
    using x [of "\<lambda>(t, s). rt_round E (rt_extra_ratio E * snd (hd unforced)) \<le> s \<and> t \<notin> set ex"] sep
      set_take_subset [of n extras] by (auto simp: extras_def)
  show ?thesis
    using f e [of "nat (rt_extra_tables E)"]
    by (auto simp: scored_extras_def Let_def pool_def [symmetric] forced_def [symmetric] unforced_def [symmetric]
        extras_def [symmetric])
qed

text \<open>
  C40. Each retriever returns a table at most once, whichever way it found it: configured tables first, the
  ranking's extras after them, or the fallback. Every configured table the question names is there.
\<close>

theorem each_table_retrieved_once:
  assumes "distinct (rt_descriptions E)" "distinct (rt_forced E q)"
  shows "distinct (retrieve_entities E q) \<and> distinct (retrieve_facts E q)
    \<and> set (named_tables E q (rt_entities E)) \<subseteq> set (retrieve_entities E q)
    \<and> set (named_tables E q (rt_fact_patterns E)) \<subseteq> set (retrieve_facts E q)"
proof -
  have "distinct (retrieve_tables E q)"
    using assms(1) distinct_rank_tables [OF assms(2)] by (simp add: retrieve_tables_def Let_def distinct_take take_map [symmetric])
  moreover have "distinct (named_tables E q a)" for a by (simp add: named_tables_def)
  ultimately show ?thesis
    using scored_extras_facts [OF assms(2), of False "named_tables E q (rt_entities E)"]
      scored_extras_facts [OF assms(2), of True "named_tables E q (rt_fact_patterns E)"]
    by (auto simp: retrieve_entities_def retrieve_facts_def Let_def)
qed

section \<open>References and aliases\<close>

lemma narrow_subset: "set (narrow E text ks) \<subseteq> set ks"
  by (auto simp: narrow_def Let_def split: if_splits)

lemma narrow_Nil: "narrow E text ks = [] \<longleftrightarrow> ks = []"
  by (auto simp: narrow_def Let_def split: if_splits)

text \<open>
  A configured reference resolves to one of the keys it can mean, and to none only when it can mean
  none: neither the question's source nor the home schemas can empty it. A key is itself.
\<close>

theorem references_resolve:
  "set (resolve_table_ref E ref text) \<subseteq> set (ref_candidates E ref)
   \<and> (resolve_table_ref E ref text = [] \<longleftrightarrow> ref_candidates E ref = [])
   \<and> set (ref_candidates E ref) \<subseteq> set (rt_descriptions E)
   \<and> (ref \<in> set (rt_descriptions E) \<longrightarrow> resolve_table_ref E ref text = [ref])"
proof -
  have "set (ref_candidates E ref) \<subseteq> set (rt_descriptions E)"
    by (auto simp: ref_candidates_def Let_def find_Some_iff split: option.splits)
  moreover have "resolve_table_ref E ref text = [ref]" if "ref \<in> set (rt_descriptions E)"
    using that by (simp add: resolve_table_ref_def ref_candidates_def narrow_def)
  ultimately show ?thesis using narrow_subset narrow_Nil unfolding resolve_table_ref_def by blast
qed

text \<open>A table whose alias the folded question contains is found, and every key it resolves to is retrieved.\<close>

theorem alias_in_question_is_found:
  assumes "(table, forms) \<in> set (rt_entities E)" "form \<in> set forms"
    and "normalize_for_matching (rt_unicode E) form \<noteq> []"
    and "contains (normalize_for_matching (rt_unicode E) q) (normalize_for_matching (rt_unicode E) form)"
  shows "set (resolved_or_itself E (Some q) table) \<subseteq> set (retrieve_entities E q)"
proof -
  have "form_hits (rt_unicode E) q form"
    using assms(3,4) by (simp add: form_hits_def alias_form_def Let_def)
  with assms(1,2) have "table \<in> set (alias_hits (rt_unicode E) q (rt_entities E))"
    by (force simp: alias_hits_def list_ex_iff)
  then have "set (resolved_or_itself E (Some q) table) \<subseteq> set (named_tables E q (rt_entities E))"
    by (auto simp: named_tables_def first_mentions_def)
  moreover have "resolved_or_itself E (Some q) table \<noteq> []"
    by (auto simp: resolved_or_itself_def split: list.splits)
  ultimately show ?thesis by (auto simp: retrieve_entities_def Let_def)
qed

section \<open>A small deployment\<close>

text \<open>The question matches the description of one table; the other candidate has no score.\<close>

definition example_retrieval :: retrieval_env where
  "example_retrieval =
     \<lparr>rt_unicode = ascii_db, rt_round = id, rt_to_table = (\<lambda>k. Some [k]), rt_entities = [], rt_fact_patterns = [],
      rt_fact_tables = [], rt_always = [], rt_descriptions = [u ''Customer'', u ''Note''],
      rt_deployment = \<lparr>dp_config = None, dp_table_sources = []\<rparr>, rt_keywords = [], rt_forced = (\<lambda>q. []),
      rt_score = (\<lambda>q t. if t = u ''Note'' then 1 else 0), rt_column = (\<lambda>q t. 0), rt_extra_tables = 2,
      rt_extra_ratio = 1 / 2, rt_prune = True, rt_prune_ratio = 1 / 2, rt_connect_hops = 1, rt_hub_degree = 5,
      rt_corroborate = False, rt_graph = \<lparr>jg_adjacency = [], jg_sources = []\<rparr>,
      rt_expand = \<lparr>ee_enabled = False, ee_graph = \<lparr>jg_adjacency = [], jg_sources = []\<rparr>, ee_max_hops = 0,
        ee_max_hub = 0, ee_max_added = 0, ee_fits = (\<lambda>ts. True), ee_facts = []\<rparr>, rt_relationships = []\<rparr>"

lemma example_ranking: "rank_tables example_retrieval q = [(u ''Note'', 1)]"
  by (simp add: rank_tables_def table_scores_def example_retrieval_def min_score_def)

theorem pruning_keeps_the_supported_witness:
  "u ''Customer'' \<in> set (fst (prune_selection example_retrieval (u ''q'') [u ''Customer'', u ''Note''] []))"
proof -
  let ?es = "[u ''Customer'', u ''Note'']"
  have "tier_of example_retrieval (u ''q'') (u ''Customer'') = Strong"
    by (simp add: tier_of_def example_ranking)
  moreover have "rt_prune example_retrieval" by (simp add: example_retrieval_def)
  moreover have "unforced_scores example_retrieval (u ''q'') (first_mentions (?es @ [])) \<noteq> []"
    by (simp add: unforced_scores_def first_mentions_def example_ranking forced_score_def)
  ultimately show ?thesis
    using pruning_keeps_the_supported [OF surjective_pairing, of example_retrieval "u ''q''" ?es "[]"] by simp
qed

theorem each_table_retrieved_once_witness:
  "distinct (retrieve_entities example_retrieval (u ''q'')) \<and> distinct (retrieve_facts example_retrieval (u ''q''))"
proof -
  have "distinct (rt_descriptions example_retrieval)" "distinct (rt_forced example_retrieval (u ''q''))"
    by (simp_all add: example_retrieval_def)
  from each_table_retrieved_once [OF this] show ?thesis by blast
qed

end
