(* ===== verification/Spec2Isabelle.thy ===== *)
theory Spec2Isabelle
  imports Prelude Persian_Text Query_Cache Datasource_Routing Schema_Config Column_Policy Auth
    Source_Selection Llm_Endpoints Llm_Router Source_Routing Sql_Agent Key_Store Decision_Queue Audit_Join Rotating_Log Access_Requests Feedback Join_Paths Join_Graph Session_Store Turn_Policy Turn_Engine Turn_Ask
    Sql_Ast Dialects Sql_Text Sql_Guard Guard_Safety Sql_Cap Sql_Pipeline Config_Versions Config_History Request_Gate Rate_Limit Admission Agent_World Query_Runner Query_Answers Untrusted_Text Py_Float Result_Compare Answer_Match Table_Retrieval
begin

text \<open>
  A model of local-sql-agent, a service that answers questions in natural language (often Persian)
  by letting a language model write SQL, checking the SQL, and running it on one of several
  databases. Each theory models a part of the program from its source under src/.

  \<^item> Prelude: code points, strings as lists of code points, ordered dictionaries (an association
    list with Python's insertion order), and the generic lemmas the components share.
  \<^item> Persian_Text (core/persian.py): the normalisations used for matching. The Unicode tables of
    Python are the parameter record unicode_db.
  \<^item> Query_Cache (api/query_cache.py): the result cache with expiry and eviction, as a state and
    timed operations.
  \<^item> Datasource_Routing (database/datasources.py): which source owns which tables and which source
    a statement runs on.
  \<^item> Schema_Config (schema_data/registry.py, schema_data/schema_config.py): validation of the schema
    and what the registry derives from it.
  \<^item> Column_Policy (security/column_policy.py): which columns a caller may not read.
  \<^item> Auth (security/auth.py): parsing the configured keys, resolving a caller, and the scope text a
    cached answer is filed under.
  \<^item> Key_Store (appdb/key_store.py, appdb/roles.py): issued keys, their revocation, the cached key
    set, grants of capabilities, and the interleavings of requests that overlap.
  \<^item> Source_Selection (retrieval/source_selector.py), Source_Routing: which source a question goes to.
  \<^item> Llm_Endpoints (llm/endpoints.py, llm/trust.py, llm/prefix_activity.py), Llm_Router
    (llm/router.py): the configured model endpoints, their trust, and the fallback chain of a task.
  \<^item> Sql_Agent (llm/sql_agent.py): the loop that asks for SQL, checks it, runs it and asks for
    corrections.
\<close>

end
